(* ===== verification/Prelude.thy ===== *)
theory Prelude
  imports Complex_Main "HOL-Library.Char_ord" "HOL-Library.List_Lexorder" "HOL-Library.Product_Lexorder"
begin

text \<open>
  What the component theories share: Go's clock values and integer division, the functions of
  the packages \<open>strings\<close> and \<open>sort\<close> that the sources call, and finite maps with an explicit
  iteration order.

  Conventions.
  \<^item> A Go \<open>string\<close> is the list of its bytes (\<open>string\<close>, a list of 8-bit characters), so \<open>length\<close>
    is Go's \<open>len\<close>. Case mapping and white space are the ASCII ones.
  \<^item> A \<open>time.Time\<close> is the number of nanoseconds since the Unix epoch, and Go's zero time is the
    instant \<open>zero_time\<close>, as \<open>IsZero\<close> reads it. A \<open>time.Duration\<close> is a number of nanoseconds.
  \<^item> A Go map is a partial function. Where the code depends on \<open>len\<close> or ranges over a map, the
    operation takes the order \<open>ks\<close> in which the runtime happens to visit the keys, and its lemmas
    hold for every such order.
\<close>

named_theorems go_defs "definitions of the standard library functions in use"

type_synonym ident = string
type_synonym instant = int
type_synonym duration = int

section \<open>Time\<close>

abbreviation (input) millisecond :: duration where "millisecond \<equiv> 1000000"
abbreviation (input) second :: duration where "second \<equiv> 1000000000"
abbreviation (input) minute :: duration where "minute \<equiv> 60000000000"
abbreviation (input) hour :: duration where "hour \<equiv> 3600000000000"

definition zero_time :: instant where
  "zero_time = - 62135596800 * second"

definition is_zero :: "instant \<Rightarrow> bool" where
  "is_zero t \<longleftrightarrow> t = zero_time"

text \<open>Go's integer division and remainder truncate towards zero.\<close>

definition go_div :: "int \<Rightarrow> int \<Rightarrow> int" where
  "go_div a b = sgn a * sgn b * (\<bar>a\<bar> div \<bar>b\<bar>)"

definition go_mod :: "int \<Rightarrow> int \<Rightarrow> int" where
  "go_mod a b = a - b * go_div a b"

lemma go_div_nonneg [simp]: "0 \<le> a \<Longrightarrow> 0 < b \<Longrightarrow> go_div a b = a div b"
  by (cases "a = 0") (auto simp: go_div_def)

lemma go_mod_nonneg [simp]: "0 \<le> a \<Longrightarrow> 0 < b \<Longrightarrow> go_mod a b = a mod b"
  by (simp add: go_mod_def minus_mult_div_eq_mod)

text \<open>\<open>t.Unix()\<close> floors to seconds, \<open>t.UnixMilli()\<close> to milliseconds; \<open>t.Truncate(d)\<close> rounds
  down to a multiple of \<open>d\<close> since the zero time.\<close>

definition unix_seconds :: "instant \<Rightarrow> int" where
  "unix_seconds t = t div second"

definition unix_milli :: "instant \<Rightarrow> int" where
  "unix_milli t = t div millisecond"

definition truncate_time :: "instant \<Rightarrow> duration \<Rightarrow> instant" where
  "truncate_time t d = t - (t - zero_time) mod d"

section \<open>Strings\<close>

definition is_space :: "char \<Rightarrow> bool" where
  "is_space c \<longleftrightarrow> c \<in> set [CHR 0x09, CHR 0x0A, CHR 0x0B, CHR 0x0C, CHR 0x0D, CHR '' '']"

definition trim_space :: "string \<Rightarrow> string" where
  "trim_space s = rev (dropWhile is_space (rev (dropWhile is_space s)))"

definition lower_char :: "char \<Rightarrow> char" where
  "lower_char c = (let n = of_char c :: nat in if 65 \<le> n \<and> n \<le> 90 then char_of (n + 32) else c)"

definition to_lower :: "string \<Rightarrow> string" where
  "to_lower s = map lower_char s"

fun split_on :: "char \<Rightarrow> string \<Rightarrow> string list" where
  "split_on c [] = [[]]"
| "split_on c (x # xs) =
     (if x = c then [] # split_on c xs
      else (case split_on c xs of [] \<Rightarrow> [[x]] | y # ys \<Rightarrow> (x # y) # ys))"

fun join_with :: "string \<Rightarrow> string list \<Rightarrow> string" where
  "join_with sep [] = []"
| "join_with sep [s] = s"
| "join_with sep (s # t # ts) = s @ sep @ join_with sep (t # ts)"

definition has_prefix :: "string \<Rightarrow> string \<Rightarrow> bool" where
  "has_prefix s p \<longleftrightarrow> take (length p) s = p"

fun str_contains :: "string \<Rightarrow> string \<Rightarrow> bool" where
  "str_contains [] t \<longleftrightarrow> t = []"
| "str_contains (c # s) t \<longleftrightarrow> has_prefix (c # s) t \<or> str_contains s t"

text \<open>\<open>strings.Index\<close> for a one-byte separator: the first position, or \<open>None\<close> for \<open>-1\<close>.\<close>

fun index_byte :: "string \<Rightarrow> char \<Rightarrow> nat option" where
  "index_byte [] c = None"
| "index_byte (x # xs) c = (if x = c then Some 0 else map_option Suc (index_byte xs c))"

lemmas [go_defs] = is_space_def trim_space_def lower_char_def to_lower_def has_prefix_def

lemma split_on_not_Nil [simp]: "split_on c s \<noteq> []"
  by (induction s) (auto split: list.splits)

lemma split_on_free: "p \<in> set (split_on c s) \<Longrightarrow> c \<notin> set p"
proof (induction s arbitrary: p)
  case Nil
  then show ?case by simp
next
  case (Cons x xs)
  obtain y ys where split: "split_on c xs = y # ys"
    by (cases "split_on c xs") auto
  show ?case
    using Cons split by (cases "x = c") auto
qed

lemma split_on_append: "c \<notin> set p \<Longrightarrow> split_on c (p @ c # s) = p # split_on c s"
  by (induction p) auto

lemma split_on_single: "c \<notin> set p \<Longrightarrow> split_on c p = [p]"
  by (induction p) auto

lemma split_join:
  "ps \<noteq> [] \<Longrightarrow> (\<forall>p \<in> set ps. c \<notin> set p) \<Longrightarrow> split_on c (join_with [c] ps) = ps"
  by (induction "[c]" ps rule: join_with.induct) (auto simp: split_on_append split_on_single)

lemma trim_space_keeps: "c \<in> set (trim_space s) \<Longrightarrow> c \<in> set s"
  by (auto simp: trim_space_def dest!: set_dropWhileD)

lemma trim_ends:
  assumes "trim_space s \<noteq> []"
  shows "\<not> is_space (hd (trim_space s))" and "\<not> is_space (last (trim_space s))"
proof -
  define t where "t = dropWhile is_space s"
  have trim: "trim_space s = rev (dropWhile is_space (rev t))"
    by (simp add: trim_space_def t_def)
  then have ne: "dropWhile is_space (rev t) \<noteq> []"
    using assms by simp
  then show "\<not> is_space (last (trim_space s))"
    by (metis trim hd_dropWhile last_rev)
  have "t \<noteq> []" using ne by auto
  then have hd_t: "\<not> is_space (hd t)"
    unfolding t_def by (rule hd_dropWhile)
  have "t = rev (dropWhile is_space (rev t)) @ rev (takeWhile is_space (rev t))"
    by (metis rev_append rev_rev_ident takeWhile_dropWhile_id)
  then have "hd t = hd (trim_space s)"
    using assms trim by (metis hd_append2)
  with hd_t show "\<not> is_space (hd (trim_space s))" by simp
qed

lemma trim_space_id:
  assumes "s \<noteq> []" "\<not> is_space (hd s)" "\<not> is_space (last s)"
  shows "trim_space s = s"
proof -
  have "dropWhile is_space s = s"
    using assms(1,2) by (cases s) auto
  moreover have "dropWhile is_space (rev s) = rev s"
    using assms(1,3) by (cases s rule: rev_cases) auto
  ultimately show ?thesis by (simp add: trim_space_def)
qed

lemma trim_space_idem [simp]: "trim_space (trim_space s) = trim_space s"
proof (cases "trim_space s = []")
  case True
  have "trim_space [] = []" by (simp add: trim_space_def)
  with True show ?thesis by (simp only:)
next
  case False
  then show ?thesis by (intro trim_space_id trim_ends)
qed

section \<open>Maps with an iteration order\<close>

definition iterates :: "'k list \<Rightarrow> ('k \<rightharpoonup> 'v) \<Rightarrow> bool" where
  "iterates ks m \<longleftrightarrow> distinct ks \<and> set ks = dom m"

definition go_len :: "'k list \<Rightarrow> ('k \<rightharpoonup> 'v) \<Rightarrow> nat" where
  "go_len ks m = length (filter (\<lambda>k. m k \<noteq> None) ks)"

lemma go_len_card: "distinct ks \<Longrightarrow> dom m \<subseteq> set ks \<Longrightarrow> go_len ks m = card (dom m)"
proof -
  assume "distinct ks" "dom m \<subseteq> set ks"
  moreover from this have "set (filter (\<lambda>k. m k \<noteq> None) ks) = dom m" by auto
  ultimately show ?thesis
    by (metis distinct_card distinct_filter go_len_def)
qed

lemma iterates_len: "iterates ks m \<Longrightarrow> go_len ks m = card (dom m)"
  by (simp add: iterates_def go_len_card)

end
