(* ===== verification/Effort.thy ===== *)
theory Effort
  imports Prelude
begin

text \<open>
  \<^verbatim>\<open>internal/effort/effort.go\<close>: the scale of thinking levels. A \<open>Level\<close> is a Go string, so
  values outside the scale exist and are handled as the code handles them.
\<close>

type_synonym level = string

section \<open>The scale\<close>

definition Unset :: level where "Unset = ''''"
definition NoneLevel :: level where "NoneLevel = ''none''"
definition Minimal :: level where "Minimal = ''minimal''"
definition Low :: level where "Low = ''low''"
definition Medium :: level where "Medium = ''medium''"
definition High :: level where "High = ''high''"
definition XHigh :: level where "XHigh = ''xhigh''"
definition MaxLevel :: level where "MaxLevel = ''max''"

lemmas level_defs = Unset_def NoneLevel_def Minimal_def Low_def Medium_def High_def XHigh_def
  MaxLevel_def

definition KnownLevels :: "level list" where
  "KnownLevels = [Minimal, Low, Medium, High, XHigh, MaxLevel]"

fun rank_from :: "int \<Rightarrow> level list \<Rightarrow> level \<Rightarrow> int" where
  "rank_from i [] l = -1"
| "rank_from i (k # ks) l = (if k = l then i else rank_from (i + 1) ks l)"

definition rankOf :: "level \<Rightarrow> int" where
  "rankOf l = rank_from 0 KnownLevels l"

definition normalizeAlias :: "string \<Rightarrow> level" where
  "normalizeAlias s =
     (let t = to_lower (trim_space s) in
      if t \<in> set [''none'', ''off'', ''disabled''] then NoneLevel
      else if t \<in> set [''minimal'', ''min''] then Minimal
      else if t = ''low'' then Low
      else if t \<in> set [''medium'', ''mid'', ''default''] then Medium
      else if t = ''high'' then High
      else if t \<in> set [''xhigh'', ''x-high'', ''x_high'', ''extra_high'', ''very_high''] then XHigh
      else if t \<in> set [''max'', ''maximum''] then MaxLevel
      else Unset)"

definition Parse :: "string \<Rightarrow> level" where
  "Parse s = normalizeAlias s"

section \<open>Parsing and printing a list of levels\<close>

definition contains :: "string list \<Rightarrow> string \<Rightarrow> bool" where
  "contains s v \<longleftrightarrow> (\<exists>x \<in> set s. x = v)"

text \<open>One round of the loop in \<open>ParseLevels\<close>; \<open>known\<close> doubles as the set \<open>seen\<close>, which the loop
  extends exactly when it extends \<open>known\<close>.\<close>

definition parse_part :: "string \<Rightarrow> level list \<times> string list \<Rightarrow> level list \<times> string list" where
  "parse_part raw acc =
     (case acc of (known, unknown) \<Rightarrow>
      (let part = trim_space raw in
       if part = '''' then (known, unknown)
       else (let lv = normalizeAlias part in
         if lv = Unset then (known, if contains unknown part then unknown else unknown @ [part])
         else if lv = NoneLevel \<or> contains known lv then (known, unknown)
         else (known @ [lv], unknown))))"

definition ParseLevels :: "string \<Rightarrow> level list \<times> string list" where
  "ParseLevels csv =
     (case fold parse_part (split_on (CHR '','') csv) ([], []) of
        (known, unknown) \<Rightarrow> (sort_key rankOf known, unknown))"

definition FormatLevels :: "level list \<Rightarrow> string list \<Rightarrow> string" where
  "FormatLevels known unknown = join_with '','' (known @ unknown)"

section \<open>Clamping\<close>

text \<open>The loop state is \<open>(best, bestDist, found)\<close>.\<close>

definition clamp_step :: "int \<Rightarrow> level \<Rightarrow> level \<times> int \<times> bool \<Rightarrow> level \<times> int \<times> bool" where
  "clamp_step w s acc =
     (case acc of (best, bestDist, found) \<Rightarrow>
      (let r = rankOf s in
       if r < 0 then (best, bestDist, found)
       else (let d = (if r - w < 0 then - (r - w) else r - w) in
         if \<not> found \<or> d < bestDist \<or> (d = bestDist \<and> r > rankOf best)
         then (s, d, True) else (best, bestDist, found))))"

definition Clamp :: "level \<Rightarrow> level list \<Rightarrow> level" where
  "Clamp wanted supported =
     (if supported = [] \<or> wanted = Unset then wanted
      else (let w = rankOf wanted in
        if w < 0 then wanted
        else (case fold (clamp_step w) supported ('''', -1, False) of
                (best, _, found) \<Rightarrow> if found then best else wanted)))"

definition Supports :: "level \<Rightarrow> level list \<Rightarrow> bool" where
  "Supports wanted supported \<longleftrightarrow>
     wanted = Unset \<or> supported = [] \<or> (\<exists>s \<in> set supported. s = wanted)"

definition ToRosettaLevel :: "level \<Rightarrow> string" where
  "ToRosettaLevel l =
     (let c = Clamp l KnownLevels in
      if c \<in> set [Minimal, Low] then ''low''
      else if c \<in> set [High, XHigh, MaxLevel] then ''high''
      else ''medium'')"

definition ToThinkingLevel :: "level \<Rightarrow> string \<times> bool" where
  "ToThinkingLevel l =
     (if l = NoneLevel then ('''', False)
      else if l \<in> set [Minimal, Low] then (''low'', True)
      else if l = Medium then (''medium'', True)
      else if l \<in> set [High, XHigh, MaxLevel] then (''high'', True)
      else ('''', False))"

section \<open>Facts about the scale\<close>

lemma rank_from_range: "rank_from i ks l = -1 \<or> (i \<le> rank_from i ks l \<and> l \<in> set ks)"
  by (induction i ks l rule: rank_from.induct) auto

lemma rank_from_index:
  "0 \<le> i \<Longrightarrow> 0 \<le> rank_from i ks l \<Longrightarrow> ks ! nat (rank_from i ks l - i) = l"
proof (induction i ks l rule: rank_from.induct)
  case (1 i l)
  then show ?case by simp
next
  case (2 i k ks l)
  show ?case
  proof (cases "k = l")
    case True
    then show ?thesis by simp
  next
    case False
    with 2 have "i + 1 \<le> rank_from (i + 1) ks l"
      using rank_from_range [of "i + 1" ks l] by auto
    then have "nat (rank_from (i + 1) ks l - i) = Suc (nat (rank_from (i + 1) ks l - (i + 1)))"
      by simp
    with False 2 show ?thesis by simp
  qed
qed

lemma rankOf_inj: "0 \<le> rankOf a \<Longrightarrow> rankOf a = rankOf b \<Longrightarrow> a = b"
  using rank_from_index [of 0 KnownLevels a] rank_from_index [of 0 KnownLevels b]
  by (simp add: rankOf_def)

lemma rank_from_known: "l \<in> set ks \<Longrightarrow> 0 \<le> i \<Longrightarrow> 0 \<le> rank_from i ks l"
  by (induction i ks l rule: rank_from.induct) auto

lemma rankOf_known: "0 \<le> rankOf l \<longleftrightarrow> l \<in> set KnownLevels"
proof
  show "0 \<le> rankOf l \<Longrightarrow> l \<in> set KnownLevels"
    using rank_from_range [of 0 KnownLevels l] by (auto simp: rankOf_def)
qed (simp add: rankOf_def rank_from_known)

lemma normalizeAlias_cases:
  "normalizeAlias s = Unset \<or> normalizeAlias s = NoneLevel \<or> normalizeAlias s \<in> set KnownLevels"
  unfolding normalizeAlias_def Let_def KnownLevels_def by simp

lemma normalizeAlias_trim [simp]: "normalizeAlias (trim_space s) = normalizeAlias s"
  by (simp add: normalizeAlias_def)

lemma normalizeAlias_known: "l \<in> set KnownLevels \<Longrightarrow> normalizeAlias l = l"
proof -
  have "\<forall>l \<in> set KnownLevels. normalizeAlias l = l" by code_simp
  then show "l \<in> set KnownLevels \<Longrightarrow> normalizeAlias l = l" by blast
qed

section \<open>Clamping is the nearest supported level\<close>

text \<open>The loop invariant of \<open>Clamp\<close>: what the three variables say about the part already seen.\<close>

definition clamp_inv :: "int \<Rightarrow> level list \<Rightarrow> level \<times> int \<times> bool \<Rightarrow> bool" where
  "clamp_inv w seen acc =
     (case acc of (best, bestDist, found) \<Rightarrow>
       (if found
        then best \<in> set seen \<and> 0 \<le> rankOf best \<and> bestDist = \<bar>rankOf best - w\<bar> \<and>
             (\<forall>s \<in> set seen. 0 \<le> rankOf s \<longrightarrow>
                bestDist < \<bar>rankOf s - w\<bar> \<or>
                bestDist = \<bar>rankOf s - w\<bar> \<and> rankOf s \<le> rankOf best)
        else (\<forall>s \<in> set seen. rankOf s < 0)))"

lemma clamp_step_inv: "clamp_inv w seen acc \<Longrightarrow> clamp_inv w (seen @ [s]) (clamp_step w s acc)"
proof (cases acc)
  case (fields best d found)
  assume inv: "clamp_inv w seen acc"
  have dist: "(if rankOf s - w < 0 then - (rankOf s - w) else rankOf s - w) = \<bar>rankOf s - w\<bar>"
    by simp
  consider "rankOf s < 0" | "0 \<le> rankOf s" "\<not> found" | "0 \<le> rankOf s" found
    by linarith
  then show ?thesis
  proof cases
    case 1
    then show ?thesis using inv fields by (auto simp: clamp_inv_def clamp_step_def)
  next
    case 2
    then show ?thesis
      using inv fields by (force simp: clamp_inv_def clamp_step_def Let_def dist)
  next
    case 3
    then show ?thesis
      using inv fields unfolding clamp_inv_def clamp_step_def Let_def dist by (auto; force)
  qed
qed

lemma clamp_fold_inv:
  "clamp_inv w seen acc \<Longrightarrow> clamp_inv w (seen @ ss) (fold (clamp_step w) ss acc)"
proof (induction ss arbitrary: seen acc)
  case Nil
  then show ?case by simp
next
  case (Cons s ss)
  from Cons.IH [OF clamp_step_inv [OF Cons.prems]] show ?case by simp
qed

lemma clamp_loop_inv: "clamp_inv w ss (fold (clamp_step w) ss ('''', -1, False))"
  using clamp_fold_inv [of w "[]" "('''', -1, False)" ss] by (simp add: clamp_inv_def)

lemma Clamp_loop:
  assumes "0 \<le> rankOf wanted" "supported \<noteq> []"
  obtains best d found where
    "clamp_inv (rankOf wanted) supported (best, d, found)"
    "Clamp wanted supported = (if found then best else wanted)"
proof -
  obtain best d found where
    acc: "fold (clamp_step (rankOf wanted)) supported ('''', -1, False) = (best, d, found)"
    by (cases "fold (clamp_step (rankOf wanted)) supported ('''', -1, False)") auto
  have "wanted \<noteq> Unset"
    using assms(1) by (auto simp: Unset_def rankOf_known KnownLevels_def level_defs)
  with assms acc have "Clamp wanted supported = (if found then best else wanted)"
    by (simp add: Clamp_def)
  moreover have "clamp_inv (rankOf wanted) supported (best, d, found)"
    using clamp_loop_inv [of "rankOf wanted" supported] acc by simp
  ultimately show ?thesis by (rule that [rotated])
qed

text \<open>Clamping a known level to a support list that holds at least one known level yields a
  level of that list, at the least distance on the scale, and the stronger one of two levels at the
  same distance. A level outside the scale (\<open>none\<close>, an unknown spelling) is never chosen.\<close>

theorem clamp_nearest:
  assumes "0 \<le> rankOf wanted" and "t \<in> set supported" and "0 \<le> rankOf t"
  shows "Clamp wanted supported \<in> set supported \<and> 0 \<le> rankOf (Clamp wanted supported) \<and>
    (\<forall>s \<in> set supported. 0 \<le> rankOf s \<longrightarrow>
       \<bar>rankOf (Clamp wanted supported) - rankOf wanted\<bar> < \<bar>rankOf s - rankOf wanted\<bar> \<or>
       \<bar>rankOf (Clamp wanted supported) - rankOf wanted\<bar> = \<bar>rankOf s - rankOf wanted\<bar> \<and>
         rankOf s \<le> rankOf (Clamp wanted supported))"
proof -
  from assms(2) have "supported \<noteq> []" by auto
  with assms(1) obtain best d found where inv: "clamp_inv (rankOf wanted) supported (best, d, found)"
    and clamp: "Clamp wanted supported = (if found then best else wanted)"
    by (rule Clamp_loop)
  with assms(2,3) have found by (auto simp: clamp_inv_def split: if_splits)
  with inv clamp show ?thesis by (auto simp: clamp_inv_def)
qed

theorem clamp_nearest_witness: "Clamp Medium [NoneLevel, Low, High] \<in> set [NoneLevel, Low, High]"
  by (rule clamp_nearest [THEN conjunct1, of Medium High]) code_simp+

section \<open>Parsing what was printed\<close>

text \<open>What \<open>ParseLevels\<close> returns before sorting: distinct known levels, and distinct trimmed,
  comma-free spellings that mean nothing on the scale.\<close>

definition unknown_ok :: "string \<Rightarrow> bool" where
  "unknown_ok u \<longleftrightarrow> u \<noteq> '''' \<and> trim_space u = u \<and> CHR '','' \<notin> set u \<and> normalizeAlias u = Unset"

definition levels_ok :: "level list \<times> string list \<Rightarrow> bool" where
  "levels_ok ku = (case ku of (known, unknown) \<Rightarrow>
     set known \<subseteq> set KnownLevels \<and> distinct known \<and> (\<forall>u \<in> set unknown. unknown_ok u) \<and>
     distinct unknown)"

lemma known_facts:
  "l \<in> set KnownLevels \<Longrightarrow>
    trim_space l = l \<and> l \<noteq> '''' \<and> CHR '','' \<notin> set l \<and> l \<noteq> Unset \<and> l \<noteq> NoneLevel"
proof -
  have "\<forall>l \<in> set KnownLevels.
    trim_space l = l \<and> l \<noteq> '''' \<and> CHR '','' \<notin> set l \<and> l \<noteq> Unset \<and> l \<noteq> NoneLevel"
    by code_simp
  then show "l \<in> set KnownLevels \<Longrightarrow> ?thesis" by blast
qed

lemma contains_iff [simp]: "contains xs v \<longleftrightarrow> v \<in> set xs"
  by (auto simp: contains_def)

lemma parse_part_ok:
  assumes "levels_ok acc" and "CHR '','' \<notin> set raw"
  shows "levels_ok (parse_part raw acc)"
proof -
  obtain known unknown where acc: "acc = (known, unknown)" by (cases acc) auto
  have "CHR '','' \<notin> set (trim_space raw)" using assms(2) trim_space_keeps by blast
  then show ?thesis
    using assms(1) acc normalizeAlias_cases [of raw]
    by (auto simp: parse_part_def levels_ok_def unknown_ok_def Let_def)
qed

lemma fold_parse_ok:
  "levels_ok acc \<Longrightarrow> (\<forall>p \<in> set ps. CHR '','' \<notin> set p) \<Longrightarrow> levels_ok (fold parse_part ps acc)"
proof (induction ps arbitrary: acc)
  case (Cons p ps)
  then show ?case by (simp add: parse_part_ok)
qed simp

lemma ParseLevels_ok: "levels_ok (ParseLevels csv) \<and> sorted (map rankOf (fst (ParseLevels csv)))"
proof -
  have "levels_ok (fold parse_part (split_on (CHR '','') csv) ([], []))"
    by (rule fold_parse_ok) (auto simp: levels_ok_def dest: split_on_free)
  then show ?thesis
    by (auto simp: ParseLevels_def levels_ok_def split: prod.splits)
qed

lemma fold_parse_known:
  "set ks \<subseteq> set KnownLevels \<Longrightarrow> distinct (k0 @ ks) \<Longrightarrow>
    fold parse_part ks (k0, u) = (k0 @ ks, u)"
proof (induction ks arbitrary: k0)
  case Nil
  then show ?case by simp
next
  case (Cons k ks)
  then have "parse_part k (k0, u) = (k0 @ [k], u)"
    using known_facts [of k] normalizeAlias_known [of k] by (auto simp: parse_part_def Let_def)
  with Cons show ?case by simp
qed

lemma fold_parse_unknown:
  "(\<forall>u \<in> set us. unknown_ok u) \<Longrightarrow> distinct (u0 @ us) \<Longrightarrow>
    fold parse_part us (k, u0) = (k, u0 @ us)"
proof (induction us arbitrary: u0)
  case Nil
  then show ?case by simp
next
  case (Cons u us)
  then have "parse_part u (k, u0) = (k, u0 @ [u])"
    by (auto simp: parse_part_def unknown_ok_def Let_def)
  with Cons show ?case by simp
qed

lemma parse_format:
  assumes "levels_ok (known, unknown)" and "sorted (map rankOf known)"
  shows "ParseLevels (FormatLevels known unknown) = (known, unknown)"
proof (cases "known @ unknown = []")
  case True
  then show ?thesis
    by (simp add: ParseLevels_def FormatLevels_def parse_part_def trim_space_def)
next
  case False
  have "\<forall>p \<in> set (known @ unknown). CHR '','' \<notin> set p"
    using assms(1) known_facts by (auto simp: levels_ok_def unknown_ok_def)
  with False have "split_on (CHR '','') (FormatLevels known unknown) = known @ unknown"
    unfolding FormatLevels_def by (rule split_join)
  moreover have "fold parse_part (known @ unknown) ([], []) = (known, unknown)"
    using assms(1) fold_parse_known [of known "[]" "[]"] fold_parse_unknown [of unknown "[]" known]
    by (simp add: levels_ok_def)
  moreover have "sort_key rankOf known = known"
    using assms(2) by (simp add: sort_key_id_if_sorted)
  ultimately show ?thesis by (simp add: ParseLevels_def)
qed

text \<open>Printing a parsed level list and parsing it again gives the same list: the known levels
  sorted by strength without repetition, and the unknown spellings untouched, whatever the input.\<close>

theorem levels_roundtrip:
  "ParseLevels (case ParseLevels csv of (known, unknown) \<Rightarrow> FormatLevels known unknown) =
     ParseLevels csv"
  using ParseLevels_ok [of csv] by (cases "ParseLevels csv") (simp add: parse_format)

text \<open>The two maps onto the three levels of the upstream SDK agree on the whole scale, and a
  spelling outside the scale, or an explicit \<open>none\<close>, never turns thinking on.\<close>

theorem thinking_level_agrees:
  "ToThinkingLevel l = (if l \<in> set KnownLevels then (ToRosettaLevel l, True) else ('''', False))"
proof (cases "l \<in> set KnownLevels")
  case True
  have "\<forall>l \<in> set KnownLevels. ToThinkingLevel l = (ToRosettaLevel l, True)" by code_simp
  with True show ?thesis by simp
next
  case False
  then show ?thesis by (auto simp: ToThinkingLevel_def KnownLevels_def)
qed

end
