(* ===== verification/Ratelimit.thy ===== *)
theory Ratelimit
  imports Prelude
begin

text \<open>
  \<^verbatim>\<open>internal/ratelimit/limiter.go\<close>: the per-key fixed-window limiter for requests and tokens
  per minute. The mutex makes every public method one atomic step, so a method is a function from
  the limiter and the instant it reads from the clock to the new limiter and its results.
\<close>

record bucket =
  bk_windowStart :: int
  bk_requests :: int
  bk_tokens :: int
  bk_touched :: instant

record limiter =
  lm_buckets :: "ident \<rightharpoonup> bucket"
  lm_lastSweep :: instant

abbreviation (input) windowLen :: duration where "windowLen \<equiv> minute"
abbreviation (input) sweepInterval :: duration where "sweepInterval \<equiv> 5 * minute"
abbreviation (input) maxIdle :: duration where "maxIdle \<equiv> 10 * minute"

definition New :: limiter where
  "New = \<lparr>lm_buckets = Map.empty, lm_lastSweep = zero_time\<rparr>"

definition empty_bucket :: bucket where
  "empty_bucket = \<lparr>bk_windowStart = 0, bk_requests = 0, bk_tokens = 0, bk_touched = zero_time\<rparr>"

definition sweepLocked :: "instant \<Rightarrow> limiter \<Rightarrow> limiter" where
  "sweepLocked now l =
     (if now - lm_lastSweep l < sweepInterval then l
      else \<lparr>lm_buckets = (\<lambda>id. case lm_buckets l id of None \<Rightarrow> None
              | Some b \<Rightarrow> if now - bk_touched b > maxIdle then None else Some b),
            lm_lastSweep = now\<rparr>)"

definition window_of :: "instant \<Rightarrow> int" where
  "window_of now = go_div (unix_seconds now) 60"

definition bucketLocked :: "ident \<Rightarrow> instant \<Rightarrow> limiter \<Rightarrow> limiter \<times> bucket" where
  "bucketLocked keyID now l0 =
     (let l = sweepLocked now l0;
          b = (case lm_buckets l keyID of None \<Rightarrow> empty_bucket | Some b \<Rightarrow> b);
          start = window_of now;
          b = (if bk_windowStart b \<noteq> start
               then b\<lparr>bk_windowStart := start, bk_requests := 0, bk_tokens := 0\<rparr> else b);
          b = b\<lparr>bk_touched := now\<rparr>
      in (l\<lparr>lm_buckets := (lm_buckets l)(keyID \<mapsto> b)\<rparr>, b))"

definition put_bucket :: "ident \<Rightarrow> bucket \<Rightarrow> limiter \<Rightarrow> limiter" where
  "put_bucket keyID b l = l\<lparr>lm_buckets := (lm_buckets l)(keyID \<mapsto> b)\<rparr>"

definition windowRemaining :: "instant \<Rightarrow> duration" where
  "windowRemaining now = (truncate_time now windowLen + windowLen) - now + second"

definition AllowRPM :: "ident \<Rightarrow> int \<Rightarrow> instant \<Rightarrow> limiter \<Rightarrow> limiter \<times> bool \<times> duration" where
  "AllowRPM keyID rpmLimit now l0 =
     (if rpmLimit \<le> 0 then (l0, True, 0)
      else (case bucketLocked keyID now l0 of (l, b) \<Rightarrow>
        if bk_requests b \<ge> rpmLimit then (l, False, windowRemaining now)
        else (put_bucket keyID (b\<lparr>bk_requests := bk_requests b + 1\<rparr>) l, True, 0)))"

definition ReserveTPM ::
  "ident \<Rightarrow> int \<Rightarrow> int \<Rightarrow> instant \<Rightarrow> limiter \<Rightarrow> limiter \<times> bool \<times> duration" where
  "ReserveTPM keyID tpmLimit est now l0 =
     (if tpmLimit \<le> 0 then (l0, True, 0)
      else (case bucketLocked keyID now l0 of (l, b) \<Rightarrow>
        if est > tpmLimit
        then (put_bucket keyID (b\<lparr>bk_tokens := tpmLimit\<rparr>) l, False, windowRemaining now)
        else if bk_tokens b + est > tpmLimit then (l, False, windowRemaining now)
        else (put_bucket keyID (b\<lparr>bk_tokens := bk_tokens b + est\<rparr>) l, True, 0)))"

definition CommitTPM :: "ident \<Rightarrow> int \<Rightarrow> int \<Rightarrow> int \<Rightarrow> instant \<Rightarrow> limiter \<Rightarrow> limiter" where
  "CommitTPM keyID tpmLimit reserved actual now l0 =
     (if tpmLimit \<le> 0 \<or> reserved = actual then l0
      else (case bucketLocked keyID now l0 of (l, b) \<Rightarrow>
        let v = bk_tokens b + actual - reserved in
        if v > 0 then put_bucket keyID (b\<lparr>bk_tokens := v\<rparr>) l
        else put_bucket keyID (b\<lparr>bk_tokens := 0\<rparr>) l))"

lemmas limiter_defs = AllowRPM_def ReserveTPM_def CommitTPM_def put_bucket_def

section \<open>Windows\<close>

lemma window_of_div: "0 \<le> now \<Longrightarrow> window_of now = now div minute"
proof -
  assume "0 \<le> now"
  then have "window_of now = (now div second) div 60"
    by (simp add: window_of_def unix_seconds_def)
  also have "\<dots> = now div (second * 60)" by (subst zdiv_zmult2_eq) simp_all
  finally show ?thesis by simp
qed

lemma window_mono: "0 \<le> s \<Longrightarrow> s \<le> t \<Longrightarrow> window_of s \<le> window_of t"
  by (simp add: window_of_div zdiv_mono1)

lemma same_window_near: "0 \<le> s \<Longrightarrow> 0 \<le> t \<Longrightarrow> window_of s = window_of t \<Longrightarrow> t - s < minute"
  by (simp add: window_of_div)

lemma truncate_minute: "truncate_time t minute = t - t mod minute"
proof -
  have "t - zero_time = t + 1035593280 * minute" by (simp add: zero_time_def)
  then have "(t - zero_time) mod minute = t mod minute"
    using mod_mult_self1 [of t 1035593280 minute] by (simp only: mult.commute)
  then show ?thesis by (simp add: truncate_time_def)
qed

lemma windowRemaining_eq: "windowRemaining now = minute - now mod minute + second"
  by (simp add: windowRemaining_def truncate_minute)

section \<open>The bucket a step works on\<close>

text \<open>Every bucket was last touched inside the window it counts, and not after the clock.\<close>

definition limiter_inv :: "instant \<Rightarrow> limiter \<Rightarrow> bool" where
  "limiter_inv t l \<longleftrightarrow> 0 \<le> t \<and>
     (\<forall>k b. lm_buckets l k = Some b \<longrightarrow>
        0 \<le> bk_touched b \<and> bk_touched b \<le> t \<and> window_of (bk_touched b) = bk_windowStart b)"

text \<open>What window \<open>w\<close> has counted for key \<open>k\<close>, by the counter \<open>f\<close>.\<close>

definition counted :: "(bucket \<Rightarrow> int) \<Rightarrow> ident \<Rightarrow> int \<Rightarrow> limiter \<Rightarrow> int" where
  "counted f k w l = (case lm_buckets l k of None \<Rightarrow> 0
     | Some b \<Rightarrow> if bk_windowStart b = w then f b else 0)"

lemma limiter_inv_New: "0 \<le> t \<Longrightarrow> limiter_inv t New"
  by (simp add: limiter_inv_def New_def)

lemma limiter_inv_later: "limiter_inv s l \<Longrightarrow> s \<le> t \<Longrightarrow> limiter_inv t l"
  by (fastforce simp: limiter_inv_def)

lemma limiter_inv_sweep: "limiter_inv t l \<Longrightarrow> limiter_inv t (sweepLocked now l)"
  by (auto simp: limiter_inv_def sweepLocked_def split: option.splits if_splits)

lemma sweep_keeps_current:
  assumes "limiter_inv t l" "t \<le> now" "lm_buckets l k = Some b" "bk_windowStart b = window_of now"
  shows "lm_buckets (sweepLocked now l) k = Some b"
proof -
  have "now - bk_touched b < minute"
    using assms by (intro same_window_near) (auto simp: limiter_inv_def)
  with assms(3) show ?thesis by (simp add: sweepLocked_def)
qed

lemma sweep_only_drops: "lm_buckets (sweepLocked now l) k \<in> {None, lm_buckets l k}"
  by (auto simp: sweepLocked_def split: option.splits)

lemma bucketLocked_post:
  assumes "bucketLocked k now l0 = (l, b)"
  shows "bk_windowStart b = window_of now" and "bk_touched b = now"
    and "lm_buckets l k = Some b"
    and "j \<noteq> k \<Longrightarrow> lm_buckets l j = lm_buckets (sweepLocked now l0) j"
  using assms by (auto simp: bucketLocked_def Let_def split: if_splits)

lemma bucketLocked_inv:
  assumes "limiter_inv t l0" "t \<le> now" "bucketLocked k now l0 = (l, b)"
  shows "limiter_inv now l"
  unfolding limiter_inv_def
proof (intro conjI allI impI)
  show "0 \<le> now" using assms by (simp add: limiter_inv_def)
  fix j c assume c: "lm_buckets l j = Some c"
  have "limiter_inv now (sweepLocked now l0)"
    using assms limiter_inv_later limiter_inv_sweep by blast
  then show "0 \<le> bk_touched c" "bk_touched c \<le> now" "window_of (bk_touched c) = bk_windowStart c"
    using bucketLocked_post [OF assms(3)] c \<open>0 \<le> now\<close>
    by (cases "j = k"; auto simp: limiter_inv_def)+
qed

lemma put_bucket_inv:
  assumes "limiter_inv t l" "lm_buckets l k = Some b" "bk_touched c = bk_touched b"
    "bk_windowStart c = bk_windowStart b"
  shows "limiter_inv t (put_bucket k c l)"
  using assms by (auto simp: limiter_inv_def put_bucket_def)

lemma bucketLocked_counted:
  assumes "limiter_inv t l0" "t \<le> now" "bucketLocked k now l0 = (l, b)"
    and reset: "\<And>c. f (c\<lparr>bk_windowStart := window_of now, bk_requests := 0, bk_tokens := 0\<rparr>) = 0"
    and touch: "\<And>c. f (c\<lparr>bk_touched := now\<rparr>) = f c" and fresh: "f empty_bucket = 0"
  shows "f b = counted f k (window_of now) l0"
proof (cases "lm_buckets l0 k")
  case None
  then have "lm_buckets (sweepLocked now l0) k = None"
    using sweep_only_drops [of now l0 k] by simp
  with None assms(3) show ?thesis
    by (auto simp: bucketLocked_def counted_def Let_def reset touch fresh)
next
  case (Some c)
  show ?thesis
  proof (cases "bk_windowStart c = window_of now")
    case True
    have "lm_buckets (sweepLocked now l0) k = Some c"
      by (rule sweep_keeps_current [OF assms(1,2) Some True])
    with Some True assms(3) show ?thesis
      by (auto simp: bucketLocked_def counted_def Let_def touch)
  next
    case False
    with Some sweep_only_drops [of now l0 k] assms(3) show ?thesis
      by (auto simp: bucketLocked_def counted_def Let_def reset touch fresh)
  qed
qed

lemma bucketLocked_requests:
  "limiter_inv t l0 \<Longrightarrow> t \<le> now \<Longrightarrow> bucketLocked k now l0 = (l, b) \<Longrightarrow>
    bk_requests b = counted bk_requests k (window_of now) l0"
  by (rule bucketLocked_counted) (auto simp: empty_bucket_def)

lemma bucketLocked_tokens:
  "limiter_inv t l0 \<Longrightarrow> t \<le> now \<Longrightarrow> bucketLocked k now l0 = (l, b) \<Longrightarrow>
    bk_tokens b = counted bk_tokens k (window_of now) l0"
  by (rule bucketLocked_counted) (auto simp: empty_bucket_def)

section \<open>The contract of a windowed counter\<close>

text \<open>Calls in clock order, as the mutex serialises them.\<close>

datatype rl_event =
    Request ident int
  | Reserve ident int int
  | Commit ident int int int

fun rl_step :: "rl_event \<Rightarrow> instant \<Rightarrow> limiter \<Rightarrow> limiter \<times> bool" where
  "rl_step (Request k lmt) now l = (case AllowRPM k lmt now l of (l', ok, _) \<Rightarrow> (l', ok))"
| "rl_step (Reserve k lmt est) now l = (case ReserveTPM k lmt est now l of (l', ok, _) \<Rightarrow> (l', ok))"
| "rl_step (Commit k lmt reserved actual) now l = (CommitTPM k lmt reserved actual now l, False)"

text \<open>The sum of \<open>cost\<close> over the calls of window \<open>w\<close> that were admitted, and of \<open>refund\<close> over
  all calls of window \<open>w\<close>.\<close>

fun admitted ::
  "('op \<Rightarrow> instant \<Rightarrow> 's \<Rightarrow> 's \<times> bool) \<Rightarrow> ('op \<Rightarrow> int) \<Rightarrow> int \<Rightarrow> ('op \<times> instant) list \<Rightarrow> 's \<Rightarrow> int"
where
  "admitted step cost w [] s = 0"
| "admitted step cost w ((op, now) # es) s =
     (case step op now s of (s', ok) \<Rightarrow>
        (if ok \<and> window_of now = w then cost op else 0) + admitted step cost w es s')"

fun refunded :: "('op \<Rightarrow> int) \<Rightarrow> int \<Rightarrow> ('op \<times> instant) list \<Rightarrow> int" where
  "refunded refund w [] = 0"
| "refunded refund w ((op, now) # es) =
     (if window_of now = w then refund op else 0) + refunded refund w es"

fun clocked :: "instant \<Rightarrow> ('op \<times> instant) list \<Rightarrow> bool" where
  "clocked t [] \<longleftrightarrow> True"
| "clocked t ((op, now) # es) \<longleftrightarrow> t \<le> now \<and> clocked now es"

locale window_quota =
  fixes step :: "'op \<Rightarrow> instant \<Rightarrow> 's \<Rightarrow> 's \<times> bool"
    and cost :: "'op \<Rightarrow> int"
    and refund :: "'op \<Rightarrow> int"
    and used :: "int \<Rightarrow> 's \<Rightarrow> int"
    and inv :: "instant \<Rightarrow> 's \<Rightarrow> bool"
    and wf :: "'op \<Rightarrow> bool"
    and limit :: int
  assumes keep: "inv t s \<Longrightarrow> t \<le> now \<Longrightarrow> step op now s = (s', ok) \<Longrightarrow> inv now s'"
    and nonneg: "inv t s \<Longrightarrow> 0 \<le> t"
    and refund_nonneg: "0 \<le> refund op"
    and future: "inv t s \<Longrightarrow> window_of t < w \<Longrightarrow> used w s = 0"
    and grow: "inv t s \<Longrightarrow> t \<le> now \<Longrightarrow> step op now s = (s', ok) \<Longrightarrow> wf op \<Longrightarrow>
      min limit (used (window_of now) s + (if ok then cost op else 0)) - refund op
        \<le> used (window_of now) s'"
    and fits: "inv t s \<Longrightarrow> t \<le> now \<Longrightarrow> step op now s = (s', True) \<Longrightarrow> wf op \<Longrightarrow>
      0 < cost op \<Longrightarrow> used (window_of now) s + cost op \<le> limit"
begin

lemma past_window:
  "inv t s \<Longrightarrow> clocked t es \<Longrightarrow> w < window_of t \<Longrightarrow>
    admitted step cost w es s = 0 \<and> refunded refund w es = 0"
proof (induction es arbitrary: t s)
  case Nil
  then show ?case by simp
next
  case (Cons e es)
  obtain op now where e: "e = (op, now)" by (cases e) auto
  obtain s' ok where st: "step op now s = (s', ok)" by (cases "step op now s") auto
  have le: "t \<le> now" using Cons.prems e by simp
  then have "w < window_of now"
    using Cons.prems(3) window_mono [of t now] nonneg [OF Cons.prems(1)] by simp
  with Cons e st keep [OF Cons.prems(1) le st] show ?case by auto
qed

theorem within_limit:
  "inv t s \<Longrightarrow> clocked t es \<Longrightarrow> \<forall>(op, now) \<in> set es. wf op \<Longrightarrow> window_of t \<le> w \<Longrightarrow>
    admitted step cost w es s \<le> max 0 (limit - used w s) + refunded refund w es"
proof (induction es arbitrary: t s)
  case Nil
  then show ?case by simp
next
  case (Cons e es)
  obtain op now where e: "e = (op, now)" by (cases e) auto
  obtain s' ok where st: "step op now s = (s', ok)" by (cases "step op now s") auto
  have le: "t \<le> now" and clk: "clocked now es" and wf: "wf op"
    and wfs: "\<forall>(op, now) \<in> set es. wf op"
    using Cons.prems(2,3) e by auto
  note inv' = keep [OF Cons.prems(1) le st]
  consider "w < window_of now" | "window_of now = w" | "window_of now < w" by linarith
  then show ?case
  proof cases
    case 1
    with past_window [OF inv' clk 1] e st show ?thesis by simp
  next
    case 2
    have IH: "admitted step cost w es s' \<le> max 0 (limit - used w s') + refunded refund w es"
      using Cons.IH [OF inv' clk wfs] 2 by simp
    have g: "min limit (used w s + (if ok then cost op else 0)) - refund op \<le> used w s'"
      using grow [OF Cons.prems(1) le st wf] 2 by simp
    have f: "ok \<Longrightarrow> 0 < cost op \<Longrightarrow> used w s + cost op \<le> limit"
      using fits [OF Cons.prems(1) le _ wf] st 2 by simp
    have "0 \<le> refund op" by (rule refund_nonneg)
    with IH g f e st 2 show ?thesis
      by (cases "ok \<and> 0 < cost op") (auto simp: max_def min_def split: if_splits)
  next
    case 3
    have "used w s' = 0" "used w s = 0"
      using future [OF inv' 3] future [OF Cons.prems(1)] Cons.prems(4) 3
        window_mono [OF nonneg [OF Cons.prems(1)] le] by auto
    with Cons.IH [OF inv' clk wfs] 3 e st show ?thesis by simp
  qed
qed

end

section \<open>Both counters keep the contract\<close>

lemma counted_bucket [simp]:
  "lm_buckets l k = Some b \<Longrightarrow> bk_windowStart b = w \<Longrightarrow> counted f k w l = f b"
  by (simp add: counted_def)

lemma counted_put [simp]:
  "counted f k w (put_bucket j b l) =
     (if j = k then (if bk_windowStart b = w then f b else 0) else counted f k w l)"
  by (simp add: counted_def put_bucket_def)

lemma counted_other:
  assumes "limiter_inv t l0" "t \<le> now" "bucketLocked j now l0 = (l, b)" "j \<noteq> k"
  shows "counted f k (window_of now) l = counted f k (window_of now) l0"
proof -
  have "lm_buckets l k = lm_buckets (sweepLocked now l0) k"
    using bucketLocked_post(4) [OF assms(3)] assms(4) by simp
  then show ?thesis
    using sweep_keeps_current [OF assms(1,2)] sweep_only_drops [of now l0 k]
    by (auto simp: counted_def split: option.splits)
qed

lemma counted_future: "limiter_inv t l \<Longrightarrow> window_of t < w \<Longrightarrow> counted f k w l = 0"
  using window_mono by (fastforce simp: counted_def limiter_inv_def split: option.splits)

lemma counted_touch:
  assumes "limiter_inv t l0" "t \<le> now" "bucketLocked j now l0 = (l, b)"
  shows "counted bk_requests k (window_of now) l = counted bk_requests k (window_of now) l0"
    and "counted bk_tokens k (window_of now) l = counted bk_tokens k (window_of now) l0"
proof -
  note post = bucketLocked_post [OF assms(3)]
  show "counted bk_requests k (window_of now) l = counted bk_requests k (window_of now) l0"
    using post counted_other [OF assms] bucketLocked_requests [OF assms] by (cases "j = k") simp_all
  show "counted bk_tokens k (window_of now) l = counted bk_tokens k (window_of now) l0"
    using post counted_other [OF assms] bucketLocked_tokens [OF assms] by (cases "j = k") simp_all
qed

lemma rl_step_inv:
  assumes inv: "limiter_inv t l" and le: "t \<le> now" and st: "rl_step op now l = (l', ok)"
  shows "limiter_inv now l'"
proof -
  have later: "limiter_inv now l" using inv le by (rule limiter_inv_later)
  have put: "limiter_inv now (put_bucket k c m)"
    if "bucketLocked k now l = (m, b)" "bk_touched c = bk_touched b"
      "bk_windowStart c = bk_windowStart b" for k c m b
    using put_bucket_inv bucketLocked_inv [OF inv le that(1)] bucketLocked_post(3) [OF that(1)]
      that(2,3) by blast
  have base: "limiter_inv now m" if "bucketLocked k now l = (m, b)" for k m b
    using bucketLocked_inv [OF inv le that] .
  show ?thesis
    using st later
    by (cases op)
      (auto simp: AllowRPM_def ReserveTPM_def CommitTPM_def Let_def split: prod.splits if_splits
        dest: base intro: put)
qed

fun rpm_cost :: "ident \<Rightarrow> int \<Rightarrow> rl_event \<Rightarrow> int" where
  "rpm_cost k lmt (Request k' lmt') = (if k' = k \<and> 0 < lmt' \<and> lmt' \<le> lmt then 1 else 0)"
| "rpm_cost k lmt _ = 0"

fun tpm_cost :: "ident \<Rightarrow> rl_event \<Rightarrow> int" where
  "tpm_cost k (Reserve k' lmt est) = (if k' = k \<and> 0 < lmt then max 0 est else 0)"
| "tpm_cost k _ = 0"

text \<open>Tokens a call gives back: a commit below its reservation (or a negative estimate).\<close>

fun tpm_refund :: "ident \<Rightarrow> rl_event \<Rightarrow> int" where
  "tpm_refund k (Reserve k' lmt est) = (if k' = k then max 0 (- est) else 0)"
| "tpm_refund k (Commit k' lmt reserved actual) = (if k' = k then max 0 (reserved - actual) else 0)"
| "tpm_refund k _ = 0"

fun tpm_limit_is :: "ident \<Rightarrow> int \<Rightarrow> rl_event \<Rightarrow> bool" where
  "tpm_limit_is k lmt (Reserve k' lmt' est) \<longleftrightarrow> k' = k \<longrightarrow> lmt' = lmt"
| "tpm_limit_is k lmt _ \<longleftrightarrow> True"

interpretation rpm: window_quota rl_step "rpm_cost k lmt" "\<lambda>_. 0" "counted bk_requests k"
  limiter_inv "\<lambda>_. True" lmt for k lmt
proof (unfold_locales, goal_cases)
  case (1 t s now op s' ok)
  then show ?case by (rule rl_step_inv)
next
  case (5 t s now op s' ok)
  then show ?case
    by (cases op)
      (auto simp: AllowRPM_def ReserveTPM_def CommitTPM_def Let_def counted_touch(1)
        bucketLocked_post(1) bucketLocked_requests split: prod.splits if_splits)
next
  case (6 t s now op s')
  then show ?case
    by (cases op) (auto simp: AllowRPM_def bucketLocked_requests split: prod.splits if_splits)
qed (auto simp: limiter_inv_def intro: counted_future [unfolded limiter_inv_def])

interpretation tpm: window_quota rl_step "tpm_cost k" "tpm_refund k" "counted bk_tokens k"
  limiter_inv "tpm_limit_is k lmt" lmt for k lmt
proof (unfold_locales, goal_cases)
  case (1 t s now op s' ok)
  then show ?case by (rule rl_step_inv)
next
  case (3 op)
  then show ?case by (cases op) auto
next
  case (5 t s now op s' ok)
  then show ?case
    by (cases op)
      (auto simp: AllowRPM_def ReserveTPM_def CommitTPM_def Let_def counted_touch(2)
        bucketLocked_post(1) bucketLocked_tokens split: prod.splits if_splits)
next
  case (6 t s now op s')
  then show ?case
    by (cases op) (auto simp: ReserveTPM_def bucketLocked_tokens split: prod.splits if_splits)
qed (auto simp: limiter_inv_def intro: counted_future [unfolded limiter_inv_def])

section \<open>What the limiter guarantees\<close>

lemma refunded_zero [simp]: "refunded (\<lambda>_. 0) w es = 0"
  by (induction "\<lambda>_ :: 'a. 0 :: int" w es rule: refunded.induct) simp_all

lemma counted_New [simp]: "counted f k w New = 0"
  by (simp add: counted_def New_def)

text \<open>C39: In every minute window, at most \<open>lmt\<close> requests of a key are admitted under limits of at
  most \<open>lmt\<close>, whatever else happens on the limiter: other keys, reservations, commits, sweeps.\<close>

theorem rpm_within_limit:
  assumes "clocked t es" and "0 \<le> t" and "window_of t \<le> w" and "0 \<le> lmt"
  shows "admitted rl_step (rpm_cost k lmt) w es New \<le> lmt"
  using rpm.within_limit [OF limiter_inv_New assms(1), where k = k and lmt = lmt and w = w] assms
  by simp

theorem rpm_within_limit_witness:
  "admitted rl_step (rpm_cost ''a'' 2) 0
     [(Request ''a'' 2, 0), (Request ''b'' 2, 1), (Request ''a'' 2, 2), (Request ''a'' 2, 3)] New \<le> 2"
  by (rule rpm_within_limit [where t = 0]) code_simp+

text \<open>While a key's token limit stays \<open>lmt\<close>, the estimates admitted for it in one minute window
  sum up to at most \<open>lmt\<close> plus what commits gave back in that window.\<close>

theorem tpm_within_limit:
  assumes "clocked t es" and "0 \<le> t" and "window_of t \<le> w" and "0 \<le> lmt"
    and "\<forall>(op, now) \<in> set es. tpm_limit_is k lmt op"
  shows "admitted rl_step (tpm_cost k) w es New \<le> lmt + refunded (tpm_refund k) w es"
  using tpm.within_limit [OF limiter_inv_New assms(1,5), of w] assms by simp

theorem tpm_within_limit_witness:
  "admitted rl_step (tpm_cost ''a'') 0
     [(Reserve ''a'' 10 6, 0), (Reserve ''a'' 10 6, 1), (Commit ''a'' 10 6 2, 2), (Reserve ''a'' 10 6, 3)]
     New \<le> 10 + refunded (tpm_refund ''a'') 0
     [(Reserve ''a'' 10 6, 0), (Reserve ''a'' 10 6, 1), (Commit ''a'' 10 6 2, 2), (Reserve ''a'' 10 6, 3)]"
  by (rule tpm_within_limit [where t = 0]) code_simp+

text \<open>The delay of a rejection reaches into the next window, and no further.\<close>

lemma retry_next_window:
  assumes "0 \<le> now"
  shows "window_of (now + windowRemaining now) = window_of now + 1"
proof -
  have "now + windowRemaining now = (now div minute + 1) * minute + second"
    by (simp add: windowRemaining_eq minus_mod_eq_mult_div [symmetric] algebra_simps)
  moreover have "\<dots> div minute = now div minute + 1"
    by (subst div_mult_self3) simp_all
  moreover have "0 \<le> now + windowRemaining now"
    using assms pos_mod_bound [of minute now] by (simp add: windowRemaining_eq)
  ultimately show ?thesis using assms by (simp add: window_of_div)
qed

lemma rejected_bound:
  "AllowRPM k lmt now l = (l', False, r) \<Longrightarrow> r = windowRemaining now \<and> 0 < lmt"
  by (auto simp: AllowRPM_def split: prod.splits if_splits)

text \<open>A rejected request that waits for the returned delay is admitted: the delay lies between
  one second and 61 seconds, ends in the next window, and the key's first call there passes.\<close>

theorem retry_after_admitted:
  assumes "limiter_inv t l" and "t \<le> now" and "AllowRPM k lmt now l = (l', False, r)"
  shows "second < r \<and> r \<le> minute + second \<and> window_of (now + r) = window_of now + 1 \<and>
    fst (snd (AllowRPM k lmt (now + r) l'))"
proof -
  have r: "r = windowRemaining now" "0 < lmt" using rejected_bound [OF assms(3)] by auto
  have now: "0 \<le> now" using assms(1,2) by (simp add: limiter_inv_def)
  have mods: "0 \<le> now mod minute" "now mod minute < minute" by simp_all
  have bounds: "second < r" "r \<le> minute + second"
    using r(1) mods by (simp_all add: windowRemaining_eq)
  have next_window: "window_of (now + r) = window_of now + 1"
    unfolding r(1) using now by (rule retry_next_window)
  have inv: "limiter_inv now l'"
    by (rule rl_step_inv [OF assms(1,2), of "Request k lmt" _ False]) (simp add: assms(3))
  obtain m b where mb: "bucketLocked k (now + r) l' = (m, b)"
    by (cases "bucketLocked k (now + r) l'") auto
  have "bk_requests b = counted bk_requests k (window_of (now + r)) l'"
    using bounds by (intro bucketLocked_requests [OF inv _ mb]) simp
  also have "\<dots> = 0" using next_window by (intro counted_future [OF inv]) simp
  finally have "fst (snd (AllowRPM k lmt (now + r) l'))"
    using mb r(2) by (simp add: AllowRPM_def)
  with bounds next_window show ?thesis by blast
qed

theorem retry_after_admitted_witness:
  "fst (snd (AllowRPM ''a'' 1 (0 + 61 * second) (fst (AllowRPM ''a'' 1 0 (fst (AllowRPM ''a'' 1 0 New))))))"
proof -
  have inv: "limiter_inv 0 (fst (AllowRPM ''a'' 1 0 New))"
    by (rule rl_step_inv [of 0 New 0 "Request ''a'' 1" _ True])
      (simp_all add: limiter_inv_New AllowRPM_def bucketLocked_def empty_bucket_def Let_def New_def
        window_of_div sweepLocked_def zero_time_def limiter_inv_def)
  have "snd (AllowRPM ''a'' 1 0 (fst (AllowRPM ''a'' 1 0 New))) = (False, 61 * second)"
    by code_simp
  then have "AllowRPM ''a'' 1 0 (fst (AllowRPM ''a'' 1 0 New)) =
      (fst (AllowRPM ''a'' 1 0 (fst (AllowRPM ''a'' 1 0 New))), False, 61 * second)"
    by (metis prod.collapse)
  from retry_after_admitted [OF inv order_refl this] show ?thesis by simp
qed

text \<open>A request that is turned away is not counted: it leaves the count of every key in the
  window as it was, so retrying cannot prolong a lock-out.\<close>

theorem rejected_not_counted:
  assumes "limiter_inv t l" and "t \<le> now" and "AllowRPM k lmt now l = (l', False, r)"
  shows "counted bk_requests j (window_of now) l' = counted bk_requests j (window_of now) l \<and>
    counted bk_tokens j (window_of now) l' = counted bk_tokens j (window_of now) l"
proof -
  obtain m b where mb: "bucketLocked k now l = (m, b)" by (cases "bucketLocked k now l") auto
  with assms(3) have "l' = m" by (auto simp: AllowRPM_def split: if_splits)
  with counted_touch [OF assms(1,2) mb] show ?thesis by simp
qed

text \<open>An oversized estimate is refused, and it fills the key's window: every later reservation of
  the window under the same limit is refused too, and so is the same estimate in any other window.\<close>

theorem oversized_reservation:
  assumes "limiter_inv t l" and "t \<le> now" and "0 < lmt" and "lmt < est" and "0 < est'"
    and "now \<le> now'" and "window_of now' = window_of now"
  shows "\<not> fst (snd (ReserveTPM k lmt est now l)) \<and>
    \<not> fst (snd (ReserveTPM k lmt est' now' (fst (ReserveTPM k lmt est now l))))"
proof -
  let ?l = "fst (ReserveTPM k lmt est now l)"
  obtain m b where mb: "bucketLocked k now l = (m, b)" by (cases "bucketLocked k now l") auto
  then have l': "?l = put_bucket k (b\<lparr>bk_tokens := lmt\<rparr>) m" and no: "\<not> fst (snd (ReserveTPM k lmt est now l))"
    using assms(3,4) by (simp_all add: ReserveTPM_def)
  have inv: "limiter_inv now ?l"
    by (rule rl_step_inv [OF assms(1,2), of "Reserve k lmt est" _ False])
      (use mb assms(3,4) in \<open>simp add: ReserveTPM_def\<close>)
  obtain m' b' where mb': "bucketLocked k now' ?l = (m', b')"
    by (cases "bucketLocked k now' ?l") auto
  have "bk_tokens b' = counted bk_tokens k (window_of now') ?l"
    by (rule bucketLocked_tokens [OF inv assms(6) mb'])
  also have "\<dots> = lmt"
    using bucketLocked_post(1) [OF mb] assms(7) unfolding l' by simp
  finally show ?thesis
    using no mb' assms(3,5) by (simp add: ReserveTPM_def)
qed

theorem oversized_reservation_witness:
  "\<not> fst (snd (ReserveTPM ''a'' 10 1 5 (fst (ReserveTPM ''a'' 10 11 0 New))))"
  by (rule oversized_reservation [where t = 0, THEN conjunct2])
    (simp_all add: limiter_inv_New window_of_div)

text \<open>A key without limits never gets a bucket: calls with a non-positive limit return the
  limiter they were given, so removed keys leave nothing behind.\<close>

theorem unlimited_is_stateless:
  "AllowRPM k 0 now l = (l, True, 0) \<and> ReserveTPM k 0 est now l = (l, True, 0) \<and>
    CommitTPM k 0 reserved actual now l = l"
  by (simp add: limiter_defs)

fun est_nonneg :: "rl_event \<Rightarrow> bool" where
  "est_nonneg (Reserve k lmt est) \<longleftrightarrow> 0 \<le> est"
| "est_nonneg _ \<longleftrightarrow> True"

definition counters_nonneg :: "limiter \<Rightarrow> bool" where
  "counters_nonneg l \<longleftrightarrow>
     (\<forall>k b. lm_buckets l k = Some b \<longrightarrow> 0 \<le> bk_requests b \<and> 0 \<le> bk_tokens b)"

lemma bucketLocked_nonneg:
  assumes "counters_nonneg l0" "bucketLocked k now l0 = (l, b)"
  shows "counters_nonneg l \<and> 0 \<le> bk_requests b \<and> 0 \<le> bk_tokens b"
proof -
  have "counters_nonneg (sweepLocked now l0)"
    unfolding counters_nonneg_def
  proof (intro allI impI)
    fix j c assume "lm_buckets (sweepLocked now l0) j = Some c"
    with assms(1) sweep_only_drops [of now l0 j]
    show "0 \<le> bk_requests c \<and> 0 \<le> bk_tokens c" by (auto simp: counters_nonneg_def)
  qed
  with assms(2) show ?thesis
    by (auto simp: bucketLocked_def counters_nonneg_def empty_bucket_def Let_def
        split: option.splits if_splits)
qed

lemma rl_step_nonneg:
  assumes "counters_nonneg l" "est_nonneg op" "rl_step op now l = (l', ok)"
  shows "counters_nonneg l'"
proof -
  have put: "counters_nonneg (put_bucket k c m)"
    if "bucketLocked k now l = (m, b)" "0 \<le> bk_requests c" "0 \<le> bk_tokens c" for k c m b
    using bucketLocked_nonneg [OF assms(1) that(1)] that(2,3)
    by (auto simp: counters_nonneg_def put_bucket_def)
  show ?thesis
    using assms by (cases op)
      (auto simp: AllowRPM_def ReserveTPM_def CommitTPM_def Let_def split: prod.splits if_splits
        dest: bucketLocked_nonneg [OF assms(1)] intro!: put)
qed

fun rl_run :: "(rl_event \<times> instant) list \<Rightarrow> limiter \<Rightarrow> limiter" where
  "rl_run [] l = l"
| "rl_run ((op, now) # es) l = rl_run es (fst (rl_step op now l))"

text \<open>No counter ever goes below zero, whatever the order of requests, reservations and commits,
  and even for a commit that lands in a later window than its reservation.\<close>

theorem counters_stay_nonneg:
  assumes "\<forall>(op, now) \<in> set es. est_nonneg op"
  shows "counters_nonneg (rl_run es New)"
proof -
  have "counters_nonneg l \<Longrightarrow> \<forall>(op, now) \<in> set es. est_nonneg op \<Longrightarrow> counters_nonneg (rl_run es l)"
    for l
  proof (induction es l rule: rl_run.induct)
    case (2 op now es l)
    have "counters_nonneg (fst (rl_step op now l))"
      by (rule rl_step_nonneg [of l op now _ "snd (rl_step op now l)"]) (use 2(2,3) in auto)
    with 2 show ?case by simp
  qed simp
  from this [OF _ assms, of New] show ?thesis by (simp add: counters_nonneg_def New_def)
qed

theorem counters_stay_nonneg_witness:
  "counters_nonneg (rl_run [(Reserve ''a'' 10 4, 0), (Commit ''a'' 10 4 1, minute)] New)"
proof -
  have "\<forall>(op, now) \<in> set [(Reserve ''a'' 10 4, 0 :: instant), (Commit ''a'' 10 4 1, minute)]. est_nonneg op"
    by simp
  then show ?thesis by (rule counters_stay_nonneg)
qed

end
