(* ===== verification/Guard.thy ===== *)
theory Guard
  imports Prelude
begin

text \<open>
  \<^verbatim>\<open>internal/guard/throttle.go\<close>: the failure throttle in front of every password check. Each
  method is one atomic step under the mutex. A method that may sweep takes the three orders in
  which the runtime visits the map's keys, one per \<open>range\<close> loop.
\<close>

record failEntry =
  fe_count :: int
  fe_until :: instant
  fe_inflight :: int

record throttle =
  th_limit :: int
  th_cooldown :: duration
  th_fails :: "ident \<rightharpoonup> failEntry"
  th_capConcurrent :: bool

abbreviation (input) loginFailLimit :: int where "loginFailLimit \<equiv> 10"
abbreviation (input) loginCooldown :: duration where "loginCooldown \<equiv> minute"
abbreviation (input) maxConcurrentAttempts :: int where "maxConcurrentAttempts \<equiv> 4"
abbreviation (input) maxEntries :: nat where "maxEntries \<equiv> 4096"
abbreviation (input) visitBudget :: nat where "visitBudget \<equiv> 8192"

type_synonym orders = "ident list \<times> ident list \<times> ident list"

definition NewFailureThrottle :: "int \<Rightarrow> duration \<Rightarrow> throttle" where
  "NewFailureThrottle limit cooldown =
     \<lparr>th_limit = (if limit \<le> 0 then loginFailLimit else limit),
      th_cooldown = (if cooldown \<le> 0 then loginCooldown else cooldown),
      th_fails = Map.empty, th_capConcurrent = True\<rparr>"

definition WithoutConcurrencyCap :: "throttle \<Rightarrow> throttle" where
  "WithoutConcurrencyCap t = t\<lparr>th_capConcurrent := False\<rparr>"

definition ConcurrencyCapped :: "throttle \<Rightarrow> bool" where
  "ConcurrencyCapped t = th_capConcurrent t"

definition put_entry :: "ident \<Rightarrow> failEntry \<Rightarrow> throttle \<Rightarrow> throttle" where
  "put_entry ip e t = t\<lparr>th_fails := (th_fails t)(ip \<mapsto> e)\<rparr>"

definition drop_entry :: "ident \<Rightarrow> throttle \<Rightarrow> throttle" where
  "drop_entry ip t = t\<lparr>th_fails := (th_fails t)(ip := None)\<rparr>"

definition Allow :: "ident \<Rightarrow> instant \<Rightarrow> throttle \<Rightarrow> throttle \<times> bool" where
  "Allow ip now t =
     (case th_fails t ip of
        None \<Rightarrow> (put_entry ip \<lparr>fe_count = 0, fe_until = zero_time, fe_inflight = 1\<rparr> t, True)
      | Some e \<Rightarrow>
          if \<not> is_zero (fe_until e) \<and> now < fe_until e then (t, False)
          else if th_capConcurrent t \<and> fe_inflight e \<ge> maxConcurrentAttempts then (t, False)
          else (put_entry ip (e\<lparr>fe_inflight := fe_inflight e + 1\<rparr>) t, True))"

text \<open>The first loop of \<open>sweepLocked\<close>: at most \<open>visitBudget\<close> entries are visited.\<close>

definition sweep_expired :: "instant \<Rightarrow> ident list \<Rightarrow> throttle \<Rightarrow> throttle" where
  "sweep_expired now ks t =
     fold (\<lambda>ip t. case th_fails t ip of None \<Rightarrow> t
             | Some e \<Rightarrow> if \<not> now < fe_until e then drop_entry ip t else t)
       (take visitBudget (filter (\<lambda>ip. th_fails t ip \<noteq> None) ks)) t"

fun evictTo :: "bool \<Rightarrow> ident list \<Rightarrow> ident list \<Rightarrow> throttle \<Rightarrow> throttle" where
  "evictTo wantIdle keys [] t = t"
| "evictTo wantIdle keys (ip # ips) t =
     (if go_len keys (th_fails t) < maxEntries div 2 then t
      else (case th_fails t ip of None \<Rightarrow> evictTo wantIdle keys ips t
            | Some e \<Rightarrow> if wantIdle \<and> fe_inflight e > 0 then evictTo wantIdle keys ips t
                        else evictTo wantIdle keys ips (drop_entry ip t)))"

definition sweepLocked :: "orders \<Rightarrow> instant \<Rightarrow> throttle \<Rightarrow> throttle" where
  "sweepLocked ord now t =
     (case ord of (k1, k2, k3) \<Rightarrow>
       if go_len k1 (th_fails t) < maxEntries then t
       else evictTo False k3 k3 (evictTo True k2 k2 (sweep_expired now k1 t)))"

definition Release :: "orders \<Rightarrow> ident \<Rightarrow> instant \<Rightarrow> throttle \<Rightarrow> throttle" where
  "Release ord ip now t0 =
     (let t = (case th_fails t0 ip of None \<Rightarrow> t0
        | Some e \<Rightarrow>
            (let e = (if fe_inflight e > 0 then e\<lparr>fe_inflight := fe_inflight e - 1\<rparr> else e) in
             if fe_inflight e = 0 \<and> fe_count e = 0 \<and> is_zero (fe_until e) then drop_entry ip t0
             else put_entry ip e t0))
      in if go_len (fst ord) (th_fails t) \<ge> maxEntries then sweepLocked ord now t else t)"

definition RetryAfter :: "ident \<Rightarrow> instant \<Rightarrow> throttle \<Rightarrow> duration" where
  "RetryAfter ip now t =
     (case th_fails t ip of None \<Rightarrow> 0
      | Some e \<Rightarrow> (let d = fe_until e - now in if d > 0 then d else 0))"

definition Fail :: "orders \<Rightarrow> ident \<Rightarrow> instant \<Rightarrow> throttle \<Rightarrow> throttle" where
  "Fail ord ip now t0 =
     (let t = sweepLocked ord now t0;
          e = (case th_fails t ip of
                 None \<Rightarrow> \<lparr>fe_count = 0, fe_until = zero_time, fe_inflight = 0\<rparr>
               | Some e \<Rightarrow> if \<not> is_zero (fe_until e) \<and> \<not> now < fe_until e
                           then e\<lparr>fe_count := 0, fe_until := zero_time\<rparr> else e);
          e = (if fe_inflight e > 0 then e\<lparr>fe_inflight := fe_inflight e - 1\<rparr> else e);
          e = e\<lparr>fe_count := fe_count e + 1\<rparr>;
          e = (if fe_count e \<ge> th_limit t
               then e\<lparr>fe_count := 0, fe_until := now + th_cooldown t\<rparr> else e)
      in put_entry ip e t)"

definition Success :: "ident \<Rightarrow> throttle \<Rightarrow> throttle" where
  "Success ip t =
     (case th_fails t ip of None \<Rightarrow> t
      | Some e \<Rightarrow>
          (let e = e\<lparr>fe_count := 0, fe_until := zero_time\<rparr> in
           if fe_inflight e \<le> 0 then drop_entry ip t else put_entry ip e t))"

text \<open>The orders cover the map: a real iteration visits every key once.\<close>

definition covers_keys :: "orders \<Rightarrow> ident set \<Rightarrow> bool" where
  "covers_keys ord K \<longleftrightarrow> (case ord of (k1, k2, k3) \<Rightarrow>
     \<forall>ks \<in> {k1, k2, k3}. distinct ks \<and> K \<subseteq> set ks)"

abbreviation covers :: "orders \<Rightarrow> throttle \<Rightarrow> bool" where
  "covers ord t \<equiv> covers_keys ord (dom (th_fails t))"

section \<open>The map stays bounded\<close>

text \<open>\<open>shrinks a b\<close>: \<open>b\<close> is \<open>a\<close> without some of its entries.\<close>

definition shrinks :: "throttle \<Rightarrow> throttle \<Rightarrow> bool" where
  "shrinks a b \<longleftrightarrow> (\<exists>m. b = a\<lparr>th_fails := m\<rparr> \<and> m \<subseteq>\<^sub>m th_fails a)"

lemma shrinks_refl [simp]: "shrinks t t"
  unfolding shrinks_def by (rule exI [of _ "th_fails t"]) simp

lemma shrinks_trans: "shrinks a b \<Longrightarrow> shrinks b c \<Longrightarrow> shrinks a c"
  unfolding shrinks_def using map_le_trans by fastforce

lemma shrinks_drop: "shrinks t (drop_entry ip t)"
  unfolding shrinks_def drop_entry_def
  by (rule exI [of _ "(th_fails t)(ip := None)"]) (simp add: map_le_def)

lemma shrinks_fold:
  "(\<And>x t. shrinks t (f x t)) \<Longrightarrow> shrinks t (fold f xs t)"
  by (induction xs arbitrary: t) (auto intro: shrinks_trans)

lemma shrinks_expired: "shrinks t (sweep_expired now ks t)"
  unfolding sweep_expired_def
  by (rule shrinks_fold) (auto simp: shrinks_drop split: option.splits)

lemma shrinks_evict: "shrinks t (evictTo w keys ks t)"
  by (induction w keys ks t rule: evictTo.induct)
    (auto split: option.splits intro: shrinks_trans shrinks_drop)

lemma shrinks_sweep: "shrinks t (sweepLocked ord now t)"
  by (auto simp: sweepLocked_def split: prod.splits
      intro: shrinks_trans [OF shrinks_trans [OF shrinks_expired shrinks_evict] shrinks_evict])

lemma shrinks_entry: "shrinks a b \<Longrightarrow> th_fails b ip = Some e \<Longrightarrow> th_fails a ip = Some e"
  by (auto simp: shrinks_def map_le_def dom_def)

lemma shrinks_dom: "shrinks a b \<Longrightarrow> dom (th_fails b) \<subseteq> dom (th_fails a)"
  using shrinks_entry by (fastforce simp: dom_def)

lemma shrinks_fields: "shrinks a b \<Longrightarrow> th_limit b = th_limit a \<and> th_cooldown b = th_cooldown a \<and>
    th_capConcurrent b = th_capConcurrent a"
  by (auto simp: shrinks_def)

lemma evict_all:
  assumes "distinct keys" "dom (th_fails t) \<subseteq> set keys" "dom (th_fails t) \<subseteq> set ks"
  shows "card (dom (th_fails (evictTo False keys ks t))) < maxEntries div 2"
  using assms
proof (induction ks arbitrary: t)
  case Nil
  then have "dom (th_fails t) = {}" by auto
  then show ?case by simp
next
  case (Cons ip ips t)
  show ?case
  proof (cases "go_len keys (th_fails t) < maxEntries div 2")
    case True
    with Cons show ?thesis by (simp add: go_len_card)
  next
    case False
    show ?thesis
    proof (cases "th_fails t ip")
      case None
      then have "dom (th_fails t) \<subseteq> set ips" using Cons.prems(3) by auto
      with Cons False None show ?thesis by simp
    next
      case (Some e)
      have "dom (th_fails (drop_entry ip t)) \<subseteq> set keys" "dom (th_fails (drop_entry ip t)) \<subseteq> set ips"
        using Cons.prems by (auto simp: drop_entry_def)
      with Cons False Some show ?thesis by simp
    qed
  qed
qed

lemma sweep_bound:
  assumes "covers ord t" shows "card (dom (th_fails (sweepLocked ord now t))) < maxEntries"
proof -
  obtain k1 k2 k3 where ord: "ord = (k1, k2, k3)" by (cases ord) auto
  show ?thesis
  proof (cases "go_len k1 (th_fails t) < maxEntries")
    case True
    then show ?thesis using assms ord by (simp add: sweepLocked_def covers_keys_def go_len_card)
  next
    case False
    let ?u = "evictTo True k2 k2 (sweep_expired now k1 t)"
    have "dom (th_fails ?u) \<subseteq> dom (th_fails t)"
      by (intro shrinks_dom shrinks_trans [OF shrinks_expired shrinks_evict])
    then have "card (dom (th_fails (evictTo False k3 k3 ?u))) < maxEntries div 2"
      using assms ord by (intro evict_all) (simp_all add: covers_keys_def, blast+)
    with False ord show ?thesis by (simp add: sweepLocked_def)
  qed
qed

lemma covers_mono: "covers_keys ord K \<Longrightarrow> L \<subseteq> K \<Longrightarrow> covers_keys ord L"
  unfolding covers_keys_def by (cases ord) (simp, meson subset_trans)

lemma Fail_entry: "\<exists>e. Fail ord ip now t = put_entry ip e (sweepLocked ord now t)"
  unfolding Fail_def Let_def by (rule exI, rule refl)

lemma covers_finite: "covers ord t \<Longrightarrow> finite (dom (th_fails t))"
  by (cases ord) (auto simp: covers_keys_def intro: finite_subset)

text \<open>A failed attempt leaves at most 4096 entries in the throttle, and a released one fewer
  than 4096, whatever the map's iteration order and however many source addresses the attacker has.\<close>

theorem throttle_bounded:
  assumes "covers ord t"
  shows "card (dom (th_fails (Fail ord ip now t))) \<le> maxEntries \<and>
    card (dom (th_fails (Release ord ip now t))) < maxEntries"
proof
  let ?s = "sweepLocked ord now t"
  have fin: "finite (dom (th_fails ?s))"
    by (rule finite_subset [OF shrinks_dom [OF shrinks_sweep] covers_finite [OF assms]])
  have "dom (th_fails (Fail ord ip now t)) = insert ip (dom (th_fails ?s))"
    using Fail_entry [of ord ip now t] by (auto simp: put_entry_def)
  then show "card (dom (th_fails (Fail ord ip now t))) \<le> maxEntries"
    using sweep_bound [OF assms, of now] card_insert_if [OF fin, of ip] by (simp split: if_splits)
next
  define u where "u = (case th_fails t ip of None \<Rightarrow> t
        | Some e \<Rightarrow>
            (let e = (if fe_inflight e > 0 then e\<lparr>fe_inflight := fe_inflight e - 1\<rparr> else e) in
             if fe_inflight e = 0 \<and> fe_count e = 0 \<and> is_zero (fe_until e) then drop_entry ip t
             else put_entry ip e t))"
  have "dom (th_fails u) \<subseteq> dom (th_fails t)"
    by (auto simp: u_def drop_entry_def put_entry_def Let_def split: option.splits if_splits)
  then have cov: "covers ord u" by (rule covers_mono [OF assms])
  have rel: "Release ord ip now t =
      (if go_len (fst ord) (th_fails u) \<ge> maxEntries then sweepLocked ord now u else u)"
    by (simp add: Release_def u_def Let_def)
  have "go_len (fst ord) (th_fails u) = card (dom (th_fails u))"
    using cov by (cases ord) (simp add: covers_keys_def go_len_card)
  then show "card (dom (th_fails (Release ord ip now t))) < maxEntries"
    using sweep_bound [OF cov] by (simp add: rel)
qed

theorem throttle_bounded_witness:
  "card (dom (th_fails (Fail ([''a''], [''a''], [''a'']) ''a'' 0 (NewFailureThrottle 3 minute)))) \<le> maxEntries"
  by (rule throttle_bounded [THEN conjunct1]) (simp_all add: covers_keys_def NewFailureThrottle_def)

section \<open>Failures lock an address out\<close>

definition strikes :: "ident \<Rightarrow> throttle \<Rightarrow> int \<times> instant" where
  "strikes ip t = (case th_fails t ip of None \<Rightarrow> (0, zero_time)
     | Some e \<Rightarrow> (fe_count e, fe_until e))"

lemma sweep_small: "covers ord t \<Longrightarrow> card (dom (th_fails t)) < maxEntries \<Longrightarrow> sweepLocked ord now t = t"
  by (cases ord) (simp add: sweepLocked_def covers_keys_def go_len_card)

lemma strikes_put [simp]: "strikes ip (put_entry ip e t) = (fe_count e, fe_until e)"
  by (simp add: strikes_def put_entry_def)

lemma strikes_Fail:
  assumes "sweepLocked ord now t = t" "strikes ip t = (c, zero_time)"
  shows "strikes ip (Fail ord ip now t) =
    (if c + 1 < th_limit t then (c + 1, zero_time) else (0, now + th_cooldown t))"
  using assms by (auto simp: Fail_def Let_def strikes_def put_entry_def is_zero_def split: option.splits)

lemma Fail_fields: "th_limit (Fail ord ip now t) = th_limit t \<and>
    th_cooldown (Fail ord ip now t) = th_cooldown t \<and>
    th_capConcurrent (Fail ord ip now t) = th_capConcurrent t"
proof -
  obtain e where "Fail ord ip now t = put_entry ip e (sweepLocked ord now t)"
    using Fail_entry by blast
  then show ?thesis
    using shrinks_fields [OF shrinks_sweep, of ord now t] by (simp add: put_entry_def)
qed

lemma Fail_dom:
  "sweepLocked ord now t = t \<Longrightarrow> dom (th_fails (Fail ord ip now t)) = insert ip (dom (th_fails t))"
  using Fail_entry [of ord ip now t] by (auto simp: put_entry_def)

definition fail_all :: "ident \<Rightarrow> (orders \<times> instant) list \<Rightarrow> throttle \<Rightarrow> throttle" where
  "fail_all ip fs t = fold (\<lambda>(ord, now). Fail ord ip now) fs t"

text \<open>A throttle far enough from its size limit that no failure of \<open>ip\<close> sweeps.\<close>

definition roomy :: "ident \<Rightarrow> (orders \<times> instant) list \<Rightarrow> throttle \<Rightarrow> bool" where
  "roomy ip fs t \<longleftrightarrow> card (insert ip (dom (th_fails t))) < maxEntries \<and>
     (\<forall>(ord, now) \<in> set fs. covers_keys ord (insert ip (dom (th_fails t))))"

lemma roomy_Cons:
  assumes "roomy ip ((ord, now) # fs) t"
  shows "sweepLocked ord now t = t" and "roomy ip fs (Fail ord ip now t)"
proof -
  have cov: "covers ord t"
    using assms by (auto intro: covers_mono simp: roomy_def)
  then have "card (dom (th_fails t)) \<le> card (insert ip (dom (th_fails t)))"
    using covers_finite by (intro card_mono) auto
  with assms cov show sw: "sweepLocked ord now t = t"
    by (intro sweep_small) (auto simp: roomy_def)
  show "roomy ip fs (Fail ord ip now t)"
    using assms unfolding roomy_def Fail_dom [OF sw] by simp
qed

lemma strikes_fail_all:
  "roomy ip fs t \<Longrightarrow> strikes ip t = (c, zero_time) \<Longrightarrow> 0 \<le> c \<Longrightarrow> c + int (length fs) \<le> th_limit t \<Longrightarrow>
    fs \<noteq> [] \<Longrightarrow>
    strikes ip (fail_all ip fs t) =
      (if c + int (length fs) < th_limit t then (c + int (length fs), zero_time)
       else (0, snd (last fs) + th_cooldown t))"
proof (induction fs arbitrary: t c)
  case Nil
  then show ?case by simp
next
  case (Cons f fs)
  obtain ord now where f: "f = (ord, now)" by (cases f) auto
  note roomy = roomy_Cons [OF Cons.prems(1) [unfolded f]]
  note here = strikes_Fail [OF roomy(1) Cons.prems(2)]
  have fa: "fail_all ip (f # fs) t = fail_all ip fs (Fail ord ip now t)"
    by (simp add: fail_all_def f)
  show ?case
  proof (cases "fs = []")
    case True
    then show ?thesis using here f by (simp add: fail_all_def)
  next
    case False
    then have "1 \<le> int (length fs)" by (cases fs) simp_all
    with Cons.prems(4) have "strikes ip (Fail ord ip now t) = (c + 1, zero_time)"
      using here by simp
    from Cons.IH [OF roomy(2) this _ _ False] Cons.prems(3,4) False f fa show ?thesis
      by (simp add: Fail_fields add.assoc)
  qed
qed

text \<open>An address without a record that fails exactly \<open>limit\<close> times in a row is locked out for the
  cooldown counted from its last failure: every attempt before its end is refused and told how long
  it still lasts, and the first one at its end is let in again when a slot is free. One failure
  fewer does not lock it out.\<close>

theorem lockout_after_limit:
  assumes "roomy ip fs t" and "th_fails t ip = None" and "0 < th_limit t"
    and "int (length fs) = th_limit t" and "0 < th_cooldown t" and "0 \<le> snd (last fs)"
    and "now < snd (last fs) + th_cooldown t"
  shows "\<not> snd (Allow ip now (fail_all ip fs t)) \<and>
    RetryAfter ip now (fail_all ip fs t) = snd (last fs) + th_cooldown t - now"
proof -
  have "fs \<noteq> []" using assms(3,4) by auto
  with assms have "strikes ip (fail_all ip fs t) = (0, snd (last fs) + th_cooldown t)"
    by (subst strikes_fail_all [where c = 0]) (auto simp: strikes_def)
  moreover have "snd (last fs) + th_cooldown t \<noteq> zero_time"
    using assms(5,6) by (simp add: zero_time_def)
  ultimately obtain e where "th_fails (fail_all ip fs t) ip = Some e"
    "fe_until e = snd (last fs) + th_cooldown t" "\<not> is_zero (fe_until e)"
    by (auto simp: strikes_def is_zero_def split: option.splits)
  with assms(7) show ?thesis by (simp add: Allow_def RetryAfter_def)
qed

theorem lockout_after_limit_witness:
  "\<not> snd (Allow ''a'' 3 (fail_all ''a'' [(([''a''], [''a''], [''a'']), 1), (([''a''], [''a''], [''a'']), 2)]
      (NewFailureThrottle 2 minute)))"
  by (rule lockout_after_limit [THEN conjunct1])
    (simp_all add: roomy_def covers_keys_def put_entry_def NewFailureThrottle_def)

text \<open>An attempt is refused only during a cooldown or, where the cap is on, when the address
  already has four attempts in flight; a first failure short of the limit never refuses.\<close>

theorem refused_only_when:
  assumes "\<not> snd (Allow ip now t)"
  shows "now < snd (strikes ip t) \<or>
    (th_capConcurrent t \<and> (\<exists>e. th_fails t ip = Some e \<and> maxConcurrentAttempts \<le> fe_inflight e))"
  using assms by (auto simp: Allow_def strikes_def split: option.splits if_splits)

theorem refused_only_when_witness:
  "3 < snd (strikes ''a'' (fail_all ''a'' [(([''a''], [''a''], [''a'']), 1)] (NewFailureThrottle 1 minute))) \<or> False"
  using refused_only_when [of "''a''" 3
      "fail_all ''a'' [(([''a''], [''a''], [''a'']), 1)] (NewFailureThrottle 1 minute)"]
  by (simp add: fail_all_def Fail_def Let_def sweepLocked_def go_len_def NewFailureThrottle_def
      put_entry_def Allow_def strikes_def is_zero_def zero_time_def)

section \<open>The cap on concurrent attempts\<close>

text \<open>One password check as the handlers run it: \<open>Allow\<close>, a deferred \<open>Release\<close>, and \<open>Fail\<close>, \<open>Success\<close>
  or neither in between. The second component counts the checks really running per address.\<close>

datatype attempt = Enter ident | Leave_release ident | Leave_success ident | Leave_fail ident

fun attempt_step ::
  "orders \<Rightarrow> instant \<Rightarrow> attempt \<Rightarrow> throttle \<times> (ident \<Rightarrow> int) \<Rightarrow> throttle \<times> (ident \<Rightarrow> int)" where
  "attempt_step ord now (Enter ip) (t, r) =
     (case Allow ip now t of (t', ok) \<Rightarrow> (t', if ok then r(ip := r ip + 1) else r))"
| "attempt_step ord now (Leave_release ip) (t, r) =
     (if r ip > 0 then (Release ord ip now t, r(ip := r ip - 1)) else (t, r))"
| "attempt_step ord now (Leave_success ip) (t, r) =
     (if r ip > 0 then (Release ord ip now (Success ip t), r(ip := r ip - 1)) else (t, r))"
| "attempt_step ord now (Leave_fail ip) (t, r) =
     (if r ip > 0 then (Release ord ip now (Fail ord ip now t), r(ip := r ip - 1)) else (t, r))"

definition slot_ok :: "failEntry option \<Rightarrow> int \<Rightarrow> bool" where
  "slot_ok v n \<longleftrightarrow> (case v of None \<Rightarrow> n = 0
     | Some e \<Rightarrow> n = fe_inflight e \<and> 0 \<le> n \<and> n \<le> maxConcurrentAttempts)"

definition slots_inv :: "throttle \<times> (ident \<Rightarrow> int) \<Rightarrow> bool" where
  "slots_inv s \<longleftrightarrow> (case s of (t, r) \<Rightarrow>
     th_capConcurrent t \<and> (\<forall>ip. slot_ok (th_fails t ip) (r ip)))"

lemma slots_inv_upd:
  "slots_inv (t, r) \<Longrightarrow> slot_ok v n \<Longrightarrow>
    slots_inv (t\<lparr>th_fails := (th_fails t)(ip := v)\<rparr>, r(ip := n))"
  by (simp add: slots_inv_def)

lemma slots_inv_cases:
  assumes "slots_inv (t, r)"
  obtains "th_fails t ip = None" "r ip = 0"
  | e where "th_fails t ip = Some e" "r ip = fe_inflight e" "0 \<le> r ip" "r ip \<le> 4" "th_capConcurrent t"
  using assms unfolding slots_inv_def slot_ok_def
  by (cases "th_fails t ip") (auto dest: spec [of _ ip])

fun no_fail :: "attempt \<Rightarrow> bool" where
  "no_fail (Leave_fail ip) \<longleftrightarrow> False"
| "no_fail _ \<longleftrightarrow> True"

lemma Release_small:
  "covers ord t \<Longrightarrow> card (dom (th_fails t)) < maxEntries \<Longrightarrow> th_fails t ip = Some e \<Longrightarrow> 0 < fe_inflight e \<Longrightarrow>
    Release ord ip now t =
      (if fe_inflight e = 1 \<and> fe_count e = 0 \<and> is_zero (fe_until e) then drop_entry ip t
       else put_entry ip (e\<lparr>fe_inflight := fe_inflight e - 1\<rparr>) t)"
proof -
  assume a: "covers ord t" "card (dom (th_fails t)) < maxEntries" "th_fails t ip = Some e" "0 < fe_inflight e"
  have small: "go_len (fst ord) (th_fails u) < maxEntries" if "dom (th_fails u) \<subseteq> dom (th_fails t)" for u :: throttle
  proof -
    have "go_len (fst ord) (th_fails u) = card (dom (th_fails u))"
      using covers_mono [OF a(1) that] by (cases ord) (simp add: covers_keys_def go_len_card)
    then show ?thesis using card_mono [OF covers_finite [OF a(1)] that] a(2) by simp
  qed
  have "go_len (fst ord) (th_fails (drop_entry ip t)) < maxEntries"
    "go_len (fst ord) (th_fails (put_entry ip (e\<lparr>fe_inflight := fe_inflight e - 1\<rparr>) t)) < maxEntries"
    using a(3) by (intro small; auto simp: drop_entry_def put_entry_def)+
  with a(3,4) show ?thesis by (simp add: Release_def Let_def)
qed

fun who :: "attempt \<Rightarrow> ident" where
  "who (Enter ip) = ip" | "who (Leave_release ip) = ip" | "who (Leave_success ip) = ip"
| "who (Leave_fail ip) = ip"

fun attempt_run ::
  "(orders \<times> instant \<times> attempt) list \<Rightarrow> throttle \<times> (ident \<Rightarrow> int) \<Rightarrow> throttle \<times> (ident \<Rightarrow> int)" where
  "attempt_run [] s = s"
| "attempt_run ((ord, now, a) # es) s = attempt_run es (attempt_step ord now a s)"

text \<open>A run over the addresses \<open>K\<close>, few enough for the map never to be swept.\<close>

definition small_run :: "ident set \<Rightarrow> (orders \<times> instant \<times> attempt) list \<Rightarrow> bool" where
  "small_run K es \<longleftrightarrow> finite K \<and> card K < maxEntries \<and>
     (\<forall>(ord, now, a) \<in> set es. covers_keys ord K \<and> who a \<in> K \<and> no_fail a)"

lemma slots_step:
  assumes inv: "slots_inv (t, r)" and K: "finite K" "card K < maxEntries" "dom (th_fails t) \<subseteq> K"
    and ord: "covers_keys ord K" "who a \<in> K" "no_fail a"
    and st: "attempt_step ord now a (t, r) = (t', r')"
  shows "slots_inv (t', r') \<and> dom (th_fails t') \<subseteq> K"
proof -
  have small: "covers ord u \<and> card (dom (th_fails u)) < maxEntries" if "dom (th_fails u) \<subseteq> K" for u :: throttle
    using covers_mono [OF ord(1) that] card_mono [OF K(1) that] K(2) by simp
  have in_K: "th_fails t j = Some e \<Longrightarrow> j \<in> K" for j e
    using K(3) by auto
  show ?thesis
  proof (cases a)
    case (Enter ip)
    show ?thesis
      using inv
    proof (cases rule: slots_inv_cases [where ip = ip])
      case 1
      then show ?thesis
        using st Enter K(3) in_K ord(2) slots_inv_upd [OF inv, of _ 1 ip]
        by (auto simp: Allow_def put_entry_def slot_ok_def split: if_splits)
    next
      case (2 e)
      then show ?thesis
        using st Enter K(3) ord(2) inv
          slots_inv_upd [OF inv, of "Some (e\<lparr>fe_inflight := fe_inflight e + 1\<rparr>)" "r ip + 1" ip]
        by (auto simp: Allow_def put_entry_def slot_ok_def split: if_splits)
    qed
  next
    case (Leave_release ip)
    show ?thesis
      using inv
    proof (cases rule: slots_inv_cases [where ip = ip])
      case 1
      then show ?thesis using st Leave_release K(3) inv by simp
    next
      case (2 e)
      then show ?thesis
        using st Leave_release K(3) inv small [OF K(3)] slots_inv_upd [OF inv, of None 0 ip]
          slots_inv_upd [OF inv, of "Some (e\<lparr>fe_inflight := fe_inflight e - 1\<rparr>)" "r ip - 1" ip]
        by (auto simp: Release_small drop_entry_def put_entry_def slot_ok_def split: if_splits)
    qed
  next
    case (Leave_success ip)
    show ?thesis
      using inv
    proof (cases rule: slots_inv_cases [where ip = ip])
      case 1
      then show ?thesis using st Leave_success K(3) inv by simp
    next
      case (2 e)
      show ?thesis
      proof (cases "0 < r ip")
        case True
        let ?e = "e\<lparr>fe_count := 0, fe_until := zero_time\<rparr>"
        have s: "Success ip t = put_entry ip ?e t"
          using 2 True by (simp add: Success_def Let_def)
        have dom: "dom (th_fails (put_entry ip ?e t)) \<subseteq> K"
          using K(3) 2(1) by (auto simp: put_entry_def)
        have rel: "Release ord ip now (Success ip t) =
            (if r ip = 1 then t\<lparr>th_fails := (th_fails t)(ip := None)\<rparr>
             else t\<lparr>th_fails := (th_fails t)(ip := Some (?e\<lparr>fe_inflight := r ip - 1\<rparr>))\<rparr>)"
          unfolding s using 2 True small [OF dom]
          by (subst Release_small [where e = ?e]) (auto simp: put_entry_def is_zero_def drop_entry_def)
        have t': "t' = Release ord ip now (Success ip t)" "r' = r(ip := r ip - 1)"
          using st Leave_success True by auto
        have "slots_inv (t', r')"
          unfolding t' rel using True 2 slots_inv_upd [OF inv, of None 0 ip]
            slots_inv_upd [OF inv, of "Some (?e\<lparr>fe_inflight := r ip - 1\<rparr>)" "r ip - 1" ip]
          by (auto simp: slot_ok_def)
        moreover have "dom (th_fails t') \<subseteq> K"
          unfolding t'(1) rel using in_K 2(1) by (auto split: if_splits)
        ultimately show ?thesis by blast
      qed (use st Leave_success K(3) inv in simp)
    qed
  next
    case (Leave_fail ip)
    with ord(3) show ?thesis by simp
  qed
qed

lemma slots_run:
  "slots_inv (t, r) \<Longrightarrow> dom (th_fails t) \<subseteq> K \<Longrightarrow> small_run K es \<Longrightarrow> slots_inv (attempt_run es (t, r))"
proof (induction es arbitrary: t r)
  case Nil
  then show ?case by simp
next
  case (Cons e es)
  obtain ord now a where e: "e = (ord, now, a)" by (cases e) auto
  obtain t' r' where st: "attempt_step ord now a (t, r) = (t', r')"
    by (cases "attempt_step ord now a (t, r)") auto
  have run: "finite K" "card K < maxEntries" "covers_keys ord K" "who a \<in> K" "no_fail a" "small_run K es"
    using Cons.prems(3) e by (auto simp: small_run_def)
  have "slots_inv (t', r') \<and> dom (th_fails t') \<subseteq> K"
    by (rule slots_step [OF Cons.prems(1) run(1,2) Cons.prems(2) run(3,4,5) st])
  with Cons.IH [of t' r'] run(6) e st show ?case by simp
qed

text \<open>As long as no attempt ends in a recorded failure, an address never has more than four
  password checks running, in any interleaving of entering, releasing and succeeding attempts.\<close>

theorem concurrency_capped:
  assumes "small_run K es"
  shows "snd (attempt_run es (NewFailureThrottle limit cooldown, \<lambda>_. 0)) ip \<le> maxConcurrentAttempts"
proof -
  let ?s = "attempt_run es (NewFailureThrottle limit cooldown, \<lambda>_. 0)"
  have "slots_inv ?s"
    by (rule slots_run [OF _ _ assms]) (simp_all add: slots_inv_def slot_ok_def NewFailureThrottle_def)
  then show ?thesis
    by (cases ?s) (auto elim: slots_inv_cases [of _ _ ip])
qed

theorem concurrency_capped_witness:
  "snd (attempt_run [(([''a''], [''a''], [''a'']), 0, Enter ''a''), (([''a''], [''a''], [''a'']), 1, Leave_success ''a'')]
     (NewFailureThrottle 0 0, \<lambda>_. 0)) ''a'' \<le> maxConcurrentAttempts"
  by (rule concurrency_capped [where K = "{''a''}"]) (simp add: small_run_def covers_keys_def)

text \<open>A failing attempt gives its slot back twice, once in \<open>Fail\<close> and once in the deferred
  \<open>Release\<close>: with four attempts of an address running, one failure makes room for two more, and
  five run at the same time, one above the cap.\<close>

theorem failure_returns_two_slots:
  assumes "th_fails t ip = Some e" and "fe_inflight e = 4" and "fe_until e = zero_time"
    and "0 \<le> fe_count e" and "fe_count e + 1 < th_limit t" and "covers ord t"
    and "card (dom (th_fails t)) < maxEntries" and "r ip = 4"
  shows "snd (attempt_run [(ord, now, Leave_fail ip), (ord, now, Enter ip), (ord, now, Enter ip)] (t, r)) ip = 5"
proof -
  let ?e = "e\<lparr>fe_inflight := 3, fe_count := fe_count e + 1\<rparr>"
  have f: "Fail ord ip now t = put_entry ip ?e t"
    using assms by (simp add: Fail_def Let_def sweep_small is_zero_def)
  have dom: "dom (th_fails (put_entry ip ?e t)) = dom (th_fails t)"
    using assms(1) by (auto simp: put_entry_def)
  have "Release ord ip now (Fail ord ip now t) = put_entry ip (?e\<lparr>fe_inflight := 2\<rparr>) (put_entry ip ?e t)"
    unfolding f using assms(2,4,6,7) dom
    by (subst Release_small [where e = ?e]) (simp_all add: put_entry_def)
  then show ?thesis
    using assms by (simp add: Allow_def put_entry_def is_zero_def)
qed

theorem failure_returns_two_slots_witness:
  "snd (attempt_run [(([''a''], [''a''], [''a'']), 7, Leave_fail ''a''), (([''a''], [''a''], [''a'']), 7, Enter ''a''),
      (([''a''], [''a''], [''a'']), 7, Enter ''a'')]
     ((NewFailureThrottle 10 minute)\<lparr>th_fails := [''a'' \<mapsto> \<lparr>fe_count = 0, fe_until = zero_time, fe_inflight = 4\<rparr>]\<rparr>,
      (\<lambda>_. 0)(''a'' := 4))) ''a'' = 5"
  by (rule failure_returns_two_slots
        [where e = "\<lparr>fe_count = 0, fe_until = zero_time, fe_inflight = 4\<rparr>"])
    (simp_all add: NewFailureThrottle_def covers_keys_def)

end
