(* ===== verification/Routing.thy ===== *)
theory Routing
  imports Effort "HOL-Library.Multiset" "HOL-Library.Sublist"
begin

text \<open>
  \<^verbatim>\<open>internal/routing/routing.go\<close>: the index of routes, targets, providers and upstream models
  that every request resolves its model name against. The records are the Go structs, the maps are
  the maps of \<open>RouteIndex\<close>; the published objects are not mutated, so a pointer is its value. A
  method that ranges over a map takes the order of the iteration.
\<close>

record route =
  rt_ID :: ident
  rt_PublicName :: string
  rt_ProviderID :: ident
  rt_UpstreamModelID :: ident
  rt_Enabled :: bool
  rt_FailoverEnabled :: bool

record target =
  tg_ID :: ident
  tg_RouteID :: ident
  tg_ProviderID :: ident
  tg_UpstreamModelID :: ident
  tg_Position :: int
  tg_Enabled :: bool

record provider_ref =
  pr_ID :: ident
  pr_Slug :: string
  pr_Name :: string
  pr_Endpoint :: string
  pr_Protocol :: string
  pr_NetworkID :: ident
  pr_ProxyConfigured :: bool
  pr_Enabled :: bool

record upstream_model =
  um_ID :: ident
  um_ProviderID :: ident
  um_ModelID :: string
  um_DisplayName :: string
  um_ContextWindow :: int
  um_MaxOutputTokens :: int
  um_SupportsThinking :: "bool option"
  um_EffortLevels :: "level list"
  um_PriceInput :: rat
  um_PriceCacheHit :: rat
  um_PriceCacheCreation :: rat
  um_PriceOutput :: rat

record route_index =
  ri_byPublicName :: "string \<rightharpoonup> route"
  ri_byID :: "ident \<rightharpoonup> route"
  ri_providers :: "ident \<rightharpoonup> provider_ref"
  ri_providerModels :: "ident \<rightharpoonup> (ident \<rightharpoonup> upstream_model)"
  ri_modelsByModelID :: "ident \<rightharpoonup> (string \<rightharpoonup> upstream_model)"
  ri_targetsByRoute :: "ident \<rightharpoonup> target list"

record candidate =
  cd_TargetID :: ident
  cd_Position :: int
  cd_Provider :: provider_ref
  cd_UpstreamModel :: upstream_model

record resolution =
  rs_Route :: route
  rs_Candidates :: "candidate list"

datatype routing_error = ErrModelNotFound

definition NewRouteIndex :: route_index where
  "NewRouteIndex =
     \<lparr>ri_byPublicName = Map.empty, ri_byID = Map.empty, ri_providers = Map.empty,
      ri_providerModels = Map.empty, ri_modelsByModelID = Map.empty, ri_targetsByRoute = Map.empty\<rparr>"

definition AddRoute :: "route \<Rightarrow> route_index \<Rightarrow> route_index" where
  "AddRoute r ri =
     ri\<lparr>ri_byPublicName := (ri_byPublicName ri)(rt_PublicName r \<mapsto> r),
        ri_byID := (ri_byID ri)(rt_ID r \<mapsto> r)\<rparr>"

text \<open>A read of a missing key gives Go's nil: no targets, no models.\<close>

definition targets_of :: "route_index \<Rightarrow> ident \<Rightarrow> target list" where
  "targets_of ri rid = (case ri_targetsByRoute ri rid of None \<Rightarrow> [] | Some ts \<Rightarrow> ts)"

definition AddRouteTarget :: "target \<Rightarrow> route_index \<Rightarrow> route_index" where
  "AddRouteTarget t ri =
     ri\<lparr>ri_targetsByRoute := (ri_targetsByRoute ri)
          (tg_RouteID t \<mapsto> sort_key tg_Position (targets_of ri (tg_RouteID t) @ [t]))\<rparr>"

definition ensure_key :: "ident \<Rightarrow> (ident \<rightharpoonup> ('k \<rightharpoonup> 'v)) \<Rightarrow> (ident \<rightharpoonup> ('k \<rightharpoonup> 'v))" where
  "ensure_key k m = (case m k of None \<Rightarrow> m(k \<mapsto> Map.empty) | Some _ \<Rightarrow> m)"

definition AddProvider :: "provider_ref \<Rightarrow> route_index \<Rightarrow> route_index" where
  "AddProvider p ri =
     ri\<lparr>ri_providers := (ri_providers ri)(pr_ID p \<mapsto> p, pr_Slug p \<mapsto> p),
        ri_providerModels := ensure_key (pr_ID p) (ri_providerModels ri),
        ri_modelsByModelID := ensure_key (pr_ID p) (ri_modelsByModelID ri)\<rparr>"

text \<open>\<open>m[a][b] = v\<close> on a map of maps.\<close>

definition put2 :: "ident \<Rightarrow> 'k \<Rightarrow> 'v \<Rightarrow> (ident \<rightharpoonup> ('k \<rightharpoonup> 'v)) \<Rightarrow> (ident \<rightharpoonup> ('k \<rightharpoonup> 'v))" where
  "put2 a b v m = (case ensure_key a m a of None \<Rightarrow> m | Some inner \<Rightarrow> m(a \<mapsto> inner(b \<mapsto> v)))"

definition get2 :: "(ident \<rightharpoonup> ('k \<rightharpoonup> 'v)) \<Rightarrow> ident \<Rightarrow> 'k \<Rightarrow> 'v option" where
  "get2 m a b = (case m a of None \<Rightarrow> None | Some inner \<Rightarrow> inner b)"

definition AddUpstreamModel :: "upstream_model \<Rightarrow> route_index \<Rightarrow> route_index" where
  "AddUpstreamModel m ri =
     ri\<lparr>ri_providerModels := put2 (um_ProviderID m) (um_ID m) m (ri_providerModels ri),
        ri_modelsByModelID := put2 (um_ProviderID m) (um_ModelID m) m (ri_modelsByModelID ri)\<rparr>"

definition FindUpstreamModelByModelID :: "route_index \<Rightarrow> ident \<Rightarrow> string \<Rightarrow> upstream_model option" where
  "FindUpstreamModelByModelID ri providerID modelID = get2 (ri_modelsByModelID ri) providerID modelID"

definition findProviderByID :: "route_index \<Rightarrow> ident \<Rightarrow> provider_ref option" where
  "findProviderByID ri rid = ri_providers ri rid"

definition findProviderBySlug :: "route_index \<Rightarrow> string \<Rightarrow> provider_ref option" where
  "findProviderBySlug ri slug = ri_providers ri slug"

definition findUpstreamModel :: "route_index \<Rightarrow> ident \<Rightarrow> ident \<Rightarrow> upstream_model option" where
  "findUpstreamModel ri providerID modelID =
     (case ri_providerModels ri providerID of Some models \<Rightarrow> models modelID | None \<Rightarrow> None)"

text \<open>The enabled provider and the model that a target or route points at.\<close>

definition live :: "route_index \<Rightarrow> ident \<Rightarrow> ident \<Rightarrow> (provider_ref \<times> upstream_model) option" where
  "live ri providerID modelID =
     (case findProviderByID ri providerID of
        None \<Rightarrow> None
      | Some p \<Rightarrow> if \<not> pr_Enabled p then None
                  else (case findUpstreamModel ri providerID modelID of
                          None \<Rightarrow> None | Some m \<Rightarrow> Some (p, m)))"

definition synth :: string where "synth = ''#synth''"

fun target_loop :: "route_index \<Rightarrow> target list \<Rightarrow> candidate list" where
  "target_loop ri [] = []"
| "target_loop ri (t # ts) =
     (if \<not> tg_Enabled t then target_loop ri ts
      else (case live ri (tg_ProviderID t) (tg_UpstreamModelID t) of
              None \<Rightarrow> target_loop ri ts
            | Some (p, m) \<Rightarrow>
                \<lparr>cd_TargetID = tg_ID t, cd_Position = tg_Position t, cd_Provider = p, cd_UpstreamModel = m\<rparr>
                # target_loop ri ts))"

definition buildCandidates :: "route_index \<Rightarrow> route \<Rightarrow> candidate list" where
  "buildCandidates ri r =
     (let targets = targets_of ri (rt_ID r); out = target_loop ri targets in
      if targets \<noteq> [] then out
      else (case live ri (rt_ProviderID r) (rt_UpstreamModelID r) of
              None \<Rightarrow> []
            | Some (p, m) \<Rightarrow>
                [\<lparr>cd_TargetID = rt_ID r @ synth, cd_Position = 0, cd_Provider = p, cd_UpstreamModel = m\<rparr>]))"

definition resolve_direct :: "route_index \<Rightarrow> string \<Rightarrow> routing_error + resolution" where
  "resolve_direct ri model =
     (case index_byte model (CHR ''/'') of
        Some (Suc i) \<Rightarrow>
          (let slug = take (Suc i) model; rest = drop (Suc (Suc i)) model in
           case findProviderBySlug ri slug of
             None \<Rightarrow> Inl ErrModelNotFound
           | Some p \<Rightarrow>
               if \<not> pr_Enabled p then Inl ErrModelNotFound
               else (case FindUpstreamModelByModelID ri (pr_ID p) rest of
                       None \<Rightarrow> Inl ErrModelNotFound
                     | Some m \<Rightarrow>
                         Inr \<lparr>rs_Route = \<lparr>rt_ID = '''', rt_PublicName = model, rt_ProviderID = pr_ID p,
                                rt_UpstreamModelID = um_ID m, rt_Enabled = True, rt_FailoverEnabled = False\<rparr>,
                              rs_Candidates = [\<lparr>cd_TargetID = model @ synth, cd_Position = 0,
                                cd_Provider = p, cd_UpstreamModel = m\<rparr>]\<rparr>))
      | _ \<Rightarrow> Inl ErrModelNotFound)"

definition Resolve :: "route_index \<Rightarrow> string \<Rightarrow> routing_error + resolution" where
  "Resolve ri model =
     (case ri_byPublicName ri model of
        Some r \<Rightarrow>
          if \<not> rt_Enabled r then Inl ErrModelNotFound
          else (let cands = buildCandidates ri r in
                if cands = [] then Inl ErrModelNotFound
                else Inr \<lparr>rs_Route = r, rs_Candidates = cands\<rparr>)
      | None \<Rightarrow> resolve_direct ri model)"

section \<open>Enumerations and suggestions\<close>

definition ListRoutes :: "ident list \<Rightarrow> route_index \<Rightarrow> route list" where
  "ListRoutes ks ri = List.map_filter (ri_byID ri) ks"

definition ListPublicNames :: "string list \<Rightarrow> route_index \<Rightarrow> string list" where
  "ListPublicNames ks ri = filter (\<lambda>n. ri_byPublicName ri n \<noteq> None) ks"

fun match_loop :: "string \<Rightarrow> nat \<Rightarrow> string \<Rightarrow> nat" where
  "match_loop want i [] = i"
| "match_loop want i (c # cs) =
     (if i < length want then match_loop want (if want ! i = c then i + 1 else i) cs else i)"

definition isSubsequence :: "string \<Rightarrow> string \<Rightarrow> bool" where
  "isSubsequence want have \<longleftrightarrow>
     \<not> (length want = 0 \<or> length have < length want) \<and> match_loop want 0 have = length want"

record hit =
  ht_name :: string
  ht_contains :: bool

fun hits :: "string \<Rightarrow> string list \<Rightarrow> hit list" where
  "hits lower [] = []"
| "hits lower (n # ns) =
     (let ln = to_lower n in
      if str_contains ln lower then \<lparr>ht_name = n, ht_contains = True\<rparr> # hits lower ns
      else if isSubsequence lower ln then \<lparr>ht_name = n, ht_contains = False\<rparr> # hits lower ns
      else hits lower ns)"

text \<open>The order of \<open>sort.Slice\<close>; it is total on distinct names, so the sort is determined.\<close>

definition hit_key :: "hit \<Rightarrow> bool \<times> nat \<times> string" where
  "hit_key h = (\<not> ht_contains h, length (ht_name h), ht_name h)"

definition SuggestModel :: "string list \<Rightarrow> route_index \<Rightarrow> string \<Rightarrow> int \<Rightarrow> string list" where
  "SuggestModel ks ri requested limit =
     (let limit = (if limit \<le> 0 then 5 else limit);
          hs = sort_key hit_key (hits (to_lower requested) (ListPublicNames ks ri))
      in map ht_name (if int (length hs) > limit then take (nat limit) hs else hs))"

record upstream_model_ref =
  ur_ProviderID :: ident
  ur_ProviderSlug :: string
  ur_ModelID :: string
  ur_Enabled :: bool

definition refs_of :: "(ident \<Rightarrow> ident list) \<Rightarrow> route_index \<Rightarrow> provider_ref \<Rightarrow> upstream_model_ref list" where
  "refs_of ms ri p =
     List.map_filter (\<lambda>rid. map_option (\<lambda>m. \<lparr>ur_ProviderID = pr_ID p, ur_ProviderSlug = pr_Slug p,
         ur_ModelID = um_ModelID m, ur_Enabled = pr_Enabled p\<rparr>)
       (findUpstreamModel ri (pr_ID p) rid)) (ms (pr_ID p))"

fun upstream_loop ::
  "(ident \<Rightarrow> ident list) \<Rightarrow> route_index \<Rightarrow> ident list \<Rightarrow> ident list \<Rightarrow> upstream_model_ref list" where
  "upstream_loop ms ri seen [] = []"
| "upstream_loop ms ri seen (k # ks) =
     (case ri_providers ri k of
        None \<Rightarrow> upstream_loop ms ri seen ks
      | Some p \<Rightarrow> if pr_ID p \<in> set seen then upstream_loop ms ri seen ks
                  else refs_of ms ri p @ upstream_loop ms ri (pr_ID p # seen) ks)"

definition ListUpstreamModels ::
  "ident list \<Rightarrow> (ident \<Rightarrow> ident list) \<Rightarrow> route_index \<Rightarrow> upstream_model_ref list" where
  "ListUpstreamModels ks ms ri = upstream_loop ms ri [] ks"

section \<open>The chain of a route\<close>

lemma sort_key_snoc: "sort_key f (sort_key f xs @ [x]) = sort_key f (xs @ [x])"
proof (rule properties_for_sort_key)
  show "mset (sort_key f (xs @ [x])) = mset (sort_key f xs @ [x])" by simp
  show "filter (\<lambda>y. f k = f y) (sort_key f (xs @ [x])) = filter (\<lambda>y. f k = f y) (sort_key f xs @ [x])" for k
    by (simp add: eq_commute [of "f k"] sort_key_stable)
  show "sorted (map f (sort_key f (xs @ [x])))" by simp
qed

lemma targets_of_add:
  "targets_of (AddRouteTarget t ri) r =
    (if r = tg_RouteID t then sort_key tg_Position (targets_of ri r @ [t]) else targets_of ri r)"
  by (auto simp: targets_of_def AddRouteTarget_def)

lemma targets_of_fold:
  "targets_of ri r = sort_key tg_Position ts0 \<Longrightarrow>
    targets_of (fold AddRouteTarget ts ri) r =
      sort_key tg_Position (ts0 @ filter (\<lambda>t. tg_RouteID t = r) ts)"
proof (induction ts arbitrary: ri ts0)
  case Nil
  then show ?case by simp
next
  case (Cons t ts)
  show ?case
  proof (cases "tg_RouteID t = r")
    case True
    with Cons.prems have "targets_of (AddRouteTarget t ri) r = sort_key tg_Position (ts0 @ [t])"
      by (simp add: targets_of_add sort_key_snoc)
    from Cons.IH [OF this] True show ?thesis by simp
  next
    case False
    with Cons.prems have "targets_of (AddRouteTarget t ri) r = sort_key tg_Position ts0"
      by (simp add: targets_of_add)
    from Cons.IH [OF this] False show ?thesis by simp
  qed
qed

text \<open>Loading targets one by one, in any interleaving of routes, leaves every route with its
  targets in position order and those of equal position in the order they were added: the insertion
  sort of the index is the stable sort of the whole list.\<close>

theorem targets_stable_sort:
  "targets_of (fold AddRouteTarget ts NewRouteIndex) r =
     sort_key tg_Position (filter (\<lambda>t. tg_RouteID t = r) ts)"
  using targets_of_fold [of NewRouteIndex r "[]" ts] by (simp add: targets_of_def NewRouteIndex_def)

lemma live_SomeD:
  "live ri pid mid = Some (p, m) \<Longrightarrow>
    findProviderByID ri pid = Some p \<and> pr_Enabled p \<and> findUpstreamModel ri pid mid = Some m"
  by (auto simp: live_def split: option.splits if_splits)

definition candidate_of :: "route_index \<Rightarrow> target \<Rightarrow> candidate option" where
  "candidate_of ri t =
     (if \<not> tg_Enabled t then None
      else map_option (\<lambda>(p, m). \<lparr>cd_TargetID = tg_ID t, cd_Position = tg_Position t, cd_Provider = p,
             cd_UpstreamModel = m\<rparr>) (live ri (tg_ProviderID t) (tg_UpstreamModelID t)))"

lemma target_loop_filter: "target_loop ri ts = List.map_filter (candidate_of ri) ts"
  by (induction ts) (auto simp: candidate_of_def List.map_filter_def split: option.splits)

lemma in_target_loop:
  "c \<in> set (target_loop ri ts) \<longleftrightarrow> (\<exists>t \<in> set ts. candidate_of ri t = Some c)"
  by (force simp: target_loop_filter List.map_filter_def image_iff)

text \<open>C36: What a name resolves to is alive and was asked for: every candidate names an enabled
  provider and a model of it, and comes from an enabled target of the route, or, where the route has
  no target rows at all, from the route's own provider and model. The chain is never empty.\<close>

theorem resolve_named_sound:
  assumes "Resolve ri model = Inr res" and "ri_byPublicName ri model = Some r"
  shows "rt_Enabled r \<and> rs_Route res = r \<and> rs_Candidates res \<noteq> [] \<and>
    (\<forall>c \<in> set (rs_Candidates res).
       pr_Enabled (cd_Provider c) \<and>
       (if targets_of ri (rt_ID r) = []
        then findProviderByID ri (rt_ProviderID r) = Some (cd_Provider c) \<and>
             findUpstreamModel ri (rt_ProviderID r) (rt_UpstreamModelID r) = Some (cd_UpstreamModel c) \<and>
             cd_TargetID c = rt_ID r @ synth
        else (\<exists>t \<in> set (targets_of ri (rt_ID r)).
               tg_Enabled t \<and> tg_ID t = cd_TargetID c \<and> tg_Position t = cd_Position c \<and>
               findProviderByID ri (tg_ProviderID t) = Some (cd_Provider c) \<and>
               findUpstreamModel ri (tg_ProviderID t) (tg_UpstreamModelID t) = Some (cd_UpstreamModel c))))"
proof -
  have en: "rt_Enabled r" and res: "res = \<lparr>rs_Route = r, rs_Candidates = buildCandidates ri r\<rparr>"
    and ne: "buildCandidates ri r \<noteq> []"
    using assms by (auto simp: Resolve_def Let_def split: if_splits)
  have one: "pr_Enabled (cd_Provider c) \<and> (\<exists>t \<in> set (targets_of ri (rt_ID r)).
       tg_Enabled t \<and> tg_ID t = cd_TargetID c \<and> tg_Position t = cd_Position c \<and>
       findProviderByID ri (tg_ProviderID t) = Some (cd_Provider c) \<and>
       findUpstreamModel ri (tg_ProviderID t) (tg_UpstreamModelID t) = Some (cd_UpstreamModel c))"
    if "c \<in> set (target_loop ri (targets_of ri (rt_ID r)))" for c
    using that by (fastforce simp: in_target_loop candidate_of_def dest: live_SomeD split: if_splits)
  show ?thesis
  proof (cases "targets_of ri (rt_ID r) = []")
    case True
    with ne obtain p m where "live ri (rt_ProviderID r) (rt_UpstreamModelID r) = Some (p, m)"
      by (auto simp: buildCandidates_def Let_def split: option.splits)
    with live_SomeD [OF this] True res en show ?thesis
      by (simp add: buildCandidates_def Let_def)
  next
    case False
    with one res en ne show ?thesis by (simp add: buildCandidates_def Let_def)
  qed
qed

definition demo_provider :: provider_ref where
  "demo_provider = \<lparr>pr_ID = ''p1'', pr_Slug = ''acme'', pr_Name = ''Acme'', pr_Endpoint = '''',
     pr_Protocol = ''chat'', pr_NetworkID = '''', pr_ProxyConfigured = False, pr_Enabled = True\<rparr>"

definition demo_model :: upstream_model where
  "demo_model = \<lparr>um_ID = ''m1'', um_ProviderID = ''p1'', um_ModelID = ''gpt'', um_DisplayName = '''',
     um_ContextWindow = 0, um_MaxOutputTokens = 0, um_SupportsThinking = None, um_EffortLevels = [],
     um_PriceInput = 1, um_PriceCacheHit = 0, um_PriceCacheCreation = 0, um_PriceOutput = 2\<rparr>"

definition demo_route :: "bool \<Rightarrow> route" where
  "demo_route en = \<lparr>rt_ID = ''r1'', rt_PublicName = ''acme/gpt'', rt_ProviderID = ''p1'',
     rt_UpstreamModelID = ''m1'', rt_Enabled = en, rt_FailoverEnabled = False\<rparr>"

definition demo_index :: "bool \<Rightarrow> route_index" where
  "demo_index en = AddRoute (demo_route en) (AddUpstreamModel demo_model (AddProvider demo_provider NewRouteIndex))"

lemmas demo_defs = demo_index_def demo_route_def demo_model_def demo_provider_def AddRoute_def
  AddUpstreamModel_def AddProvider_def NewRouteIndex_def ensure_key_def put2_def

lemma demo_resolves: "\<exists>res. Resolve (demo_index True) ''acme/gpt'' = Inr res \<and> rs_Candidates res \<noteq> []"
  by (simp add: demo_defs Resolve_def buildCandidates_def targets_of_def live_def findProviderByID_def
      findUpstreamModel_def)

theorem resolve_named_sound_witness:
  "\<exists>res. Resolve (demo_index True) ''acme/gpt'' = Inr res \<and> rs_Route res = demo_route True \<and>
    (\<forall>c \<in> set (rs_Candidates res). pr_Enabled (cd_Provider c))"
proof -
  obtain res where "Resolve (demo_index True) ''acme/gpt'' = Inr res" using demo_resolves by blast
  moreover have "ri_byPublicName (demo_index True) ''acme/gpt'' = Some (demo_route True)"
    by (simp add: demo_defs)
  ultimately show ?thesis using resolve_named_sound by blast
qed

text \<open>The chain follows the target order: the candidates of a resolved route are its live targets
  in ascending position, one for each.\<close>

theorem chain_in_order:
  assumes "targets_of ri (rt_ID r) \<noteq> []"
  shows "map cd_TargetID (buildCandidates ri r) =
      map tg_ID (filter (\<lambda>t. tg_Enabled t \<and> live ri (tg_ProviderID t) (tg_UpstreamModelID t) \<noteq> None)
        (targets_of ri (rt_ID r))) \<and>
    (sorted (map tg_Position (targets_of ri (rt_ID r))) \<longrightarrow>
      sorted (map cd_Position (buildCandidates ri r)))"
proof -
  have chain: "map cd_TargetID (target_loop ri ts) =
      map tg_ID (filter (\<lambda>t. tg_Enabled t \<and> live ri (tg_ProviderID t) (tg_UpstreamModelID t) \<noteq> None) ts)"
    "map cd_Position (target_loop ri ts) =
      map tg_Position (filter (\<lambda>t. tg_Enabled t \<and> live ri (tg_ProviderID t) (tg_UpstreamModelID t) \<noteq> None) ts)"
    for ts
    by (induction ts) (auto split: option.splits)
  with assms show ?thesis
    by (simp add: buildCandidates_def Let_def sorted_filter)
qed

definition demo_target :: "ident \<Rightarrow> int \<Rightarrow> target" where
  "demo_target i pos = \<lparr>tg_ID = i, tg_RouteID = ''r1'', tg_ProviderID = ''p1'',
     tg_UpstreamModelID = ''m1'', tg_Position = pos, tg_Enabled = True\<rparr>"

lemma demo_no_targets: "targets_of (demo_index en) r = []"
  by (simp add: targets_of_def demo_index_def AddRoute_def AddUpstreamModel_def AddProvider_def
      NewRouteIndex_def)

theorem chain_in_order_witness:
  "map cd_TargetID (buildCandidates (AddRouteTarget (demo_target ''t0'' 0)
     (AddRouteTarget (demo_target ''t1'' 1) (demo_index True))) (demo_route True)) = [''t0'', ''t1'']"
proof -
  let ?ri = "AddRouteTarget (demo_target ''t0'' 0) (AddRouteTarget (demo_target ''t1'' 1) (demo_index True))"
  have ts: "targets_of ?ri (rt_ID (demo_route True)) = [demo_target ''t0'' 0, demo_target ''t1'' 1]"
    using demo_no_targets by (simp add: targets_of_add demo_target_def demo_route_def)
  have "live ?ri ''p1'' ''m1'' \<noteq> None"
    by (simp add: live_def findProviderByID_def findUpstreamModel_def AddRouteTarget_def demo_defs)
  with chain_in_order [of ?ri "demo_route True"] ts show ?thesis
    by (simp add: demo_target_def)
qed

section \<open>Disabling wins\<close>

text \<open>A disabled route switches its name off: the name does not resolve, not even through the
  provider/model form it may look like, and a route whose targets are all switched off does not fall
  back to its own provider and model.\<close>

theorem disabled_never_resolves:
  assumes "ri_byPublicName ri model = Some r"
    and "\<not> rt_Enabled r \<or>
      (targets_of ri (rt_ID r) \<noteq> [] \<and> (\<forall>t \<in> set (targets_of ri (rt_ID r)). \<not> tg_Enabled t))"
  shows "Resolve ri model = Inl ErrModelNotFound"
proof -
  have none: "target_loop ri ts = []" if "\<forall>t \<in> set ts. \<not> tg_Enabled t" for ts
    using that by (induction ts) simp_all
  show ?thesis
  proof (cases "rt_Enabled r")
    case True
    with assms(2) have "targets_of ri (rt_ID r) \<noteq> []" "target_loop ri (targets_of ri (rt_ID r)) = []"
      using none by blast+
    with assms(1) True show ?thesis by (simp add: Resolve_def buildCandidates_def Let_def)
  qed (use assms(1) in \<open>simp add: Resolve_def\<close>)
qed

theorem disabled_never_resolves_witness:
  "Resolve (demo_index False) ''acme/gpt'' = Inl ErrModelNotFound \<and>
    (\<exists>res. resolve_direct (demo_index False) ''acme/gpt'' = Inr res)"
proof
  show "Resolve (demo_index False) ''acme/gpt'' = Inl ErrModelNotFound"
    by (rule disabled_never_resolves [where r = "demo_route False"]) (simp_all add: demo_defs)
  show "\<exists>res. resolve_direct (demo_index False) ''acme/gpt'' = Inr res"
    by (simp add: demo_defs resolve_direct_def findProviderBySlug_def FindUpstreamModelByModelID_def
        get2_def Let_def)
qed

lemma index_byte_split:
  "index_byte s c = Some i \<longleftrightarrow> (\<exists>a b. s = a @ c # b \<and> c \<notin> set a \<and> length a = i)"
proof
  show "index_byte s c = Some i \<Longrightarrow> \<exists>a b. s = a @ c # b \<and> c \<notin> set a \<and> length a = i"
  proof (induction s arbitrary: i)
    case (Cons x xs)
    show ?case
    proof (cases "x = c")
      case True
      with Cons.prems show ?thesis by (intro exI [of _ "[]"] exI [of _ xs]) auto
    next
      case False
      with Cons.prems obtain j where j: "index_byte xs c = Some j" "i = Suc j" by auto
      from Cons.IH [OF j(1)] obtain a b where "xs = a @ c # b" "c \<notin> set a" "length a = j" by auto
      with False j(2) show ?thesis by (intro exI [of _ "x # a"] exI [of _ b]) auto
    qed
  qed simp
  have "c \<notin> set a \<Longrightarrow> index_byte (a @ c # b) c = Some (length a)" for a b
    by (induction a) auto
  then show "\<exists>a b. s = a @ c # b \<and> c \<notin> set a \<and> length a = i \<Longrightarrow> index_byte s c = Some i"
    by auto
qed

lemma index_byte_append: "c \<notin> set a \<Longrightarrow> index_byte (a @ c # b) c = Some (length a)"
  using index_byte_split by blast

text \<open>A name that no route carries resolves exactly when it has the form \<open>slug/model\<close> with an
  enabled provider at \<open>slug\<close> that serves \<open>model\<close>: the slug ends at the first slash, the rest is the
  model's name, and the chain is that single provider and model.\<close>

theorem resolve_direct_form:
  assumes "ri_byPublicName ri model = None"
  shows "(\<exists>res. Resolve ri model = Inr res \<and>
        map (\<lambda>c. (cd_Provider c, cd_UpstreamModel c)) (rs_Candidates res) = [(p, m)]) \<longleftrightarrow>
    (\<exists>slug rest. model = slug @ ''/'' @ rest \<and> slug \<noteq> '''' \<and> CHR ''/'' \<notin> set slug \<and>
       findProviderBySlug ri slug = Some p \<and> pr_Enabled p \<and>
       FindUpstreamModelByModelID ri (pr_ID p) rest = Some m)"
proof
  assume "\<exists>res. Resolve ri model = Inr res \<and>
        map (\<lambda>c. (cd_Provider c, cd_UpstreamModel c)) (rs_Candidates res) = [(p, m)]"
  then obtain i where i: "index_byte model (CHR ''/'') = Some (Suc i)"
    and f: "findProviderBySlug ri (take (Suc i) model) = Some p" "pr_Enabled p"
      "FindUpstreamModelByModelID ri (pr_ID p) (drop (Suc (Suc i)) model) = Some m"
    using assms by (auto simp: Resolve_def resolve_direct_def Let_def
        split: option.splits nat.splits if_splits)
  from i obtain a b where "model = a @ CHR ''/'' # b" "CHR ''/'' \<notin> set a" "length a = Suc i"
    by (auto simp: index_byte_split)
  with f show "\<exists>slug rest. model = slug @ ''/'' @ rest \<and> slug \<noteq> '''' \<and> CHR ''/'' \<notin> set slug \<and>
       findProviderBySlug ri slug = Some p \<and> pr_Enabled p \<and>
       FindUpstreamModelByModelID ri (pr_ID p) rest = Some m"
    by (intro exI [of _ a] exI [of _ b]) auto
next
  assume "\<exists>slug rest. model = slug @ ''/'' @ rest \<and> slug \<noteq> '''' \<and> CHR ''/'' \<notin> set slug \<and>
       findProviderBySlug ri slug = Some p \<and> pr_Enabled p \<and>
       FindUpstreamModelByModelID ri (pr_ID p) rest = Some m"
  then obtain slug rest where s: "model = slug @ CHR ''/'' # rest" "slug \<noteq> ''''" "CHR ''/'' \<notin> set slug"
    "findProviderBySlug ri slug = Some p" "pr_Enabled p"
    "FindUpstreamModelByModelID ri (pr_ID p) rest = Some m" by auto
  moreover obtain i where "length slug = Suc i" using s(2) by (cases slug) auto
  ultimately show "\<exists>res. Resolve ri model = Inr res \<and>
        map (\<lambda>c. (cd_Provider c, cd_UpstreamModel c)) (rs_Candidates res) = [(p, m)]"
    using assms by (simp add: Resolve_def resolve_direct_def index_byte_append)
qed

theorem resolve_direct_form_witness:
  "\<exists>res. Resolve (AddUpstreamModel demo_model (AddProvider demo_provider NewRouteIndex)) ''acme/gpt'' = Inr res \<and>
        map (\<lambda>c. (cd_Provider c, cd_UpstreamModel c)) (rs_Candidates res) = [(demo_provider, demo_model)]"
proof -
  let ?ri = "AddUpstreamModel demo_model (AddProvider demo_provider NewRouteIndex)"
  have "ri_byPublicName ?ri ''acme/gpt'' = None" by (simp add: demo_defs)
  moreover have "findProviderBySlug ?ri ''acme'' = Some demo_provider"
    "FindUpstreamModelByModelID ?ri (pr_ID demo_provider) ''gpt'' = Some demo_model" "pr_Enabled demo_provider"
    by (simp_all add: demo_defs findProviderBySlug_def FindUpstreamModelByModelID_def get2_def)
  ultimately show ?thesis
    by (subst resolve_direct_form) (simp, intro exI [of _ "''acme''"] exI [of _ "''gpt''"], simp)
qed

section \<open>Suggestions\<close>

lemma match_loop_le: "i \<le> length want \<Longrightarrow> match_loop want i s \<le> length want"
  by (induction want i s rule: match_loop.induct) auto

lemma match_loop_subseq:
  "i \<le> length want \<Longrightarrow> match_loop want i s = length want \<longleftrightarrow> subseq (drop i want) s"
proof (induction want i s rule: match_loop.induct)
  case (1 want i)
  then show ?case by (cases "i = length want") (simp_all add: le_less Cons_nth_drop_Suc [symmetric])
next
  case (2 want i c cs)
  show ?case
  proof (cases "i < length want")
    case True
    then have d: "drop i want = want ! i # drop (Suc i) want" by (simp add: Cons_nth_drop_Suc)
    show ?thesis using 2 True by (cases "want ! i = c") (simp_all add: d)
  next
    case False
    with 2 show ?thesis by simp
  qed
qed

text \<open>The two-pointer scan decides the subsequence relation: it answers yes exactly when the
  wanted characters, at least one, occur in order in the other word.\<close>

theorem isSubsequence_subseq: "isSubsequence want s \<longleftrightarrow> want \<noteq> [] \<and> subseq want s"
  using match_loop_subseq [of 0 want s] list_emb_length [of "(=)" want s]
  by (auto simp: isSubsequence_def)

lemma has_prefix_iff: "has_prefix s p \<longleftrightarrow> prefix p s"
  by (metis append_eq_conv_conj has_prefix_def prefix_def take_is_prefix)

lemma str_contains_length: "str_contains s t \<Longrightarrow> length t \<le> length s"
  by (induction s t rule: str_contains.induct) (auto simp: has_prefix_iff dest: prefix_length_le)

lemma hits_sound:
  "h \<in> set (hits lower ns) \<Longrightarrow> ht_name h \<in> set ns \<and> length lower \<le> length (ht_name h)"
proof (induction ns)
  case (Cons n ns)
  have "length (to_lower n) = length n" by (simp add: to_lower_def)
  with Cons str_contains_length [of "to_lower n" lower] show ?case
    by (auto simp: isSubsequence_def Let_def split: if_splits)
qed simp

lemma hits_distinct: "distinct ns \<Longrightarrow> distinct (map ht_name (hits lower ns))"
  by (induction ns) (auto simp: Let_def dest: hits_sound)

lemma hits_filter: "mset (hits lower ns) = mset (hits lower ns')" if "mset ns = mset ns'"
proof -
  have "mset (hits lower ns) = image_mset (\<lambda>n. \<lparr>ht_name = n, ht_contains = str_contains (to_lower n) lower\<rparr>)
      (filter_mset (\<lambda>n. str_contains (to_lower n) lower \<or> isSubsequence lower (to_lower n)) (mset ns))" for ns
    by (induction ns) (auto simp: Let_def)
  with that show ?thesis by simp
qed

lemma public_names_mset:
  assumes "iterates ks (ri_byPublicName ri)" "iterates ks' (ri_byPublicName ri)"
  shows "mset (ListPublicNames ks ri) = mset (ListPublicNames ks' ri)"
  using assms by (intro iffD1 [OF set_eq_iff_mset_eq_distinct]) (auto simp: ListPublicNames_def iterates_def)

lemma int_min_nat: "0 < l \<Longrightarrow> int (min a (nat l)) \<le> l"
  by linarith

lemma SuggestModel_take:
  "SuggestModel ks ri requested limit = take (nat (if limit \<le> 0 then 5 else limit))
     (map ht_name (sort_key hit_key (hits (to_lower requested) (ListPublicNames ks ri))))"
  by (auto simp: SuggestModel_def Let_def take_map)

text \<open>Suggestions do not depend on the order in which the runtime walks the map, and they are at
  most \<open>max\<close> (five by default) distinct names of existing routes.\<close>

theorem suggest_deterministic:
  assumes "iterates ks (ri_byPublicName ri)" and "iterates ks' (ri_byPublicName ri)"
  shows "SuggestModel ks ri requested limit = SuggestModel ks' ri requested limit \<and>
    set (SuggestModel ks ri requested limit) \<subseteq> dom (ri_byPublicName ri) \<and>
    distinct (SuggestModel ks ri requested limit) \<and>
    int (length (SuggestModel ks ri requested limit)) \<le> (if limit \<le> 0 then 5 else limit)"
proof -
  let ?l = "to_lower requested"
  let ?hs = "\<lambda>ks. sort_key hit_key (hits ?l (ListPublicNames ks ri))"
  have names: "set (ListPublicNames ks ri) \<subseteq> dom (ri_byPublicName ri)" "distinct (ListPublicNames ks ri)"
    using assms(1) by (auto simp: ListPublicNames_def iterates_def)
  have "inj_on hit_key (set (hits ?l (ListPublicNames ks ri)))"
    by (rule inj_onI) (simp add: hit_key_def)
  moreover have "mset (hits ?l (ListPublicNames ks ri)) = mset (hits ?l (ListPublicNames ks' ri))"
    by (rule hits_filter [OF public_names_mset [OF assms]])
  ultimately have "?hs ks = ?hs ks'"
    by (intro sort_key_inj_key_eq) simp_all
  moreover have "set (map ht_name (?hs ks)) \<subseteq> dom (ri_byPublicName ri)"
    using names(1) by (auto dest!: hits_sound)
  moreover have "distinct (map ht_name (?hs ks))"
    using hits_distinct [OF names(2), of ?l] by (metis distinct_map mset_eq_imp_distinct_iff mset_map mset_sort)
  moreover have "set (take n xs) \<subseteq> A" "distinct (take n xs)" if "set xs \<subseteq> A" "distinct xs"
    for n and xs :: "string list" and A
    using that set_take_subset [of n xs] by auto
  ultimately show ?thesis
    unfolding SuggestModel_take by (intro conjI) (simp_all only: length_take, simp_all add: int_min_nat)
qed

theorem suggest_deterministic_witness:
  "SuggestModel [''ab'', ''b''] ((NewRouteIndex)\<lparr>ri_byPublicName := [''ab'' \<mapsto> demo_route True, ''b'' \<mapsto> demo_route True]\<rparr>) ''b'' 0 =
   SuggestModel [''b'', ''ab''] ((NewRouteIndex)\<lparr>ri_byPublicName := [''ab'' \<mapsto> demo_route True, ''b'' \<mapsto> demo_route True]\<rparr>) ''b'' 0"
  by (rule suggest_deterministic [THEN conjunct1]) (auto simp: iterates_def)

text \<open>A suggestion is never shorter than the requested name, so a name with a superfluous prefix
  or with doubled characters gets no suggestion of the name it was meant to be.\<close>

theorem suggestion_not_shorter:
  assumes "n \<in> set (SuggestModel ks ri requested limit)"
  shows "length requested \<le> length n"
proof -
  have "n \<in> ht_name ` set (hits (to_lower requested) (ListPublicNames ks ri))"
    using assms by (auto simp: SuggestModel_def Let_def dest!: in_set_takeD split: if_splits)
  then show ?thesis by (auto dest!: hits_sound simp: to_lower_def)
qed

theorem suggestion_not_shorter_witness: "length ''GPT'' \<le> length ''acme/gpt''"
proof -
  have "''acme/gpt'' \<in> set (SuggestModel [''acme/gpt''] (demo_index True) ''GPT'' 0)"
    by code_simp
  then show ?thesis by (rule suggestion_not_shorter)
qed

section \<open>Listing provider models\<close>

text \<open>The index as the \<open>Add\<close> operations build it: a model sits under its provider and its own ID.\<close>

definition models_keyed :: "route_index \<Rightarrow> bool" where
  "models_keyed ri \<longleftrightarrow> (\<forall>a b m. findUpstreamModel ri a b = Some m \<longrightarrow> um_ProviderID m = a \<and> um_ID m = b) \<and>
     (\<forall>a b m. get2 (ri_modelsByModelID ri) a b = Some m \<longrightarrow> um_ProviderID m = a \<and> um_ModelID m = b)"

datatype load = LRoute route | LTarget target | LProvider provider_ref | LModel upstream_model

fun load_step :: "load \<Rightarrow> route_index \<Rightarrow> route_index" where
  "load_step (LRoute r) ri = AddRoute r ri"
| "load_step (LTarget t) ri = AddRouteTarget t ri"
| "load_step (LProvider p) ri = AddProvider p ri"
| "load_step (LModel m) ri = AddUpstreamModel m ri"

lemma findUpstreamModel_get2: "findUpstreamModel ri a b = get2 (ri_providerModels ri) a b"
  by (simp add: findUpstreamModel_def get2_def)

lemma get2_ensure [simp]: "get2 (ensure_key k m) a b = get2 m a b"
  by (auto simp: get2_def ensure_key_def split: option.splits)

lemma get2_put2 [simp]: "get2 (put2 a b v m) a' b' = (if a' = a \<and> b' = b then Some v else get2 m a' b')"
  by (auto simp: get2_def put2_def ensure_key_def split: option.splits)

lemma load_keyed: "models_keyed ri \<Longrightarrow> models_keyed (load_step op ri)"
  by (cases op) (auto simp: models_keyed_def findUpstreamModel_get2 AddRoute_def AddRouteTarget_def
      AddProvider_def AddUpstreamModel_def)

text \<open>However an index was loaded, a lookup returns what was asked for: a model found by provider
  and row ID, or by provider and model name, has that provider, ID or name.\<close>

theorem lookup_returns_asked:
  "(findUpstreamModel (fold load_step ops NewRouteIndex) a b = Some m \<longrightarrow>
      um_ProviderID m = a \<and> um_ID m = b) \<and>
    (FindUpstreamModelByModelID (fold load_step ops NewRouteIndex) a c = Some m \<longrightarrow>
      um_ProviderID m = a \<and> um_ModelID m = c)"
proof -
  have fold: "models_keyed ri \<Longrightarrow> models_keyed (fold load_step ops ri)" for ri
    by (induction ops arbitrary: ri) (simp_all add: load_keyed)
  have "models_keyed (fold load_step ops NewRouteIndex)"
    by (rule fold) (simp add: models_keyed_def NewRouteIndex_def findUpstreamModel_get2 get2_def)
  then show ?thesis by (simp add: models_keyed_def FindUpstreamModelByModelID_def)
qed

theorem lookup_returns_asked_witness:
  "FindUpstreamModelByModelID (fold load_step [LModel demo_model] NewRouteIndex) ''p1'' ''gpt'' = Some demo_model
    \<and> um_ModelID demo_model = ''gpt''"
proof
  show "FindUpstreamModelByModelID (fold load_step [LModel demo_model] NewRouteIndex) ''p1'' ''gpt'' = Some demo_model"
    by (simp add: FindUpstreamModelByModelID_def AddUpstreamModel_def NewRouteIndex_def demo_model_def)
  from lookup_returns_asked [of "[LModel demo_model]" _ _ demo_model, THEN conjunct2, rule_format, OF this]
  show "um_ModelID demo_model = ''gpt''" by (rule conjunct2)
qed

end
