(* ===== verification/Pool.thy ===== *)
theory Pool
  imports Prelude "HOL-Library.Word"
begin

text \<open>
  \<^verbatim>\<open>internal/upstream/upstream.go\<close>, the runtime state of the pool: providers with their credentials,
  the credential index, the health of the failover targets. The credentials are shared objects
  (a provider's list and the index point at the same entry), so they live in a heap of addresses.
  The client of the SDK is an opaque value of type \<open>'c\<close>. The breaker operations are in \<open>Breaker\<close>.
\<close>

record 'c credential_entry =
  ce_ID :: ident
  ce_Label :: string
  ce_APIKey :: string
  ce_Weight :: int
  ce_Enabled :: bool
  ce_Status :: string
  ce_CooldownUntil :: instant
  ce_Client :: 'c

type_synonym addr = nat
type_synonym probe_token = "64 word"

record target_health =
  th_consecutiveFails :: int
  th_until :: instant
  th_halfOpenToken :: probe_token
  th_halfOpenCycle :: "64 word"
  th_breakerCycle :: "64 word"
  th_recovering :: bool

record provider_entry =
  pe_ID :: ident
  pe_Slug :: string
  pe_Name :: string
  pe_Protocol :: string
  pe_Endpoint :: string
  pe_Enabled :: bool
  pe_Timeout :: duration
  pe_MaxRetries :: int
  pe_Credentials :: "addr list"
  pe_ProxyURL :: string
  pe_NetworkID :: ident
  pe_ProxyConfigError :: bool

record 'c pool =
  pl_heap :: "addr \<Rightarrow> 'c credential_entry"
  pl_providers :: "string \<rightharpoonup> provider_entry"
  pl_credIndex :: "ident \<rightharpoonup> addr"
  pl_targets :: "ident \<rightharpoonup> target_health"
  pl_probeToken :: probe_token
  pl_cooldownSto :: bool

record live_targets =
  lt_IDs :: "ident set"
  lt_Known :: bool

abbreviation (input) targetBreakerCooldown :: duration where "targetBreakerCooldown \<equiv> minute"

definition new_health :: target_health where
  "new_health = \<lparr>th_consecutiveFails = 0, th_until = zero_time, th_halfOpenToken = 0,
     th_halfOpenCycle = 0, th_breakerCycle = 0, th_recovering = False\<rparr>"

definition NewPool :: "(addr \<Rightarrow> 'c credential_entry) \<Rightarrow> 'c pool" where
  "NewPool heap = \<lparr>pl_heap = heap, pl_providers = Map.empty, pl_credIndex = Map.empty,
     pl_targets = Map.empty, pl_probeToken = 0, pl_cooldownSto = False\<rparr>"

definition SetCooldownStore :: "bool \<Rightarrow> 'c pool \<Rightarrow> 'c pool" where
  "SetCooldownStore s p = p\<lparr>pl_cooldownSto := s\<rparr>"

section \<open>Installing a table of providers\<close>

text \<open>\<open>order\<close> is the order in which the runtime visits the providers.\<close>

definition index_put ::
  "(addr \<Rightarrow> 'c credential_entry) \<Rightarrow> addr \<Rightarrow> (ident \<rightharpoonup> addr) \<Rightarrow> (ident \<rightharpoonup> addr)" where
  "index_put heap a idx = idx(ce_ID (heap a) \<mapsto> a)"

definition index_provider ::
  "(addr \<Rightarrow> 'c credential_entry) \<Rightarrow> provider_entry \<Rightarrow> (ident \<rightharpoonup> addr) \<Rightarrow> (ident \<rightharpoonup> addr)" where
  "index_provider heap prov idx = fold (index_put heap) (pe_Credentials prov) idx"

definition reindexLocked :: "string list \<Rightarrow> 'c pool \<Rightarrow> 'c pool" where
  "reindexLocked order p =
     (let heap = pl_heap p; providers = pl_providers p in
      p\<lparr>pl_credIndex := fold (\<lambda>slug idx. case providers slug of None \<Rightarrow> idx
          | Some prov \<Rightarrow> index_provider heap prov idx) order Map.empty\<rparr>)"

definition liveTargetIDsFromStore :: "ident list option \<Rightarrow> live_targets" where
  "liveTargetIDsFromStore listing =
     (case listing of None \<Rightarrow> \<lparr>lt_IDs = {}, lt_Known = False\<rparr>
      | Some ids \<Rightarrow> \<lparr>lt_IDs = set ids, lt_Known = True\<rparr>)"

definition Install ::
  "string list \<Rightarrow> (string \<rightharpoonup> provider_entry) \<Rightarrow> live_targets \<Rightarrow> 'c pool \<Rightarrow> 'c pool" where
  "Install order providers live p0 =
     (let p = reindexLocked order (p0\<lparr>pl_providers := providers\<rparr>) in
      if \<not> lt_Known live then p
      else p\<lparr>pl_targets := (\<lambda>tid. if tid \<in> lt_IDs live then
               (case pl_targets p tid of
                  Some h \<Rightarrow> Some (h\<lparr>th_halfOpenToken := 0, th_halfOpenCycle := 0\<rparr>)
                | None \<Rightarrow> Some new_health) else None)\<rparr>)"

definition ProvidersSnapshot :: "'c pool \<Rightarrow> (string \<rightharpoonup> provider_entry)" where
  "ProvidersSnapshot p = pl_providers p"

definition Normalize :: "string \<Rightarrow> string" where
  "Normalize value =
     (let v = trim_space value in
      if v = ''openai-chat'' then ''chat''
      else if v = ''openai-responses'' then ''response'' else v)"

definition ResolvedProtocol :: "'c pool option \<Rightarrow> string \<Rightarrow> string" where
  "ResolvedProtocol po slug =
     (case po of None \<Rightarrow> '''' | Some p \<Rightarrow>
       (case pl_providers p slug of None \<Rightarrow> '''' | Some prov \<Rightarrow> Normalize (pe_Protocol prov)))"

section \<open>Choosing a credential\<close>

definition usable :: "instant \<Rightarrow> 'c credential_entry \<Rightarrow> bool" where
  "usable now c \<longleftrightarrow> ce_Enabled c \<and> \<not> (ce_Status c = ''cooling'' \<and> now < ce_CooldownUntil c) \<and>
     ce_Status c \<noteq> ''disabled''"

definition getHealthyCredentials :: "instant \<Rightarrow> provider_entry \<Rightarrow> 'c pool \<Rightarrow> addr list" where
  "getHealthyCredentials now prov p = filter (\<lambda>a. usable now (pl_heap p a)) (pe_Credentials prov)"

fun weight_loop :: "(addr \<Rightarrow> 'c credential_entry) \<Rightarrow> int \<Rightarrow> addr list \<Rightarrow> addr option" where
  "weight_loop heap r [] = None"
| "weight_loop heap r (a # as) =
     (if r - ce_Weight (heap a) < 0 then Some a else weight_loop heap (r - ce_Weight (heap a)) as)"

definition total_weight :: "(addr \<Rightarrow> 'c credential_entry) \<Rightarrow> addr list \<Rightarrow> int" where
  "total_weight heap as = sum_list (map (\<lambda>a. ce_Weight (heap a)) as)"

text \<open>\<open>rand n\<close> is the result of \<open>rand.IntN(n)\<close>, some number below \<open>n\<close>.\<close>

definition selectWeighted ::
  "(nat \<Rightarrow> nat) \<Rightarrow> (addr \<Rightarrow> 'c credential_entry) \<Rightarrow> addr list \<Rightarrow> addr option" where
  "selectWeighted rand heap as =
     (if as = [] then None
      else if length as = 1 then Some (as ! 0)
      else if total_weight heap as \<le> 0 then Some (as ! rand (length as))
      else (case weight_loop heap (int (rand (nat (total_weight heap as)))) as of
              Some a \<Rightarrow> Some a | None \<Rightarrow> Some (as ! 0)))"

text \<open>64-bit FNV-1a, as \<open>hash/fnv\<close> computes it.\<close>

definition fnv64a :: "string \<Rightarrow> 64 word" where
  "fnv64a s = fold (\<lambda>c h. xor h (word_of_nat (of_char c)) * 1099511628211) s 14695981039346656037"

definition selectWeightedByAffinity ::
  "(addr \<Rightarrow> 'c credential_entry) \<Rightarrow> addr list \<Rightarrow> string \<Rightarrow> addr option" where
  "selectWeightedByAffinity heap as affinity =
     (let pick = fnv64a affinity in
      if as = [] then None
      else if length as = 1 then Some (as ! 0)
      else if total_weight heap as \<le> 0 then Some (as ! unat (pick mod word_of_nat (length as)))
      else (case weight_loop heap (uint (pick mod word_of_int (total_weight heap as))) as of
              Some a \<Rightarrow> Some a | None \<Rightarrow> Some (as ! 0)))"

datatype pool_error = ProviderNotFoundOrDisabled string | NoHealthyCredentials string

definition getAnyClient ::
  "(nat \<Rightarrow> nat) \<Rightarrow> instant \<Rightarrow> string \<Rightarrow> string \<Rightarrow> 'c pool \<Rightarrow> pool_error + ('c \<times> ident)" where
  "getAnyClient rand now slug affinity p =
     (case pl_providers p slug of
        None \<Rightarrow> Inl (ProviderNotFoundOrDisabled slug)
      | Some prov \<Rightarrow>
          if \<not> pe_Enabled prov then Inl (ProviderNotFoundOrDisabled slug)
          else (let healthy = getHealthyCredentials now prov p in
                case (if affinity = '''' then selectWeighted rand (pl_heap p) healthy
                      else selectWeightedByAffinity (pl_heap p) healthy affinity) of
                  None \<Rightarrow> Inl (NoHealthyCredentials slug)
                | Some a \<Rightarrow> Inr (ce_Client (pl_heap p a), ce_ID (pl_heap p a))))"

definition GetAnyClient ::
  "(nat \<Rightarrow> nat) \<Rightarrow> instant \<Rightarrow> string \<Rightarrow> 'c pool \<Rightarrow> pool_error + ('c \<times> ident)" where
  "GetAnyClient rand now slug p = getAnyClient rand now slug '''' p"

definition GetAnyClientByAffinity ::
  "(nat \<Rightarrow> nat) \<Rightarrow> instant \<Rightarrow> string \<Rightarrow> string \<Rightarrow> 'c pool \<Rightarrow> pool_error + ('c \<times> ident)" where
  "GetAnyClientByAffinity rand now slug affinity p = getAnyClient rand now slug (trim_space affinity) p"

section \<open>Cooling credentials down\<close>

text \<open>The second component is the call to the cooldown store, if one is made.\<close>

type_synonym cooldown_write = "(ident \<times> string \<times> instant) option"

definition MarkCredentialCooldown ::
  "ident \<Rightarrow> duration \<Rightarrow> instant \<Rightarrow> 'c pool \<Rightarrow> 'c pool \<times> cooldown_write" where
  "MarkCredentialCooldown credID d now p =
     (case pl_credIndex p credID of
        None \<Rightarrow> (p, None)
      | Some a \<Rightarrow>
          (p\<lparr>pl_heap := (pl_heap p)(a := (pl_heap p a)
              \<lparr>ce_CooldownUntil := now + d, ce_Status := ''cooling''\<rparr>)\<rparr>,
           if pl_cooldownSto p then Some (credID, ''cooling'', now + d) else None))"

definition RecordCredentialSuccess :: "ident \<Rightarrow> 'c pool \<Rightarrow> 'c pool \<times> cooldown_write" where
  "RecordCredentialSuccess credID p =
     (case pl_credIndex p credID of
        None \<Rightarrow> (p, None)
      | Some a \<Rightarrow>
          (let cred = pl_heap p a in
           if ce_Status cred \<noteq> ''healthy'' \<or> \<not> is_zero (ce_CooldownUntil cred)
           then (p\<lparr>pl_heap := (pl_heap p)(a := cred\<lparr>ce_Status := ''healthy'', ce_CooldownUntil := zero_time\<rparr>)\<rparr>,
                 if pl_cooldownSto p then Some (credID, ''healthy'', zero_time) else None)
           else (p, None)))"

end
