(* ===== verification/Breaker.thy ===== *)
theory Breaker
  imports Pool
begin

text \<open>
  \<^verbatim>\<open>internal/upstream/upstream.go\<close>, the circuit breaker of the failover targets: a target counts
  consecutive failures, is skipped during its cooldown, and lets a single probe in while it
  recovers. Every method runs under the pool's lock and is one step.
\<close>

definition TargetAvailable :: "ident \<Rightarrow> instant \<Rightarrow> 'c pool \<Rightarrow> bool" where
  "TargetAvailable tid now p =
     (case pl_targets p tid of None \<Rightarrow> True | Some h \<Rightarrow> \<not> now < th_until h)"

definition put_health :: "ident \<Rightarrow> target_health \<Rightarrow> 'c pool \<Rightarrow> 'c pool" where
  "put_health tid h p = p\<lparr>pl_targets := (pl_targets p)(tid \<mapsto> h)\<rparr>"

text \<open>A zero token stands for a request without a probe slot; the counter skips zero on wrap-around.\<close>

definition next_token :: "probe_token \<Rightarrow> probe_token" where
  "next_token t = (if t + 1 = 0 then t + 1 + 1 else t + 1)"

definition claimTargetProbeLocked :: "ident \<Rightarrow> instant \<Rightarrow> 'c pool \<Rightarrow> 'c pool \<times> probe_token \<times> bool" where
  "claimTargetProbeLocked tid now p =
     (case pl_targets p tid of
        None \<Rightarrow> (p, 0, True)
      | Some h \<Rightarrow>
          if now < th_until h then (p, 0, False)
          else if \<not> th_recovering h then (p, 0, True)
          else if th_halfOpenToken h \<noteq> 0 \<and> th_halfOpenCycle h = th_breakerCycle h then (p, 0, False)
          else (let tok = next_token (pl_probeToken p) in
                (put_health tid (h\<lparr>th_halfOpenToken := tok, th_halfOpenCycle := th_breakerCycle h\<rparr>)
                   (p\<lparr>pl_probeToken := tok\<rparr>), tok, True)))"

definition ClaimTargetProbe :: "ident \<Rightarrow> instant \<Rightarrow> 'c pool \<Rightarrow> 'c pool \<times> probe_token \<times> bool" where
  "ClaimTargetProbe tid now p = claimTargetProbeLocked tid now p"

definition ReleaseTargetProbe :: "ident \<Rightarrow> probe_token \<Rightarrow> 'c pool \<Rightarrow> 'c pool" where
  "ReleaseTargetProbe tid token p =
     (if token = 0 then p
      else (case pl_targets p tid of None \<Rightarrow> p
            | Some h \<Rightarrow> if th_halfOpenToken h = token
                        then put_health tid (h\<lparr>th_halfOpenToken := 0\<rparr>) p else p))"

definition RecordTargetFailure :: "ident \<Rightarrow> probe_token \<Rightarrow> int \<Rightarrow> instant \<Rightarrow> 'c pool \<Rightarrow> 'c pool" where
  "RecordTargetFailure tid token threshold now p0 =
     (if threshold \<le> 0 then
        (let p = ReleaseTargetProbe tid token p0 in
         case pl_targets p tid of None \<Rightarrow> p
         | Some h \<Rightarrow> put_health tid (h\<lparr>th_recovering := False\<rparr>) p)
      else
        (let h = (case pl_targets p0 tid of None \<Rightarrow> new_health | Some h \<Rightarrow> h);
             h = h\<lparr>th_consecutiveFails := th_consecutiveFails h + 1, th_recovering := True\<rparr>;
             h = (if token \<noteq> 0 \<and> th_halfOpenToken h = token
                  then h\<lparr>th_halfOpenToken := 0, th_halfOpenCycle := 0\<rparr> else h);
             h = (if th_consecutiveFails h \<ge> threshold
                  then h\<lparr>th_until := now + targetBreakerCooldown, th_consecutiveFails := 0,
                         th_breakerCycle := th_breakerCycle h + 1\<rparr> else h)
         in put_health tid h p0))"

definition RecordTargetSuccess :: "ident \<Rightarrow> probe_token \<Rightarrow> instant \<Rightarrow> 'c pool \<Rightarrow> 'c pool" where
  "RecordTargetSuccess tid token now p =
     (case pl_targets p tid of
        None \<Rightarrow> p
      | Some h \<Rightarrow>
          (let h = h\<lparr>th_consecutiveFails := 0\<rparr> in
           if token = 0 \<or> th_halfOpenToken h \<noteq> token then put_health tid h p
           else (let h = h\<lparr>th_halfOpenToken := 0\<rparr> in
                 put_health tid (if \<not> now < th_until h then h\<lparr>th_recovering := False\<rparr> else h) p)))"

lemmas breaker_defs = ClaimTargetProbe_def claimTargetProbeLocked_def ReleaseTargetProbe_def
  RecordTargetFailure_def RecordTargetSuccess_def put_health_def Let_def

lemma next_token_nonzero [simp]: "next_token t \<noteq> 0"
  by (auto simp: next_token_def)

section \<open>Healthy targets\<close>

definition healthy_target :: "ident \<Rightarrow> instant \<Rightarrow> 'c pool \<Rightarrow> bool" where
  "healthy_target tid now p \<longleftrightarrow>
     (case pl_targets p tid of None \<Rightarrow> True | Some h \<Rightarrow> \<not> th_recovering h \<and> \<not> now < th_until h)"

text \<open>Any number of claims, at the given instants, with what each one was told.\<close>

fun claims :: "ident \<Rightarrow> instant list \<Rightarrow> 'c pool \<Rightarrow> 'c pool \<times> (probe_token \<times> bool) list" where
  "claims tid [] p = (p, [])"
| "claims tid (now # ts) p =
     (case ClaimTargetProbe tid now p of (p', r) \<Rightarrow>
        (case claims tid ts p' of (p'', rs) \<Rightarrow> (p'', r # rs)))"

text \<open>A healthy target admits any number of requests at the same time: every claim is granted
  without a probe slot and changes nothing.\<close>

theorem healthy_unlimited:
  assumes "healthy_target tid t p" and "\<forall>now \<in> set ts. t \<le> now"
  shows "claims tid ts p = (p, replicate (length ts) (0, True))"
  using assms(2)
proof (induction ts)
  case (Cons now ts)
  with assms(1) have "ClaimTargetProbe tid now p = (p, 0, True)"
    by (auto simp: healthy_target_def ClaimTargetProbe_def claimTargetProbeLocked_def split: option.splits)
  with Cons show ?case by simp
qed simp

definition demo_pool :: "unit pool" where
  "demo_pool = NewPool (\<lambda>_. \<lparr>ce_ID = '''', ce_Label = '''', ce_APIKey = '''', ce_Weight = 1,
     ce_Enabled = True, ce_Status = ''healthy'', ce_CooldownUntil = zero_time, ce_Client = ()\<rparr>)"

theorem healthy_unlimited_witness:
  "claims ''t'' [1, 1, 2] demo_pool = (demo_pool, replicate (length [1 :: instant, 1, 2]) (0, True))"
  by (rule healthy_unlimited [where t = 0]) (simp_all add: healthy_target_def demo_pool_def NewPool_def)

section \<open>One probe at a time\<close>

text \<open>\<open>holds_probe tid tok p\<close>: the slot of the recovering target \<open>tid\<close> is taken by \<open>tok\<close>.\<close>

definition holds_probe :: "ident \<Rightarrow> probe_token \<Rightarrow> 'c pool \<Rightarrow> bool" where
  "holds_probe tid tok p \<longleftrightarrow> tok \<noteq> 0 \<and>
     (\<exists>h. pl_targets p tid = Some h \<and> th_recovering h \<and> th_halfOpenToken h = tok \<and>
          th_halfOpenCycle h = th_breakerCycle h)"

text \<open>What everyone but the owner of \<open>tok\<close> may do to the pool while no new cooldown opens for
  \<open>tid\<close>: claims, late results with any other token, releases, work on other targets.\<close>

inductive others :: "ident \<Rightarrow> probe_token \<Rightarrow> 'c pool \<Rightarrow> 'c pool \<Rightarrow> bool" for tid tok where
  refl: "others tid tok p p"
| claim: "others tid tok p q \<Longrightarrow> others tid tok p (fst (ClaimTargetProbe t now q))"
| release: "others tid tok p q \<Longrightarrow> x \<noteq> tok \<Longrightarrow> others tid tok p (ReleaseTargetProbe t x q)"
| success: "others tid tok p q \<Longrightarrow> x \<noteq> tok \<Longrightarrow> others tid tok p (RecordTargetSuccess t x now q)"
| failure: "others tid tok p q \<Longrightarrow> x \<noteq> tok \<Longrightarrow> 0 < thr \<Longrightarrow>
    pl_targets q tid = Some h \<Longrightarrow> th_consecutiveFails h + 1 < thr \<Longrightarrow>
    others tid tok p (RecordTargetFailure tid x thr now q)"
| elsewhere: "others tid tok p q \<Longrightarrow> t \<noteq> tid \<Longrightarrow> others tid tok p (RecordTargetFailure t x thr now q)"

lemma holds_put [simp]:
  "t \<noteq> tid \<Longrightarrow> holds_probe tid tok (put_health t h p) = holds_probe tid tok p"
  "holds_probe tid tok (put_health tid h p) \<longleftrightarrow>
    tok \<noteq> 0 \<and> th_recovering h \<and> th_halfOpenToken h = tok \<and> th_halfOpenCycle h = th_breakerCycle h"
  "holds_probe tid tok (p\<lparr>pl_probeToken := c\<rparr>) = holds_probe tid tok p"
  by (auto simp: holds_probe_def put_health_def)

lemma holds_claim: "holds_probe tid tok q \<Longrightarrow> holds_probe tid tok (fst (ClaimTargetProbe t now q))"
  unfolding ClaimTargetProbe_def claimTargetProbeLocked_def Let_def
  by (cases "t = tid") (auto simp: holds_probe_def [of tid tok q] split: option.splits)

lemma holds_release:
  "holds_probe tid tok q \<Longrightarrow> x \<noteq> tok \<Longrightarrow> holds_probe tid tok (ReleaseTargetProbe t x q)"
  unfolding ReleaseTargetProbe_def
  by (cases "t = tid") (auto simp: holds_probe_def [of tid tok q] split: option.splits)

lemma holds_success:
  "holds_probe tid tok q \<Longrightarrow> x \<noteq> tok \<Longrightarrow> holds_probe tid tok (RecordTargetSuccess t x now q)"
  unfolding RecordTargetSuccess_def Let_def
  by (cases "t = tid") (auto simp: holds_probe_def [of tid tok q] split: option.splits)

lemma holds_failure_elsewhere:
  assumes "holds_probe tid tok q" "t \<noteq> tid"
  shows "holds_probe tid tok (RecordTargetFailure t x thr now q)"
proof (cases "thr \<le> 0")
  case True
  have "holds_probe tid tok (ReleaseTargetProbe t x q)"
    using assms by (auto simp: ReleaseTargetProbe_def split: option.splits)
  with True assms(2) show ?thesis
    by (auto simp: RecordTargetFailure_def Let_def split: option.splits)
next
  case False
  with assms show ?thesis by (simp add: RecordTargetFailure_def Let_def)
qed

lemma holds_others: "others tid tok p q \<Longrightarrow> holds_probe tid tok p \<Longrightarrow> holds_probe tid tok q"
proof (induction rule: others.induct)
  case (failure p q x thr h now)
  then show ?case
    by (auto simp: holds_probe_def [of tid tok q] RecordTargetFailure_def Let_def)
qed (simp_all add: holds_claim holds_release holds_success holds_failure_elsewhere)

lemma held_denied: "holds_probe tid tok p \<Longrightarrow> snd (ClaimTargetProbe tid now p) = (0, False)"
  by (auto simp: holds_probe_def ClaimTargetProbe_def claimTargetProbeLocked_def)


definition recovering_pool :: "unit pool" where
  "recovering_pool = RecordTargetFailure ''t'' 0 1 0 demo_pool"

lemma recovering_pool_eq: "pl_targets recovering_pool = [''t'' \<mapsto>
    \<lparr>th_consecutiveFails = 0, th_until = minute, th_halfOpenToken = 0, th_halfOpenCycle = 0,
     th_breakerCycle = 1, th_recovering = True\<rparr>]" "pl_probeToken recovering_pool = 0"
  by (simp_all add: recovering_pool_def RecordTargetFailure_def demo_pool_def NewPool_def new_health_def
      put_health_def Let_def)


section \<open>Fresh tokens\<close>

datatype breaker_op =
    Claim ident instant
  | Failure ident probe_token int instant
  | Success ident probe_token instant
  | Release ident probe_token
  | Reinstall "string list" "string \<rightharpoonup> provider_entry" live_targets

fun breaker_step :: "breaker_op \<Rightarrow> 'c pool \<Rightarrow> 'c pool" where
  "breaker_step (Claim tid now) p = fst (ClaimTargetProbe tid now p)"
| "breaker_step (Failure tid tok thr now) p = RecordTargetFailure tid tok thr now p"
| "breaker_step (Success tid tok now) p = RecordTargetSuccess tid tok now p"
| "breaker_step (Release tid tok) p = ReleaseTargetProbe tid tok p"
| "breaker_step (Reinstall order provs live) p = Install order provs live p"

lemma Install_targets:
  "pl_targets (Install order provs live p) tid =
     (if \<not> lt_Known live then pl_targets p tid
      else if tid \<in> lt_IDs live then
        (case pl_targets p tid of None \<Rightarrow> Some new_health
         | Some h \<Rightarrow> Some (h\<lparr>th_halfOpenToken := 0, th_halfOpenCycle := 0\<rparr>))
      else None)"
  "pl_probeToken (Install order provs live p) = pl_probeToken p"
  by (simp_all add: Install_def reindexLocked_def Let_def split: option.splits)

lemma next_token_unat: "unat t + 1 < 2 ^ 64 \<Longrightarrow> unat (next_token t) = unat t + 1"
  for t :: probe_token
proof -
  assume "unat t + 1 < 2 ^ 64"
  then have u: "unat (t + 1) = unat t + 1" by (subst unat_word_ariths(1)) simp
  then have "t + 1 \<noteq> 0" by (metis unat_0 add_is_0 one_neq_zero)
  with u show ?thesis by (simp add: next_token_def)
qed

text \<open>The tokens handed out along a run.\<close>

fun granted :: "breaker_op list \<Rightarrow> 'c pool \<Rightarrow> probe_token list" where
  "granted [] p = []"
| "granted (op # ops) p =
     (case op of Claim tid now \<Rightarrow>
        (case ClaimTargetProbe tid now p of (p', tok, ok) \<Rightarrow>
          (if tok \<noteq> 0 then tok # granted ops p' else granted ops p'))
      | _ \<Rightarrow> granted ops (breaker_step op p))"

lemma claim_token:
  assumes "ClaimTargetProbe tid now p = (q, tok, ok)"
  shows "(tok = 0 \<and> q = p) \<or> (tok = next_token (pl_probeToken p) \<and> pl_probeToken q = tok \<and> ok)"
  using assms by (auto simp: ClaimTargetProbe_def claimTargetProbeLocked_def put_health_def Let_def
      split: option.splits if_splits)

lemma other_token: "(\<And>tid now. op \<noteq> Claim tid now) \<Longrightarrow> pl_probeToken (breaker_step op p) = pl_probeToken p"
  by (cases op) (auto simp: breaker_defs Install_targets split: option.splits)

lemma granted_above:
  "unat (pl_probeToken p) + length ops < 2 ^ 64 \<Longrightarrow>
    sorted_wrt (<) (map unat (granted ops p)) \<and> (\<forall>t \<in> set (granted ops p). unat (pl_probeToken p) < unat t)"
proof (induction ops arbitrary: p)
  case Nil
  then show ?case by simp
next
  case (Cons op ops)
  show ?case
  proof (cases "\<exists>tid now. op = Claim tid now")
    case True
    then obtain tid now where op: "op = Claim tid now" by blast
    obtain q tok ok where cl: "ClaimTargetProbe tid now p = (q, tok, ok)"
      by (cases "ClaimTargetProbe tid now p") auto
    from claim_token [OF cl] show ?thesis
    proof
      assume "tok = 0 \<and> q = p"
      with Cons op cl show ?thesis by simp
    next
      assume t: "tok = next_token (pl_probeToken p) \<and> pl_probeToken q = tok \<and> ok"
      then have "unat (pl_probeToken q) = unat (pl_probeToken p) + 1" "tok \<noteq> 0"
        using Cons.prems by (simp_all add: next_token_unat)
      with Cons.IH [of q] Cons.prems t op cl show ?thesis by fastforce
    qed
  next
    case False
    then have "granted (op # ops) p = granted ops (breaker_step op p)" by (cases op) auto
    moreover have "pl_probeToken (breaker_step op p) = pl_probeToken p"
      using False by (intro other_token) auto
    ultimately show ?thesis using Cons.IH [of "breaker_step op p"] Cons.prems by simp
  qed
qed

text \<open>No two probes ever carry the same token: over any run of fewer than \<open>2 ^ 64\<close> claims, reports,
  releases and reinstallations, the tokens handed out are pairwise different and never zero, so a
  late report can only be matched to its own probe.\<close>

theorem tokens_unique:
  assumes "length ops < 2 ^ 64"
  shows "distinct (granted ops (NewPool heap)) \<and> 0 \<notin> set (granted ops (NewPool heap))"
proof -
  have "sorted_wrt (<) (map unat (granted ops (NewPool heap))) \<and>
      (\<forall>t \<in> set (granted ops (NewPool heap)). unat (pl_probeToken (NewPool heap)) < unat t)"
    by (rule granted_above) (use assms in \<open>simp add: NewPool_def\<close>)
  moreover from this have "distinct (map unat (granted ops (NewPool heap)))"
    by (simp add: strict_sorted_iff)
  ultimately show ?thesis by (auto simp: distinct_map)
qed

theorem tokens_unique_witness:
  "distinct (granted [Failure ''t'' 0 1 0, Claim ''t'' minute, Release ''t'' 1, Claim ''t'' minute]
     (NewPool (pl_heap demo_pool)))"
  by (rule tokens_unique [THEN conjunct1]) simp

section \<open>Opening and closing the circuit\<close>

fun fail_run :: "ident \<Rightarrow> int \<Rightarrow> (probe_token \<times> instant) list \<Rightarrow> 'c pool \<Rightarrow> 'c pool" where
  "fail_run tid thr [] p = p"
| "fail_run tid thr ((tok, now) # es) p = fail_run tid thr es (RecordTargetFailure tid tok thr now p)"

definition fails_of :: "ident \<Rightarrow> 'c pool \<Rightarrow> int \<times> instant" where
  "fails_of tid p = (case pl_targets p tid of None \<Rightarrow> (0, zero_time)
     | Some h \<Rightarrow> (th_consecutiveFails h, th_until h))"

lemma fails_of_failure:
  "0 < thr \<Longrightarrow> fails_of tid (RecordTargetFailure tid tok thr now p) =
    (case fails_of tid p of (c, u) \<Rightarrow> if c + 1 < thr then (c + 1, u) else (0, now + minute))"
  by (auto simp: fails_of_def RecordTargetFailure_def put_health_def new_health_def Let_def
      split: option.splits)

lemma fails_of_run:
  "0 < thr \<Longrightarrow> fails_of tid p = (c, u) \<Longrightarrow> c + int (length es) \<le> thr \<Longrightarrow> es \<noteq> [] \<Longrightarrow>
    fails_of tid (fail_run tid thr es p) =
      (if c + int (length es) < thr then (c + int (length es), u) else (0, snd (last es) + minute))"
proof (induction es arbitrary: p c u)
  case Nil
  then show ?case by simp
next
  case (Cons e es)
  obtain tok now where e: "e = (tok, now)" by (cases e) auto
  show ?case
  proof (cases "es = []")
    case True
    with Cons.prems e show ?thesis by (simp add: fails_of_failure)
  next
    case False
    then have "1 \<le> int (length es)" by (cases es) simp_all
    with Cons.prems have "fails_of tid (RecordTargetFailure tid tok thr now p) = (c + 1, u)"
      by (simp add: fails_of_failure)
    from Cons.IH [OF Cons.prems(1) this _ False] Cons.prems(3) False e show ?thesis by (simp add: add.assoc)
  qed
qed

lemma fail_run_known:
  "0 < thr \<Longrightarrow> es \<noteq> [] \<Longrightarrow> pl_targets (fail_run tid thr es p) tid \<noteq> None"
proof (induction tid thr es p rule: fail_run.induct)
  case (2 tid thr tok now es p)
  then show ?case
    by (cases "es = []") (simp_all add: RecordTargetFailure_def put_health_def Let_def)
qed simp

lemma available_fails: "TargetAvailable tid now p \<longleftrightarrow>
    pl_targets p tid = None \<or> \<not> now < snd (fails_of tid p)"
  by (auto simp: TargetAvailable_def fails_of_def split: option.splits)

text \<open>\<open>threshold\<close> failures in a row open the circuit: starting from no failures, the target stays
  available through the first \<open>threshold - 1\<close> of them; the last one opens a cooldown of sixty seconds
  from its instant, during which the target is neither available nor claimable, and it starts a new
  breaker cycle with the count at zero.\<close>

theorem threshold_opens:
  assumes "fails_of tid p = (0, u)" and "es \<noteq> []" and "int (length es) \<le> thr" and "u \<le> now"
  shows "if int (length es) < thr then TargetAvailable tid now (fail_run tid thr es p)
    else fails_of tid (fail_run tid thr es p) = (0, snd (last es) + minute) \<and>
      (\<forall>t < snd (last es) + minute. \<not> TargetAvailable tid t (fail_run tid thr es p) \<and>
         snd (ClaimTargetProbe tid t (fail_run tid thr es p)) = (0, False))"
proof -
  let ?q = "fail_run tid thr es p"
  have len: "0 < int (length es)" using assms(2) by simp
  with assms(3) have "0 < thr" by linarith
  then have f: "fails_of tid ?q =
      (if int (length es) < thr then (int (length es), u) else (0, snd (last es) + minute))"
    using fails_of_run [of thr tid p 0 u es] assms by simp
  have known: "pl_targets ?q tid \<noteq> None"
    using \<open>0 < thr\<close> assms(2) by (rule fail_run_known)
  show ?thesis
  proof (cases "int (length es) < thr")
    case True
    with f assms(4) show ?thesis by (simp add: available_fails)
  next
    case False
    with f known show ?thesis
      by (auto simp: available_fails ClaimTargetProbe_def claimTargetProbeLocked_def fails_of_def
          split: option.splits)
  qed
qed

theorem threshold_opens_witness:
  "\<not> TargetAvailable ''t'' 5 (fail_run ''t'' 2 [(0, 1), (0, 2)] demo_pool)"
  using threshold_opens [of "''t''" demo_pool zero_time "[(0, 1), (0, 2)]" 2 0]
  by (simp add: fails_of_def demo_pool_def NewPool_def zero_time_def)

text \<open>Only the probe itself closes the circuit: a late result of any other request (an older
  token, or none) neither frees the slot nor ends the recovery nor moves the end of the cooldown; a
  late success and a release leave the breaker as it was, up to the failure count.\<close>

theorem stale_results_inert:
  assumes "pl_targets p tid = Some h" and "th_halfOpenToken h \<noteq> 0" and "tok \<noteq> th_halfOpenToken h"
  shows "pl_targets (RecordTargetSuccess tid tok now p) tid = Some (h\<lparr>th_consecutiveFails := 0\<rparr>) \<and>
    pl_targets (ReleaseTargetProbe tid tok p) tid = Some h \<and>
    (\<exists>h'. pl_targets (RecordTargetFailure tid tok thr now p) tid = Some h' \<and>
       th_halfOpenToken h' = th_halfOpenToken h \<and> th_halfOpenCycle h' = th_halfOpenCycle h)"
  using assms by (auto simp: breaker_defs)

theorem stale_results_inert_witness:
  "pl_targets (ReleaseTargetProbe ''t'' 7 (fst (ClaimTargetProbe ''t'' minute recovering_pool))) ''t'' =
     pl_targets (fst (ClaimTargetProbe ''t'' minute recovering_pool)) ''t''"
proof -
  let ?p = "fst (ClaimTargetProbe ''t'' minute recovering_pool)"
  obtain h where h: "pl_targets ?p ''t'' = Some h" "th_halfOpenToken h = 1"
    by (simp add: ClaimTargetProbe_def claimTargetProbeLocked_def recovering_pool_eq next_token_def put_health_def)
  with stale_results_inert [of ?p "''t''" h 7] show ?thesis by simp
qed

text \<open>The probe's success after the cooldown ends the recovery: the target is healthy again from
  that instant on, and the count starts over; the probe's release frees the slot for the next one.\<close>

theorem probe_success_heals:
  assumes "holds_probe tid tok p" and "TargetAvailable tid now p" and "now \<le> now'"
  shows "healthy_target tid now' (RecordTargetSuccess tid tok now p) \<and>
    fst (fails_of tid (RecordTargetSuccess tid tok now p)) = 0 \<and>
    fst (snd (ClaimTargetProbe tid now' (ReleaseTargetProbe tid tok p))) \<noteq> 0"
  using assms
  by (auto simp: holds_probe_def TargetAvailable_def healthy_target_def fails_of_def breaker_defs)

theorem probe_success_heals_witness:
  "healthy_target ''t'' minute (RecordTargetSuccess ''t'' 1 minute (fst (ClaimTargetProbe ''t'' minute recovering_pool)))"
  by (rule probe_success_heals [THEN conjunct1])
    (simp_all add: holds_probe_def TargetAvailable_def ClaimTargetProbe_def claimTargetProbeLocked_def
      recovering_pool_eq next_token_def put_health_def)

text \<open>A reinstallation does not reset the breaker: when the list of live targets is unknown every
  target's state is kept; when it is known a live target keeps its cooldown, its failure count and
  its recovery but loses the probe slot, and a target that is gone is forgotten.\<close>

theorem install_keeps_breaker:
  assumes "zero_time \<le> now"
  shows "TargetAvailable tid now (Install order provs live p) =
      (if lt_Known live \<and> tid \<notin> lt_IDs live then True else TargetAvailable tid now p) \<and>
    (\<not> lt_Known live \<longrightarrow> pl_targets (Install order provs live p) = pl_targets p) \<and>
    (lt_Known live \<and> tid \<in> lt_IDs live \<longrightarrow>
      fails_of tid (Install order provs live p) = fails_of tid p \<and>
      (\<exists>h'. pl_targets (Install order provs live p) tid = Some h' \<and> th_halfOpenToken h' = 0 \<and>
         (case pl_targets p tid of None \<Rightarrow> \<not> th_recovering h' | Some h \<Rightarrow> th_recovering h' = th_recovering h)))"
  using assms
  by (auto simp: TargetAvailable_def Install_targets fails_of_def new_health_def fun_eq_iff
      split: option.splits)

theorem install_keeps_breaker_witness:
  "\<not> TargetAvailable (''t'') 1 (Install [] Map.empty \<lparr>lt_IDs = {''t''}, lt_Known = True\<rparr> recovering_pool)"
  using install_keeps_breaker [of 1 "''t''" "[]" Map.empty "\<lparr>lt_IDs = {''t''}, lt_Known = True\<rparr>" recovering_pool]
  by (simp add: zero_time_def TargetAvailable_def recovering_pool_eq)

section \<open>Where the code departs from its description\<close>

lemma held_claims: "holds_probe tid tok p \<Longrightarrow> snd (claims tid ts p) = replicate (length ts) (0, False)"
proof (induction ts arbitrary: p)
  case (Cons now ts)
  from holds_claim [OF Cons.prems] have "holds_probe tid tok (fst (ClaimTargetProbe tid now p))" .
  from Cons.IH [OF this] held_denied [OF Cons.prems, of now] show ?case
    by (cases "ClaimTargetProbe tid now p") (simp add: case_prod_beta)
qed simp

lemma recovering_claims:
  assumes "pl_targets p tid = Some h" "th_recovering h"
  shows "length (filter snd (snd (claims tid ts p))) \<le> 1"
  using assms
proof (induction ts)
  case (Cons now ts)
  obtain q tok ok where cl: "ClaimTargetProbe tid now p = (q, tok, ok)"
    by (cases "ClaimTargetProbe tid now p") auto
  show ?case
  proof (cases ok)
    case True
    with cl Cons.prems have "holds_probe tid tok q"
      by (auto simp: ClaimTargetProbe_def claimTargetProbeLocked_def Let_def split: if_splits)
    from held_claims [OF this, of ts] cl show ?thesis by (simp add: case_prod_beta)
  next
    case False
    with cl Cons.prems have "q = p"
      by (auto simp: ClaimTargetProbe_def claimTargetProbeLocked_def Let_def split: if_splits)
    with Cons cl False show ?thesis by (simp add: case_prod_beta)
  qed
qed simp

text \<open>A single failure below the threshold already restricts a target to one request at a time: the
  circuit does not open and the target stays available, yet of any number of claims that follow at
  most one is granted, where a healthy target grants them all.\<close>

theorem one_failure_serialises:
  assumes "healthy_target tid now p" and "fails_of tid p = (0, u)" and "1 < thr" and "zero_time \<le> now"
  shows "TargetAvailable tid now (RecordTargetFailure tid tok thr now p) \<and>
    length (filter snd (snd (claims tid ts (RecordTargetFailure tid tok thr now p)))) \<le> 1"
proof
  show "TargetAvailable tid now (RecordTargetFailure tid tok thr now p)"
    using assms by (auto simp: TargetAvailable_def healthy_target_def fails_of_def RecordTargetFailure_def
        put_health_def new_health_def Let_def split: option.splits)
  have "\<exists>h. pl_targets (RecordTargetFailure tid tok thr now p) tid = Some h \<and> th_recovering h"
    using assms(3) by (simp add: RecordTargetFailure_def put_health_def Let_def)
  then show "length (filter snd (snd (claims tid ts (RecordTargetFailure tid tok thr now p)))) \<le> 1"
    using recovering_claims by blast
qed

theorem one_failure_serialises_witness:
  "length (filter snd (snd (claims ''t'' [5, 5, 6] (RecordTargetFailure ''t'' 0 3 5 demo_pool)))) \<le> 1"
  by (rule one_failure_serialises [THEN conjunct2])
    (simp_all add: healthy_target_def fails_of_def demo_pool_def NewPool_def zero_time_def)

text \<open>A failed probe does not by itself start a new cooldown: with a threshold above one, the
  failure of the probe that follows a cooldown leaves the target available, and the very next claim
  is granted another probe at the same instant.\<close>

theorem failed_probe_not_reopening:
  assumes "holds_probe tid tok p" and "TargetAvailable tid now p" and "1 < thr"
    and "fst (fails_of tid p) = 0"
  shows "TargetAvailable tid now (RecordTargetFailure tid tok thr now p) \<and>
    snd (snd (ClaimTargetProbe tid now (RecordTargetFailure tid tok thr now p)))"
  using assms
  by (auto simp: holds_probe_def TargetAvailable_def fails_of_def RecordTargetFailure_def put_health_def
      ClaimTargetProbe_def claimTargetProbeLocked_def Let_def)

theorem failed_probe_not_reopening_witness:
  "TargetAvailable ''t'' minute (RecordTargetFailure ''t'' 1 2 minute
     (fst (ClaimTargetProbe ''t'' minute recovering_pool)))"
  by (rule failed_probe_not_reopening [THEN conjunct1])
    (simp_all add: holds_probe_def TargetAvailable_def fails_of_def ClaimTargetProbe_def
      claimTargetProbeLocked_def recovering_pool_eq next_token_def put_health_def)

end
