(* ===== verification/Credentials.thy ===== *)
theory Credentials
  imports Pool
begin

text \<open>
  \<^verbatim>\<open>internal/upstream/upstream.go\<close>, the credentials: rebuilding the table of providers from the
  store, and what the pool promises about choosing, cooling and recovering a credential. Decryption,
  the SDK's constructor and its protocol detection, the parser of proxy addresses and the database
  reads are the fields of \<open>'c backend\<close>.
\<close>

section \<open>Rebuilding the table\<close>

record store_provider =
  sp_ID :: ident
  sp_Slug :: string
  sp_Name :: string
  sp_Protocol :: string
  sp_Endpoint :: string
  sp_Enabled :: bool
  sp_TimeoutMs :: int
  sp_MaxRetries :: int
  sp_NetworkID :: ident
  sp_ProxyURL :: string

record store_credential =
  sc_ID :: ident
  sc_Label :: string
  sc_APIKeyEnc :: string
  sc_Enabled :: bool
  sc_Weight :: int
  sc_Status :: string
  sc_CooldownUntil :: int

datatype stage = ListCredentials | Decrypt | BuildClient | NoCredentials

record provider_failure =
  pf_ID :: ident
  pf_Slug :: string
  pf_Name :: string
  pf_Stage :: stage
  pf_Label :: string

record 'c backend =
  be_ListProviders :: "store_provider list option"
  be_ListCredentials :: "ident \<Rightarrow> store_credential list option"
  be_decrypt :: "string \<Rightarrow> string option"
  be_proxyParses :: "string \<Rightarrow> bool"
  be_detect :: "provider_entry \<Rightarrow> string \<Rightarrow> string option"
  be_newClient :: "provider_entry \<Rightarrow> string \<Rightarrow> 'c option"
  be_upstreamTimeout :: duration

definition buildClient :: "'c backend \<Rightarrow> provider_entry \<Rightarrow> string \<Rightarrow> provider_entry \<times> 'c option" where
  "buildClient be prov0 apiKey =
     (let prov = prov0\<lparr>pe_ProxyConfigError := \<not> (trim_space (pe_ProxyURL prov0) = '''' \<or> be_proxyParses be (pe_ProxyURL prov0)),
                       pe_Protocol := Normalize (pe_Protocol prov0)\<rparr> in
      if pe_Protocol prov = '''' \<or> pe_Protocol prov = ''auto'' then
        (let prov = prov\<lparr>pe_Protocol := (case be_detect be prov apiKey of None \<Rightarrow> ''chat'' | Some q \<Rightarrow> q)\<rparr>
         in (prov, be_newClient be prov apiKey))
      else if pe_Protocol prov \<in> set [''chat'', ''response'', ''anthropic''] then (prov, be_newClient be prov apiKey)
      else (prov, None))"

text \<open>The loop over one provider's rows. Entries are allocated at \<open>next\<close>, \<open>next + 1\<close>, and so on.\<close>

record 'c build =
  bd_prov :: provider_entry
  bd_failures :: "provider_failure list"
  bd_credErrs :: nat
  bd_heap :: "addr \<Rightarrow> 'c credential_entry"
  bd_next :: addr

definition failure_of :: "store_provider \<Rightarrow> stage \<Rightarrow> string \<Rightarrow> provider_failure" where
  "failure_of sp st label =
     \<lparr>pf_ID = sp_ID sp, pf_Slug = sp_Slug sp, pf_Name = sp_Name sp, pf_Stage = st, pf_Label = label\<rparr>"

definition credential_step :: "'c backend \<Rightarrow> store_provider \<Rightarrow> store_credential \<Rightarrow> 'c build \<Rightarrow> 'c build" where
  "credential_step be sp sc b =
     (if \<not> sc_Enabled sc then b
      else (case be_decrypt be (sc_APIKeyEnc sc) of
        None \<Rightarrow> b\<lparr>bd_credErrs := bd_credErrs b + 1,
                  bd_failures := bd_failures b @ [failure_of sp Decrypt (sc_Label sc)]\<rparr>
      | Some apiKey \<Rightarrow>
          (case buildClient be (bd_prov b) apiKey of
             (prov, None) \<Rightarrow> b\<lparr>bd_prov := prov, bd_credErrs := bd_credErrs b + 1,
                  bd_failures := bd_failures b @ [failure_of sp BuildClient (sc_Label sc)]\<rparr>
           | (prov, Some client) \<Rightarrow>
               b\<lparr>bd_prov := prov\<lparr>pe_Credentials := pe_Credentials prov @ [bd_next b]\<rparr>,
                 bd_heap := (bd_heap b)(bd_next b :=
                   \<lparr>ce_ID = sc_ID sc, ce_Label = sc_Label sc, ce_APIKey = apiKey, ce_Weight = sc_Weight sc,
                    ce_Enabled = sc_Enabled sc, ce_Status = sc_Status sc,
                    ce_CooldownUntil = (if sc_CooldownUntil sc > 0 then sc_CooldownUntil sc * millisecond else zero_time),
                    ce_Client = client\<rparr>),
                 bd_next := bd_next b + 1\<rparr>)))"

definition new_entry :: "'c backend \<Rightarrow> store_provider \<Rightarrow> provider_entry" where
  "new_entry be sp =
     \<lparr>pe_ID = sp_ID sp, pe_Slug = sp_Slug sp, pe_Name = sp_Name sp, pe_Protocol = sp_Protocol sp,
      pe_Endpoint = sp_Endpoint sp, pe_Enabled = sp_Enabled sp,
      pe_Timeout = (if sp_TimeoutMs sp > 0 then sp_TimeoutMs sp * millisecond else be_upstreamTimeout be),
      pe_MaxRetries = sp_MaxRetries sp, pe_Credentials = [], pe_ProxyURL = sp_ProxyURL sp,
      pe_NetworkID = sp_NetworkID sp, pe_ProxyConfigError = False\<rparr>"

type_synonym 'c table =
  "(string \<rightharpoonup> provider_entry) \<times> provider_failure list \<times> (addr \<Rightarrow> 'c credential_entry) \<times> addr"

definition provider_step :: "'c backend \<Rightarrow> store_provider \<Rightarrow> 'c table \<Rightarrow> 'c table" where
  "provider_step be sp acc =
     (case acc of (tbl, fails, heap, next) \<Rightarrow>
      (case be_ListCredentials be (sp_ID sp) of
         None \<Rightarrow> (tbl, fails @ [failure_of sp ListCredentials ''''], heap, next)
       | Some rows \<Rightarrow>
           (let b = fold (credential_step be sp) rows
                  \<lparr>bd_prov = new_entry be sp, bd_failures = fails, bd_credErrs = 0, bd_heap = heap, bd_next = next\<rparr>;
                fails' = (if pe_Credentials (bd_prov b) = [] \<and> bd_credErrs b = 0
                          then bd_failures b @ [failure_of sp NoCredentials ''''] else bd_failures b)
            in (tbl(sp_Slug sp \<mapsto> bd_prov b), fails', bd_heap b, bd_next b))))"

definition PrepareFromStore ::
  "'c backend \<Rightarrow> (addr \<Rightarrow> 'c credential_entry) \<Rightarrow> addr \<Rightarrow> 'c table option" where
  "PrepareFromStore be heap next =
     (case be_ListProviders be of
        None \<Rightarrow> None
      | Some sps \<Rightarrow> Some (fold (provider_step be) sps (Map.empty, [], heap, next)))"

text \<open>\<open>resolveCredential\<close>, which serves the connectivity test, takes the first usable key directly.\<close>

fun first_key :: "'c backend \<Rightarrow> store_credential list \<Rightarrow> string option" where
  "first_key be [] = None"
| "first_key be (c # cs) =
     (if \<not> sc_Enabled c then first_key be cs
      else (case be_decrypt be (sc_APIKeyEnc c) of
              None \<Rightarrow> first_key be cs
            | Some key \<Rightarrow> if key \<noteq> '''' then Some key else first_key be cs))"

definition resolveCredential :: "'c backend \<Rightarrow> (ident \<Rightarrow> store_provider option option) \<Rightarrow> ident
    \<Rightarrow> (store_provider \<times> string) option" where
  "resolveCredential be getProvider pid =
     (case getProvider pid of None \<Rightarrow> None
      | Some None \<Rightarrow> None
      | Some (Some sp) \<Rightarrow>
          (case be_ListCredentials be pid of None \<Rightarrow> None
           | Some rows \<Rightarrow> map_option (\<lambda>key. (sp, key)) (first_key be rows)))"

section \<open>Choosing\<close>

lemma weight_loop_member: "weight_loop heap r as = Some a \<Longrightarrow> a \<in> set as"
  by (induction heap r as rule: weight_loop.induct) (auto split: if_splits)

lemma selectWeighted_member:
  assumes "selectWeighted rand heap as = Some a" "\<And>n. 0 < n \<Longrightarrow> rand n < n"
  shows "a \<in> set as"
  using assms by (auto simp: selectWeighted_def split: if_splits option.splits dest: weight_loop_member)

lemma selectWeightedByAffinity_member:
  assumes "selectWeightedByAffinity heap as affinity = Some a" "length as < 2 ^ 64"
  shows "a \<in> set as"
proof -
  have "unat (fnv64a affinity mod word_of_nat (length as)) < length as" if "as \<noteq> []"
  proof -
    have "unat (word_of_nat (length as) :: 64 word) = length as"
      using assms(2) by (simp add: unat_of_nat take_bit_nat_eq_self)
    then show ?thesis using that by (simp add: unat_mod)
  qed
  with assms show ?thesis
    by (auto simp: selectWeightedByAffinity_def Let_def split: if_splits option.splits dest: weight_loop_member)
qed

lemma select_total: "as \<noteq> [] \<Longrightarrow> \<exists>a. selectWeighted rand heap as = Some a"
  "as \<noteq> [] \<Longrightarrow> \<exists>a. selectWeightedByAffinity heap as affinity = Some a"
  by (auto simp: selectWeighted_def selectWeightedByAffinity_def Let_def split: option.splits)

lemma getHealthy_set: "set (getHealthyCredentials now prov p) = {a \<in> set (pe_Credentials prov). usable now (pl_heap p a)}"
  by (auto simp: getHealthyCredentials_def)

lemma getHealthy_length: "length (getHealthyCredentials now prov p) \<le> length (pe_Credentials prov)"
  by (simp add: getHealthyCredentials_def)

lemma client_usable:
  assumes "\<forall>n > 0. rand n < n"
    and "\<forall>prov. pl_providers p slug = Some prov \<longrightarrow> length (pe_Credentials prov) < 2 ^ 64"
  shows "case getAnyClient rand now slug affinity p of
      Inr (client, cid) \<Rightarrow> (\<exists>prov a. pl_providers p slug = Some prov \<and> pe_Enabled prov \<and>
        a \<in> set (pe_Credentials prov) \<and> usable now (pl_heap p a) \<and>
        client = ce_Client (pl_heap p a) \<and> cid = ce_ID (pl_heap p a))
    | Inl _ \<Rightarrow> \<not> (\<exists>prov a. pl_providers p slug = Some prov \<and> pe_Enabled prov \<and>
        a \<in> set (pe_Credentials prov) \<and> usable now (pl_heap p a))"
proof (cases "\<exists>prov. pl_providers p slug = Some prov \<and> pe_Enabled prov")
  case True
  then obtain prov where prov: "pl_providers p slug = Some prov" "pe_Enabled prov" by blast
  let ?hs = "getHealthyCredentials now prov p"
  let ?sel = "if affinity = '''' then selectWeighted rand (pl_heap p) ?hs
      else selectWeightedByAffinity (pl_heap p) ?hs affinity"
  have len: "length ?hs < 2 ^ 64"
    using assms(2) prov(1) getHealthy_length [of now prov p] by (meson le_less_trans)
  show ?thesis
  proof (cases ?sel)
    case None
    then have "?hs = []" using select_total by (metis option.distinct(1))
    with None prov getHealthy_set [of now prov p] show ?thesis
      by (auto simp: getAnyClient_def Let_def)
  next
    case (Some a)
    then have "a \<in> set ?hs"
      using selectWeighted_member [of rand "pl_heap p" ?hs a] assms(1)
        selectWeightedByAffinity_member [of "pl_heap p" ?hs affinity a] len
      by (auto split: if_splits)
    with Some prov getHealthy_set [of now prov p] show ?thesis
      by (auto simp: getAnyClient_def Let_def)
  qed
next
  case False
  then show ?thesis by (auto simp: getAnyClient_def split: option.splits)
qed

text \<open>C38: A client is found exactly when the provider is known, enabled and has a usable credential,
  and the client is that of a usable credential of this provider: enabled, not disabled, and not
  inside its cooldown. This holds for every outcome of the random draw and for every affinity key.\<close>

theorem client_is_usable:
  assumes "\<forall>n > 0. rand n < n"
    and "\<forall>prov. pl_providers p slug = Some prov \<longrightarrow> length (pe_Credentials prov) < 2 ^ 64"
  shows "case getAnyClient rand now slug affinity p of
      Inr (client, cid) \<Rightarrow> (\<exists>prov a. pl_providers p slug = Some prov \<and> pe_Enabled prov \<and>
        a \<in> set (pe_Credentials prov) \<and> usable now (pl_heap p a) \<and>
        client = ce_Client (pl_heap p a) \<and> cid = ce_ID (pl_heap p a))
    | Inl _ \<Rightarrow> \<not> (\<exists>prov a. pl_providers p slug = Some prov \<and> pe_Enabled prov \<and>
        a \<in> set (pe_Credentials prov) \<and> usable now (pl_heap p a))"
  using assms by (rule client_usable)

section \<open>Weights are proportions\<close>

definition picks :: "(addr \<Rightarrow> 'c credential_entry) \<Rightarrow> addr list \<Rightarrow> addr \<Rightarrow> int set" where
  "picks heap as a = {r. 0 \<le> r \<and> r < total_weight heap as \<and> weight_loop heap r as = Some a}"

lemma total_Cons [simp]: "total_weight heap (x # xs) = ce_Weight (heap x) + total_weight heap xs"
  by (simp add: total_weight_def)

lemma picks_card:
  "distinct as \<Longrightarrow> (\<forall>x \<in> set as. 0 \<le> ce_Weight (heap x)) \<Longrightarrow> a \<in> set as \<Longrightarrow>
    card (picks heap as a) = nat (ce_Weight (heap a))"
proof (induction as)
  case Nil
  then show ?case by simp
next
  case (Cons x xs)
  let ?w = "ce_Weight (heap x)"
  have tot: "0 \<le> total_weight heap xs"
    unfolding total_weight_def by (rule sum_list_nonneg) (use Cons.prems(2) in auto)
  show ?case
  proof (cases "a = x")
    case True
    then have "picks heap (x # xs) a = {0..<?w}"
      using Cons.prems(1,2) tot by (auto simp: picks_def dest: weight_loop_member)
    then show ?thesis using True by simp
  next
    case False
    have "picks heap (x # xs) a = (+) ?w ` picks heap xs a"
    proof
      show "(+) ?w ` picks heap xs a \<subseteq> picks heap (x # xs) a"
        using Cons.prems(2) by (auto simp: picks_def)
      show "picks heap (x # xs) a \<subseteq> (+) ?w ` picks heap xs a"
      proof
        fix r assume "r \<in> picks heap (x # xs) a"
        then have "r - ?w \<in> picks heap xs a" using False by (auto simp: picks_def split: if_splits)
        then show "r \<in> (+) ?w ` picks heap xs a" by (rule rev_image_eqI) simp
      qed
    qed
    then have "card (picks heap (x # xs) a) = card (picks heap xs a)"
      by (simp add: card_image)
    then show ?thesis using Cons False by simp
  qed
qed

text \<open>A credential is drawn with exactly its share of the weight: of the \<open>total\<close> equally likely
  outcomes of the random draw, \<open>w\<close> select a credential of weight \<open>w\<close>, so one of weight zero is never
  drawn while another has weight.\<close>

theorem weighted_share:
  assumes "distinct as" and "\<forall>x \<in> set as. 0 \<le> ce_Weight (heap x)" and "2 \<le> length as"
    and "0 < total_weight heap as" and "a \<in> set as"
  shows "card {r. r < nat (total_weight heap as) \<and> selectWeighted (\<lambda>_. r) heap as = Some a} =
    nat (ce_Weight (heap a))"
proof -
  have loop: "\<exists>b. weight_loop heap r as = Some b" if "0 \<le> r" "r < total_weight heap as" for r as
    using that by (induction heap r as rule: weight_loop.induct) (auto simp: total_weight_def)
  have sel: "selectWeighted (\<lambda>_. r) heap as = weight_loop heap (int r) as"
    if "r < nat (total_weight heap as)" for r
  proof -
    have "int r < total_weight heap as" using that by linarith
    then obtain b where "weight_loop heap (int r) as = Some b" using loop [of "int r" as] by auto
    moreover have "as \<noteq> []" "length as \<noteq> 1" using assms(3) by auto
    ultimately show ?thesis using assms(4) by (simp add: selectWeighted_def)
  qed
  have "{r. r < nat (total_weight heap as) \<and> selectWeighted (\<lambda>_. r) heap as = Some a} = nat ` picks heap as a"
  proof
    show "nat ` picks heap as a \<subseteq>
        {r. r < nat (total_weight heap as) \<and> selectWeighted (\<lambda>_. r) heap as = Some a}"
      using sel by (auto simp: picks_def)
    show "{r. r < nat (total_weight heap as) \<and> selectWeighted (\<lambda>_. r) heap as = Some a} \<subseteq>
        nat ` picks heap as a"
    proof
      fix r assume "r \<in> {r. r < nat (total_weight heap as) \<and> selectWeighted (\<lambda>_. r) heap as = Some a}"
      then have "int r \<in> picks heap as a" using sel by (auto simp: picks_def)
      then show "r \<in> nat ` picks heap as a" by (rule rev_image_eqI) simp
    qed
  qed
  moreover have "inj_on nat (picks heap as a)"
    by (auto simp: picks_def inj_on_def)
  ultimately show ?thesis
    using picks_card [OF assms(1,2,5)] by (simp add: card_image)
qed

definition demo_cred :: "int \<Rightarrow> string \<Rightarrow> unit credential_entry" where
  "demo_cred w i = \<lparr>ce_ID = i, ce_Label = '''', ce_APIKey = ''k'', ce_Weight = w, ce_Enabled = True,
     ce_Status = ''healthy'', ce_CooldownUntil = zero_time, ce_Client = ()\<rparr>"

definition demo_entry :: "addr list \<Rightarrow> provider_entry" where
  "demo_entry as = \<lparr>pe_ID = ''p1'', pe_Slug = ''acme'', pe_Name = ''Acme'', pe_Protocol = ''chat'',
     pe_Endpoint = '''', pe_Enabled = True, pe_Timeout = 0, pe_MaxRetries = 0, pe_Credentials = as,
     pe_ProxyURL = '''', pe_NetworkID = '''', pe_ProxyConfigError = False\<rparr>"

definition demo_creds :: "unit pool" where
  "demo_creds = Install [''acme''] [''acme'' \<mapsto> demo_entry [0, 1]] \<lparr>lt_IDs = {}, lt_Known = False\<rparr>
     (NewPool (\<lambda>a. if a = 0 then demo_cred 1 ''c0'' else demo_cred 3 ''c1''))"

theorem weighted_share_witness:
  "card {r. r < nat (total_weight (pl_heap demo_creds) [0, 1]) \<and>
     selectWeighted (\<lambda>_. r) (pl_heap demo_creds) [0, 1] = Some 1} = nat 3"
proof -
  have "ce_Weight (pl_heap demo_creds 0) = 1" "ce_Weight (pl_heap demo_creds 1) = 3"
    by (simp_all add: demo_creds_def Install_def reindexLocked_def NewPool_def demo_cred_def Let_def)
  then show ?thesis
    using weighted_share [of "[0, 1]" "pl_heap demo_creds" 1] by (simp add: total_weight_def)
qed

theorem client_is_usable_witness:
  "\<exists>cid. getAnyClient (\<lambda>_. 0) 7 ''acme'' '''' demo_creds = Inr ((), cid)"
proof -
  have provs: "pl_providers demo_creds = [''acme'' \<mapsto> demo_entry [0, 1]]"
    by (simp add: demo_creds_def Install_def reindexLocked_def Let_def)
  have "usable 7 (pl_heap demo_creds 0)"
    by (simp add: usable_def demo_creds_def Install_def reindexLocked_def NewPool_def demo_cred_def Let_def)
  moreover have "\<forall>n > 0. (\<lambda>_ :: nat. 0 :: nat) n < n"
    "\<forall>prov. pl_providers demo_creds ''acme'' = Some prov \<longrightarrow> length (pe_Credentials prov) < 2 ^ 64"
    by (simp_all add: provs demo_entry_def)
  ultimately show ?thesis
    using client_is_usable [of "\<lambda>_. 0" demo_creds "''acme''" 7 "''''"]
    by (cases "getAnyClient (\<lambda>_. 0) 7 ''acme'' '''' demo_creds") (auto simp: provs demo_entry_def)
qed

section \<open>Cooling down and recovering\<close>

text \<open>The index finds every credential in the table: the address under an ID is the only one with it.\<close>

definition index_ok :: "'c pool \<Rightarrow> bool" where
  "index_ok p \<longleftrightarrow>
     (\<forall>i a. pl_credIndex p i = Some a \<longrightarrow> ce_ID (pl_heap p a) = i) \<and>
     (\<forall>slug prov a. pl_providers p slug = Some prov \<longrightarrow> a \<in> set (pe_Credentials prov) \<longrightarrow>
     pl_credIndex p (ce_ID (pl_heap p a)) = Some a)"

lemma index_provider_other:
  "(\<forall>a \<in> set as. ce_ID (heap a) \<noteq> i) \<Longrightarrow>
    fold (index_put heap) as idx i = idx i"
  by (induction as arbitrary: idx) (auto simp: index_put_def)

lemma index_provider_in:
  "a \<in> set as \<Longrightarrow> inj_on (\<lambda>a. ce_ID (heap a)) (set as) \<Longrightarrow>
    fold (index_put heap) as idx (ce_ID (heap a)) = Some a"
proof (induction as arbitrary: idx)
  case (Cons x xs)
  show ?case
  proof (cases "a \<in> set xs")
    case True
    with Cons show ?thesis by (auto simp: inj_on_def)
  next
    case False
    with Cons.prems have "a = x" "\<forall>y \<in> set xs. ce_ID (heap y) \<noteq> ce_ID (heap x)"
      by (auto simp: inj_on_def)
    then have "fold (index_put heap) xs (index_put heap x idx) (ce_ID (heap a)) = index_put heap x idx (ce_ID (heap a))"
      by (intro index_provider_other) simp
    with \<open>a = x\<close> show ?thesis by (simp add: index_put_def [of heap x])
  qed
qed simp

lemma reindex_loop:
  assumes "distinct order" "slug \<in> set order" "provs slug = Some prov" "a \<in> set (pe_Credentials prov)"
    and inj: "\<forall>s s' q q' b b'. provs s = Some q \<longrightarrow> provs s' = Some q' \<longrightarrow> b \<in> set (pe_Credentials q) \<longrightarrow>
      b' \<in> set (pe_Credentials q') \<longrightarrow> ce_ID (heap b) = ce_ID (heap b') \<longrightarrow> b = b'"
  shows "fold (\<lambda>slug idx. case provs slug of None \<Rightarrow> idx
      | Some prov \<Rightarrow> index_provider heap prov idx) order idx (ce_ID (heap a)) = Some a"
  using assms(1,2)
proof (induction order arbitrary: idx rule: rev_induct)
  case (snoc s order)
  let ?f = "fold (\<lambda>slug idx. case provs slug of None \<Rightarrow> idx | Some prov \<Rightarrow> index_provider heap prov idx) order idx"
  show ?case
  proof (cases "\<exists>q. provs s = Some q \<and> a \<in> set (pe_Credentials q)")
    case True
    then obtain q where q: "provs s = Some q" "a \<in> set (pe_Credentials q)" by blast
    have "inj_on (\<lambda>a. ce_ID (heap a)) (set (pe_Credentials q))"
      using inj q(1) by (auto simp: inj_on_def)
    from index_provider_in [OF q(2) this] q(1) show ?thesis by (simp add: index_provider_def)
  next
    case False
    have IH: "?f (ce_ID (heap a)) = Some a"
      using snoc False assms(3,4) by (cases "s = slug") auto
    have "index_provider heap q ?f (ce_ID (heap a)) = ?f (ce_ID (heap a))" if "provs s = Some q" for q
      unfolding index_provider_def
      by (rule index_provider_other) (use False inj that assms(3,4) in blast)
    with IH show ?thesis by (simp split: option.splits)
  qed
qed simp

lemma reindex_IDs:
  "fold (\<lambda>slug idx. case provs slug of None \<Rightarrow> idx
      | Some prov \<Rightarrow> index_provider heap prov idx) order idx i = Some a \<Longrightarrow>
    (\<forall>i a. idx i = Some a \<longrightarrow> ce_ID (heap a) = i) \<Longrightarrow> ce_ID (heap a) = i"
proof (induction order arbitrary: idx)
  case (Cons s order)
  have put: "(\<forall>i a. idx i = Some a \<longrightarrow> ce_ID (heap a) = i) \<Longrightarrow>
      (\<forall>i a. fold (index_put heap) as idx i = Some a \<longrightarrow> ce_ID (heap a) = i)" for as idx
  proof (induction as arbitrary: idx)
    case (Cons x xs)
    have "\<forall>i a. index_put heap x idx i = Some a \<longrightarrow> ce_ID (heap a) = i"
      using Cons.prems unfolding index_put_def by (metis fun_upd_apply option.inject)
    from Cons.IH [OF this] show ?case by simp
  qed simp
  show ?case
  proof (cases "provs s")
    case None
    with Cons show ?thesis by simp
  next
    case (Some prov)
    have idx: "\<forall>i a. index_provider heap prov idx i = Some a \<longrightarrow> ce_ID (heap a) = i"
      unfolding index_provider_def by (rule put [OF Cons.prems(2)])
    show ?thesis
      by (rule Cons.IH [OF _ idx]) (use Cons.prems(1) Some in simp)
  qed
qed simp

text \<open>Installing a table whose credential IDs are unique rebuilds the index over exactly the new
  table, in whatever order the runtime walks the map: every credential of every provider is found
  under its ID.\<close>

theorem install_indexes:
  assumes "iterates order provs"
    and "\<forall>s s' q q' b b'. provs s = Some q \<longrightarrow> provs s' = Some q' \<longrightarrow> b \<in> set (pe_Credentials q) \<longrightarrow>
      b' \<in> set (pe_Credentials q') \<longrightarrow> ce_ID (pl_heap p b) = ce_ID (pl_heap p b') \<longrightarrow> b = b'"
  shows "index_ok (Install order provs live p)"
proof -
  have fields: "pl_providers (Install order provs live p) = provs"
    "pl_heap (Install order provs live p) = pl_heap p"
    "pl_credIndex (Install order provs live p) = fold (\<lambda>slug idx. case provs slug of None \<Rightarrow> idx
      | Some prov \<Rightarrow> index_provider (pl_heap p) prov idx) order Map.empty"
    by (simp_all add: Install_def reindexLocked_def Let_def)
  show ?thesis
    unfolding index_ok_def fields
  proof (intro conjI allI impI)
    fix i a assume "fold (\<lambda>slug idx. case provs slug of None \<Rightarrow> idx
      | Some prov \<Rightarrow> index_provider (pl_heap p) prov idx) order Map.empty i = Some a"
    then show "ce_ID (pl_heap p a) = i" by (rule reindex_IDs) simp
  next
    fix slug prov a assume a: "provs slug = Some prov" "a \<in> set (pe_Credentials prov)"
    then have "slug \<in> set order" "distinct order" using assms(1) by (auto simp: iterates_def)
    from reindex_loop [OF this(2,1) a assms(2)]
    show "fold (\<lambda>slug idx. case provs slug of None \<Rightarrow> idx
      | Some prov \<Rightarrow> index_provider (pl_heap p) prov idx) order Map.empty (ce_ID (pl_heap p a)) = Some a" .
  qed
qed

theorem install_indexes_witness: "index_ok demo_creds"
  unfolding demo_creds_def
  by (rule install_indexes) (auto simp: iterates_def NewPool_def demo_entry_def demo_cred_def split: if_splits)

lemma Mark_fields:
  assumes "MarkCredentialCooldown cid d now p = (p', w)"
  shows "pl_providers p' = pl_providers p" and "pl_credIndex p' = pl_credIndex p"
    and "ce_ID (pl_heap p' a) = ce_ID (pl_heap p a)"
  using assms by (auto simp: MarkCredentialCooldown_def split: option.splits)

lemma Record_fields:
  assumes "RecordCredentialSuccess cid p = (p', w)"
  shows "pl_providers p' = pl_providers p" and "pl_credIndex p' = pl_credIndex p"
    and "ce_ID (pl_heap p' a) = ce_ID (pl_heap p a)"
  using assms by (auto simp: RecordCredentialSuccess_def Let_def split: option.splits if_splits)

lemma index_ok_steps:
  "index_ok p \<Longrightarrow> MarkCredentialCooldown cid d now p = (p', w) \<Longrightarrow> index_ok p'"
  "index_ok p \<Longrightarrow> RecordCredentialSuccess cid p = (p', w) \<Longrightarrow> index_ok p'"
  unfolding index_ok_def by (simp_all add: Mark_fields Record_fields)

text \<open>A credential that is cooled down for \<open>d\<close> is not handed out before \<open>d\<close> has passed, by any draw
  and for any affinity, while every other credential stays as usable as it was; what is written to
  the store is the new state in memory.\<close>

theorem cooled_not_chosen:
  assumes "index_ok p" and "MarkCredentialCooldown cid d now p = (p', w)" and "t < now + d"
    and "\<forall>n > 0. rand n < n"
    and "\<forall>prov. pl_providers p slug = Some prov \<longrightarrow> length (pe_Credentials prov) < 2 ^ 64"
  shows "getAnyClient rand t slug affinity p' \<noteq> Inr (client, cid) \<and>
    (\<forall>prov a. pl_providers p slug = Some prov \<longrightarrow> a \<in> set (pe_Credentials prov) \<longrightarrow>
       ce_ID (pl_heap p a) \<noteq> cid \<longrightarrow> usable t (pl_heap p' a) = usable t (pl_heap p a)) \<and>
    (\<forall>i st u. w = Some (i, st, u) \<longrightarrow> i = cid \<and> (\<exists>a. pl_credIndex p cid = Some a \<and>
       ce_Status (pl_heap p' a) = st \<and> ce_CooldownUntil (pl_heap p' a) = u))"
proof (intro conjI)
  show "getAnyClient rand t slug affinity p' \<noteq> Inr (client, cid)"
  proof
    assume got: "getAnyClient rand t slug affinity p' = Inr (client, cid)"
    have "\<forall>prov. pl_providers p' slug = Some prov \<longrightarrow> length (pe_Credentials prov) < 2 ^ 64"
      using assms(5) Mark_fields(1) [OF assms(2)] by simp
    from client_usable [OF assms(4) this, of t affinity] got obtain prov a where
      a: "pl_providers p slug = Some prov" "a \<in> set (pe_Credentials prov)" "usable t (pl_heap p' a)"
        "cid = ce_ID (pl_heap p a)"
      using Mark_fields [OF assms(2)] by auto
    then have "pl_credIndex p cid = Some a" using assms(1) by (simp add: index_ok_def)
    with a(3) assms(2,3) show False
      by (auto simp: MarkCredentialCooldown_def usable_def)
  qed
  show "\<forall>prov a. pl_providers p slug = Some prov \<longrightarrow> a \<in> set (pe_Credentials prov) \<longrightarrow>
       ce_ID (pl_heap p a) \<noteq> cid \<longrightarrow> usable t (pl_heap p' a) = usable t (pl_heap p a)"
  proof (intro allI impI)
    fix prov a assume a: "pl_providers p slug = Some prov" "a \<in> set (pe_Credentials prov)"
      "ce_ID (pl_heap p a) \<noteq> cid"
    then have "pl_credIndex p cid \<noteq> Some a" using assms(1) by (auto simp: index_ok_def)
    with assms(2) show "usable t (pl_heap p' a) = usable t (pl_heap p a)"
      by (auto simp: MarkCredentialCooldown_def split: option.splits)
  qed
  show "\<forall>i st u. w = Some (i, st, u) \<longrightarrow> i = cid \<and> (\<exists>a. pl_credIndex p cid = Some a \<and>
       ce_Status (pl_heap p' a) = st \<and> ce_CooldownUntil (pl_heap p' a) = u)"
    using assms(2) by (auto simp: MarkCredentialCooldown_def split: option.splits if_splits)
qed

theorem cooled_not_chosen_witness:
  "getAnyClient (\<lambda>_. 0) 5 ''acme'' '''' (fst (MarkCredentialCooldown ''c0'' minute 0 demo_creds)) \<noteq> Inr ((), ''c0'')"
proof -
  have ok: "index_ok demo_creds"
    unfolding index_ok_def
    by (auto simp: demo_creds_def Install_def reindexLocked_def Let_def NewPool_def demo_entry_def
        index_provider_def index_put_def demo_cred_def split: if_splits)
  have mark: "MarkCredentialCooldown ''c0'' minute 0 demo_creds =
      (fst (MarkCredentialCooldown ''c0'' minute 0 demo_creds), snd (MarkCredentialCooldown ''c0'' minute 0 demo_creds))"
    by simp
  have len: "\<forall>prov. pl_providers demo_creds ''acme'' = Some prov \<longrightarrow> length (pe_Credentials prov) < 2 ^ 64"
    by (simp add: demo_creds_def Install_def reindexLocked_def Let_def demo_entry_def)
  show ?thesis
    by (rule cooled_not_chosen [OF ok mark _ _ len, THEN conjunct1]) simp_all
qed

text \<open>One success makes a credential usable at once: after it, an indexed credential that is enabled
  is usable at every instant, whatever its state was, and repeating it writes nothing.\<close>

theorem success_recovers:
  assumes "pl_credIndex p cid = Some a" and "RecordCredentialSuccess cid p = (p', w)"
  shows "usable t (pl_heap p' a) = ce_Enabled (pl_heap p a) \<and> RecordCredentialSuccess cid p' = (p', None)"
  using assms by (auto simp: RecordCredentialSuccess_def usable_def is_zero_def Let_def split: if_splits)

theorem success_recovers_witness:
  "usable 5 (pl_heap (fst (RecordCredentialSuccess ''c0'' (fst (MarkCredentialCooldown ''c0'' minute 0 demo_creds)))) 0)"
proof -
  let ?p = "fst (MarkCredentialCooldown ''c0'' minute 0 demo_creds)"
  have idx: "pl_credIndex ?p ''c0'' = Some 0" and en: "ce_Enabled (pl_heap ?p 0)"
    by (simp_all add: MarkCredentialCooldown_def demo_creds_def Install_def reindexLocked_def Let_def
        NewPool_def demo_entry_def index_provider_def index_put_def demo_cred_def)
  have "RecordCredentialSuccess ''c0'' ?p = (fst (RecordCredentialSuccess ''c0'' ?p), snd (RecordCredentialSuccess ''c0'' ?p))"
    by simp
  from success_recovers [OF idx this, of 5] en show ?thesis by simp
qed

section \<open>What a rebuild accounts for\<close>

text \<open>The loop invariant over one provider's rows.\<close>

definition rows_inv ::
  "'c backend \<Rightarrow> store_provider \<Rightarrow> store_credential list \<Rightarrow> provider_failure list
    \<Rightarrow> (addr \<Rightarrow> 'c credential_entry) \<Rightarrow> addr \<Rightarrow> 'c build \<Rightarrow> bool" where
  "rows_inv be sp rows fails0 heap0 n0 b \<longleftrightarrow>
     n0 \<le> bd_next b \<and> (\<forall>a < n0. bd_heap b a = heap0 a) \<and>
     (\<exists>extra. bd_failures b = fails0 @ extra \<and> length extra = bd_credErrs b \<and>
        (\<forall>f \<in> set extra. pf_ID f = sp_ID sp)) \<and>
     pe_ID (bd_prov b) = sp_ID sp \<and>
     (\<forall>a \<in> set (pe_Credentials (bd_prov b)). n0 \<le> a \<and> a < bd_next b \<and>
        (\<exists>sc \<in> set rows. sc_Enabled sc \<and> ce_ID (bd_heap b a) = sc_ID sc \<and>
           be_decrypt be (sc_APIKeyEnc sc) = Some (ce_APIKey (bd_heap b a))))"

lemma buildClient_keeps:
  "buildClient be prov key = (prov', c) \<Longrightarrow>
    pe_ID prov' = pe_ID prov \<and> pe_Slug prov' = pe_Slug prov \<and> pe_Credentials prov' = pe_Credentials prov"
  by (auto simp: buildClient_def Let_def split: if_splits)

lemma rows_step:
  assumes inv: "rows_inv be sp rows fails0 heap0 n0 b" and sc: "sc \<in> set rows"
  shows "rows_inv be sp rows fails0 heap0 n0 (credential_step be sp sc b)"
proof (cases "sc_Enabled sc")
  case False
  with inv show ?thesis by (simp add: credential_step_def)
next
  case True
  obtain extra where ex: "bd_failures b = fails0 @ extra" "length extra = bd_credErrs b"
    "\<forall>f \<in> set extra. pf_ID f = sp_ID sp"
    using inv by (auto simp: rows_inv_def)
  show ?thesis
  proof (cases "be_decrypt be (sc_APIKeyEnc sc)")
    case None
    have "\<exists>extra'. bd_failures b @ [failure_of sp Decrypt (sc_Label sc)] = fails0 @ extra' \<and>
        length extra' = bd_credErrs b + 1 \<and> (\<forall>f \<in> set extra'. pf_ID f = sp_ID sp)"
      using ex by (intro exI [of _ "extra @ [failure_of sp Decrypt (sc_Label sc)]"]) (simp add: failure_of_def)
    with inv True None show ?thesis by (simp add: credential_step_def rows_inv_def)
  next
    case (Some key)
    obtain prov c where bc: "buildClient be (bd_prov b) key = (prov, c)"
      by (cases "buildClient be (bd_prov b) key") auto
    note keeps = buildClient_keeps [OF bc]
    show ?thesis
    proof (cases c)
      case None
      have "\<exists>extra'. bd_failures b @ [failure_of sp BuildClient (sc_Label sc)] = fails0 @ extra' \<and>
          length extra' = bd_credErrs b + 1 \<and> (\<forall>f \<in> set extra'. pf_ID f = sp_ID sp)"
        using ex by (intro exI [of _ "extra @ [failure_of sp BuildClient (sc_Label sc)]"]) (simp add: failure_of_def)
      with inv True Some bc None keeps show ?thesis by (simp add: credential_step_def rows_inv_def)
    next
      case (Some client)
      with inv True \<open>be_decrypt be (sc_APIKeyEnc sc) = Some key\<close> bc keeps sc show ?thesis
        by (fastforce simp: credential_step_def rows_inv_def less_Suc_eq)
    qed
  qed
qed

lemma rows_fold:
  "rows_inv be sp rows fails0 heap0 n0 b \<Longrightarrow> set rs \<subseteq> set rows \<Longrightarrow>
    rows_inv be sp rows fails0 heap0 n0 (fold (credential_step be sp) rs b)"
  by (induction rs arbitrary: b) (simp_all add: rows_step)

text \<open>What is known about the provider \<open>sp\<close> once the loop has passed it: it is in the table, or its
  credential list could not be read and this was reported; an entry without credentials comes with
  a report; and every credential is an enabled row of it, decrypted.\<close>

definition accounted :: "'c backend \<Rightarrow> store_provider \<Rightarrow> 'c table \<Rightarrow> bool" where
  "accounted be sp acc \<longleftrightarrow> (case acc of (tbl, fails, heap, next) \<Rightarrow>
     (case tbl (sp_Slug sp) of
        None \<Rightarrow> be_ListCredentials be (sp_ID sp) = None \<and> failure_of sp ListCredentials '''' \<in> set fails
      | Some prov \<Rightarrow> pe_ID prov = sp_ID sp \<and>
          (pe_Credentials prov = [] \<longrightarrow> (\<exists>f \<in> set fails. pf_ID f = sp_ID sp)) \<and>
          (\<forall>a \<in> set (pe_Credentials prov). a < next \<and>
             (\<exists>rows. be_ListCredentials be (sp_ID sp) = Some rows \<and>
               (\<exists>sc \<in> set rows. sc_Enabled sc \<and> ce_ID (heap a) = sc_ID sc \<and>
                  be_decrypt be (sc_APIKeyEnc sc) = Some (ce_APIKey (heap a)))))))"

lemma provider_step_inv:
  assumes "be_ListCredentials be (sp_ID sp) = Some rows"
  shows "\<exists>b. rows_inv be sp rows fails heap next b \<and>
    provider_step be sp (tbl, fails, heap, next) =
      (tbl(sp_Slug sp \<mapsto> bd_prov b),
       (if pe_Credentials (bd_prov b) = [] \<and> bd_credErrs b = 0
        then bd_failures b @ [failure_of sp NoCredentials ''''] else bd_failures b), bd_heap b, bd_next b)"
proof -
  let ?b0 = "\<lparr>bd_prov = new_entry be sp, bd_failures = fails, bd_credErrs = 0, bd_heap = heap, bd_next = next\<rparr>"
  have "rows_inv be sp rows fails heap next ?b0"
    by (simp add: rows_inv_def new_entry_def)
  then have "rows_inv be sp rows fails heap next (fold (credential_step be sp) rows ?b0)"
    by (rule rows_fold) simp
  with assms show ?thesis
    by (intro exI [of _ "fold (credential_step be sp) rows ?b0"]) (simp add: provider_step_def Let_def)
qed

lemma accounted_self:
  assumes "(case acc of (tbl, _) \<Rightarrow> tbl (sp_Slug sp) = None)"
  shows "accounted be sp (provider_step be sp acc)"
proof -
  obtain tbl fails heap nxt where acc: "acc = (tbl, fails, heap, nxt)" by (cases acc) auto
  show ?thesis
  proof (cases "be_ListCredentials be (sp_ID sp)")
    case None
    with assms acc show ?thesis by (simp add: accounted_def provider_step_def)
  next
    case (Some rows)
    obtain b where inv: "rows_inv be sp rows fails heap nxt b" and st:
      "provider_step be sp acc = (tbl(sp_Slug sp \<mapsto> bd_prov b),
       (if pe_Credentials (bd_prov b) = [] \<and> bd_credErrs b = 0
        then bd_failures b @ [failure_of sp NoCredentials ''''] else bd_failures b), bd_heap b, bd_next b)"
      using provider_step_inv [OF Some, of fails heap nxt tbl] acc by auto
    obtain extra where ex: "bd_failures b = fails @ extra" "length extra = bd_credErrs b"
      "\<forall>f \<in> set extra. pf_ID f = sp_ID sp"
      using inv by (auto simp: rows_inv_def)
    have report: "\<exists>f \<in> set (if pe_Credentials (bd_prov b) = [] \<and> bd_credErrs b = 0
        then bd_failures b @ [failure_of sp NoCredentials ''''] else bd_failures b). pf_ID f = sp_ID sp"
      if "pe_Credentials (bd_prov b) = []"
    proof (cases "bd_credErrs b = 0")
      case True
      then show ?thesis using that by (simp add: failure_of_def)
    next
      case False
      then have "extra \<noteq> []" using ex(2) by auto
      then show ?thesis using ex that False by (cases extra) auto
    qed
    show ?thesis
      unfolding accounted_def st using inv report Some
      by (simp add: rows_inv_def)
  qed
qed

lemma accounted_later:
  assumes "accounted be sp acc" "sp_Slug sp' \<noteq> sp_Slug sp"
  shows "accounted be sp (provider_step be sp' acc)"
proof -
  obtain tbl fails heap nxt where acc: "acc = (tbl, fails, heap, nxt)" by (cases acc) auto
  show ?thesis
  proof (cases "be_ListCredentials be (sp_ID sp')")
    case None
    with assms acc show ?thesis by (auto simp: accounted_def provider_step_def split: option.splits)
  next
    case (Some rows)
    obtain b where inv: "rows_inv be sp' rows fails heap nxt b" and st:
      "provider_step be sp' acc = (tbl(sp_Slug sp' \<mapsto> bd_prov b),
       (if pe_Credentials (bd_prov b) = [] \<and> bd_credErrs b = 0
        then bd_failures b @ [failure_of sp' NoCredentials ''''] else bd_failures b), bd_heap b, bd_next b)"
      using provider_step_inv [OF Some, of fails heap nxt tbl] acc by auto
    have mono: "set fails \<subseteq> set (bd_failures b)" "nxt \<le> bd_next b" "\<forall>a < nxt. bd_heap b a = heap a"
      using inv by (auto simp: rows_inv_def)
    show ?thesis
    proof (cases "tbl (sp_Slug sp)")
      case None
      with assms acc mono(1) st show ?thesis by (auto simp: accounted_def)
    next
      case (Some prov)
      have "a < bd_next b \<and> bd_heap b a = heap a" if "a \<in> set (pe_Credentials prov)" for a
        using assms(1) acc Some that mono(2,3) by (auto simp: accounted_def)
      with assms acc mono(1) st Some show ?thesis
        by (simp add: accounted_def) blast
    qed
  qed
qed

text \<open>A rebuild loses no provider silently: each one of the store is in the new table, or the read of
  its credentials failed and is reported; one without any credential is reported; and the keys in
  the table are exactly decryptions of enabled rows of that provider, never of a disabled one.\<close>

theorem rebuild_accounts:
  assumes "be_ListProviders be = Some sps" and "distinct (map sp_Slug sps)" and "sp \<in> set sps"
    and "PrepareFromStore be heap n = Some acc"
  shows "accounted be sp acc"
proof -
  have untouched: "sp_Slug s \<notin> sp_Slug ` set xs \<Longrightarrow> (case acc of (tbl, _) \<Rightarrow> tbl (sp_Slug s) = None) \<Longrightarrow>
      (case fold (provider_step be) xs acc of (tbl, _) \<Rightarrow> tbl (sp_Slug s) = None)" for s xs and acc :: "'a table"
  proof (induction xs arbitrary: acc)
    case (Cons x xs)
    have "case provider_step be x acc of (tbl, _) \<Rightarrow> tbl (sp_Slug s) = None"
      using Cons.prems by (auto simp: provider_step_def Let_def split: prod.splits option.splits)
    with Cons show ?case by simp
  qed simp
  have later: "accounted be s acc \<Longrightarrow> sp_Slug s \<notin> sp_Slug ` set xs \<Longrightarrow>
      accounted be s (fold (provider_step be) xs acc)" for s xs acc
  proof (induction xs arbitrary: acc)
    case (Cons x xs)
    have "accounted be s (provider_step be x acc)"
      by (rule accounted_later) (use Cons.prems in auto)
    from Cons.IH [OF this] Cons.prems(2) show ?case by simp
  qed simp
  obtain xs ys where split: "sps = xs @ sp # ys" using assms(3) by (meson split_list)
  let ?start = "(Map.empty, [], heap, n)"
  have "case fold (provider_step be) xs ?start of (tbl, _) \<Rightarrow> tbl (sp_Slug sp) = None"
    by (rule untouched) (use assms(2) split in auto)
  then have "accounted be sp (provider_step be sp (fold (provider_step be) xs ?start))"
    by (rule accounted_self)
  then have "accounted be sp (fold (provider_step be) ys (provider_step be sp (fold (provider_step be) xs ?start)))"
    by (rule later) (use assms(2) split in auto)
  with assms(1,4) split show ?thesis by (auto simp: PrepareFromStore_def)
qed

definition demo_backend :: "unit backend" where
  "demo_backend = \<lparr>be_ListProviders = Some [\<lparr>sp_ID = ''p1'', sp_Slug = ''acme'', sp_Name = ''Acme'',
       sp_Protocol = ''openai-chat'', sp_Endpoint = '''', sp_Enabled = True, sp_TimeoutMs = 0, sp_MaxRetries = 0,
       sp_NetworkID = '''', sp_ProxyURL = ''''\<rparr>],
     be_ListCredentials = (\<lambda>_. Some [\<lparr>sc_ID = ''c1'', sc_Label = ''bad'', sc_APIKeyEnc = ''x'', sc_Enabled = True,
         sc_Weight = 1, sc_Status = ''healthy'', sc_CooldownUntil = 0\<rparr>,
       \<lparr>sc_ID = ''c2'', sc_Label = ''good'', sc_APIKeyEnc = ''y'', sc_Enabled = True, sc_Weight = 1,
         sc_Status = ''healthy'', sc_CooldownUntil = 0\<rparr>]),
     be_decrypt = (\<lambda>e. if e = ''x'' then None else Some e), be_proxyParses = (\<lambda>_. True),
     be_detect = (\<lambda>_ _. None), be_newClient = (\<lambda>_ _. Some ()), be_upstreamTimeout = minute\<rparr>"

theorem rebuild_accounts_witness:
  "accounted demo_backend (hd (the (be_ListProviders demo_backend)))
     (the (PrepareFromStore demo_backend (pl_heap demo_creds) 2))"
proof -
  have "be_ListProviders demo_backend = Some (the (be_ListProviders demo_backend))"
    "distinct (map sp_Slug (the (be_ListProviders demo_backend)))"
    by (simp_all add: demo_backend_def)
  moreover have "PrepareFromStore demo_backend (pl_heap demo_creds) 2 =
      Some (the (PrepareFromStore demo_backend (pl_heap demo_creds) 2))"
    by (simp add: PrepareFromStore_def demo_backend_def)
  moreover have "hd (the (be_ListProviders demo_backend)) \<in> set (the (be_ListProviders demo_backend))"
    by (simp add: demo_backend_def)
  ultimately show ?thesis
    by (intro rebuild_accounts)
qed

text \<open>A provider that can serve is nevertheless listed among the failures when one of its keys does
  not decrypt: the list of failures does not mean that a provider is not ready.\<close>

theorem ready_provider_reported:
  "case PrepareFromStore demo_backend heap n of
     Some (tbl, fails, _, _) \<Rightarrow>
       (\<exists>prov. tbl ''acme'' = Some prov \<and> pe_Credentials prov \<noteq> []) \<and>
       (\<exists>f \<in> set fails. pf_Slug f = ''acme'' \<and> pf_Stage f = Decrypt)
   | None \<Rightarrow> False"
  by (simp add: PrepareFromStore_def demo_backend_def provider_step_def credential_step_def
      buildClient_def new_entry_def failure_of_def Normalize_def trim_space_def is_space_def Let_def)

end
