(* ===== verification/Float64.thy ===== *)
theory Float64
  imports Prelude "HOL-Library.Log_Nat"
begin

text \<open>
  Go's \<open>float64\<close> where the sources use it, for money: the finite IEEE 754 doubles are rational
  numbers, an arithmetic operation is the exact one followed by rounding to the nearest double, ties
  to even. Overflow (magnitudes of about \<open>2 ^ 1024\<close>), NaN and the sign of zero are left out: prices,
  token counts and their products are far below. \<open>math.Round\<close> and \<open>math.Floor\<close> are exact.
\<close>

section \<open>Rounding to a grid\<close>

definition round_even :: "rat \<Rightarrow> int" where
  "round_even q =
     (let n = \<lfloor>q\<rfloor>; r = q - of_int n in
      if r < 1 / 2 then n else if r > 1 / 2 then n + 1 else if even n then n else n + 1)"

text \<open>\<open>binary_exponent q\<close> is the \<open>e\<close> with \<open>2 ^ e \<le> q < 2 ^ (e + 1)\<close>, for positive \<open>q\<close>.\<close>

definition pow2 :: "int \<Rightarrow> rat" where
  "pow2 e = (if 0 \<le> e then 2 ^ nat e else 1 / 2 ^ nat (- e))"

definition binary_exponent :: "rat \<Rightarrow> int" where
  "binary_exponent q =
     (case quotient_of q of (a, b) \<Rightarrow>
       (let e = int (floorlog 2 (nat a)) - int (floorlog 2 (nat b)) in
        if pow2 e \<le> q then e else e - 1))"

definition unit_place :: "rat \<Rightarrow> rat" where
  "unit_place q = pow2 (max (binary_exponent q - 52) (- 1074))"

definition f64_pos :: "rat \<Rightarrow> rat" where
  "f64_pos q = of_int (round_even (q / unit_place q)) * unit_place q"

definition f64 :: "rat \<Rightarrow> rat" where
  "f64 q = (if q = 0 then 0 else if q < 0 then - f64_pos (- q) else f64_pos q)"

definition fadd :: "rat \<Rightarrow> rat \<Rightarrow> rat" where "fadd x y = f64 (x + y)"
definition fsub :: "rat \<Rightarrow> rat \<Rightarrow> rat" where "fsub x y = f64 (x - y)"
definition fmul :: "rat \<Rightarrow> rat \<Rightarrow> rat" where "fmul x y = f64 (x * y)"
definition fdiv :: "rat \<Rightarrow> rat \<Rightarrow> rat" where "fdiv x y = f64 (x / y)"

text \<open>\<open>math.Round\<close>: to the nearest integer, halves away from zero.\<close>

definition go_round :: "rat \<Rightarrow> int" where
  "go_round q = (if q < 0 then - \<lfloor>- q + 1 / 2\<rfloor> else \<lfloor>q + 1 / 2\<rfloor>)"

lemmas float_ops = fadd_def fsub_def fmul_def fdiv_def

section \<open>Facts\<close>

lemma pow2_pos [simp]: "0 < pow2 e"
  by (simp add: pow2_def)

lemma pow2_nonzero [simp]: "pow2 e \<noteq> 0"
  using pow2_pos [of e] by (metis less_irrefl)

lemma pow2_add_one: "pow2 (e + 1) = 2 * pow2 e"
proof (cases "0 \<le> e")
  case True
  then show ?thesis by (simp add: pow2_def nat_add_distrib)
next
  case False
  then have "nat (- e) = Suc (nat (- (e + 1)))" by simp
  with False show ?thesis by (auto simp: pow2_def)
qed

lemma pow2_add_nat: "pow2 (e + int n) = 2 ^ n * pow2 e"
proof (induction n)
  case (Suc n)
  have "e + int (Suc n) = (e + int n) + 1" by simp
  then have "pow2 (e + int (Suc n)) = pow2 ((e + int n) + 1)" by (simp only:)
  with Suc show ?case by (simp add: pow2_add_one)
qed simp

lemma pow2_diff: "d \<le> e \<Longrightarrow> pow2 e = 2 ^ nat (e - d) * pow2 d"
  using pow2_add_nat [of d "nat (e - d)"] by simp

lemma pow2_mono: "d \<le> e \<Longrightarrow> pow2 d \<le> pow2 e"
  by (simp add: pow2_diff [of d e])

lemma round_even_of_int [simp]: "round_even (of_int n) = n"
  by (simp add: round_even_def)

lemma round_even_bounds: "\<lfloor>q\<rfloor> \<le> round_even q \<and> round_even q \<le> \<lfloor>q\<rfloor> + 1"
  by (simp add: round_even_def Let_def)

lemma round_even_mono: "x \<le> y \<Longrightarrow> round_even x \<le> round_even y"
proof -
  assume xy: "x \<le> y"
  show ?thesis
  proof (cases "\<lfloor>x\<rfloor> = \<lfloor>y\<rfloor>")
    case True
    with xy show ?thesis by (auto simp: round_even_def Let_def)
  next
    case False
    with xy have "\<lfloor>x\<rfloor> + 1 \<le> \<lfloor>y\<rfloor>" using floor_mono [OF xy] by simp
    then show ?thesis using round_even_bounds [of x] round_even_bounds [of y] by linarith
  qed
qed

lemma floorlog_pow2:
  assumes "0 < n"
  shows "pow2 (int (floorlog 2 (nat n)) - 1) \<le> of_int n" and "of_int n < pow2 (int (floorlog 2 (nat n)))"
proof -
  have k: "0 < floorlog 2 (nat n)" using assms by (simp add: floorlog_def)
  have b: "2 ^ (floorlog 2 (nat n) - 1) \<le> nat n" "nat n < 2 ^ floorlog 2 (nat n)"
    using floorlog_bounds [of "nat n" 2] assms by simp_all
  have "(2 :: rat) ^ (floorlog 2 (nat n) - 1) \<le> of_nat (nat n)"
    using b(1) by (metis of_nat_le_iff of_nat_numeral of_nat_power)
  then show "pow2 (int (floorlog 2 (nat n)) - 1) \<le> of_int n"
    using assms k by (simp add: pow2_def nat_diff_distrib of_nat_diff)
  have "of_nat (nat n) < (2 :: rat) ^ floorlog 2 (nat n)"
    using b(2) by (metis of_nat_less_iff of_nat_numeral of_nat_power)
  then show "of_int n < pow2 (int (floorlog 2 (nat n)))"
    using assms by (simp add: pow2_def)
qed

lemma pow2_div: "pow2 a / pow2 b = pow2 (a - b)"
proof (cases "b \<le> a")
  case True
  then show ?thesis by (simp add: pow2_diff [of b a] pow2_def [of "a - b"])
next
  case False
  then have "pow2 b = 2 ^ nat (b - a) * pow2 a" by (simp add: pow2_diff)
  then show ?thesis using False by (simp add: pow2_def [of "a - b"])
qed

lemma exponent_bounds:
  assumes "0 < q"
  shows "pow2 (binary_exponent q) \<le> q" and "q < pow2 (binary_exponent q + 1)"
proof -
  obtain a b where ab: "quotient_of q = (a, b)" by (cases "quotient_of q")
  have q: "q = of_int a / of_int b" using ab by (rule quotient_of_div)
  have b: "0 < b" using ab by (rule quotient_of_denom_pos)
  have a: "0 < a" using assms q b by (simp add: zero_less_divide_iff)
  let ?i = "int (floorlog 2 (nat a))" and ?j = "int (floorlog 2 (nat b))"
  have "pow2 (?i - 1) / pow2 ?j \<le> of_int a / of_int b"
    using floorlog_pow2 [OF a] floorlog_pow2 [OF b] a b
    by (intro frac_le) (simp_all add: less_imp_le)
  then have low: "pow2 (?i - ?j - 1) \<le> q" by (simp add: pow2_div q diff_diff_eq add.commute)
  have "of_int a / of_int b < pow2 ?i / pow2 (?j - 1)"
    using floorlog_pow2 [OF a] floorlog_pow2 [OF b] a b
    by (intro frac_less) simp_all
  then have high: "q < pow2 (?i - ?j + 1)" by (simp add: pow2_div q algebra_simps)
  show "pow2 (binary_exponent q) \<le> q" "q < pow2 (binary_exponent q + 1)"
    using low high by (auto simp: binary_exponent_def ab Let_def)
qed

lemma exponent_mono: "0 < x \<Longrightarrow> x \<le> y \<Longrightarrow> binary_exponent x \<le> binary_exponent y"
proof (rule ccontr)
  assume a: "0 < x" "x \<le> y" "\<not> binary_exponent x \<le> binary_exponent y"
  then have "pow2 (binary_exponent y + 1) \<le> pow2 (binary_exponent x)" by (intro pow2_mono) simp
  with a exponent_bounds [of x] exponent_bounds [of y] show False by simp
qed

lemma unit_pos [simp]: "0 < unit_place q"
  by (simp add: unit_place_def)

lemma f64_pos_mono:
  assumes "0 < x" "x \<le> y"
  shows "f64_pos x \<le> f64_pos y"
proof -
  let ?mx = "max (binary_exponent x - 52) (- 1074)" and ?my = "max (binary_exponent y - 52) (- 1074)"
  let ?e = "binary_exponent y"
  have le: "?mx \<le> ?my" using exponent_mono [OF assms] by linarith
  show ?thesis
  proof (cases "?mx = ?my")
    case True
    then have "unit_place x = unit_place y" by (simp add: unit_place_def)
    then show ?thesis
      using assms by (simp add: f64_pos_def mult_right_mono round_even_mono divide_right_mono less_imp_le)
  next
    case False
    with le have my: "?my = ?e - 52" and mx: "?mx < ?e - 52" by linarith+
    have x_top: "x \<le> pow2 ?e"
    proof -
      have "x < pow2 (binary_exponent x + 1)" using exponent_bounds(2) assms(1) by blast
      also have "\<dots> \<le> pow2 ?e" using mx by (intro pow2_mono) linarith
      finally show ?thesis by simp
    qed
    have ex: "pow2 ?e = of_int (2 ^ nat (?e - ?mx)) * unit_place x"
      using mx by (simp add: unit_place_def pow2_diff [of ?mx ?e])
    then have "x / unit_place x \<le> of_int (2 ^ nat (?e - ?mx))"
      using x_top by (simp add: pos_divide_le_eq)
    then have "round_even (x / unit_place x) \<le> 2 ^ nat (?e - ?mx)"
      using round_even_mono round_even_of_int by metis
    then have "f64_pos x \<le> pow2 ?e"
      unfolding f64_pos_def ex by (intro mult_right_mono) (simp_all add: less_imp_le del: of_int_power)
    moreover have ey: "pow2 ?e = of_int (2 ^ 52) * unit_place y"
      using pow2_diff [of "?e - 52" ?e] by (simp add: unit_place_def my)
    have "of_int (2 ^ 52) \<le> y / unit_place y"
      using exponent_bounds(1) [of y] assms ey by (simp add: pos_le_divide_eq)
    then have "2 ^ 52 \<le> round_even (y / unit_place y)"
      using round_even_mono round_even_of_int by metis
    then have "pow2 ?e \<le> f64_pos y"
      unfolding f64_pos_def ey by (intro mult_right_mono) (simp_all add: less_imp_le del: of_int_power of_int_numeral)
    ultimately show ?thesis by simp
  qed
qed

lemma f64_pos_nonneg: "0 < q \<Longrightarrow> 0 \<le> f64_pos q"
proof -
  assume "0 < q"
  then have "of_int 0 \<le> q / unit_place q" by (simp add: less_imp_le)
  then have "0 \<le> round_even (q / unit_place q)"
    using round_even_mono round_even_of_int by metis
  then show ?thesis by (simp add: f64_pos_def less_imp_le)
qed

lemma f64_mono: "x \<le> y \<Longrightarrow> f64 x \<le> f64 y"
  using f64_pos_mono [of x y] f64_pos_mono [of "- y" "- x"] f64_pos_nonneg [of "- x"] f64_pos_nonneg [of y]
  by (auto simp: f64_def)

text \<open>A double stays what it is.\<close>

lemma f64_grid: "0 < v \<Longrightarrow> v = of_int m * unit_place v \<Longrightarrow> f64 v = v"
proof -
  assume v: "0 < v" "v = of_int m * unit_place v"
  have "unit_place v \<noteq> 0" using unit_pos [of v] by (metis less_irrefl)
  then have "v / unit_place v = of_int m" using v(2) by (metis nonzero_mult_div_cancel_right)
  then have "round_even (v / unit_place v) = m" by simp
  with v show ?thesis by (simp add: f64_def f64_pos_def)
qed

lemma exponent_unique: "pow2 e \<le> v \<Longrightarrow> v < pow2 (e + 1) \<Longrightarrow> binary_exponent v = e"
proof -
  assume a: "pow2 e \<le> v" "v < pow2 (e + 1)"
  have v: "0 < v" using a(1) pow2_pos [of e] by linarith
  have "binary_exponent v < e + 1"
    using exponent_bounds(1) [OF v] a(2) pow2_mono [of "e + 1" "binary_exponent v"] by linarith
  moreover have "e < binary_exponent v + 1"
    using exponent_bounds(2) [OF v] a(1) pow2_mono [of "binary_exponent v + 1" e] by linarith
  ultimately show ?thesis by simp
qed

lemma f64_pow2: "- 1074 \<le> x \<Longrightarrow> f64 (pow2 x) = pow2 x"
proof -
  assume x: "- 1074 \<le> x"
  have ex: "binary_exponent (pow2 x) = x"
    by (rule exponent_unique) (simp_all add: pow2_add_one)
  have "max (x - 52) (- 1074) \<le> x" using x by linarith
  have unit: "unit_place (pow2 x) = pow2 (max (x - 52) (- 1074))"
    by (simp only: unit_place_def ex)
  have "pow2 x = of_int (2 ^ nat (x - max (x - 52) (- 1074))) * unit_place (pow2 x)"
    unfolding unit of_int_power of_int_numeral by (rule pow2_diff) (use x in linarith)
  with pow2_pos show ?thesis by (rule f64_grid)
qed

lemma f64_pos_idem:
  assumes "0 < q" shows "f64 (f64_pos q) = f64_pos q"
proof (cases "f64_pos q = 0")
  case True
  then show ?thesis by (simp add: f64_def)
next
  case False
  let ?v = "f64_pos q" and ?e = "binary_exponent q"
  let ?m = "max (?e - 52) (- 1074)"
  have v: "0 < ?v" using False f64_pos_nonneg [OF assms] by simp
  have top: "pow2 (max (?e + 1) ?m) = of_int (2 ^ nat (max (?e + 1) ?m - ?m)) * unit_place q"
    by (simp add: unit_place_def pow2_diff [of ?m "max (?e + 1) ?m"])
  have "q \<le> pow2 (max (?e + 1) ?m)"
    using exponent_bounds(2) [OF assms] pow2_mono [of "?e + 1" "max (?e + 1) ?m"] by linarith
  then have "q / unit_place q \<le> of_int (2 ^ nat (max (?e + 1) ?m - ?m))"
    unfolding top by (simp add: pos_divide_le_eq)
  then have "round_even (q / unit_place q) \<le> 2 ^ nat (max (?e + 1) ?m - ?m)"
    using round_even_mono round_even_of_int by metis
  then have le: "?v \<le> pow2 (max (?e + 1) ?m)"
    unfolding f64_pos_def top by (intro mult_right_mono) (simp_all add: less_imp_le del: of_int_power)
  have unit_le: "\<exists>n. unit_place q = 2 ^ n * unit_place ?v" if "binary_exponent ?v \<le> max ?e (- 1023)"
  proof -
    have "max (binary_exponent ?v - 52) (- 1074) \<le> ?m" using that by linarith
    from pow2_diff [OF this] show ?thesis unfolding unit_place_def by blast
  qed
  show ?thesis
  proof (cases "?v < pow2 (max (?e + 1) ?m)")
    case True
    then have "pow2 (binary_exponent ?v) < pow2 (max (?e + 1) ?m)"
      using exponent_bounds(1) [OF v] by linarith
    then have "binary_exponent ?v < max (?e + 1) ?m"
      using pow2_mono [of "max (?e + 1) ?m" "binary_exponent ?v"] by linarith
    then obtain n where "unit_place q = 2 ^ n * unit_place ?v"
      using unit_le by fastforce
    then have "?v = of_int (round_even (q / unit_place q) * 2 ^ n) * unit_place ?v"
      by (subst f64_pos_def) simp
    with v show ?thesis by (rule f64_grid)
  next
    case False
    with le have eq: "?v = pow2 (max (?e + 1) ?m)" by simp
    show ?thesis unfolding eq by (rule f64_pow2) linarith
  qed
qed

lemma f64_idem [simp]: "f64 (f64 q) = f64 q"
proof -
  have neg: "f64 (- v) = - f64 v" for v
    by (auto simp: f64_def)
  consider "q = 0" | "0 < q" | "q < 0" by linarith
  then show ?thesis
  proof cases
    case 1
    then show ?thesis by (simp add: f64_def)
  next
    case 2
    then have "f64 q = f64_pos q" by (simp add: f64_def)
    then show ?thesis using f64_pos_idem [OF 2] by simp
  next
    case 3
    then have "f64 q = - f64_pos (- q)" by (simp add: f64_def)
    then show ?thesis using f64_pos_idem [of "- q"] 3 neg by simp
  qed
qed

text \<open>Integers of at most 53 bits are doubles.\<close>

lemma f64_of_int:
  assumes "0 \<le> n" "n < 2 ^ 53"
  shows "f64 (of_int n) = of_int n"
proof (cases "n = 0")
  case False
  let ?q = "of_int n :: rat"
  have pos: "0 < ?q" using assms(1) False by simp
  let ?e = "binary_exponent ?q"
  have "pow2 0 < pow2 (?e + 1)"
    using exponent_bounds(2) [OF pos] pos assms(1) False by (simp add: pow2_def)
  then have e0: "0 \<le> ?e" using pow2_mono [of "?e + 1" 0] by (cases "0 \<le> ?e") auto
  have "pow2 ?e < pow2 53"
    using exponent_bounds(1) [OF pos] assms(2) by (simp add: pow2_def)
  then have e1: "?e \<le> 52" using pow2_mono [of 53 ?e] by (cases "?e \<le> 52") auto
  have unit: "unit_place ?q = 1 / 2 ^ nat (52 - ?e)"
    using e0 e1 by (auto simp: unit_place_def pow2_def)
  then have "?q / unit_place ?q = of_int (n * 2 ^ nat (52 - ?e))" by simp
  then have "round_even (?q / unit_place ?q) = n * 2 ^ nat (52 - ?e)"
    by (metis round_even_of_int)
  then show ?thesis using pos unit by (simp add: f64_def f64_pos_def)
qed (simp add: f64_def)

lemma go_round_mono: "x \<le> y \<Longrightarrow> go_round x \<le> go_round y"
proof -
  assume xy: "x \<le> y"
  consider "y < 0" | "x < 0" "0 \<le> y" | "0 \<le> x" using xy by linarith
  then show ?thesis
  proof cases
    case 1
    then show ?thesis using xy by (simp add: go_round_def floor_mono)
  next
    case 2
    then have "0 \<le> \<lfloor>- x + 1 / 2\<rfloor>" "0 \<le> \<lfloor>y + 1 / 2\<rfloor>" by simp_all
    then have "go_round x \<le> 0" "0 \<le> go_round y"
      using 2 unfolding go_round_def by (simp_all only: if_P if_not_P not_less neg_le_0_iff_le)
    then show ?thesis by simp
  next
    case 3
    then show ?thesis using xy by (simp add: go_round_def floor_mono)
  qed
qed

lemma go_round_zero [simp]: "go_round 0 = 0"
  by code_simp

lemma go_round_nonneg: "0 \<le> q \<Longrightarrow> 0 \<le> go_round q"
  using go_round_mono [of 0 q] by simp

section \<open>What money arithmetic relies on\<close>

locale rounding =
  fixes fl :: "rat \<Rightarrow> rat"
  assumes mono: "x \<le> y \<Longrightarrow> fl x \<le> fl y"
    and zero: "fl 0 = 0"
begin

lemma nonneg: "0 \<le> x \<Longrightarrow> 0 \<le> fl x"
  using mono [of 0 x] zero by simp

lemma prod_mono: "0 \<le> a \<Longrightarrow> a \<le> b \<Longrightarrow> 0 \<le> c \<Longrightarrow> c \<le> d \<Longrightarrow> fl (a * c) \<le> fl (b * d)"
  by (intro mono mult_mono) simp_all

lemma sum_mono: "a \<le> b \<Longrightarrow> c \<le> d \<Longrightarrow> fl (a + c) \<le> fl (b + d)"
  by (intro mono add_mono)

lemma sum_ge_right: "0 \<le> a \<Longrightarrow> fl c \<le> fl (a + c)"
  by (intro mono) simp

end

interpretation f64: rounding f64
  by unfold_locales (rule f64_mono, simp_all add: f64_def)

end
