(* ===== verification/Pricing.thy ===== *)
theory Pricing
  imports Float64 Routing
begin

text \<open>
  \<^verbatim>\<open>internal/store/pricing.go\<close>, the conversions of \<^verbatim>\<open>internal/store/balance_dao.go\<close> and
  \<^verbatim>\<open>internal/billing/billing.go\<close>: the one price formula, the upper bound of the balance check, and
  its verdict. Amounts in yuan are \<open>float64\<close> values (\<open>Float64\<close>, without fused multiply-add), stored
  amounts are integers.
\<close>

section \<open>Prices\<close>

record prices =
  px_Input :: rat
  px_CacheHit :: rat
  px_CacheCreation :: rat
  px_Output :: rat

definition PriceUnitDivisor :: rat where "PriceUnitDivisor = 1000000"

definition Priced :: "prices \<Rightarrow> bool" where
  "Priced p \<longleftrightarrow> px_Input p > 0 \<or> px_CacheHit p > 0 \<or> px_CacheCreation p > 0 \<or> px_Output p > 0"

definition EffectivePrices :: "prices \<Rightarrow> prices \<times> bool" where
  "EffectivePrices p =
     (if \<not> Priced p then (\<lparr>px_Input = 0, px_CacheHit = 0, px_CacheCreation = 0, px_Output = 0\<rparr>, False)
      else
       (let inp = px_Input p;
            inp = (if inp \<le> 0 then
                     (let inp = px_Output p;
                          inp = (if inp \<le> 0 then px_CacheHit p else inp);
                          inp = (if inp \<le> 0 then px_CacheCreation p else inp) in inp)
                   else inp);
            hit = (if px_CacheHit p \<le> 0 then inp else px_CacheHit p);
            creation = (if px_CacheCreation p \<le> 0 then inp else px_CacheCreation p);
            out = (if px_Output p \<le> 0 then inp else px_Output p)
        in (\<lparr>px_Input = inp, px_CacheHit = hit, px_CacheCreation = creation, px_Output = out\<rparr>, True)))"

text \<open>The rounding to \<open>1e-9\<close> yuan at the end of the formula.\<close>

definition nano_round :: "rat \<Rightarrow> rat" where
  "nano_round tot =
     (if tot \<noteq> 0 then fdiv (of_int (go_round (fmul tot 1000000000))) 1000000000 else tot)"

definition PriceUsage :: "rat \<Rightarrow> rat \<Rightarrow> rat \<Rightarrow> rat \<Rightarrow> rat \<Rightarrow> rat \<Rightarrow> rat \<Rightarrow> rat \<Rightarrow> rat" where
  "PriceUsage priceInput priceCacheHit priceCacheCreation priceOutput
     inputTokens cachedTokens cachedCreationTokens outputTokens =
     (let uncached = fsub (fsub inputTokens cachedTokens) cachedCreationTokens;
          uncached = (if uncached < 0 then 0 else uncached);
          hit = (if priceCacheHit \<le> 0 then priceInput else priceCacheHit);
          creation = (if priceCacheCreation \<le> 0 then priceInput else priceCacheCreation);
          tot = fdiv (fadd (fadd (fadd (fmul uncached priceInput) (fmul cachedTokens hit))
                          (fmul cachedCreationTokens creation)) (fmul outputTokens priceOutput)) PriceUnitDivisor
      in nano_round tot)"

definition PriceUsageWithPrices :: "prices \<Rightarrow> rat \<Rightarrow> rat \<Rightarrow> rat \<Rightarrow> rat \<Rightarrow> rat" where
  "PriceUsageWithPrices p inputTokens cachedTokens cachedCreationTokens outputTokens =
     (case EffectivePrices p of (eff, priced) \<Rightarrow>
       if \<not> priced then 0
       else PriceUsage (px_Input eff) (px_CacheHit eff) (px_CacheCreation eff) (px_Output eff)
              inputTokens cachedTokens cachedCreationTokens outputTokens)"

definition EstimateUpperBoundCost :: "prices \<Rightarrow> int \<Rightarrow> int \<Rightarrow> rat" where
  "EstimateUpperBoundCost p inputTokens maxOutputTokens =
     (case EffectivePrices p of (eff, priced) \<Rightarrow>
       if \<not> priced then 0
       else
        (let inputTokens = (if inputTokens < 0 then 0 else inputTokens);
             maxOutputTokens = (if maxOutputTokens < 0 then 0 else maxOutputTokens);
             inputPrice = px_Input eff;
             inputPrice = (if px_CacheHit eff > inputPrice then px_CacheHit eff else inputPrice);
             inputPrice = (if px_CacheCreation eff > inputPrice then px_CacheCreation eff else inputPrice)
         in fdiv (fadd (fmul (f64 (of_int inputTokens)) inputPrice)
                       (fmul (f64 (of_int maxOutputTokens)) (px_Output eff))) PriceUnitDivisor))"

section \<open>Yuan, cents and micro-yuan\<close>

definition YuanToCents :: "rat \<Rightarrow> int" where
  "YuanToCents yuan = (if yuan \<le> 0 then 0 else go_round (fmul yuan 100))"

abbreviation (input) MicrosPerCent :: int where "MicrosPerCent \<equiv> 10000"

definition YuanToMicros :: "rat \<Rightarrow> int" where
  "YuanToMicros yuan =
     (if yuan \<le> 0 then 0
      else (let micros = go_round (fmul yuan 1000000) in if micros < 1 then 1 else micros))"

section \<open>The balance check\<close>

definition RoleAdmin :: string where "RoleAdmin = ''admin''"

definition IsBalanceExempt :: "string \<Rightarrow> bool" where
  "IsBalanceExempt role \<longleftrightarrow> role = RoleAdmin"

definition prices_of :: "upstream_model \<Rightarrow> prices" where
  "prices_of m = \<lparr>px_Input = um_PriceInput m, px_CacheHit = um_PriceCacheHit m,
     px_CacheCreation = um_PriceCacheCreation m, px_Output = um_PriceOutput m\<rparr>"

definition estimateBalanceCostWithInput :: "int \<Rightarrow> upstream_model \<Rightarrow> int \<Rightarrow> int" where
  "estimateBalanceCostWithInput reqMaxOutputTokens m inTokens =
     (let maxOut = (if reqMaxOutputTokens \<le> 0 then um_MaxOutputTokens m else reqMaxOutputTokens)
      in YuanToCents (EstimateUpperBoundCost (prices_of m) inTokens maxOut))"

text \<open>A candidate without a model is skipped (\<open>None\<close>).\<close>

fun estimate_chain :: "int \<Rightarrow> int \<Rightarrow> int \<Rightarrow> upstream_model option list \<Rightarrow> int" where
  "estimate_chain reqMax inTokens mx [] = mx"
| "estimate_chain reqMax inTokens mx (None # cs) = estimate_chain reqMax inTokens mx cs"
| "estimate_chain reqMax inTokens mx (Some m # cs) =
     (let e = estimateBalanceCostWithInput reqMax m inTokens
      in estimate_chain reqMax inTokens (if e > mx then e else mx) cs)"

definition EstimateBalanceCostChain :: "int \<Rightarrow> int \<Rightarrow> upstream_model option list \<Rightarrow> int" where
  "EstimateBalanceCostChain reqMax inTokens cands = estimate_chain reqMax inTokens 0 cands"

datatype verdict = AllowCall | RejectCall

abbreviation (input) MinSubcentSpendableCents :: int where "MinSubcentSpendableCents \<equiv> 100"

definition Preflight :: "int \<Rightarrow> int \<Rightarrow> bool \<Rightarrow> bool \<Rightarrow> bool \<Rightarrow> verdict" where
  "Preflight estCents balanceCents unlimited exempt priced =
     (if exempt \<or> unlimited then AllowCall
      else if estCents \<le> 0 then
        (if \<not> priced then AllowCall
         else if balanceCents \<ge> MinSubcentSpendableCents then AllowCall else RejectCall)
      else if balanceCents \<ge> estCents then AllowCall else RejectCall)"

fun ChainHasPricedModel :: "upstream_model option list \<Rightarrow> bool" where
  "ChainHasPricedModel [] = False"
| "ChainHasPricedModel (None # cs) = ChainHasPricedModel cs"
| "ChainHasPricedModel (Some m # cs) = (if Priced (prices_of m) then True else ChainHasPricedModel cs)"

section \<open>Effective prices\<close>

lemmas price_defs = EffectivePrices_def Priced_def Let_def

text \<open>As soon as one of the four prices is set, no kind of token is free: every effective price is
  positive, a configured price stays what it is, and a missing one is one of those configured. With
  no price set the model is unpriced, and every usage of it costs nothing.\<close>

theorem effective_prices_positive:
  "snd (EffectivePrices p) = Priced p \<and>
    (if Priced p then
       (\<forall>f \<in> set [px_Input, px_CacheHit, px_CacheCreation, px_Output].
          0 < f (fst (EffectivePrices p)) \<and>
          f (fst (EffectivePrices p)) = (if 0 < f p then f p else f (fst (EffectivePrices p))) \<and>
          f (fst (EffectivePrices p)) \<in> {px_Input p, px_CacheHit p, px_CacheCreation p, px_Output p})
     else PriceUsageWithPrices p i c w out = 0 \<and> EstimateUpperBoundCost p n k = 0)"
  by (cases "Priced p")
    (auto simp: PriceUsageWithPrices_def EstimateUpperBoundCost_def price_defs)

theorem effective_prices_positive_witness:
  "0 < px_CacheHit (fst (EffectivePrices \<lparr>px_Input = 2, px_CacheHit = 0, px_CacheCreation = 0, px_Output = 8\<rparr>)) \<and>
   px_Output (fst (EffectivePrices \<lparr>px_Input = 2, px_CacheHit = 0, px_CacheCreation = 0, px_Output = 8\<rparr>)) = 8"
  using effective_prices_positive [of "\<lparr>px_Input = 2, px_CacheHit = 0, px_CacheCreation = 0, px_Output = 8\<rparr>"]
  by (simp add: Priced_def)

text \<open>The input price that stands in for a missing one is not the most expensive configured price:
  with only an output price of 1 and a cache price of 5, uncached input is charged at 1.\<close>

theorem fallback_not_most_expensive:
  "px_Input (fst (EffectivePrices \<lparr>px_Input = 0, px_CacheHit = 5, px_CacheCreation = 0, px_Output = 1\<rparr>)) = 1"
  by (simp add: price_defs)

section \<open>Costs\<close>

lemma divisor [simp]: "PriceUnitDivisor = 1000000"
  by (simp add: PriceUnitDivisor_def)

lemma fdiv_nonneg: "0 \<le> x \<Longrightarrow> 0 \<le> y \<Longrightarrow> 0 \<le> fdiv x y"
  by (simp add: fdiv_def f64.nonneg)

lemma fmul_nonneg: "0 \<le> x \<Longrightarrow> 0 \<le> y \<Longrightarrow> 0 \<le> fmul x y"
  by (simp add: fmul_def f64.nonneg)

lemma fadd_nonneg: "0 \<le> x \<Longrightarrow> 0 \<le> y \<Longrightarrow> 0 \<le> fadd x y"
  by (simp add: fadd_def f64.nonneg)

lemma fmul_mono: "0 \<le> a \<Longrightarrow> a \<le> b \<Longrightarrow> 0 \<le> c \<Longrightarrow> c \<le> d \<Longrightarrow> fmul a c \<le> fmul b d"
  by (simp add: fmul_def f64.prod_mono)

lemma fadd_mono: "a \<le> b \<Longrightarrow> c \<le> d \<Longrightarrow> fadd a c \<le> fadd b d"
  by (simp add: fadd_def f64.sum_mono)

lemma fdiv_mono: "x \<le> y \<Longrightarrow> 0 < d \<Longrightarrow> fdiv x d \<le> fdiv y d"
  by (simp add: fdiv_def f64_mono divide_right_mono)

lemmas float_nonneg = fdiv_nonneg fmul_nonneg fadd_nonneg

lemma nano_round_nonneg: "0 \<le> t \<Longrightarrow> 0 \<le> nano_round t"
  by (simp add: nano_round_def float_nonneg go_round_nonneg)

lemma nano_round_zero: "nano_round 0 = 0"
  by (simp add: nano_round_def)

lemma nano_round_mono: "0 \<le> s \<Longrightarrow> s \<le> t \<Longrightarrow> nano_round s \<le> nano_round t"
proof (cases "s = 0")
  case True
  then show "s \<le> t \<Longrightarrow> ?thesis" by (simp add: nano_round_zero nano_round_nonneg)
next
  case False
  assume "0 \<le> s" "s \<le> t"
  moreover from this have "go_round (fmul s 1000000000) \<le> go_round (fmul t 1000000000)"
    by (intro go_round_mono fmul_mono) simp_all
  ultimately show ?thesis using False by (auto simp: nano_round_def intro!: fdiv_mono)
qed

lemma YuanToCents_mono: "x \<le> y \<Longrightarrow> YuanToCents x \<le> YuanToCents y"
  by (auto simp: YuanToCents_def intro!: go_round_mono go_round_nonneg fmul_mono fmul_nonneg)

text \<open>More tokens never cost less: for prices that are not negative the cost of a usage is at least
  zero and grows with the output tokens, and with the input tokens where nothing was cached, in the
  rounded arithmetic the code computes with.\<close>

theorem cost_monotone:
  assumes "0 \<le> pin" and "0 \<le> pout" and "0 \<le> i" and "i \<le> i'" and "0 \<le> out" and "out \<le> out'"
  shows "0 \<le> PriceUsage pin ph pc pout i 0 0 out \<and>
    PriceUsage pin ph pc pout i 0 0 out \<le> PriceUsage pin ph pc pout i' 0 0 out'"
proof -
  have z: "fmul 0 x = 0" for x by (simp add: fmul_def f64.zero)
  have u: "0 \<le> fsub (fsub x 0) 0" if "0 \<le> x" for x
    using that by (simp add: fsub_def f64.nonneg)
  have um: "fsub (fsub i 0) 0 \<le> fsub (fsub i' 0) 0"
    using assms(4) by (simp add: fsub_def f64.mono)
  let ?t = "\<lambda>i out. fdiv (fadd (fadd (fadd (fmul (fsub (fsub i 0) 0) pin) 0) 0) (fmul out pout)) 1000000"
  have eq: "PriceUsage pin ph pc pout i 0 0 out = nano_round (?t i out)" if "0 \<le> i" for i out
    using u [OF that] by (simp add: PriceUsage_def Let_def z)
  have nonneg: "0 \<le> ?t i out"
    using u [OF assms(3)] assms by (intro float_nonneg) simp_all
  have "?t i out \<le> ?t i' out'"
    using u [OF assms(3)] um assms by (intro fdiv_mono fadd_mono fmul_mono) simp_all
  then have "nano_round (?t i out) \<le> nano_round (?t i' out')"
    by (rule nano_round_mono [OF nonneg])
  moreover have "0 \<le> i'" using assms(3,4) by simp
  ultimately show ?thesis
    using eq [OF assms(3)] eq [OF \<open>0 \<le> i'\<close>] nano_round_nonneg [OF nonneg] by (simp only: simp_thms)
qed

theorem cost_monotone_witness: "PriceUsage 1 0 0 2 1000 0 0 1000 \<le> PriceUsage 1 0 0 2 2000 0 0 1000"
  by (rule cost_monotone [THEN conjunct2]) simp_all

text \<open>The balance check is an upper bound: a call that used no cache, with at most the estimated
  input and at most the output limit, costs no more than the estimate rounded as costs are, and in
  cents no more than that amount in cents.\<close>

theorem estimate_bounds_cost:
  assumes "Priced p" and "0 \<le> i" and "i \<le> inTokens" and "0 \<le> out" and "out \<le> maxOut"
    and "inTokens < 2 ^ 53" and "maxOut < 2 ^ 53"
  shows "PriceUsageWithPrices p (of_int i) 0 0 (of_int out) \<le>
      nano_round (EstimateUpperBoundCost p inTokens maxOut) \<and>
    YuanToCents (PriceUsageWithPrices p (of_int i) 0 0 (of_int out)) \<le>
      YuanToCents (nano_round (EstimateUpperBoundCost p inTokens maxOut))"
proof -
  obtain e where e: "EffectivePrices p = (e, True)"
    using assms(1) by (simp add: EffectivePrices_def Let_def)
  have pos: "0 < px_Input e" "0 < px_Output e"
    using assms(1) e by (auto simp: price_defs split: if_splits)
  let ?max = "(let ip = px_Input e; ip = (if px_CacheHit e > ip then px_CacheHit e else ip)
      in if px_CacheCreation e > ip then px_CacheCreation e else ip)"
  have mx: "px_Input e \<le> ?max" by (simp add: Let_def)
  have exact: "f64 (of_int n) = of_int n" if "0 \<le> n" "n < 2 ^ 53" for n
    using that by (rule f64_of_int)
  have i: "fsub (fsub (of_int i) 0) 0 = of_int i"
    using exact [of i] assms by (simp add: fsub_def)
  have z: "fmul 0 x = 0" "fadd x 0 = f64 x" for x by (simp_all add: fmul_def fadd_def f64.zero)
  let ?a = "fdiv (fadd (fadd (fadd (fmul (of_int i) (px_Input e)) 0) 0) (fmul (of_int out) (px_Output e))) 1000000"
  let ?b = "fdiv (fadd (fmul (of_int inTokens) ?max) (fmul (of_int maxOut) (px_Output e))) 1000000"
  have cost: "PriceUsageWithPrices p (of_int i) 0 0 (of_int out) = nano_round ?a"
    using e pos i assms(2) by (simp add: PriceUsageWithPrices_def PriceUsage_def Let_def z(1))
  have est: "EstimateUpperBoundCost p inTokens maxOut = ?b"
    using e assms exact by (simp add: EstimateUpperBoundCost_def Let_def)
  have "fadd (fadd (fmul (of_int i) (px_Input e)) 0) 0 = fmul (of_int i) (px_Input e)"
    by (simp add: fadd_def fmul_def)
  moreover have "fmul (of_int i) (px_Input e) \<le> fmul (of_int inTokens) ?max"
    using assms mx pos by (intro fmul_mono) (simp_all add: less_imp_le)
  moreover have "fmul (of_int out) (px_Output e) \<le> fmul (of_int maxOut) (px_Output e)"
    using assms pos by (intro fmul_mono) (simp_all add: less_imp_le)
  ultimately have "?a \<le> ?b"
    by (intro fdiv_mono) (simp_all only: fadd_mono zero_less_numeral)
  then have "nano_round ?a \<le> nano_round ?b"
    using pos assms by (intro nano_round_mono float_nonneg) simp_all
  then show ?thesis
    unfolding cost est by (simp add: YuanToCents_mono)
qed

theorem estimate_bounds_cost_witness:
  "YuanToCents (PriceUsageWithPrices \<lparr>px_Input = 1, px_CacheHit = 0, px_CacheCreation = 0, px_Output = 2\<rparr> (of_int 10) 0 0 (of_int 5))
     \<le> YuanToCents (nano_round (EstimateUpperBoundCost \<lparr>px_Input = 1, px_CacheHit = 0, px_CacheCreation = 0, px_Output = 2\<rparr> 20 100))"
  by (rule estimate_bounds_cost [THEN conjunct2]) (simp_all add: Priced_def)

text \<open>No positive cost is lost or negative: it is at least one micro-yuan, the amounts grow with the
  cost, and no cost, or a negative one, is nothing.\<close>

lemma YuanToMicros_pos: "0 < yuan \<Longrightarrow> 1 \<le> YuanToMicros yuan"
  by (simp add: YuanToMicros_def Let_def)

lemma YuanToMicros_zero [simp]: "yuan \<le> 0 \<Longrightarrow> YuanToMicros yuan = 0"
  by (simp add: YuanToMicros_def)

lemma YuanToMicros_nonneg [simp]: "0 \<le> YuanToMicros yuan"
  by (simp add: YuanToMicros_def Let_def)

lemma YuanToMicros_mono: "x \<le> y \<Longrightarrow> YuanToMicros x \<le> YuanToMicros y"
proof -
  assume xy: "x \<le> y"
  show ?thesis
  proof (cases "0 < x")
    case True
    then have "go_round (fmul x 1000000) \<le> go_round (fmul y 1000000)"
      using xy by (intro go_round_mono fmul_mono) simp_all
    then show ?thesis using True xy by (simp add: YuanToMicros_def Let_def)
  qed (use xy in simp)
qed

section \<open>The verdict\<close>

lemma chain_max:
  "estimate_chain reqMax inTok mx cs = fold max (map (\<lambda>m. estimateBalanceCostWithInput reqMax m inTok)
     (List.map_filter (\<lambda>x. x) cs)) mx"
  by (induction reqMax inTok mx cs rule: estimate_chain.induct) (simp_all add: max_def Let_def)

lemma fold_max_ge: "(mx :: int) \<le> fold max xs mx \<and> (\<forall>x \<in> set xs. x \<le> fold max xs mx)"
proof (induction xs arbitrary: mx)
  case (Cons x xs)
  from Cons.IH [of "max x mx"] show ?case by auto
qed simp



end
