(* ===== verification/Ledger.thy ===== *)
theory Ledger
  imports Pricing
begin

text \<open>
  \<^verbatim>\<open>internal/store/balance_dao.go\<close> and \<^verbatim>\<open>internal/store/topup_dao.go\<close>: the prepaid balances. The
  tables \<open>users\<close> (two columns), \<open>balance_charges\<close>, \<open>balance_pending\<close> and \<open>topups\<close> are one record; a
  transaction is a function on it, a rollback returns the record it started from. SQLite's single
  writer makes a transaction one step. A statement that fails for a technical reason is an oracle of
  the operation: the transaction is rolled back and the error returned.
\<close>

record account =
  ac_balance :: "int option"
  ac_remainder :: int

record pending_row =
  pn_request :: ident
  pn_user :: ident
  pn_micros :: int
  pn_ts :: int

record topup =
  tp_ID :: ident
  tp_UserID :: ident
  tp_DeltaCents :: int
  tp_BalanceAfter :: int
  tp_WasUnlimited :: bool
  tp_OperatorID :: ident
  tp_OperatorUsername :: string
  tp_Ts :: int
  tp_Remark :: string

record ledger =
  lg_users :: "ident \<rightharpoonup> account"
  lg_charges :: "ident \<times> ident \<rightharpoonup> int"
  lg_pending :: "pending_row list"
  lg_topups :: "topup list"

datatype store_error = ErrNotFound | ErrInsufficientBalance | DatabaseError | InvalidDelta

definition set_account :: "ident \<Rightarrow> account \<Rightarrow> ledger \<Rightarrow> ledger" where
  "set_account uid a l = l\<lparr>lg_users := (lg_users l)(uid \<mapsto> a)\<rparr>"

definition set_charge :: "ident \<times> ident \<Rightarrow> int \<Rightarrow> ledger \<Rightarrow> ledger" where
  "set_charge k cents l = l\<lparr>lg_charges := (lg_charges l)(k \<mapsto> cents)\<rparr>"

definition pending_key :: "pending_row \<Rightarrow> ident \<times> ident" where
  "pending_key r = (pn_request r, pn_user r)"

section \<open>Reading\<close>

text \<open>\<open>(cents, limited, error)\<close>; a missing row reads as an empty limited balance with an error.\<close>

definition BalanceOf :: "ident \<Rightarrow> bool \<Rightarrow> ledger \<Rightarrow> int \<times> bool \<times> store_error option" where
  "BalanceOf uid readFails l =
     (if readFails then (0, True, Some DatabaseError)
      else (case lg_users l uid of
              None \<Rightarrow> (0, True, Some ErrNotFound)
            | Some a \<Rightarrow> (case ac_balance a of None \<Rightarrow> (0, False, None) | Some c \<Rightarrow> (c, True, None))))"

definition BalanceRemainderOf :: "ident \<Rightarrow> bool \<Rightarrow> ledger \<Rightarrow> store_error + int" where
  "BalanceRemainderOf uid readFails l =
     (if readFails then Inl DatabaseError
      else (case lg_users l uid of None \<Rightarrow> Inl ErrNotFound | Some a \<Rightarrow> Inr (ac_remainder a)))"

definition HasSufficientBalance :: "ident \<Rightarrow> int \<Rightarrow> bool \<Rightarrow> ledger \<Rightarrow> store_error + bool" where
  "HasSufficientBalance uid amountCents readFails l =
     (case BalanceOf uid readFails l of (cents, limited, err) \<Rightarrow>
       (case err of Some e \<Rightarrow> Inl e
        | None \<Rightarrow> if \<not> limited then Inr True else Inr (cents \<ge> amountCents)))"

section \<open>Charging\<close>

definition chargeBalanceTx :: "ident \<Rightarrow> rat \<Rightarrow> ident \<Rightarrow> ledger \<Rightarrow> ledger \<times> (store_error + bool)" where
  "chargeBalanceTx uid amountYuan chargeKey l0 =
     (if chargeKey \<noteq> '''' \<and> lg_charges l0 (chargeKey, uid) \<noteq> None then (l0, Inr False)
      else
       (let l = (if chargeKey \<noteq> '''' then set_charge (chargeKey, uid) 0 l0 else l0) in
        case lg_users l uid of
          None \<Rightarrow> (l, Inl ErrNotFound)
        | Some a \<Rightarrow>
            (case ac_balance a of
               None \<Rightarrow> (l, Inr True)
             | Some balance \<Rightarrow>
                 (let remainder = ac_remainder a + YuanToMicros amountYuan;
                      l = set_account uid (a\<lparr>ac_remainder := remainder\<rparr>) l in
                  if remainder < MicrosPerCent then (l, Inr True)
                  else
                   (let cents = go_div remainder MicrosPerCent;
                        newRemainder = go_mod remainder MicrosPerCent;
                        l = set_account uid (a\<lparr>ac_remainder := newRemainder\<rparr>) l;
                        l = (if lg_charges l (chargeKey, uid) \<noteq> None
                             then set_charge (chargeKey, uid) cents l else l) in
                    if balance \<ge> cents
                    then (set_account uid (a\<lparr>ac_balance := Some (max 0 (balance - cents)),
                                             ac_remainder := newRemainder\<rparr>) l, Inr True)
                    else (l, Inl ErrInsufficientBalance))))))"

definition recordPendingRemainderTx ::
  "ident \<Rightarrow> ident \<Rightarrow> int \<Rightarrow> ident \<Rightarrow> int \<Rightarrow> ledger \<Rightarrow> ledger" where
  "recordPendingRemainderTx requestID uid micros genKey ts l =
     (if micros \<le> 0 then l
      else (let key = (if requestID = '''' then ''internal-pending-'' @ genKey else requestID) in
        if (key, uid) \<in> pending_key ` set (lg_pending l) then l
        else l\<lparr>lg_pending := lg_pending l @
                [\<lparr>pn_request = key, pn_user = uid, pn_micros = micros, pn_ts = ts\<rparr>]\<rparr>))"

definition delete_pending :: "(ident \<times> ident) set \<Rightarrow> ledger \<Rightarrow> ledger" where
  "delete_pending ks l = l\<lparr>lg_pending := filter (\<lambda>r. pending_key r \<notin> ks) (lg_pending l)\<rparr>"

text \<open>One charge inside an open transaction, between its savepoint and its release: what
  \<open>ChargeBalance\<close> and the loop of \<open>ChargeBalances\<close> have in common.\<close>

definition charge_attempt ::
  "ident \<Rightarrow> rat \<Rightarrow> ident \<Rightarrow> ident \<Rightarrow> int \<Rightarrow> ledger \<Rightarrow> ledger \<times> (store_error + unit)" where
  "charge_attempt uid amountYuan chargeKey genKey ts l =
     (case chargeBalanceTx uid amountYuan chargeKey l of
        (_, Inl ErrInsufficientBalance) \<Rightarrow>
          (recordPendingRemainderTx chargeKey uid (YuanToMicros amountYuan) genKey ts l,
           Inl ErrInsufficientBalance)
      | (l', Inl e) \<Rightarrow> (l', Inl e)
      | (l', Inr _) \<Rightarrow> (delete_pending {(chargeKey, uid)} l', Inr ()))"

definition ChargeBalance ::
  "bool \<Rightarrow> ident \<Rightarrow> int \<Rightarrow> ident \<Rightarrow> rat \<Rightarrow> ident \<Rightarrow> ledger \<Rightarrow> ledger \<times> (store_error + unit)" where
  "ChargeBalance dbFails genKey ts uid amountYuan requestID l =
     (if uid = '''' then (l, Inl ErrNotFound)
      else if amountYuan \<le> 0 then (l, Inr ())
      else if dbFails then (l, Inl DatabaseError)
      else (let chargeKey = (if requestID = '''' then genKey else requestID) in
            case charge_attempt uid amountYuan chargeKey genKey ts l of
              (l', Inl ErrInsufficientBalance) \<Rightarrow> (l', Inl ErrInsufficientBalance)
            | (l', Inl e) \<Rightarrow> (l, Inl e)
            | (l', Inr ()) \<Rightarrow> (l', Inr ())))"

record balance_charge =
  bc_UserID :: ident
  bc_AmountYuan :: rat
  bc_RequestID :: ident

text \<open>The loop of the batch: \<open>Inl\<close> aborts, \<open>Inr\<close> carries the results per record.\<close>

fun charge_loop ::
  "(nat \<Rightarrow> ident) \<Rightarrow> int \<Rightarrow> nat \<Rightarrow> balance_charge list \<Rightarrow> ledger
    \<Rightarrow> store_error + (ledger \<times> store_error option list)" where
  "charge_loop gen ts i [] l = Inr (l, [])"
| "charge_loop gen ts i (c # cs) l =
     (if bc_UserID c = '''' then
        map_sum id (\<lambda>(l', es). (l', Some ErrNotFound # es)) (charge_loop gen ts (i + 1) cs l)
      else if bc_AmountYuan c \<le> 0 then
        map_sum id (\<lambda>(l', es). (l', None # es)) (charge_loop gen ts (i + 1) cs l)
      else (let chargeKey = (if bc_RequestID c = '''' then gen i else bc_RequestID c) in
        case charge_attempt (bc_UserID c) (bc_AmountYuan c) chargeKey (gen i) ts l of
          (l', Inl ErrInsufficientBalance) \<Rightarrow>
            map_sum id (\<lambda>(l'', es). (l'', Some ErrInsufficientBalance # es)) (charge_loop gen ts (i + 1) cs l')
        | (l', Inl e) \<Rightarrow> Inl e
        | (l', Inr ()) \<Rightarrow>
            map_sum id (\<lambda>(l'', es). (l'', None # es)) (charge_loop gen ts (i + 1) cs l')))"

definition ChargeBalances ::
  "bool \<Rightarrow> (nat \<Rightarrow> ident) \<Rightarrow> int \<Rightarrow> balance_charge list \<Rightarrow> ledger
    \<Rightarrow> ledger \<times> (store_error + store_error option list)" where
  "ChargeBalances dbFails gen ts charges l =
     (if charges = [] then (l, Inr [])
      else if dbFails then (l, Inl DatabaseError)
      else (case charge_loop gen ts 0 charges l of
              Inl e \<Rightarrow> (l, Inl e)
            | Inr (l', errs) \<Rightarrow> (l', Inr errs)))"

section \<open>Settling what is owed\<close>

definition ensureUsageCompletionTx :: "ident \<Rightarrow> ident \<Rightarrow> ledger \<Rightarrow> ledger" where
  "ensureUsageCompletionTx requestID uid l =
     (if requestID = '''' \<or> uid = '''' then l
      else if lg_charges l (requestID, uid) \<noteq> None then l
      else set_charge (requestID, uid) 0 l)"

definition deletePendingRows :: "pending_row list \<Rightarrow> ledger \<Rightarrow> ledger" where
  "deletePendingRows items l = fold (\<lambda>it. delete_pending {pending_key it}) items l"

definition reduce_pending :: "pending_row \<Rightarrow> int \<Rightarrow> ledger \<Rightarrow> ledger" where
  "reduce_pending it covered l =
     l\<lparr>lg_pending := map (\<lambda>r. if pending_key r = pending_key it
          then r\<lparr>pn_micros := pn_micros r - covered\<rparr> else r) (lg_pending l)\<rparr>"

fun settle_loop :: "ident \<Rightarrow> int \<Rightarrow> pending_row list \<Rightarrow> ledger \<Rightarrow> ledger \<times> pending_row list" where
  "settle_loop uid budget [] l = (l, [])"
| "settle_loop uid budget (it # items) l =
     (if budget \<le> 0 then (l, [])
      else (let covered = (if pn_micros it > budget then budget else pn_micros it);
                budget' = budget - covered in
            if covered = pn_micros it then
              (case settle_loop uid budget' items (ensureUsageCompletionTx (pn_request it) uid l) of
                 (l', settled) \<Rightarrow> (l', it # settled))
            else settle_loop uid 0 items (reduce_pending it covered l)))"

definition owed_rows :: "ident \<Rightarrow> ledger \<Rightarrow> pending_row list" where
  "owed_rows uid l = sort_key (\<lambda>r. (pn_ts r, pn_request r)) (filter (\<lambda>r. pn_user r = uid) (lg_pending l))"

definition settlePendingForUser :: "ident \<Rightarrow> ledger \<Rightarrow> ledger \<times> int" where
  "settlePendingForUser uid l =
     (let items = owed_rows uid l; totalMicros = sum_list (map pn_micros items) in
      if items = [] \<or> totalMicros \<le> 0 then (l, 0)
      else (case lg_users l uid of
        None \<Rightarrow> (deletePendingRows items l, 0)
      | Some a \<Rightarrow>
          (case ac_balance a of
             None \<Rightarrow> (deletePendingRows items l, 0)
           | Some balance \<Rightarrow>
               (let cents = go_div totalMicros MicrosPerCent in
                if cents > 0 then
                  (let deduct = (if cents > balance then balance else cents);
                       l = (if deduct > 0
                            then set_account uid (a\<lparr>ac_balance := Some (max 0 (balance - deduct))\<rparr>) l else l) in
                   case settle_loop uid (deduct * MicrosPerCent) items l of
                     (l, settled) \<Rightarrow> (deletePendingRows settled l, deduct))
                else (deletePendingRows items
                        (fold (\<lambda>it. ensureUsageCompletionTx (pn_request it) uid) items l), 0)))))"

section \<open>Administration\<close>

definition setBalanceUnlimited :: "bool \<Rightarrow> ident \<Rightarrow> ledger \<Rightarrow> ledger \<times> (store_error + unit)" where
  "setBalanceUnlimited dbFails uid l =
     (if dbFails then (l, Inl DatabaseError)
      else (case lg_users l uid of
              None \<Rightarrow> (l, Inl ErrNotFound)
            | Some a \<Rightarrow>
                ((set_account uid (a\<lparr>ac_balance := None\<rparr>) l)
                   \<lparr>lg_pending := filter (\<lambda>r. pn_user r \<noteq> uid) (lg_pending l)\<rparr>, Inr ())))"

definition SetBalance :: "bool \<Rightarrow> ident \<Rightarrow> int \<Rightarrow> bool \<Rightarrow> ledger \<Rightarrow> ledger \<times> (store_error + unit)" where
  "SetBalance dbFails uid cents unlimited l =
     (let cents = (if cents < 0 then 0 else cents) in
      if unlimited then setBalanceUnlimited dbFails uid l
      else if dbFails then (l, Inl DatabaseError)
      else (case lg_users l uid of
              None \<Rightarrow> (l, Inl ErrNotFound)
            | Some a \<Rightarrow> (set_account uid (a\<lparr>ac_balance := Some cents\<rparr>) l, Inr ())))"

definition plus_balance :: "int option \<Rightarrow> int \<Rightarrow> int" where
  "plus_balance b delta = max 0 ((case b of None \<Rightarrow> 0 | Some c \<Rightarrow> c) + delta)"

definition AdjustBalance :: "bool \<Rightarrow> ident \<Rightarrow> int \<Rightarrow> ledger \<Rightarrow> ledger \<times> (store_error + unit)" where
  "AdjustBalance dbFails uid deltaCents l =
     (if dbFails then (l, Inl DatabaseError)
      else (case lg_users l uid of
              None \<Rightarrow> (l, Inl ErrNotFound)
            | Some a \<Rightarrow>
                (set_account uid (a\<lparr>ac_balance := Some (plus_balance (ac_balance a) deltaCents)\<rparr>) l, Inr ())))"

text \<open>\<open>insertOk\<close> and \<open>commitOk\<close> are the outcomes of the last two statements, \<open>dbFails\<close> that of the others;
  \<open>oldBalance\<close> is what the read before the transaction saw.\<close>

record topup_request =
  tr_ID :: ident
  tr_OperatorID :: ident
  tr_OperatorUsername :: string
  tr_Remark :: string
  tr_now :: int

definition AdjustBalanceWithLedger ::
  "bool \<Rightarrow> bool \<Rightarrow> bool \<Rightarrow> int option \<Rightarrow> topup_request \<Rightarrow> ident \<Rightarrow> int \<Rightarrow> ledger
    \<Rightarrow> ledger \<times> (store_error + topup)" where
  "AdjustBalanceWithLedger dbFails insertOk commitOk oldBalance tr uid deltaCents l0 =
     (if deltaCents = 0 then (l0, Inl InvalidDelta)
      else if uid = '''' then (l0, Inl ErrNotFound)
      else if dbFails then (l0, Inl DatabaseError)
      else (case lg_users l0 uid of
        None \<Rightarrow> (l0, Inl ErrNotFound)
      | Some a \<Rightarrow>
          (let after = plus_balance (ac_balance a) deltaCents;
               l = set_account uid (a\<lparr>ac_balance := Some after\<rparr>) l0 in
           case settlePendingForUser uid l of (l, settledCents) \<Rightarrow>
             (let t = \<lparr>tp_ID = tr_ID tr, tp_UserID = uid, tp_DeltaCents = deltaCents,
                       tp_BalanceAfter = after - settledCents, tp_WasUnlimited = (oldBalance = None),
                       tp_OperatorID = tr_OperatorID tr, tp_OperatorUsername = tr_OperatorUsername tr,
                       tp_Ts = tr_now tr, tp_Remark = tr_Remark tr\<rparr> in
              if \<not> insertOk then (if \<not> commitOk then (l0, Inr t) else (l, Inr t))
              else (let l = l\<lparr>lg_topups := lg_topups l @ [t]\<rparr> in
                    if \<not> commitOk then (l0, Inl DatabaseError) else (l, Inr t))))))"

section \<open>Well-formed ledgers\<close>

definition account_ok :: "account \<Rightarrow> bool" where
  "account_ok a \<longleftrightarrow> (\<forall>b. ac_balance a = Some b \<longrightarrow> 0 \<le> b) \<and> 0 \<le> ac_remainder a \<and> ac_remainder a < MicrosPerCent"

definition ledger_ok :: "ledger \<Rightarrow> bool" where
  "ledger_ok l \<longleftrightarrow>
     (\<forall>uid a. lg_users l uid = Some a \<longrightarrow> account_ok a) \<and>
     distinct (map pending_key (lg_pending l)) \<and>
     (\<forall>r \<in> set (lg_pending l). 0 < pn_micros r \<and> pn_request r \<noteq> '''' \<and> lg_charges l (pending_key r) = None)"

text \<open>What a user owes, in all and for one request; \<open>worth\<close> is what a limited user has left.\<close>

definition owed :: "ident \<Rightarrow> ledger \<Rightarrow> int" where
  "owed uid l = sum_list (map pn_micros (filter (\<lambda>r. pn_user r = uid) (lg_pending l)))"

definition due :: "ident \<times> ident \<Rightarrow> ledger \<Rightarrow> int" where
  "due k l = sum_list (map pn_micros (filter (\<lambda>r. pending_key r = k) (lg_pending l)))"

definition limited :: "ident \<Rightarrow> ledger \<Rightarrow> bool" where
  "limited uid l \<longleftrightarrow> (\<exists>a b. lg_users l uid = Some a \<and> ac_balance a = Some b)"

definition worth :: "ident \<Rightarrow> ledger \<Rightarrow> int" where
  "worth uid l = (case lg_users l uid of None \<Rightarrow> 0
     | Some a \<Rightarrow> (case ac_balance a of None \<Rightarrow> 0
         | Some b \<Rightarrow> b * MicrosPerCent - ac_remainder a - owed uid l))"

named_theorems ledger_simps "projections of ledger updates"

lemma ledger_fields [ledger_simps, simp]:
  "lg_pending (set_account uid a l) = lg_pending l" "lg_charges (set_account uid a l) = lg_charges l"
  "lg_users (set_account uid a l) = (lg_users l)(uid \<mapsto> a)"
  "lg_pending (set_charge k c l) = lg_pending l" "lg_users (set_charge k c l) = lg_users l"
  "lg_charges (set_charge k c l) = (lg_charges l)(k \<mapsto> c)"
  "lg_users (delete_pending ks l) = lg_users l" "lg_charges (delete_pending ks l) = lg_charges l"
  "lg_pending (delete_pending ks l) = filter (\<lambda>r. pending_key r \<notin> ks) (lg_pending l)"
  by (simp_all add: set_account_def set_charge_def delete_pending_def)

lemma owed_cong: "lg_pending l' = lg_pending l \<Longrightarrow> owed uid l' = owed uid l"
  by (simp add: owed_def)

lemma owed_nonneg: "ledger_ok l \<Longrightarrow> 0 \<le> owed uid l"
  unfolding owed_def by (rule sum_list_nonneg) (auto simp: ledger_ok_def)

lemma no_rows: "k \<notin> pending_key ` set rs \<Longrightarrow> filter (\<lambda>r. pending_key r = k) rs = []"
  by (auto simp: filter_empty_conv)

lemma due_absent: "k \<notin> pending_key ` set (lg_pending l) \<Longrightarrow> due k l = 0"
  by (simp add: due_def no_rows)

lemma due_present:
  assumes "distinct (map pending_key (lg_pending l))" "r \<in> set (lg_pending l)"
  shows "due (pending_key r) l = pn_micros r"
proof -
  have "filter (\<lambda>s. pending_key s = pending_key r) rs = [r]" if "distinct (map pending_key rs)" "r \<in> set rs" for rs
    using that
  proof (induction rs)
    case (Cons x xs)
    show ?case
    proof (cases "x = r")
      case True
      with Cons.prems have "filter (\<lambda>s. pending_key s = pending_key r) xs = []"
        by (auto simp: filter_empty_conv image_iff)
      with True show ?thesis by simp
    next
      case False
      with Cons show ?thesis by (auto simp: image_iff)
    qed
  qed simp
  with assms show ?thesis by (simp add: due_def)
qed

lemma due_delete: "due k (delete_pending {k} l) = 0"
  by (simp add: due_def filter_empty_conv)

lemma owed_delete: "owed uid (delete_pending {(key, uid)} l) = owed uid l - due (key, uid) l"
proof -
  have "sum_list (map pn_micros (filter (\<lambda>r. pn_user r = uid) (filter (\<lambda>r. pending_key r \<notin> {(key, uid)}) rs))) =
      sum_list (map pn_micros (filter (\<lambda>r. pn_user r = uid) rs)) -
      sum_list (map pn_micros (filter (\<lambda>r. pending_key r = (key, uid)) rs))" for rs
    by (induction rs) (auto simp: pending_key_def)
  then show ?thesis by (simp add: owed_def due_def)
qed

lemma owed_delete_other: "u \<noteq> uid \<Longrightarrow> owed u (delete_pending {(key, uid)} l) = owed u l"
proof -
  assume "u \<noteq> uid"
  then have "filter (\<lambda>r. pn_user r = u) (filter (\<lambda>r. pending_key r \<notin> {(key, uid)}) rs) =
      filter (\<lambda>r. pn_user r = u) rs" for rs
    by (induction rs) (auto simp: pending_key_def)
  then show ?thesis by (simp add: owed_def)
qed

section \<open>One charge\<close>

text \<open>What \<open>chargeBalanceTx\<close> does for a limited user whose key is not charged yet.\<close>

lemma charge_limited:
  assumes ok: "ledger_ok l" and user: "lg_users l uid = Some a" "ac_balance a = Some b"
    and key: "key \<noteq> ''''" "lg_charges l (key, uid) = None"
  shows "let m = ac_remainder a + YuanToMicros y in
    chargeBalanceTx uid y key l =
      (if m < MicrosPerCent
       then (set_account uid (a\<lparr>ac_remainder := m\<rparr>) (set_charge (key, uid) 0 l), Inr True)
       else if m div MicrosPerCent \<le> b
       then (set_account uid (a\<lparr>ac_balance := Some (b - m div MicrosPerCent), ac_remainder := m mod MicrosPerCent\<rparr>)
              (set_charge (key, uid) (m div MicrosPerCent) l), Inr True)
       else (fst (chargeBalanceTx uid y key l), Inl ErrInsufficientBalance))"
proof -
  have a: "0 \<le> ac_remainder a" using ok user(1) by (auto simp: ledger_ok_def account_ok_def)
  then have m: "0 \<le> ac_remainder a + YuanToMicros y" by simp
  show ?thesis
    using user key m
    by (auto simp: chargeBalanceTx_def Let_def set_account_def set_charge_def max_def)
qed

lemma Tx_insufficient:
  assumes "ledger_ok l" "chargeBalanceTx uid y key l = (l', Inl ErrInsufficientBalance)"
  shows "limited uid l \<and> 0 < YuanToMicros y \<and> (key \<noteq> '''' \<longrightarrow> lg_charges l (key, uid) = None)"
proof -
  have "0 < YuanToMicros y" if "lg_users l uid = Some a" "\<not> ac_remainder a + YuanToMicros y < MicrosPerCent" for a
  proof -
    have "account_ok a" using assms(1) that(1) by (auto simp: ledger_ok_def)
    with that(2) show ?thesis by (simp add: account_ok_def)
  qed
  then show ?thesis
    using assms(2) unfolding chargeBalanceTx_def Let_def limited_def
    by (auto split: if_splits option.splits)
qed

text \<open>\<open>attempt_done key uid m l\<close>: the request is accounted for, by a charge or by a debt of \<open>m\<close>.\<close>

definition attempt_done :: "ident \<Rightarrow> ident \<Rightarrow> int \<Rightarrow> ledger \<Rightarrow> bool" where
  "attempt_done key uid m l \<longleftrightarrow> lg_charges l (key, uid) \<noteq> None \<or> due (key, uid) l = m"

lemma filter_all_keep: "(\<And>x. x \<in> set xs \<Longrightarrow> P x) \<Longrightarrow> filter P xs = xs"
  by (induction xs) auto

lemma delete_absent: "k \<notin> pending_key ` set (lg_pending l) \<Longrightarrow> delete_pending {k} l = l"
proof -
  assume "k \<notin> pending_key ` set (lg_pending l)"
  then have "filter (\<lambda>r. pending_key r \<notin> {k}) (lg_pending l) = lg_pending l"
    by (intro filter_all_keep) auto
  then show ?thesis by (simp add: delete_pending_def)
qed

lemma charged_not_pending:
  "ledger_ok l \<Longrightarrow> lg_charges l k \<noteq> None \<Longrightarrow> k \<notin> pending_key ` set (lg_pending l)"
  by (auto simp: ledger_ok_def)

lemma due_pos_iff: "ledger_ok l \<Longrightarrow> due k l = 0 \<longleftrightarrow> k \<notin> pending_key ` set (lg_pending l)"
proof
  assume ok: "ledger_ok l" and none: "due k l = 0"
  show "k \<notin> pending_key ` set (lg_pending l)"
  proof
    assume "k \<in> pending_key ` set (lg_pending l)"
    then obtain r where r: "r \<in> set (lg_pending l)" "k = pending_key r" by auto
    have "due k l = pn_micros r" using due_present [of l r] ok r by (simp add: ledger_ok_def)
    moreover have "0 < pn_micros r" using ok r(1) by (simp add: ledger_ok_def)
    ultimately show False using none by simp
  qed
qed (rule due_absent)

lemma ledger_ok_account:
  "ledger_ok l \<Longrightarrow> account_ok a \<Longrightarrow> ledger_ok (set_account uid a l)"
  by (auto simp: ledger_ok_def)

lemma ledger_ok_delete: "ledger_ok l \<Longrightarrow> ledger_ok (delete_pending ks l)"
  by (auto simp: ledger_ok_def distinct_map_filter)

lemma ledger_ok_charge:
  "ledger_ok l \<Longrightarrow> k \<notin> pending_key ` set (lg_pending l) \<Longrightarrow> ledger_ok (set_charge k c l)"
  by (auto simp: ledger_ok_def)

lemma recordPending_fields [simp]:
  "lg_users (recordPendingRemainderTx key uid m g ts l) = lg_users l"
  "lg_charges (recordPendingRemainderTx key uid m g ts l) = lg_charges l"
  by (simp_all add: recordPendingRemainderTx_def Let_def)

lemma recordPending_present:
  "key \<noteq> '''' \<Longrightarrow> (key, uid) \<in> pending_key ` set (lg_pending l) \<Longrightarrow>
    recordPendingRemainderTx key uid m g ts l = l"
  by (simp add: recordPendingRemainderTx_def)

lemma recordPending_absent:
  "key \<noteq> '''' \<Longrightarrow> 0 < m \<Longrightarrow> (key, uid) \<notin> pending_key ` set (lg_pending l) \<Longrightarrow>
    lg_pending (recordPendingRemainderTx key uid m g ts l) = lg_pending l @
      [\<lparr>pn_request = key, pn_user = uid, pn_micros = m, pn_ts = ts\<rparr>]"
  by (simp add: recordPendingRemainderTx_def)

lemma recordPending_ok:
  assumes "ledger_ok l" "key \<noteq> ''''" "0 < m" "lg_charges l (key, uid) = None"
  shows "ledger_ok (recordPendingRemainderTx key uid m g ts l)"
proof (cases "(key, uid) \<in> pending_key ` set (lg_pending l)")
  case True
  with assms show ?thesis by (simp add: recordPending_present)
next
  case False
  with assms recordPending_absent [OF assms(2,3) False] show ?thesis
    by (auto simp: ledger_ok_def pending_key_def)
qed

lemma owed_record:
  assumes "ledger_ok l" "key \<noteq> ''''" "0 < m"
  shows "owed u (recordPendingRemainderTx key uid m g ts l) =
    owed u l + (if u = uid \<and> due (key, uid) l = 0 then m else 0)"
proof (cases "(key, uid) \<in> pending_key ` set (lg_pending l)")
  case True
  with assms show ?thesis by (simp add: recordPending_present due_pos_iff)
next
  case False
  with assms recordPending_absent [OF assms(2,3) False] show ?thesis
    by (auto simp: owed_def due_pos_iff)
qed

lemma due_record:
  assumes "ledger_ok l" "key \<noteq> ''''" "0 < m"
  shows "due (key, uid) (recordPendingRemainderTx key uid m g ts l) =
    (if due (key, uid) l = 0 then m else due (key, uid) l)"
proof (cases "(key, uid) \<in> pending_key ` set (lg_pending l)")
  case True
  with assms show ?thesis by (simp add: recordPending_present due_pos_iff)
next
  case False
  have "filter (\<lambda>r. pending_key r = (key, uid)) (lg_pending l) = []"
    using no_rows [OF False] .
  then show ?thesis
    using recordPending_absent [OF assms(2,3) False] by (simp add: due_def pending_key_def)
qed

text \<open>The whole attempt for a limited user: the first time it moves the user's worth by the
  micros of the charge, whether the balance covers it or not; what is already recorded of the
  request is not moved again.\<close>

lemma worth_limited:
  "lg_users l uid = Some a \<Longrightarrow> ac_balance a = Some b \<Longrightarrow>
    worth uid l = b * MicrosPerCent - ac_remainder a - owed uid l"
  by (simp add: worth_def)

lemma attempt_charged:
  assumes "ledger_ok l" "key \<noteq> ''''" "lg_charges l (key, uid) \<noteq> None"
  shows "charge_attempt uid y key g ts l = (l, Inr ())"
  using assms charged_not_pending [OF assms(1,3)]
  by (simp add: charge_attempt_def chargeBalanceTx_def delete_absent)

lemma attempt_cases:
  assumes "ledger_ok l" "lg_users l uid = Some a" "ac_balance a = Some b" "key \<noteq> ''''"
    and "lg_charges l (key, uid) = None"
  obtains (kept) "ac_remainder a + YuanToMicros y < MicrosPerCent"
      "charge_attempt uid y key g ts l = (delete_pending {(key, uid)}
         (set_account uid (a\<lparr>ac_remainder := ac_remainder a + YuanToMicros y\<rparr>) (set_charge (key, uid) 0 l)), Inr ())"
  | (paid) c r where "ac_remainder a + YuanToMicros y = c * MicrosPerCent + r" "0 \<le> r" "r < MicrosPerCent" "0 \<le> c" "c \<le> b"
      "charge_attempt uid y key g ts l = (delete_pending {(key, uid)}
         (set_account uid (a\<lparr>ac_balance := Some (b - c), ac_remainder := r\<rparr>) (set_charge (key, uid) c l)), Inr ())"
  | (short) "b * MicrosPerCent < ac_remainder a + YuanToMicros y" "0 < YuanToMicros y"
      "charge_attempt uid y key g ts l =
         (recordPendingRemainderTx key uid (YuanToMicros y) g ts l, Inl ErrInsufficientBalance)"
proof -
  define m where "m = ac_remainder a + YuanToMicros y"
  have a: "0 \<le> ac_remainder a" "ac_remainder a < MicrosPerCent"
    using assms(1,2) by (auto simp: ledger_ok_def account_ok_def)
  then have m: "0 \<le> m" by (simp add: m_def)
  note tx = charge_limited [OF assms, of y, folded m_def, unfolded Let_def]
  consider "m < MicrosPerCent" | "\<not> m < MicrosPerCent" "m div MicrosPerCent \<le> b"
    | "\<not> m < MicrosPerCent" "\<not> m div MicrosPerCent \<le> b" by blast
  then show thesis
  proof cases
    case 1
    with tx show thesis by (intro kept) (simp_all add: m_def charge_attempt_def)
  next
    case 2
    with tx m show thesis
      by (intro paid [of "m div MicrosPerCent" "m mod MicrosPerCent"])
         (simp_all add: m_def [symmetric] charge_attempt_def pos_imp_zdiv_nonneg_iff)
  next
    case 3
    obtain l' where "chargeBalanceTx uid y key l = (l', Inl ErrInsufficientBalance)"
      using 3 tx by (metis (no_types, lifting) prod.collapse)
    moreover have "b * MicrosPerCent < m" using 3 by (simp add: not_le)
    moreover have "0 < YuanToMicros y" using 3 a by (simp add: m_def)
    ultimately show thesis by (intro short) (simp_all add: m_def charge_attempt_def)
  qed
qed

lemma worth_delete:
  "worth u (delete_pending {(key, uid)} l) =
    worth u l + (if u = uid \<and> limited u l then due (key, uid) l else 0)"
proof (cases "u = uid")
  case True
  then show ?thesis
    by (auto simp: worth_def owed_delete limited_def split: option.splits)
next
  case False
  then show ?thesis by (auto simp: worth_def owed_delete_other split: option.splits)
qed

lemma due_account [simp]: "due k (set_account u a l) = due k l" "due k (set_charge c n l) = due k l"
  by (simp_all add: due_def)

lemma owed_account [simp]: "owed v (set_account u a l) = owed v l" "owed v (set_charge c n l) = owed v l"
  by (simp_all add: owed_def)

lemma limited_account [simp]:
  "limited u (set_account uid a l) = (if u = uid then ac_balance a \<noteq> None else limited u l)"
  "limited u (set_charge k c l) = limited u l"
  by (auto simp: limited_def)

lemma worth_account:
  "worth u (set_account uid a (set_charge k n l)) =
    (if u = uid then (case ac_balance a of None \<Rightarrow> 0 | Some b \<Rightarrow> b * MicrosPerCent - ac_remainder a - owed uid l)
     else worth u l)"
  by (auto simp: worth_def split: option.splits)

lemma attempt_worth:
  assumes ok: "ledger_ok l" and lim: "limited uid l" and key: "key \<noteq> ''''"
    and fresh: "lg_charges l (key, uid) = None" and y: "0 < y"
    and att: "charge_attempt uid y key g ts l = (l', res)"
  shows "ledger_ok l' \<and> (res = Inr () \<or> res = Inl ErrInsufficientBalance) \<and>
    worth u l' = (if u \<noteq> uid then worth u l
      else if res = Inr () \<or> due (key, uid) l = 0 then worth u l - YuanToMicros y + due (key, uid) l
      else worth u l) \<and>
    (res = Inr () \<longrightarrow> lg_charges l' (key, uid) \<noteq> None) \<and>
    (res \<noteq> Inr () \<longrightarrow> lg_charges l' (key, uid) = None \<and>
       due (key, uid) l' = (if due (key, uid) l = 0 then YuanToMicros y else due (key, uid) l))"
proof -
  obtain a b where ab: "lg_users l uid = Some a" "ac_balance a = Some b"
    using lim by (auto simp: limited_def)
  have a: "account_ok a" using ok ab by (auto simp: ledger_ok_def)
  have ypos: "0 < YuanToMicros y" using YuanToMicros_pos [OF y] by simp
  have w: "worth uid l = b * MicrosPerCent - ac_remainder a - owed uid l"
    by (rule worth_limited [OF ab])
  have kept_ok: "ledger_ok (delete_pending {(key, uid)} (set_account uid a' (set_charge (key, uid) c l)))"
    if "account_ok a'" for a' c
  proof -
    have "ledger_ok (set_charge (key, uid) c (delete_pending {(key, uid)} l))"
      by (rule ledger_ok_charge [OF ledger_ok_delete [OF ok]]) auto
    from ledger_ok_account [OF this that, of uid] show ?thesis
      by (simp add: ledger_ok_def set_account_def set_charge_def delete_pending_def)
  qed
  show ?thesis
    using ok ab key fresh
  proof (cases rule: attempt_cases [where y = y and g = g and ts = ts])
    case kept
    have "account_ok (a\<lparr>ac_remainder := ac_remainder a + YuanToMicros y\<rparr>)"
      using a kept(1) ypos by (simp add: account_ok_def)
    with kept att ab w show ?thesis
      by (auto simp: kept_ok worth_delete worth_account)
  next
    case (paid c r)
    have "account_ok (a\<lparr>ac_balance := Some (b - c), ac_remainder := r\<rparr>)"
      using a paid by (simp add: account_ok_def)
    with paid att ab w show ?thesis
      by (auto simp: kept_ok worth_delete worth_account left_diff_distrib)
  next
    case short
    note eqs = owed_record [OF ok key ypos, of _ uid g ts] due_record [OF ok key ypos, of uid g ts]
    with short att ab w fresh show ?thesis
      by (auto simp: recordPending_ok [OF ok key ypos fresh] eqs worth_def split: option.splits)
  qed
qed

text \<open>Users without a limit, unknown users, and the frame of an attempt.\<close>

lemma ledger_ok_book:
  assumes "ledger_ok l"
  shows "ledger_ok (delete_pending {k} (set_charge k c l))"
proof -
  have "ledger_ok (set_charge k c (delete_pending {k} l))"
    by (rule ledger_ok_charge [OF ledger_ok_delete [OF assms]]) auto
  then show ?thesis by (simp add: ledger_ok_def set_charge_def delete_pending_def)
qed

lemma attempt_unlimited:
  assumes "lg_users l uid = Some a" "ac_balance a = None" "key \<noteq> ''''"
  shows "charge_attempt uid y key g ts l =
    (delete_pending {(key, uid)} (if lg_charges l (key, uid) \<noteq> None then l else set_charge (key, uid) 0 l), Inr ())"
  using assms by (simp add: charge_attempt_def chargeBalanceTx_def)

lemma attempt_unknown:
  assumes "lg_users l uid = None" "key \<noteq> ''''" "lg_charges l (key, uid) = None"
  shows "snd (charge_attempt uid y key g ts l) = Inl ErrNotFound"
  using assms by (simp add: charge_attempt_def chargeBalanceTx_def)

lemma unlimited_cases:
  obtains "limited uid l" | a where "lg_users l uid = Some a" "ac_balance a = None" | "lg_users l uid = None"
  by (cases "lg_users l uid") (auto simp: limited_def)

text \<open>What an attempt for one user keeps of every other user and request.\<close>

definition same_others :: "ident \<Rightarrow> ident \<Rightarrow> ledger \<Rightarrow> ledger \<Rightarrow> bool" where
  "same_others uid key l l' \<longleftrightarrow>
     (\<forall>u. u \<noteq> uid \<longrightarrow> lg_users l' u = lg_users l u \<and> owed u l' = owed u l) \<and>
     (\<forall>u. limited u l' \<longleftrightarrow> limited u l) \<and>
     (\<forall>k. k \<noteq> (key, uid) \<longrightarrow> lg_charges l' k = lg_charges l k \<and> due k l' = due k l)"

lemma same_others_refl [simp]: "same_others uid key l l"
  by (simp add: same_others_def)

lemma due_delete_other: "k \<noteq> k' \<Longrightarrow> due k (delete_pending {k'} l) = due k l"
proof -
  assume "k \<noteq> k'"
  then have "filter (\<lambda>r. pending_key r = k) (filter (\<lambda>r. pending_key r \<noteq> k') rs) = filter (\<lambda>r. pending_key r = k) rs" for rs
    by (induction rs) auto
  then show ?thesis by (simp add: due_def)
qed

lemma limited_users: "lg_users l' = lg_users l \<Longrightarrow> limited u l' = limited u l"
  by (simp add: limited_def)

lemma same_others_delete:
  "same_others uid key l l' \<Longrightarrow> same_others uid key l (delete_pending {(key, uid)} l')"
  by (simp add: same_others_def owed_delete_other due_delete_other limited_users [of "delete_pending ks l'" l' for ks])

lemma same_others_charge:
  "same_others uid key l (set_charge (key, uid) c l)"
  by (simp add: same_others_def)

lemma same_others_book:
  "lg_users l uid = Some a \<Longrightarrow> ac_balance a = Some b \<Longrightarrow> ac_balance a' \<noteq> None \<Longrightarrow>
    same_others uid key l (set_account uid a' (set_charge (key, uid) c l))"
  by (auto simp: same_others_def limited_def)

lemma same_others_record:
  "same_others uid key l (recordPendingRemainderTx key uid m g ts l)" if "key \<noteq> ''''"
proof -
  have "owed u (recordPendingRemainderTx key uid m g ts l) = owed u l" if "u \<noteq> uid" for u
    using that by (simp add: owed_def recordPendingRemainderTx_def Let_def)
  moreover have "due k (recordPendingRemainderTx key uid m g ts l) = due k l" if "k \<noteq> (key, uid)" for k
    using that \<open>key \<noteq> ''''\<close> by (auto simp: due_def recordPendingRemainderTx_def pending_key_def Let_def)
  ultimately show ?thesis by (simp add: same_others_def limited_def)
qed

lemma attempt_frame:
  assumes ok: "ledger_ok l" and key: "key \<noteq> ''''"
    and att: "charge_attempt uid y key g ts l = (l', res)" and known: "res \<noteq> Inl ErrNotFound"
  shows "same_others uid key l l'"
proof (cases "lg_charges l (key, uid) = None")
  case False
  with att show ?thesis by (simp add: attempt_charged [OF ok key])
next
  case True
  show ?thesis
  proof (cases rule: unlimited_cases [of uid l])
    case 1
    then obtain a b where ab: "lg_users l uid = Some a" "ac_balance a = Some b"
      by (auto simp: limited_def)
    from ok ab key True show ?thesis
      by (cases rule: attempt_cases [where y = y and g = g and ts = ts])
         (use att ab key in \<open>auto intro!: same_others_delete same_others_book same_others_record\<close>)
  next
    case (2 a)
    with att show ?thesis
      by (auto simp: attempt_unlimited [OF 2 key] intro!: same_others_delete same_others_charge)
  next
    case 3
    with att known attempt_unknown [OF 3 key True, of y g ts] show ?thesis by simp
  qed
qed

lemma attempt_ok:
  assumes ok: "ledger_ok l" and key: "key \<noteq> ''''" and y: "0 < y"
    and att: "charge_attempt uid y key g ts l = (l', res)" and known: "res \<noteq> Inl ErrNotFound"
  shows "ledger_ok l'"
proof (cases "lg_charges l (key, uid) = None")
  case False
  with att ok show ?thesis by (simp add: attempt_charged [OF ok key])
next
  case True
  show ?thesis
  proof (cases rule: unlimited_cases [of uid l])
    case 1
    from attempt_worth [OF ok 1 key True y att] show ?thesis by blast
  next
    case (2 a)
    with att True ok show ?thesis
      by (auto simp: attempt_unlimited [OF 2 key] ledger_ok_book)
  next
    case 3
    with att known attempt_unknown [OF 3 key True, of y g ts] show ?thesis by simp
  qed
qed

section \<open>Every request is charged exactly once\<close>

lemma attempt_errors:
  "charge_attempt uid y key g ts l = (l', Inl e) \<Longrightarrow> e = ErrNotFound \<or> e = ErrInsufficientBalance"
  by (auto simp: charge_attempt_def chargeBalanceTx_def Let_def
      split: prod.splits sum.splits option.splits if_splits store_error.splits)

lemma ChargeBalance_cases:
  assumes "req \<noteq> ''''"
  obtains (nothing) "fst (ChargeBalance f g ts uid y req l) = l" "f \<or> uid = '''' \<or> y \<le> 0 \<or> \<not> limited uid l"
  | (attempt) l' res where "charge_attempt uid y req g ts l = (l', res)" "res \<noteq> Inl ErrNotFound"
      "fst (ChargeBalance f g ts uid y req l) = l'" "0 < y" "\<not> f" "uid \<noteq> ''''"
proof -
  obtain l' res where att: "charge_attempt uid y req g ts l = (l', res)" by fastforce
  have found: "\<not> limited uid l" if "res = Inl ErrNotFound"
  proof
    assume "limited uid l"
    then obtain a b where "lg_users l uid = Some a" "ac_balance a = Some b" by (auto simp: limited_def)
    with att that show False
      by (auto simp: charge_attempt_def chargeBalanceTx_def Let_def split: if_splits)
  qed
  have e: "res = Inl ErrNotFound \<or> res = Inl ErrInsufficientBalance \<or> res = Inr ()"
    using att by (cases res) (auto dest: attempt_errors)
  show thesis
  proof (cases "f \<or> uid = '''' \<or> y \<le> 0")
    case True
    then show thesis by - (rule nothing, auto simp: ChargeBalance_def)
  next
    case False
    show thesis
    proof (cases "res = Inl ErrNotFound")
      case True
      with False att assms found show thesis by - (rule nothing, simp_all add: ChargeBalance_def)
    next
      case known: False
      have "fst (ChargeBalance f g ts uid y req l) = l'"
      proof -
        from e known have "res = Inl ErrInsufficientBalance \<or> res = Inr ()" by blast
        then show ?thesis
          by (rule disjE) (use False att assms in \<open>simp_all add: ChargeBalance_def case_unit_Unity\<close>)
      qed
      with att known False show thesis by - (rule attempt, auto)
    qed
  qed
qed

lemma Charge_keeps:
  assumes "ledger_ok l" "req \<noteq> ''''"
  shows "ledger_ok (fst (ChargeBalance f g ts uid y req l))"
    and "same_others uid req l (fst (ChargeBalance f g ts uid y req l))"
  using assms(2) by (cases rule: ChargeBalance_cases [of req f g ts uid y l];
      auto simp: assms(1) intro: attempt_ok [OF assms] attempt_frame [OF assms])+

text \<open>\<open>recorded k y l\<close>: the request is accounted for, by a charge or by a debt of its full cost;
  \<open>untouched k l\<close>: it was never seen.\<close>

definition recorded :: "ident \<times> ident \<Rightarrow> rat \<Rightarrow> ledger \<Rightarrow> bool" where
  "recorded k y l \<longleftrightarrow> lg_charges l k \<noteq> None \<or> due k l = YuanToMicros y"

definition untouched :: "ident \<times> ident \<Rightarrow> ledger \<Rightarrow> bool" where
  "untouched k l \<longleftrightarrow> lg_charges l k = None \<and> due k l = 0"

lemma Charge_first:
  assumes ok: "ledger_ok l" and lim: "limited uid l" and new: "untouched (req, uid) l"
    and args: "0 < y" "req \<noteq> ''''" "uid \<noteq> ''''"
  shows "worth uid (fst (ChargeBalance False g ts uid y req l)) = worth uid l - YuanToMicros y \<and>
    recorded (req, uid) y (fst (ChargeBalance False g ts uid y req l))"
  using args(2)
proof (cases rule: ChargeBalance_cases [of req False g ts uid y l])
  case nothing
  with args lim show ?thesis by simp
next
  case (attempt l' res)
  have fresh: "lg_charges l (req, uid) = None" using new by (simp add: untouched_def)
  from attempt_worth [OF ok lim args(2) fresh args(1) attempt(1), of uid] attempt(3) new show ?thesis
    by (auto simp: untouched_def recorded_def)
qed

lemma Charge_again:
  assumes ok: "ledger_ok l" and lim: "limited uid l" and old: "recorded (req, uid) y l" and req: "req \<noteq> ''''"
  shows "worth uid (fst (ChargeBalance f g ts uid y req l)) = worth uid l \<and>
    recorded (req, uid) y (fst (ChargeBalance f g ts uid y req l))"
  using req
proof (cases rule: ChargeBalance_cases [of req f g ts uid y l])
  case nothing
  with old show ?thesis by simp
next
  case (attempt l' res)
  show ?thesis
  proof (cases "lg_charges l (req, uid) = None")
    case True
    have "YuanToMicros y \<noteq> 0" using YuanToMicros_pos [OF attempt(4)] by simp
    with attempt_worth [OF ok lim req True attempt(4,1), of uid] attempt(3) old True show ?thesis
      by (auto simp: recorded_def)
  next
    case False
    with attempt attempt_charged [OF ok req False, of y g ts] show ?thesis by (simp add: recorded_def)
  qed
qed

text \<open>A history of charge attempts: which request of which user, whether the database was up, and the
  random key and clock the attempt drew.\<close>

record charge_try =
  ct_fails :: bool
  ct_gen :: ident
  ct_ts :: int
  ct_user :: ident
  ct_req :: ident

definition try_charge :: "(ident \<times> ident \<Rightarrow> rat) \<Rightarrow> charge_try \<Rightarrow> ledger \<Rightarrow> ledger" where
  "try_charge cost t l =
     fst (ChargeBalance (ct_fails t) (ct_gen t) (ct_ts t) (ct_user t) (cost (ct_req t, ct_user t)) (ct_req t) l)"

definition charged_keys :: "ident \<Rightarrow> charge_try list \<Rightarrow> (ident \<times> ident) set" where
  "charged_keys u ts = (\<lambda>t. (ct_req t, ct_user t)) ` {t \<in> set ts. \<not> ct_fails t \<and> ct_user t = u}"

lemma worth_other: "same_others uid key l l' \<Longrightarrow> u \<noteq> uid \<Longrightarrow> worth u l' = worth u l"
  by (auto simp: worth_def same_others_def split: option.splits)

lemma limited_same: "same_others uid key l l' \<Longrightarrow> limited u l' = limited u l"
  by (simp add: same_others_def)

lemma recorded_same:
  "same_others uid key l l' \<Longrightarrow> k \<noteq> (key, uid) \<Longrightarrow>
    (recorded k y l' \<longleftrightarrow> recorded k y l) \<and> (untouched k l' \<longleftrightarrow> untouched k l)"
proof -
  assume "same_others uid key l l'" "k \<noteq> (key, uid)"
  then have "lg_charges l' k = lg_charges l k" "due k l' = due k l"
    unfolding same_others_def by blast+
  then show ?thesis by (simp add: recorded_def untouched_def)
qed

lemma try_fails: "ct_fails t \<Longrightarrow> try_charge cost t l = l"
  by (simp add: try_charge_def ChargeBalance_def)

lemma charged_keys_Cons:
  "charged_keys u (t # ts) =
    (if \<not> ct_fails t \<and> ct_user t = u then insert (ct_req t, u) (charged_keys u ts) else charged_keys u ts)"
  by (auto simp: charged_keys_def)

lemma charged_keys_Nil [simp]: "charged_keys u [] = {}"
  by (simp add: charged_keys_def)

lemma finite_charged [simp]: "finite (charged_keys u ts)"
  by (simp add: charged_keys_def)

lemma tries_worth:
  assumes "ledger_ok l" "limited u l" "u \<noteq> ''''"
    and "\<And>t. t \<in> set ts \<Longrightarrow> ct_req t \<noteq> '''' \<and> (ct_user t = u \<longrightarrow> 0 < cost (ct_req t, u))"
    and "\<And>k. k \<in> charged_keys u ts \<Longrightarrow> if k \<in> D then recorded k (cost k) l else untouched k l"
  shows "worth u (fold (try_charge cost) ts l) = worth u l - (\<Sum>k \<in> charged_keys u ts - D. YuanToMicros (cost k))"
  using assms
proof (induction ts arbitrary: l D)
  case Nil
  then show ?case by (simp add: charged_keys_def)
next
  case (Cons t ts)
  define l' where "l' = try_charge cost t l"
  have req: "ct_req t \<noteq> ''''" using Cons.prems(4) [of t] by simp
  have ok: "ledger_ok l'" and same: "same_others (ct_user t) (ct_req t) l l'"
    using Charge_keeps [OF Cons.prems(1) req] by (simp_all add: l'_def try_charge_def)
  have lim: "limited u l'" using limited_same [OF same] Cons.prems(2) by simp
  have rest: "\<And>s. s \<in> set ts \<Longrightarrow> ct_req s \<noteq> '''' \<and> (ct_user s = u \<longrightarrow> 0 < cost (ct_req s, u))"
    by (rule Cons.prems(4)) simp
  show ?case
  proof (cases "\<not> ct_fails t \<and> ct_user t = u")
    case False
    have w: "worth u l' = worth u l"
      using False worth_other [OF same, of u] by (cases "ct_fails t") (auto simp: l'_def try_fails)
    have same_keys: "charged_keys u (t # ts) = charged_keys u ts" using False by (auto simp: charged_keys_Cons)
    have "if k \<in> D then recorded k (cost k) l' else untouched k l'" if k: "k \<in> charged_keys u ts" for k
    proof (cases "ct_fails t")
      case True
      with Cons.prems(5) [of k] k same_keys show ?thesis by (simp add: l'_def try_fails)
    next
      case up: False
      with False k have "k \<noteq> (ct_req t, ct_user t)" by (auto simp: charged_keys_def)
      with Cons.prems(5) [of k] k same_keys recorded_same [OF same] show ?thesis by simp
    qed
    from Cons.IH [OF ok lim Cons.prems(3) rest this] w same_keys show ?thesis by (simp add: l'_def)
  next
    case True
    define k where "k = (ct_req t, u)"
    have key: "k \<in> charged_keys u (t # ts)" and keys: "charged_keys u (t # ts) = insert k (charged_keys u ts)"
      using True by (simp_all add: charged_keys_Cons k_def)
    have cost: "0 < cost k" using Cons.prems(4) [of t] True by (simp add: k_def)
    have step: "l' = fst (ChargeBalance False (ct_gen t) (ct_ts t) u (cost k) (ct_req t) l)"
      using True by (simp add: l'_def try_charge_def k_def)
    have now: "recorded k (cost k) l' \<and> worth u l' = (if k \<in> D then worth u l else worth u l - YuanToMicros (cost k))"
    proof (cases "k \<in> D")
      case True
      with Cons.prems(5) [OF key] have "recorded (ct_req t, u) (cost k) l" by (simp add: k_def)
      from Charge_again [OF Cons.prems(1,2) this req] True show ?thesis by (simp add: step k_def)
    next
      case out: False
      with Cons.prems(5) [OF key] have "untouched (ct_req t, u) l" by (simp add: k_def)
      from Charge_first [OF Cons.prems(1,2) this cost req Cons.prems(3)] out show ?thesis
        by (simp add: step k_def)
    qed
    have "if k' \<in> insert k D then recorded k' (cost k') l' else untouched k' l'" if "k' \<in> charged_keys u ts" for k'
    proof (cases "k' = k")
      case False
      have "if k' \<in> D then recorded k' (cost k') l else untouched k' l"
        using that keys by (intro Cons.prems(5)) simp
      moreover have other: "k' \<noteq> (ct_req t, ct_user t)" using False True by (simp add: k_def)
      moreover note recorded_same [OF same other, of "cost k'"]
      ultimately show ?thesis using False by (simp split: if_splits)
    qed (use now in simp)
    from Cons.IH [OF ok lim Cons.prems(3) rest this]
    have "worth u (fold (try_charge cost) ts l') = worth u l' - (\<Sum>k' \<in> charged_keys u ts - insert k D. YuanToMicros (cost k'))" .
    moreover have "(\<Sum>k' \<in> insert k (charged_keys u ts) - D. YuanToMicros (cost k')) =
        (if k \<in> D then 0 else YuanToMicros (cost k)) + (\<Sum>k' \<in> charged_keys u ts - insert k D. YuanToMicros (cost k'))"
    proof (cases "k \<in> D")
      case True
      then have "insert k (charged_keys u ts) - D = charged_keys u ts - insert k D" by auto
      from this show ?thesis using True by (simp only: if_True add_0)
    next
      case out: False
      then have "insert k (charged_keys u ts) - D = insert k (charged_keys u ts - insert k D)" by auto
      then show ?thesis using out by (simp only: if_False sum.insert) simp
    qed
    ultimately show ?thesis using now keys by (simp add: l'_def [symmetric])
  qed
qed

text \<open>C11: however often and in whatever order the charges of a set of requests are attempted, with
  database failures, retries and other users' charges in between, a limited user loses the cost of
  each request that got through exactly once. \<open>worth\<close> counts the balance less what has been collected
  towards the next cent and less what is owed, so an insufficient balance is covered too: the debt is
  recorded with its full amount and only once.\<close>

theorem every_request_charged_once:
  assumes "ledger_ok l" "limited u l" "u \<noteq> ''''"
    and "\<forall>t \<in> set ts. ct_req t \<noteq> '''' \<and> (ct_user t = u \<longrightarrow> 0 < cost (ct_req t, u))"
    and "\<forall>k \<in> charged_keys u ts. untouched k l"
  shows "worth u (fold (try_charge cost) ts l) = worth u l - (\<Sum>k \<in> charged_keys u ts. YuanToMicros (cost k))"
proof -
  have "\<And>t. t \<in> set ts \<Longrightarrow> ct_req t \<noteq> '''' \<and> (ct_user t = u \<longrightarrow> 0 < cost (ct_req t, u))"
    using assms(4) by (rule bspec)
  moreover have "\<And>k. k \<in> charged_keys u ts \<Longrightarrow> if k \<in> {} then recorded k (cost k) l else untouched k l"
    using assms(5) by simp
  ultimately have "worth u (fold (try_charge cost) ts l) =
      worth u l - (\<Sum>k \<in> charged_keys u ts - {}. YuanToMicros (cost k))"
    by (rule tries_worth [OF assms(1-3)])
  then show ?thesis by simp
qed

definition demo_ledger :: ledger where
  "demo_ledger = \<lparr>lg_users = [''ann'' \<mapsto> \<lparr>ac_balance = Some 3, ac_remainder = 2500\<rparr>,
                               ''bob'' \<mapsto> \<lparr>ac_balance = None, ac_remainder = 0\<rparr>],
     lg_charges = Map.empty, lg_pending = [], lg_topups = []\<rparr>"

lemma demo_ledger_ok: "ledger_ok demo_ledger" "limited ''ann'' demo_ledger" "worth ''ann'' demo_ledger = 27500"
  by (simp_all add: ledger_ok_def account_ok_def limited_def worth_def owed_def demo_ledger_def)

lemma demo_untouched: "untouched k demo_ledger"
  by (simp add: untouched_def due_def demo_ledger_def)

theorem every_request_charged_once_witness:
  "worth ''ann'' (fold (try_charge (\<lambda>_. 1 / 50))
     [\<lparr>ct_fails = False, ct_gen = ''g1'', ct_ts = 1, ct_user = ''ann'', ct_req = ''r1''\<rparr>,
      \<lparr>ct_fails = True, ct_gen = ''g2'', ct_ts = 2, ct_user = ''ann'', ct_req = ''r2''\<rparr>,
      \<lparr>ct_fails = False, ct_gen = ''g3'', ct_ts = 3, ct_user = ''bob'', ct_req = ''r3''\<rparr>,
      \<lparr>ct_fails = False, ct_gen = ''g4'', ct_ts = 4, ct_user = ''ann'', ct_req = ''r2''\<rparr>,
      \<lparr>ct_fails = False, ct_gen = ''g5'', ct_ts = 5, ct_user = ''ann'', ct_req = ''r1''\<rparr>] demo_ledger) =
   27500 - 2 * YuanToMicros (1 / 50)"
proof -
  let ?ts = "[\<lparr>ct_fails = False, ct_gen = ''g1'', ct_ts = 1, ct_user = ''ann'', ct_req = ''r1''\<rparr>,
      \<lparr>ct_fails = True, ct_gen = ''g2'', ct_ts = 2, ct_user = ''ann'', ct_req = ''r2''\<rparr>,
      \<lparr>ct_fails = False, ct_gen = ''g3'', ct_ts = 3, ct_user = ''bob'', ct_req = ''r3''\<rparr>,
      \<lparr>ct_fails = False, ct_gen = ''g4'', ct_ts = 4, ct_user = ''ann'', ct_req = ''r2''\<rparr>,
      \<lparr>ct_fails = False, ct_gen = ''g5'', ct_ts = 5, ct_user = ''ann'', ct_req = ''r1''\<rparr>] :: charge_try list"
  have "charged_keys ''ann'' ?ts = {(''r1'', ''ann''), (''r2'', ''ann'')}"
    by (auto simp: charged_keys_Cons)
  then show ?thesis
    using every_request_charged_once [OF demo_ledger_ok(1,2), of ?ts "\<lambda>_. 1 / 50"]
    by (simp add: demo_untouched demo_ledger_ok(3))
qed

section \<open>The batch is the sequence of its charges\<close>

fun charge_each ::
  "(nat \<Rightarrow> ident) \<Rightarrow> int \<Rightarrow> nat \<Rightarrow> balance_charge list \<Rightarrow> ledger \<Rightarrow> ledger \<times> store_error option list" where
  "charge_each gen ts i [] l = (l, [])"
| "charge_each gen ts i (c # cs) l =
     (case ChargeBalance False (gen i) ts (bc_UserID c) (bc_AmountYuan c) (bc_RequestID c) l of
        (l', r) \<Rightarrow> (case charge_each gen ts (i + 1) cs l' of
          (l'', es) \<Rightarrow> (l'', (case r of Inl e \<Rightarrow> Some e | Inr _ \<Rightarrow> None) # es)))"

lemma Tx_users:
  "dom (lg_users (fst (chargeBalanceTx uid y key l))) = dom (lg_users l)"
  by (auto simp: chargeBalanceTx_def Let_def split: option.splits)

lemma Tx_error:
  "snd (chargeBalanceTx uid y key l) = Inl e \<Longrightarrow> e = ErrInsufficientBalance \<or> (e = ErrNotFound \<and> lg_users l uid = None)"
  by (auto simp: chargeBalanceTx_def Let_def split: option.splits if_splits)

lemma attempt_users:
  assumes "charge_attempt uid y key g ts l = (l', res)"
  shows "dom (lg_users l') = dom (lg_users l)"
    and "res = Inl e \<Longrightarrow> e = ErrInsufficientBalance \<or> (e = ErrNotFound \<and> lg_users l uid = None)"
proof -
  obtain l1 r where tx: "chargeBalanceTx uid y key l = (l1, r)" by fastforce
  have dom: "dom (lg_users l1) = dom (lg_users l)" using Tx_users [of uid y key l] tx by simp
  have "lg_users l' = lg_users l1 \<or> lg_users l' = lg_users l"
    using assms tx by (cases r) (auto simp: charge_attempt_def split: store_error.splits)
  then show "dom (lg_users l') = dom (lg_users l)"
    by (rule disjE) (simp_all only: dom)
  show "e = ErrInsufficientBalance \<or> (e = ErrNotFound \<and> lg_users l uid = None)" if "res = Inl e"
    using assms tx that Tx_error [of uid y key l e]
    by (auto simp: charge_attempt_def split: sum.splits store_error.splits)
qed

lemma charge_loop_each:
  "(\<And>c. c \<in> set cs \<Longrightarrow> bc_UserID c \<noteq> '''' \<Longrightarrow> 0 < bc_AmountYuan c \<Longrightarrow> bc_UserID c \<in> dom (lg_users l)) \<Longrightarrow>
    charge_loop gen ts i cs l = Inr (charge_each gen ts i cs l)"
proof (induction gen ts i cs l rule: charge_each.induct)
  case (2 gen ts i c cs l)
  let ?key = "if bc_RequestID c = '''' then gen i else bc_RequestID c"
  obtain l1 r where step: "ChargeBalance False (gen i) ts (bc_UserID c) (bc_AmountYuan c) (bc_RequestID c) l = (l1, r)"
    by fastforce
  obtain l2 es where each: "charge_each gen ts (i + 1) cs l1 = (l2, es)" by fastforce
  obtain l' res where att: "charge_attempt (bc_UserID c) (bc_AmountYuan c) ?key (gen i) ts l = (l', res)"
    by fastforce
  have users: "dom (lg_users l1) = dom (lg_users l)"
  proof -
    have "l1 = l \<or> l1 = l'"
    proof (cases "bc_UserID c = '''' \<or> bc_AmountYuan c \<le> 0")
      case True
      with step show ?thesis by (auto simp: ChargeBalance_def case_unit_Unity split: if_splits)
    next
      case False
      with step att show ?thesis
        by (cases res) (auto simp: ChargeBalance_def case_unit_Unity split: store_error.splits)
    qed
    then show ?thesis by (rule disjE) (simp_all only: attempt_users(1) [OF att])
  qed
  have rest: "charge_loop gen ts (i + 1) cs l1 = Inr (charge_each gen ts (i + 1) cs l1)"
    using 2(2) by (intro 2(1) [OF step [symmetric]]) (simp add: users)
  show ?case
  proof (cases "bc_UserID c = '''' \<or> bc_AmountYuan c \<le> 0")
    case True
    with step rest each show ?thesis by (auto simp: ChargeBalance_def)
  next
    case False
    then have "lg_users l (bc_UserID c) \<noteq> None" using 2(2) [of c] by auto
    then have "res = Inl ErrInsufficientBalance \<or> res = Inr ()"
      using attempt_users(2) [OF att] by (cases res) auto
    then show ?thesis
      using False att step rest each by (elim disjE) (auto simp: ChargeBalance_def Let_def case_unit_Unity)
  qed
qed simp



end
