(* ===== verification/Settlement.thy ===== *)
theory Settlement
  imports Ledger
begin

text \<open>
  Settling the debts of \<^verbatim>\<open>internal/store/balance_dao.go\<close>: the loop over the pending rows against a
  reference that says how much of a budget each row takes, conservation of money, the invariant of
  the ledger under every operation, top-ups, and the places where a debt is lost track of.
\<close>

section \<open>Settling: what a row is covered with\<close>

text \<open>The reference for \<open>settle_loop\<close>: how much of a budget each row takes, oldest row first.\<close>

fun coverage :: "int \<Rightarrow> pending_row list \<Rightarrow> (ident \<times> ident \<Rightarrow> int)" where
  "coverage B [] = (\<lambda>_. 0)"
| "coverage B (it # items) = (coverage (B - min (pn_micros it) B) items)(pending_key it := min (pn_micros it) B)"

definition apply_coverage :: "(ident \<times> ident \<Rightarrow> int) \<Rightarrow> pending_row list \<Rightarrow> pending_row list" where
  "apply_coverage cov rs =
     filter (\<lambda>r. 0 < pn_micros r) (map (\<lambda>r. r\<lparr>pn_micros := pn_micros r - cov (pending_key r)\<rparr>) rs)"

lemma pending_key_update [simp]: "pending_key (r\<lparr>pn_micros := m\<rparr>) = pending_key r"
  by (simp add: pending_key_def)

lemma deletePendingRows_fields [simp]:
  "lg_users (deletePendingRows items l) = lg_users l"
  "lg_charges (deletePendingRows items l) = lg_charges l"
  by (induction items arbitrary: l) (simp_all add: deletePendingRows_def)

lemma deletePendingRows_Nil [simp]: "deletePendingRows [] l = l"
  by (simp add: deletePendingRows_def)

lemma deletePendingRows_pending:
  "lg_pending (deletePendingRows items l) = filter (\<lambda>r. pending_key r \<notin> pending_key ` set items) (lg_pending l)"
proof (induction items arbitrary: l)
  case (Cons it items)
  have "deletePendingRows (it # items) l = deletePendingRows items (delete_pending {pending_key it} l)"
    by (simp add: deletePendingRows_def)
  then have "lg_pending (deletePendingRows (it # items) l) =
      filter (\<lambda>r. pending_key r \<notin> pending_key ` set items) (filter (\<lambda>r. pending_key r \<notin> {pending_key it}) (lg_pending l))"
    by (simp only: Cons.IH ledger_fields)
  then show ?case by (simp add: conj_commute cong: conj_cong)
qed (simp add: deletePendingRows_def)

lemma deletePendingRows_Cons:
  "lg_pending (deletePendingRows (it # items) l) =
    filter (\<lambda>r. pending_key r \<noteq> pending_key it) (lg_pending (deletePendingRows items l))"
  unfolding deletePendingRows_pending filter_filter by (rule filter_cong) auto

lemma ensure_fields [simp]:
  "lg_users (ensureUsageCompletionTx q u l) = lg_users l"
  "lg_pending (ensureUsageCompletionTx q u l) = lg_pending l"
  by (simp_all add: ensureUsageCompletionTx_def)

lemma ensure_charges:
  "q \<noteq> '''' \<Longrightarrow> u \<noteq> '''' \<Longrightarrow> lg_charges (ensureUsageCompletionTx q u l) =
    (\<lambda>k. if k = (q, u) \<and> lg_charges l k = None then Some 0 else lg_charges l k)"
  by (auto simp: ensureUsageCompletionTx_def fun_eq_iff)

lemma settle_loop_empty: "B \<le> 0 \<Longrightarrow> settle_loop uid B items l = (l, [])"
  by (cases items) simp_all

lemma coverage_zero: "(\<forall>r \<in> set items. 0 < pn_micros r) \<Longrightarrow> coverage 0 items = (\<lambda>_. 0)"
  by (induction items) (auto simp: fun_upd_idem)

lemma coverage_outside: "k \<notin> pending_key ` set items \<Longrightarrow> coverage B items k = 0"
  by (induction items arbitrary: B) auto

lemma apply_coverage_none: "(\<forall>r \<in> set rs. 0 < pn_micros r) \<Longrightarrow> apply_coverage (\<lambda>_. 0) rs = rs"
  by (induction rs) (auto simp: apply_coverage_def)

lemma apply_coverage_cong:
  "(\<And>r. r \<in> set rs \<Longrightarrow> cov (pending_key r) = cov' (pending_key r)) \<Longrightarrow> apply_coverage cov rs = apply_coverage cov' rs"
  unfolding apply_coverage_def by (intro arg_cong [where f = "filter _"] map_cong) auto

lemma apply_coverage_full:
  assumes "distinct (map pending_key rs)" "it \<in> set rs"
  shows "apply_coverage (cov(pending_key it := pn_micros it)) rs =
    filter (\<lambda>r. pending_key r \<noteq> pending_key it) (apply_coverage cov rs)"
  using assms
proof (induction rs)
  case (Cons r rs)
  show ?case
  proof (cases "r = it")
    case True
    with Cons.prems have out: "pending_key r \<noteq> pending_key it" if "r \<in> set rs" for r
      using that by (force simp: image_iff)
    then have "apply_coverage (cov(pending_key it := pn_micros it)) rs = apply_coverage cov rs"
      by (intro apply_coverage_cong) (use out in auto)
    moreover have "filter (\<lambda>r. pending_key r \<noteq> pending_key it) (apply_coverage cov rs) = apply_coverage cov rs"
      using out by (intro filter_all_keep) (auto simp: apply_coverage_def)
    ultimately show ?thesis using True by (simp add: apply_coverage_def)
  next
    case False
    with Cons show ?thesis by (auto simp: apply_coverage_def)
  qed
qed simp

lemma settle_loop_pending:
  assumes "distinct (map pending_key (lg_pending l))" "\<forall>r \<in> set (lg_pending l). 0 < pn_micros r"
    and "set items \<subseteq> set (lg_pending l)" "distinct (map pending_key items)" "0 \<le> B"
    and "settle_loop uid B items l = (l', settled)"
  shows "lg_pending (deletePendingRows settled l') = apply_coverage (coverage B items) (lg_pending l)"
  using assms
proof (induction items arbitrary: B l l' settled)
  case Nil
  then show ?case by (simp add: deletePendingRows_pending apply_coverage_none)
next
  case (Cons it items)
  have pos: "0 < pn_micros it" "\<forall>r \<in> set items. 0 < pn_micros r" using Cons.prems by auto
  consider "B = 0" | "0 < B" "pn_micros it \<le> B" | "0 < B" "B < pn_micros it" using Cons.prems(5) by linarith
  then show ?case
  proof cases
    case 1
    with Cons.prems pos coverage_zero [of "it # items"] show ?thesis
      by (simp add: deletePendingRows_pending apply_coverage_none)
  next
    case 2
    obtain l2 st where rest: "settle_loop uid (B - pn_micros it) items (ensureUsageCompletionTx (pn_request it) uid l) = (l2, st)"
      by fastforce
    have out: "l' = l2" "settled = it # st" using Cons.prems(6) rest 2 by (auto split: if_splits)
    have "lg_pending (deletePendingRows st l2) = apply_coverage (coverage (B - pn_micros it) items) (lg_pending l)"
      using Cons.IH [OF _ _ _ _ _ rest] Cons.prems 2 by simp
    then have "lg_pending (deletePendingRows (it # st) l2) =
        filter (\<lambda>r. pending_key r \<noteq> pending_key it) (apply_coverage (coverage (B - pn_micros it) items) (lg_pending l))"
      by (simp only: deletePendingRows_Cons)
    moreover have "coverage B (it # items) = (coverage (B - pn_micros it) items)(pending_key it := pn_micros it)"
      using 2 by simp
    moreover have "it \<in> set (lg_pending l)" using Cons.prems(3) by simp
    ultimately show ?thesis using out by (simp only: apply_coverage_full [OF Cons.prems(1)])
  next
    case 3
    have out: "l' = reduce_pending it B l" "settled = []"
      using Cons.prems(6) 3 by (auto simp: settle_loop_empty)
    have cov: "coverage B (it # items) = (\<lambda>k. if k = pending_key it then B else 0)"
      using 3 coverage_zero [OF pos(2)] by (simp add: fun_eq_iff)
    have "pn_micros r > B" if "r \<in> set (lg_pending l)" "pending_key r = pending_key it" for r
    proof -
      have "it \<in> set (lg_pending l)" using Cons.prems(3) by simp
      with that Cons.prems(1) have "r = it" by (auto simp: distinct_map dest: inj_onD)
      with 3 show ?thesis by simp
    qed
    with Cons.prems(2) have "apply_coverage (coverage B (it # items)) (lg_pending l) = lg_pending (reduce_pending it B l)"
      unfolding cov apply_coverage_def reduce_pending_def
      by (auto intro!: filter_all_keep map_cong simp: filter_map)
    then show ?thesis by (simp only: out deletePendingRows_Nil)
  qed
qed

lemma settle_loop_books:
  assumes "settle_loop uid B items l = (l', settled)" "uid \<noteq> ''''"
    and "\<forall>r \<in> set items. pn_user r = uid \<and> pn_request r \<noteq> ''''"
  shows "lg_users l' = lg_users l \<and> set settled \<subseteq> set items \<and>
    lg_charges l' = (\<lambda>k. if k \<in> pending_key ` set settled \<and> lg_charges l k = None then Some 0 else lg_charges l k)"
  using assms
proof (induction items arbitrary: B l l' settled)
  case Nil
  then show ?case by simp
next
  case (Cons it items)
  consider "B \<le> 0" | "0 < B" "pn_micros it \<le> B" | "0 < B" "B < pn_micros it" by linarith
  then show ?case
  proof cases
    case 2
    obtain l2 st where rest: "settle_loop uid (B - pn_micros it) items (ensureUsageCompletionTx (pn_request it) uid l) = (l2, st)"
      by fastforce
    have out: "l' = l2" "settled = it # st" using Cons.prems(1) rest 2 by (auto split: if_splits)
    have it: "pending_key it = (pn_request it, uid)" "pn_request it \<noteq> ''''"
      using Cons.prems(3) by (auto simp: pending_key_def)
    have "\<forall>r \<in> set items. pn_user r = uid \<and> pn_request r \<noteq> ''''" using Cons.prems(3) by simp
    note IH = Cons.IH [OF rest Cons.prems(2) this]
    have "lg_charges l2 k = (if k \<in> pending_key ` set (it # st) \<and> lg_charges l k = None then Some 0 else lg_charges l k)" for k
      using IH by (simp add: it ensure_charges [OF it(2) Cons.prems(2)])
    with IH out show ?thesis by auto
  qed (use Cons.prems in \<open>auto simp: settle_loop_empty reduce_pending_def\<close>)
qed

lemma coverage_bounds:
  assumes "distinct (map pending_key items)" "\<forall>r \<in> set items. 0 < pn_micros r" "0 \<le> B"
  shows "(\<forall>r \<in> set items. 0 \<le> coverage B items (pending_key r) \<and> coverage B items (pending_key r) \<le> pn_micros r) \<and>
    sum_list (map (\<lambda>r. coverage B items (pending_key r)) items) = min B (sum_list (map pn_micros items))"
  using assms
proof (induction items arbitrary: B)
  case (Cons it items)
  define c where "c = min (pn_micros it) B"
  have c: "0 \<le> c" "c \<le> pn_micros it" "0 \<le> B - c" "c < pn_micros it \<Longrightarrow> B - c = 0"
    using Cons.prems by (auto simp: c_def)
  have IH: "(\<forall>r \<in> set items. 0 \<le> coverage (B - c) items (pending_key r) \<and> coverage (B - c) items (pending_key r) \<le> pn_micros r) \<and>
    sum_list (map (\<lambda>r. coverage (B - c) items (pending_key r)) items) = min (B - c) (sum_list (map pn_micros items))"
    using Cons.prems c by (intro Cons.IH) auto
  have other: "pending_key r \<noteq> pending_key it" if "r \<in> set items" for r
    using Cons.prems(1) that by (force simp: image_iff)
  have cov: "coverage B (it # items) (pending_key r) = coverage (B - c) items (pending_key r)" if "r \<in> set items" for r
    using other [OF that] by (simp add: c_def)
  have tail: "map (\<lambda>r. coverage B (it # items) (pending_key r)) items = map (\<lambda>r. coverage (B - c) items (pending_key r)) items"
    by (intro map_cong refl cov)
  have hd: "coverage B (it # items) (pending_key it) = c" by (simp add: c_def)
  have pos: "0 \<le> sum_list (map pn_micros items)"
    using Cons.prems(2) by (intro sum_list_nonneg) auto
  have total: "min B (pn_micros it + sum_list (map pn_micros items)) = c + min (B - c) (sum_list (map pn_micros items))"
    using c pos by (auto simp: c_def min_def)
  have sum: "sum_list (map (\<lambda>r. coverage B (it # items) (pending_key r)) (it # items)) =
      c + min (B - c) (sum_list (map pn_micros items))"
    unfolding list.map sum_list.Cons tail hd conjunct2 [OF IH] ..
  have each: "0 \<le> coverage B (it # items) (pending_key r) \<and> coverage B (it # items) (pending_key r) \<le> pn_micros r"
    if "r \<in> set (it # items)" for r
  proof (cases "r = it")
    case True
    with hd c show ?thesis by simp
  next
    case False
    with that have r: "r \<in> set items" by simp
    with IH show ?thesis unfolding cov [OF r] by blast
  qed
  show ?case
    by (intro conjI ballI, use each in blast, use each in blast) (unfold sum, unfold list.map sum_list.Cons total, rule refl)
qed simp

lemma owed_apply_coverage:
  assumes "\<forall>r \<in> set rs. cov (pending_key r) \<le> pn_micros r"
  shows "sum_list (map pn_micros (filter (\<lambda>r. pn_user r = u) (apply_coverage cov rs))) =
    sum_list (map pn_micros (filter (\<lambda>r. pn_user r = u) rs)) -
    sum_list (map (\<lambda>r. cov (pending_key r)) (filter (\<lambda>r. pn_user r = u) rs))"
  using assms by (induction rs) (auto simp: apply_coverage_def)

lemma owed_rows_mset: "mset (owed_rows uid l) = mset (filter (\<lambda>r. pn_user r = uid) (lg_pending l))"
  by (simp add: owed_rows_def)

lemma owed_rows_sum:
  "sum_list (map f (owed_rows uid l)) = sum_list (map (f :: pending_row \<Rightarrow> int) (filter (\<lambda>r. pn_user r = uid) (lg_pending l)))"
proof -
  have "mset (map f (owed_rows uid l)) = mset (map f (filter (\<lambda>r. pn_user r = uid) (lg_pending l)))"
    by (simp only: mset_map owed_rows_mset)
  then show ?thesis by (simp only: sum_mset_sum_list [symmetric])
qed

lemma owed_rows_set [simp]: "set (owed_rows uid l) = {r \<in> set (lg_pending l). pn_user r = uid}"
  by (auto simp: owed_rows_def)

lemma owed_rows_distinct: "ledger_ok l \<Longrightarrow> distinct (map pending_key (owed_rows uid l))"
proof -
  assume ok: "ledger_ok l"
  have "mset (map pending_key (owed_rows uid l)) = mset (map pending_key (filter (\<lambda>r. pn_user r = uid) (lg_pending l)))"
    by (simp add: owed_rows_mset)
  moreover have "distinct (map pending_key (filter (\<lambda>r. pn_user r = uid) (lg_pending l)))"
    using ok by (simp add: ledger_ok_def distinct_map_filter)
  ultimately show ?thesis using mset_eq_imp_distinct_iff by blast
qed

section \<open>Settling what is owed\<close>

lemma owed_pending: "owed u l = sum_list (map pn_micros (filter (\<lambda>r. pn_user r = u) (lg_pending l)))"
  by (simp add: owed_def)

lemma pending_user_key: "pending_key r = pending_key s \<Longrightarrow> pn_user r = pn_user s"
  by (simp add: pending_key_def)

text \<open>Paying \<open>B\<close> micros of a user's debts, the loop and the deletion of the settled rows together.\<close>

lemma settle_pays:
  assumes ok: "ledger_ok l" and uid: "uid \<noteq> ''''" and B: "0 \<le> B" "B \<le> owed uid l"
    and users: "lg_charges l1 = lg_charges l" "lg_pending l1 = lg_pending l"
      "\<And>u a. lg_users l1 u = Some a \<Longrightarrow> account_ok a"
    and loop: "settle_loop uid B (owed_rows uid l) l1 = (l2, settled)"
  shows "ledger_ok (deletePendingRows settled l2)" and "lg_users (deletePendingRows settled l2) = lg_users l1"
    and "owed u (deletePendingRows settled l2) = owed u l - (if u = uid then B else 0)"
proof -
  let ?items = "owed_rows uid l" and ?l' = "deletePendingRows settled l2"
  have rows: "distinct (map pending_key (lg_pending l))" "\<forall>r \<in> set (lg_pending l). 0 < pn_micros r"
    and named: "\<And>r. r \<in> set (lg_pending l) \<Longrightarrow> pn_request r \<noteq> '''' \<and> lg_charges l (pending_key r) = None"
    using ok by (auto simp: ledger_ok_def)
  have dist: "distinct (map pending_key ?items)" by (rule owed_rows_distinct [OF ok])
  have items: "\<forall>r \<in> set ?items. pn_user r = uid \<and> pn_request r \<noteq> ''''" using named by auto
  have pend: "lg_pending ?l' = apply_coverage (coverage B ?items) (lg_pending l)"
    using settle_loop_pending [OF _ _ _ dist B(1) loop] rows by (simp add: users(2))
  note books = settle_loop_books [OF loop uid items]
  show users': "lg_users ?l' = lg_users l1" using books by simp
  have cov: "(\<forall>r \<in> set ?items. 0 \<le> coverage B ?items (pending_key r) \<and> coverage B ?items (pending_key r) \<le> pn_micros r) \<and>
      sum_list (map (\<lambda>r. coverage B ?items (pending_key r)) ?items) = min B (sum_list (map pn_micros ?items))"
    using dist B(1) rows(2) by (intro coverage_bounds) auto
  have cov_le: "\<forall>r \<in> set (lg_pending l). coverage B ?items (pending_key r) \<le> pn_micros r"
  proof
    fix r assume r: "r \<in> set (lg_pending l)"
    show "coverage B ?items (pending_key r) \<le> pn_micros r"
    proof (cases "r \<in> set ?items")
      case True
      with cov show ?thesis by blast
    next
      case False
      with r rows(1) have "pending_key r \<notin> pending_key ` set ?items"
        by (auto simp: distinct_map dest: inj_onD)
      with rows(2) r show ?thesis by (simp add: coverage_outside less_imp_le)
    qed
  qed
  have total: "sum_list (map (\<lambda>r. coverage B ?items (pending_key r)) (filter (\<lambda>r. pn_user r = uid) (lg_pending l))) = B"
    using cov B by (simp add: owed_rows_sum [symmetric] owed_pending)
  have none: "sum_list (map (\<lambda>r. coverage B ?items (pending_key r)) (filter (\<lambda>r. pn_user r = u) (lg_pending l))) = 0"
    if "u \<noteq> uid"
  proof -
    have "coverage B ?items (pending_key r) = 0" if "pn_user r = u" for r
      using that \<open>u \<noteq> uid\<close> by (intro coverage_outside) (auto dest: pending_user_key)
    then have "map (\<lambda>r. coverage B ?items (pending_key r)) (filter (\<lambda>r. pn_user r = u) (lg_pending l)) =
        map (\<lambda>r. 0) (filter (\<lambda>r. pn_user r = u) (lg_pending l))" by simp
    then show ?thesis by (simp only: sum_list_0)
  qed
  show "owed u ?l' = owed u l - (if u = uid then B else 0)"
    using owed_apply_coverage [OF cov_le, of u] total none by (auto simp: owed_pending pend)
  have charges: "lg_charges ?l' (pending_key r) = None" if r: "r \<in> set (lg_pending ?l')" for r
  proof -
    have "pending_key r \<notin> pending_key ` set settled" using r by (simp add: deletePendingRows_pending)
    moreover obtain s where "s \<in> set (lg_pending l)" "pending_key r = pending_key s"
      using r unfolding pend apply_coverage_def by auto
    ultimately show ?thesis using books users(1) named by simp
  qed
  have "distinct (map pending_key (lg_pending ?l'))"
    unfolding pend apply_coverage_def using rows(1)
    by (intro distinct_map_filter) (simp add: comp_def)
  moreover have "0 < pn_micros r \<and> pn_request r \<noteq> ''''" if r: "r \<in> set (lg_pending ?l')" for r
  proof -
    have "0 < pn_micros r" using r unfolding pend apply_coverage_def by auto
    moreover obtain s where "s \<in> set (lg_pending l)" "pending_key r = pending_key s"
      using r unfolding pend apply_coverage_def by auto
    ultimately show ?thesis using named [of s] by (simp add: pending_key_def)
  qed
  ultimately show "ledger_ok ?l'"
    using charges users' users(3) unfolding ledger_ok_def by auto
qed

lemma fold_ensure:
  assumes "uid \<noteq> ''''" "\<forall>r \<in> set items. pn_user r = uid \<and> pn_request r \<noteq> ''''"
  shows "lg_users (fold (\<lambda>it. ensureUsageCompletionTx (pn_request it) uid) items l) = lg_users l \<and>
    lg_pending (fold (\<lambda>it. ensureUsageCompletionTx (pn_request it) uid) items l) = lg_pending l \<and>
    (\<forall>k. k \<notin> pending_key ` set items \<longrightarrow>
      lg_charges (fold (\<lambda>it. ensureUsageCompletionTx (pn_request it) uid) items l) k = lg_charges l k)"
  using assms(2)
proof (induction items arbitrary: l)
  case (Cons it items)
  have it: "pn_request it \<noteq> ''''" "pending_key it = (pn_request it, uid)"
    using Cons.prems by (auto simp: pending_key_def)
  from Cons.IH [of "ensureUsageCompletionTx (pn_request it) uid l"] Cons.prems show ?case
    by (simp add: it ensure_charges [OF it(1) assms(1)])
qed simp

lemma settle_nothing_owed:
  assumes "ledger_ok l" "owed_rows uid l = [] \<or> owed uid l \<le> 0"
  shows "owed uid l = 0"
proof -
  have "owed_rows uid l = [] \<Longrightarrow> owed uid l = 0"
    using owed_rows_sum [of pn_micros uid l] by (simp add: owed_def)
  with assms owed_nonneg [OF assms(1), of uid] show ?thesis by auto
qed

lemma write_off_ok:
  assumes ok: "ledger_ok l" and uid: "uid \<noteq> ''''"
  defines "l' \<equiv> deletePendingRows (owed_rows uid l)
    (fold (\<lambda>it. ensureUsageCompletionTx (pn_request it) uid) (owed_rows uid l) l)"
  shows "ledger_ok l'" "lg_users l' = lg_users l" "owed u l' = (if u = uid then 0 else owed u l)"
proof -
  let ?items = "owed_rows uid l"
  have items: "\<forall>r \<in> set ?items. pn_user r = uid \<and> pn_request r \<noteq> ''''" using ok by (auto simp: ledger_ok_def)
  note fe = fold_ensure [OF uid items, of l]
  have out: "pending_key r \<notin> pending_key ` set ?items \<longleftrightarrow> pn_user r \<noteq> uid" if "r \<in> set (lg_pending l)" for r
    using that by (auto dest: pending_user_key)
  have pend: "lg_pending l' = filter (\<lambda>r. pn_user r \<noteq> uid) (lg_pending l)"
    unfolding l'_def deletePendingRows_pending using fe out by (auto intro: filter_cong)
  show users: "lg_users l' = lg_users l" using fe by (simp add: l'_def)
  show "owed u l' = (if u = uid then 0 else owed u l)"
    by (auto simp: owed_def pend intro!: arg_cong [where f = sum_list] arg_cong [where f = "map pn_micros"] filter_cong)
  have "lg_charges l' (pending_key r) = lg_charges l (pending_key r)" if "r \<in> set (lg_pending l')" for r
  proof -
    have "pending_key r \<notin> pending_key ` set ?items"
      using that out [of r] unfolding pend by (simp del: owed_rows_set)
    with fe show ?thesis unfolding l'_def deletePendingRows_fields by blast
  qed
  with ok show "ledger_ok l'"
    unfolding ledger_ok_def users by (auto simp: pend distinct_map_filter)
qed

lemma settle_spec:
  assumes "ledger_ok l" "uid \<noteq> ''''" "lg_users l uid = Some a" "ac_balance a = Some b"
    and "settlePendingForUser uid l = (l', paid)"
  shows "ledger_ok l' \<and>
    paid = (if MicrosPerCent \<le> owed uid l then min b (owed uid l div MicrosPerCent) else 0) \<and>
    lg_users l' = (lg_users l)(uid \<mapsto> a\<lparr>ac_balance := Some (b - paid)\<rparr>) \<and>
    owed uid l' = (if MicrosPerCent \<le> owed uid l then owed uid l - paid * MicrosPerCent else 0) \<and>
    (\<forall>u. u \<noteq> uid \<longrightarrow> owed u l' = owed u l)"
proof -
  have a: "account_ok a" using assms(1,3) by (auto simp: ledger_ok_def)
  then have b: "0 \<le> b" using assms(4) by (simp add: account_ok_def)
  have sum: "sum_list (map pn_micros (owed_rows uid l)) = owed uid l"
    by (simp only: owed_rows_sum owed_def)
  have same: "(lg_users l)(uid \<mapsto> a\<lparr>ac_balance := Some b\<rparr>) = lg_users l"
    using assms(3,4) by (intro fun_upd_idem) (cases a, simp)
  have pos: "0 \<le> owed uid l" by (rule owed_nonneg [OF assms(1)])
  consider (none) "owed_rows uid l = [] \<or> owed uid l \<le> 0"
    | (small) "owed_rows uid l \<noteq> []" "0 < owed uid l" "owed uid l < MicrosPerCent"
    | (pay) "owed_rows uid l \<noteq> []" "MicrosPerCent \<le> owed uid l" by linarith
  then show ?thesis
  proof cases
    case none
    from settle_nothing_owed [OF assms(1) this] have "owed uid l = 0" .
    moreover have "l' = l" "paid = 0" using assms(5) none sum by (auto simp: settlePendingForUser_def Let_def)
    ultimately show ?thesis using assms(1) same by simp
  next
    case small
    then have "owed uid l div MicrosPerCent = 0" by simp
    with small assms(3-5) sum pos have out: "l' = deletePendingRows (owed_rows uid l)
        (fold (\<lambda>it. ensureUsageCompletionTx (pn_request it) uid) (owed_rows uid l) l)" "paid = 0"
      by (simp_all add: settlePendingForUser_def Let_def)
    from write_off_ok [OF assms(1,2)] small same show ?thesis unfolding out by simp
  next
    case pay
    define d where "d = min b (owed uid l div MicrosPerCent)"
    define l1 where "l1 = (if d > 0 then set_account uid (a\<lparr>ac_balance := Some (max 0 (b - d))\<rparr>) l else l)"
    obtain l2 settled where loop: "settle_loop uid (d * MicrosPerCent) (owed_rows uid l) l1 = (l2, settled)"
      by fastforce
    have cents: "1 \<le> owed uid l div MicrosPerCent" using pay(2) by simp
    have d: "0 \<le> d" "d \<le> b" "d * MicrosPerCent \<le> owed uid l"
      using b cents by (auto simp: d_def min_def)
    have "(if owed uid l div MicrosPerCent > b then b else owed uid l div MicrosPerCent) = d"
      by (simp add: d_def min_def)
    with pay assms(3-5) sum pos cents loop have out: "l' = deletePendingRows settled l2" "paid = d"
      by (simp_all add: settlePendingForUser_def Let_def l1_def split: if_splits)
    have users: "lg_users l1 = (lg_users l)(uid \<mapsto> a\<lparr>ac_balance := Some (b - d)\<rparr>)"
      using d same by (auto simp: l1_def max_def)
    have okay: "account_ok x" if "lg_users l1 u = Some x" for u x
      using that assms(1) a d unfolding users by (auto simp: ledger_ok_def account_ok_def split: if_splits)
    have l1: "lg_charges l1 = lg_charges l" "lg_pending l1 = lg_pending l" by (simp_all add: l1_def)
    note pays = settle_pays [OF assms(1,2) _ d(3) l1 okay loop]
    from pays d(1) users pay(2) show ?thesis unfolding out by (simp add: d_def [symmetric])
  qed
qed


definition demo_debts :: ledger where
  "demo_debts = demo_ledger\<lparr>lg_pending :=
     [\<lparr>pn_request = ''r1'', pn_user = ''ann'', pn_micros = 25000, pn_ts = 2\<rparr>,
      \<lparr>pn_request = ''r2'', pn_user = ''ann'', pn_micros = 9000, pn_ts = 1\<rparr>]\<rparr>"


section \<open>Every operation keeps the ledger well formed\<close>

inductive ledger_step :: "ledger \<Rightarrow> ledger \<Rightarrow> bool" where
  charge: "gen \<noteq> '''' \<Longrightarrow> ledger_step l (fst (ChargeBalance dbFails gen ts uid yuan req l))"
| batch: "(\<And>i. gen i \<noteq> '''') \<Longrightarrow> ledger_step l (fst (ChargeBalances dbFails gen ts charges l))"
| set_balance: "ledger_step l (fst (SetBalance dbFails uid cents unlimited l))"
| adjust: "ledger_step l (fst (AdjustBalance dbFails uid delta l))"
| top_up: "ledger_step l (fst (AdjustBalanceWithLedger dbFails insertOk commitOk old tr uid delta l))"

lemma Charge_ok: "ledger_ok l \<Longrightarrow> g \<noteq> '''' \<Longrightarrow> ledger_ok (fst (ChargeBalance f g ts uid y req l))"
proof (cases "req = ''''")
  case True
  moreover assume "g \<noteq> ''''" "ledger_ok l"
  moreover from this True have "ChargeBalance f g ts uid y req l = ChargeBalance f g ts uid y g l"
    by (simp add: ChargeBalance_def)
  ultimately show ?thesis using Charge_keeps(1) by simp
qed (rule Charge_keeps(1))

lemma charge_loop_ok:
  "ledger_ok l \<Longrightarrow> (\<And>i. gen i \<noteq> '''') \<Longrightarrow> charge_loop gen ts i cs l = Inr (l', es) \<Longrightarrow> ledger_ok l'"
proof (induction cs arbitrary: i l es)
  case (Cons c cs)
  let ?key = "if bc_RequestID c = '''' then gen i else bc_RequestID c"
  have key: "?key \<noteq> ''''" using Cons.prems(2) by simp
  obtain l1 r where att: "charge_attempt (bc_UserID c) (bc_AmountYuan c) ?key (gen i) ts l = (l1, r)" by fastforce
  show ?case
  proof (cases "bc_UserID c = '''' \<or> bc_AmountYuan c \<le> 0")
    case True
    then obtain es' where "charge_loop gen ts (i + 1) cs l = Inr (l', es')"
      using Cons.prems(3) by (cases "charge_loop gen ts (i + 1) cs l") (auto split: if_splits)
    from Cons.IH [OF Cons.prems(1,2) this] show ?thesis .
  next
    case False
    have r: "r = Inl ErrInsufficientBalance \<or> r = Inr ()"
      using Cons.prems(3) False att attempt_users(2) [OF att] by (cases r) auto
    then have "ledger_ok l1"
      using attempt_ok [OF Cons.prems(1) key _ att] False by auto
    moreover from r obtain es' where "charge_loop gen ts (i + 1) cs l1 = Inr (l', es')"
      using Cons.prems(3) False att
      by (elim disjE; cases "charge_loop gen ts (i + 1) cs l1") (auto simp: case_unit_Unity)
    ultimately show ?thesis using Cons.IH Cons.prems(2) by blast
  qed
qed simp

lemma ledger_ok_account_at:
  "ledger_ok l \<Longrightarrow> lg_users l uid = Some a \<Longrightarrow> 0 \<le> b \<Longrightarrow>
    ledger_ok (set_account uid (a\<lparr>ac_balance := Some b\<rparr>) l)"
  by (rule ledger_ok_account) (auto simp: ledger_ok_def account_ok_def)

lemma SetBalance_ok: "ledger_ok l \<Longrightarrow> ledger_ok (fst (SetBalance f uid cents unl l))"
proof -
  assume ok: "ledger_ok l"
  have "ledger_ok ((set_account uid (a\<lparr>ac_balance := None\<rparr>) l)
      \<lparr>lg_pending := filter (\<lambda>r. pn_user r \<noteq> uid) (lg_pending l)\<rparr>)" if "lg_users l uid = Some a" for a
    using ok that by (auto simp: ledger_ok_def account_ok_def distinct_map_filter)
  then show ?thesis
    using ok by (auto simp: SetBalance_def setBalanceUnlimited_def ledger_ok_account_at split: option.splits)
qed

lemma AdjustBalance_ok: "ledger_ok l \<Longrightarrow> ledger_ok (fst (AdjustBalance f uid delta l))"
  by (auto simp: AdjustBalance_def plus_balance_def ledger_ok_account_at split: option.splits)

text \<open>A top-up, its parts: the balance after the addition, and the settlement on it.\<close>

lemma top_up_settles:
  fixes delta :: int
  assumes ok: "ledger_ok l" and uid: "uid \<noteq> ''''" and a: "lg_users l uid = Some a"
  defines "after \<equiv> plus_balance (ac_balance a) delta"
  defines "l1 \<equiv> set_account uid (a\<lparr>ac_balance := Some after\<rparr>) l"
  assumes settle: "settlePendingForUser uid l1 = (l2, paid)"
  shows "ledger_ok l2" and "lg_users l2 = (lg_users l)(uid \<mapsto> a\<lparr>ac_balance := Some (after - paid)\<rparr>)"
    and "paid = (if MicrosPerCent \<le> owed uid l then min after (owed uid l div MicrosPerCent) else 0)"
    and "owed uid l2 = (if MicrosPerCent \<le> owed uid l then owed uid l - paid * MicrosPerCent else 0)"
    and "u \<noteq> uid \<Longrightarrow> owed u l2 = owed u l"
proof -
  have pos: "0 \<le> after" by (simp add: after_def plus_balance_def)
  have ok1: "ledger_ok l1" unfolding l1_def by (rule ledger_ok_account_at [OF ok a pos])
  have u1: "lg_users l1 uid = Some (a\<lparr>ac_balance := Some after\<rparr>)" by (simp add: l1_def)
  have o1: "owed v l1 = owed v l" for v by (simp add: l1_def)
  have "ledger_ok l2 \<and> paid = (if MicrosPerCent \<le> owed uid l1 then min after (owed uid l1 div MicrosPerCent) else 0) \<and>
    lg_users l2 = (lg_users l1)(uid \<mapsto> a\<lparr>ac_balance := Some after\<rparr>\<lparr>ac_balance := Some (after - paid)\<rparr>) \<and>
    owed uid l2 = (if MicrosPerCent \<le> owed uid l1 then owed uid l1 - paid * MicrosPerCent else 0) \<and>
    (\<forall>v. v \<noteq> uid \<longrightarrow> owed v l2 = owed v l1)"
    by (rule settle_spec [OF ok1 uid u1 _ settle]) simp
  then show "ledger_ok l2" and "lg_users l2 = (lg_users l)(uid \<mapsto> a\<lparr>ac_balance := Some (after - paid)\<rparr>)"
    and "paid = (if MicrosPerCent \<le> owed uid l then min after (owed uid l div MicrosPerCent) else 0)"
    and "owed uid l2 = (if MicrosPerCent \<le> owed uid l then owed uid l - paid * MicrosPerCent else 0)"
    and "u \<noteq> uid \<Longrightarrow> owed u l2 = owed u l"
    by (simp_all add: o1) (simp_all add: l1_def)
qed

lemma top_up_ok:
  assumes "ledger_ok l"
  shows "ledger_ok (fst (AdjustBalanceWithLedger f i c old tr uid delta l))"
proof (cases "delta = 0 \<or> uid = '''' \<or> f")
  case True
  with assms show ?thesis by (auto simp: AdjustBalanceWithLedger_def)
next
  case False
  show ?thesis
  proof (cases "lg_users l uid")
    case None
    with False assms show ?thesis by (simp add: AdjustBalanceWithLedger_def)
  next
    case (Some a)
    let ?l1 = "set_account uid (a\<lparr>ac_balance := Some (plus_balance (ac_balance a) delta)\<rparr>) l"
    obtain l2 paid where settle: "settlePendingForUser uid ?l1 = (l2, paid)" by fastforce
    have "ledger_ok l2" using top_up_settles(1) [OF assms _ Some settle] False by simp
    moreover from this have "ledger_ok (l2\<lparr>lg_topups := ts\<rparr>)" for ts by (simp add: ledger_ok_def)
    ultimately show ?thesis
      using False Some settle assms by (simp add: AdjustBalanceWithLedger_def Let_def)
  qed
qed

text \<open>C14: whatever happens to it, the ledger stays well formed: no balance is ever negative, a remainder is
  always less than a cent, no request is recorded as owed twice, and none is both charged and owed.\<close>

theorem ledger_invariant:
  assumes "ledger_step\<^sup>*\<^sup>* l l'" "ledger_ok l"
  shows "ledger_ok l'"
  using assms
proof (induction rule: rtranclp_induct)
  case (step l1 l2)
  from step.hyps(2) step.IH [OF step.prems] show ?case
  proof cases
    case (batch gen f ts charges)
    then show ?thesis
      using step.IH [OF step.prems] charge_loop_ok [of l1 gen ts 0 charges]
      by (auto simp: ChargeBalances_def split: sum.splits)
  qed (auto intro: Charge_ok SetBalance_ok AdjustBalance_ok top_up_ok)
qed

theorem ledger_invariant_witness:
  "ledger_ok (fst (SetBalance False ''ann'' (- 5) False (fst (ChargeBalance False ''g'' 1 ''ann'' (1 / 2) ''r1'' demo_ledger))))"
proof -
  have "ledger_step\<^sup>*\<^sup>* demo_ledger (fst (SetBalance False ''ann'' (- 5) False
      (fst (ChargeBalance False ''g'' 1 ''ann'' (1 / 2) ''r1'' demo_ledger))))"
    by (rule rtranclp.rtrancl_into_rtrancl [OF r_into_rtranclp]; rule ledger_step.intros) simp
  from ledger_invariant [OF this demo_ledger_ok(1)] show ?thesis .
qed

lemma topups_kept [simp]:
  "lg_topups (set_account u a l) = lg_topups l" "lg_topups (ensureUsageCompletionTx q u l) = lg_topups l"
  "lg_topups (delete_pending ks l) = lg_topups l" "lg_topups (reduce_pending it c l) = lg_topups l"
  by (simp_all add: set_account_def ensureUsageCompletionTx_def set_charge_def delete_pending_def reduce_pending_def)

lemma topups_rows [simp]: "lg_topups (deletePendingRows items l) = lg_topups l"
  by (induction items arbitrary: l) (simp_all add: deletePendingRows_def)

lemma topups_ensure [simp]:
  "lg_topups (fold (\<lambda>it. ensureUsageCompletionTx (pn_request it) uid) items l) = lg_topups l"
  by (induction items arbitrary: l) simp_all

lemma topups_loop: "lg_topups (fst (settle_loop uid B items l)) = lg_topups l"
  by (induction uid B items l rule: settle_loop.induct) (auto simp: Let_def split: prod.splits)

lemma topups_settle: "lg_topups (fst (settlePendingForUser uid l)) = lg_topups l"
proof -
  have "lg_topups l2 = lg_topups l1" if "settle_loop uid B items l1 = (l2, st)" for B items l1 l2 st
    using that topups_loop [of uid B items l1] by simp
  then show ?thesis
    by (auto simp: settlePendingForUser_def Let_def split: option.splits prod.splits)
qed

text \<open>a top-up that commits adds the amount to the balance (never below zero), pays the user's debts from
  the sum, and writes one row to the log whose \<open>balance_after\<close> is the balance the user then really has.\<close>

theorem top_up_recorded:
  assumes "ledger_ok l" "uid \<noteq> ''''" "delta \<noteq> 0" "lg_users l uid = Some a"
    and "AdjustBalanceWithLedger False True True (ac_balance a) tr uid delta l = (l', Inr t)"
  shows "lg_topups l' = lg_topups l @ [t] \<and> tp_DeltaCents t = delta \<and>
    lg_users l' uid = Some (a\<lparr>ac_balance := Some (tp_BalanceAfter t)\<rparr>) \<and> 0 \<le> tp_BalanceAfter t \<and>
    (let after = plus_balance (ac_balance a) delta in
      tp_BalanceAfter t = after - (if MicrosPerCent \<le> owed uid l then min after (owed uid l div MicrosPerCent) else 0))"
proof -
  let ?l1 = "set_account uid (a\<lparr>ac_balance := Some (plus_balance (ac_balance a) delta)\<rparr>) l"
  obtain l2 paid where settle: "settlePendingForUser uid ?l1 = (l2, paid)" by fastforce
  note s = top_up_settles [OF assms(1,2,4) settle]
  have out: "l' = l2\<lparr>lg_topups := lg_topups l2 @ [t]\<rparr>" "tp_BalanceAfter t = plus_balance (ac_balance a) delta - paid"
    "tp_DeltaCents t = delta"
    using assms(2-5) settle by (auto simp: AdjustBalanceWithLedger_def Let_def)
  have "lg_topups l2 = lg_topups l"
    using topups_settle [of uid ?l1] settle by simp
  moreover have "0 \<le> plus_balance (ac_balance a) delta" by (simp add: plus_balance_def)
  ultimately show ?thesis using s(2,3) out by (auto simp: Let_def min_def)
qed

theorem top_up_recorded_witness:
  "map tp_BalanceAfter (lg_topups (fst (AdjustBalanceWithLedger False True True (Some 3)
      \<lparr>tr_ID = ''t'', tr_OperatorID = ''root'', tr_OperatorUsername = ''root'', tr_Remark = '''', tr_now = 0\<rparr>
      ''ann'' 10 demo_debts))) = [10]"
proof -
  let ?tr = "\<lparr>tr_ID = ''t'', tr_OperatorID = ''root'', tr_OperatorUsername = ''root'', tr_Remark = '''', tr_now = 0\<rparr>"
  have ok: "ledger_ok demo_debts"
    by (simp add: demo_debts_def demo_ledger_def ledger_ok_def account_ok_def pending_key_def)
  have ann: "lg_users demo_debts ''ann'' = Some \<lparr>ac_balance = Some 3, ac_remainder = 2500\<rparr>"
    and owed: "owed ''ann'' demo_debts = 34000" and none: "lg_topups demo_debts = []"
    by (simp_all add: demo_debts_def demo_ledger_def owed_def)
  obtain l' t where run: "AdjustBalanceWithLedger False True True (Some 3) ?tr ''ann'' 10 demo_debts = (l', Inr t)"
    using ann that by (simp add: AdjustBalanceWithLedger_def split_beta Let_def)
  from top_up_recorded [OF ok _ _ ann, of 10 ?tr l' t] run
  have "lg_topups l' = [t] \<and> tp_BalanceAfter t = 10" by (simp add: owed none plus_balance_def)
  with run show ?thesis by simp
qed

section \<open>Where the ledger loses track\<close>

text \<open>a debt that a top-up has paid in part is charged again in full: when the same request is retried
  with a sufficient balance, the user pays the full cost although only the unpaid part \<open>due\<close> is still
  owed, so the part already settled is collected twice.\<close>

theorem partly_settled_charged_again:
  assumes "ledger_ok l" "lg_users l uid = Some a" "ac_balance a = Some b" "uid \<noteq> ''''" "req \<noteq> ''''"
    and "0 < due (req, uid) l" "due (req, uid) l < YuanToMicros yuan"
    and "ac_remainder a + YuanToMicros yuan \<le> b * MicrosPerCent"
  shows "worth uid (fst (ChargeBalance False g ts uid yuan req l)) =
    worth uid l - (YuanToMicros yuan - due (req, uid) l) \<and>
    lg_charges (fst (ChargeBalance False g ts uid yuan req l)) (req, uid) \<noteq> None"
proof -
  have y: "0 < yuan" using assms(6,7) by (cases "yuan \<le> 0") auto
  have lim: "limited uid l" using assms(2,3) by (simp add: limited_def)
  have fresh: "lg_charges l (req, uid) = None"
    using assms(1,6) charged_not_pending [OF assms(1)] due_absent [of "(req, uid)" l] by fastforce
  show ?thesis
    using assms(5)
  proof (cases rule: ChargeBalance_cases [of req False g ts uid yuan l])
    case nothing
    with y assms(4) lim show ?thesis by simp
  next
    case (attempt l' res)
    have "res = Inr ()"
      using assms(1,2,3,5) fresh
    proof (cases rule: attempt_cases [where y = yuan and g = g and ts = ts])
      case short
      with assms(8) show ?thesis by simp
    qed (use attempt(1) in auto)
    with attempt_worth [OF assms(1) lim assms(5) fresh y attempt(1), of uid] attempt(3) show ?thesis
      by simp
  qed
qed

definition demo_partial :: ledger where
  "demo_partial = \<lparr>lg_users = [''ann'' \<mapsto> \<lparr>ac_balance = Some 500, ac_remainder = 0\<rparr>], lg_charges = Map.empty,
     lg_pending = [\<lparr>pn_request = ''r1'', pn_user = ''ann'', pn_micros = 1000000, pn_ts = 1\<rparr>], lg_topups = []\<rparr>"

lemma YuanToMicros_two: "YuanToMicros 2 = 2000000"
proof -
  have "f64 (of_int 2000000) = of_int 2000000" by (rule f64_of_int) simp_all
  then have "fmul 2 1000000 = 2000000" by (simp add: fmul_def)
  moreover have "go_round 2000000 = 2000000" by (simp add: go_round_def floor_eq_iff)
  ultimately show ?thesis by (simp add: YuanToMicros_def)
qed

theorem partly_settled_charged_again_witness:
  "worth ''ann'' (fst (ChargeBalance False ''g'' 2 ''ann'' 2 ''r1'' demo_partial)) = worth ''ann'' demo_partial - 1000000"
proof -
  have "ledger_ok demo_partial" "due (''r1'', ''ann'') demo_partial = 1000000"
    by (simp_all add: demo_partial_def ledger_ok_def account_ok_def pending_key_def due_def)
  then show ?thesis
    using partly_settled_charged_again [of demo_partial "''ann''" "\<lparr>ac_balance = Some 500, ac_remainder = 0\<rparr>" 500 "''r1''" 2 "''g''" 2]
    by (simp add: YuanToMicros_two) (simp add: demo_partial_def)
qed

text \<open>a debt forgiven by making the user unlimited is not settled for good: no completion mark stays
  behind, so once the user has a limit again a retry of the request charges it from the start.\<close>

theorem forgiven_debt_revives:
  assumes "ledger_ok l" "lg_users l uid = Some a" "due (req, uid) l \<noteq> 0" "uid \<noteq> ''''" "req \<noteq> ''''" "0 < yuan" "0 \<le> cents"
  defines "l1 \<equiv> fst (SetBalance False uid cents False (fst (SetBalance False uid 0 True l)))"
  shows "worth uid (fst (ChargeBalance False g ts uid yuan req l1)) = worth uid l1 - YuanToMicros yuan"
proof -
  have "untouched (req, uid) l1"
  proof -
    have "lg_charges l (req, uid) = None"
      using assms(1,3) charged_not_pending [OF assms(1)] due_absent [of "(req, uid)" l] by fastforce
    moreover have "due (req, uid) l1 = 0"
      using assms(2) by (auto simp: l1_def SetBalance_def setBalanceUnlimited_def due_def pending_key_def filter_empty_conv)
    ultimately show ?thesis
      using assms(2) by (simp add: untouched_def l1_def SetBalance_def setBalanceUnlimited_def)
  qed
  moreover have "ledger_ok l1" unfolding l1_def by (intro SetBalance_ok assms(1))
  moreover have "limited uid l1"
    using assms(2) by (simp add: l1_def SetBalance_def setBalanceUnlimited_def limited_def)
  ultimately show ?thesis
    using Charge_first assms(4-6) by blast
qed

theorem forgiven_debt_revives_witness:
  "worth ''ann'' (fst (ChargeBalance False ''g'' 2 ''ann'' 2 ''r1''
     (fst (SetBalance False ''ann'' 700 False (fst (SetBalance False ''ann'' 0 True demo_partial)))))) =
   worth ''ann'' (fst (SetBalance False ''ann'' 700 False (fst (SetBalance False ''ann'' 0 True demo_partial)))) - YuanToMicros 2"
proof -
  have "ledger_ok demo_partial" "due (''r1'', ''ann'') demo_partial = 1000000"
    by (simp_all add: demo_partial_def ledger_ok_def account_ok_def pending_key_def due_def)
  then show ?thesis
    by (intro forgiven_debt_revives [where a = "\<lparr>ac_balance = Some 500, ac_remainder = 0\<rparr>"]) (simp_all add: demo_partial_def)
qed

text \<open>A top-up whose log row cannot be written and whose rollback-safe commit then fails too still
  reports success, while nothing has been credited.\<close>

theorem lost_top_up_reported_ok:
  assumes "lg_users l uid = Some a" "uid \<noteq> ''''" "delta \<noteq> 0"
  shows "case AdjustBalanceWithLedger False False False old tr uid delta l of
    (l', res) \<Rightarrow> l' = l \<and> (\<exists>t. res = Inr t \<and> tp_DeltaCents t = delta)"
  using assms by (simp add: AdjustBalanceWithLedger_def split_beta Let_def)

end
