(* ===== verification/Quota.thy ===== *)
theory Quota
  imports Ledger Ratelimit
begin

text \<open>
  The lifetime token quotas: \<^verbatim>\<open>internal/store/key_dao.go\<close> and \<^verbatim>\<open>internal/store/user_dao.go\<close>
  (reserving and releasing), the triggers of \<^verbatim>\<open>internal/store/schema.go\<close> that count recorded usage,
  \<^verbatim>\<open>internal/store/reservation_recovery.go\<close> (leases, recovery, sweep) and
  \<^verbatim>\<open>internal/dataplane/rate.go\<close>, the finalizer of one request's reservations. Every method is one
  transaction on the record \<open>quota_db\<close>; \<open>dbFails\<close> is the technical failure of that transaction.
\<close>

section \<open>State\<close>

record quota_row =
  qr_quota :: int
  qr_used :: int
  qr_reserved :: int

record user_row =
  ur_quota :: int
  ur_reserved :: int

datatype lease_scope = KeyScope | UserScope

record lease =
  ls_request :: ident
  ls_scope :: lease_scope
  ls_target :: ident
  ls_reserved :: int
  ls_released :: bool
  ls_until :: int

record quota_db =
  qd_keys :: "ident \<rightharpoonup> quota_row"
  qd_users :: "ident \<rightharpoonup> user_row"
  qd_totals :: "ident \<rightharpoonup> int"
  qd_leases :: "lease list"

definition set_key :: "ident \<Rightarrow> quota_row \<Rightarrow> quota_db \<Rightarrow> quota_db" where
  "set_key k r d = d\<lparr>qd_keys := (qd_keys d)(k \<mapsto> r)\<rparr>"

definition set_user :: "ident \<Rightarrow> user_row \<Rightarrow> quota_db \<Rightarrow> quota_db" where
  "set_user u r d = d\<lparr>qd_users := (qd_users d)(u \<mapsto> r)\<rparr>"

text \<open>\<open>COALESCE((SELECT total_tokens FROM user_usage_totals ...), 0)\<close>.\<close>

definition user_total :: "ident \<Rightarrow> quota_db \<Rightarrow> int" where
  "user_total u d = (case qd_totals d u of None \<Rightarrow> 0 | Some n \<Rightarrow> n)"

text \<open>The insert triggers of a usage record.\<close>

definition count_usage :: "ident \<Rightarrow> ident \<Rightarrow> int \<Rightarrow> quota_db \<Rightarrow> quota_db" where
  "count_usage keyID userID tokens d =
     (let d = (case qd_keys d keyID of None \<Rightarrow> d
               | Some r \<Rightarrow> set_key keyID (r\<lparr>qr_used := qr_used r + tokens\<rparr>) d) in
      if userID = '''' then d
      else d\<lparr>qd_totals := (qd_totals d)(userID \<mapsto> user_total userID d + tokens)\<rparr>)"

section \<open>Reserving and releasing\<close>

text \<open>\<open>(quota, used, ok)\<close>.\<close>

definition GetKeyQuota :: "bool \<Rightarrow> ident \<Rightarrow> quota_db \<Rightarrow> store_error + (int \<times> int \<times> bool)" where
  "GetKeyQuota dbFails k d =
     (if dbFails then Inl DatabaseError
      else (case qd_keys d k of None \<Rightarrow> Inr (0, 0, False) | Some r \<Rightarrow> Inr (qr_quota r, qr_used r, True)))"

definition at_least_one :: "int \<Rightarrow> int" where
  "at_least_one est = (if est \<le> 0 then 1 else est)"

definition ReserveQuota :: "bool \<Rightarrow> ident \<Rightarrow> int \<Rightarrow> quota_db \<Rightarrow> quota_db \<times> (store_error + (int \<times> bool))" where
  "ReserveQuota dbFails k est0 d =
     (let est = at_least_one est0 in
      if dbFails then (d, Inl DatabaseError)
      else (case qd_keys d k of
              None \<Rightarrow> (d, Inr (0, False))
            | Some r \<Rightarrow>
                if qr_quota r > 0 \<and> qr_used r + qr_reserved r + est \<le> qr_quota r
                then (set_key k (r\<lparr>qr_reserved := qr_reserved r + est\<rparr>) d, Inr (est, True))
                else if qr_quota r \<le> 0 then (d, Inr (0, True))
                else (d, Inr (0, False))))"

definition ReserveUserQuota :: "bool \<Rightarrow> ident \<Rightarrow> int \<Rightarrow> quota_db \<Rightarrow> quota_db \<times> (store_error + (int \<times> bool))" where
  "ReserveUserQuota dbFails u est0 d =
     (let est = at_least_one est0 in
      if dbFails then (d, Inl DatabaseError)
      else (case qd_users d u of
              None \<Rightarrow> (d, Inr (0, False))
            | Some r \<Rightarrow>
                if ur_quota r > 0 \<and> user_total u d + ur_reserved r + est \<le> ur_quota r
                then (set_user u (r\<lparr>ur_reserved := ur_reserved r + est\<rparr>) d, Inr (est, True))
                else if ur_quota r \<le> 0 then (d, Inr (0, True))
                else (d, Inr (0, False))))"

text \<open>The two \<open>UPDATE\<close> statements that take a reservation back, never below zero.\<close>

definition drop_key :: "ident \<Rightarrow> int \<Rightarrow> quota_db \<Rightarrow> quota_db" where
  "drop_key k n d = (case qd_keys d k of None \<Rightarrow> d
     | Some r \<Rightarrow> set_key k (r\<lparr>qr_reserved := max 0 (qr_reserved r - n)\<rparr>) d)"

definition drop_user :: "ident \<Rightarrow> int \<Rightarrow> quota_db \<Rightarrow> quota_db" where
  "drop_user u n d = (case qd_users d u of None \<Rightarrow> d
     | Some r \<Rightarrow> set_user u (r\<lparr>ur_reserved := max 0 (ur_reserved r - n)\<rparr>) d)"

definition ReleaseQuota :: "bool \<Rightarrow> ident \<Rightarrow> int \<Rightarrow> quota_db \<Rightarrow> quota_db \<times> bool" where
  "ReleaseQuota dbFails k reserved d =
     (if reserved \<le> 0 then (d, True) else if dbFails then (d, False) else (drop_key k reserved d, True))"

definition ReleaseUserQuota :: "bool \<Rightarrow> ident \<Rightarrow> int \<Rightarrow> quota_db \<Rightarrow> quota_db \<times> bool" where
  "ReleaseUserQuota dbFails u reserved d =
     (if reserved \<le> 0 then (d, True) else if dbFails then (d, False) else (drop_user u reserved d, True))"

section \<open>Leases\<close>

definition recoverStaleReservations :: "bool \<Rightarrow> quota_db \<Rightarrow> quota_db" where
  "recoverStaleReservations dbFails d =
     (if dbFails then d
      else d\<lparr>qd_keys := (\<lambda>k. map_option (\<lambda>r. if qr_reserved r > 0 then r\<lparr>qr_reserved := 0\<rparr> else r) (qd_keys d k)),
             qd_users := (\<lambda>u. map_option (\<lambda>r. if ur_reserved r > 0 then r\<lparr>ur_reserved := 0\<rparr> else r) (qd_users d u)),
             qd_leases := map (\<lambda>s. if ls_released s then s else s\<lparr>ls_released := True, ls_until := 0\<rparr>) (qd_leases d)\<rparr>)"

definition lease_key :: "lease \<Rightarrow> ident \<times> lease_scope \<times> ident" where
  "lease_key s = (ls_request s, ls_scope s, ls_target s)"

definition open_leases :: "ident \<Rightarrow> quota_db \<Rightarrow> lease list" where
  "open_leases req d = filter (\<lambda>s. ls_request s = req \<and> \<not> ls_released s) (qd_leases d)"

definition release_lease :: "lease \<Rightarrow> quota_db \<Rightarrow> quota_db" where
  "release_lease s d =
     (let d = (case ls_scope s of KeyScope \<Rightarrow> drop_key (ls_target s) (ls_reserved s) d
               | UserScope \<Rightarrow> drop_user (ls_target s) (ls_reserved s) d) in
      d\<lparr>qd_leases := map (\<lambda>t. if lease_key t = lease_key s then t\<lparr>ls_released := True, ls_until := 0\<rparr> else t)
          (qd_leases d)\<rparr>)"

datatype release_result = Released | NoOwnedReservations | ReleaseFailed

definition ReleaseOwnedQuotaReservations :: "bool \<Rightarrow> ident \<Rightarrow> quota_db \<Rightarrow> quota_db \<times> release_result" where
  "ReleaseOwnedQuotaReservations dbFails req d =
     (if req = '''' then (d, NoOwnedReservations)
      else if dbFails then (d, ReleaseFailed)
      else (let leases = open_leases req d in
            if leases = [] then (d, NoOwnedReservations)
            else (fold release_lease leases d, Released)))"

text \<open>\<open>fails i\<close> is the failure of the release of the \<open>i\<close>-th expired request; it is skipped then.\<close>

fun sweep_loop :: "(nat \<Rightarrow> bool) \<Rightarrow> nat \<Rightarrow> ident list \<Rightarrow> quota_db \<Rightarrow> quota_db" where
  "sweep_loop fails i [] d = d"
| "sweep_loop fails i (req # reqs) d =
     sweep_loop fails (i + 1) reqs (fst (ReleaseOwnedQuotaReservations (fails i) req d))"

definition SweepExpiredQuotaReservations :: "bool \<Rightarrow> (nat \<Rightarrow> bool) \<Rightarrow> int \<Rightarrow> quota_db \<Rightarrow> quota_db" where
  "SweepExpiredQuotaReservations dbFails fails nowMs d0 =
     (if dbFails then d0
      else (let d = d0\<lparr>qd_leases := filter (\<lambda>s. \<not> (ls_released s \<and> ls_until s = 0)) (qd_leases d0)\<rparr> in
            sweep_loop fails 0
              (remdups (map ls_request (filter (\<lambda>s. \<not> ls_released s \<and> ls_until s < nowMs) (qd_leases d)))) d))"

abbreviation (input) quotaReservationLeaseTTL :: duration where "quotaReservationLeaseTTL \<equiv> 30 * minute"

text \<open>\<open>INSERT ... ON CONFLICT DO UPDATE\<close> on the primary key.\<close>

definition put_lease :: "lease \<Rightarrow> quota_db \<Rightarrow> quota_db" where
  "put_lease s d = d\<lparr>qd_leases :=
     (if lease_key s \<in> lease_key ` set (qd_leases d)
      then map (\<lambda>t. if lease_key t = lease_key s then s else t) (qd_leases d) else qd_leases d @ [s])\<rparr>"

definition RecordQuotaReservationLease ::
  "bool \<Rightarrow> instant \<Rightarrow> ident \<Rightarrow> ident \<Rightarrow> ident \<Rightarrow> int \<Rightarrow> int \<Rightarrow> quota_db \<Rightarrow> quota_db" where
  "RecordQuotaReservationLease dbFails now req keyID userID keyReserved userReserved d =
     (if req = '''' \<or> dbFails then d
      else
       (let until = unix_milli (now + quotaReservationLeaseTTL);
            d = (if keyReserved > 0 \<and> keyID \<noteq> ''''
                 then put_lease \<lparr>ls_request = req, ls_scope = KeyScope, ls_target = keyID, ls_reserved = keyReserved,
                        ls_released = False, ls_until = until\<rparr> d else d)
        in if userReserved > 0 \<and> userID \<noteq> ''''
           then put_lease \<lparr>ls_request = req, ls_scope = UserScope, ls_target = userID, ls_reserved = userReserved,
                  ls_released = False, ls_until = until\<rparr> d else d))"

section \<open>The finalizer of one request\<close>

record rate_commit =
  rc_keyID :: ident
  rc_limit :: int
  rc_reserved :: int
  rc_hasStore :: bool
  rc_quotaReserved :: int
  rc_userQuotaReserved :: int
  rc_userID :: ident
  rc_requestID :: ident

definition NewRateCommit :: "ident \<Rightarrow> int \<Rightarrow> int \<Rightarrow> bool \<Rightarrow> rate_commit" where
  "NewRateCommit keyID limit reserved hasStore =
     \<lparr>rc_keyID = keyID, rc_limit = limit, rc_reserved = reserved, rc_hasStore = hasStore,
      rc_quotaReserved = 0, rc_userQuotaReserved = 0, rc_userID = '''', rc_requestID = ''''\<rparr>"

definition setTPMReserved :: "int \<Rightarrow> rate_commit option \<Rightarrow> rate_commit option" where
  "setTPMReserved n = map_option (\<lambda>rc. rc\<lparr>rc_reserved := n\<rparr>)"

definition SetRequestID :: "ident \<Rightarrow> rate_commit option \<Rightarrow> rate_commit option" where
  "SetRequestID req = map_option (\<lambda>rc. rc\<lparr>rc_requestID := req\<rparr>)"

definition syncLease :: "bool \<Rightarrow> instant \<Rightarrow> rate_commit \<Rightarrow> quota_db \<Rightarrow> quota_db" where
  "syncLease dbFails now rc d =
     (if \<not> rc_hasStore rc \<or> rc_requestID rc = '''' then d
      else RecordQuotaReservationLease dbFails now (rc_requestID rc) (rc_keyID rc) (rc_userID rc)
             (rc_quotaReserved rc) (rc_userQuotaReserved rc) d)"

definition SetKeyQuotaReserved ::
  "bool \<Rightarrow> instant \<Rightarrow> int \<Rightarrow> rate_commit option \<Rightarrow> quota_db \<Rightarrow> rate_commit option \<times> quota_db" where
  "SetKeyQuotaReserved dbFails now n rco d =
     (case rco of None \<Rightarrow> (None, d)
      | Some rc \<Rightarrow> (let rc = rc\<lparr>rc_quotaReserved := n\<rparr> in (Some rc, syncLease dbFails now rc d)))"

definition SetUserQuotaReserved ::
  "bool \<Rightarrow> instant \<Rightarrow> ident \<Rightarrow> int \<Rightarrow> rate_commit option \<Rightarrow> quota_db \<Rightarrow> rate_commit option \<times> quota_db" where
  "SetUserQuotaReserved dbFails now uid n rco d =
     (case rco of None \<Rightarrow> (None, d)
      | Some rc \<Rightarrow> (let rc = rc\<lparr>rc_userID := uid, rc_userQuotaReserved := n\<rparr> in (Some rc, syncLease dbFails now rc d)))"

text \<open>Each of the two statements may fail on its own: \<open>f1\<close> for the key, \<open>f2\<close> for the user.\<close>

definition releaseWithoutLease :: "bool \<Rightarrow> bool \<Rightarrow> rate_commit \<Rightarrow> quota_db \<Rightarrow> rate_commit \<times> quota_db" where
  "releaseWithoutLease f1 f2 rc0 d0 =
     (case (if rc_quotaReserved rc0 > 0
            then (case ReleaseQuota f1 (rc_keyID rc0) (rc_quotaReserved rc0) d0 of
                    (d, ok) \<Rightarrow> (if ok then rc0\<lparr>rc_quotaReserved := 0\<rparr> else rc0, d))
            else (rc0, d0)) of
        (rc, d) \<Rightarrow>
          if rc_userQuotaReserved rc > 0
          then (case ReleaseUserQuota f2 (rc_userID rc) (rc_userQuotaReserved rc) d of
                  (d, ok) \<Rightarrow> (if ok then rc\<lparr>rc_userQuotaReserved := 0\<rparr> else rc, d))
          else (rc, d))"

definition rc_ReleaseQuota ::
  "bool \<Rightarrow> bool \<Rightarrow> bool \<Rightarrow> rate_commit option \<Rightarrow> quota_db \<Rightarrow> rate_commit option \<times> quota_db" where
  "rc_ReleaseQuota f f1 f2 rco d =
     (case rco of
        None \<Rightarrow> (None, d)
      | Some rc \<Rightarrow>
          if \<not> rc_hasStore rc then (Some rc, d)
          else if rc_requestID rc \<noteq> '''' then
            (case ReleaseOwnedQuotaReservations f (rc_requestID rc) d of
               (d', NoOwnedReservations) \<Rightarrow> (case releaseWithoutLease f1 f2 rc d' of (rc, d) \<Rightarrow> (Some rc, d))
             | (d', ReleaseFailed) \<Rightarrow> (Some rc, d')
             | (d', Released) \<Rightarrow> (Some (rc\<lparr>rc_quotaReserved := 0, rc_userQuotaReserved := 0\<rparr>), d'))
          else (case releaseWithoutLease f1 f2 rc d of (rc, d) \<Rightarrow> (Some rc, d)))"

definition rc_Commit ::
  "bool \<Rightarrow> bool \<Rightarrow> bool \<Rightarrow> instant \<Rightarrow> int \<Rightarrow> rate_commit option \<Rightarrow> limiter \<Rightarrow> quota_db
    \<Rightarrow> rate_commit option \<times> limiter \<times> quota_db" where
  "rc_Commit f f1 f2 now actual rco lim0 d =
     (case rco of
        None \<Rightarrow> (None, lim0, d)
      | Some rc \<Rightarrow>
          (case rc_ReleaseQuota f f1 f2 (Some rc) d of
             (rco, d) \<Rightarrow> (rco, CommitTPM (rc_keyID rc) (rc_limit rc) (rc_reserved rc) actual now lim0, d)))"

section \<open>The contract of a quota\<close>

text \<open>A quota belongs to identities; \<open>row\<close> shows its limit, the tokens used and the tokens held by
  requests in flight.\<close>

locale token_quota =
  fixes reserve :: "ident \<Rightarrow> int \<Rightarrow> 's \<Rightarrow> 's \<times> (store_error + (int \<times> bool))"
    and give_back :: "ident \<Rightarrow> int \<Rightarrow> 's \<Rightarrow> 's"
    and tally :: "ident \<Rightarrow> int \<Rightarrow> 's \<Rightarrow> 's"
    and row :: "ident \<Rightarrow> 's \<Rightarrow> (int \<times> int \<times> int) option"
  assumes reserve_row: "row i s = Some (q, u, h) \<Longrightarrow> 0 < q \<Longrightarrow>
      (if u + h + at_least_one e \<le> q
       then snd (reserve i e s) = Inr (at_least_one e, True) \<and> row i (fst (reserve i e s)) = Some (q, u, h + at_least_one e)
       else snd (reserve i e s) = Inr (0, False) \<and> row i (fst (reserve i e s)) = Some (q, u, h))"
    and give_row: "row i s = Some (q, u, h) \<Longrightarrow> row i (give_back i n s) = Some (q, u, max 0 (h - n))"
    and tally_row: "row i s = Some (q, u, h) \<Longrightarrow> row i (tally i n s) = Some (q, u + n, h)"
    and frame: "i \<noteq> j \<Longrightarrow> row i (fst (reserve j e s)) = row i s \<and> row i (give_back j n s) = row i s \<and> row i (tally j n s) = row i s"

text \<open>What happens to a quota: a request asks, and one in flight finishes with the tokens it used.\<close>

datatype quota_event = Ask ident int | Finish ident nat int

fun quota_step ::
  "(ident \<Rightarrow> int \<Rightarrow> 's \<Rightarrow> 's \<times> (store_error + (int \<times> bool))) \<Rightarrow> (ident \<Rightarrow> int \<Rightarrow> 's \<Rightarrow> 's) \<Rightarrow> (ident \<Rightarrow> int \<Rightarrow> 's \<Rightarrow> 's)
    \<Rightarrow> quota_event \<Rightarrow> 's \<times> (ident \<Rightarrow> int list) \<Rightarrow> 's \<times> (ident \<Rightarrow> int list)" where
  "quota_step reserve give_back tally (Ask i e) (s, out) =
     (case reserve i e s of
        (s', Inr (n, True)) \<Rightarrow> (s', out(i := out i @ [n]))
      | (s', _) \<Rightarrow> (s', out))"
| "quota_step reserve give_back tally (Finish i j actual) (s, out) =
     (if j < length (out i)
      then (give_back i (out i ! j) (tally i actual s), out(i := take j (out i) @ drop (Suc j) (out i)))
      else (s, out))"

text \<open>No finished request of \<open>i\<close> used more than it had reserved.\<close>

fun within_estimates :: "(quota_event \<Rightarrow> 's \<times> (ident \<Rightarrow> int list) \<Rightarrow> 's \<times> (ident \<Rightarrow> int list)) \<Rightarrow> ident
    \<Rightarrow> quota_event list \<Rightarrow> 's \<times> (ident \<Rightarrow> int list) \<Rightarrow> bool" where
  "within_estimates step i [] st \<longleftrightarrow> True"
| "within_estimates step i (e # es) st \<longleftrightarrow>
     (case e of Finish k j actual \<Rightarrow> k = i \<and> j < length (snd st i) \<longrightarrow> actual \<le> snd st i ! j | _ \<Rightarrow> True) \<and>
     within_estimates step i es (step e st)"

lemma sum_list_remove_nth:
  "j < length xs \<Longrightarrow> sum_list (take j xs @ drop (Suc j) xs) = sum_list xs - (xs ! j :: int)"
proof -
  assume "j < length xs"
  then have "sum_list xs = sum_list (take j xs @ xs ! j # drop (Suc j) xs)"
    by (simp add: id_take_nth_drop [symmetric])
  then show ?thesis by simp
qed

lemma sum_list_nth_le: "\<forall>n \<in> set xs. 0 < n \<Longrightarrow> j < length xs \<Longrightarrow> (xs ! j :: int) \<le> sum_list xs"
proof -
  assume pos: "\<forall>n \<in> set xs. 0 < n" and j: "j < length xs"
  have "0 \<le> sum_list (take j xs @ drop (Suc j) xs)"
    using pos by (intro sum_list_nonneg) (auto dest: in_set_takeD in_set_dropD less_imp_le)
  then show ?thesis using sum_list_remove_nth [OF j] by linarith
qed

context token_quota begin

abbreviation step :: "quota_event \<Rightarrow> 's \<times> (ident \<Rightarrow> int list) \<Rightarrow> 's \<times> (ident \<Rightarrow> int list)" where
  "step \<equiv> quota_step reserve give_back tally"

lemma step_other:
  "(case e of Ask j _ \<Rightarrow> j | Finish j _ _ \<Rightarrow> j) \<noteq> i \<Longrightarrow>
    row i (fst (step e (s, out))) = row i s \<and> snd (step e (s, out)) i = out i"
proof (cases e)
  case (Ask j n)
  assume "(case e of Ask j _ \<Rightarrow> j | Finish j _ _ \<Rightarrow> j) \<noteq> i"
  then have "i \<noteq> j" using Ask by simp
  from frame [OF this, of n s] Ask \<open>i \<noteq> j\<close> show ?thesis
    by (auto split: prod.splits sum.splits bool.splits)
next
  case (Finish j m n)
  assume "(case e of Ask j _ \<Rightarrow> j | Finish j _ _ \<Rightarrow> j) \<noteq> i"
  then have ij: "i \<noteq> j" using Finish by simp
  have "row i (give_back j x (tally j n s)) = row i s" for x
    using frame [OF ij, of n "tally j n s" x] frame [OF ij, of n s n] by simp
  with Finish ij show ?thesis by simp
qed

text \<open>The held tokens are exactly those of the requests in flight.\<close>

lemma step_held:
  assumes "row i s = Some (q, u, h)" "0 < q" "h = sum_list (out i)" "\<forall>n \<in> set (out i). 0 < n"
    and "step e (s, out) = (s', out')"
  shows "\<exists>u'. row i s' = Some (q, u', sum_list (out' i)) \<and> (\<forall>n \<in> set (out' i). 0 < n) \<and>
    (u + h \<le> q \<and> (case e of Finish k j actual \<Rightarrow> k = i \<and> j < length (out i) \<longrightarrow> actual \<le> out i ! j | _ \<Rightarrow> True)
      \<longrightarrow> u' + sum_list (out' i) \<le> q)"
proof (cases "(case e of Ask j _ \<Rightarrow> j | Finish j _ _ \<Rightarrow> j) = i")
  case False
  from step_other [OF this, of s out] assms show ?thesis by simp
next
  case same: True
  show ?thesis
  proof (cases e)
    case (Ask j est)
    with same have j: "j = i" by simp
    obtain s1 r where r: "reserve i est s = (s1, r)" by fastforce
    have "0 < at_least_one est" by (simp add: at_least_one_def)
    with reserve_row [OF assms(1,2), of est] r Ask j assms(3-5) show ?thesis
      by (auto split: if_splits)
  next
    case (Finish j m actual)
    with same have j: "j = i" by simp
    show ?thesis
    proof (cases "m < length (out i)")
      case False
      with assms Finish j show ?thesis by auto
    next
      case True
      have held: "out i ! m \<le> sum_list (out i)" by (rule sum_list_nth_le [OF assms(4) True])
      have out': "out' i = take m (out i) @ drop (Suc m) (out i)" and s': "s' = give_back i (out i ! m) (tally i actual s)"
        using assms(5) Finish j True by auto
      have "row i s' = Some (q, u + actual, sum_list (out' i))"
        using give_row [OF tally_row [OF assms(1)], of "out i ! m" actual] held assms(3)
        unfolding s' out' sum_list_remove_nth [OF True] by simp
      moreover have "\<forall>n \<in> set (out' i). 0 < n"
        unfolding out' using assms(4) by (auto dest: in_set_takeD in_set_dropD)
      moreover have "sum_list (out' i) = h - out i ! m"
        unfolding out' sum_list_remove_nth [OF True] using assms(3) by simp
      ultimately show ?thesis using Finish j True by auto
    qed
  qed
qed

lemma never_exceeded:
  assumes "row i s = Some (q, u, sum_list (out i))" "0 < q" "\<forall>n \<in> set (out i). 0 < n" "u + sum_list (out i) \<le> q"
    and "within_estimates step i es (s, out)" "fold step es (s, out) = (s', out')"
  shows "\<exists>u'. row i s' = Some (q, u', sum_list (out' i)) \<and> u' + sum_list (out' i) \<le> q"
  using assms
proof (induction es arbitrary: s out u)
  case Nil
  then show ?case by auto
next
  case (Cons e es)
  obtain s1 out1 where st: "step e (s, out) = (s1, out1)" by fastforce
  have "case e of Finish k j actual \<Rightarrow> k = i \<and> j < length (out i) \<longrightarrow> actual \<le> out i ! j | _ \<Rightarrow> True"
    using Cons.prems(5) by (cases e) auto
  with step_held [OF Cons.prems(1,2) refl Cons.prems(3) st] Cons.prems(4)
  obtain u1 where "row i s1 = Some (q, u1, sum_list (out1 i))" "\<forall>n \<in> set (out1 i). 0 < n" "u1 + sum_list (out1 i) \<le> q"
    by blast
  from Cons.IH [of s1 u1 out1, OF this(1) Cons.prems(2) this(2,3)] Cons.prems(5,6) st show ?case by simp
qed

lemma held_is_in_flight:
  assumes "row i s = Some (q, u, sum_list (out i))" "0 < q" "\<forall>n \<in> set (out i). 0 < n"
    and "fold step es (s, out) = (s', out')"
  shows "\<exists>u'. row i s' = Some (q, u', sum_list (out' i))"
  using assms
proof (induction es arbitrary: s out u)
  case Nil
  then show ?case by auto
next
  case (Cons e es)
  obtain s1 out1 where st: "step e (s, out) = (s1, out1)" by fastforce
  from step_held [OF Cons.prems(1,2) refl Cons.prems(3) st]
  obtain u1 where "row i s1 = Some (q, u1, sum_list (out1 i))" "\<forall>n \<in> set (out1 i). 0 < n" by auto
  from Cons.IH [of s1 u1 out1, OF this(1) Cons.prems(2) this(2)] Cons.prems(4) st show ?case by simp
qed

end

section \<open>Both quotas keep the contract\<close>

definition key_row :: "ident \<Rightarrow> quota_db \<Rightarrow> (int \<times> int \<times> int) option" where
  "key_row k d = map_option (\<lambda>r. (qr_quota r, qr_used r, qr_reserved r)) (qd_keys d k)"

definition user_quota_row :: "ident \<Rightarrow> quota_db \<Rightarrow> (int \<times> int \<times> int) option" where
  "user_quota_row u d =
     (if u = '''' then None else map_option (\<lambda>r. (ur_quota r, user_total u d, ur_reserved r)) (qd_users d u))"

named_theorems quota_defs "definitions of the quota operations"
lemmas [quota_defs] = ReserveQuota_def ReserveUserQuota_def drop_key_def drop_user_def count_usage_def
  set_key_def set_user_def user_total_def key_row_def user_quota_row_def Let_def

interpretation key_quota: token_quota "ReserveQuota False" drop_key "\<lambda>k n. count_usage k u n" key_row for u
  by unfold_locales (auto simp: quota_defs split: option.splits if_splits)

interpretation user_quota: token_quota "ReserveUserQuota False" drop_user "\<lambda>u n. count_usage k u n" user_quota_row for k
  by unfold_locales (auto simp: quota_defs split: option.splits if_splits)

abbreviation key_step :: "ident \<Rightarrow> quota_event \<Rightarrow> quota_db \<times> (ident \<Rightarrow> int list) \<Rightarrow> quota_db \<times> (ident \<Rightarrow> int list)" where
  "key_step u \<equiv> quota_step (ReserveQuota False) drop_key (\<lambda>k n. count_usage k u n)"

abbreviation user_step :: "ident \<Rightarrow> quota_event \<Rightarrow> quota_db \<times> (ident \<Rightarrow> int list) \<Rightarrow> quota_db \<times> (ident \<Rightarrow> int list)" where
  "user_step k \<equiv> quota_step (ReserveUserQuota False) drop_user (\<lambda>u n. count_usage k u n)"


definition demo_quota :: quota_db where
  "demo_quota = \<lparr>qd_keys = [''k'' \<mapsto> \<lparr>qr_quota = 1000, qr_used = 100, qr_reserved = 0\<rparr>],
     qd_users = [''ann'' \<mapsto> \<lparr>ur_quota = 500, ur_reserved = 0\<rparr>], qd_totals = Map.empty, qd_leases = []\<rparr>"




section \<open>Releasing\<close>

lemma drop_leases [simp]: "qd_leases (drop_key k n d) = qd_leases d" "qd_leases (drop_user u n d) = qd_leases d"
  by (simp_all add: drop_key_def drop_user_def set_key_def set_user_def split: option.splits)

lemma open_leases_release:
  "open_leases req (release_lease s d) = filter (\<lambda>t. lease_key t \<noteq> lease_key s) (open_leases req d)"
proof -
  have "filter (\<lambda>t. ls_request t = req \<and> \<not> ls_released t)
      (map (\<lambda>t. if lease_key t = lease_key s then t\<lparr>ls_released := True, ls_until := 0\<rparr> else t) ts) =
      filter (\<lambda>t. lease_key t \<noteq> lease_key s) (filter (\<lambda>t. ls_request t = req \<and> \<not> ls_released t) ts)" for ts
    by (induction ts) auto
  then show ?thesis
    by (cases "ls_scope s") (simp_all add: open_leases_def release_lease_def Let_def del: filter_filter)
qed

lemma open_leases_all:
  "open_leases req (fold release_lease ls d) = filter (\<lambda>t. lease_key t \<notin> lease_key ` set ls) (open_leases req d)"
proof (induction ls arbitrary: d)
  case (Cons s ls)
  show ?case
    unfolding fold_Cons comp_apply Cons.IH open_leases_release filter_filter by (rule filter_cong) auto
qed simp

lemma released_all [simp]: "open_leases req (fold release_lease (open_leases req d) d) = []"
  unfolding open_leases_all by (simp add: filter_empty_conv)

definition held_key :: "ident \<Rightarrow> quota_db \<Rightarrow> int" where
  "held_key k d = (case qd_keys d k of None \<Rightarrow> 0 | Some r \<Rightarrow> qr_reserved r)"

definition held_user :: "ident \<Rightarrow> quota_db \<Rightarrow> int" where
  "held_user u d = (case qd_users d u of None \<Rightarrow> 0 | Some r \<Rightarrow> ur_reserved r)"

lemma held_drop:
  "held_key k (drop_user u n d) = held_key k d" "held_user u (drop_key k n d) = held_user u d"
  "0 \<le> n \<Longrightarrow> n \<le> held_key k d \<Longrightarrow> held_key k (drop_key k n d) = held_key k d - n"
  "0 \<le> n \<Longrightarrow> n \<le> held_user u d \<Longrightarrow> held_user u (drop_user u n d) = held_user u d - n"
  by (auto simp: held_key_def held_user_def drop_key_def drop_user_def set_key_def set_user_def split: option.splits)

lemma held_release:
  "held_key k (release_lease s d) = held_key k (case ls_scope s of KeyScope \<Rightarrow> drop_key (ls_target s) (ls_reserved s) d
     | UserScope \<Rightarrow> drop_user (ls_target s) (ls_reserved s) d)"
  "held_user u (release_lease s d) = held_user u (case ls_scope s of KeyScope \<Rightarrow> drop_key (ls_target s) (ls_reserved s) d
     | UserScope \<Rightarrow> drop_user (ls_target s) (ls_reserved s) d)"
  by (cases "ls_scope s"; simp add: release_lease_def held_key_def held_user_def Let_def)+

text \<open>The leases of a request as the finalizer records them: one per reservation it holds.\<close>

definition own_leases :: "int \<Rightarrow> rate_commit \<Rightarrow> lease list" where
  "own_leases until rc =
     (if rc_quotaReserved rc > 0 then [\<lparr>ls_request = rc_requestID rc, ls_scope = KeyScope, ls_target = rc_keyID rc,
        ls_reserved = rc_quotaReserved rc, ls_released = False, ls_until = until\<rparr>] else []) @
     (if rc_userQuotaReserved rc > 0 then [\<lparr>ls_request = rc_requestID rc, ls_scope = UserScope, ls_target = rc_userID rc,
        ls_reserved = rc_userQuotaReserved rc, ls_released = False, ls_until = until\<rparr>] else [])"

text \<open>A finalizer in order: its reservations are held, and its leases are all there, or none is.\<close>

definition rc_ok :: "int \<Rightarrow> rate_commit \<Rightarrow> quota_db \<Rightarrow> bool" where
  "rc_ok until rc d \<longleftrightarrow> rc_hasStore rc \<and> rc_requestID rc \<noteq> '''' \<and>
     0 \<le> rc_quotaReserved rc \<and> 0 \<le> rc_userQuotaReserved rc \<and>
     rc_quotaReserved rc \<le> held_key (rc_keyID rc) d \<and> rc_userQuotaReserved rc \<le> held_user (rc_userID rc) d \<and>
     open_leases (rc_requestID rc) d \<in> {[], own_leases until rc}"

text \<open>What remains of the reservations of others.\<close>

definition others_held :: "rate_commit \<Rightarrow> quota_db \<Rightarrow> int \<times> int" where
  "others_held rc d = (held_key (rc_keyID rc) d - rc_quotaReserved rc, held_user (rc_userID rc) d - rc_userQuotaReserved rc)"

lemma release_owned:
  assumes "rc_ok until rc d" "open_leases (rc_requestID rc) d = own_leases until rc"
  shows "held_key (rc_keyID rc) (fold release_lease (own_leases until rc) d) = held_key (rc_keyID rc) d - rc_quotaReserved rc \<and>
    held_user (rc_userID rc) (fold release_lease (own_leases until rc) d) = held_user (rc_userID rc) d - rc_userQuotaReserved rc"
  using assms by (auto simp: own_leases_def held_release held_drop rc_ok_def)

lemma releaseWithoutLease_ok:
  assumes "rc_ok until rc d" "open_leases (rc_requestID rc) d = []" "releaseWithoutLease f1 f2 rc d = (rc', d')"
  shows "rc_ok until rc' d' \<and> others_held rc' d' = others_held rc d \<and>
    rc_keyID rc' = rc_keyID rc \<and> rc_userID rc' = rc_userID rc \<and>
    (\<not> f1 \<longrightarrow> rc_quotaReserved rc' = 0) \<and> (\<not> f2 \<longrightarrow> rc_userQuotaReserved rc' = 0)"
  using assms
  by (auto simp: releaseWithoutLease_def ReleaseQuota_def ReleaseUserQuota_def rc_ok_def others_held_def held_drop open_leases_def
      split: if_splits)

lemma rc_ReleaseQuota_ok:
  assumes "rc_ok until rc d" "rc_ReleaseQuota f f1 f2 (Some rc) d = (rco, d')"
  shows "\<exists>rc'. rco = Some rc' \<and> rc_ok until rc' d' \<and> others_held rc' d' = others_held rc d \<and>
    rc_keyID rc' = rc_keyID rc \<and> rc_userID rc' = rc_userID rc \<and>
    (\<not> f \<and> \<not> f1 \<and> \<not> f2 \<longrightarrow> rc_quotaReserved rc' = 0 \<and> rc_userQuotaReserved rc' = 0)"
proof -
  have req: "rc_hasStore rc" "rc_requestID rc \<noteq> ''''" using assms(1) by (simp_all add: rc_ok_def)
  show ?thesis
  proof (cases "f \<or> open_leases (rc_requestID rc) d = []")
    case True
    obtain rc1 d1 where w: "releaseWithoutLease f1 f2 rc d = (rc1, d1)" by fastforce
    show ?thesis
    proof (cases f)
      case True
      with assms req show ?thesis
        by (auto simp: rc_ReleaseQuota_def ReleaseOwnedQuotaReservations_def)
    next
      case False
      with True have none: "open_leases (rc_requestID rc) d = []" by simp
      with False assms(2) req w have "rco = Some rc1" "d' = d1"
        by (simp_all add: rc_ReleaseQuota_def ReleaseOwnedQuotaReservations_def)
      with releaseWithoutLease_ok [OF assms(1) none w] show ?thesis by simp
    qed
  next
    case False
    then have own: "open_leases (rc_requestID rc) d = own_leases until rc"
      using assms(1) by (auto simp: rc_ok_def)
    let ?d = "fold release_lease (own_leases until rc) d" and ?rc = "rc\<lparr>rc_quotaReserved := 0, rc_userQuotaReserved := 0\<rparr>"
    have out: "rco = Some ?rc" "d' = ?d"
      using False assms(2) req own by (auto simp: rc_ReleaseQuota_def ReleaseOwnedQuotaReservations_def Let_def)
    have "open_leases (rc_requestID rc) ?d = []"
      using released_all [of "rc_requestID rc" d] own by simp
    with release_owned [OF assms(1) own] assms(1) show ?thesis
      unfolding out by (auto simp: rc_ok_def others_held_def)
  qed
qed


definition demo_rc :: rate_commit where
  "demo_rc = \<lparr>rc_keyID = ''k'', rc_limit = 0, rc_reserved = 0, rc_hasStore = True, rc_quotaReserved = 200,
     rc_userQuotaReserved = 200, rc_userID = ''ann'', rc_requestID = ''r''\<rparr>"

definition held_quota :: "lease list \<Rightarrow> quota_db" where
  "held_quota ls = \<lparr>qd_keys = [''k'' \<mapsto> \<lparr>qr_quota = 1000, qr_used = 100, qr_reserved = 350\<rparr>],
     qd_users = [''ann'' \<mapsto> \<lparr>ur_quota = 500, ur_reserved = 300\<rparr>], qd_totals = Map.empty, qd_leases = ls\<rparr>"

lemma demo_rc_ok: "rc_ok 60 demo_rc (held_quota (own_leases 60 demo_rc))"
  by (simp add: rc_ok_def demo_rc_def held_quota_def held_key_def held_user_def open_leases_def own_leases_def)


text \<open>The recorded leases put the finalizer in order: a request that has just reserved both quotas.\<close>

lemma set_reserved_ok:
  assumes "rc_hasStore rc" "rc_requestID rc \<noteq> ''''" "rc_keyID rc \<noteq> ''''" "uid \<noteq> ''''" "0 < a" "0 < b"
    and "a \<le> held_key (rc_keyID rc) d" "b \<le> held_user uid d"
    and "rc_requestID rc \<notin> ls_request ` set (qd_leases d)" "rc_userQuotaReserved rc = 0"
    and "SetKeyQuotaReserved False now a (Some rc) d = (rco, d1)" "SetUserQuotaReserved False now uid b rco d1 = (Some rc', d2)"
  shows "rc_ok (unix_milli (now + quotaReservationLeaseTTL)) rc' d2 \<and>
    open_leases (rc_requestID rc') d2 = own_leases (unix_milli (now + quotaReservationLeaseTTL)) rc'"
proof -
  let ?until = "unix_milli (now + quotaReservationLeaseTTL)"
  let ?kl = "\<lparr>ls_request = rc_requestID rc, ls_scope = KeyScope, ls_target = rc_keyID rc, ls_reserved = a,
     ls_released = False, ls_until = ?until\<rparr>"
  let ?ul = "\<lparr>ls_request = rc_requestID rc, ls_scope = UserScope, ls_target = uid, ls_reserved = b,
     ls_released = False, ls_until = ?until\<rparr>"
  have new: "(rc_requestID rc, sc, t) \<notin> lease_key ` set (qd_leases d)" for sc t
    using assms(9) by (force simp: lease_key_def)
  have none: "filter (\<lambda>s. ls_request s = rc_requestID rc \<and> \<not> ls_released s) (qd_leases d) = []"
    using assms(9) by (force simp: filter_empty_conv)
  have keep: "map (\<lambda>t. if lease_key t = (rc_requestID rc, sc, t') then x else t) (qd_leases d) = qd_leases d" for sc t' x
    using new by (intro map_idI) (force simp: image_iff)
  have rc': "rc' = rc\<lparr>rc_quotaReserved := a, rc_userID := uid, rc_userQuotaReserved := b\<rparr>"
    using assms(11,12) by (auto simp: SetKeyQuotaReserved_def SetUserQuotaReserved_def Let_def)
  have d1: "d1 = d\<lparr>qd_leases := qd_leases d @ [?kl]\<rparr>"
    using assms(1-3,5,10,11) new
    by (auto simp: SetKeyQuotaReserved_def syncLease_def RecordQuotaReservationLease_def put_lease_def lease_key_def Let_def)
  have d2: "d2 = d\<lparr>qd_leases := qd_leases d @ [?kl, ?ul]\<rparr>"
    using assms(1-6,11,12) new keep unfolding d1
    by (auto simp: SetKeyQuotaReserved_def SetUserQuotaReserved_def syncLease_def RecordQuotaReservationLease_def put_lease_def
        lease_key_def Let_def)
  show ?thesis
    unfolding rc' d2 using assms none
    by (simp add: rc_ok_def own_leases_def open_leases_def held_key_def held_user_def)
qed

text \<open>when the lease of the user's reservation could not be written but the key's lease is there, the
  finalizer forgets the user's reservation: the first release clears both counters in memory and gives
  back the key's tokens only, and no later run of it returns the user's.\<close>

theorem partial_lease_leaks:
  assumes "rc_hasStore rc" "rc_requestID rc \<noteq> ''''" "0 < rc_quotaReserved rc" "0 < rc_userQuotaReserved rc"
    and "open_leases (rc_requestID rc) d =
      [\<lparr>ls_request = rc_requestID rc, ls_scope = KeyScope, ls_target = rc_keyID rc,
        ls_reserved = rc_quotaReserved rc, ls_released = False, ls_until = until\<rparr>]"
    and "rc_ReleaseQuota False f1 f2 (Some rc) d = (rco, d1)"
  shows "held_user (rc_userID rc) d1 = held_user (rc_userID rc) d \<and>
    rc_ReleaseQuota g g1 g2 rco d1 = (rco, d1)"
proof -
  let ?l = "\<lparr>ls_request = rc_requestID rc, ls_scope = KeyScope, ls_target = rc_keyID rc,
        ls_reserved = rc_quotaReserved rc, ls_released = False, ls_until = until\<rparr>"
  have out: "rco = Some (rc\<lparr>rc_quotaReserved := 0, rc_userQuotaReserved := 0\<rparr>)" "d1 = release_lease ?l d"
    using assms by (auto simp: rc_ReleaseQuota_def ReleaseOwnedQuotaReservations_def)
  have none: "open_leases (rc_requestID rc) d1 = []"
    using released_all [of "rc_requestID rc" d] assms(5) out by simp
  have "held_user (rc_userID rc) d1 = held_user (rc_userID rc) d"
    unfolding out by (simp add: held_release held_drop)
  moreover have "rc_ReleaseQuota g g1 g2 rco d1 = (rco, d1)"
    using assms(1,2) none unfolding out(1)
    by (cases g) (simp_all add: rc_ReleaseQuota_def ReleaseOwnedQuotaReservations_def releaseWithoutLease_def)
  ultimately show ?thesis by simp
qed

theorem partial_lease_leaks_witness:
  "held_user ''ann'' (snd (rc_ReleaseQuota False False False (Some demo_rc)
     (held_quota [\<lparr>ls_request = ''r'', ls_scope = KeyScope, ls_target = ''k'', ls_reserved = 200,
        ls_released = False, ls_until = 60\<rparr>]))) = 300"
proof -
  let ?d = "held_quota [\<lparr>ls_request = ''r'', ls_scope = KeyScope, ls_target = ''k'', ls_reserved = 200,
        ls_released = False, ls_until = 60\<rparr>]"
  obtain rco d1 where "rc_ReleaseQuota False False False (Some demo_rc) ?d = (rco, d1)" by fastforce
  from partial_lease_leaks [OF _ _ _ _ _ this, of 60] this show ?thesis
    by (simp add: demo_rc_def held_quota_def open_leases_def held_user_def)
qed

text \<open>a request that outlives its lease gives its tokens back twice: the sweep releases the reservation
  while the request is still running, and the finalizer, finding no open lease, takes the same tokens off
  once more, out of the reservations of other requests.\<close>

theorem swept_request_releases_twice:
  assumes "rc_ok until rc d" "qd_leases d = own_leases until rc" "until < nowMs" "0 < rc_quotaReserved rc"
    and "2 * rc_quotaReserved rc \<le> held_key (rc_keyID rc) d"
    and "rc_ReleaseQuota False False False (Some rc) (SweepExpiredQuotaReservations False (\<lambda>_. False) nowMs d) = (rco, d')"
  shows "held_key (rc_keyID rc) d' = held_key (rc_keyID rc) d - 2 * rc_quotaReserved rc"
proof -
  let ?d1 = "fold release_lease (own_leases until rc) d"
  have req: "rc_hasStore rc" "rc_requestID rc \<noteq> ''''" using assms(1) by (simp_all add: rc_ok_def)
  have fields: "\<forall>s \<in> set (own_leases until rc). ls_request s = rc_requestID rc \<and> \<not> ls_released s \<and> ls_until s = until"
    by (auto simp: own_leases_def)
  have ne: "own_leases until rc \<noteq> []" using assms(4) by (simp add: own_leases_def)
  have own: "open_leases (rc_requestID rc) d = own_leases until rc"
    using fields by (simp add: open_leases_def assms(2) filter_all_keep)
  have keep: "filter (\<lambda>s. \<not> (ls_released s \<and> ls_until s = 0)) (qd_leases d) = qd_leases d"
    using fields by (simp add: assms(2) filter_all_keep)
  have same: "d\<lparr>qd_leases := qd_leases d\<rparr> = d" by simp
  have exp: "remdups (map ls_request (filter (\<lambda>s. \<not> ls_released s \<and> ls_until s < nowMs) (qd_leases d))) = [rc_requestID rc]"
    using fields assms(3) assms(4) by (simp add: assms(2) own_leases_def)
  have sweep: "SweepExpiredQuotaReservations False (\<lambda>_. False) nowMs d = ?d1"
  proof -
    have "SweepExpiredQuotaReservations False (\<lambda>_. False) nowMs d =
        sweep_loop (\<lambda>_. False) 0 (remdups (map ls_request (filter (\<lambda>s. \<not> ls_released s \<and> ls_until s < nowMs) (qd_leases d)))) d"
      unfolding SweepExpiredQuotaReservations_def Let_def keep same by (simp del: filter_filter)
    also have "\<dots> = ?d1"
      unfolding exp using req own ne by (simp add: ReleaseOwnedQuotaReservations_def)
    finally show ?thesis .
  qed
  have held: "held_key (rc_keyID rc) ?d1 = held_key (rc_keyID rc) d - rc_quotaReserved rc"
    using release_owned [OF assms(1) own] by simp
  have none: "open_leases (rc_requestID rc) ?d1 = []"
    using released_all [of "rc_requestID rc" d] own by simp
  obtain rc1 d1 where w: "releaseWithoutLease False False rc ?d1 = (rc1, d1)" by fastforce
  have "d' = d1"
    using assms(6) req none w unfolding sweep
    by (simp add: rc_ReleaseQuota_def ReleaseOwnedQuotaReservations_def)
  moreover have "held_key (rc_keyID rc) d1 = held_key (rc_keyID rc) ?d1 - rc_quotaReserved rc"
    using w assms(4,5) held
    by (auto simp: releaseWithoutLease_def ReleaseQuota_def ReleaseUserQuota_def held_drop split: if_splits)
  ultimately show ?thesis using held by simp
qed

theorem swept_request_releases_twice_witness:
  "held_key ''k'' (snd (rc_ReleaseQuota False False False (Some (demo_rc\<lparr>rc_quotaReserved := 150\<rparr>))
     (SweepExpiredQuotaReservations False (\<lambda>_. False) 100
        (held_quota (own_leases 60 (demo_rc\<lparr>rc_quotaReserved := 150\<rparr>)))))) = 50"
proof -
  let ?rc = "demo_rc\<lparr>rc_quotaReserved := 150\<rparr>"
  have ok: "rc_ok 60 ?rc (held_quota (own_leases 60 ?rc))"
    by (simp add: rc_ok_def demo_rc_def held_quota_def held_key_def held_user_def open_leases_def own_leases_def)
  obtain rco d' where "rc_ReleaseQuota False False False (Some ?rc)
      (SweepExpiredQuotaReservations False (\<lambda>_. False) 100 (held_quota (own_leases 60 ?rc))) = (rco, d')" by fastforce
  from swept_request_releases_twice [OF ok _ _ _ _ this] this show ?thesis
    by (simp add: demo_rc_def held_quota_def held_key_def)
qed

text \<open>a restart frees everything a crash left behind: no key and no user holds a token any more, and no
  lease is left open; limits and used tokens are kept.\<close>

theorem recovery_clears:
  assumes "\<forall>k r. qd_keys d k = Some r \<longrightarrow> 0 \<le> qr_reserved r" "\<forall>u r. qd_users d u = Some r \<longrightarrow> 0 \<le> ur_reserved r"
  shows "held_key k (recoverStaleReservations False d) = 0 \<and> held_user u (recoverStaleReservations False d) = 0 \<and>
    open_leases req (recoverStaleReservations False d) = [] \<and>
    (\<forall>q used h. key_row k d = Some (q, used, h) \<longrightarrow> key_row k (recoverStaleReservations False d) = Some (q, used, 0))"
  using assms
  by (fastforce simp: recoverStaleReservations_def held_key_def held_user_def open_leases_def key_row_def filter_empty_conv
      split: option.splits if_splits)

theorem recovery_clears_witness:
  "held_key ''k'' (recoverStaleReservations False (held_quota [])) = 0"
  using recovery_clears [of "held_quota []" "''k''"] by (simp add: held_quota_def)

end
