(* ===== verification/Trace.thy ===== *)
theory Trace
  imports Routing
begin

text \<open>
  The route trace of a request: \<^verbatim>\<open>internal/dataplane/outcome.go\<close> writes it
  (\<^verbatim>\<open>AppendRouteTrace\<close>, \<^verbatim>\<open>escapeRouteTraceComponent\<close>), the handler joins the entries with a semicolon
  and a space, and \<^verbatim>\<open>web/src/routeTrace.ts\<close> reads it back. The separators are ASCII, so the two sides may
  be compared on the bytes of valid UTF-8. Labels and explanations of the user interface are left out.
\<close>

section \<open>Writing\<close>

abbreviation (input) backslash :: char where "backslash \<equiv> CHR 0x5C"

definition escape_char :: "bool \<Rightarrow> char \<Rightarrow> string" where
  "escape_char escapeSlash c =
     (if c = backslash then [backslash, backslash]
      else if c = CHR '';'' then [backslash, CHR '';'']
      else if c = CHR ''/'' \<and> escapeSlash then [backslash, CHR ''/'']
      else [c])"

definition escapeRouteTraceComponent :: "string \<Rightarrow> bool \<Rightarrow> string" where
  "escapeRouteTraceComponent value escapeSlash = concat (map (escape_char escapeSlash) value)"

text \<open>\<open>%d\<close> of a number that is not negative.\<close>

fun dec :: "nat \<Rightarrow> string" where
  "dec n = (if n < 10 then [char_of (48 + n)] else dec (n div 10) @ [char_of (48 + n mod 10)])"

declare dec.simps [simp del]

lemma dec_small: "n < 10 \<Longrightarrow> dec n = [char_of (48 + n)]"
  by (simp add: dec.simps [of n])

lemma dec_large: "\<not> n < 10 \<Longrightarrow> dec n = dec (n div 10) @ [char_of (48 + n mod 10)]"
  by (subst dec.simps) simp

definition trace_provider :: "candidate \<Rightarrow> string" where
  "trace_provider cand = (if pr_Name (cd_Provider cand) = '''' then pr_Slug (cd_Provider cand)
     else pr_Name (cd_Provider cand))"

definition trace_model :: "candidate \<Rightarrow> string" where
  "trace_model cand = (if um_ModelID (cd_UpstreamModel cand) \<noteq> '''' then um_ModelID (cd_UpstreamModel cand) else ''?'')"

definition trace_entry :: "nat \<Rightarrow> candidate \<Rightarrow> string \<Rightarrow> string \<Rightarrow> string" where
  "trace_entry attempt cand outcome reason =
     dec attempt @ '':'' @ escapeRouteTraceComponent (trace_provider cand) True @ ''/'' @
     escapeRouteTraceComponent (trace_model cand) False @ '' -> '' @ outcome @
     (if reason \<noteq> '''' then '':'' @ reason else '''')"

definition AppendRouteTrace :: "string list \<Rightarrow> nat \<Rightarrow> candidate \<Rightarrow> string \<Rightarrow> string \<Rightarrow> string list" where
  "AppendRouteTrace trace attempt cand outcome reason = trace @ [trace_entry attempt cand outcome reason]"

section \<open>Reading\<close>

record trace_step =
  st_raw :: string
  st_attempt :: "nat option"
  st_provider :: string
  st_model :: string
  st_outcome :: string
  st_reason :: string
  st_parsed :: bool

definition unparsed :: "string \<Rightarrow> trace_step" where
  "unparsed raw = \<lparr>st_raw = raw, st_attempt = None, st_provider = '''', st_model = '''', st_outcome = '''',
     st_reason = '''', st_parsed = False\<rparr>"

definition isEscaped :: "string \<Rightarrow> nat \<Rightarrow> bool" where
  "isEscaped value index \<longleftrightarrow> odd (length (takeWhile (\<lambda>c. c = backslash) (rev (take index value))))"

definition findUnescaped :: "string \<Rightarrow> string \<Rightarrow> nat \<Rightarrow> nat option" where
  "findUnescaped value needle start =
     List.find (\<lambda>i. \<not> isEscaped value i \<and> has_prefix (drop i value) needle)
       [start ..< Suc (length value) - length needle]"

definition findUnescapedLast :: "string \<Rightarrow> string \<Rightarrow> nat option" where
  "findUnescapedLast value needle =
     List.find (\<lambda>i. \<not> isEscaped value i \<and> has_prefix (drop i value) needle)
       (rev [0 ..< Suc (length value) - length needle])"

fun unescapeRouteTraceComponent :: "string \<Rightarrow> string" where
  "unescapeRouteTraceComponent [] = []"
| "unescapeRouteTraceComponent [c] = [c]"
| "unescapeRouteTraceComponent (c # d # cs) =
     (if c = backslash \<and> d \<in> set [backslash, CHR '';'', CHR ''/''] then d # unescapeRouteTraceComponent cs
      else c # unescapeRouteTraceComponent (d # cs))"

definition is_digit :: "char \<Rightarrow> bool" where
  "is_digit c \<longleftrightarrow> (48::nat) \<le> of_char c \<and> of_char c \<le> (57::nat)"

text \<open>\<open>/^[1-9]\d*$/\<close> and \<open>Number(index)\<close>.\<close>

definition is_index :: "string \<Rightarrow> bool" where
  "is_index s \<longleftrightarrow> s \<noteq> [] \<and> list_all is_digit s \<and> hd s \<noteq> CHR ''0''"

definition number :: "string \<Rightarrow> nat" where
  "number s = foldl (\<lambda>n c. n * 10 + (of_char c - 48)) 0 s"

definition isSafeInteger :: "nat \<Rightarrow> bool" where
  "isSafeInteger n \<longleftrightarrow> n < 2 ^ 53"

definition parseTraceStep :: "string \<Rightarrow> trace_step" where
  "parseTraceStep raw =
     (let value = trim_space raw in
      case findUnescapedLast value '' -> '' of None \<Rightarrow> unparsed value
      | Some arrow \<Rightarrow> (case findUnescaped value '':'' 0 of None \<Rightarrow> unparsed value
      | Some colon \<Rightarrow>
          if colon = 0 \<or> arrow \<le> colon then unparsed value
          else if \<not> is_index (take colon value) \<or> \<not> isSafeInteger (number (take colon value)) then unparsed value
          else (let target = drop (colon + 1) (take arrow value) in
                case findUnescaped target ''/'' 0 of None \<Rightarrow> unparsed value
                | Some slash \<Rightarrow>
                    if slash = 0 \<or> slash + 1 = length target then unparsed value
                    else (let result = drop (arrow + 4) value;
                              separator = findUnescaped result '':'' 0;
                              outcome = (case separator of None \<Rightarrow> result | Some k \<Rightarrow> take k result);
                              reason = (case separator of None \<Rightarrow> '''' | Some k \<Rightarrow> drop (k + 1) result) in
                          if outcome = '''' then unparsed value
                          else \<lparr>st_raw = value, st_attempt = Some (number (take colon value)),
                                st_provider = unescapeRouteTraceComponent (take slash target),
                                st_model = unescapeRouteTraceComponent (drop (slash + 1) target),
                                st_outcome = outcome, st_reason = reason, st_parsed = True\<rparr>))))"

fun split_trace :: "string \<Rightarrow> nat \<Rightarrow> nat list \<Rightarrow> string list" where
  "split_trace value start [] = [trim_space (drop start value)]"
| "split_trace value start (i # is) =
     (if value ! i = CHR '';'' \<and> \<not> isEscaped value i
      then trim_space (drop start (take i value)) # split_trace value (i + 1) is
      else split_trace value start is)"

definition parseRouteTrace :: "string option \<Rightarrow> trace_step list" where
  "parseRouteTrace raw =
     (let value = (case raw of None \<Rightarrow> '''' | Some s \<Rightarrow> s) in
      map parseTraceStep (filter (\<lambda>s. s \<noteq> '''') (split_trace value 0 [0 ..< length value])))"

section \<open>Escaping\<close>

text \<open>Whether the character after \<open>cs\<close> is escaped, reading from the left.\<close>

fun escaping :: "bool \<Rightarrow> string \<Rightarrow> bool" where
  "escaping b [] = b"
| "escaping b (c # cs) = escaping (c = backslash \<and> \<not> b) cs"

text \<open>The string has no unescaped \<open>d\<close>.\<close>

fun guarded :: "char \<Rightarrow> bool \<Rightarrow> string \<Rightarrow> bool" where
  "guarded d b [] = True"
| "guarded d b (c # cs) = ((b \<or> c \<noteq> d) \<and> guarded d (c = backslash \<and> \<not> b) cs)"

lemma escaping_append [simp]: "escaping b (xs @ ys) = escaping (escaping b xs) ys"
  by (induction b xs rule: escaping.induct) auto

lemma guarded_append [simp]: "guarded d b (xs @ ys) \<longleftrightarrow> guarded d b xs \<and> guarded d (escaping b xs) ys"
  by (induction d b xs rule: guarded.induct) auto

lemma isEscaped_escaping: "isEscaped value i = escaping False (take i value)"
proof -
  have "odd (length (takeWhile (\<lambda>c. c = backslash) (rev xs))) = escaping False xs" for xs
    by (induction xs rule: rev_induct) auto
  then show ?thesis by (simp add: isEscaped_def)
qed

lemma guarded_nth:
  "guarded d b cs \<Longrightarrow> i < length cs \<Longrightarrow> cs ! i = d \<Longrightarrow> escaping b (take i cs)"
proof (induction d b cs arbitrary: i rule: guarded.induct)
  case (2 d b c cs)
  then show ?case by (cases i) auto
qed simp

lemma free_guarded: "d \<notin> set cs \<Longrightarrow> guarded d b cs"
  by (induction d b cs rule: guarded.induct) auto

lemma plain_escaping: "backslash \<notin> set cs \<Longrightarrow> cs \<noteq> [] \<Longrightarrow> \<not> escaping b cs"
  by (induction cs arbitrary: b) (case_tac cs; auto)+

lemma escaping_escape [simp]: "\<not> escaping False (escapeRouteTraceComponent v e)"
  by (induction v) (auto simp: escapeRouteTraceComponent_def escape_char_def)

lemma guarded_escape [simp]: "guarded (CHR '';'') False (escapeRouteTraceComponent v e)"
  by (induction v) (auto simp: escapeRouteTraceComponent_def escape_char_def)

lemma guarded_escape_slash [simp]: "guarded (CHR ''/'') False (escapeRouteTraceComponent v True)"
  by (induction v) (auto simp: escapeRouteTraceComponent_def escape_char_def)

lemma escape_empty [simp]: "escapeRouteTraceComponent v e = [] \<longleftrightarrow> v = []"
  by (cases v) (auto simp: escapeRouteTraceComponent_def escape_char_def)

lemma unescape_plain: "c \<noteq> backslash \<Longrightarrow>
    unescapeRouteTraceComponent (c # cs) = c # unescapeRouteTraceComponent cs"
  by (cases cs) auto

lemma unescape_escape [simp]:
  "unescapeRouteTraceComponent (escapeRouteTraceComponent v e) = v"
  by (induction v) (auto simp: escapeRouteTraceComponent_def escape_char_def unescape_plain)

section \<open>Numbers\<close>

lemma of_char_digit [simp]: "n < 10 \<Longrightarrow> of_char (char_of (48 + n) :: char) = (48 + n :: nat)"
  by simp

lemma dec_digits: "list_all is_digit (dec n) \<and> dec n \<noteq> []"
proof (induction n rule: dec.induct)
  case (1 n)
  show ?case
  proof (cases "n < 10")
    case True
    then show ?thesis by (simp add: dec_small is_digit_def)
  next
    case False
    with 1 have "list_all is_digit (dec (n div 10))" by simp
    moreover have "is_digit (char_of (48 + n mod 10))" by (simp add: is_digit_def)
    ultimately show ?thesis by (simp add: dec_large [OF False])
  qed
qed

lemma number_dec [simp]: "number (dec n) = n"
proof (induction n rule: dec.induct)
  case (1 n)
  show ?case
  proof (cases "n < 10")
    case True
    then show ?thesis by (simp add: dec_small number_def)
  next
    case False
    with 1 have "number (dec (n div 10)) = n div 10" by simp
    moreover have "number (dec n) = number (dec (n div 10)) * 10 + n mod 10"
      by (simp add: dec_large [OF False] number_def)
    ultimately show ?thesis by simp
  qed
qed

lemma dec_hd: "0 < n \<Longrightarrow> hd (dec n) \<noteq> CHR ''0''"
proof (induction n rule: dec.induct)
  case (1 n)
  show ?case
  proof (cases "n < 10")
    case True
    have "of_char (char_of (48 + n) :: char) \<noteq> (of_char (CHR ''0'') :: nat)"
      using True 1(2) by (simp del: of_char_of)
    then have "char_of (48 + n) \<noteq> CHR ''0''" by metis
    then show ?thesis using True by (simp add: dec_small)
  next
    case False
    with 1 have "hd (dec (n div 10)) \<noteq> CHR ''0''" by simp
    moreover have "dec (n div 10) \<noteq> []" using dec_digits by blast
    ultimately show ?thesis by (simp add: dec_large [OF False])
  qed
qed

lemma is_index_dec [simp]: "0 < n \<Longrightarrow> is_index (dec n)"
  using dec_digits [of n] dec_hd [of n] by (simp add: is_index_def)

lemma dec_free: "\<not> is_digit d \<Longrightarrow> d \<notin> set (dec n)"
  using dec_digits [of n] by (auto simp: list_all_iff)

section \<open>Searching\<close>

lemma has_prefix_append [simp]: "has_prefix (p @ s) p"
  by (simp add: has_prefix_def)

lemma has_prefix_Cons: "has_prefix s [c] \<longleftrightarrow> s \<noteq> [] \<and> hd s = c"
  by (cases s) (auto simp: has_prefix_def)

lemma findUnescaped_first:
  assumes "guarded c False xs" "\<not> escaping False xs"
  shows "findUnescaped (xs @ c # ys) [c] 0 = Some (length xs)"
proof -
  have none: "\<not> (\<not> isEscaped (xs @ c # ys) j \<and> has_prefix (drop j (xs @ c # ys)) [c])" if "j < length xs" for j
  proof -
    have "hd (drop j (xs @ c # ys)) = xs ! j"
      using that by (simp add: hd_append hd_drop_conv_nth)
    then show ?thesis
      using guarded_nth [OF assms(1) that] that by (auto simp: has_prefix_Cons isEscaped_escaping)
  qed
  show ?thesis
    unfolding findUnescaped_def find_Some_iff
    using none assms(2)
    by (intro exI [of _ "length xs"]) (auto simp: isEscaped_escaping has_prefix_Cons nth_append simp del: upt_Suc)
qed

lemma findUnescaped_none:
  assumes "c \<notin> set xs"
  shows "findUnescaped xs [c] 0 = None"
proof -
  have "\<not> has_prefix (drop i xs) [c]" for i
    using assms by (metis has_prefix_Cons hd_in_set in_set_dropD)
  then show ?thesis by (simp add: findUnescaped_def find_None_iff)
qed

lemma findUnescapedLast_arrow:
  assumes "\<not> escaping False xs" "CHR '' '' \<notin> set ys"
  shows "findUnescapedLast (xs @ '' -> '' @ ys) '' -> '' = Some (length xs)"
proof -
  let ?v = "xs @ '' -> '' @ ys"
  let ?P = "\<lambda>i. \<not> isEscaped ?v i \<and> has_prefix (drop i ?v) '' -> ''"
  have later: "\<not> ?P i" if "length xs < i" "i + 4 \<le> length ?v" for i
  proof
    assume "?P i"
    moreover have four: "length '' -> '' = 4" by simp
    ultimately have "take 4 (drop i ?v) = '' -> ''" unfolding has_prefix_def four by blast
    then have "take 4 (drop i ?v) ! 3 = CHR '' ''" by (simp only:) simp
    moreover have "take 4 (drop i ?v) ! 3 = drop i ?v ! 3" by (rule nth_take) simp
    moreover have "drop i ?v ! 3 = ?v ! (i + 3)" using that by (intro nth_drop) simp
    ultimately have "?v ! (i + 3) = CHR '' ''" by (simp only:)
    moreover have "?v ! (i + 3) = ys ! (i + 3 - (length xs + 4))"
      using that by (simp add: nth_append nth_Cons')
    moreover have "i + 3 - (length xs + 4) < length ys" using that by simp
    ultimately show False using assms(2) nth_mem by metis
  qed
  have here: "?P (length xs)"
    using assms(1) has_prefix_append [of "'' -> ''" ys] by (simp add: isEscaped_escaping)
  have split: "rev [0 ..< Suc (length ?v) - 4] =
      rev [Suc (length xs) ..< Suc (length ?v) - 4] @ length xs # rev [0 ..< length xs]"
  proof -
    have "[0 ..< Suc (length ?v) - 4] = [0 ..< length xs] @ [length xs ..< Suc (length ?v) - 4]"
      using upt_add_eq_append [of 0 "length xs" "Suc (length ?v) - 4 - length xs"] by simp
    also have "[length xs ..< Suc (length ?v) - 4] = length xs # [Suc (length xs) ..< Suc (length ?v) - 4]"
      by (intro upt_conv_Cons) simp
    finally show ?thesis by simp
  qed
  have app: "List.find ?P (as @ b # cs) = Some b" if "\<And>a. a \<in> set as \<Longrightarrow> \<not> ?P a" "?P b" for as b cs
    using that by (induction as) auto
  show ?thesis
    unfolding findUnescapedLast_def
    using app [of "rev [Suc (length xs) ..< Suc (length ?v) - 4]" "length xs"] later here split
    by (simp del: upt_Suc)
qed

section \<open>Round trip\<close>

text \<open>The outcomes and error codes of the gateway are words of lower case letters and underscores.\<close>

definition code_word :: "string \<Rightarrow> bool" where
  "code_word s \<longleftrightarrow> list_all (\<lambda>c. c \<in> set ''abcdefghijklmnopqrstuvwxyz_'') s"

type_synonym decision = "nat \<times> candidate \<times> string \<times> string"

fun writable :: "decision \<Rightarrow> bool" where
  "writable (attempt, cand, outcome, reason) \<longleftrightarrow>
     0 < attempt \<and> isSafeInteger attempt \<and> trace_provider cand \<noteq> '''' \<and>
     outcome \<noteq> '''' \<and> code_word outcome \<and> code_word reason"

fun step_of :: "decision \<Rightarrow> trace_step" where
  "step_of (attempt, cand, outcome, reason) =
     \<lparr>st_raw = trace_entry attempt cand outcome reason, st_attempt = Some attempt,
      st_provider = trace_provider cand, st_model = trace_model cand,
      st_outcome = outcome, st_reason = reason, st_parsed = True\<rparr>"

fun append_decision :: "string list \<Rightarrow> decision \<Rightarrow> string list" where
  "append_decision trace (attempt, cand, outcome, reason) = AppendRouteTrace trace attempt cand outcome reason"

lemma code_word_free: "code_word s \<Longrightarrow> c \<notin> set ''abcdefghijklmnopqrstuvwxyz_'' \<Longrightarrow> c \<notin> set s"
  unfolding code_word_def list_all_iff by blast

lemma code_word_plain:
  assumes "code_word s" "c \<in> set '' ;:'' \<or> c = backslash \<or> is_space c"
  shows "c \<notin> set s"
  using assms(2) by (intro code_word_free [OF assms(1)]) (auto simp: is_space_def)

lemma trace_model_nonempty [simp]: "trace_model cand \<noteq> ''''"
  by (simp add: trace_model_def)

abbreviation (input) entry_target :: "candidate \<Rightarrow> string" where
  "entry_target cand \<equiv>
     escapeRouteTraceComponent (trace_provider cand) True @ ''/'' @ escapeRouteTraceComponent (trace_model cand) False"

abbreviation (input) entry_head :: "nat \<Rightarrow> candidate \<Rightarrow> string" where
  "entry_head attempt cand \<equiv> dec attempt @ '':'' @ entry_target cand"

abbreviation (input) entry_result :: "string \<Rightarrow> string \<Rightarrow> string" where
  "entry_result outcome reason \<equiv> outcome @ (if reason \<noteq> '''' then '':'' @ reason else '''')"

lemma entry_split:
  "trace_entry attempt cand outcome reason = entry_head attempt cand @ '' -> '' @ entry_result outcome reason"
  by (simp add: trace_entry_def)

lemma digits_plain: "c \<in> set '': ;/'' \<or> c = backslash \<Longrightarrow> c \<notin> set (dec n)"
  by (rule dec_free) (auto simp: is_digit_def)

lemma digits_state: "\<not> escaping False (dec n)"
  using digits_plain [of backslash n] dec_digits [of n] by (intro plain_escaping) simp_all

lemma digits_guarded: "c \<in> set '': ;/'' \<Longrightarrow> guarded c False (dec n)"
  using digits_plain [of c n] by (intro free_guarded) blast

lemma head_state: "\<not> escaping False (entry_head n cand)" "guarded (CHR '';'') False (entry_head n cand)"
  using digits_state [of n] digits_guarded [of "CHR '';''" n] by simp_all

lemma result_plain:
  assumes "code_word outcome" "code_word reason" "c \<in> set '' ;'' \<or> c = backslash"
  shows "c \<notin> set (entry_result outcome reason)"
proof -
  have side: "c \<in> set '' ;:'' \<or> c = backslash \<or> is_space c" using assms(3) by auto
  show ?thesis
    using assms(3) code_word_plain [OF assms(1) side] code_word_plain [OF assms(2) side] by auto
qed

lemma result_state:
  assumes "code_word outcome" "code_word reason" "outcome \<noteq> ''''"
  shows "\<not> escaping b (entry_result outcome reason)" "guarded (CHR '';'') b (entry_result outcome reason)"
proof -
  have "entry_result outcome reason \<noteq> []" using assms(3) by simp
  then show "\<not> escaping b (entry_result outcome reason)"
    using result_plain [OF assms(1,2), of backslash] by (intro plain_escaping) blast+
  show "guarded (CHR '';'') b (entry_result outcome reason)"
    using result_plain [OF assms(1,2), of "CHR '';''"] by (intro free_guarded) simp
qed

lemma entry_state:
  assumes "code_word outcome" "code_word reason" "outcome \<noteq> ''''"
  shows "\<not> escaping False (trace_entry n cand outcome reason)"
    and "guarded (CHR '';'') False (trace_entry n cand outcome reason)"
  unfolding entry_split
  using head_state [of n cand] result_state [OF assms] unfolding escaping_append guarded_append by simp_all

lemma entry_trim:
  assumes "code_word outcome" "code_word reason" "outcome \<noteq> ''''"
  shows "trim_space (trace_entry n cand outcome reason) = trace_entry n cand outcome reason"
    and "trim_space (CHR '' '' # trace_entry n cand outcome reason) = trace_entry n cand outcome reason"
    and "trace_entry n cand outcome reason \<noteq> []"
proof -
  let ?e = "trace_entry n cand outcome reason"
  show ne: "?e \<noteq> []" by (simp add: trace_entry_def)
  have "hd ?e = hd (dec n)"
    using dec_digits [of n] by (simp add: trace_entry_def)
  then have "is_digit (hd ?e)"
    using dec_digits [of n] by (cases "dec n") simp_all
  then have first: "\<not> is_space (hd ?e)"
    by (auto simp: is_digit_def is_space_def)
  have "last ?e \<in> set outcome \<union> set reason"
    using assms(3) by (auto simp: trace_entry_def)
  moreover have "\<not> is_space c" if "c \<in> set outcome \<union> set reason" for c
    using that code_word_plain [OF assms(1)] code_word_plain [OF assms(2)] by blast
  ultimately show "trim_space ?e = ?e"
    using ne first by (intro trim_space_id) blast+
  then show "trim_space (CHR '' '' # ?e) = ?e"
    by (simp add: trim_space_def is_space_def)
qed

lemma parse_parts:
  assumes "trim_space e = e" "e = h @ '' -> '' @ r" "h = d @ '':'' @ t" "t = p @ ''/'' @ m"
    and r: "r = u @ (if q \<noteq> '''' then '':'' @ q else '''')"
    and found: "findUnescapedLast e '' -> '' = Some (length h)" "findUnescaped e '':'' 0 = Some (length d)"
    "findUnescaped t ''/'' 0 = Some (length p)"
    "findUnescaped r '':'' 0 = (if q = '''' then None else Some (length u))"
    and "d \<noteq> []" "is_index d" "isSafeInteger (number d)" "p \<noteq> []" "m \<noteq> []" "u \<noteq> []"
  shows "parseTraceStep e = \<lparr>st_raw = e, st_attempt = Some (number d),
     st_provider = unescapeRouteTraceComponent p, st_model = unescapeRouteTraceComponent m,
     st_outcome = u, st_reason = q, st_parsed = True\<rparr>"
proof -
  have "take (length h) e = h" "drop (length h + 4) e = r" using assms(2) by simp_all
  moreover have "take (length d) e = d" using assms(2,3) by simp
  moreover have "drop (length d + 1) h = t" "take (length p) t = p" "drop (length p + 1) t = m"
    using assms(3,4) by simp_all
  ultimately have cuts: "take (length d) e = d" "take (length h) e = h" "drop (length h + 4) e = r"
    "drop (length d + 1) h = t" "take (length p) t = p" "drop (length p + 1) t = m"
    by blast+
  have result: "(case if q = '''' then None else Some (length u) of None \<Rightarrow> r | Some k \<Rightarrow> take k r) = u"
    "(case if q = '''' then None else Some (length u) of None \<Rightarrow> '''' | Some k \<Rightarrow> drop (k + 1) r) = q"
    using r by simp_all
  have "length d \<noteq> 0" "\<not> length h \<le> length d" "length p \<noteq> 0" "length p + 1 \<noteq> length t"
    using assms(3,4) \<open>d \<noteq> []\<close> \<open>p \<noteq> []\<close> \<open>m \<noteq> []\<close> by simp_all
  then show ?thesis
    unfolding parseTraceStep_def Let_def assms(1) found option.case cuts result
    using \<open>is_index d\<close> \<open>isSafeInteger (number d)\<close> \<open>u \<noteq> []\<close> by (simp only: if_False simp_thms de_Morgan_disj)
qed

lemma parse_entry:
  assumes "writable (n, cand, outcome, reason)"
  shows "parseTraceStep (trace_entry n cand outcome reason) = step_of (n, cand, outcome, reason)"
proof -
  let ?e = "trace_entry n cand outcome reason" and ?p = "escapeRouteTraceComponent (trace_provider cand) True"
    and ?m = "escapeRouteTraceComponent (trace_model cand) False"
  have words: "code_word outcome" "code_word reason" "outcome \<noteq> ''''" using assms by auto
  have arrow: "findUnescapedLast ?e '' -> '' = Some (length (entry_head n cand))"
    unfolding entry_split
    using head_state(1) result_plain [OF words(1,2), of "CHR '' ''"] by (intro findUnescapedLast_arrow) simp_all
  have colon: "findUnescaped ?e '':'' 0 = Some (length (dec n))"
    using findUnescaped_first [of "CHR '':''" "dec n"] digits_state [of n] digits_guarded [of "CHR '':''" n]
    by (simp add: entry_split)
  have slash: "findUnescaped (entry_target cand) ''/'' 0 = Some (length ?p)"
    using findUnescaped_first [OF guarded_escape_slash escaping_escape] by simp
  have "CHR '':'' \<notin> set outcome" "backslash \<notin> set outcome"
    by (simp_all add: code_word_plain [OF words(1)])
  then have separator: "findUnescaped (entry_result outcome reason) '':'' 0
      = (if reason = '''' then None else Some (length outcome))"
    using findUnescaped_first [of "CHR '':''" outcome reason] findUnescaped_none [of "CHR '':''" outcome]
      free_guarded plain_escaping words(3) by simp
  have "dec n \<noteq> []" "is_index (dec n)" "isSafeInteger (number (dec n))" "?p \<noteq> []" "?m \<noteq> []"
    using dec_digits [of n] assms by simp_all
  with words(3) show ?thesis
    using parse_parts [OF entry_trim(1) [OF words] entry_split refl refl refl arrow colon slash separator]
    by simp
qed

text \<open>The loop over the positions, read as one pass over the characters.\<close>

fun pieces :: "bool \<Rightarrow> string \<Rightarrow> string \<Rightarrow> string list" where
  "pieces b acc [] = [trim_space acc]"
| "pieces b acc (c # cs) =
     (if c = CHR '';'' \<and> \<not> b then trim_space acc # pieces False [] cs
      else pieces (c = backslash \<and> \<not> b) (acc @ [c]) cs)"

lemma split_trace_pieces:
  "start \<le> length xs \<Longrightarrow>
   split_trace (xs @ ys) start [length xs ..< length (xs @ ys)] = pieces (escaping False xs) (drop start xs) ys"
proof (induction ys arbitrary: xs start)
  case Nil
  then show ?case by simp
next
  case (Cons c ys)
  have steps: "[length xs ..< length (xs @ c # ys)] = length xs # [length (xs @ [c]) ..< length ((xs @ [c]) @ ys)]"
    by (subst upt_conv_Cons) simp_all
  have here: "(xs @ c # ys) ! length xs = c" "isEscaped (xs @ c # ys) (length xs) = escaping False xs"
    by (simp_all add: isEscaped_escaping)
  show ?case
  proof (cases "c = CHR '';'' \<and> \<not> escaping False xs")
    case True
    then have "escaping False (xs @ [c]) = False" by simp
    with Cons.IH [of "length xs + 1" "xs @ [c]"] True here steps show ?thesis by simp
  next
    case False
    with Cons.IH [of start "xs @ [c]"] Cons.prems here steps show ?thesis by auto
  qed
qed

lemma pieces_guarded:
  "guarded (CHR '';'') b xs \<Longrightarrow> pieces b acc (xs @ ys) = pieces (escaping b xs) (acc @ xs) ys"
  by (induction "CHR '';''" b xs arbitrary: acc rule: guarded.induct) auto

lemma pieces_join:
  assumes "\<And>e. e \<in> set es \<Longrightarrow> guarded (CHR '';'') False e \<and> \<not> escaping False e \<and>
      trim_space e = e \<and> trim_space (CHR '' '' # e) = e"
    and "acc = [] \<or> acc = '' ''" and "es \<noteq> []"
  shows "pieces False acc (join_with ''; '' es) = es"
  using assms
proof (induction "''; ''" es arbitrary: acc rule: join_with.induct)
  case (2 e)
  then show ?case using pieces_guarded [of False e acc "[]"] by auto
next
  case (3 e f es)
  have e: "guarded (CHR '';'') False e" "\<not> escaping False e" "trim_space (acc @ e) = e"
    using 3(2) [of e] 3(3) by auto
  have "pieces False acc (join_with ''; '' (e # f # es)) = e # pieces False '' '' (join_with ''; '' (f # es))"
    using pieces_guarded [OF e(1), of acc "''; '' @ join_with ''; '' (f # es)"] e(2,3) by simp
  with 3 show ?case by simp
qed simp

lemma split_trace_join:
  assumes "\<And>e. e \<in> set es \<Longrightarrow> guarded (CHR '';'') False e \<and> \<not> escaping False e \<and>
      trim_space e = e \<and> trim_space (CHR '' '' # e) = e" and "es \<noteq> []"
  shows "split_trace (join_with ''; '' es) 0 [0 ..< length (join_with ''; '' es)] = es"
proof -
  have "pieces False [] (join_with ''; '' es) = es" using assms by (intro pieces_join) blast+
  then show ?thesis using split_trace_pieces [of 0 "[]" "join_with ''; '' es"] by simp
qed

definition decision_entry :: "decision \<Rightarrow> string" where
  "decision_entry d = (case d of (n, cand, outcome, reason) \<Rightarrow> trace_entry n cand outcome reason)"

lemma append_decisions: "foldl append_decision trace ds = trace @ map decision_entry ds"
  by (induction ds arbitrary: trace) (auto simp: AppendRouteTrace_def decision_entry_def)

text \<open>C34: the user interface reads back exactly the decisions the request lane wrote. Whatever characters the
  names of providers and models contain (slashes, semicolons, colons, arrows, backslashes), the parser
  recovers for every entry, in order, its number, the provider, the model, the outcome and the reason.\<close>

theorem route_trace_roundtrip:
  assumes "list_all writable ds"
  shows "parseRouteTrace (Some (join_with ''; '' (foldl append_decision [] ds))) = map step_of ds"
proof (cases "ds = []")
  case True
  then show ?thesis by (simp add: parseRouteTrace_def trim_space_def)
next
  case False
  have ok: "guarded (CHR '';'') False e \<and> \<not> escaping False e \<and>
      trim_space e = e \<and> trim_space (CHR '' '' # e) = e \<and> e \<noteq> ''''"
    if "e \<in> set (map decision_entry ds)" for e
  proof -
    obtain n cand outcome reason where d: "(n, cand, outcome, reason) \<in> set ds"
      and e: "e = trace_entry n cand outcome reason"
      using \<open>e \<in> set (map decision_entry ds)\<close> by (auto simp: decision_entry_def)
    then have "writable (n, cand, outcome, reason)" using assms by (auto simp: list_all_iff)
    then have "code_word outcome" "code_word reason" "outcome \<noteq> ''''" by auto
    then show ?thesis unfolding e using entry_state entry_trim by blast
  qed
  then have "filter (\<lambda>s. s \<noteq> '''') (map decision_entry ds) = map decision_entry ds"
    by (intro filter_True) blast
  moreover have "map (parseTraceStep \<circ> decision_entry) ds = map step_of ds"
    using assms by (intro map_cong refl) (auto simp: list_all_iff decision_entry_def parse_entry)
  ultimately show ?thesis
    using split_trace_join [of "map decision_entry ds"] ok False
    by (simp add: parseRouteTrace_def append_decisions)
qed

definition odd_candidate :: candidate where
  "odd_candidate = \<lparr>cd_TargetID = ''t'', cd_Position = 0,
     cd_Provider = demo_provider\<lparr>pr_Name := ''a/b; c: d -> ''\<rparr>,
     cd_UpstreamModel = demo_model\<lparr>um_ModelID := [backslash] @ '' -> org/model; x'' @ [backslash]\<rparr>\<rparr>"

theorem route_trace_roundtrip_witness:
  "parseRouteTrace (Some (join_with ''; '' (foldl append_decision []
      [(1, odd_candidate, ''fail_switch'', ''upstream_timeout''), (2, odd_candidate, ''ok'', '''')])))
   = [step_of (1, odd_candidate, ''fail_switch'', ''upstream_timeout''), step_of (2, odd_candidate, ''ok'', '''')]"
  using route_trace_roundtrip [of "[(1, odd_candidate, ''fail_switch'', ''upstream_timeout''), (2, odd_candidate, ''ok'', '''')]"]
  by (simp add: odd_candidate_def trace_provider_def isSafeInteger_def code_word_def)

end
