(* ===== verification/Errors.thy ===== *)
theory Errors
  imports Prelude
begin

text \<open>
  \<^verbatim>\<open>internal/outwire/errors.go\<close>: what an upstream error means for the client (status, code and fixed
  message), for the failover chain and the credential, and the text kept for the operators. An error of the
  SDK is known to the code only through \<open>errors.Is\<close>, \<open>errors.As\<close> and \<open>Error()\<close>; the record \<open>sdk_error\<close> holds
  the answers. Log lines are not modelled. The regular expression \<open>secretRe\<close> is written out as a matcher:
  none of its alternatives needs to backtrack, because each ends in a repetition of one character class.
\<close>

record api_error =
  ae_StatusCode :: int
  ae_Message :: string
  ae_Raw :: string

record sdk_error =
  se_ContextTooLong :: bool
  se_InvalidRequest :: bool
  se_StreamTruncated :: bool
  se_StreamOverflow :: bool
  se_UpstreamMalformed :: bool
  se_ResponseTooLarge :: bool
  se_Canceled :: bool
  se_APIError :: "api_error option"
  se_TransportError :: "string option option"
  se_Error :: string

section \<open>Classification\<close>

abbreviation (input) statusOverloaded :: int where "statusOverloaded \<equiv> 529"

definition map_api_error :: "int \<Rightarrow> int \<times> string \<times> string" where
  "map_api_error status =
     (if status = 401 \<or> status = 403 then (502, ''upstream_auth_error'', ''upstream provider authentication failed'')
      else if status = 402 then (502, ''upstream_quota_exhausted'', ''upstream provider quota exhausted'')
      else if status = 429 then (429, ''rate_limit_exceeded'', ''rate limit exceeded'')
      else if status = statusOverloaded then (status, ''upstream_error'', ''upstream provider overloaded'')
      else if status \<ge> 500 then (502, ''upstream_error'', ''upstream provider error'')
      else if status = 400 then (400, ''invalid_request_error'', ''upstream rejected the request'')
      else if status = 404 \<or> status = 410
        then (404, ''model_not_found'', ''upstream provider does not serve this model'')
      else (502, ''upstream_error'', ''upstream provider error''))"

definition mapUpstreamError :: "sdk_error option \<Rightarrow> int \<times> string \<times> string" where
  "mapUpstreamError err =
     (case err of None \<Rightarrow> (200, '''', '''')
      | Some e \<Rightarrow>
          if se_ContextTooLong e then (400, ''context_length_exceeded'', ''request exceeds model context window'')
          else if se_InvalidRequest e then (400, ''invalid_request_error'', se_Error e)
          else if se_StreamTruncated e then (200, '''', '''')
          else if se_StreamOverflow e then (200, '''', '''')
          else if se_UpstreamMalformed e
            then (502, ''upstream_error'', ''upstream provider returned an unreadable response'')
          else if se_ResponseTooLarge e
            then (502, ''upstream_error'', ''upstream provider returned an oversized response'')
          else (case se_APIError e of
                  Some a \<Rightarrow> map_api_error (ae_StatusCode a)
                | None \<Rightarrow> if se_TransportError e \<noteq> None
                    then (504, ''upstream_timeout'', ''upstream connection failed'')
                    else (500, ''internal_error'', ''internal gateway error'')))"

definition MapUpstreamError :: "sdk_error option \<Rightarrow> int \<times> string \<times> string" where
  "MapUpstreamError err = mapUpstreamError err"

definition UpstreamErrorCode :: "sdk_error option \<Rightarrow> int \<times> string \<times> string" where
  "UpstreamErrorCode err = mapUpstreamError err"

definition FailoverEligible :: "sdk_error option \<Rightarrow> bool" where
  "FailoverEligible err =
     (case err of None \<Rightarrow> False
      | Some e \<Rightarrow>
          if se_UpstreamMalformed e then True
          else if se_ResponseTooLarge e then True
          else if se_TransportError e \<noteq> None then True
          else (case se_APIError e of
                  None \<Rightarrow> False
                | Some a \<Rightarrow> ae_StatusCode a \<in> set [401, 403, 404, 410, 402, 408, 429] \<or> ae_StatusCode a \<ge> 500))"

definition CredentialCooldown :: "sdk_error option \<Rightarrow> duration" where
  "CredentialCooldown err =
     (case Option.bind err se_APIError of None \<Rightarrow> 0
      | Some a \<Rightarrow>
          if ae_StatusCode a = 401 \<or> ae_StatusCode a = 403 then 30 * minute
          else if ae_StatusCode a = 402 then hour
          else if ae_StatusCode a = 429 then 60 * second
          else 0)"

definition errorTypeFromCode :: "string \<Rightarrow> string" where
  "errorTypeFromCode code =
     (if code = ''model_not_found'' then ''invalid_request_error''
      else if code = ''invalid_api_key'' then ''authentication_error''
      else if code = ''rate_limit_exceeded'' then ''rate_limit_error''
      else if code = ''context_length_exceeded'' then ''invalid_request_error''
      else if code = ''invalid_request_error'' then ''invalid_request_error''
      else if code = ''request_too_large'' then ''invalid_request_error''
      else if code = ''insufficient_quota'' then ''insufficient_quota''
      else if code = ''insufficient_balance'' then ''insufficient_quota''
      else if code = ''upstream_auth_error'' then ''authentication_error''
      else if code = ''upstream_quota_exhausted'' then ''insufficient_quota''
      else if code = ''upstream_timeout'' then ''timeout_error''
      else if code = ''upstream_error'' then ''api_error''
      else if code = ''admin_cannot_call_model'' then ''permission_error''
      else ''api_error'')"

section \<open>Masking credentials\<close>

definition is_lower :: "char \<Rightarrow> bool" where
  "is_lower c \<longleftrightarrow> (97::nat) \<le> of_char c \<and> of_char c \<le> (122::nat)"

definition is_upper :: "char \<Rightarrow> bool" where
  "is_upper c \<longleftrightarrow> (65::nat) \<le> of_char c \<and> of_char c \<le> (90::nat)"

definition is_num :: "char \<Rightarrow> bool" where
  "is_num c \<longleftrightarrow> (48::nat) \<le> of_char c \<and> of_char c \<le> (57::nat)"

definition alnum :: "char \<Rightarrow> bool" where
  "alnum c \<longleftrightarrow> is_lower c \<or> is_upper c \<or> is_num c"

definition key_char :: "char \<Rightarrow> bool" where
  "key_char c \<longleftrightarrow> alnum c \<or> c = CHR ''_'' \<or> c = CHR ''-''"

definition upper_num :: "char \<Rightarrow> bool" where
  "upper_num c \<longleftrightarrow> is_num c \<or> is_upper c"

definition slack_char :: "char \<Rightarrow> bool" where
  "slack_char c \<longleftrightarrow> alnum c \<or> c = CHR ''-''"

definition run_of :: "(char \<Rightarrow> bool) \<Rightarrow> string \<Rightarrow> nat" where
  "run_of p s = length (takeWhile p s)"

text \<open>\<open>prefix[class]{n,}\<close>, greedy; the value is the length of the match.\<close>

definition token_match :: "string \<Rightarrow> (char \<Rightarrow> bool) \<Rightarrow> nat \<Rightarrow> string \<Rightarrow> nat option" where
  "token_match p cls n s =
     (if has_prefix s p \<and> run_of cls (drop (length p) s) \<ge> n then Some (length p + run_of cls (drop (length p) s))
      else None)"

text \<open>\<open>prefix[class]{n}\<close>.\<close>

definition exact_match :: "string \<Rightarrow> (char \<Rightarrow> bool) \<Rightarrow> nat \<Rightarrow> string \<Rightarrow> nat option" where
  "exact_match p cls n s =
     (if has_prefix s p \<and> run_of cls (drop (length p) s) \<ge> n then Some (length p + n) else None)"

text \<open>\<open>eyJ[A-Za-z0-9_-]{8,}\.[A-Za-z0-9_-]{4,}\.[A-Za-z0-9_-]{4,}\<close>: the class has no dot.\<close>

definition jwt_match :: "string \<Rightarrow> nat option" where
  "jwt_match s =
     (case token_match ''eyJ'' key_char 8 s of None \<Rightarrow> None
      | Some a \<Rightarrow> (case token_match ''.'' key_char 4 (drop a s) of None \<Rightarrow> None
      | Some b \<Rightarrow> (case token_match ''.'' key_char 4 (drop (a + b) s) of None \<Rightarrow> None
      | Some c \<Rightarrow> Some (a + b + c))))"

fun first_match :: "(string \<Rightarrow> nat option) list \<Rightarrow> string \<Rightarrow> nat option" where
  "first_match [] s = None"
| "first_match (m # ms) s = (case m s of Some n \<Rightarrow> Some n | None \<Rightarrow> first_match ms s)"

definition secret_patterns :: "(string \<Rightarrow> nat option) list" where
  "secret_patterns =
     [token_match ''sk-'' key_char 8, token_match ''AIza'' key_char 20, exact_match ''AKIA'' upper_num 16] @
     map (\<lambda>c. token_match (''gh'' @ [c] @ ''_'') alnum 16) ''pousr'' @
     map (\<lambda>c. token_match (''xox'' @ [c] @ ''-'') slack_char 10) ''baprs'' @ [jwt_match]"

definition secretRe :: "string \<Rightarrow> nat option" where
  "secretRe s = first_match secret_patterns s"

text \<open>\<open>ReplaceAllString\<close> with the leftmost match each time.\<close>

function maskSecrets :: "string \<Rightarrow> string" where
  "maskSecrets [] = []"
| "maskSecrets (c # cs) =
     (case secretRe (c # cs) of None \<Rightarrow> c # maskSecrets cs
      | Some n \<Rightarrow> ''***'' @ maskSecrets (drop (n - 1) cs))"
  by pat_completeness auto

termination by (relation "measure length") auto

declare maskSecrets.simps [simp del]

section \<open>The stored detail\<close>

definition RuneStart :: "char \<Rightarrow> bool" where
  "RuneStart c \<longleftrightarrow> \<not> (128 \<le> (of_char c :: nat) \<and> of_char c < (192 :: nat))"

fun rune_back :: "string \<Rightarrow> nat \<Rightarrow> nat" where
  "rune_back s 0 = 0"
| "rune_back s (Suc n) = (if RuneStart (s ! Suc n) then Suc n else rune_back s n)"

abbreviation (input) maxDetailBytes :: nat where "maxDetailBytes \<equiv> 8192"

definition truncateErrorDetail :: "string \<Rightarrow> string" where
  "truncateErrorDetail detail =
     (if length detail > maxDetailBytes then take (rune_back detail maxDetailBytes) detail else detail)"

definition UpstreamErrorDetail :: "sdk_error option \<Rightarrow> string" where
  "UpstreamErrorDetail err =
     (case err of None \<Rightarrow> ''''
      | Some e \<Rightarrow>
        (case se_APIError e of
           Some a \<Rightarrow>
             (let msg = trim_space (ae_Message a);
                  raw = trim_space (ae_Raw a);
                  parts = (if msg \<noteq> '''' then [''message: '' @ msg] else []);
                  parts = (if raw \<noteq> '''' \<and> raw \<noteq> trim_space (ae_Message a) then parts @ [''raw: '' @ raw] else parts)
              in truncateErrorDetail (maskSecrets (join_with [CHR 0x0A] parts)))
         | None \<Rightarrow>
           (case se_TransportError e of
              Some (Some cause) \<Rightarrow> truncateErrorDetail (maskSecrets (''transport: '' @ cause))
            | Some None \<Rightarrow> truncateErrorDetail ''transport: connection failed''
            | None \<Rightarrow> if se_UpstreamMalformed e \<or> se_StreamTruncated e \<or> se_StreamOverflow e
                then truncateErrorDetail (maskSecrets (trim_space (se_Error e))) else '''')))"

definition SafeErrorDetail :: "sdk_error option \<Rightarrow> string" where
  "SafeErrorDetail err =
     (case err of None \<Rightarrow> '''' | Some e \<Rightarrow> truncateErrorDetail (maskSecrets (trim_space (se_Error e))))"

section \<open>No credential survives\<close>

text \<open>No position of the text starts a match of \<open>secretRe\<close>.\<close>

fun clean :: "string \<Rightarrow> bool" where
  "clean [] = True"
| "clean (c # cs) = (secretRe (c # cs) = None \<and> clean cs)"

text \<open>A pattern is robust when more text never destroys a match and when no match runs across a star.\<close>

definition robust :: "(string \<Rightarrow> nat option) \<Rightarrow> bool" where
  "robust m \<longleftrightarrow> (\<forall>s t. m s \<noteq> None \<longrightarrow> m (s @ t) \<noteq> None) \<and>
     (\<forall>s t. m (s @ CHR ''*'' # t) \<noteq> None \<longrightarrow> m s \<noteq> None)"

lemma has_prefix_mono: "has_prefix s p \<Longrightarrow> has_prefix (s @ t) p"
proof -
  assume p: "has_prefix s p"
  then have "length p \<le> length s" by (metis has_prefix_def length_take min.cobounded1 min_def)
  with p show ?thesis by (simp add: has_prefix_def)
qed

lemma has_prefix_length: "has_prefix s p \<Longrightarrow> length p \<le> length s"
  by (metis has_prefix_def length_take min.cobounded1)

lemma has_prefix_star:
  assumes "has_prefix (s @ CHR ''*'' # t) p" "CHR ''*'' \<notin> set p"
  shows "has_prefix s p"
proof -
  have "length p \<le> length s"
  proof (rule ccontr)
    assume "\<not> length p \<le> length s"
    then have "length s < length p" by simp
    moreover have "p ! length s = (s @ CHR ''*'' # t) ! length s"
      using assms(1) \<open>length s < length p\<close> unfolding has_prefix_def by (metis nth_take)
    ultimately show False using assms(2) nth_mem [of "length s" p] by simp
  qed
  with assms(1) show ?thesis by (simp add: has_prefix_def)
qed

lemma run_of_mono: "run_of cls s \<le> run_of cls (s @ t)"
  by (induction s) (auto simp: run_of_def)

lemma run_of_star: "\<not> cls (CHR ''*'') \<Longrightarrow> run_of cls (s @ CHR ''*'' # t) = run_of cls s"
  by (induction s) (auto simp: run_of_def)

lemma run_of_stops: "run_of cls s < length s \<Longrightarrow> run_of cls (s @ t) = run_of cls s"
  by (induction s) (auto simp: run_of_def split: if_splits)

lemma run_of_length: "run_of cls s \<le> length s"
  unfolding run_of_def by (rule length_takeWhile_le)

lemma token_match_mono: "token_match p cls n s \<noteq> None \<Longrightarrow> token_match p cls n (s @ t) \<noteq> None"
  using run_of_mono [of cls "drop (length p) s" t] has_prefix_length [of s p]
  by (auto simp: token_match_def has_prefix_mono split: if_splits)

lemma token_match_stops:
  "token_match p cls n s = Some a \<Longrightarrow> a < length s \<Longrightarrow> token_match p cls n (s @ t) = Some a"
  using run_of_stops [of cls "drop (length p) s" t] has_prefix_length [of s p]
  by (auto simp: token_match_def has_prefix_mono split: if_splits)

lemma token_match_length: "token_match p cls n s = Some a \<Longrightarrow> a \<le> length s"
  using run_of_length [of cls "drop (length p) s"] has_prefix_length [of s p]
  by (auto simp: token_match_def split: if_splits)

lemma token_match_star:
  assumes "token_match p cls n (s @ CHR ''*'' # t) = Some a" "CHR ''*'' \<notin> set p" "\<not> cls (CHR ''*'')"
  shows "token_match p cls n s = Some a"
proof -
  have p: "has_prefix (s @ CHR ''*'' # t) p" using assms(1) by (simp add: token_match_def split: if_splits)
  then have s: "has_prefix s p" using has_prefix_star assms(2) by blast
  have "length p \<le> length s" using has_prefix_length [OF s] .
  then have "run_of cls (drop (length p) (s @ CHR ''*'' # t)) = run_of cls (drop (length p) s)"
    by (simp add: run_of_star [where cls = cls, OF assms(3)])
  with assms(1) p s show ?thesis unfolding token_match_def by (simp only: if_True simp_thms split: if_splits)
qed

lemma robust_token: "CHR ''*'' \<notin> set p \<Longrightarrow> \<not> cls (CHR ''*'') \<Longrightarrow> robust (token_match p cls n)"
  unfolding robust_def using token_match_mono token_match_star by (metis not_None_eq)

lemma robust_exact:
  assumes "CHR ''*'' \<notin> set p" "\<not> cls (CHR ''*'')"
  shows "robust (exact_match p cls n)"
proof -
  have "exact_match p cls n s \<noteq> None \<longleftrightarrow> token_match p cls n s \<noteq> None" for s
    by (simp add: exact_match_def token_match_def)
  then show ?thesis using robust_token [where cls = cls and p = p and n = n, OF assms] unfolding robust_def by blast
qed

lemma dot_first: "token_match ''.'' cls n s = Some b \<Longrightarrow> s \<noteq> []"
  by (auto simp: token_match_def has_prefix_def split: if_splits)

lemma robust_jwt: "robust jwt_match"
proof -
  have star: "\<not> key_char (CHR ''*'')"
    by (simp add: key_char_def alnum_def is_lower_def is_upper_def is_num_def)
  have mono: "jwt_match (s @ t) \<noteq> None" if found: "jwt_match s \<noteq> None" for s t
  proof -
    from found obtain a b c where m: "token_match ''eyJ'' key_char 8 s = Some a"
      "token_match ''.'' key_char 4 (drop a s) = Some b" "token_match ''.'' key_char 4 (drop (a + b) s) = Some c"
      by (auto simp: jwt_match_def split: option.splits)
    have len: "a < length s" "b < length (drop a s)"
      using dot_first [OF m(2)] dot_first [OF m(3)] by auto
    have "token_match ''eyJ'' key_char 8 (s @ t) = Some a"
      by (rule token_match_stops [OF m(1) len(1)])
    moreover have "token_match ''.'' key_char 4 (drop a (s @ t)) = Some b"
      using token_match_stops [OF m(2) len(2)] len(1) by simp
    moreover have "token_match ''.'' key_char 4 (drop (a + b) (s @ t)) \<noteq> None"
      using token_match_mono [of "''.''" key_char 4 "drop (a + b) s" t] m(3) len by simp
    ultimately show ?thesis by (auto simp: jwt_match_def)
  qed
  have across: "jwt_match s \<noteq> None" if found: "jwt_match (s @ CHR ''*'' # t) \<noteq> None" for s t
  proof -
    let ?u = "s @ CHR ''*'' # t"
    from found obtain a b c where m: "token_match ''eyJ'' key_char 8 ?u = Some a"
      "token_match ''.'' key_char 4 (drop a ?u) = Some b" "token_match ''.'' key_char 4 (drop (a + b) ?u) = Some c"
      by (auto simp: jwt_match_def split: option.splits)
    have a: "token_match ''eyJ'' key_char 8 s = Some a"
      by (rule token_match_star [OF m(1)]) (simp_all add: star)
    then have "a \<le> length s" by (rule token_match_length)
    then have b: "token_match ''.'' key_char 4 (drop a s) = Some b"
      using token_match_star [of "''.''" key_char 4 "drop a s" t b] m(2) star by simp
    then have "a + b \<le> length s" using token_match_length [OF b] \<open>a \<le> length s\<close> by simp
    then have "token_match ''.'' key_char 4 (drop (a + b) s) = Some c"
      using token_match_star [of "''.''" key_char 4 "drop (a + b) s" t c] m(3) star by simp
    with a b show ?thesis by (simp add: jwt_match_def)
  qed
  show ?thesis unfolding robust_def using mono across by blast
qed

lemma patterns_robust: "m \<in> set secret_patterns \<Longrightarrow> robust m"
  by (auto simp: secret_patterns_def key_char_def alnum_def is_lower_def is_upper_def is_num_def
      upper_num_def slack_char_def intro!: robust_token robust_exact robust_jwt)

lemma first_match_iff: "first_match ms s \<noteq> None \<longleftrightarrow> (\<exists>m \<in> set ms. m s \<noteq> None)"
  by (induction ms) (auto split: option.splits)

lemma secretRe_mono: "secretRe (s @ t) = None \<Longrightarrow> secretRe s = None"
  using patterns_robust unfolding secretRe_def robust_def by (metis first_match_iff)

lemma secretRe_star: "secretRe s = None \<Longrightarrow> secretRe (s @ CHR ''*'' # t) = None"
  using patterns_robust unfolding secretRe_def robust_def by (metis first_match_iff)

lemma secretRe_Nil: "secretRe [] = None"
  by (simp add: secretRe_def secret_patterns_def token_match_def exact_match_def jwt_match_def run_of_def)

lemma clean_prefix: "clean (s @ t) \<Longrightarrow> clean s"
proof (induction s)
  case (Cons c s)
  then show ?case using secretRe_mono [of "c # s" t] by simp
qed simp

lemma clean_take: "clean s \<Longrightarrow> clean (take n s)"
  by (metis append_take_drop_id clean_prefix)

text \<open>The masked text is the original up to the first star.\<close>

lemma mask_shape:
  "\<exists>x y z. s = x @ y \<and> maskSecrets s = x @ z \<and> (y = [] \<and> z = [] \<or> (\<exists>w. z = CHR ''*'' # w))"
proof (induction s rule: maskSecrets.induct)
  case (2 c cs)
  show ?case
  proof (cases "secretRe (c # cs)")
    case None
    then obtain x y z where "cs = x @ y" "maskSecrets cs = x @ z" "y = [] \<and> z = [] \<or> (\<exists>w. z = CHR ''*'' # w)"
      using 2 by blast
    with None show ?thesis
      by (intro exI [of _ "c # x"] exI [of _ y] exI [of _ z]) (simp add: maskSecrets.simps)
  next
    case (Some n)
    then show ?thesis
      by (intro exI [of _ "[]"] exI [of _ "c # cs"] exI [of _ "maskSecrets (c # cs)"]) (simp add: maskSecrets.simps)
  qed
qed (simp add: maskSecrets.simps)

lemma clean_star: "clean s \<Longrightarrow> clean (CHR ''*'' # s)"
  using secretRe_star [OF secretRe_Nil, of s] by simp

lemma mask_clean: "clean (maskSecrets s)"
proof (induction s rule: maskSecrets.induct)
  case (2 c cs)
  show ?case
  proof (cases "secretRe (c # cs)")
    case None
    obtain x y z where shape: "cs = x @ y" "maskSecrets cs = x @ z"
      "y = [] \<and> z = [] \<or> (\<exists>w. z = CHR ''*'' # w)" using mask_shape by blast
    have "secretRe (c # x) = None" using secretRe_mono [of "c # x" y] None shape(1) by simp
    then have "secretRe ((c # x) @ z) = None" using shape(3) secretRe_star [of "c # x"] by auto
    with None 2 shape(2) show ?thesis by (simp add: maskSecrets.simps)
  next
    case (Some n)
    with 2 show ?thesis by (simp add: maskSecrets.simps clean_star del: clean.simps)
  qed
qed (simp add: maskSecrets.simps)

lemma rune_back_le: "rune_back s n \<le> n"
  by (induction n) auto

lemma truncate_length: "length (truncateErrorDetail s) \<le> maxDetailBytes"
  using rune_back_le [of s maxDetailBytes] by (simp add: truncateErrorDetail_def)

lemma truncate_clean: "clean s \<Longrightarrow> clean (truncateErrorDetail s)"
  by (simp add: truncateErrorDetail_def clean_take)

text \<open>A text in which no two neighbours start a pattern is clean.\<close>

definition secret_starts :: "(char \<times> char) list" where
  "secret_starts = [(CHR ''s'', CHR ''k''), (CHR ''A'', CHR ''I''), (CHR ''A'', CHR ''K''), (CHR ''g'', CHR ''h''),
     (CHR ''x'', CHR ''o''), (CHR ''e'', CHR ''y'')]"

lemma token_match_start: "(c, d) \<noteq> (p, q) \<Longrightarrow> token_match (p # q # ps) cls n (c # d # cs) = None"
  by (auto simp: token_match_def has_prefix_def)

lemma exact_match_start: "(c, d) \<noteq> (p, q) \<Longrightarrow> exact_match (p # q # ps) cls n (c # d # cs) = None"
  by (auto simp: exact_match_def has_prefix_def)

lemma secretRe_starts: "(c, d) \<notin> set secret_starts \<Longrightarrow> secretRe (c # d # cs) = None"
  by (simp add: secretRe_def secret_patterns_def secret_starts_def jwt_match_def token_match_start exact_match_start)

lemma secretRe_single: "secretRe [c] = None"
  by (simp add: secretRe_def secret_patterns_def jwt_match_def token_match_def exact_match_def has_prefix_def)

lemma clean_pairs: "list_all (\<lambda>p. p \<notin> set secret_starts) (zip s (tl s)) \<Longrightarrow> clean s"
proof (induction s)
  case (Cons c s)
  then show ?case by (cases s) (simp_all add: secretRe_starts secretRe_single)
qed simp

lemma fixed_text_clean: "clean ''transport: connection failed''"
  by (rule clean_pairs) code_simp

text \<open>what is stored about a failed attempt never contains a credential. However the upstream words its
  error, the detail kept in the usage record is at most 8192 bytes long and holds no text of the shape of an
  API key, an access token or a web token, neither where the upstream wrote it nor at the cut.\<close>

theorem stored_detail_safe:
  "length (UpstreamErrorDetail err) \<le> maxDetailBytes \<and> clean (UpstreamErrorDetail err) \<and>
   length (SafeErrorDetail err) \<le> maxDetailBytes \<and> clean (SafeErrorDetail err)"
proof -
  have "length (UpstreamErrorDetail err) \<le> maxDetailBytes"
    by (simp add: UpstreamErrorDetail_def Let_def truncate_length split: option.split)
  moreover have "clean (UpstreamErrorDetail err)"
    by (simp add: UpstreamErrorDetail_def Let_def mask_clean fixed_text_clean truncate_clean
        del: clean.simps(2) split: option.split)
  moreover have "length (SafeErrorDetail err) \<le> maxDetailBytes"
    by (simp add: SafeErrorDetail_def truncate_length split: option.split)
  moreover have "clean (SafeErrorDetail err)"
    by (simp add: SafeErrorDetail_def mask_clean truncate_clean split: option.split)
  ultimately show ?thesis by blast
qed

text \<open>A truncated detail of valid UTF-8 ends with a whole character.\<close>

definition utf8_rune :: "string \<Rightarrow> bool" where
  "utf8_rune r \<longleftrightarrow> r \<noteq> [] \<and> RuneStart (hd r) \<and> list_all (\<lambda>c. \<not> RuneStart c) (tl r) \<and> length r \<le> 4"

lemma rune_start_boundary:
  assumes "list_all utf8_rune rs" "m < length (concat rs)" "RuneStart (concat rs ! m)"
  shows "\<exists>k. m = length (concat (take k rs))"
  using assms
proof (induction rs arbitrary: m)
  case (Cons r rs)
  show ?case
  proof (cases "m < length r")
    case True
    have "m = 0"
    proof (rule ccontr)
      assume "m \<noteq> 0"
      then have "r ! m \<in> set (tl r)"
        using True by (cases r) (auto simp: nth_Cons')
      then show False using Cons.prems True by (auto simp: utf8_rune_def list_all_iff nth_append)
    qed
    then show ?thesis by (intro exI [of _ 0]) simp
  next
    case False
    then have "m - length r < length (concat rs)" "RuneStart (concat rs ! (m - length r))"
      using Cons.prems by (simp_all add: nth_append)
    then obtain k where "m - length r = length (concat (take k rs))" using Cons by auto
    then show ?thesis using False by (intro exI [of _ "Suc k"]) simp
  qed
qed simp

lemma rune_back_start: "rune_back s n = 0 \<or> RuneStart (s ! rune_back s n)"
  by (induction n) auto

lemma truncate_whole_runes:
  assumes "list_all utf8_rune rs"
  shows "\<exists>k. truncateErrorDetail (concat rs) = concat (take k rs)"
proof (cases "length (concat rs) > maxDetailBytes")
  case True
  let ?m = "rune_back (concat rs) maxDetailBytes"
  have "?m < length (concat rs)" using True rune_back_le [of "concat rs" maxDetailBytes] by simp
  then obtain k where k: "?m = length (concat (take k rs))"
    using rune_back_start [of "concat rs" maxDetailBytes] rune_start_boundary [OF assms, of ?m]
    by (metis concat.simps(1) list.size(3) take_0)
  have "concat rs = concat (take k rs) @ concat (drop k rs)"
    by (metis append_take_drop_id concat_append)
  then have "take ?m (concat rs) = concat (take k rs)"
    using k by (metis append_eq_conv_conj)
  then show ?thesis using True by (auto simp: truncateErrorDetail_def)
next
  case False
  then show ?thesis by (intro exI [of _ "length rs"]) (simp add: truncateErrorDetail_def)
qed

section \<open>Consequences of the classification\<close>

lemma map_api_error_status: "400 \<le> fst (map_api_error s) \<and> fst (map_api_error s) < 600"
  by (simp add: map_api_error_def)

lemma mapUpstreamError_status:
  "\<not> se_StreamTruncated e \<Longrightarrow> \<not> se_StreamOverflow e \<Longrightarrow>
   400 \<le> fst (mapUpstreamError (Some e)) \<and> fst (mapUpstreamError (Some e)) < 600"
  using map_api_error_status by (simp add: mapUpstreamError_def split: option.split)

lemma cooldown_values: "CredentialCooldown err \<in> {0, minute, 30 * minute, hour}"
  by (simp add: CredentialCooldown_def split: option.split)

lemma cooldown_eligible: "CredentialCooldown err > 0 \<Longrightarrow> FailoverEligible err"
  by (cases err) (auto simp: CredentialCooldown_def FailoverEligible_def split: option.splits if_splits)

end
