(* ===== verification/Outcome.thy ===== *)
theory Outcome
  imports Trace Errors Breaker
begin

text \<open>
  \<^verbatim>\<open>internal/dataplane/outcome.go\<close> and \<^verbatim>\<open>internal/dataplane/attempt_set.go\<close>: the classification of one attempt
  at an upstream, the decision the request lane takes on it, and what it means for the health of the target
  and of the credential. A request context is known by its error: none yet, cancelled by the client, or past
  the deadline of the total request budget.
\<close>

section \<open>Outcomes and decisions\<close>

datatype OutcomeKind =
    OutcomeUpstreamFailed | OutcomeClientAborted | OutcomeCommittedSuccess | OutcomeCommittedPartial
  | OutcomeGatewayOverflow | OutcomeGatewayTimeout | OutcomeDownstreamWriteFailed | OutcomeEncodeFailed

fun kind_String :: "OutcomeKind \<Rightarrow> string" where
  "kind_String OutcomeUpstreamFailed = ''upstream_failed''"
| "kind_String OutcomeClientAborted = ''client_aborted''"
| "kind_String OutcomeCommittedSuccess = ''committed_success''"
| "kind_String OutcomeCommittedPartial = ''committed_partial''"
| "kind_String OutcomeGatewayOverflow = ''gateway_overflow''"
| "kind_String OutcomeGatewayTimeout = ''gateway_timeout''"
| "kind_String OutcomeDownstreamWriteFailed = ''downstream_write_failed''"
| "kind_String OutcomeEncodeFailed = ''encode_failed''"

abbreviation (input) UsageStatusOK :: string where "UsageStatusOK \<equiv> ''ok''"
abbreviation (input) UsageStatusError :: string where "UsageStatusError \<equiv> ''error''"
abbreviation (input) UsageStatusCanceled :: string where "UsageStatusCanceled \<equiv> ''canceled''"
abbreviation (input) UsageStatusTruncated :: string where "UsageStatusTruncated \<equiv> ''truncated''"
abbreviation (input) UsageStatusOverflow :: string where "UsageStatusOverflow \<equiv> ''overflow''"
abbreviation (input) UsageStatusTimeout :: string where "UsageStatusTimeout \<equiv> ''timeout''"

record lane_decision =
  ld_Kind :: OutcomeKind
  ld_Committed :: bool
  ld_Success :: bool
  ld_Eligible :: bool
  ld_PenalizeUpstream :: bool
  ld_DownstreamClient :: bool
  ld_GatewayTimeout :: bool
  ld_Billable :: bool
  ld_UsageStatus :: string
  ld_TraceOutcome :: string
  ld_TraceReason :: string
  ld_DiagnosticStatus :: string
  ld_DiagnosticError :: string

record outcome =
  oc_Kind :: OutcomeKind
  oc_Committed :: bool
  oc_Success :: bool
  oc_ClientGone :: bool
  oc_NoUpstreamPenalty :: bool
  oc_GatewayTimeout :: bool
  oc_Eligible :: bool
  oc_UsageStatus :: string
  oc_CredentialCooldown :: duration
  oc_StatusCode :: int
  oc_Code :: string
  oc_Message :: string
  oc_Detail :: string

definition zero_outcome :: outcome where
  "zero_outcome = \<lparr>oc_Kind = OutcomeUpstreamFailed, oc_Committed = False, oc_Success = False, oc_ClientGone = False,
     oc_NoUpstreamPenalty = False, oc_GatewayTimeout = False, oc_Eligible = False, oc_UsageStatus = '''',
     oc_CredentialCooldown = 0, oc_StatusCode = 0, oc_Code = '''', oc_Message = '''', oc_Detail = ''''\<rparr>"

datatype ctx_err = CtxAlive | CtxCanceled | CtxDeadline

definition StreamCommitOutcome :: "string \<Rightarrow> string" where
  "StreamCommitOutcome status = (if status = UsageStatusOK then UsageStatusOK else ''committed_fail'')"

definition usageStatusForOutcome :: "OutcomeKind \<Rightarrow> string \<Rightarrow> string \<Rightarrow> string" where
  "usageStatusForOutcome kind explicit code =
     (if explicit \<noteq> '''' then explicit
      else (case kind of
              OutcomeCommittedSuccess \<Rightarrow> UsageStatusOK
            | OutcomeClientAborted \<Rightarrow> UsageStatusCanceled
            | OutcomeDownstreamWriteFailed \<Rightarrow> UsageStatusCanceled
            | OutcomeGatewayTimeout \<Rightarrow> UsageStatusTimeout
            | OutcomeGatewayOverflow \<Rightarrow> UsageStatusOverflow
            | OutcomeCommittedPartial \<Rightarrow>
                (if code = ''stream_truncated'' \<or> code = ''stream_idle_timeout'' then UsageStatusTruncated
                 else if code = ''stream_overflow'' then UsageStatusOverflow
                 else if code = ''gateway_timeout'' then UsageStatusTimeout
                 else UsageStatusError)
            | _ \<Rightarrow> UsageStatusError))"

text \<open>The \<open>switch\<close> of \<open>LaneDecisionFor\<close>, before its common end.\<close>

definition decision_switch :: "OutcomeKind \<Rightarrow> bool \<Rightarrow> bool \<Rightarrow> string \<Rightarrow> lane_decision" where
  "decision_switch kind committed eligible code =
     (let d = \<lparr>ld_Kind = kind, ld_Committed = committed, ld_Success = False, ld_Eligible = eligible,
               ld_PenalizeUpstream = False, ld_DownstreamClient = False, ld_GatewayTimeout = False,
               ld_Billable = False, ld_UsageStatus = '''', ld_TraceOutcome = '''', ld_TraceReason = '''',
               ld_DiagnosticStatus = '''', ld_DiagnosticError = ''''\<rparr> in
      (case kind of
         OutcomeCommittedSuccess \<Rightarrow>
           d\<lparr>ld_Committed := True, ld_Success := True, ld_Billable := True,
             ld_TraceOutcome := UsageStatusOK, ld_DiagnosticStatus := ''ok''\<rparr>
       | OutcomeCommittedPartial \<Rightarrow>
           d\<lparr>ld_Committed := True, ld_PenalizeUpstream := True, ld_TraceOutcome := ''committed_fail'',
             ld_TraceReason := code, ld_DiagnosticStatus := ''committed_fail'', ld_DiagnosticError := code\<rparr>
       | OutcomeGatewayOverflow \<Rightarrow>
           d\<lparr>ld_Committed := True, ld_TraceOutcome := ''committed_fail'',
             ld_TraceReason := code, ld_DiagnosticStatus := ''committed_fail'', ld_DiagnosticError := code\<rparr>
       | OutcomeGatewayTimeout \<Rightarrow>
           d\<lparr>ld_Committed := True, ld_GatewayTimeout := True, ld_TraceOutcome := ''committed_fail'',
             ld_TraceReason := ''gateway_timeout'', ld_DiagnosticStatus := ''timeout'',
             ld_DiagnosticError := ''gateway_timeout''\<rparr>
       | OutcomeClientAborted \<Rightarrow>
           d\<lparr>ld_DownstreamClient := True, ld_TraceReason := ''client_canceled'',
             ld_TraceOutcome := (if committed then ''committed_fail'' else ''fail_terminal''),
             ld_DiagnosticStatus := ''canceled''\<rparr>
       | OutcomeDownstreamWriteFailed \<Rightarrow>
           d\<lparr>ld_Committed := True, ld_DownstreamClient := True, ld_TraceOutcome := ''committed_fail'',
             ld_TraceReason := ''downstream_write_failed'', ld_DiagnosticStatus := ''canceled'',
             ld_DiagnosticError := ''downstream_write_failed''\<rparr>
       | OutcomeEncodeFailed \<Rightarrow>
           d\<lparr>ld_Committed := True, ld_TraceOutcome := ''fail_terminal'', ld_TraceReason := code,
             ld_DiagnosticStatus := ''committed_fail'', ld_DiagnosticError := code\<rparr>
       | OutcomeUpstreamFailed \<Rightarrow>
           d\<lparr>ld_TraceOutcome := ''fail_terminal'', ld_TraceReason := code,
             ld_DiagnosticStatus := ''failed'', ld_DiagnosticError := code\<rparr>))"

definition LaneDecisionFor :: "OutcomeKind \<Rightarrow> bool \<Rightarrow> bool \<Rightarrow> string \<Rightarrow> lane_decision" where
  "LaneDecisionFor kind committed eligible code =
     (let d = (decision_switch kind committed eligible code)\<lparr>ld_UsageStatus := usageStatusForOutcome kind '''' code\<rparr>;
          d = (if ld_TraceReason d = '''' then d\<lparr>ld_TraceReason := code\<rparr> else d)
      in if ld_DiagnosticError d = '''' \<and> kind \<noteq> OutcomeCommittedSuccess then d\<lparr>ld_DiagnosticError := code\<rparr> else d)"

definition normalizedKind :: "outcome \<Rightarrow> OutcomeKind" where
  "normalizedKind out =
     (if oc_Kind out = OutcomeClientAborted \<and> oc_Committed out \<and> oc_Code out = ''downstream_write_failed''
        then OutcomeDownstreamWriteFailed
      else if oc_Kind out \<noteq> OutcomeUpstreamFailed then oc_Kind out
      else if oc_Committed out \<and> oc_Success out then OutcomeCommittedSuccess
      else if oc_Committed out \<and> oc_GatewayTimeout out then OutcomeGatewayTimeout
      else if oc_Committed out \<and> oc_NoUpstreamPenalty out then OutcomeGatewayOverflow
      else if oc_Committed out \<and> oc_ClientGone out then OutcomeClientAborted
      else if oc_Committed out then OutcomeCommittedPartial
      else if oc_ClientGone out then OutcomeClientAborted
      else if oc_GatewayTimeout out then OutcomeGatewayTimeout
      else OutcomeUpstreamFailed)"

definition normalize :: "outcome \<Rightarrow> outcome" where
  "normalize out =
     (let kind = normalizedKind out;
          d = LaneDecisionFor kind (oc_Committed out) (oc_Eligible out) (oc_Code out);
          out = out\<lparr>oc_Kind := kind, oc_Committed := ld_Committed d, oc_Success := ld_Success d\<rparr>;
          out = (if kind = OutcomeUpstreamFailed then out else out\<lparr>oc_Eligible := ld_Eligible d\<rparr>);
          out = out\<lparr>oc_ClientGone := ld_DownstreamClient d,
                oc_NoUpstreamPenalty := (kind = OutcomeGatewayOverflow),
                oc_GatewayTimeout := ld_GatewayTimeout d \<or> kind = OutcomeGatewayTimeout\<rparr>;
          out = (if kind = OutcomeClientAborted \<and> oc_UsageStatus out = UsageStatusError
               then out\<lparr>oc_UsageStatus := ''''\<rparr> else out)
      in if oc_UsageStatus out = '''' then out\<lparr>oc_UsageStatus := ld_UsageStatus d\<rparr> else out)"

text \<open>The method \<open>LaneDecision\<close> of an outcome.\<close>

definition LaneDecision :: "outcome \<Rightarrow> lane_decision" where
  "LaneDecision out0 =
     (let out = normalize out0 in
      if oc_Code out = ''downstream_write_failed''
      then LaneDecisionFor OutcomeDownstreamWriteFailed True False (oc_Code out)
      else
       (let d = LaneDecisionFor (oc_Kind out) (oc_Committed out) (oc_Eligible out) (oc_Code out);
            d = (if oc_Kind out = OutcomeClientAborted \<and> oc_Committed out
                 then d\<lparr>ld_Committed := True, ld_TraceOutcome := ''committed_fail''\<rparr> else d);
            d = (if oc_Kind out = OutcomeUpstreamFailed
                 then (let d = d\<lparr>ld_Eligible := oc_Eligible out, ld_PenalizeUpstream := oc_Eligible out\<rparr>
                       in if oc_Eligible out then d\<lparr>ld_TraceOutcome := ''fail_switch''\<rparr> else d)
                 else d);
            d = (if \<not> oc_Eligible out \<and> oc_Kind out = OutcomeUpstreamFailed
                 then d\<lparr>ld_Eligible := False, ld_PenalizeUpstream := False, ld_TraceOutcome := ''fail_terminal''\<rparr>
                 else d)
        in if oc_UsageStatus out \<noteq> '''' then d\<lparr>ld_UsageStatus := oc_UsageStatus out\<rparr> else d))"

definition IsClientGone :: "ctx_err \<Rightarrow> sdk_error option \<Rightarrow> bool" where
  "IsClientGone ctx err \<longleftrightarrow> (case err of None \<Rightarrow> False | Some e \<Rightarrow> se_Canceled e) \<or> ctx = CtxCanceled"

definition WithRequestContext :: "ctx_err \<Rightarrow> outcome \<Rightarrow> outcome" where
  "WithRequestContext ctx out =
     (if \<not> oc_Committed out \<and> IsClientGone ctx None
      then normalize (out\<lparr>oc_Kind := OutcomeClientAborted, oc_Eligible := False, oc_CredentialCooldown := 0\<rparr>)
      else if oc_Committed out then normalize out
      else normalize
       (if ctx = CtxDeadline
        then out\<lparr>oc_Kind := OutcomeGatewayTimeout, oc_Eligible := False, oc_CredentialCooldown := 0,
               oc_StatusCode := 504, oc_Code := ''gateway_timeout'',
               oc_Message := ''gateway request budget exceeded''\<rparr>
        else out))"

definition OutcomeFromErr :: "sdk_error \<Rightarrow> outcome" where
  "OutcomeFromErr err =
     (if se_StreamTruncated err \<or> se_StreamOverflow err
      then normalize (zero_outcome\<lparr>oc_Kind := OutcomeUpstreamFailed, oc_Eligible := True, oc_StatusCode := 502,
             oc_Code := ''upstream_error'', oc_Message := ''upstream stream failed before the first event'',
             oc_Detail := UpstreamErrorDetail (Some err)\<rparr>)
      else (case MapUpstreamError (Some err) of (statusCode, code, message) \<Rightarrow>
              normalize (zero_outcome\<lparr>oc_Kind := OutcomeUpstreamFailed, oc_Eligible := FailoverEligible (Some err),
                oc_CredentialCooldown := CredentialCooldown (Some err), oc_StatusCode := statusCode,
                oc_Code := code, oc_Message := message, oc_Detail := UpstreamErrorDetail (Some err)\<rparr>)))"

definition OutcomeFromErrCtx :: "ctx_err \<Rightarrow> sdk_error \<Rightarrow> outcome" where
  "OutcomeFromErrCtx ctx err = WithRequestContext ctx (OutcomeFromErr err)"

section \<open>The candidates of an attempt and the terminal bookkeeping\<close>

definition preflightCandidates :: "bool \<Rightarrow> int \<Rightarrow> candidate list \<Rightarrow> candidate list" where
  "preflightCandidates failoverEnabled limit cands =
     (let limit = (if limit \<le> 0 \<or> limit > int (length cands) then int (length cands) else limit);
          limit = (if \<not> failoverEnabled \<and> limit > 1 then 1 else limit)
      in take (nat limit) cands)"

definition recordCommittedOutcome ::
  "lane_decision \<Rightarrow> ident \<Rightarrow> ident \<Rightarrow> probe_token \<Rightarrow> int \<Rightarrow> instant \<Rightarrow> 'c pool
    \<Rightarrow> 'c pool \<times> cooldown_write" where
  "recordCommittedOutcome d targetID credID token threshold now p =
     (if ld_PenalizeUpstream d then (RecordTargetFailure targetID token threshold now p, None)
      else RecordCredentialSuccess credID (RecordTargetSuccess targetID token now p))"

definition committedKindForStatus :: "string \<Rightarrow> OutcomeKind" where
  "committedKindForStatus status =
     (if status = UsageStatusOK then OutcomeCommittedSuccess
      else if status = UsageStatusOverflow then OutcomeGatewayOverflow
      else if status = UsageStatusTimeout then OutcomeGatewayTimeout
      else if status = UsageStatusCanceled then OutcomeClientAborted
      else OutcomeCommittedPartial)"

section \<open>What a failure is blamed on\<close>

lemmas decision_defs = LaneDecisionFor_def decision_switch_def usageStatusForOutcome_def Let_def

lemma decision_failed:
  "LaneDecisionFor OutcomeUpstreamFailed c e code =
     \<lparr>ld_Kind = OutcomeUpstreamFailed, ld_Committed = c, ld_Success = False, ld_Eligible = e,
      ld_PenalizeUpstream = False, ld_DownstreamClient = False, ld_GatewayTimeout = False,
      ld_Billable = False, ld_UsageStatus = UsageStatusError, ld_TraceOutcome = ''fail_terminal'',
      ld_TraceReason = code, ld_DiagnosticStatus = ''failed'', ld_DiagnosticError = code\<rparr>"
  by (simp add: decision_defs)

lemma decision_aborted:
  "LaneDecisionFor OutcomeClientAborted c e code =
     \<lparr>ld_Kind = OutcomeClientAborted, ld_Committed = c, ld_Success = False, ld_Eligible = e,
      ld_PenalizeUpstream = False, ld_DownstreamClient = True, ld_GatewayTimeout = False,
      ld_Billable = False, ld_UsageStatus = UsageStatusCanceled,
      ld_TraceOutcome = (if c then ''committed_fail'' else ''fail_terminal''),
      ld_TraceReason = ''client_canceled'', ld_DiagnosticStatus = ''canceled'', ld_DiagnosticError = code\<rparr>"
  by (simp add: decision_defs)

lemma decision_timeout:
  "LaneDecisionFor OutcomeGatewayTimeout c e code =
     \<lparr>ld_Kind = OutcomeGatewayTimeout, ld_Committed = True, ld_Success = False, ld_Eligible = e,
      ld_PenalizeUpstream = False, ld_DownstreamClient = False, ld_GatewayTimeout = True,
      ld_Billable = False, ld_UsageStatus = UsageStatusTimeout, ld_TraceOutcome = ''committed_fail'',
      ld_TraceReason = ''gateway_timeout'', ld_DiagnosticStatus = ''timeout'',
      ld_DiagnosticError = ''gateway_timeout''\<rparr>"
  by (simp add: decision_defs)

text \<open>An outcome as the error mapper builds it.\<close>

definition plain_failure :: "outcome \<Rightarrow> bool" where
  "plain_failure out \<longleftrightarrow> oc_Kind out = OutcomeUpstreamFailed \<and> \<not> oc_Committed out \<and> \<not> oc_Success out \<and>
     \<not> oc_ClientGone out \<and> \<not> oc_NoUpstreamPenalty out \<and> \<not> oc_GatewayTimeout out \<and>
     oc_UsageStatus out \<in> {'''', UsageStatusError} \<and> oc_Code out \<noteq> ''downstream_write_failed''"

lemma normalize_plain:
  assumes "plain_failure out"
  shows "normalize out = out\<lparr>oc_UsageStatus := UsageStatusError\<rparr>"
proof -
  have kind: "normalizedKind out = OutcomeUpstreamFailed"
    using assms by (simp add: normalizedKind_def plain_failure_def)
  show ?thesis
    using assms unfolding normalize_def kind decision_failed Let_def plain_failure_def
    by (auto intro!: outcome.equality)
qed

text \<open>The decision on a failure as the error mapper reports it, on a request that is given up by the client,
  and on one that is out of time.\<close>

lemma lane_plain:
  assumes "plain_failure out"
  shows "LaneDecision out = (LaneDecisionFor OutcomeUpstreamFailed False (oc_Eligible out) (oc_Code out))
     \<lparr>ld_PenalizeUpstream := oc_Eligible out,
      ld_TraceOutcome := (if oc_Eligible out then ''fail_switch'' else ''fail_terminal'')\<rparr>"
proof -
  have out: "oc_Kind out = OutcomeUpstreamFailed" "oc_Committed out = False"
    "(oc_Code out = ''downstream_write_failed'') = False"
    using assms by (simp_all add: plain_failure_def)
  show ?thesis
    unfolding LaneDecision_def normalize_plain [OF assms] Let_def
    by (cases "oc_Eligible out") (simp_all add: out decision_failed)
qed

lemma lane_aborted:
  assumes "oc_Kind out = OutcomeClientAborted" "\<not> oc_Committed out" "oc_Code out \<noteq> ''downstream_write_failed''"
    "oc_UsageStatus out \<in> {'''', UsageStatusError}"
  shows "LaneDecision (normalize out) = LaneDecisionFor OutcomeClientAborted False (oc_Eligible out) (oc_Code out)"
    "oc_CredentialCooldown (normalize out) = oc_CredentialCooldown out"
    "oc_StatusCode (normalize out) = oc_StatusCode out"
proof -
  have kind: "normalizedKind out = OutcomeClientAborted"
    using assms by (simp add: normalizedKind_def)
  have n: "normalize out = out\<lparr>oc_Success := False, oc_ClientGone := True, oc_NoUpstreamPenalty := False,
      oc_GatewayTimeout := False, oc_UsageStatus := UsageStatusCanceled\<rparr>"
    using assms unfolding normalize_def kind decision_aborted Let_def
    by (auto intro!: outcome.equality)
  then show "oc_CredentialCooldown (normalize out) = oc_CredentialCooldown out"
    "oc_StatusCode (normalize out) = oc_StatusCode out" by simp_all
  have kind2: "normalizedKind (normalize out) = OutcomeClientAborted"
    using assms unfolding n by (simp add: normalizedKind_def)
  have again: "normalize (normalize out) = normalize out"
    using assms unfolding normalize_def [of "normalize out"] kind2 decision_aborted Let_def unfolding n
    by (auto intro!: outcome.equality)
  have fields: "oc_Kind (normalize out) = OutcomeClientAborted" "oc_Code (normalize out) = oc_Code out"
    "oc_Committed (normalize out) = False" "oc_Eligible (normalize out) = oc_Eligible out"
    "oc_UsageStatus (normalize out) = UsageStatusCanceled"
    using n assms by simp_all
  show "LaneDecision (normalize out) = LaneDecisionFor OutcomeClientAborted False (oc_Eligible out) (oc_Code out)"
    unfolding LaneDecision_def Let_def again fields decision_aborted using assms(3) by simp
qed

lemma lane_timeout:
  assumes "oc_Kind out = OutcomeGatewayTimeout" "oc_Code out = ''gateway_timeout''"
    "oc_UsageStatus out \<in> {'''', UsageStatusError}"
  shows "LaneDecision (normalize out) = (LaneDecisionFor OutcomeGatewayTimeout True (oc_Eligible out) ''gateway_timeout'')
       \<lparr>ld_UsageStatus := oc_UsageStatus (normalize out)\<rparr>"
    "oc_CredentialCooldown (normalize out) = oc_CredentialCooldown out"
    "oc_StatusCode (normalize out) = oc_StatusCode out"
proof -
  have kind: "normalizedKind out = OutcomeGatewayTimeout"
    using assms by (simp add: normalizedKind_def)
  have n: "normalize out = out\<lparr>oc_Committed := True, oc_Success := False, oc_ClientGone := False,
      oc_NoUpstreamPenalty := False, oc_GatewayTimeout := True,
      oc_UsageStatus := (if oc_UsageStatus out = '''' then UsageStatusTimeout else oc_UsageStatus out)\<rparr>"
    using assms unfolding normalize_def kind decision_timeout Let_def
    by (auto intro!: outcome.equality)
  then show "oc_CredentialCooldown (normalize out) = oc_CredentialCooldown out"
    "oc_StatusCode (normalize out) = oc_StatusCode out" by simp_all
  have kind2: "normalizedKind (normalize out) = OutcomeGatewayTimeout"
    using assms unfolding n by (simp add: normalizedKind_def)
  have again: "normalize (normalize out) = normalize out"
    using assms unfolding normalize_def [of "normalize out"] kind2 decision_timeout Let_def unfolding n
    by (auto intro!: outcome.equality)
  have fields: "oc_Kind (normalize out) = OutcomeGatewayTimeout" "oc_Code (normalize out) = ''gateway_timeout''"
    "oc_Committed (normalize out) = True" "oc_Eligible (normalize out) = oc_Eligible out"
    using n assms by simp_all
  have "oc_UsageStatus (normalize out) \<noteq> ''''" using n by simp
  then show "LaneDecision (normalize out) = (LaneDecisionFor OutcomeGatewayTimeout True (oc_Eligible out) ''gateway_timeout'')
       \<lparr>ld_UsageStatus := oc_UsageStatus (normalize out)\<rparr>"
    unfolding LaneDecision_def Let_def again fields decision_timeout by simp
qed

lemma mapped_code: "fst (snd (mapUpstreamError err)) \<noteq> ''downstream_write_failed''"
  by (simp add: mapUpstreamError_def map_api_error_def split: option.split)

text \<open>The outcome before its normalization.\<close>

definition raw_failure :: "sdk_error \<Rightarrow> outcome" where
  "raw_failure err =
     (if se_StreamTruncated err \<or> se_StreamOverflow err
      then zero_outcome\<lparr>oc_Kind := OutcomeUpstreamFailed, oc_Eligible := True, oc_StatusCode := 502,
             oc_Code := ''upstream_error'', oc_Message := ''upstream stream failed before the first event'',
             oc_Detail := UpstreamErrorDetail (Some err)\<rparr>
      else zero_outcome\<lparr>oc_Kind := OutcomeUpstreamFailed, oc_Eligible := FailoverEligible (Some err),
             oc_CredentialCooldown := CredentialCooldown (Some err),
             oc_StatusCode := fst (mapUpstreamError (Some err)), oc_Code := fst (snd (mapUpstreamError (Some err))),
             oc_Message := snd (snd (mapUpstreamError (Some err))), oc_Detail := UpstreamErrorDetail (Some err)\<rparr>)"

lemma raw_failure_plain: "plain_failure (raw_failure err)"
  using mapped_code [of "Some err"] by (simp add: raw_failure_def plain_failure_def zero_outcome_def)

lemma from_err_raw: "OutcomeFromErr err = (raw_failure err)\<lparr>oc_UsageStatus := UsageStatusError\<rparr>"
proof -
  have "OutcomeFromErr err = normalize (raw_failure err)"
    by (simp add: OutcomeFromErr_def raw_failure_def MapUpstreamError_def split: prod.split)
  then show ?thesis by (simp add: normalize_plain [OF raw_failure_plain])
qed

lemma from_err_fields:
  "oc_Kind (OutcomeFromErr err) = OutcomeUpstreamFailed" "\<not> oc_Committed (OutcomeFromErr err)"
  "oc_UsageStatus (OutcomeFromErr err) = UsageStatusError"
  "oc_Code (OutcomeFromErr err) \<noteq> ''downstream_write_failed''"
  "oc_Eligible (OutcomeFromErr err) \<longleftrightarrow>
     se_StreamTruncated err \<or> se_StreamOverflow err \<or> FailoverEligible (Some err)"
  "oc_CredentialCooldown (OutcomeFromErr err) =
     (if se_StreamTruncated err \<or> se_StreamOverflow err then 0 else CredentialCooldown (Some err))"
  "400 \<le> oc_StatusCode (OutcomeFromErr err)" "oc_StatusCode (OutcomeFromErr err) < 600"
  using raw_failure_plain [of err] mapUpstreamError_status [of err]
  unfolding from_err_raw plain_failure_def by (auto simp: raw_failure_def zero_outcome_def)

lemma from_err_plain: "plain_failure (OutcomeFromErr err)"
  using raw_failure_plain [of err] unfolding from_err_raw by (simp add: plain_failure_def)

definition blamed :: "ctx_err \<Rightarrow> sdk_error \<Rightarrow> bool" where
  "blamed ctx err \<longleftrightarrow> ctx = CtxAlive \<and> (se_StreamTruncated err \<or> se_StreamOverflow err \<or> FailoverEligible (Some err))"

definition cooled_for :: "ctx_err \<Rightarrow> sdk_error \<Rightarrow> duration" where
  "cooled_for ctx err =
     (if ctx = CtxAlive \<and> \<not> se_StreamTruncated err \<and> \<not> se_StreamOverflow err then CredentialCooldown (Some err) else 0)"

lemma err_ctx:
  "OutcomeFromErrCtx CtxAlive err = OutcomeFromErr err"
  "OutcomeFromErrCtx CtxCanceled err = normalize
     ((OutcomeFromErr err)\<lparr>oc_Kind := OutcomeClientAborted, oc_Eligible := False, oc_CredentialCooldown := 0\<rparr>)"
  "OutcomeFromErrCtx CtxDeadline err = normalize
     ((OutcomeFromErr err)\<lparr>oc_Kind := OutcomeGatewayTimeout, oc_Eligible := False, oc_CredentialCooldown := 0,
        oc_StatusCode := 504, oc_Code := ''gateway_timeout'', oc_Message := ''gateway request budget exceeded''\<rparr>)"
proof -
  have "(OutcomeFromErr err)\<lparr>oc_UsageStatus := UsageStatusError\<rparr> = OutcomeFromErr err"
    by (simp add: from_err_raw)
  then show "OutcomeFromErrCtx CtxAlive err = OutcomeFromErr err"
    using from_err_fields(2) [of err]
    by (simp add: OutcomeFromErrCtx_def WithRequestContext_def IsClientGone_def normalize_plain [OF from_err_plain])
qed (use from_err_fields(2) [of err] in \<open>simp_all add: OutcomeFromErrCtx_def WithRequestContext_def IsClientGone_def\<close>)

lemma err_lane:
  "LaneDecision (OutcomeFromErrCtx CtxAlive err) =
     (LaneDecisionFor OutcomeUpstreamFailed False (oc_Eligible (OutcomeFromErr err)) (oc_Code (OutcomeFromErr err)))
       \<lparr>ld_PenalizeUpstream := oc_Eligible (OutcomeFromErr err),
        ld_TraceOutcome := (if oc_Eligible (OutcomeFromErr err) then ''fail_switch'' else ''fail_terminal'')\<rparr>"
  "LaneDecision (OutcomeFromErrCtx CtxCanceled err) =
     LaneDecisionFor OutcomeClientAborted False False (oc_Code (OutcomeFromErr err))"
  "LaneDecision (OutcomeFromErrCtx CtxDeadline err) =
     (LaneDecisionFor OutcomeGatewayTimeout True False ''gateway_timeout'')
       \<lparr>ld_UsageStatus := oc_UsageStatus (OutcomeFromErrCtx CtxDeadline err)\<rparr>"
  using from_err_fields [of err] by (simp_all add: err_ctx lane_plain [OF from_err_plain] lane_aborted lane_timeout)

lemma err_cooldown: "oc_CredentialCooldown (OutcomeFromErrCtx ctx err) = cooled_for ctx err"
  using from_err_fields [of err] by (cases ctx) (simp_all add: err_ctx cooled_for_def lane_aborted lane_timeout)

text \<open>C22: a failed call is blamed on the upstream exactly when the request is still alive and the error is one
  to fail over on. Then, and only then, the next target may be tried. A request the client has given up and one
  that is out of time never count against the target and never cool the credential; nor does a stream that broke
  before its first event cool the credential. The client is reported as gone, or the budget as spent, in
  exactly these two cases.\<close>

theorem failure_blame:
  "ld_PenalizeUpstream (LaneDecision (OutcomeFromErrCtx ctx err)) = blamed ctx err \<and>
   ld_Eligible (LaneDecision (OutcomeFromErrCtx ctx err)) = blamed ctx err \<and>
   oc_CredentialCooldown (OutcomeFromErrCtx ctx err) = cooled_for ctx err \<and>
   ld_DownstreamClient (LaneDecision (OutcomeFromErrCtx ctx err)) = (ctx = CtxCanceled) \<and>
   ld_GatewayTimeout (LaneDecision (OutcomeFromErrCtx ctx err)) = (ctx = CtxDeadline) \<and>
   \<not> ld_Success (LaneDecision (OutcomeFromErrCtx ctx err)) \<and> \<not> ld_Billable (LaneDecision (OutcomeFromErrCtx ctx err))"
  using from_err_fields [of err] 
  by (cases ctx) (simp_all add: err_lane err_cooldown decision_failed decision_aborted decision_timeout blamed_def)

text \<open>no failed call is ever reported to the client as a success: whatever the upstream answered, and also
  when its stream broke before the first event, the status to send lies between 400 and 599.\<close>

theorem failure_never_ok:
  "400 \<le> oc_StatusCode (OutcomeFromErrCtx ctx err) \<and> oc_StatusCode (OutcomeFromErrCtx ctx err) < 600"
  using from_err_fields [of err] by (cases ctx) (simp_all add: err_ctx lane_aborted lane_timeout)

text \<open>A failed call is reported as committed, as if its bytes had reached the client, exactly when the
  request budget has run out. The request lane returns on a committed outcome without writing anything, so such
  a request is answered with an empty success.\<close>

theorem budget_expiry_commits:
  "ld_Committed (LaneDecision (OutcomeFromErrCtx ctx err)) \<longleftrightarrow> ctx = CtxDeadline"
  by (cases ctx) (simp_all add: err_lane decision_failed decision_aborted decision_timeout)

end
