(* ===== verification/Policy.thy ===== *)
theory Policy
  imports Prelude
begin

text \<open>
  The limits of one request: the defaults of \<^verbatim>\<open>internal/config/config.go\<close> with their validation, the
  values saved by the settings page (\<^verbatim>\<open>internal/admin/settings_handler.go\<close>) and
  \<^verbatim>\<open>internal/dataplane/policy.go\<close>, which combines them. Products of durations are computed in 64 bits, as
  Go does; \<open>wrap64\<close> makes the wrap-around explicit.
\<close>

definition wrap64 :: "int \<Rightarrow> int" where
  "wrap64 x = signed_take_bit 63 x"

lemma wrap64_id [simp]: "- (2 ^ 63) \<le> x \<Longrightarrow> x < 2 ^ 63 \<Longrightarrow> wrap64 x = x"
  unfolding wrap64_def by (rule signed_take_bit_int_eq_self)

section \<open>Configuration\<close>

record defaults =
  df_UpstreamTimeoutMs :: int
  df_StreamIdleTimeoutMs :: int
  df_MaxRetries :: int
  df_MaxRequestBodyBytes :: int
  df_StreamFirstTokenTimeoutMs :: int
  df_FailoverMaxTargets :: int
  df_FailoverFailureThreshold :: int
  df_MaxConcurrentStreams :: int
  df_StreamAdmissionTimeoutMs :: int

definition or_default :: "int \<Rightarrow> int \<Rightarrow> int" where
  "or_default d v = (if v = 0 then d else v)"

definition setDefaults :: "defaults \<Rightarrow> defaults" where
  "setDefaults d =
     \<lparr>df_UpstreamTimeoutMs = or_default 300000 (df_UpstreamTimeoutMs d),
      df_StreamIdleTimeoutMs = or_default 120000 (df_StreamIdleTimeoutMs d),
      df_MaxRetries = or_default 2 (df_MaxRetries d),
      df_MaxRequestBodyBytes = or_default (32 * 1024 * 1024) (df_MaxRequestBodyBytes d),
      df_StreamFirstTokenTimeoutMs = or_default 60000 (df_StreamFirstTokenTimeoutMs d),
      df_FailoverMaxTargets = or_default 3 (df_FailoverMaxTargets d),
      df_FailoverFailureThreshold = or_default 3 (df_FailoverFailureThreshold d),
      df_MaxConcurrentStreams = or_default 256 (df_MaxConcurrentStreams d),
      df_StreamAdmissionTimeoutMs = or_default 5000 (df_StreamAdmissionTimeoutMs d)\<rparr>"

abbreviation (input) MaxDurationMillis :: int where "MaxDurationMillis \<equiv> 86400000"

datatype range_error = TooSmall string int int | TooLarge string int int

fun check_ranges :: "(string \<times> int \<times> int \<times> int) list \<Rightarrow> range_error option" where
  "check_ranges [] = None"
| "check_ranges ((name, val, lo, hi) # fs) =
     (if val < lo then Some (TooSmall name lo val)
      else if hi > 0 \<and> val > hi then Some (TooLarge name hi val)
      else check_ranges fs)"

definition validate_defaults :: "defaults \<Rightarrow> range_error option" where
  "validate_defaults d = check_ranges
     [(''upstream_timeout_ms'', df_UpstreamTimeoutMs d, 1, MaxDurationMillis),
      (''stream_idle_timeout_ms'', df_StreamIdleTimeoutMs d, 1, MaxDurationMillis),
      (''stream_first_token_timeout_ms'', df_StreamFirstTokenTimeoutMs d, 1, MaxDurationMillis),
      (''max_retries'', df_MaxRetries d, 0, 0),
      (''max_request_body_bytes'', df_MaxRequestBodyBytes d, 1, 512 * 1024 * 1024),
      (''failover_max_targets'', df_FailoverMaxTargets d, 1, 100),
      (''failover_failure_threshold'', df_FailoverFailureThreshold d, 1, 1000),
      (''max_concurrent_streams'', df_MaxConcurrentStreams d, 1, 10000),
      (''stream_admission_timeout_ms'', df_StreamAdmissionTimeoutMs d, 1, MaxDurationMillis)]"

definition UpstreamTimeout :: "defaults \<Rightarrow> duration" where
  "UpstreamTimeout d = wrap64 (df_UpstreamTimeoutMs d * millisecond)"

definition cfg_StreamIdleTimeout :: "defaults \<Rightarrow> duration" where
  "cfg_StreamIdleTimeout d = wrap64 (df_StreamIdleTimeoutMs d * millisecond)"

definition StreamFirstTokenTimeout :: "defaults \<Rightarrow> duration" where
  "StreamFirstTokenTimeout d = wrap64 (df_StreamFirstTokenTimeoutMs d * millisecond)"

definition cfg_FailoverMaxTargets :: "defaults \<Rightarrow> int" where
  "cfg_FailoverMaxTargets d = (if df_FailoverMaxTargets d > 0 then df_FailoverMaxTargets d else 3)"

definition cfg_FailoverFailureThreshold :: "defaults \<Rightarrow> int" where
  "cfg_FailoverFailureThreshold d = (if df_FailoverFailureThreshold d > 0 then df_FailoverFailureThreshold d else 3)"

section \<open>Settings\<close>

record runtime_defaults =
  rd_UpstreamTimeoutMs :: int
  rd_StreamIdleTimeoutMs :: int
  rd_StreamFirstTokenTimeoutMs :: int
  rd_FailoverMaxTargets :: int
  rd_FailoverFailureThreshold :: int

text \<open>The checks of the settings handler before it saves.\<close>

definition settings_check :: "runtime_defaults \<Rightarrow> range_error option" where
  "settings_check r = check_ranges
     [(''upstream_timeout_ms'', rd_UpstreamTimeoutMs r, 1, MaxDurationMillis),
      (''stream_idle_timeout_ms'', rd_StreamIdleTimeoutMs r, 1, MaxDurationMillis),
      (''stream_first_token_timeout_ms'', rd_StreamFirstTokenTimeoutMs r, 1, MaxDurationMillis),
      (''failover_max_targets'', rd_FailoverMaxTargets r, 1, 100),
      (''failover_failure_threshold'', rd_FailoverFailureThreshold r, 1, 1000)]"

section \<open>Policy\<close>

text \<open>The snapshot is \<open>None\<close> while none is loaded; a setting of 0 means that none was saved.\<close>

definition FailoverMaxTargets :: "runtime_defaults option \<Rightarrow> defaults \<Rightarrow> int" where
  "FailoverMaxTargets snap cfg =
     (case snap of Some r \<Rightarrow> if rd_FailoverMaxTargets r > 0 then rd_FailoverMaxTargets r else cfg_FailoverMaxTargets cfg
      | None \<Rightarrow> cfg_FailoverMaxTargets cfg)"

definition FailoverFailureThreshold :: "runtime_defaults option \<Rightarrow> defaults \<Rightarrow> int" where
  "FailoverFailureThreshold snap cfg =
     (case snap of Some r \<Rightarrow> if rd_FailoverFailureThreshold r > 0 then rd_FailoverFailureThreshold r
                              else cfg_FailoverFailureThreshold cfg
      | None \<Rightarrow> cfg_FailoverFailureThreshold cfg)"

definition SafeMillis :: "int \<Rightarrow> duration" where
  "SafeMillis ms =
     (if ms \<le> 0 then 0
      else if ms > MaxDurationMillis then wrap64 (MaxDurationMillis * millisecond)
      else wrap64 (ms * millisecond))"

definition NonStreamTimeout :: "runtime_defaults option \<Rightarrow> defaults \<Rightarrow> duration" where
  "NonStreamTimeout snap cfg =
     (case snap of Some r \<Rightarrow> if rd_UpstreamTimeoutMs r > 0 then SafeMillis (rd_UpstreamTimeoutMs r)
                              else UpstreamTimeout cfg
      | None \<Rightarrow> UpstreamTimeout cfg)"

definition FirstTokenTimeout :: "runtime_defaults option \<Rightarrow> defaults \<Rightarrow> duration" where
  "FirstTokenTimeout snap cfg =
     (case snap of Some r \<Rightarrow> if rd_StreamFirstTokenTimeoutMs r > 0 then SafeMillis (rd_StreamFirstTokenTimeoutMs r)
                              else StreamFirstTokenTimeout cfg
      | None \<Rightarrow> StreamFirstTokenTimeout cfg)"

definition StreamIdleTimeout :: "runtime_defaults option \<Rightarrow> defaults \<Rightarrow> duration" where
  "StreamIdleTimeout snap cfg =
     (case snap of Some r \<Rightarrow> if rd_StreamIdleTimeoutMs r > 0 then SafeMillis (rd_StreamIdleTimeoutMs r)
                              else cfg_StreamIdleTimeout cfg
      | None \<Rightarrow> cfg_StreamIdleTimeout cfg)"

abbreviation (input) responseHeaderWait :: duration where "responseHeaderWait \<equiv> 60 * second"
abbreviation (input) perAttemptSlack :: duration where "perAttemptSlack \<equiv> 5 * second"
abbreviation (input) minTotalBudget :: duration where "minTotalBudget \<equiv> 30 * second"
abbreviation (input) maxTotalBudget :: duration where "maxTotalBudget \<equiv> 30 * minute"

definition TotalRequestBudget :: "runtime_defaults option \<Rightarrow> defaults \<Rightarrow> duration" where
  "TotalRequestBudget snap cfg =
     (let perAttempt = NonStreamTimeout snap cfg;
          first = wrap64 (FirstTokenTimeout snap cfg + responseHeaderWait);
          perAttempt = (if first > perAttempt then first else perAttempt);
          perAttempt = wrap64 (perAttempt + perAttemptSlack);
          attempts = wrap64 (FailoverMaxTargets snap cfg + 1);
          budget = wrap64 (attempts * perAttempt)
      in if budget < minTotalBudget then minTotalBudget
         else if budget > maxTotalBudget then maxTotalBudget else budget)"

section \<open>Properties\<close>

lemma check_ranges_None:
  "check_ranges fs = None \<longleftrightarrow> list_all (\<lambda>(name, val, lo, hi). lo \<le> val \<and> (hi > 0 \<longrightarrow> val \<le> hi)) fs"
  by (induction fs rule: check_ranges.induct) auto

text \<open>Settings as the handler accepts them, or not saved yet.\<close>

definition settings_ok :: "runtime_defaults option \<Rightarrow> bool" where
  "settings_ok snap = (case snap of None \<Rightarrow> True
     | Some r \<Rightarrow> settings_check r = None \<or>
         (rd_UpstreamTimeoutMs r = 0 \<and> rd_StreamIdleTimeoutMs r = 0 \<and> rd_StreamFirstTokenTimeoutMs r = 0 \<and>
          rd_FailoverMaxTargets r = 0 \<and> rd_FailoverFailureThreshold r = 0))"

lemma cfg_ranges:
  assumes "validate_defaults cfg = None"
  shows "UpstreamTimeout cfg = df_UpstreamTimeoutMs cfg * millisecond"
    "StreamFirstTokenTimeout cfg = df_StreamFirstTokenTimeoutMs cfg * millisecond"
    "cfg_StreamIdleTimeout cfg = df_StreamIdleTimeoutMs cfg * millisecond"
    "1 \<le> df_UpstreamTimeoutMs cfg" "df_UpstreamTimeoutMs cfg \<le> MaxDurationMillis"
    "1 \<le> df_StreamFirstTokenTimeoutMs cfg" "df_StreamFirstTokenTimeoutMs cfg \<le> MaxDurationMillis"
    "1 \<le> df_StreamIdleTimeoutMs cfg" "df_StreamIdleTimeoutMs cfg \<le> MaxDurationMillis"
    "1 \<le> cfg_FailoverMaxTargets cfg" "cfg_FailoverMaxTargets cfg \<le> 100"
    "1 \<le> cfg_FailoverFailureThreshold cfg" "cfg_FailoverFailureThreshold cfg \<le> 1000"
  using assms unfolding validate_defaults_def check_ranges_None
  by (simp_all add: UpstreamTimeout_def StreamFirstTokenTimeout_def cfg_StreamIdleTimeout_def
      cfg_FailoverMaxTargets_def cfg_FailoverFailureThreshold_def)

lemma SafeMillis_exact: "1 \<le> ms \<Longrightarrow> ms \<le> MaxDurationMillis \<Longrightarrow> SafeMillis ms = ms * millisecond"
  by (simp add: SafeMillis_def)

lemma settings_ranges:
  assumes "settings_check r = None"
  shows "1 \<le> rd_UpstreamTimeoutMs r" "rd_UpstreamTimeoutMs r \<le> MaxDurationMillis"
    "1 \<le> rd_StreamIdleTimeoutMs r" "rd_StreamIdleTimeoutMs r \<le> MaxDurationMillis"
    "1 \<le> rd_StreamFirstTokenTimeoutMs r" "rd_StreamFirstTokenTimeoutMs r \<le> MaxDurationMillis"
    "1 \<le> rd_FailoverMaxTargets r" "rd_FailoverMaxTargets r \<le> 100"
    "1 \<le> rd_FailoverFailureThreshold r" "rd_FailoverFailureThreshold r \<le> 1000"
  using assms unfolding settings_check_def check_ranges_None by simp_all

lemma policy_ranges:
  assumes "validate_defaults cfg = None" "settings_ok snap"
  shows "millisecond \<le> NonStreamTimeout snap cfg" "NonStreamTimeout snap cfg \<le> 24 * hour"
    "millisecond \<le> FirstTokenTimeout snap cfg" "FirstTokenTimeout snap cfg \<le> 24 * hour"
    "millisecond \<le> StreamIdleTimeout snap cfg" "StreamIdleTimeout snap cfg \<le> 24 * hour"
    "1 \<le> FailoverMaxTargets snap cfg" "FailoverMaxTargets snap cfg \<le> 100"
    "1 \<le> FailoverFailureThreshold snap cfg" "FailoverFailureThreshold snap cfg \<le> 1000"
  using assms(2) cfg_ranges [OF assms(1)] settings_ranges
  by (auto simp: NonStreamTimeout_def FirstTokenTimeout_def StreamIdleTimeout_def FailoverMaxTargets_def
      FailoverFailureThreshold_def settings_ok_def SafeMillis_exact split: option.split)

text \<open>whatever values the settings and the configuration hold, and although products of durations wrap
  around in 64 bits, the budget of a request lies between 30 seconds and 30 minutes.\<close>

theorem budget_bounded: "minTotalBudget \<le> TotalRequestBudget snap cfg \<and> TotalRequestBudget snap cfg \<le> maxTotalBudget"
  by (simp add: TotalRequestBudget_def Let_def)

text \<open>with a validated configuration and saved settings nothing wraps around. The budget then covers one
  attempt more than the chain may make, each with the longer of the timeout of a plain call and the wait for
  the first token, up to 30 minutes; every timeout is positive, as the timers need.\<close>

theorem budget_covers_chain:
  assumes "validate_defaults cfg = None" "settings_ok snap"
  shows "TotalRequestBudget snap cfg = max minTotalBudget (min maxTotalBudget
      ((FailoverMaxTargets snap cfg + 1) *
       (max (NonStreamTimeout snap cfg) (FirstTokenTimeout snap cfg + responseHeaderWait) + perAttemptSlack))) \<and>
    0 < NonStreamTimeout snap cfg \<and> 0 < FirstTokenTimeout snap cfg \<and> 0 < StreamIdleTimeout snap cfg \<and>
    0 < FailoverMaxTargets snap cfg \<and> 0 < FailoverFailureThreshold snap cfg"
proof -
  note r = policy_ranges [OF assms]
  let ?n = "FailoverMaxTargets snap cfg + 1"
    and ?a = "max (NonStreamTimeout snap cfg) (FirstTokenTimeout snap cfg + responseHeaderWait) + perAttemptSlack"
  have a: "0 \<le> ?a" "?a \<le> 24 * hour + 65 * second" using r by simp_all
  have n: "0 \<le> ?n" "?n \<le> 101" using r by simp_all
  have "?n * ?a \<le> 101 * (24 * hour + 65 * second)" using a n by (intro mult_mono) simp_all
  moreover have "0 \<le> ?n * ?a" using a n by (intro mult_nonneg_nonneg)
  ultimately have prod: "wrap64 (?n * ?a) = ?n * ?a" by (intro wrap64_id) simp_all
  have first: "wrap64 (FirstTokenTimeout snap cfg + responseHeaderWait) = FirstTokenTimeout snap cfg + responseHeaderWait"
    using r by (intro wrap64_id) simp_all
  have per: "wrap64 (max (NonStreamTimeout snap cfg) (FirstTokenTimeout snap cfg + responseHeaderWait) + perAttemptSlack) = ?a"
    using a by (intro wrap64_id) simp_all
  have att: "wrap64 ?n = ?n" using n by (intro wrap64_id) simp_all
  have mx: "(if x > y then x else y) = max y x" for x y :: int by simp
  have "TotalRequestBudget snap cfg = max minTotalBudget (min maxTotalBudget (?n * ?a))"
    unfolding TotalRequestBudget_def Let_def first mx per att prod by simp
  then show ?thesis using r by simp
qed

theorem budget_covers_chain_witness:
  "TotalRequestBudget None (setDefaults \<lparr>df_UpstreamTimeoutMs = 0, df_StreamIdleTimeoutMs = 0, df_MaxRetries = 0,
     df_MaxRequestBodyBytes = 0, df_StreamFirstTokenTimeoutMs = 0, df_FailoverMaxTargets = 0,
     df_FailoverFailureThreshold = 0, df_MaxConcurrentStreams = 0, df_StreamAdmissionTimeoutMs = 0\<rparr>) = 1220 * second"
proof -
  let ?c = "setDefaults \<lparr>df_UpstreamTimeoutMs = 0, df_StreamIdleTimeoutMs = 0, df_MaxRetries = 0,
     df_MaxRequestBodyBytes = 0, df_StreamFirstTokenTimeoutMs = 0, df_FailoverMaxTargets = 0,
     df_FailoverFailureThreshold = 0, df_MaxConcurrentStreams = 0, df_StreamAdmissionTimeoutMs = 0\<rparr>"
  have ok: "validate_defaults ?c = None" by (simp add: setDefaults_def or_default_def validate_defaults_def)
  have "NonStreamTimeout None ?c = 300 * second" "FirstTokenTimeout None ?c = 60 * second"
    "FailoverMaxTargets None ?c = 3"
    by (simp_all add: setDefaults_def or_default_def NonStreamTimeout_def FirstTokenTimeout_def FailoverMaxTargets_def
        UpstreamTimeout_def StreamFirstTokenTimeout_def cfg_FailoverMaxTargets_def)
  with budget_covers_chain [OF ok, of None] show ?thesis by (simp add: settings_ok_def)
qed

text \<open>A timeout of an hour for a plain call passes the validation, yet the whole request is cut off after 30
  minutes: the budget is then shorter than a single attempt.\<close>

theorem budget_below_attempt:
  assumes "validate_defaults cfg = None" "df_UpstreamTimeoutMs cfg = 3600000"
  shows "TotalRequestBudget None cfg < NonStreamTimeout None cfg"
  using budget_bounded [of None cfg] cfg_ranges(1) [OF assms(1)] assms(2) by (simp add: NonStreamTimeout_def)

end
