(* ===== verification/Access.thy ===== *)
theory Access
  imports Routing Credentials Policy "HOL-Library.Word"
begin

text \<open>
  Who may call which model: \<^verbatim>\<open>internal/snapshot\<close> (the model allow lists and \<^verbatim>\<open>RebuildFromDB\<close>, which turns
  the rows of the store into the snapshot the data plane reads), \<^verbatim>\<open>internal/auth/auth.go\<close> with
  \<^verbatim>\<open>internal/authhttp\<close>, and the gate of the management API, \<^verbatim>\<open>internal/access/access.go\<close>. The SHA-256 of a key
  is a parameter \<open>sha\<close>; addresses and networks are the values the package \<open>netip\<close> has parsed them to.
\<close>

section \<open>Model allow lists\<close>

record model_allow =
  ma_Unrestricted :: bool
  ma_Models :: "string list"

definition AllowAll :: model_allow where
  "AllowAll = \<lparr>ma_Unrestricted = True, ma_Models = []\<rparr>"

fun allow_loop :: "string list \<Rightarrow> string list \<Rightarrow> string list" where
  "allow_loop [] out = out"
| "allow_loop (m0 # ms) out =
     (let m = trim_space m0 in
      if m \<noteq> '''' then (if m \<in> set out then allow_loop ms out else allow_loop ms (out @ [m]))
      else allow_loop ms out)"

definition AllowOnly :: "string list \<Rightarrow> model_allow" where
  "AllowOnly models = \<lparr>ma_Unrestricted = False, ma_Models = allow_loop models []\<rparr>"

definition Allows :: "model_allow \<Rightarrow> string \<Rightarrow> bool" where
  "Allows a model \<longleftrightarrow> (if ma_Unrestricted a then True else model \<in> set (ma_Models a))"

definition Intersect :: "model_allow \<Rightarrow> model_allow \<Rightarrow> model_allow" where
  "Intersect a b =
     (if ma_Unrestricted a then b
      else if ma_Unrestricted b then a
      else \<lparr>ma_Unrestricted = False, ma_Models = filter (Allows b) (ma_Models a)\<rparr>)"

definition keyModelAllow :: "string list option \<Rightarrow> model_allow" where
  "keyModelAllow models = (case models of None \<Rightarrow> AllowAll | Some ms \<Rightarrow> AllowOnly ms)"

definition groupModelAllow :: "(ident \<rightharpoonup> string list) \<Rightarrow> ident \<Rightarrow> model_allow" where
  "groupModelAllow byGroup groupID =
     (if groupID = '''' then AllowAll
      else (case byGroup groupID of None \<Rightarrow> AllowAll | Some models \<Rightarrow> AllowOnly models))"

section \<open>Addresses\<close>

text \<open>\<open>netip.Addr\<close> (the zero address, IPv4, IPv6 with a zone) and \<open>netip.Prefix\<close> with a valid length.\<close>

datatype ip_addr = NoAddr | V4 "32 word" | V6 "128 word" string

datatype ip_prefix = P4 "32 word" nat | P6 "128 word" nat

definition Is4In6 :: "ip_addr \<Rightarrow> bool" where
  "Is4In6 a = (case a of V6 w _ \<Rightarrow> drop_bit 32 w = 0xFFFF | _ \<Rightarrow> False)"

definition Unmap :: "ip_addr \<Rightarrow> ip_addr" where
  "Unmap a = (case a of V6 w _ \<Rightarrow> if Is4In6 a then V4 (ucast w) else a | _ \<Rightarrow> a)"

fun prefix_Contains :: "ip_prefix \<Rightarrow> ip_addr \<Rightarrow> bool" where
  "prefix_Contains (P4 net n) (V4 a) \<longleftrightarrow> drop_bit (32 - n) net = drop_bit (32 - n) a"
| "prefix_Contains (P6 net n) (V6 a zone) \<longleftrightarrow> zone = '''' \<and> drop_bit (128 - n) net = drop_bit (128 - n) a"
| "prefix_Contains _ _ \<longleftrightarrow> False"

section \<open>The snapshot\<close>

record user_snapshot =
  us_ID :: ident
  us_Name :: string
  us_Role :: string
  us_Status :: string
  us_QuotaTokens :: int
  us_AuthVersion :: int
  us_GroupID :: ident
  us_AllowedModels :: model_allow

record key_snapshot =
  ks_ID :: ident
  ks_KeyHash :: string
  ks_Name :: string
  ks_Enabled :: bool
  ks_UserID :: ident
  ks_RPMLimit :: int
  ks_TPMLimit :: int
  ks_AllowedModels :: model_allow
  ks_GroupModelAllow :: model_allow
  ks_ExpiresAt :: int
  ks_AllowedNets :: "ip_prefix list option"

record provider_snapshot =
  ps_ID :: ident
  ps_Slug :: string
  ps_Name :: string
  ps_Endpoint :: string
  ps_Enabled :: bool
  ps_Ready :: bool
  ps_Reason :: string

record snapshot =
  sn_Routes :: route_index
  sn_Providers :: "string \<rightharpoonup> provider_snapshot"
  sn_KeysByHash :: "string \<rightharpoonup> key_snapshot"
  sn_UsersByID :: "ident \<rightharpoonup> user_snapshot"
  sn_Runtime :: runtime_defaults
  sn_DefaultContextWindow :: int
  sn_DefaultMaxOutputTokens :: int

definition IsActive :: "user_snapshot option \<Rightarrow> bool" where
  "IsActive u = (case u of None \<Rightarrow> False | Some u \<Rightarrow> us_Status u = ''active'')"

definition AllowsIP :: "key_snapshot \<Rightarrow> ip_addr \<Rightarrow> bool" where
  "AllowsIP k addr0 =
     (case ks_AllowedNets k of None \<Rightarrow> True
      | Some nets \<Rightarrow>
          (let addr = (if Is4In6 addr0 then Unmap addr0 else addr0) in list_ex (\<lambda>p. prefix_Contains p addr) nets))"

section \<open>Rebuilding the snapshot\<close>

record store_user =
  su_ID :: ident
  su_Username :: string
  su_Role :: string
  su_Status :: string
  su_QuotaTokens :: int
  su_AuthVersion :: int
  su_GroupID :: ident

record access_key =
  ak_ID :: ident
  ak_KeyHash :: string
  ak_Name :: string
  ak_Enabled :: bool
  ak_UserID :: ident
  ak_RPMLimit :: int
  ak_TPMLimit :: int
  ak_AllowedModels :: "string list option"
  ak_GroupID :: ident
  ak_ExpiresAt :: int
  ak_AllowedNets :: "ip_prefix list option"

text \<open>What the reads of the store return; \<open>None\<close> is an error. \<open>GetModelDefaults\<close> returns values and an error.\<close>

record store_reads =
  sr_ListProviders :: "store_provider list option"
  sr_ListAllUpstreamModels :: "upstream_model list option"
  sr_ListRoutes :: "route list option"
  sr_ListAllRouteTargets :: "target list option"
  sr_ListGroupModels :: "(ident \<rightharpoonup> string list) option"
  sr_ListUsers :: "store_user list option"
  sr_ListAccessKeys :: "access_key list option"
  sr_GetRuntimeDefaults :: "runtime_defaults option"
  sr_GetModelDefaults :: "int \<times> int \<times> bool"

definition empty_snapshot :: snapshot where
  "empty_snapshot = \<lparr>sn_Routes = NewRouteIndex, sn_Providers = Map.empty, sn_KeysByHash = Map.empty,
     sn_UsersByID = Map.empty, sn_Runtime = \<lparr>rd_UpstreamTimeoutMs = 0, rd_StreamIdleTimeoutMs = 0,
       rd_StreamFirstTokenTimeoutMs = 0, rd_FailoverMaxTargets = 0, rd_FailoverFailureThreshold = 0\<rparr>,
     sn_DefaultContextWindow = 0, sn_DefaultMaxOutputTokens = 0\<rparr>"

text \<open>\<open>failures\<close> pairs the slug of a provider that is not ready with the reason; a later entry wins.\<close>

definition provider_row :: "(string \<times> string) list \<Rightarrow> store_provider \<Rightarrow> snapshot \<Rightarrow> snapshot" where
  "provider_row failures p snap =
     (let bad = map_of (rev failures) (sp_Slug p) in
      snap\<lparr>sn_Providers := (sn_Providers snap)(sp_Slug p \<mapsto>
             \<lparr>ps_ID = sp_ID p, ps_Slug = sp_Slug p, ps_Name = sp_Name p, ps_Endpoint = sp_Endpoint p,
              ps_Enabled = sp_Enabled p, ps_Ready = (bad = None),
              ps_Reason = (case bad of None \<Rightarrow> '''' | Some reason \<Rightarrow> reason)\<rparr>),
           sn_Routes := AddProvider
             \<lparr>pr_ID = sp_ID p, pr_Slug = sp_Slug p, pr_Name = sp_Name p, pr_Endpoint = sp_Endpoint p,
              pr_Protocol = sp_Protocol p, pr_NetworkID = sp_NetworkID p,
              pr_ProxyConfigured = (sp_ProxyURL p \<noteq> ''''), pr_Enabled = sp_Enabled p\<rparr> (sn_Routes snap)\<rparr>)"

definition user_entry :: "(ident \<rightharpoonup> string list) \<Rightarrow> store_user \<Rightarrow> user_snapshot" where
  "user_entry groupModels u =
     \<lparr>us_ID = su_ID u, us_Name = su_Username u, us_Role = su_Role u, us_Status = su_Status u,
      us_QuotaTokens = su_QuotaTokens u, us_AuthVersion = su_AuthVersion u, us_GroupID = su_GroupID u,
      us_AllowedModels = groupModelAllow groupModels (su_GroupID u)\<rparr>"

definition key_entry ::
  "(ident \<rightharpoonup> string list) \<Rightarrow> (ident \<rightharpoonup> user_snapshot) \<Rightarrow> access_key \<Rightarrow> key_snapshot" where
  "key_entry groupModels usersByID k =
     (let groupAllow = AllowAll;
          groupAllow = (case usersByID (ak_UserID k) of None \<Rightarrow> groupAllow | Some u \<Rightarrow> us_AllowedModels u);
          groupAllow = (if ak_GroupID k \<noteq> '''' then groupModelAllow groupModels (ak_GroupID k) else groupAllow)
      in \<lparr>ks_ID = ak_ID k, ks_KeyHash = ak_KeyHash k, ks_Name = ak_Name k, ks_Enabled = ak_Enabled k,
          ks_UserID = ak_UserID k, ks_RPMLimit = ak_RPMLimit k, ks_TPMLimit = ak_TPMLimit k,
          ks_AllowedModels = keyModelAllow (ak_AllowedModels k), ks_GroupModelAllow = groupAllow,
          ks_ExpiresAt = ak_ExpiresAt k, ks_AllowedNets = ak_AllowedNets k\<rparr>)"

definition index_users :: "(ident \<rightharpoonup> string list) \<Rightarrow> store_user list \<Rightarrow> (ident \<rightharpoonup> user_snapshot)" where
  "index_users groupModels us = fold (\<lambda>u m. m(su_ID u \<mapsto> user_entry groupModels u)) us Map.empty"

definition index_keys ::
  "(ident \<rightharpoonup> string list) \<Rightarrow> (ident \<rightharpoonup> user_snapshot) \<Rightarrow> access_key list \<Rightarrow> (string \<rightharpoonup> key_snapshot)" where
  "index_keys groupModels usersByID ks =
     fold (\<lambda>k m. m(ak_KeyHash k \<mapsto> key_entry groupModels usersByID k)) ks Map.empty"

datatype rebuild_error = ReadFailed

definition RebuildFromDB :: "store_reads \<Rightarrow> (string \<times> string) list \<Rightarrow> rebuild_error + snapshot" where
  "RebuildFromDB st failures =
     (case sr_ListProviders st of None \<Rightarrow> Inl ReadFailed
      | Some providers \<Rightarrow>
     (let snap = fold (provider_row failures) providers empty_snapshot in
      case sr_ListAllUpstreamModels st of None \<Rightarrow> Inl ReadFailed
      | Some models \<Rightarrow>
     (let snap = snap\<lparr>sn_Routes := fold (\<lambda>m. AddUpstreamModel (m\<lparr>um_DisplayName := ''''\<rparr>)) models (sn_Routes snap)\<rparr> in
      case sr_ListRoutes st of None \<Rightarrow> Inl ReadFailed
      | Some routes \<Rightarrow>
     (let snap = snap\<lparr>sn_Routes := fold AddRoute routes (sn_Routes snap)\<rparr> in
      case sr_ListAllRouteTargets st of None \<Rightarrow> Inl ReadFailed
      | Some targets \<Rightarrow>
     (let snap = snap\<lparr>sn_Routes := fold AddRouteTarget targets (sn_Routes snap)\<rparr> in
      case sr_ListGroupModels st of None \<Rightarrow> Inl ReadFailed
      | Some groupModels \<Rightarrow>
     (case sr_ListUsers st of None \<Rightarrow> Inl ReadFailed
      | Some users \<Rightarrow>
     (let snap = snap\<lparr>sn_UsersByID := index_users groupModels users\<rparr> in
      case sr_ListAccessKeys st of None \<Rightarrow> Inl ReadFailed
      | Some keys \<Rightarrow>
     (let snap = snap\<lparr>sn_KeysByHash := index_keys groupModels (sn_UsersByID snap) keys\<rparr> in
      case sr_GetRuntimeDefaults st of None \<Rightarrow> Inl ReadFailed
      | Some rd \<Rightarrow>
     (case sr_GetModelDefaults st of (window, maxOutput, failed) \<Rightarrow>
        if failed then Inl ReadFailed
        else Inr (snap\<lparr>sn_Runtime := rd, sn_DefaultContextWindow := window,
                       sn_DefaultMaxOutputTokens := maxOutput\<rparr>))))))))))"

section \<open>Authentication\<close>

datatype auth_error =
    ErrNoKey | ErrInvalidKey | ErrKeyDisabled | ErrUserDisabled | ErrKeyUnowned | ErrKeyExpired
  | ErrIPNotAllowed | ErrAdminCannotCallModel

record auth_context =
  ac_KeyID :: ident
  ac_Name :: string
  ac_UserID :: ident
  ac_UserStatus :: string
  ac_RPMLimit :: int
  ac_TPMLimit :: int
  ac_KeyModelAllow :: model_allow
  ac_GroupModelAllow :: model_allow

definition AllowsModel :: "auth_context \<Rightarrow> string \<Rightarrow> bool" where
  "AllowsModel c model \<longleftrightarrow> Allows (ac_KeyModelAllow c) model \<and> Allows (ac_GroupModelAllow c) model"

abbreviation (input) userRoleAdmin :: string where "userRoleAdmin \<equiv> ''admin''"

text \<open>The headers \<open>Authorization\<close> and \<open>X-Api-Key\<close>; an absent header reads as the empty string.\<close>

definition extractKey :: "string \<Rightarrow> string \<Rightarrow> string" where
  "extractKey authorization xApiKey =
     (if length authorization > 7 \<and> to_lower (take 7 authorization) = ''bearer '' then drop 7 authorization
      else if xApiKey \<noteq> '''' then xApiKey else '''')"

definition Authenticate ::
  "(string \<Rightarrow> string) \<Rightarrow> snapshot \<Rightarrow> instant \<Rightarrow> string \<Rightarrow> string \<Rightarrow> ip_addr \<Rightarrow> auth_error + auth_context" where
  "Authenticate sha snap now authorization xApiKey addr =
     (let key = extractKey authorization xApiKey in
      if key = '''' then Inl ErrNoKey
      else (case sn_KeysByHash snap (sha key) of None \<Rightarrow> Inl ErrInvalidKey
      | Some matched \<Rightarrow>
          if \<not> ks_Enabled matched then Inl ErrKeyDisabled
          else if ks_ExpiresAt matched > 0 \<and> unix_milli now \<ge> ks_ExpiresAt matched then Inl ErrKeyExpired
          else if \<not> AllowsIP matched addr then Inl ErrIPNotAllowed
          else (case sn_UsersByID snap (ks_UserID matched) of None \<Rightarrow> Inl ErrKeyUnowned
          | Some u \<Rightarrow>
              if \<not> IsActive (Some u) then Inl ErrUserDisabled
              else if us_Role u = userRoleAdmin then Inl ErrAdminCannotCallModel
              else Inr \<lparr>ac_KeyID = ks_ID matched, ac_Name = ks_Name matched, ac_UserID = ks_UserID matched,
                        ac_UserStatus = us_Status u, ac_RPMLimit = ks_RPMLimit matched,
                        ac_TPMLimit = ks_TPMLimit matched, ac_KeyModelAllow = ks_AllowedModels matched,
                        ac_GroupModelAllow = ks_GroupModelAllow matched\<rparr>)))"

definition IsAdminOwner :: "snapshot \<Rightarrow> auth_context \<Rightarrow> bool" where
  "IsAdminOwner snap c = (case sn_UsersByID snap (ac_UserID c) of None \<Rightarrow> False | Some u \<Rightarrow> us_Role u = userRoleAdmin)"

text \<open>The status and the code of the answer to a rejected key.\<close>

definition WriteAuthError :: "auth_error \<Rightarrow> int \<times> string" where
  "WriteAuthError err =
     (case err of
        ErrNoKey \<Rightarrow> (401, ''invalid_api_key'')
      | ErrKeyDisabled \<Rightarrow> (403, ''invalid_api_key'')
      | ErrInvalidKey \<Rightarrow> (401, ''invalid_api_key'')
      | ErrKeyExpired \<Rightarrow> (403, ''key_expired'')
      | ErrIPNotAllowed \<Rightarrow> (403, ''ip_not_allowed'')
      | ErrAdminCannotCallModel \<Rightarrow> (403, ''admin_cannot_call_model'')
      | _ \<Rightarrow> (401, ''invalid_api_key''))"

section \<open>The gate of the management API\<close>

definition userAccessibleRoutes :: "string list" where
  "userAccessibleRoutes =
     [''GET /admin/api/keys'', ''POST /admin/api/keys'', ''GET /admin/api/keys/{id}/secret'',
      ''PATCH /admin/api/keys/{id}'', ''DELETE /admin/api/keys/{id}'', ''POST /admin/api/keys/{id}/recompute-usage'',
      ''GET /admin/api/usage'', ''GET /admin/api/usage/by-key'', ''GET /admin/api/usage/by-model'',
      ''GET /admin/api/usage/by-provider'', ''GET /admin/api/usage/by-day'', ''GET /admin/api/usage/history'',
      ''GET /admin/api/usage/history.csv'', ''GET /admin/api/stats'', ''GET /admin/api/me'',
      ''POST /admin/api/me/password'', ''GET /admin/api/topups'', ''POST /admin/api/logout'',
      ''GET /admin/api/model-names'', ''GET /admin/api/probes/models'', ''GET /admin/api/probes/timeline'']"

definition Allowed :: "string \<Rightarrow> bool" where
  "Allowed pattern \<longleftrightarrow> pattern \<in> set userAccessibleRoutes"

text \<open>Whether the request passes the gate: \<open>user\<close> is the identity of the session, \<open>routes\<close> the pattern under
  which the router would serve the request (empty when none matches), \<open>None\<close> when there is no router.\<close>

definition AdminGateGuard :: "store_user option \<Rightarrow> string option \<Rightarrow> bool" where
  "AdminGateGuard user routes =
     (if (case user of None \<Rightarrow> False | Some u \<Rightarrow> su_Role u = userRoleAdmin \<and> su_ID u \<noteq> '''') then True
      else (case routes of None \<Rightarrow> False | Some pattern \<Rightarrow> Allowed pattern))"

section \<open>Properties of the lists\<close>

lemma allow_loop_set: "set (allow_loop ms out) = set out \<union> {m \<in> trim_space ` set ms. m \<noteq> ''''}"
  by (induction ms out rule: allow_loop.induct) (auto simp: Let_def)

lemma allow_loop_distinct: "distinct out \<Longrightarrow> distinct (allow_loop ms out)"
  by (induction ms out rule: allow_loop.induct) (auto simp: Let_def)

lemma Allows_AllowAll [simp]: "Allows AllowAll m"
  by (simp add: Allows_def AllowAll_def)

lemma Allows_AllowOnly [simp]: "Allows (AllowOnly ms) m \<longleftrightarrow> m \<noteq> '''' \<and> m \<in> trim_space ` set ms"
  by (auto simp: Allows_def AllowOnly_def allow_loop_set)

lemma Allows_Intersect [simp]: "Allows (Intersect a b) m \<longleftrightarrow> Allows a m \<and> Allows b m"
  by (simp add: Allows_def Intersect_def)

section \<open>Who gets through\<close>

text \<open>The rule of a list, absent when there is none.\<close>

definition listed :: "string list option \<Rightarrow> string \<Rightarrow> bool" where
  "listed ms m \<longleftrightarrow> (case ms of None \<Rightarrow> True | Some ms \<Rightarrow> m \<noteq> '''' \<and> m \<in> trim_space ` set ms)"

definition group_rule :: "(ident \<rightharpoonup> string list) \<Rightarrow> access_key \<Rightarrow> store_user \<Rightarrow> string list option" where
  "group_rule groups k u =
     (let g = (if ak_GroupID k \<noteq> '''' then ak_GroupID k else su_GroupID u) in if g = '''' then None else groups g)"

definition open_to :: "access_key \<Rightarrow> ip_addr \<Rightarrow> bool" where
  "open_to k addr = (case ak_AllowedNets k of None \<Rightarrow> True | Some nets \<Rightarrow> list_ex (\<lambda>p. prefix_Contains p (Unmap addr)) nets)"

text \<open>The key row \<open>k\<close> with its owner \<open>u\<close> entitles the holder of \<open>key\<close> to call \<open>m\<close> at \<open>now\<close> from \<open>addr\<close>.\<close>

definition entitled ::
  "(string \<Rightarrow> string) \<Rightarrow> (ident \<rightharpoonup> string list) \<Rightarrow> access_key \<Rightarrow> store_user \<Rightarrow> string \<Rightarrow> instant \<Rightarrow> ip_addr \<Rightarrow> string \<Rightarrow> bool" where
  "entitled sha groups k u key now addr m \<longleftrightarrow>
     key \<noteq> '''' \<and> ak_KeyHash k = sha key \<and> ak_Enabled k \<and>
     (ak_ExpiresAt k \<le> 0 \<or> unix_milli now < ak_ExpiresAt k) \<and>
     open_to k addr \<and>
     su_ID u = ak_UserID k \<and> su_Status u = ''active'' \<and> su_Role u \<noteq> ''admin'' \<and>
     listed (ak_AllowedModels k) m \<and> listed (group_rule groups k u) m"

lemma fold_update_map_of:
  "fold (\<lambda>x m. m(f x \<mapsto> g x)) xs m0 = m0 ++ map_of (rev (map (\<lambda>x. (f x, g x)) xs))"
  by (induction xs arbitrary: m0) auto

lemma index_lookup:
  assumes "distinct (map f xs)"
  shows "fold (\<lambda>x m. m(f x \<mapsto> g x)) xs Map.empty y = Some z \<longleftrightarrow> (\<exists>x \<in> set xs. f x = y \<and> z = g x)"
proof -
  have "map fst (map (\<lambda>x. (f x, g x)) xs) = map f xs" by simp
  with assms have "distinct (map fst (rev (map (\<lambda>x. (f x, g x)) xs)))"
    by (metis distinct_rev rev_map)
  then show ?thesis
    by (auto simp: fold_update_map_of map_of_eq_Some_iff)
qed

lemma rebuild_fields:
  assumes "RebuildFromDB st failures = Inr snap"
    and "sr_ListGroupModels st = Some groups" "sr_ListUsers st = Some users" "sr_ListAccessKeys st = Some keys"
  shows "sn_UsersByID snap = index_users groups users"
    and "sn_KeysByHash snap = index_keys groups (index_users groups users) keys"
  using assms by (auto simp: RebuildFromDB_def Let_def split: option.splits prod.splits if_splits)

lemma keyModelAllow_listed [simp]: "Allows (keyModelAllow ms) m \<longleftrightarrow> listed ms m"
  by (simp add: keyModelAllow_def listed_def split: option.split)

lemma groupModelAllow_listed: "Allows (groupModelAllow groups g) m \<longleftrightarrow> listed (if g = '''' then None else groups g) m"
  by (simp add: groupModelAllow_def listed_def split: option.split)

lemma key_entry_group:
  "users (ak_UserID k) = Some (user_entry groups u) \<Longrightarrow>
   Allows (ks_GroupModelAllow (key_entry groups users k)) m \<longleftrightarrow> listed (group_rule groups k u) m"
  by (auto simp: key_entry_def user_entry_def group_rule_def groupModelAllow_listed)

lemma key_entry_fields:
  "ks_Enabled (key_entry groups users k) = ak_Enabled k"
  "ks_ExpiresAt (key_entry groups users k) = ak_ExpiresAt k"
  "ks_UserID (key_entry groups users k) = ak_UserID k"
  "ks_AllowedModels (key_entry groups users k) = keyModelAllow (ak_AllowedModels k)"
  "AllowsIP (key_entry groups users k) addr = open_to k addr"
proof -
  have "\<not> Is4In6 addr \<Longrightarrow> Unmap addr = addr"
    by (auto simp: Unmap_def split: ip_addr.split)
  then show "AllowsIP (key_entry groups users k) addr = open_to k addr"
    by (simp add: key_entry_def AllowsIP_def open_to_def Let_def split: option.split)
qed (simp_all add: key_entry_def)

lemma authenticate_ok:
  "(\<exists>ctx. Authenticate sha snap now az xk addr = Inr ctx \<and> AllowsModel ctx m) \<longleftrightarrow>
   (\<exists>k u. extractKey az xk \<noteq> '''' \<and> sn_KeysByHash snap (sha (extractKey az xk)) = Some k \<and> ks_Enabled k \<and>
      (ks_ExpiresAt k \<le> 0 \<or> unix_milli now < ks_ExpiresAt k) \<and> AllowsIP k addr \<and>
      sn_UsersByID snap (ks_UserID k) = Some u \<and> us_Status u = ''active'' \<and> us_Role u \<noteq> ''admin'' \<and>
      Allows (ks_AllowedModels k) m \<and> Allows (ks_GroupModelAllow k) m)"
  by (auto simp: Authenticate_def Let_def AllowsModel_def IsActive_def split: option.splits if_splits)

text \<open>C21: who may call a model is exactly what the store says. After a rebuild, a request passes the
  authentication and the allow lists for a model if and only if the store holds a key row with the hash of its
  key, enabled, not expired and open to its address, owned by an active user who is not an administrator, and
  both the key's list and the list of the key's group (the owner's group when the key names none) admit the
  model.\<close>

theorem access_follows_store:
  assumes snap: "RebuildFromDB st failures = Inr snap"
    and rows: "sr_ListGroupModels st = Some groups" "sr_ListUsers st = Some users" "sr_ListAccessKeys st = Some keys"
    and uniq: "distinct (map ak_KeyHash keys)" "distinct (map su_ID users)"
  shows "(\<exists>ctx. Authenticate sha snap now az xk addr = Inr ctx \<and> AllowsModel ctx m) \<longleftrightarrow>
    (\<exists>k \<in> set keys. \<exists>u \<in> set users. entitled sha groups k u (extractKey az xk) now addr m)"
proof -
  let ?us = "index_users groups users"
  have user: "?us i = Some v \<longleftrightarrow> (\<exists>u \<in> set users. su_ID u = i \<and> v = user_entry groups u)" for i v
    unfolding index_users_def by (rule index_lookup [OF uniq(2)])
  have key: "index_keys groups ?us keys h = Some v \<longleftrightarrow> (\<exists>k \<in> set keys. ak_KeyHash k = h \<and> v = key_entry groups ?us k)"
    for h v unfolding index_keys_def by (rule index_lookup [OF uniq(1)])
  have group: "Allows (ks_GroupModelAllow (key_entry groups ?us k)) m \<longleftrightarrow> listed (group_rule groups k u) m"
    if "u \<in> set users" "su_ID u = ak_UserID k" for k u
    using key_entry_group [of ?us k groups u m] user that by blast
  have status: "us_Status (user_entry groups u) = su_Status u" "us_Role (user_entry groups u) = su_Role u" for u
    by (simp_all add: user_entry_def)
  show ?thesis
    unfolding authenticate_ok rebuild_fields [OF snap rows]
  proof
    assume "\<exists>k u. extractKey az xk \<noteq> '''' \<and> index_keys groups ?us keys (sha (extractKey az xk)) = Some k \<and> ks_Enabled k \<and>
      (ks_ExpiresAt k \<le> 0 \<or> unix_milli now < ks_ExpiresAt k) \<and> AllowsIP k addr \<and>
      ?us (ks_UserID k) = Some u \<and> us_Status u = ''active'' \<and> us_Role u \<noteq> ''admin'' \<and>
      Allows (ks_AllowedModels k) m \<and> Allows (ks_GroupModelAllow k) m"
    then obtain ks us where k: "index_keys groups ?us keys (sha (extractKey az xk)) = Some ks"
      and u: "?us (ks_UserID ks) = Some us" and ok: "extractKey az xk \<noteq> ''''" "ks_Enabled ks"
      "ks_ExpiresAt ks \<le> 0 \<or> unix_milli now < ks_ExpiresAt ks" "AllowsIP ks addr" "us_Status us = ''active''"
      "us_Role us \<noteq> ''admin''" "Allows (ks_AllowedModels ks) m" "Allows (ks_GroupModelAllow ks) m" by blast
    from k obtain kr where kr: "kr \<in> set keys" "ak_KeyHash kr = sha (extractKey az xk)" "ks = key_entry groups ?us kr"
      using key by blast
    from u obtain ur where ur: "ur \<in> set users" "su_ID ur = ks_UserID ks" "us = user_entry groups ur"
      using user by blast
    have owner: "su_ID ur = ak_UserID kr" using ur(2) kr(3) by (simp add: key_entry_fields)
    have "entitled sha groups kr ur (extractKey az xk) now addr m"
      using ok kr(2) owner group [OF ur(1) owner] unfolding kr(3) ur(3) entitled_def
      by (simp add: key_entry_fields status)
    then show "\<exists>k \<in> set keys. \<exists>u \<in> set users. entitled sha groups k u (extractKey az xk) now addr m"
      using kr(1) ur(1) by blast
  next
    assume "\<exists>k \<in> set keys. \<exists>u \<in> set users. entitled sha groups k u (extractKey az xk) now addr m"
    then obtain k u where ku: "k \<in> set keys" "u \<in> set users" and e: "entitled sha groups k u (extractKey az xk) now addr m"
      by blast
    then have owner: "su_ID u = ak_UserID k" and hash: "ak_KeyHash k = sha (extractKey az xk)"
      by (simp_all add: entitled_def)
    have "index_keys groups ?us keys (sha (extractKey az xk)) = Some (key_entry groups ?us k)"
      using key ku(1) hash by blast
    moreover have "?us (ks_UserID (key_entry groups ?us k)) = Some (user_entry groups u)"
      using user ku(2) owner by (simp add: key_entry_fields) blast
    moreover have "extractKey az xk \<noteq> '''' \<and> ks_Enabled (key_entry groups ?us k) \<and>
      (ks_ExpiresAt (key_entry groups ?us k) \<le> 0 \<or> unix_milli now < ks_ExpiresAt (key_entry groups ?us k)) \<and>
      AllowsIP (key_entry groups ?us k) addr \<and> us_Status (user_entry groups u) = ''active'' \<and>
      us_Role (user_entry groups u) \<noteq> ''admin'' \<and> Allows (ks_AllowedModels (key_entry groups ?us k)) m \<and>
      Allows (ks_GroupModelAllow (key_entry groups ?us k)) m"
      using e group [OF ku(2) owner] unfolding entitled_def by (simp add: key_entry_fields status)
    ultimately show "\<exists>k u. extractKey az xk \<noteq> '''' \<and> index_keys groups ?us keys (sha (extractKey az xk)) = Some k \<and>
      ks_Enabled k \<and> (ks_ExpiresAt k \<le> 0 \<or> unix_milli now < ks_ExpiresAt k) \<and> AllowsIP k addr \<and>
      ?us (ks_UserID k) = Some u \<and> us_Status u = ''active'' \<and> us_Role u \<noteq> ''admin'' \<and>
      Allows (ks_AllowedModels k) m \<and> Allows (ks_GroupModelAllow k) m"
      by blast
  qed
qed

definition demo_store :: store_reads where
  "demo_store = \<lparr>sr_ListProviders = Some [], sr_ListAllUpstreamModels = Some [], sr_ListRoutes = Some [],
     sr_ListAllRouteTargets = Some [], sr_ListGroupModels = Some [''g'' \<mapsto> ['' m1 '', ''m2'']],
     sr_ListUsers = Some [\<lparr>su_ID = ''u'', su_Username = ''ann'', su_Role = ''user'', su_Status = ''active'',
        su_QuotaTokens = 0, su_AuthVersion = 1, su_GroupID = ''g''\<rparr>],
     sr_ListAccessKeys = Some [\<lparr>ak_ID = ''k'', ak_KeyHash = ''h'', ak_Name = '''', ak_Enabled = True, ak_UserID = ''u'',
        ak_RPMLimit = 0, ak_TPMLimit = 0, ak_AllowedModels = Some [''m1''], ak_GroupID = '''', ak_ExpiresAt = 0,
        ak_AllowedNets = Some [P4 0x0A000000 8]\<rparr>],
     sr_GetRuntimeDefaults = Some (sn_Runtime empty_snapshot), sr_GetModelDefaults = (0, 0, False)\<rparr>"

theorem access_follows_store_witness:
  "\<exists>ctx snap. RebuildFromDB demo_store [] = Inr snap \<and>
     Authenticate (\<lambda>_. ''h'') snap 0 '''' ''abc'' (V4 0x0A000001) = Inr ctx \<and> AllowsModel ctx ''m1''"
proof -
  obtain snap where snap: "RebuildFromDB demo_store [] = Inr snap"
    by (simp add: RebuildFromDB_def demo_store_def Let_def)
  define u where "u = hd (the (sr_ListUsers demo_store))"
  define k where "k = hd (the (sr_ListAccessKeys demo_store))"
  have rows: "sr_ListGroupModels demo_store = Some [''g'' \<mapsto> ['' m1 '', ''m2'']]" "sr_ListUsers demo_store = Some [u]"
    "sr_ListAccessKeys demo_store = Some [k]" by (simp_all add: demo_store_def u_def k_def)
  have "entitled (\<lambda>_. ''h'') [''g'' \<mapsto> ['' m1 '', ''m2'']] k u (extractKey '''' ''abc'') 0 (V4 0x0A000001) ''m1''"
    by (simp add: entitled_def u_def k_def demo_store_def extractKey_def go_defs open_to_def Unmap_def listed_def
        group_rule_def Let_def drop_bit_eq_div)
  with access_follows_store [OF snap rows, of "\<lambda>_. ''h''" 0 "''''" "''abc''" "V4 0x0A000001" "''m1''"] snap
  show ?thesis by auto
qed

text \<open>A user who is not an administrator passes the gate of the management API only for the listed patterns;
  a request no pattern matches is refused to everybody else.\<close>

lemma gate_closed:
  assumes "AdminGateGuard user routes" "\<forall>u. user = Some u \<longrightarrow> su_Role u \<noteq> ''admin'' \<or> su_ID u = ''''"
  shows "\<exists>pattern. routes = Some pattern \<and> pattern \<in> set userAccessibleRoutes"
  using assms by (auto simp: AdminGateGuard_def Allowed_def split: option.splits if_splits)

end
