(* ===== verification/Request.thy ===== *)
theory Request
  imports Routing Effort Errors Pool
begin

text \<open>
  What the gateway does with one decoded request before it goes to an upstream: the token estimates of
  \<^verbatim>\<open>internal/ingress/estimate.go\<close>, the thinking settings of \<^verbatim>\<open>internal/ingress/request.go\<close>, the replay gate of
  \<^verbatim>\<open>internal/dataplane/replay.go\<close> and the cache key of \<^verbatim>\<open>internal/dataplane/cache_affinity.go\<close>. The records
  of the SDK are modelled by the fields these functions read and write. Texts are valid UTF-8.
\<close>

section \<open>The request of the SDK\<close>

datatype block_type =
    BlockText | BlockThinking | BlockRedactedThinking | BlockToolCall | BlockImage | BlockAudio | BlockFile
  | OtherBlock string

record block =
  bl_Type :: block_type
  bl_Text :: string
  bl_Thinking :: string
  bl_Signature :: string
  bl_Sealed :: string
  bl_Content :: string
  bl_Arguments :: string
  bl_AudioData :: string
  bl_FileData :: string
  bl_FileName :: string
  bl_MimeType :: string

datatype role = RoleAssistant | OtherRole string

record message =
  mg_Role :: role
  mg_Blocks :: "block list"

record tool =
  tl_Name :: string
  tl_Description :: string
  tl_Parameters :: string

text \<open>\<open>tc_Effort = None\<close> is the unset effort of the SDK.\<close>

record thinking_config =
  tc_EffortRaw :: string
  tc_Effort :: "string option"
  tc_BudgetTokens :: int

record chat_request =
  cr_System :: string
  cr_Messages :: "message list"
  cr_Tools :: "tool list"
  cr_MaxOutputTokens :: int
  cr_Thinking :: "thinking_config option"

record request =
  rq_Stream :: bool
  rq_Model :: string
  rq_WantsStreamUsage :: bool
  rq_CacheKey :: string
  rq_RequiresStructuredOutput :: bool
  rq_RawEffort :: string
  rq_AnthropicBudget :: int
  rq_Rosetta :: chat_request

section \<open>Estimates\<close>

text \<open>The number of ASCII characters and of other characters of a text.\<close>

definition add_runes :: "string \<Rightarrow> int \<times> int \<Rightarrow> int \<times> int" where
  "add_runes s acc =
     (case acc of (ascii, other) \<Rightarrow>
        (ascii + int (length (filter (\<lambda>c. of_char c < (128 :: nat)) s)),
         other + int (length (filter (\<lambda>c. of_char c \<ge> (128 :: nat) \<and> RuneStart c) s))))"

definition add_ascii :: "int \<Rightarrow> int \<times> int \<Rightarrow> int \<times> int" where
  "add_ascii n acc = (case acc of (ascii, other) \<Rightarrow> (ascii + n, other))"

definition isRemoteReference :: "string \<Rightarrow> bool" where
  "isRemoteReference value \<longleftrightarrow> has_prefix value ''http://'' \<or> has_prefix value ''https://''"

definition add_block :: "block \<Rightarrow> int \<times> int \<Rightarrow> int \<times> int" where
  "add_block b acc =
     (let acc = (case bl_Type b of
            BlockImage \<Rightarrow> add_ascii (1500 * 4) acc
          | BlockAudio \<Rightarrow> add_runes (bl_AudioData b) (add_ascii (500 * 4) acc)
          | BlockFile \<Rightarrow> (let acc = add_ascii (3000 * 4) acc in
                if \<not> isRemoteReference (bl_FileData b) then add_runes (bl_FileData b) acc else acc)
          | _ \<Rightarrow> fold add_runes [bl_Text b, bl_Thinking b, bl_Signature b, bl_Sealed b, bl_Content b, bl_Arguments b] acc)
      in fold add_runes [bl_FileName b, bl_MimeType b] acc)"

definition EstimateInputTokensOnly :: "chat_request \<Rightarrow> int" where
  "EstimateInputTokensOnly req =
     (let acc = add_runes (cr_System req) (0, 0);
          acc = fold (\<lambda>m. fold add_block (mg_Blocks m)) (cr_Messages req) acc;
          acc = fold (\<lambda>t. fold add_runes [tl_Name t, tl_Description t, tl_Parameters t]) (cr_Tools req) acc
      in case acc of (ascii, other) \<Rightarrow> (ascii + 3) div 4 + other)"

definition EstimateRequestTokens :: "chat_request \<Rightarrow> int \<Rightarrow> int" where
  "EstimateRequestTokens req outputCeiling = EstimateInputTokensOnly req + outputCeiling"

definition RequestOutputCeiling :: "chat_request option \<Rightarrow> int list \<Rightarrow> int" where
  "RequestOutputCeiling req maxByCandidate =
     (case req of
        Some r \<Rightarrow> if cr_MaxOutputTokens r > 0 then cr_MaxOutputTokens r
                  else fold (\<lambda>n ceiling. if n > ceiling then n else ceiling) maxByCandidate 0
      | None \<Rightarrow> fold (\<lambda>n ceiling. if n > ceiling then n else ceiling) maxByCandidate 0)"

definition PartialOutTokens :: "int \<Rightarrow> int" where
  "PartialOutTokens runes = (if runes \<le> 0 then 0 else runes)"

section \<open>Thinking\<close>

definition ApplyThinkingCapability :: "request \<Rightarrow> upstream_model option \<Rightarrow> string \<Rightarrow> chat_request \<Rightarrow> chat_request" where
  "ApplyThinkingCapability r model protocol req =
     (case (model, cr_Thinking req) of
        (Some m, Some th) \<Rightarrow>
          if um_SupportsThinking m = Some False then req\<lparr>cr_Thinking := None\<rparr>
          else if protocol = ''anthropic'' \<and> rq_AnthropicBudget r > 0
            then req\<lparr>cr_Thinking := Some \<lparr>tc_EffortRaw = '''', tc_Effort = None, tc_BudgetTokens = rq_AnthropicBudget r\<rparr>\<rparr>
          else if rq_RawEffort r = '''' then req
          else (let wanted = Parse (rq_RawEffort r) in
            if wanted = Unset then req
            else (let applied = (if um_EffortLevels m \<noteq> [] \<and> \<not> Supports wanted (um_EffortLevels m)
                                 then Clamp wanted (um_EffortLevels m) else wanted) in
              if protocol = ''anthropic''
              then req\<lparr>cr_Thinking := Some \<lparr>tc_EffortRaw = '''', tc_Effort = Some (ToRosettaLevel applied), tc_BudgetTokens = 0\<rparr>\<rparr>
              else req\<lparr>cr_Thinking := Some (th\<lparr>tc_EffortRaw := applied, tc_Effort := None\<rparr>)\<rparr>))
      | _ \<Rightarrow> req)"

text \<open>\<open>itoa\<close> prints the budget.\<close>

definition EffortLabel :: "(int \<Rightarrow> string) \<Rightarrow> thinking_config option \<Rightarrow> string" where
  "EffortLabel itoa t =
     (case t of None \<Rightarrow> ''''
      | Some th \<Rightarrow>
          if tc_EffortRaw th \<noteq> '''' then tc_EffortRaw th
          else (case tc_Effort th of Some e \<Rightarrow> e
          | None \<Rightarrow> if tc_BudgetTokens th > 0 then ''budget:'' @ itoa (tc_BudgetTokens th) else ''''))"

section \<open>The replay gate\<close>

definition gate_drops :: "bool \<Rightarrow> block \<Rightarrow> bool" where
  "gate_drops isChat b \<longleftrightarrow>
     (case bl_Type b of
        BlockThinking \<Rightarrow> if isChat then bl_Signature b \<noteq> '''' \<or> trim_space (bl_Thinking b) = '''' else bl_Signature b = ''''
      | BlockRedactedThinking \<Rightarrow> isChat
      | _ \<Rightarrow> False)"

text \<open>One round of the loop over the messages: \<open>None\<close> when the turn is dropped.\<close>

definition gate_message :: "bool \<Rightarrow> message \<Rightarrow> message option" where
  "gate_message isChat m =
     (if mg_Role m \<noteq> RoleAssistant then Some m
      else
       (let blocks = filter (\<lambda>b. \<not> gate_drops isChat b) (mg_Blocks m);
            removed = length (filter (gate_drops isChat) (mg_Blocks m));
            hasText = list_ex (\<lambda>b. bl_Type b = BlockText \<and> trim_space (bl_Text b) \<noteq> '''') (mg_Blocks m);
            hasToolCall = list_ex (\<lambda>b. bl_Type b = BlockToolCall) (mg_Blocks m)
        in if isChat \<and> length blocks > 0 \<and> \<not> hasText \<and> \<not> hasToolCall then None
           else if removed = 0 then Some m
           else if length blocks = 0 then None
           else Some (m\<lparr>mg_Blocks := blocks\<rparr>)))"

definition applyReplayGate :: "string \<Rightarrow> chat_request \<Rightarrow> chat_request" where
  "applyReplayGate protocol req =
     (if protocol \<in> set ['''', ''chat'', ''auto'']
        then req\<lparr>cr_Messages := List.map_filter (gate_message True) (cr_Messages req)\<rparr>
      else if protocol = ''anthropic''
        then req\<lparr>cr_Messages := List.map_filter (gate_message False) (cr_Messages req)\<rparr>
      else req)"

section \<open>The cache key\<close>

text \<open>The key to bind to the upstream call, if any.\<close>

definition promptCacheAffinity :: "request option \<Rightarrow> string \<Rightarrow> string \<Rightarrow> string option" where
  "promptCacheAffinity ing protocol stableSessionID =
     (case ing of None \<Rightarrow> None
      | Some r \<Rightarrow>
          if Normalize protocol = ''anthropic'' then None
          else (let key = trim_space (rq_CacheKey r);
                    key = (if key = '''' then trim_space stableSessionID else key)
                in if key = '''' then None else Some key))"

section \<open>Properties\<close>

text \<open>A block an upstream of the protocol can take back.\<close>

definition replayable_block :: "bool \<Rightarrow> block \<Rightarrow> bool" where
  "replayable_block isChat b \<longleftrightarrow>
     (bl_Type b \<noteq> BlockThinking \<or> (if isChat then bl_Signature b = '''' \<and> trim_space (bl_Thinking b) \<noteq> '''' else bl_Signature b \<noteq> '''')) \<and>
     (bl_Type b \<noteq> BlockRedactedThinking \<or> \<not> isChat)"

definition speaks :: "message \<Rightarrow> bool" where
  "speaks m \<longleftrightarrow> list_ex (\<lambda>b. bl_Type b = BlockText \<and> trim_space (bl_Text b) \<noteq> '''' \<or> bl_Type b = BlockToolCall) (mg_Blocks m)"

definition replayable :: "bool \<Rightarrow> message \<Rightarrow> bool" where
  "replayable isChat m \<longleftrightarrow> mg_Role m = RoleAssistant \<longrightarrow>
     list_all (replayable_block isChat) (mg_Blocks m) \<and> (isChat \<longrightarrow> mg_Blocks m = [] \<or> speaks m)"

lemma gate_drops_replayable: "gate_drops isChat b \<longleftrightarrow> \<not> replayable_block isChat b"
  by (auto simp: gate_drops_def replayable_block_def split: block_type.split)

lemma text_kept: "bl_Type b = BlockText \<or> bl_Type b = BlockToolCall \<Longrightarrow> \<not> gate_drops isChat b"
  by (auto simp: gate_drops_def)

lemma has_speaks:
  "list_ex (\<lambda>b. bl_Type b = BlockText \<and> trim_space (bl_Text b) \<noteq> '''') bs \<or> list_ex (\<lambda>b. bl_Type b = BlockToolCall) bs
   \<longleftrightarrow> list_ex (\<lambda>b. bl_Type b = BlockText \<and> trim_space (bl_Text b) \<noteq> '''' \<or> bl_Type b = BlockToolCall) bs"
  by (auto simp: list_ex_iff)

lemma gate_message_speaks:
  "gate_message isChat m =
     (if mg_Role m \<noteq> RoleAssistant then Some m
      else if isChat \<and> list_ex (replayable_block isChat) (mg_Blocks m) \<and> \<not> speaks m then None
      else if list_all (replayable_block isChat) (mg_Blocks m) then Some m
      else if \<not> list_ex (replayable_block isChat) (mg_Blocks m) then None
      else Some (m\<lparr>mg_Blocks := filter (replayable_block isChat) (mg_Blocks m)\<rparr>))"
proof -
  let ?bs = "mg_Blocks m"
  have kept: "filter (\<lambda>b. \<not> gate_drops isChat b) ?bs = filter (replayable_block isChat) ?bs"
    by (simp add: gate_drops_replayable)
  have some: "(length (filter (replayable_block isChat) ?bs) > 0) = list_ex (replayable_block isChat) ?bs"
    by (auto simp: list_ex_iff filter_empty_conv)
  have none: "(length (filter (replayable_block isChat) ?bs) = 0) = (\<not> list_ex (replayable_block isChat) ?bs)"
    by (auto simp: list_ex_iff filter_empty_conv)
  have all: "(length (filter (gate_drops isChat) ?bs) = 0) = list_all (replayable_block isChat) ?bs"
    by (auto simp: gate_drops_replayable list_all_iff filter_empty_conv)
  have talk: "speaks m = (list_ex (\<lambda>b. bl_Type b = BlockText \<and> trim_space (bl_Text b) \<noteq> '''') ?bs \<or>
      list_ex (\<lambda>b. bl_Type b = BlockToolCall) ?bs)"
    by (simp only: speaks_def has_speaks)
  show ?thesis
    unfolding gate_message_def Let_def kept some none all talk by simp
qed

lemma speaks_filter: "speaks m \<Longrightarrow> speaks (m\<lparr>mg_Blocks := filter (replayable_block isChat) (mg_Blocks m)\<rparr>)"
  using text_kept by (auto simp: speaks_def list_ex_iff gate_drops_replayable)

lemma gate_replayable: "gate_message isChat m = Some m' \<Longrightarrow> replayable isChat m'"
  using speaks_filter [of m isChat]
  by (auto simp: gate_message_speaks replayable_def list_all_iff list_ex_iff split: if_splits)

lemma gate_fixed: "replayable isChat m \<Longrightarrow> gate_message isChat m = Some m"
  by (auto simp: gate_message_speaks replayable_def list_ex_iff)

lemma map_filter_again:
  assumes "\<And>m m'. f m = Some m' \<Longrightarrow> P m'" "\<And>m. P m \<Longrightarrow> f m = Some m"
  shows "List.map_filter f (List.map_filter f ms) = List.map_filter f ms" "list_all P (List.map_filter f ms)"
  by (induction ms) (use assms in \<open>auto simp: map_filter_simps split: option.split\<close>)


text \<open>The chat gate also removes an assistant turn that contains no thinking at all, such as one that only
  shows an image.\<close>

lemma replay_gate_drops_image:
  "gate_message True \<lparr>mg_Role = RoleAssistant, mg_Blocks = [\<lparr>bl_Type = BlockImage, bl_Text = '''', bl_Thinking = '''',
     bl_Signature = '''', bl_Sealed = '''', bl_Content = '''', bl_Arguments = '''', bl_AudioData = '''', bl_FileData = '''',
     bl_FileName = '''', bl_MimeType = ''image/png''\<rparr>]\<rparr> = None"
  by (simp add: gate_message_def gate_drops_def)

text \<open>the effort that is sent is one the model is configured for: when the client asks for a level of the
  scale and the model's list has a level of the scale, the effort written to the request of a chat or Responses
  upstream is a level of that list, and it is the level asked for whenever the list has it.\<close>

theorem effort_within_model:
  assumes "cr_Thinking req = Some th" "um_SupportsThinking m \<noteq> Some False" "protocol \<noteq> ''anthropic''"
    and "0 \<le> rankOf (Parse (rq_RawEffort r))" "rq_RawEffort r \<noteq> ''''"
    and "l \<in> set (um_EffortLevels m)" "0 \<le> rankOf l"
  shows "\<exists>e. cr_Thinking (ApplyThinkingCapability r (Some m) protocol req) = Some (th\<lparr>tc_EffortRaw := e, tc_Effort := None\<rparr>) \<and>
    e \<in> set (um_EffortLevels m) \<and> (Parse (rq_RawEffort r) \<notin> set (um_EffortLevels m) \<or> e = Parse (rq_RawEffort r))"
proof -
  let ?w = "Parse (rq_RawEffort r)" and ?ls = "um_EffortLevels m"
  have ne: "?ls \<noteq> []" using assms(6) by auto
  have set: "?w \<noteq> Unset" using assms(4) by (auto simp: Unset_def rankOf_known KnownLevels_def level_defs)
  from assms(4) ne obtain best d found where inv: "clamp_inv (rankOf ?w) ?ls (best, d, found)"
    and clamp: "Clamp ?w ?ls = (if found then best else ?w)" by (rule Clamp_loop)
  with assms(6,7) have "Clamp ?w ?ls \<in> set ?ls" by (auto simp: clamp_inv_def split: if_splits)
  moreover have "Supports ?w ?ls \<longleftrightarrow> ?w \<in> set ?ls" using ne set by (auto simp: Supports_def)
  ultimately show ?thesis
    using assms(1-3,5) ne set by (auto simp: ApplyThinkingCapability_def Let_def)
qed

definition demo_request :: request where
  "demo_request = \<lparr>rq_Stream = False, rq_Model = ''m'', rq_WantsStreamUsage = False, rq_CacheKey = '''',
     rq_RequiresStructuredOutput = False, rq_RawEffort = ''xhigh'', rq_AnthropicBudget = 0,
     rq_Rosetta = \<lparr>cr_System = ''hello'', cr_Messages = [], cr_Tools = [], cr_MaxOutputTokens = 100,
        cr_Thinking = Some \<lparr>tc_EffortRaw = '''', tc_Effort = Some ''high'', tc_BudgetTokens = 0\<rparr>\<rparr>\<rparr>"

theorem effort_within_model_witness:
  "\<exists>e. e \<in> set [''low'', ''high''] \<and>
     cr_Thinking (ApplyThinkingCapability demo_request (Some (demo_model\<lparr>um_EffortLevels := [''low'', ''high'']\<rparr>)) ''chat''
       (rq_Rosetta demo_request)) = Some \<lparr>tc_EffortRaw = e, tc_Effort = None, tc_BudgetTokens = 0\<rparr>"
proof -
  have "0 \<le> rankOf (Parse ''xhigh'')" by code_simp
  moreover have "0 \<le> rankOf ''high''" by code_simp
  ultimately show ?thesis
    using effort_within_model [of "rq_Rosetta demo_request" "\<lparr>tc_EffortRaw = '''', tc_Effort = Some ''high'', tc_BudgetTokens = 0\<rparr>"
        "demo_model\<lparr>um_EffortLevels := [''low'', ''high'']\<rparr>" "''chat''" demo_request "''high''"]
    by (auto simp: demo_request_def demo_model_def)
qed

section \<open>The estimate\<close>

definition runes_nonneg :: "int \<times> int \<Rightarrow> bool" where
  "runes_nonneg acc \<longleftrightarrow> 0 \<le> fst acc \<and> 0 \<le> snd acc"

lemma add_runes_nonneg [intro]: "runes_nonneg acc \<Longrightarrow> runes_nonneg (add_runes s acc)"
  by (auto simp: runes_nonneg_def add_runes_def split: prod.split)

lemma fold_nonneg: "(\<And>x a. runes_nonneg a \<Longrightarrow> runes_nonneg (f x a)) \<Longrightarrow> runes_nonneg acc \<Longrightarrow> runes_nonneg (fold f xs acc)"
  by (induction xs arbitrary: acc) auto

lemma add_block_nonneg: "runes_nonneg acc \<Longrightarrow> runes_nonneg (add_block b acc)"
proof -
  assume acc: "runes_nonneg acc"
  have ascii: "runes_nonneg a \<Longrightarrow> 0 \<le> n \<Longrightarrow> runes_nonneg (add_ascii n a)" for a n
    by (auto simp: runes_nonneg_def add_ascii_def split: prod.split)
  show ?thesis
    unfolding add_block_def Let_def
    by (intro fold_nonneg [OF add_runes_nonneg]) (auto simp: acc ascii split: block_type.split intro!: fold_nonneg add_runes_nonneg)
qed

text \<open>The estimate of the input is never negative, and the whole estimate is at least the output ceiling.\<close>

lemma estimate_nonneg: "0 \<le> EstimateInputTokensOnly req" "outputCeiling \<le> EstimateRequestTokens req outputCeiling"
proof -
  have "runes_nonneg (fold (\<lambda>t. fold add_runes [tl_Name t, tl_Description t, tl_Parameters t]) (cr_Tools req)
      (fold (\<lambda>m. fold add_block (mg_Blocks m)) (cr_Messages req) (add_runes (cr_System req) (0, 0))))"
    by (intro fold_nonneg add_block_nonneg add_runes_nonneg) (auto simp: runes_nonneg_def intro!: fold_nonneg add_block_nonneg)
  then show "0 \<le> EstimateInputTokensOnly req"
    by (auto simp: EstimateInputTokensOnly_def Let_def runes_nonneg_def split: prod.split)
  then show "outputCeiling \<le> EstimateRequestTokens req outputCeiling"
    by (simp add: EstimateRequestTokens_def)
qed

lemma ceiling_bounds:
  "n \<in> set ns \<Longrightarrow> cr_MaxOutputTokens req \<le> 0 \<Longrightarrow> n \<le> RequestOutputCeiling (Some req) ns"
  "0 \<le> RequestOutputCeiling (Some req) ns"
proof -
  have mono: "c \<le> fold (\<lambda>n c. if n > c then n else c) ns c" for ns and c :: int
    by (induction ns arbitrary: c) (auto intro: order_trans less_imp_le)
  have mem: "n \<in> set ns \<Longrightarrow> n \<le> fold (\<lambda>n c. if n > c then n else c) ns c" for n ns and c :: int
  proof (induction ns arbitrary: c)
    case (Cons k ns)
    then show ?case using mono [of k ns] mono [of c ns] by auto
  qed simp
  show "n \<in> set ns \<Longrightarrow> cr_MaxOutputTokens req \<le> 0 \<Longrightarrow> n \<le> RequestOutputCeiling (Some req) ns"
    using mem by (simp add: RequestOutputCeiling_def)
  show "0 \<le> RequestOutputCeiling (Some req) ns"
    using mono [of 0] by (simp add: RequestOutputCeiling_def)
qed

end
