(* ===== verification/Admission.thy ===== *)
theory Admission
  imports Access Request Outcome Pricing Settlement Quota
begin

text \<open>
  \<^verbatim>\<open>internal/dataplane/handler.go\<close>, the first half of \<open>Handle\<close>: what happens to a request before an upstream is
  called. The key is authenticated, the request is counted and decoded, a slot is taken for a stream, the model
  is resolved, tokens are reserved with the key, the user and the minute window, the lists of models are
  consulted, the balance is checked (\<^verbatim>\<open>internal/dataplane/balance.go\<close>) and the targets to try are chosen.
  Each rejection is a reply and gives back what had been taken. The texts of the messages are not modelled, and a
  usage record leaves out its own identity, the times, the names and addresses of the caller and the effort label.
\<close>

section \<open>The state a request works on\<close>

text \<open>A reply is an error (status, code, seconds of \<open>Retry-After\<close>), the head of an event stream, the end of one
  with its usage status, or the body of a complete answer.\<close>

datatype reply = ErrorReply int string "int option" | StreamHead | StreamEnd string | Body

record token_usage =
  tu_InputTokens :: int
  tu_OutputTokens :: int
  tu_TotalTokens :: int
  tu_ReasoningTokens :: int
  tu_CachedInputTokens :: int
  tu_CachedCreationTokens :: int

record usage_record =
  ug_AccessKeyID :: ident
  ug_UserID :: ident
  ug_RequestID :: ident
  ug_PublicModel :: string
  ug_ProviderID :: ident
  ug_ProviderName :: string
  ug_UpstreamModel :: string
  ug_IngressProtocol :: string
  ug_UpstreamProtocol :: string
  ug_Stream :: bool
  ug_Tokens :: token_usage
  ug_UsageState :: string
  ug_Status :: string
  ug_HTTPStatus :: int
  ug_ErrorCode :: string
  ug_ErrorDetail :: string
  ug_RouteTrace :: string

text \<open>What the requests share (limiter, store, pool, occupied stream slots) and what belongs to this one: its
  finalizer, the replies written, the usage records handed to the recorder and the cooldowns to be stored.\<close>

record 'c lane =
  ln_limiter :: limiter
  ln_quota :: quota_db
  ln_pool :: "'c pool"
  ln_streams :: nat
  ln_rate :: "rate_commit option"
  ln_replies :: "reply list"
  ln_usage :: "usage_record list"
  ln_cooldowns :: "(ident \<times> string \<times> instant) list"

datatype decode_error = BodyTooLarge | BadBody

datatype select_case = SlotReady | ContextDone | TimerFired

text \<open>The request and the answers of its surroundings. \<open>le_snap i\<close> is the current snapshot at the \<open>i\<close>-th read,
  \<open>le_clock i\<close> the time, \<open>le_fails i\<close> tells whether the \<open>i\<close>-th kind of statement of the store fails, \<open>le_ctx i\<close>
  is the error of the request context at the \<open>i\<close>-th look, \<open>le_decode\<close> is what the codec made of the body.\<close>

record lane_env =
  le_snap :: "nat \<Rightarrow> snapshot"
  le_cfg :: defaults
  le_sha :: "string \<Rightarrow> string"
  le_headers :: "string \<Rightarrow> string"
  le_addr :: ip_addr
  le_requestID :: ident
  le_codec :: string
  le_decode :: "decode_error + request"
  le_slot :: select_case
  le_admissionTimeout :: duration
  le_ledger :: ledger
  le_clock :: "nat \<Rightarrow> instant"
  le_fails :: "nat \<Rightarrow> bool"
  le_ctx :: "nat \<Rightarrow> ctx_err"
  le_rand :: "nat \<Rightarrow> nat \<Rightarrow> nat"

text \<open>The indices of \<open>le_snap\<close>: 0 authentication, 1 routing and policy, 2 the user's quota, 3 the balance. Of
  \<open>le_clock\<close>: 0 authentication, 1 requests per minute, 2 the lease of the key, 3 tokens per minute, 4 the finalizer, 5 the lease of the user, 6 and on
  the failover lane. Of \<open>le_fails\<close>: 0 reading the key's quota, 1 reserving it, 2 its lease, 3 reserving the
  user's quota, 4 its lease, 5 reading the balance, 6 to 8 the finalizer.\<close>

section \<open>Small helpers of the handler\<close>

text \<open>The arguments are the values of the dependencies and of the configuration; the result is the number of
  stream slots and the time a stream waits for one.\<close>

definition NewHandler :: "int \<Rightarrow> duration \<Rightarrow> defaults option \<Rightarrow> int \<times> duration" where
  "NewHandler maxConcurrentStreams streamAdmissionTimeout cfg =
     (if maxConcurrentStreams \<le> 0
      then (case cfg of Some d \<Rightarrow> if df_MaxConcurrentStreams d > 0 then df_MaxConcurrentStreams d else 256
            | None \<Rightarrow> 256)
      else maxConcurrentStreams,
      if streamAdmissionTimeout \<le> 0
      then (case cfg of Some d \<Rightarrow> if df_StreamAdmissionTimeoutMs d > 0
                                  then wrap64 (df_StreamAdmissionTimeoutMs d * millisecond) else 5 * second
            | None \<Rightarrow> 5 * second)
      else streamAdmissionTimeout)"

text \<open>The number of seconds is rounded up; the detour through floating point is exact for delays below a day.\<close>

definition setRetryAfter :: "duration \<Rightarrow> int" where
  "setRetryAfter d = (let seconds = - ((- d) div second) in if seconds < 1 then 1 else seconds)"

definition sessionHeaders :: "string list" where
  "sessionHeaders = [''x-opencode-session'', ''x-deepseek-harness-session-id'', ''x-session-affinity'', ''session_id'',
     ''x-session-id'', ''session-id'', ''x-client-request-id'']"

fun first_header :: "(string \<Rightarrow> string) \<Rightarrow> string list \<Rightarrow> string" where
  "first_header headers [] = ''''"
| "first_header headers (n # ns) =
     (let value = trim_space (headers n) in if value \<noteq> '''' then value else first_header headers ns)"

definition conversationSessionID :: "(string \<Rightarrow> string) \<Rightarrow> string" where
  "conversationSessionID headers = first_header headers sessionHeaders"

text \<open>The session bound to the context of the request, if any.\<close>

definition withOpenCodeSession :: "(string \<Rightarrow> string) \<Rightarrow> ident \<Rightarrow> string option" where
  "withOpenCodeSession headers requestID =
     (let sessionID = conversationSessionID headers;
          sessionID = (if sessionID = '''' then requestID else sessionID)
      in if sessionID = '''' then None else Some sessionID)"

text \<open>The \<open>select\<close> of the code; a slot is sent to the channel only when it has room.\<close>

definition acquireStreamSlot :: "select_case \<Rightarrow> nat \<Rightarrow> nat \<times> bool" where
  "acquireStreamSlot which streams =
     (case which of SlotReady \<Rightarrow> (streams + 1, True) | ContextDone \<Rightarrow> (streams, False) | TimerFired \<Rightarrow> (streams, False))"

definition effectiveProviderProtocol :: "'c pool option \<Rightarrow> candidate \<Rightarrow> string" where
  "effectiveProviderProtocol po c =
     (let protocol = ResolvedProtocol po (pr_Slug (cd_Provider c))
      in if protocol \<noteq> '''' then protocol else Normalize (pr_Protocol (cd_Provider c)))"

text \<open>\<open>RateCommit.Commit\<close> and \<open>RateCommit.ReleaseQuota\<close> on the state of the request.\<close>

definition commit_rate :: "lane_env \<Rightarrow> int \<Rightarrow> 'c lane \<Rightarrow> 'c lane" where
  "commit_rate env actual s =
     (case rc_Commit (le_fails env 6) (le_fails env 7) (le_fails env 8) (le_clock env 4) actual (ln_rate s)
             (ln_limiter s) (ln_quota s) of
        (rco, lm, d) \<Rightarrow> s\<lparr>ln_rate := rco, ln_limiter := lm, ln_quota := d\<rparr>)"

definition release_rate :: "lane_env \<Rightarrow> 'c lane \<Rightarrow> 'c lane" where
  "release_rate env s =
     (case rc_ReleaseQuota (le_fails env 6) (le_fails env 7) (le_fails env 8) (ln_rate s) (ln_quota s) of
        (rco, d) \<Rightarrow> s\<lparr>ln_rate := rco, ln_quota := d\<rparr>)"

section \<open>The steps of the admission\<close>

text \<open>A step yields the state and either a rejection or what the next step needs. A rejection is the reply to
  write, or \<open>None\<close> when nothing is written because the client is gone.\<close>

type_synonym rejection = "reply option"

definition admit_entry :: "lane_env \<Rightarrow> 'c lane \<Rightarrow> 'c lane \<times> (rejection + (auth_context \<times> request))" where
  "admit_entry env s =
     (case Authenticate (le_sha env) (le_snap env 0) (le_clock env 0) (le_headers env ''Authorization'')
             (le_headers env ''X-Api-Key'') (le_addr env) of
        Inl err \<Rightarrow> (case WriteAuthError err of (status, code) \<Rightarrow> (s, Inl (Some (ErrorReply status code None))))
      | Inr auth \<Rightarrow>
      (case AllowRPM (ac_KeyID auth) (ac_RPMLimit auth) (le_clock env 1) (ln_limiter s) of
        (lm, ok, retry) \<Rightarrow>
        (let s = s\<lparr>ln_limiter := lm\<rparr> in
        if \<not> ok then (s, Inl (Some (ErrorReply 429 ''rate_limit_exceeded'' (Some (setRetryAfter retry)))))
        else (case le_decode env of
          Inl BodyTooLarge \<Rightarrow> (s, Inl (Some (ErrorReply 413 ''request_too_large'' None)))
        | Inl BadBody \<Rightarrow> (s, Inl (Some (ErrorReply 400 ''invalid_request_error'' None)))
        | Inr ing \<Rightarrow>
            if rq_Stream ing then
              (case acquireStreamSlot (le_slot env) (ln_streams s) of (n, got) \<Rightarrow>
                 if got then (s\<lparr>ln_streams := n\<rparr>, Inr (auth, ing))
                 else if le_ctx env 0 \<noteq> CtxAlive then (s, Inl None)
                 else (s, Inl (Some (ErrorReply 503 ''server_overloaded''
                                      (Some (setRetryAfter (le_admissionTimeout env)))))))
            else (s, Inr (auth, ing))))))"

definition new_rate :: "lane_env \<Rightarrow> auth_context \<Rightarrow> int \<Rightarrow> rate_commit option" where
  "new_rate env auth limit = SetRequestID (le_requestID env) (Some (NewRateCommit (ac_KeyID auth) limit 0 True))"

text \<open>Resolving the model and the estimate: the resolution, and the tokens the request may need.\<close>

definition admit_route ::
  "lane_env \<Rightarrow> auth_context \<Rightarrow> request \<Rightarrow> 'c lane \<Rightarrow> 'c lane \<times> (rejection + (resolution \<times> int))" where
  "admit_route env auth ing s =
     (case Resolve (sn_Routes (le_snap env 1)) (rq_Model ing) of
        Inl _ \<Rightarrow> (s, Inl (Some (ErrorReply 404 ''model_not_found'' None)))
      | Inr res \<Rightarrow>
          (let outCeilings = map (\<lambda>c. um_MaxOutputTokens (cd_UpstreamModel c)) (rs_Candidates res);
               outputCeiling = RequestOutputCeiling (Some (rq_Rosetta ing)) outCeilings;
               est = EstimateRequestTokens (rq_Rosetta ing) outputCeiling
           in (if ac_TPMLimit auth > 0 then s\<lparr>ln_rate := new_rate env auth (ac_TPMLimit auth)\<rparr> else s, Inr (res, est))))"

definition admit_key_quota :: "lane_env \<Rightarrow> auth_context \<Rightarrow> int \<Rightarrow> 'c lane \<Rightarrow> 'c lane \<times> (rejection + unit)" where
  "admit_key_quota env auth est s =
     (case GetKeyQuota (le_fails env 0) (ac_KeyID auth) (ln_quota s) of
        Inl _ \<Rightarrow> (s, Inr ())
      | Inr (quota, used, found) \<Rightarrow>
          if \<not> quota > 0 then (s, Inr ())
          else (case ReserveQuota (le_fails env 1) (ac_KeyID auth) est (ln_quota s) of
            (d, Inl _) \<Rightarrow> (s\<lparr>ln_quota := d\<rparr>, Inr ())
          | (d, Inr (reserved, rok)) \<Rightarrow>
              (let s = s\<lparr>ln_quota := d\<rparr> in
               if \<not> rok then (commit_rate env 0 s, Inl (Some (ErrorReply 429 ''insufficient_quota'' None)))
               else
                 (let s = (if ln_rate s = None then s\<lparr>ln_rate := new_rate env auth 0\<rparr> else s) in
                  case SetKeyQuotaReserved (le_fails env 2) (le_clock env 2) reserved (ln_rate s) (ln_quota s) of
                    (rco, d) \<Rightarrow> (s\<lparr>ln_rate := rco, ln_quota := d\<rparr>, Inr ())))))"

definition admit_user_quota :: "lane_env \<Rightarrow> auth_context \<Rightarrow> int \<Rightarrow> 'c lane \<Rightarrow> 'c lane \<times> (rejection + unit)" where
  "admit_user_quota env auth est s =
     (case sn_UsersByID (le_snap env 2) (ac_UserID auth) of
        None \<Rightarrow> (s, Inr ())
      | Some u \<Rightarrow>
          if \<not> us_QuotaTokens u > 0 then (s, Inr ())
          else (case ReserveUserQuota (le_fails env 3) (ac_UserID auth) est (ln_quota s) of
            (d, Inl _) \<Rightarrow> (s\<lparr>ln_quota := d\<rparr>, Inr ())
          | (d, Inr (reserved, rok)) \<Rightarrow>
              (let s = s\<lparr>ln_quota := d\<rparr> in
               if \<not> rok then (commit_rate env 0 s, Inl (Some (ErrorReply 429 ''insufficient_quota'' None)))
               else
                 (let s = (if ln_rate s = None then s\<lparr>ln_rate := new_rate env auth 0\<rparr> else s) in
                  case SetUserQuotaReserved (le_fails env 4) (le_clock env 5) (ac_UserID auth) reserved
                         (ln_rate s) (ln_quota s) of
                    (rco, d) \<Rightarrow> (s\<lparr>ln_rate := rco, ln_quota := d\<rparr>, Inr ())))))"

definition admit_tpm :: "lane_env \<Rightarrow> auth_context \<Rightarrow> int \<Rightarrow> 'c lane \<Rightarrow> 'c lane \<times> (rejection + unit)" where
  "admit_tpm env auth est s =
     (if \<not> ac_TPMLimit auth > 0 then (s, Inr ())
      else (case ReserveTPM (ac_KeyID auth) (ac_TPMLimit auth) est (le_clock env 3) (ln_limiter s) of
        (lm, ok, retry) \<Rightarrow>
        (let s = s\<lparr>ln_limiter := lm\<rparr> in
         if \<not> ok then (release_rate env s,
                        Inl (Some (ErrorReply 429 ''rate_limit_exceeded'' (Some (setRetryAfter retry)))))
         else (s\<lparr>ln_rate := setTPMReserved est (ln_rate s)\<rparr>, Inr ()))))"

definition admit_model :: "lane_env \<Rightarrow> auth_context \<Rightarrow> route \<Rightarrow> 'c lane \<Rightarrow> 'c lane \<times> (rejection + unit)" where
  "admit_model env auth r s =
     (if \<not> AllowsModel auth (rt_PublicName r)
      then (commit_rate env 0 s, Inl (Some (ErrorReply 403 ''model_not_allowed'' None)))
      else (s, Inr ()))"

section \<open>The balance\<close>

definition balanceExempt :: "lane_env \<Rightarrow> ident \<Rightarrow> bool" where
  "balanceExempt env userID =
     (case sn_UsersByID (le_snap env 3) userID of None \<Rightarrow> False | Some u \<Rightarrow> IsBalanceExempt (us_Role u))"

definition chain_models :: "candidate list \<Rightarrow> upstream_model option list" where
  "chain_models cands = map (\<lambda>c. Some (cd_UpstreamModel c)) cands"

text \<open>The rejection, if any.\<close>

definition precheckBalance :: "lane_env \<Rightarrow> auth_context \<Rightarrow> request \<Rightarrow> candidate list \<Rightarrow> reply option" where
  "precheckBalance env auth ing cands =
     (if balanceExempt env (ac_UserID auth) then None
      else
       (let req = rq_Rosetta ing;
            est = EstimateBalanceCostChain (cr_MaxOutputTokens req) (EstimateInputTokensOnly req) (chain_models cands);
            chainPriced = ChainHasPricedModel (chain_models cands)
        in if est \<le> 0 \<and> \<not> chainPriced then None
           else (case BalanceOf (ac_UserID auth) (le_fails env 5) (le_ledger env) of
             (cents, isLimited, Some err) \<Rightarrow> Some (ErrorReply 500 ''internal_error'' None)
           | (cents, isLimited, None) \<Rightarrow>
               (case Preflight est cents (\<not> isLimited) False chainPriced of
                  RejectCall \<Rightarrow> Some (ErrorReply 402 ''insufficient_balance'' None)
                | AllowCall \<Rightarrow> None))))"

section \<open>Choosing the targets\<close>

definition target_limit :: "lane_env \<Rightarrow> resolution \<Rightarrow> int" where
  "target_limit env res =
     (let n = int (length (rs_Candidates res)) in
      if \<not> rt_FailoverEnabled (rs_Route res) then 1
      else (let budget = FailoverMaxTargets (Some (sn_Runtime (le_snap env 1))) (le_cfg env)
            in if budget < n then budget else n))"

definition available :: "lane_env \<Rightarrow> resolution \<Rightarrow> 'c pool \<Rightarrow> candidate list" where
  "available env res p =
     (if rt_FailoverEnabled (rs_Route res)
      then (let avail = filter (\<lambda>c. TargetAvailable (cd_TargetID c) (le_clock env 6) p) (rs_Candidates res)
            in if avail \<noteq> [] then avail else rs_Candidates res)
      else rs_Candidates res)"

definition admit_targets :: "lane_env \<Rightarrow> request \<Rightarrow> resolution \<Rightarrow> 'c lane \<Rightarrow> 'c lane \<times> (rejection + candidate list)" where
  "admit_targets env ing res s =
     (let active = available env res (ln_pool s);
          serviceable = filter (\<lambda>c. effectiveProviderProtocol (Some (ln_pool s)) c \<noteq> ''anthropic'') active
      in if rq_RequiresStructuredOutput ing \<and> serviceable = []
         then (commit_rate env 0 s, Inl (Some (ErrorReply 400 ''invalid_request_error'' None)))
         else (let active = (if rq_RequiresStructuredOutput ing then serviceable else active)
               in (s, Inr (if int (length active) > target_limit env res
                           then take (nat (target_limit env res)) active else active))))"

section \<open>The whole admission\<close>

text \<open>What is reserved for the request between entry and the first call upstream.\<close>

definition admit_reserve ::
  "lane_env \<Rightarrow> auth_context \<Rightarrow> request \<Rightarrow> resolution \<Rightarrow> int \<Rightarrow> 'c lane \<Rightarrow> 'c lane \<times> (rejection + candidate list)" where
  "admit_reserve env auth ing res est s =
     (case admit_key_quota env auth est s of
        (s, Inl rej) \<Rightarrow> (s, Inl rej)
      | (s, Inr _) \<Rightarrow>
     (case admit_user_quota env auth est s of
        (s, Inl rej) \<Rightarrow> (s, Inl rej)
      | (s, Inr _) \<Rightarrow>
     (case admit_tpm env auth est s of
        (s, Inl rej) \<Rightarrow> (s, Inl rej)
      | (s, Inr _) \<Rightarrow>
     (case admit_model env auth (rs_Route res) s of
        (s, Inl rej) \<Rightarrow> (s, Inl rej)
      | (s, Inr _) \<Rightarrow>
          (let preflight = preflightCandidates (rt_FailoverEnabled (rs_Route res)) (target_limit env res) (rs_Candidates res)
           in case precheckBalance env auth ing preflight of
                Some r \<Rightarrow> (commit_rate env 0 s, Inl (Some r))
              | None \<Rightarrow> admit_targets env ing res s)))))"


end
