(* ===== verification/Lane.thy ===== *)
theory Lane
  imports Admission
begin

text \<open>
  \<^verbatim>\<open>internal/dataplane/handler.go\<close>, the second half of \<open>Handle\<close>: the failover lane. The chosen targets are tried in
  order; a target that recovers lets one probe in; an attempt that wrote to the client ends the lane; any other
  failure is charged to the target and the credential as its outcome says, and the next target is tried while
  the outcome allows it. When nothing was written, the last failure is the answer. The attempt at one target
  is a parameter here; theory \<open>Attempt\<close> provides it. Log lines and diagnostics are not modelled.
\<close>

section \<open>One target\<close>

record lane_vars =
  lv_out :: outcome
  lv_last :: "candidate option"
  lv_protocol :: string
  lv_trace :: "string list"

definition lane_start :: lane_vars where
  "lane_start = \<lparr>lv_out = zero_outcome, lv_last = None, lv_protocol = '''', lv_trace = []\<rparr>"

text \<open>How a round of the loop ends.\<close>

datatype flow = Continue | Break | Return

type_synonym 'c attempt = "nat \<Rightarrow> candidate \<Rightarrow> 'c \<Rightarrow> string list \<Rightarrow> 'c lane \<Rightarrow> 'c lane \<times> outcome"

definition no_upstream :: outcome where
  "no_upstream = zero_outcome\<lparr>oc_Eligible := True, oc_StatusCode := 502, oc_Code := ''upstream_error'',
     oc_Message := ''no available upstream provider''\<rparr>"

definition lane_affinity :: "lane_env \<Rightarrow> request \<Rightarrow> string" where
  "lane_affinity env ing =
     (let key = trim_space (rq_CacheKey ing) in if key = '''' then conversationSessionID (le_headers env) else key)"

definition note_step :: "nat \<Rightarrow> candidate \<Rightarrow> string \<Rightarrow> string \<Rightarrow> lane_vars \<Rightarrow> lane_vars" where
  "note_step i cand result reason v = v\<lparr>lv_trace := AppendRouteTrace (lv_trace v) (i + 1) cand result reason\<rparr>"

definition put_cooldown :: "'c pool \<times> cooldown_write \<Rightarrow> 'c lane \<Rightarrow> 'c lane" where
  "put_cooldown r s = s\<lparr>ln_pool := fst r, ln_cooldowns := ln_cooldowns s @ (case snd r of None \<Rightarrow> [] | Some c \<Rightarrow> [c])\<rparr>"

text \<open>The bookkeeping of an attempt that wrote nothing: blame, and the probe slot if the blame did not settle it.\<close>

definition settle_failure ::
  "instant \<Rightarrow> int \<Rightarrow> bool \<Rightarrow> lane_decision \<Rightarrow> outcome \<Rightarrow> ident \<Rightarrow> ident \<Rightarrow> probe_token \<Rightarrow> 'c lane \<Rightarrow> 'c lane" where
  "settle_failure now threshold probeClaimed d out targetID credID token s =
     (let probeRecorded = ld_PenalizeUpstream d;
          s = (if ld_PenalizeUpstream d
               then (let s = s\<lparr>ln_pool := RecordTargetFailure targetID token threshold now (ln_pool s)\<rparr>
                     in if oc_CredentialCooldown out > 0
                        then put_cooldown (MarkCredentialCooldown credID (oc_CredentialCooldown out) now (ln_pool s)) s
                        else s)
               else s)
      in if probeClaimed \<and> \<not> probeRecorded
         then s\<lparr>ln_pool := ReleaseTargetProbe targetID token (ln_pool s)\<rparr> else s)"

text \<open>From the choice of a credential to the end of the round, with the probe slot in hand.\<close>

definition lane_call ::
  "lane_env \<Rightarrow> 'c attempt \<Rightarrow> ('c \<Rightarrow> string) \<Rightarrow> string \<Rightarrow> int \<Rightarrow> nat \<Rightarrow> bool \<Rightarrow> candidate \<Rightarrow> bool \<Rightarrow> probe_token
    \<Rightarrow> lane_vars \<Rightarrow> 'c lane \<Rightarrow> 'c lane \<times> lane_vars \<times> flow" where
  "lane_call env attempt protocolName affinity threshold i isLast cand probeClaimed token v s =
     (let now = le_clock env (i + 6); targetID = cd_TargetID cand in
      case GetAnyClientByAffinity (le_rand env i) now (pr_Slug (cd_Provider cand)) affinity (ln_pool s) of
        Inl _ \<Rightarrow>
          (let s = (if probeClaimed then s\<lparr>ln_pool := ReleaseTargetProbe targetID token (ln_pool s)\<rparr> else s);
               v = note_step i cand ''fail'' ''no_healthy_credential'' (v\<lparr>lv_out := no_upstream\<rparr>)
           in (s, v, if isLast then Break else Continue))
      | Inr (client, credID) \<Rightarrow>
          (let v = v\<lparr>lv_protocol := protocolName client\<rparr> in
           case attempt i cand client (lv_trace v) s of (s, out) \<Rightarrow>
             (let v = v\<lparr>lv_out := out\<rparr>; d = LaneDecision out in
              if ld_Committed d
              then (put_cooldown (recordCommittedOutcome d targetID credID token threshold now (ln_pool s)) s,
                    note_step i cand (ld_TraceOutcome d) (ld_TraceReason d) v, Return)
              else (settle_failure now threshold probeClaimed d out targetID credID token s,
                    note_step i cand (ld_TraceOutcome d) (ld_TraceReason d) v,
                    if \<not> ld_Eligible d \<or> isLast then Break else Continue))))"

definition lane_step ::
  "lane_env \<Rightarrow> 'c attempt \<Rightarrow> ('c \<Rightarrow> string) \<Rightarrow> string \<Rightarrow> int \<Rightarrow> bool \<Rightarrow> nat \<Rightarrow> bool \<Rightarrow> candidate
    \<Rightarrow> lane_vars \<Rightarrow> 'c lane \<Rightarrow> 'c lane \<times> lane_vars \<times> flow" where
  "lane_step env attempt protocolName affinity threshold failover i isLast cand v s =
     (let v = v\<lparr>lv_last := Some cand\<rparr> in
      if le_ctx env (i + 1) \<noteq> CtxAlive then (commit_rate env 0 s, v, Return)
      else if failover \<and> threshold > 0 then
        (case ClaimTargetProbe (cd_TargetID cand) (le_clock env (i + 6)) (ln_pool s) of (p, token, claimed) \<Rightarrow>
          (let s = s\<lparr>ln_pool := p\<rparr> in
           if \<not> claimed then
             (let v = note_step i cand ''skip'' ''probe_busy_or_cooling'' v in
              if \<not> isLast then (s, v, Continue) else (s, v\<lparr>lv_out := no_upstream\<rparr>, Break))
           else lane_call env attempt protocolName affinity threshold i isLast cand True token v s))
      else lane_call env attempt protocolName affinity threshold i isLast cand False 0 v s)"

section \<open>The lane\<close>

fun lane_loop ::
  "lane_env \<Rightarrow> 'c attempt \<Rightarrow> ('c \<Rightarrow> string) \<Rightarrow> string \<Rightarrow> int \<Rightarrow> bool \<Rightarrow> nat \<Rightarrow> candidate list
    \<Rightarrow> lane_vars \<Rightarrow> 'c lane \<Rightarrow> 'c lane \<times> lane_vars \<times> bool" where
  "lane_loop env attempt protocolName affinity threshold failover i [] v s = (s, v, False)"
| "lane_loop env attempt protocolName affinity threshold failover i (cand # cands) v s =
     (case lane_step env attempt protocolName affinity threshold failover i (cands = []) cand v s of
        (s, v, Continue) \<Rightarrow> lane_loop env attempt protocolName affinity threshold failover (i + 1) cands v s
      | (s, v, Break) \<Rightarrow> (s, v, False)
      | (s, v, Return) \<Rightarrow> (s, v, True))"

definition no_tokens :: token_usage where
  "no_tokens = \<lparr>tu_InputTokens = 0, tu_OutputTokens = 0, tu_TotalTokens = 0, tu_ReasoningTokens = 0,
     tu_CachedInputTokens = 0, tu_CachedCreationTokens = 0\<rparr>"

text \<open>After the loop: \<open>ctx\<close> is the error of the request context.\<close>

definition final_status :: "outcome \<Rightarrow> int \<times> string" where
  "final_status out =
     (if oc_StatusCode out = 0 \<or> oc_StatusCode out = 200 then (502, ''upstream_error'')
      else (oc_StatusCode out, oc_Code out))"

definition lane_finish ::
  "lane_env \<Rightarrow> auth_context \<Rightarrow> request \<Rightarrow> ctx_err \<Rightarrow> lane_vars \<Rightarrow> 'c lane \<Rightarrow> 'c lane" where
  "lane_finish env auth ing ctx v s =
     (let out = WithRequestContext ctx (lv_out v);
          d = LaneDecision out;
          (statusCode, code) = final_status out;
          s = (if \<not> ld_DownstreamClient d then s\<lparr>ln_replies := ln_replies s @ [ErrorReply statusCode code None]\<rparr> else s);
          s = commit_rate env 0 s;
          errorCode = (case ld_Kind d of OutcomeClientAborted \<Rightarrow> '''' | OutcomeGatewayTimeout \<Rightarrow> ''gateway_timeout''
                       | _ \<Rightarrow> ld_DiagnosticError d);
          errorDetail = (case ld_Kind d of OutcomeClientAborted \<Rightarrow> ''''
                         | OutcomeGatewayTimeout \<Rightarrow> ''gateway request budget exceeded'' | _ \<Rightarrow> oc_Detail out)
      in s\<lparr>ln_usage := ln_usage s @
          [\<lparr>ug_AccessKeyID = ac_KeyID auth, ug_UserID = ac_UserID auth, ug_RequestID = le_requestID env,
            ug_PublicModel = rq_Model ing,
            ug_ProviderID = (case lv_last v of None \<Rightarrow> '''' | Some c \<Rightarrow> pr_ID (cd_Provider c)),
            ug_ProviderName = (case lv_last v of None \<Rightarrow> '''' | Some c \<Rightarrow> pr_Name (cd_Provider c)),
            ug_UpstreamModel = (case lv_last v of None \<Rightarrow> '''' | Some c \<Rightarrow> um_ModelID (cd_UpstreamModel c)),
            ug_IngressProtocol = le_codec env,
            ug_UpstreamProtocol = (case lv_last v of None \<Rightarrow> ''''
              | Some c \<Rightarrow> if lv_protocol v \<noteq> '''' then lv_protocol v
                           else effectiveProviderProtocol (Some (ln_pool s)) c),
            ug_Stream = rq_Stream ing, ug_Tokens = no_tokens, ug_UsageState = ''none'',
            ug_Status = ld_UsageStatus d, ug_HTTPStatus = statusCode, ug_ErrorCode = errorCode,
            ug_ErrorDetail = errorDetail, ug_RouteTrace = join_with ''; '' (lv_trace v)\<rparr>]\<rparr>)"

text \<open>The rest of \<open>Handle\<close> once the targets are chosen.\<close>

definition run_lane ::
  "lane_env \<Rightarrow> 'c attempt \<Rightarrow> ('c \<Rightarrow> string) \<Rightarrow> auth_context \<Rightarrow> request \<Rightarrow> resolution \<Rightarrow> candidate list \<Rightarrow> 'c lane \<Rightarrow> 'c lane" where
  "run_lane env attempt protocolName auth ing res active s =
     (case lane_loop env attempt protocolName (lane_affinity env ing)
             (FailoverFailureThreshold (Some (sn_Runtime (le_snap env 1))) (le_cfg env))
             (rt_FailoverEnabled (rs_Route res)) 0 active lane_start s of
        (s, v, returned) \<Rightarrow>
          if returned then s else lane_finish env auth ing (le_ctx env (length active + 1)) v s)"

section \<open>Failures stay failures\<close>

text \<open>An outcome that no normalization turns into a success.\<close>

definition failed :: "outcome \<Rightarrow> bool" where
  "failed out \<longleftrightarrow> oc_Kind out \<noteq> OutcomeCommittedSuccess \<and> \<not> (oc_Committed out \<and> oc_Success out) \<and>
     oc_UsageStatus out \<noteq> UsageStatusOK \<and> (oc_StatusCode out = 0 \<or> 400 \<le> oc_StatusCode out \<and> oc_StatusCode out < 600)"

lemma usage_status_failed: "kind \<noteq> OutcomeCommittedSuccess \<Longrightarrow> usageStatusForOutcome kind '''' code \<noteq> UsageStatusOK"
  by (cases kind) (simp_all add: usageStatusForOutcome_def)

lemma decision_usage_status: "ld_UsageStatus (LaneDecisionFor kind c e code) = usageStatusForOutcome kind '''' code"
  by (simp add: LaneDecisionFor_def Let_def)

lemma decision_success: "ld_Success (LaneDecisionFor kind c e code) \<longleftrightarrow> kind = OutcomeCommittedSuccess"
  by (cases kind) (simp_all add: LaneDecisionFor_def decision_switch_def Let_def)

lemma failed_kind: "failed out \<Longrightarrow> normalizedKind out \<noteq> OutcomeCommittedSuccess"
  by (auto simp: failed_def normalizedKind_def)

lemma normalize_fields:
  "oc_Kind (normalize out) = normalizedKind out"
  "oc_Success (normalize out) \<longleftrightarrow> normalizedKind out = OutcomeCommittedSuccess"
  "oc_StatusCode (normalize out) = oc_StatusCode out" "oc_Code (normalize out) = oc_Code out"
  "oc_UsageStatus (normalize out) \<in> {oc_UsageStatus out, usageStatusForOutcome (normalizedKind out) '''' (oc_Code out)}"
  by (simp_all add: normalize_def Let_def decision_success decision_usage_status)

lemma failed_normalize: "failed out \<Longrightarrow> failed (normalize out)"
  using failed_kind [of out] normalize_fields [of out] usage_status_failed [of "normalizedKind out" "oc_Code out"]
  by (auto simp: failed_def)

lemma failed_context:
  assumes "failed out"
  shows "failed (WithRequestContext ctx out)"
proof -
  have "failed (out\<lparr>oc_Kind := OutcomeClientAborted, oc_Eligible := False, oc_CredentialCooldown := 0\<rparr>)"
    "failed (out\<lparr>oc_Kind := OutcomeGatewayTimeout, oc_Eligible := False, oc_CredentialCooldown := 0,
       oc_StatusCode := 504, oc_Code := ''gateway_timeout'', oc_Message := ''gateway request budget exceeded''\<rparr>)"
    using assms by (simp_all add: failed_def)
  then show ?thesis
    unfolding WithRequestContext_def using assms by (simp add: failed_normalize)
qed

lemma failed_usage:
  assumes "failed out"
  shows "ld_UsageStatus (LaneDecision out) \<noteq> UsageStatusOK"
proof -
  let ?n = "normalize out" and ?K = "normalizedKind out"
  have n: "failed ?n" and K: "?K \<noteq> OutcomeCommittedSuccess"
    using assms by (simp_all add: failed_normalize failed_kind)
  let ?d = "LaneDecisionFor ?K (oc_Committed ?n) (oc_Eligible ?n) (oc_Code ?n)"
  have "ld_UsageStatus (LaneDecision out) \<in>
      {ld_UsageStatus (LaneDecisionFor OutcomeDownstreamWriteFailed True False (oc_Code ?n)), ld_UsageStatus ?d, oc_UsageStatus ?n}"
    by (simp add: LaneDecision_def Let_def normalize_fields(1))
  moreover have "oc_UsageStatus ?n \<noteq> UsageStatusOK" using n by (simp add: failed_def)
  ultimately show ?thesis
    using usage_status_failed [OF K] usage_status_failed [of OutcomeDownstreamWriteFailed]
    by (auto simp: decision_usage_status)
qed

lemma failed_simple [simp]: "failed zero_outcome" "failed no_upstream"
  by (simp_all add: failed_def zero_outcome_def no_upstream_def)

lemma failed_plain: "plain_failure out \<Longrightarrow> 400 \<le> oc_StatusCode out \<Longrightarrow> oc_StatusCode out < 600 \<Longrightarrow> failed out"
  by (auto simp: plain_failure_def failed_def)

lemma failed_err [simp]: "failed (OutcomeFromErrCtx ctx err)"
  unfolding OutcomeFromErrCtx_def
  using failed_plain [OF from_err_plain] from_err_fields(7,8) by (auto intro: failed_context)

lemma final_status_error: "failed out \<Longrightarrow> 400 \<le> fst (final_status out) \<and> fst (final_status out) < 600"
  by (auto simp: failed_def final_status_def)

section \<open>The contract of an attempt\<close>

text \<open>\<open>J\<close> holds while nothing has been decided for the request, \<open>Q\<close> once it is over. An attempt that ends the
  lane leads from one to the other, any other attempt keeps \<open>J\<close>; so do the ends the lane has of its own: the
  client has left, or the last failure is the answer.\<close>

locale lane_contract =
  fixes env :: lane_env and attempt :: "'c attempt" and auth :: auth_context and ing :: request
    and J :: "'c lane \<Rightarrow> bool" and Q :: "'c lane \<Rightarrow> bool" and F :: "outcome \<Rightarrow> bool"
  assumes F_start: "F zero_outcome" and F_none: "F no_upstream"
    and J_pool: "J s \<Longrightarrow> J (s\<lparr>ln_pool := p\<rparr>)" and J_cooldowns: "J s \<Longrightarrow> J (s\<lparr>ln_cooldowns := c\<rparr>)"
    and Q_pool: "Q s \<Longrightarrow> Q (s\<lparr>ln_pool := p\<rparr>)" and Q_cooldowns: "Q s \<Longrightarrow> Q (s\<lparr>ln_cooldowns := c\<rparr>)"
    and leave: "J s \<Longrightarrow> le_ctx env j \<noteq> CtxAlive \<Longrightarrow> Q (commit_rate env 0 s)"
    and finish: "J s \<Longrightarrow> F (lv_out v) \<Longrightarrow> Q (lane_finish env auth ing (le_ctx env j) v s)"
    and attempt_ends: "J s \<Longrightarrow> attempt i cand client tr s = (s', out) \<Longrightarrow> ld_Committed (LaneDecision out) \<Longrightarrow> Q s'"
    and attempt_fails: "J s \<Longrightarrow> attempt i cand client tr s = (s', out) \<Longrightarrow> \<not> ld_Committed (LaneDecision out) \<Longrightarrow> J s' \<and> F out"
begin

lemma J_settle: "J s \<Longrightarrow> J (settle_failure now threshold probeClaimed d out targetID credID token s)"
  by (auto simp: settle_failure_def put_cooldown_def Let_def intro!: J_pool J_cooldowns)

lemma Q_put: "Q s \<Longrightarrow> Q (put_cooldown r s)"
  unfolding put_cooldown_def by (intro Q_pool Q_cooldowns)

lemma call:
  assumes "J s" "F (lv_out v)"
    and "lane_call env attempt protocolName affinity threshold i isLast cand probeClaimed token v s = (s', v', fl)"
  shows "if fl = Return then Q s' else J s' \<and> F (lv_out v')"
proof (cases "GetAnyClientByAffinity (le_rand env i) (le_clock env (i + 6)) (pr_Slug (cd_Provider cand)) affinity (ln_pool s)")
  case (Inl e)
  with assms show ?thesis
    by (cases isLast; cases probeClaimed) (auto simp: lane_call_def note_step_def F_none intro: J_pool)
next
  case (Inr r)
  obtain client credID where r: "r = (client, credID)" by (cases r)
  obtain s1 out where at: "attempt i cand client (lv_trace v) s = (s1, out)" by fastforce
  show ?thesis
  proof (cases "ld_Committed (LaneDecision out)")
    case True
    with attempt_ends [OF assms(1) at] assms(3) Inr r at show ?thesis
      by (auto simp: lane_call_def note_step_def Let_def intro!: Q_put)
  next
    case False
    with attempt_fails [OF assms(1) at] assms(3) Inr r at show ?thesis
      by (cases "ld_Eligible (LaneDecision out)"; cases isLast)
        (auto simp: lane_call_def note_step_def Let_def intro!: J_settle)
  qed
qed

lemma step:
  assumes "J s" "F (lv_out v)"
    and "lane_step env attempt protocolName affinity threshold failover i isLast cand v s = (s', v', fl)"
  shows "if fl = Return then Q s' else J s' \<and> F (lv_out v')"
proof (cases "le_ctx env (i + 1) = CtxAlive")
  case False
  with assms show ?thesis by (auto simp: lane_step_def intro: leave)
next
  case alive: True
  let ?v = "v\<lparr>lv_last := Some cand\<rparr>"
  show ?thesis
  proof (cases "failover \<and> threshold > 0")
    case False
    with alive assms(3) have "lane_call env attempt protocolName affinity threshold i isLast cand False 0 ?v s = (s', v', fl)"
      by (auto simp: lane_step_def Let_def)
    from call [OF assms(1) _ this] assms(2) show ?thesis by simp
  next
    case True
    obtain p token claimed where c: "ClaimTargetProbe (cd_TargetID cand) (le_clock env (i + 6)) (ln_pool s) = (p, token, claimed)"
      by (metis prod.collapse)
    show ?thesis
    proof (cases claimed)
      case False
      with True alive c assms J_pool show ?thesis by (cases isLast) (auto simp: lane_step_def note_step_def Let_def F_none)
    next
      case claimed: True
      with True alive c assms(3)
      have "lane_call env attempt protocolName affinity threshold i isLast cand True token ?v (s\<lparr>ln_pool := p\<rparr>) = (s', v', fl)"
        by (auto simp: lane_step_def Let_def)
      from call [OF J_pool [OF assms(1)] _ this] assms(2) show ?thesis by simp
    qed
  qed
qed

lemma loop:
  "J s \<Longrightarrow> F (lv_out v) \<Longrightarrow>
   lane_loop env attempt protocolName affinity threshold failover i cands v s = (s', v', returned) \<Longrightarrow>
   if returned then Q s' else J s' \<and> F (lv_out v')"
proof (induction cands arbitrary: i v s)
  case Nil
  then show ?case by auto
next
  case (Cons cand cands)
  obtain s1 v1 fl where st: "lane_step env attempt protocolName affinity threshold failover i (cands = []) cand v s = (s1, v1, fl)"
    by (metis prod.collapse)
  from step [OF Cons.prems(1,2) st] Cons.IH [of s1 v1 "i + 1"] Cons.prems(3) st show ?case
    by (cases fl) auto
qed

lemma lane: "J s \<Longrightarrow> Q (run_lane env attempt protocolName auth ing res active s)"
proof -
  assume J: "J s"
  obtain s' v returned where l: "lane_loop env attempt protocolName (lane_affinity env ing)
      (FailoverFailureThreshold (Some (sn_Runtime (le_snap env 1))) (le_cfg env))
      (rt_FailoverEnabled (rs_Route res)) 0 active lane_start s = (s', v, returned)" by (metis prod.collapse)
  have "F (lv_out lane_start)" by (simp add: lane_start_def F_start)
  from loop [OF J this l] finish [of s' v] l show ?thesis
    by (cases returned) (auto simp: run_lane_def)
qed

end

section \<open>Probe slots\<close>

text \<open>The probe slots that are taken: targets with the token of the probe.\<close>

definition slots :: "'c pool \<Rightarrow> (ident \<times> probe_token) set" where
  "slots p = {(tid, tok). tok \<noteq> 0 \<and> (\<exists>h. pl_targets p tid = Some h \<and> th_halfOpenToken h = tok)}"

lemma slots_put:
  "slots (put_health tid h p) = {x \<in> slots p. fst x \<noteq> tid} \<union> (if th_halfOpenToken h = 0 then {} else {(tid, th_halfOpenToken h)})"
  by (auto simp: slots_def put_health_def split: if_splits)

lemma slots_same: "pl_targets p = pl_targets q \<Longrightarrow> slots p = slots q"
  by (simp add: slots_def)

lemma slots_release: "slots (ReleaseTargetProbe tid tok p) = slots p - {(tid, tok)}"
proof (cases "tok = 0")
  case True
  then show ?thesis by (auto simp: ReleaseTargetProbe_def slots_def)
next
  case False
  then show ?thesis
    by (cases "pl_targets p tid") (auto simp: ReleaseTargetProbe_def slots_def put_health_def split: if_splits)
qed

lemma slots_failure: "slots (RecordTargetFailure tid tok thr now p) \<subseteq> slots p - {(tid, tok)}"
proof (cases "thr \<le> 0")
  case True
  let ?q = "ReleaseTargetProbe tid tok p"
  have "slots (RecordTargetFailure tid tok thr now p) = slots ?q"
    using True
    by (cases "pl_targets ?q tid") (auto simp: RecordTargetFailure_def Let_def slots_def put_health_def split: if_splits)
  then show ?thesis by (simp add: slots_release)
next
  case False
  then show ?thesis
    by (cases "pl_targets p tid")
      (auto simp: RecordTargetFailure_def Let_def slots_put new_health_def, auto simp: slots_def)
qed

lemma slots_success: "slots (RecordTargetSuccess tid tok now p) \<subseteq> slots p - {(tid, tok)}"
  by (cases "pl_targets p tid") (auto simp: RecordTargetSuccess_def Let_def slots_put, auto simp: slots_def)

lemma slots_claim:
  assumes "ClaimTargetProbe tid now p = (q, tok, ok)"
  shows "slots q - {(tid, tok)} \<subseteq> slots p" "\<not> ok \<Longrightarrow> q = p"
  using assms
  by (auto simp: ClaimTargetProbe_def claimTargetProbeLocked_def Let_def slots_put split: option.splits if_splits)
    (auto simp: slots_def)

lemma slots_credential [simp]:
  "slots (fst (MarkCredentialCooldown c d now p)) = slots p" "slots (fst (RecordCredentialSuccess c p)) = slots p"
  by (auto simp: MarkCredentialCooldown_def RecordCredentialSuccess_def Let_def split: option.split intro!: slots_same)

lemma pool_put [simp]: "ln_pool (put_cooldown r s) = fst r"
  by (simp add: put_cooldown_def)

lemma pool_commit [simp]: "ln_pool (commit_rate env n s) = ln_pool s"
  by (simp add: commit_rate_def split: prod.split)

lemma pool_finish [simp]: "ln_pool (lane_finish env auth ing ctx v s) = ln_pool s"
  by (simp add: lane_finish_def Let_def split: prod.split)

lemma slots_committed: "slots (fst (recordCommittedOutcome d tid c tok thr now p)) \<subseteq> slots p - {(tid, tok)}"
  using slots_failure [of tid tok thr now p] slots_success [of tid tok now p] by (simp add: recordCommittedOutcome_def)

lemma slots_settle:
  assumes "probeClaimed \<or> tok = 0"
  shows "slots (ln_pool (settle_failure now thr probeClaimed d out tid c tok s)) \<subseteq> slots (ln_pool s) - {(tid, tok)}"
proof (cases "ld_PenalizeUpstream d")
  case True
  then show ?thesis
    using slots_failure [of tid tok thr now "ln_pool s"] by (simp add: settle_failure_def Let_def)
next
  case False
  with assms show ?thesis by (cases probeClaimed) (auto simp: settle_failure_def Let_def slots_release, auto simp: slots_def)
qed

text \<open>An attempt that leaves the pool alone.\<close>

locale pool_frame =
  fixes attempt :: "'c attempt"
  assumes keeps_pool: "attempt i cand client tr s = (s', out) \<Longrightarrow> ln_pool s' = ln_pool s"
begin

lemma call_slots:
  assumes "probeClaimed \<or> token = 0"
    and "lane_call env attempt protocolName affinity threshold i isLast cand probeClaimed token v s = (s', v', fl)"
  shows "slots (ln_pool s') \<subseteq> slots (ln_pool s) - {(cd_TargetID cand, token)}"
proof (cases "GetAnyClientByAffinity (le_rand env i) (le_clock env (i + 6)) (pr_Slug (cd_Provider cand)) affinity (ln_pool s)")
  case (Inl e)
  with assms show ?thesis
    by (cases probeClaimed) (auto simp: lane_call_def Let_def slots_release, auto simp: slots_def)
next
  case (Inr r)
  obtain client credID where r: "r = (client, credID)" by (cases r)
  obtain s1 out where at: "attempt i cand client (lv_trace v) s = (s1, out)" by fastforce
  have s': "s' = (if ld_Committed (LaneDecision out)
      then put_cooldown (recordCommittedOutcome (LaneDecision out) (cd_TargetID cand) credID token threshold
             (le_clock env (i + 6)) (ln_pool s1)) s1
      else settle_failure (le_clock env (i + 6)) threshold probeClaimed (LaneDecision out) out (cd_TargetID cand) credID token s1)"
    using assms(2) Inr r at by (auto simp: lane_call_def Let_def split: if_splits)
  show ?thesis
    unfolding s'
    using slots_committed [of "LaneDecision out" "cd_TargetID cand" credID token threshold "le_clock env (i + 6)" "ln_pool s"]
      slots_settle [OF assms(1), of "le_clock env (i + 6)" threshold "LaneDecision out" out "cd_TargetID cand" credID s1]
      keeps_pool [OF at] by simp
qed

lemma step_slots:
  assumes "lane_step env attempt protocolName affinity threshold failover i isLast cand v s = (s', v', fl)"
  shows "slots (ln_pool s') \<subseteq> slots (ln_pool s)"
proof (cases "le_ctx env (i + 1) = CtxAlive")
  case False
  with assms show ?thesis by (auto simp: lane_step_def)
next
  case alive: True
  let ?v = "v\<lparr>lv_last := Some cand\<rparr>"
  show ?thesis
  proof (cases "failover \<and> threshold > 0")
    case False
    with alive assms have "lane_call env attempt protocolName affinity threshold i isLast cand False 0 ?v s = (s', v', fl)"
      by (auto simp: lane_step_def Let_def)
    from call_slots [OF _ this] show ?thesis by auto
  next
    case True
    obtain p token claimed where c: "ClaimTargetProbe (cd_TargetID cand) (le_clock env (i + 6)) (ln_pool s) = (p, token, claimed)"
      by (metis prod.collapse)
    show ?thesis
    proof (cases claimed)
      case False
      with True alive c assms slots_claim(2) [OF c] show ?thesis by (cases isLast) (auto simp: lane_step_def Let_def)
    next
      case claimed: True
      with True alive c assms
      have "lane_call env attempt protocolName affinity threshold i isLast cand True token ?v (s\<lparr>ln_pool := p\<rparr>) = (s', v', fl)"
        by (auto simp: lane_step_def Let_def)
      from call_slots [OF _ this] slots_claim(1) [OF c] show ?thesis by auto
    qed
  qed
qed

lemma loop_slots:
  "lane_loop env attempt protocolName affinity threshold failover i cands v s = (s', v', returned) \<Longrightarrow>
   slots (ln_pool s') \<subseteq> slots (ln_pool s)"
proof (induction cands arbitrary: i v s)
  case (Cons cand cands)
  obtain s1 v1 fl where st: "lane_step env attempt protocolName affinity threshold failover i (cands = []) cand v s = (s1, v1, fl)"
    by (metis prod.collapse)
  from step_slots [OF st] Cons.IH [of "i + 1" v1 s1] Cons.prems st show ?case
    by (cases fl) auto
qed auto

lemma lane_slots: "slots (ln_pool (run_lane env attempt protocolName auth ing res active s)) \<subseteq> slots (ln_pool s)"
  using loop_slots unfolding run_lane_def by (auto split: prod.split)

end

end
