(* ===== verification/Attempt.thy ===== *)
theory Attempt
  imports "HOL-Library.Sublist" Lane
begin

text \<open>
  \<^verbatim>\<open>internal/dataplane/handler.go\<close>, \<open>attemptStream\<close> and \<open>attemptNonStream\<close>: one call of one target. The request
  is rewritten for the target and sent; until the first event (or the whole answer) is there nothing is
  written and the failure is handed back to the lane; from then on the attempt writes, classifies how the stream
  ended, records the usage and settles the reservations itself. What the SDK, the encoder of the wire format
  and the watchdogs do during the call is a script. The queue of the usage recorder is not modelled: a record is
  stored, and its callback run, when it is handed over.
\<close>

section \<open>What happens during a call\<close>

datatype event =
    MessageStart ident | TextDelta string | ThinkingDelta string | ToolCall ident string
  | MessageEnd "token_usage option" string | OtherEvent

text \<open>\<open>ss_Events\<close> are the events the stream delivers, \<open>ss_WriteFails i\<close> tells whether the encoder has seen a write
  error after the \<open>i\<close>-th of them, \<open>ss_LateWriteFails\<close> whether it has one when the loop is over (the heartbeat
  writes too), \<open>ss_FirstErr\<close> and \<open>ss_EndErr\<close> are \<open>stream.Err()\<close> before the first event and at the end, \<open>ss_Ctx i\<close>
  is the error of the request context at the \<open>i\<close>-th look of the attempt.\<close>

record stream_script =
  ss_ChatErr :: "sdk_error option"
  ss_TtftTimedOut :: bool
  ss_FirstErr :: "sdk_error option"
  ss_Events :: "event list"
  ss_WriteFails :: "nat \<Rightarrow> bool"
  ss_LateWriteFails :: bool
  ss_WriteErr :: sdk_error
  ss_EndErr :: "sdk_error option"
  ss_IdleTimedOut :: bool
  ss_SawTerminal :: bool
  ss_Ctx :: "nat \<Rightarrow> ctx_err"

datatype write_result = WriteDone | WriteEncodeError sdk_error | WriteFailed sdk_error

record call_script =
  ca_Result :: "sdk_error + token_usage"
  ca_Write :: write_result
  ca_Ctx :: ctx_err

text \<open>The surroundings of the calls: for the attempt number, the client, the model, the request and the cache key
  that are sent. \<open>up_IsZero\<close> is \<open>Usage.IsZero\<close> of the SDK.\<close>

record 'c upstream =
  up_Stream :: "nat \<Rightarrow> 'c \<Rightarrow> string \<Rightarrow> chat_request \<Rightarrow> string option \<Rightarrow> stream_script"
  up_Chat :: "nat \<Rightarrow> 'c \<Rightarrow> string \<Rightarrow> chat_request \<Rightarrow> string option \<Rightarrow> call_script"
  up_Protocol :: "'c \<Rightarrow> string"
  up_IsZero :: "token_usage \<Rightarrow> bool"

text \<open>The request and the cache key for a target that speaks \<open>protocol\<close>.\<close>

definition upstream_request :: "request \<Rightarrow> candidate \<Rightarrow> string \<Rightarrow> chat_request" where
  "upstream_request ing cand protocol =
     applyReplayGate protocol (ApplyThinkingCapability ing (Some (cd_UpstreamModel cand)) protocol (rq_Rosetta ing))"

section \<open>Recording the usage\<close>

definition usageStateFor :: "(token_usage \<Rightarrow> bool) \<Rightarrow> token_usage \<Rightarrow> string" where
  "usageStateFor isZero u = (if isZero u then ''missing'' else ''reported'')"

definition usage_row ::
  "lane_env \<Rightarrow> auth_context \<Rightarrow> request \<Rightarrow> candidate \<Rightarrow> string \<Rightarrow> bool \<Rightarrow> token_usage \<Rightarrow> string \<Rightarrow> string \<Rightarrow> int \<Rightarrow> string
    \<Rightarrow> string \<Rightarrow> string list \<Rightarrow> usage_record" where
  "usage_row env auth ing cand protocol stream tokens state status httpStatus errorCode errorDetail trace =
     \<lparr>ug_AccessKeyID = ac_KeyID auth, ug_UserID = ac_UserID auth, ug_RequestID = le_requestID env,
      ug_PublicModel = rq_Model ing, ug_ProviderID = pr_ID (cd_Provider cand), ug_ProviderName = pr_Name (cd_Provider cand),
      ug_UpstreamModel = um_ModelID (cd_UpstreamModel cand), ug_IngressProtocol = le_codec env,
      ug_UpstreamProtocol = protocol, ug_Stream = stream, ug_Tokens = tokens, ug_UsageState = state,
      ug_Status = status, ug_HTTPStatus = httpStatus, ug_ErrorCode = errorCode, ug_ErrorDetail = errorDetail,
      ug_RouteTrace = join_with ''; '' trace\<rparr>"

definition record_row :: "usage_record \<Rightarrow> 'c lane \<Rightarrow> 'c lane" where
  "record_row row s = s\<lparr>ln_usage := ln_usage s @ [row]\<rparr>"

text \<open>The callback of a stored record: known usage settles everything, unknown usage only returns the quotas.\<close>

definition settle_usage :: "(token_usage \<Rightarrow> bool) \<Rightarrow> lane_env \<Rightarrow> token_usage \<Rightarrow> 'c lane \<Rightarrow> 'c lane" where
  "settle_usage isZero env u s =
     (if \<not> isZero u then commit_rate env (tu_TotalTokens u) s else release_rate env s)"

definition add_reply :: "reply \<Rightarrow> 'c lane \<Rightarrow> 'c lane" where
  "add_reply r s = s\<lparr>ln_replies := ln_replies s @ [r]\<rparr>"

section \<open>Streams\<close>

record stream_acc =
  sa_Usage :: token_usage
  sa_StopReason :: string
  sa_Runes :: int

definition stream_empty :: stream_acc where
  "stream_empty = \<lparr>sa_Usage = no_tokens, sa_StopReason = '''', sa_Runes = 0\<rparr>"

definition rune_count :: "string \<Rightarrow> int" where
  "rune_count s = int (length (filter RuneStart s))"

definition consume :: "event \<Rightarrow> stream_acc \<Rightarrow> stream_acc" where
  "consume ev acc =
     (case ev of
        MessageEnd u stop \<Rightarrow>
          acc\<lparr>sa_Usage := (case u of Some t \<Rightarrow> t | None \<Rightarrow> sa_Usage acc), sa_StopReason := stop\<rparr>
      | TextDelta t \<Rightarrow> acc\<lparr>sa_Runes := sa_Runes acc + rune_count t\<rparr>
      | ThinkingDelta t \<Rightarrow> acc\<lparr>sa_Runes := sa_Runes acc + rune_count t\<rparr>
      | _ \<Rightarrow> acc)"

text \<open>Consumes events until the stream ends or the encoder reports a write error; \<open>True\<close> for the latter.\<close>

fun stream_loop :: "(nat \<Rightarrow> bool) \<Rightarrow> nat \<Rightarrow> event list \<Rightarrow> stream_acc \<Rightarrow> stream_acc \<times> bool" where
  "stream_loop writeFails i [] acc = (acc, False)"
| "stream_loop writeFails i (ev # evs) acc =
     (if writeFails i then (consume ev acc, True) else stream_loop writeFails (i + 1) evs (consume ev acc))"

text \<open>Usage status, error code and detail of a committed stream. The request context is read twice on the way.\<close>

definition stream_status :: "stream_script \<Rightarrow> bool \<Rightarrow> string \<times> string \<times> string" where
  "stream_status sc writeFailed =
     (if writeFailed
      then (UsageStatusCanceled, ''downstream_write_failed'', SafeErrorDetail (Some (ss_WriteErr sc)))
      else (case ss_EndErr sc of
        Some err \<Rightarrow>
         (let budget = ''gateway request budget exceeded''; detail = SafeErrorDetail (Some err);
              res = (if ss_Ctx sc 1 = CtxDeadline
                     then (UsageStatusTimeout, ''gateway_timeout'',
                           if detail \<noteq> '''' \<and> detail \<noteq> budget then budget @ CHR 0x0A # detail else budget)
                     else (UsageStatusOK, '''', ''''))
          in if ss_Ctx sc 2 = CtxDeadline then res
             else if se_StreamTruncated err
               then (UsageStatusTruncated, ''stream_truncated'', UpstreamErrorDetail (Some err))
             else if se_StreamOverflow err
               then (UsageStatusOverflow, ''stream_overflow'', UpstreamErrorDetail (Some err))
             else if IsClientGone (ss_Ctx sc 3) (Some err)
               then (UsageStatusCanceled, fst (snd res), snd (snd res))
             else (UsageStatusError, ''upstream_error'', UpstreamErrorDetail (Some err)))
      | None \<Rightarrow>
          if ss_IdleTimedOut sc \<and> \<not> ss_SawTerminal sc
          then (UsageStatusTruncated, ''stream_idle_timeout'', ''upstream stream produced no event within the idle timeout'')
          else (UsageStatusOK, '''', '''')))"

text \<open>A stream that ended without usage is counted by what was received.\<close>

definition stream_usage :: "(token_usage \<Rightarrow> bool) \<Rightarrow> request \<Rightarrow> stream_acc \<Rightarrow> token_usage" where
  "stream_usage isZero ing acc =
     (if isZero (sa_Usage acc) \<and> sa_Runes acc > 0
      then (let estOut = PartialOutTokens (sa_Runes acc); estIn = EstimateInputTokensOnly (rq_Rosetta ing)
            in no_tokens\<lparr>tu_InputTokens := estIn, tu_OutputTokens := estOut, tu_TotalTokens := estIn + estOut\<rparr>)
      else sa_Usage acc)"

text \<open>From the first event on.\<close>

definition stream_commit ::
  "lane_env \<Rightarrow> (token_usage \<Rightarrow> bool) \<Rightarrow> auth_context \<Rightarrow> request \<Rightarrow> candidate \<Rightarrow> string \<Rightarrow> string list \<Rightarrow> stream_script
    \<Rightarrow> 'c lane \<Rightarrow> 'c lane \<times> outcome" where
  "stream_commit env isZero auth ing cand protocol priorTrace sc s =
     (let s = add_reply StreamHead s;
          (acc, stopped) = stream_loop (ss_WriteFails sc) 0 (ss_Events sc) stream_empty;
          (status, errorCode, errorDetail) = stream_status sc (stopped \<or> ss_LateWriteFails sc);
          s = add_reply (StreamEnd status) s;
          usage = stream_usage isZero ing acc;
          trace = AppendRouteTrace priorTrace (length priorTrace + 1) cand (StreamCommitOutcome status) errorCode;
          s = record_row (usage_row env auth ing cand protocol True usage (usageStateFor isZero usage) status 200
                            errorCode errorDetail trace) s;
          s = settle_usage isZero env usage s
      in (s, normalize (zero_outcome\<lparr>oc_Kind := committedKindForStatus status, oc_Committed := True, oc_Code := errorCode\<rparr>)))"

text \<open>Before the first event.\<close>

definition first_event_failure :: "stream_script \<Rightarrow> outcome option" where
  "first_event_failure sc =
     (case ss_ChatErr sc of
        Some err \<Rightarrow> Some (OutcomeFromErrCtx (ss_Ctx sc 0) err)
      | None \<Rightarrow>
          if ss_Events sc = [] \<or> ss_TtftTimedOut sc then
            (case ss_FirstErr sc of
               Some err \<Rightarrow> Some (OutcomeFromErrCtx (ss_Ctx sc 0) err)
             | None \<Rightarrow> Some
                 (if ss_TtftTimedOut sc
                  then zero_outcome\<lparr>oc_Kind := OutcomeUpstreamFailed, oc_Eligible := True, oc_StatusCode := 504,
                         oc_Code := ''upstream_timeout'', oc_Message := ''upstream first-token timeout'',
                         oc_Detail := ''upstream did not produce its first stream event before the first-token timeout''\<rparr>
                  else zero_outcome\<lparr>oc_Kind := OutcomeUpstreamFailed, oc_Eligible := True, oc_StatusCode := 502,
                         oc_Code := ''upstream_error'', oc_Message := ''upstream returned empty response'',
                         oc_Detail := ''upstream closed the stream cleanly before producing its first event''\<rparr>))
          else None)"

definition attemptStream ::
  "lane_env \<Rightarrow> 'c upstream \<Rightarrow> auth_context \<Rightarrow> request \<Rightarrow> 'c attempt" where
  "attemptStream env up auth ing i cand client priorTrace s =
     (let protocol = up_Protocol up client;
          cacheKey = promptCacheAffinity (Some ing) protocol (conversationSessionID (le_headers env));
          sc = up_Stream up i client (um_ModelID (cd_UpstreamModel cand)) (upstream_request ing cand protocol) cacheKey
      in case first_event_failure sc of
           Some out \<Rightarrow> (s, out)
         | None \<Rightarrow> stream_commit env (up_IsZero up) auth ing cand protocol priorTrace sc s)"

section \<open>Complete answers\<close>

definition finishNonStreamEncodeFailure ::
  "lane_env \<Rightarrow> auth_context \<Rightarrow> request \<Rightarrow> candidate \<Rightarrow> string list \<Rightarrow> sdk_error \<Rightarrow> 'c lane \<Rightarrow> 'c lane \<times> outcome" where
  "finishNonStreamEncodeFailure env auth ing cand priorTrace err s =
     (let code = ''response_encode_failed'';
          s = add_reply (ErrorReply 500 code None) s;
          trace = AppendRouteTrace priorTrace (length priorTrace + 1) cand ''fail_terminal'' code;
          s = record_row (usage_row env auth ing cand (effectiveProviderProtocol (Some (ln_pool s)) cand) False no_tokens
                            ''none'' UsageStatusError 500 code (SafeErrorDetail (Some err)) trace) s;
          s = commit_rate env 0 s
      in (s, normalize (zero_outcome\<lparr>oc_Kind := OutcomeEncodeFailed, oc_Code := code\<rparr>)))"

definition finishNonStreamWriteFailure ::
  "lane_env \<Rightarrow> (token_usage \<Rightarrow> bool) \<Rightarrow> auth_context \<Rightarrow> request \<Rightarrow> candidate \<Rightarrow> string \<Rightarrow> string list \<Rightarrow> token_usage \<Rightarrow> sdk_error
    \<Rightarrow> 'c lane \<Rightarrow> 'c lane \<times> outcome" where
  "finishNonStreamWriteFailure env isZero auth ing cand protocol priorTrace u err s =
     (let code = ''downstream_write_failed'';
          trace = AppendRouteTrace priorTrace (length priorTrace + 1) cand ''committed_fail'' code;
          s = record_row (usage_row env auth ing cand protocol False u (usageStateFor isZero u) UsageStatusCanceled 200
                            code (SafeErrorDetail (Some err)) trace) s;
          s = settle_usage isZero env u s
      in (s, normalize (zero_outcome\<lparr>oc_Kind := OutcomeDownstreamWriteFailed, oc_Code := code\<rparr>)))"

definition attemptNonStream :: "lane_env \<Rightarrow> 'c upstream \<Rightarrow> auth_context \<Rightarrow> request \<Rightarrow> 'c attempt" where
  "attemptNonStream env up auth ing i cand client priorTrace s =
     (let protocol = up_Protocol up client;
          cacheKey = promptCacheAffinity (Some ing) protocol (conversationSessionID (le_headers env));
          sc = up_Chat up i client (um_ModelID (cd_UpstreamModel cand)) (upstream_request ing cand protocol) cacheKey;
          isZero = up_IsZero up
      in case ca_Result sc of
           Inl err \<Rightarrow> (s, OutcomeFromErrCtx (ca_Ctx sc) err)
         | Inr u \<Rightarrow>
             (case ca_Write sc of
                WriteEncodeError err \<Rightarrow> finishNonStreamEncodeFailure env auth ing cand priorTrace err s
              | WriteFailed err \<Rightarrow>
                  finishNonStreamWriteFailure env isZero auth ing cand protocol priorTrace u err (add_reply Body s)
              | WriteDone \<Rightarrow>
                 (let s = add_reply Body s;
                      trace = AppendRouteTrace priorTrace (length priorTrace + 1) cand ''ok'' '''';
                      s = record_row (usage_row env auth ing cand protocol False u (usageStateFor isZero u) UsageStatusOK
                                        200 '''' '''' trace) s;
                      s = settle_usage isZero env u s
                  in (s, normalize (zero_outcome\<lparr>oc_Kind := OutcomeCommittedSuccess\<rparr>)))))"

section \<open>The handler\<close>

definition attempt_for :: "lane_env \<Rightarrow> 'c upstream \<Rightarrow> auth_context \<Rightarrow> request \<Rightarrow> 'c attempt" where
  "attempt_for env up auth ing = (if rq_Stream ing then attemptStream env up auth ing else attemptNonStream env up auth ing)"

definition reject :: "rejection \<Rightarrow> 'c lane \<Rightarrow> 'c lane" where
  "reject rej s = (case rej of None \<Rightarrow> s | Some r \<Rightarrow> add_reply r s)"

text \<open>What follows the entry: \<open>serve\<close> for an authenticated and decoded request.\<close>

definition serve :: "lane_env \<Rightarrow> 'c upstream \<Rightarrow> auth_context \<Rightarrow> request \<Rightarrow> 'c lane \<Rightarrow> 'c lane" where
  "serve env up auth ing s =
     (case admit_route env auth ing s of
        (s, Inl rej) \<Rightarrow> reject rej s
      | (s, Inr (res, est)) \<Rightarrow>
          (case admit_reserve env auth ing res est s of
             (s, Inl rej) \<Rightarrow> reject rej s
           | (s, Inr active) \<Rightarrow> run_lane env (attempt_for env up auth ing) (up_Protocol up) auth ing res active s))"

definition Handle :: "lane_env \<Rightarrow> 'c upstream \<Rightarrow> 'c lane \<Rightarrow> 'c lane" where
  "Handle env up s =
     (case admit_entry env s of
        (s, Inl rej) \<Rightarrow> reject rej s
      | (s, Inr (auth, ing)) \<Rightarrow>
          (let s = serve env up auth ing s
           in if rq_Stream ing then s\<lparr>ln_streams := ln_streams s - 1\<rparr> else s))"

section \<open>What an attempt does to the state\<close>

lemma commit_fields [simp]:
  "ln_usage (commit_rate env n s) = ln_usage s" "ln_replies (commit_rate env n s) = ln_replies s"
  "ln_streams (commit_rate env n s) = ln_streams s" "ln_cooldowns (commit_rate env n s) = ln_cooldowns s"
  by (simp_all add: commit_rate_def split: prod.split)

lemma release_fields [simp]:
  "ln_usage (release_rate env s) = ln_usage s" "ln_replies (release_rate env s) = ln_replies s"
  "ln_streams (release_rate env s) = ln_streams s" "ln_pool (release_rate env s) = ln_pool s"
  by (simp_all add: release_rate_def split: prod.split)

lemma settle_fields [simp]:
  "ln_usage (settle_usage isZero env u s) = ln_usage s" "ln_replies (settle_usage isZero env u s) = ln_replies s"
  "ln_streams (settle_usage isZero env u s) = ln_streams s" "ln_pool (settle_usage isZero env u s) = ln_pool s"
  by (simp_all add: settle_usage_def)

lemma write_fields [simp]:
  "ln_usage (add_reply r s) = ln_usage s" "ln_replies (add_reply r s) = ln_replies s @ [r]"
  "ln_streams (add_reply r s) = ln_streams s" "ln_pool (add_reply r s) = ln_pool s"
  "ln_usage (record_row row s) = ln_usage s @ [row]" "ln_replies (record_row row s) = ln_replies s"
  "ln_streams (record_row row s) = ln_streams s" "ln_pool (record_row row s) = ln_pool s"
  by (simp_all add: add_reply_def record_row_def)

lemma stream_loop_result: "\<exists>acc stopped. stream_loop f i evs a = (acc, stopped)"
  by (metis prod.collapse)

lemma row_fields [simp]:
  "ug_Status (usage_row env auth ing cand p st u state status http code det tr) = status"
  "ug_HTTPStatus (usage_row env auth ing cand p st u state status http code det tr) = http"
  "ug_Tokens (usage_row env auth ing cand p st u state status http code det tr) = u"
  by (simp_all add: usage_row_def)

text \<open>The committed part of an attempt: the state of the quotas apart, it writes and records once.\<close>

definition written :: "lane_env \<Rightarrow> reply list \<Rightarrow> usage_record \<Rightarrow> int option \<Rightarrow> 'c lane \<Rightarrow> 'c lane \<Rightarrow> bool" where
  "written env qs row charge s s' \<longleftrightarrow>
     s' = (let t = s\<lparr>ln_replies := ln_replies s @ qs, ln_usage := ln_usage s @ [row]\<rparr>
           in case charge of Some n \<Rightarrow> commit_rate env n t | None \<Rightarrow> release_rate env t)"

section \<open>The two ways an attempt ends\<close>

text \<open>What a request leaves behind: no usage record and no reply, or one record with the replies that go with it.
  Success is only recorded for a stream that was ended as such or for a complete answer; a failure is answered
  with the status that is recorded, or not at all when the client is gone.\<close>

definition told :: "usage_record \<Rightarrow> reply list \<Rightarrow> bool" where
  "told r qs \<longleftrightarrow>
     (if ug_Status r = UsageStatusOK then qs \<in> {[StreamHead, StreamEnd UsageStatusOK], [Body]}
      else qs \<in> {[], [Body], [StreamHead, StreamEnd (ug_Status r)]} \<or>
           (\<exists>code. qs = [ErrorReply (ug_HTTPStatus r) code None] \<and> 400 \<le> ug_HTTPStatus r \<and> ug_HTTPStatus r < 600))"

definition terminal_kind :: "outcome \<Rightarrow> bool" where
  "terminal_kind out \<longleftrightarrow> oc_Kind out \<notin> {OutcomeUpstreamFailed, OutcomeClientAborted} \<or>
     oc_Kind out = OutcomeClientAborted \<and> oc_Committed out"

lemma decision_terminal:
  "kind \<notin> {OutcomeUpstreamFailed, OutcomeClientAborted} \<or> c \<Longrightarrow> ld_Committed (LaneDecisionFor kind c e code)"
  by (cases kind) (auto simp: LaneDecisionFor_def decision_switch_def Let_def)

lemma terminal_normalize:
  assumes "terminal_kind out"
  shows "terminal_kind (normalize out)" "ld_Committed (LaneDecision out)"
proof -
  have kind: "normalizedKind out \<notin> {OutcomeUpstreamFailed, OutcomeClientAborted} \<or>
      normalizedKind out = OutcomeClientAborted \<and> oc_Committed out"
    using assms by (auto simp: terminal_kind_def normalizedKind_def)
  have com: "oc_Committed (normalize out)"
    using kind decision_terminal [of "normalizedKind out" "oc_Committed out"] by (auto simp: normalize_def Let_def)
  then show "terminal_kind (normalize out)"
    using kind by (auto simp: terminal_kind_def normalize_fields)
  have "ld_Committed (LaneDecisionFor k True e c)" for k e c
    by (rule decision_terminal) simp
  with com show "ld_Committed (LaneDecision out)"
    unfolding LaneDecision_def Let_def normalize_fields by simp
qed

lemma terminal_committed [simp]: "terminal_kind out \<Longrightarrow> ld_Committed (LaneDecision (normalize out))"
  using terminal_normalize(2) [OF terminal_normalize(1)] .

lemma stream_outcome_terminal:
  "terminal_kind (zero_outcome\<lparr>oc_Kind := committedKindForStatus status, oc_Committed := True, oc_Code := code\<rparr>)"
  by (simp add: terminal_kind_def committedKindForStatus_def)

lemma other_outcomes_terminal:
  "terminal_kind (zero_outcome\<lparr>oc_Kind := OutcomeEncodeFailed, oc_Code := code\<rparr>)"
  "terminal_kind (zero_outcome\<lparr>oc_Kind := OutcomeDownstreamWriteFailed, oc_Code := code\<rparr>)"
  "terminal_kind (zero_outcome\<lparr>oc_Kind := OutcomeCommittedSuccess\<rparr>)"
  by (simp_all add: terminal_kind_def)

text \<open>The errors of the request context that the calls see before they write.\<close>

definition contexts :: "'c upstream \<Rightarrow> ctx_err set" where
  "contexts up = {x. \<exists>i c m r k. x = ss_Ctx (up_Stream up i c m r k) 0 \<or> x = ca_Ctx (up_Chat up i c m r k)}"

lemma contexts_intro:
  "ss_Ctx (up_Stream up i c m r k) 0 \<in> contexts up" "ca_Ctx (up_Chat up i c m r k) \<in> contexts up"
  unfolding contexts_def by blast+

definition unwritten :: "'c upstream \<Rightarrow> outcome \<Rightarrow> bool" where
  "unwritten up out \<longleftrightarrow> (\<exists>ctx \<in> contexts up. \<exists>err. out = OutcomeFromErrCtx ctx err) \<or>
     plain_failure out \<and> 400 \<le> oc_StatusCode out \<and> oc_StatusCode out < 600"

lemma first_event_unwritten:
  assumes "first_event_failure (up_Stream up i c m r k) = Some out"
  shows "unwritten up out"
proof -
  let ?sc = "up_Stream up i c m r k"
  have ctx: "ss_Ctx ?sc 0 \<in> contexts up" by (rule contexts_intro)
  from assms consider (err) err where "out = OutcomeFromErrCtx (ss_Ctx ?sc 0) err"
    | (late) "plain_failure out \<and> 400 \<le> oc_StatusCode out \<and> oc_StatusCode out < 600"
    by (auto simp: first_event_failure_def plain_failure_def zero_outcome_def split: option.splits if_splits)
  then show ?thesis
    by cases (use ctx in \<open>auto simp: unwritten_def\<close>)
qed

definition charge_of :: "(token_usage \<Rightarrow> bool) \<Rightarrow> token_usage \<Rightarrow> int option" where
  "charge_of isZero u = (if isZero u then None else Some (tu_TotalTokens u))"

lemma settle_written:
  "settle_usage isZero env u (record_row row (s\<lparr>ln_replies := ln_replies s @ qs\<rparr>)) = s' \<Longrightarrow>
   written env qs row (charge_of isZero u) s s'"
  by (auto simp: written_def settle_usage_def charge_of_def record_row_def Let_def)

text \<open>An attempt either leaves the state alone and reports a failure, or it writes, records and settles once,
  and ends the lane.\<close>

lemma stream_commit_written:
  assumes "stream_commit env isZero auth ing cand protocol tr sc s = (s', out)"
  shows "\<exists>qs row charge. written env qs row charge s s' \<and> told row qs \<and> qs \<noteq> [] \<and> ld_Committed (LaneDecision out)"
proof -
  obtain acc stopped where l: "stream_loop (ss_WriteFails sc) 0 (ss_Events sc) stream_empty = (acc, stopped)"
    by (metis prod.collapse)
  obtain status code detail where st: "stream_status sc (stopped \<or> ss_LateWriteFails sc) = (status, code, detail)"
    by (metis prod.collapse)
  let ?u = "stream_usage isZero ing acc"
  let ?row = "usage_row env auth ing cand protocol True ?u (usageStateFor isZero ?u) status 200 code detail
     (AppendRouteTrace tr (length tr + 1) cand (StreamCommitOutcome status) code)"
  have s': "settle_usage isZero env ?u (record_row ?row (s\<lparr>ln_replies := ln_replies s @ [StreamHead, StreamEnd status]\<rparr>)) = s'"
    and out: "out = normalize (zero_outcome\<lparr>oc_Kind := committedKindForStatus status, oc_Committed := True, oc_Code := code\<rparr>)"
    using assms l st by (auto simp: stream_commit_def Let_def add_reply_def)
  have "told ?row [StreamHead, StreamEnd status]" by (simp add: told_def)
  moreover have "ld_Committed (LaneDecision out)"
    unfolding out by (rule terminal_committed [OF stream_outcome_terminal])
  ultimately show ?thesis using settle_written [OF s'] by blast
qed

lemma nonstream_written:
  assumes "attemptNonStream env up auth ing i cand client tr s = (s', out)"
  shows "s' = s \<and> unwritten up out \<or>
    (\<exists>qs row charge. written env qs row charge s s' \<and> told row qs \<and> qs \<noteq> [] \<and> ld_Committed (LaneDecision out))"
proof -
  define protocol where "protocol = up_Protocol up client"
  define sc where "sc = up_Chat up i client (um_ModelID (cd_UpstreamModel cand)) (upstream_request ing cand protocol)
     (promptCacheAffinity (Some ing) protocol (conversationSessionID (le_headers env)))"
  have ctx: "ca_Ctx sc \<in> contexts up" unfolding sc_def by (rule contexts_intro)
  note at = assms [unfolded attemptNonStream_def Let_def, folded protocol_def, folded sc_def]
  show ?thesis
  proof (cases "ca_Result sc")
    case (Inl err)
    with at ctx show ?thesis by (auto simp: unwritten_def)
  next
    case (Inr u)
    let ?tr = "\<lambda>result code. AppendRouteTrace tr (length tr + 1) cand result code"
    show ?thesis
    proof (cases "ca_Write sc")
      case WriteDone
      let ?row = "usage_row env auth ing cand protocol False u (usageStateFor (up_IsZero up) u) UsageStatusOK 200 '''' '''' (?tr ''ok'' '''')"
      have "settle_usage (up_IsZero up) env u (record_row ?row (s\<lparr>ln_replies := ln_replies s @ [Body]\<rparr>)) = s'"
        using at Inr WriteDone by (simp add: add_reply_def)
      from settle_written [OF this] have "written env [Body] ?row (charge_of (up_IsZero up) u) s s'" .
      moreover have "told ?row [Body]" by (simp add: told_def)
      moreover have "ld_Committed (LaneDecision out)"
        using at Inr WriteDone terminal_committed [OF other_outcomes_terminal(3)] by auto
      ultimately show ?thesis by blast
    next
      case (WriteEncodeError err)
      let ?code = "''response_encode_failed''"
      let ?row = "usage_row env auth ing cand (effectiveProviderProtocol (Some (ln_pool s)) cand) False no_tokens ''none''
         UsageStatusError 500 ?code (SafeErrorDetail (Some err)) (?tr ''fail_terminal'' ?code)"
      have "written env [ErrorReply 500 ?code None] ?row (Some 0) s s'"
        using at Inr WriteEncodeError
        by (simp add: finishNonStreamEncodeFailure_def written_def add_reply_def record_row_def Let_def)
      moreover have "told ?row [ErrorReply 500 ?code None]" by (simp add: told_def)
      moreover have "ld_Committed (LaneDecision out)"
        using at Inr WriteEncodeError terminal_committed [OF other_outcomes_terminal(1)]
        by (auto simp: finishNonStreamEncodeFailure_def Let_def)
      ultimately show ?thesis by blast
    next
      case (WriteFailed err)
      let ?code = "''downstream_write_failed''"
      let ?row = "usage_row env auth ing cand protocol False u (usageStateFor (up_IsZero up) u) UsageStatusCanceled 200 ?code
         (SafeErrorDetail (Some err)) (?tr ''committed_fail'' ?code)"
      have "settle_usage (up_IsZero up) env u (record_row ?row (s\<lparr>ln_replies := ln_replies s @ [Body]\<rparr>)) = s'"
        using at Inr WriteFailed by (simp add: add_reply_def finishNonStreamWriteFailure_def Let_def)
      from settle_written [OF this] have "written env [Body] ?row (charge_of (up_IsZero up) u) s s'" .
      moreover have "told ?row [Body]" by (simp add: told_def)
      moreover have "ld_Committed (LaneDecision out)"
        using at Inr WriteFailed terminal_committed [OF other_outcomes_terminal(2)]
        by (auto simp: finishNonStreamWriteFailure_def Let_def)
      ultimately show ?thesis by blast
    qed
  qed
qed

lemma call_cases:
  assumes "attempt_for env up auth ing i cand client tr s = (s', out)"
  obtains (unwritten) "s' = s" "unwritten up out"
  | (written) qs row charge where "written env qs row charge s s'" "told row qs" "qs \<noteq> []" "ld_Committed (LaneDecision out)"
proof (cases "rq_Stream ing")
  case False
  with assms nonstream_written [of env up auth ing i cand client tr s s' out] show ?thesis
    by (auto simp: attempt_for_def intro: that)
next
  case True
  define protocol where "protocol = up_Protocol up client"
  define sc where "sc = up_Stream up i client (um_ModelID (cd_UpstreamModel cand)) (upstream_request ing cand protocol)
     (promptCacheAffinity (Some ing) protocol (conversationSessionID (le_headers env)))"
  from True assms have "attemptStream env up auth ing i cand client tr s = (s', out)" by (simp add: attempt_for_def)
  note at = this [unfolded attemptStream_def Let_def, folded protocol_def, folded sc_def]
  show ?thesis
  proof (cases "first_event_failure sc")
    case None
    with at have "stream_commit env (up_IsZero up) auth ing cand protocol tr sc s = (s', out)" by simp
    from stream_commit_written [OF this] show ?thesis using that by blast
  next
    case (Some o1)
    with at have "s' = s" "o1 = out" by simp_all
    with Some first_event_unwritten [of up i client "um_ModelID (cd_UpstreamModel cand)" "upstream_request ing cand protocol"
        "promptCacheAffinity (Some ing) protocol (conversationSessionID (le_headers env))" out]
    show ?thesis using that(1) by (simp add: sc_def)
  qed
qed

section \<open>Probe slots\<close>

interpretation lane_pool: pool_frame "attempt_for env up auth ing" for env up auth ing
proof
  fix i cand client tr s s' out
  assume "attempt_for env up auth ing i cand client tr s = (s', out)"
  then show "ln_pool s' = ln_pool s"
    by (cases rule: call_cases) (auto simp: written_def Let_def split: option.splits)
qed

lemma admit_frame:
  "ln_pool (fst (admit_entry env s)) = ln_pool s \<and> ln_usage (fst (admit_entry env s)) = ln_usage s \<and>
    ln_replies (fst (admit_entry env s)) = ln_replies s"
  "ln_pool (fst (admit_route env auth ing s)) = ln_pool s \<and> ln_usage (fst (admit_route env auth ing s)) = ln_usage s \<and>
    ln_replies (fst (admit_route env auth ing s)) = ln_replies s"
  "ln_pool (fst (admit_key_quota env auth est s)) = ln_pool s \<and> ln_usage (fst (admit_key_quota env auth est s)) = ln_usage s \<and>
    ln_replies (fst (admit_key_quota env auth est s)) = ln_replies s"
  "ln_pool (fst (admit_user_quota env auth est s)) = ln_pool s \<and> ln_usage (fst (admit_user_quota env auth est s)) = ln_usage s \<and>
    ln_replies (fst (admit_user_quota env auth est s)) = ln_replies s"
  "ln_pool (fst (admit_tpm env auth est s)) = ln_pool s \<and> ln_usage (fst (admit_tpm env auth est s)) = ln_usage s \<and>
    ln_replies (fst (admit_tpm env auth est s)) = ln_replies s"
  "ln_pool (fst (admit_model env auth r s)) = ln_pool s \<and> ln_usage (fst (admit_model env auth r s)) = ln_usage s \<and>
    ln_replies (fst (admit_model env auth r s)) = ln_replies s"
  "ln_pool (fst (admit_targets env ing res s)) = ln_pool s \<and> ln_usage (fst (admit_targets env ing res s)) = ln_usage s \<and>
    ln_replies (fst (admit_targets env ing res s)) = ln_replies s"
  by (auto simp: admit_entry_def admit_route_def admit_key_quota_def admit_user_quota_def admit_tpm_def admit_model_def
      admit_targets_def Let_def split: sum.split prod.split option.split decode_error.split)

text \<open>The reply to a rejected request.\<close>

definition error_reply :: "rejection \<Rightarrow> bool" where
  "error_reply rej \<longleftrightarrow> (\<exists>st code ra. rej = Some (ErrorReply st code ra) \<and> 400 \<le> st \<and> st < 600)"

lemma balance_reply: "precheckBalance env auth ing cands = Some r \<Longrightarrow> error_reply (Some r)"
  by (auto simp: precheckBalance_def error_reply_def Let_def split: if_splits prod.splits option.splits verdict.splits)

lemma admit_replies:
  "snd (admit_entry env s) = Inl rej \<Longrightarrow> rej = None \<and> le_ctx env 0 \<noteq> CtxAlive \<or> error_reply rej"
  "snd (admit_route env auth ing s) = Inl rej \<Longrightarrow> error_reply rej"
  "snd (admit_key_quota env auth est s) = Inl rej \<Longrightarrow> error_reply rej"
  "snd (admit_user_quota env auth est s) = Inl rej \<Longrightarrow> error_reply rej"
  "snd (admit_tpm env auth est s) = Inl rej \<Longrightarrow> error_reply rej"
  "snd (admit_model env auth r s) = Inl rej \<Longrightarrow> error_reply rej"
  "snd (admit_targets env ing res s) = Inl rej \<Longrightarrow> error_reply rej"
  by (auto simp: admit_entry_def admit_route_def admit_key_quota_def admit_user_quota_def admit_tpm_def admit_model_def
      admit_targets_def WriteAuthError_def error_reply_def Let_def
      split: sum.splits prod.splits option.splits decode_error.splits if_splits auth_error.splits)

lemma reserve_result:
  assumes "admit_reserve env auth ing res est s = (s', r)"
  shows "ln_pool s' = ln_pool s \<and> ln_usage s' = ln_usage s \<and> ln_replies s' = ln_replies s \<and>
    (\<forall>rej. r = Inl rej \<longrightarrow> error_reply rej)"
proof -
  obtain s1 r1 where k: "admit_key_quota env auth est s = (s1, r1)" by fastforce
  obtain s2 r2 where u: "admit_user_quota env auth est s1 = (s2, r2)" by fastforce
  obtain s3 r3 where t: "admit_tpm env auth est s2 = (s3, r3)" by fastforce
  obtain s4 r4 where m: "admit_model env auth (rs_Route res) s3 = (s4, r4)" by fastforce
  obtain s5 r5 where g: "admit_targets env ing res s4 = (s5, r5)" by fastforce
  note fr = admit_frame(3) [of env auth est s, unfolded k] admit_frame(4) [of env auth est s1, unfolded u]
    admit_frame(5) [of env auth est s2, unfolded t] admit_frame(6) [of env auth "rs_Route res" s3, unfolded m]
    admit_frame(7) [of env ing res s4, unfolded g]
  note re = admit_replies(3) [of env auth est s, unfolded k] admit_replies(4) [of env auth est s1, unfolded u]
    admit_replies(5) [of env auth est s2, unfolded t] admit_replies(6) [of env auth "rs_Route res" s3, unfolded m]
    admit_replies(7) [of env ing res s4, unfolded g]
  show ?thesis
    using assms fr re balance_reply [of env auth ing]
    by (auto simp: admit_reserve_def k u t m g Let_def split: sum.splits option.splits)
qed

lemma serve_cases:
  assumes "\<And>res est s1 s2 active. admit_route env auth ing s = (s1, Inr (res, est)) \<Longrightarrow>
      ln_pool s1 = ln_pool s \<Longrightarrow> ln_usage s1 = ln_usage s \<Longrightarrow> ln_replies s1 = ln_replies s \<Longrightarrow>
      ln_pool s2 = ln_pool s \<Longrightarrow> ln_usage s2 = ln_usage s \<Longrightarrow> ln_replies s2 = ln_replies s \<Longrightarrow>
      admit_reserve env auth ing res est s1 = (s2, Inr active) \<Longrightarrow>
      P (run_lane env (attempt_for env up auth ing) (up_Protocol up) auth ing res active s2)"
    and "\<And>rej s'. error_reply rej \<Longrightarrow> ln_pool s' = ln_pool s \<Longrightarrow> ln_usage s' = ln_usage s \<Longrightarrow> ln_replies s' = ln_replies s \<Longrightarrow>
      P (reject rej s')"
  shows "P (serve env up auth ing s)"
proof -
  obtain s1 r1 where r: "admit_route env auth ing s = (s1, r1)" by fastforce
  note fr = admit_frame(2) [of env auth ing s, unfolded r, simplified]
  show ?thesis
  proof (cases r1)
    case (Inl rej)
    with assms(2) [of rej s1] admit_replies(2) [of env auth ing s rej] fr r show ?thesis by (simp add: serve_def)
  next
    case (Inr x)
    obtain res est where x: "x = (res, est)" by (cases x)
    obtain s2 r2 where v: "admit_reserve env auth ing res est s1 = (s2, r2)" by fastforce
    note fr2 = reserve_result [OF v]
    show ?thesis
    proof (cases r2)
      case (Inl rej)
      with assms(2) [of rej s2] fr fr2 r v Inr x show ?thesis by (simp add: serve_def)
    next
      case Inr2: (Inr active)
      with assms(1) [of s1 res est s2 active] fr fr2 r v Inr x show ?thesis by (simp add: serve_def)
    qed
  qed
qed

lemma reject_fields [simp]: "ln_pool (reject rej s) = ln_pool s" "ln_usage (reject rej s) = ln_usage s"
  "ln_replies (reject rej s) = ln_replies s @ (case rej of None \<Rightarrow> [] | Some r \<Rightarrow> [r])"
  by (simp_all add: reject_def add_reply_def split: option.split)

lemma handle_cases:
  assumes "\<And>auth ing s1. admit_entry env s = (s1, Inr (auth, ing)) \<Longrightarrow> ln_pool s1 = ln_pool s \<Longrightarrow>
      ln_usage s1 = ln_usage s \<Longrightarrow> ln_replies s1 = ln_replies s \<Longrightarrow> P (serve env up auth ing s1)"
    and "\<And>s n. P s \<Longrightarrow> P (s\<lparr>ln_streams := n\<rparr>)"
    and "\<And>rej s'. rej = None \<and> le_ctx env 0 \<noteq> CtxAlive \<or> error_reply rej \<Longrightarrow> ln_pool s' = ln_pool s \<Longrightarrow>
      ln_usage s' = ln_usage s \<Longrightarrow> ln_replies s' = ln_replies s \<Longrightarrow> P (reject rej s')"
  shows "P (Handle env up s)"
proof -
  obtain s1 r1 where e: "admit_entry env s = (s1, r1)" by fastforce
  note fr = admit_frame(1) [of env s, unfolded e, simplified]
  show ?thesis
  proof (cases r1)
    case (Inl rej)
    with assms(3) [of rej s1] admit_replies(1) [of env s rej] fr e show ?thesis by (simp add: Handle_def)
  next
    case (Inr x)
    obtain auth ing where x: "x = (auth, ing)" by (cases x)
    have "P (serve env up auth ing s1)" using assms(1) fr e Inr x by blast
    with assms(2) e Inr x show ?thesis by (simp add: Handle_def Let_def)
  qed
qed

text \<open>C18: a request leaves no probe behind: whatever happens to it, every probe slot it claimed on a recovering
  target is settled when it ends, and no slot is taken that was free before. A target can therefore not stay
  barred because a request took its probe and never reported back.\<close>

theorem no_probe_left_behind: "slots (ln_pool (Handle env up s)) \<subseteq> slots (ln_pool s)"
proof (rule handle_cases)
  fix auth ing and s1 :: "'a lane"
  assume s1: "ln_pool s1 = ln_pool s"
  show "slots (ln_pool (serve env up auth ing s1)) \<subseteq> slots (ln_pool s)"
  proof (rule serve_cases)
    fix res active and s2 :: "'a lane"
    assume "ln_pool s2 = ln_pool s1"
    with s1 show "slots (ln_pool (run_lane env (attempt_for env up auth ing) (up_Protocol up) auth ing res active s2)) \<subseteq>
        slots (ln_pool s)"
      by (intro subset_trans [OF lane_pool.lane_slots]) simp
  qed (simp add: s1)
qed simp_all

section \<open>One record for a request\<close>

lemma finish_told:
  assumes "failed (lv_out v)"
  shows "\<exists>r qs. ln_usage (lane_finish env auth ing ctx v s) = ln_usage s @ [r] \<and>
    ln_replies (lane_finish env auth ing ctx v s) = ln_replies s @ qs \<and> told r qs \<and>
    (qs = [] \<longrightarrow> ld_DownstreamClient (LaneDecision (WithRequestContext ctx (lv_out v))))"
proof -
  let ?out = "WithRequestContext ctx (lv_out v)"
  have out: "failed ?out" using assms by (rule failed_context)
  obtain st code where fs: "final_status ?out = (st, code)" by fastforce
  have "400 \<le> st \<and> st < 600" using final_status_error [OF out] fs by simp
  with failed_usage [OF out] show ?thesis
    by (auto simp: lane_finish_def Let_def fs told_def)
qed

text \<open>What a whole request leaves behind.\<close>

definition exchange :: "usage_record list \<Rightarrow> reply list \<Rightarrow> bool" where
  "exchange rs qs \<longleftrightarrow>
     rs = [] \<and> (qs = [] \<or> (\<exists>st code ra. qs = [ErrorReply st code ra] \<and> 400 \<le> st \<and> st < 600)) \<or>
     (\<exists>r. rs = [r] \<and> told r qs)"

interpretation lane_record: lane_contract env "attempt_for env up auth ing" auth ing
  "\<lambda>s. ln_usage s = us \<and> ln_replies s = ps"
  "\<lambda>s. \<exists>rs qs. ln_usage s = us @ rs \<and> ln_replies s = ps @ qs \<and> exchange rs qs" failed
  for env up auth ing us ps
proof
  fix s s' :: "'a lane" and i cand client tr out
  assume J: "ln_usage s = us \<and> ln_replies s = ps" and at: "attempt_for env up auth ing i cand client tr s = (s', out)"
  show "\<exists>rs qs. ln_usage s' = us @ rs \<and> ln_replies s' = ps @ qs \<and> exchange rs qs" if "ld_Committed (LaneDecision out)"
    using at
  proof (cases rule: call_cases)
    case unwritten
    with J show ?thesis by (auto simp: exchange_def)
  next
    case (written qs row charge)
    then have "ln_usage s' = us @ [row] \<and> ln_replies s' = ps @ qs"
      using J by (auto simp: written_def Let_def split: option.splits)
    with written show ?thesis by (auto simp: exchange_def)
  qed
  show "(ln_usage s' = us \<and> ln_replies s' = ps) \<and> failed out" if "\<not> ld_Committed (LaneDecision out)"
    using at that J by (cases rule: call_cases) (auto simp: unwritten_def intro: failed_plain)
next
  fix s :: "'a lane" and v :: lane_vars and j
  assume "ln_usage s = us \<and> ln_replies s = ps" "failed (lv_out v)"
  with finish_told [of v env auth ing "le_ctx env j" s]
  show "\<exists>rs qs. ln_usage (lane_finish env auth ing (le_ctx env j) v s) = us @ rs \<and>
      ln_replies (lane_finish env auth ing (le_ctx env j) v s) = ps @ qs \<and> exchange rs qs"
    by (auto simp: exchange_def)
qed (auto simp: exchange_def)

text \<open>C2: one request, one account of it. Whatever the upstreams, the store, the clock and the client do, the
  handler adds at most one usage record for a request, and its replies fit: a request recorded as a success has
  received a complete stream or body, a failure is answered at most once and with the status that is recorded,
  between 400 and 599, and a rejected request gets one error and no record.\<close>

theorem one_record_per_request:
  "\<exists>rs qs. ln_usage (Handle env up s) = ln_usage s @ rs \<and> ln_replies (Handle env up s) = ln_replies s @ qs \<and> exchange rs qs"
proof (rule handle_cases)
  fix rej and s' :: "'a lane"
  assume "rej = None \<and> le_ctx env 0 \<noteq> CtxAlive \<or> error_reply rej" "ln_usage s' = ln_usage s" "ln_replies s' = ln_replies s"
  then show "\<exists>rs qs. ln_usage (reject rej s') = ln_usage s @ rs \<and> ln_replies (reject rej s') = ln_replies s @ qs \<and> exchange rs qs"
    by (cases rej) (auto simp: exchange_def error_reply_def)
next
  fix auth ing and s1 :: "'a lane"
  assume s1: "ln_usage s1 = ln_usage s" "ln_replies s1 = ln_replies s"
  show "\<exists>rs qs. ln_usage (serve env up auth ing s1) = ln_usage s @ rs \<and>
      ln_replies (serve env up auth ing s1) = ln_replies s @ qs \<and> exchange rs qs"
  proof (rule serve_cases)
    fix res active and s2 :: "'a lane"
    assume "ln_usage s2 = ln_usage s1" "ln_replies s2 = ln_replies s1"
    then have J: "ln_usage s2 = ln_usage s \<and> ln_replies s2 = ln_replies s" using s1 by simp
    show "\<exists>rs qs. ln_usage (run_lane env (attempt_for env up auth ing) (up_Protocol up) auth ing res active s2) = ln_usage s @ rs \<and>
        ln_replies (run_lane env (attempt_for env up auth ing) (up_Protocol up) auth ing res active s2) = ln_replies s @ qs \<and>
        exchange rs qs"
      using J by (rule lane_record.lane)
  next
    fix rej and s' :: "'a lane"
    assume "error_reply rej" "ln_usage s' = ln_usage s1" "ln_replies s' = ln_replies s1"
    with s1 show "\<exists>rs qs. ln_usage (reject rej s') = ln_usage s @ rs \<and> ln_replies (reject rej s') = ln_replies s @ qs \<and> exchange rs qs"
      by (cases rej) (auto simp: exchange_def error_reply_def)
  qed
qed simp

section \<open>An example\<close>

text \<open>A small world: one key of an unlimited user, one route to one provider with a single credential, an upstream
  that answers.\<close>

definition demo_snapshot :: snapshot where
  "demo_snapshot = empty_snapshot\<lparr>sn_Routes := demo_index True,
     sn_KeysByHash := [''h'' \<mapsto> \<lparr>ks_ID = ''k'', ks_KeyHash = ''h'', ks_Name = '''', ks_Enabled = True, ks_UserID = ''ann'',
        ks_RPMLimit = 0, ks_TPMLimit = 0, ks_AllowedModels = AllowAll, ks_GroupModelAllow = AllowAll, ks_ExpiresAt = 0,
        ks_AllowedNets = None\<rparr>],
     sn_UsersByID := [''ann'' \<mapsto> \<lparr>us_ID = ''ann'', us_Name = ''ann'', us_Role = ''user'', us_Status = ''active'',
        us_QuotaTokens = 500, us_AuthVersion = 1, us_GroupID = '''', us_AllowedModels = AllowAll\<rparr>]\<rparr>"

definition demo_env :: lane_env where
  "demo_env = \<lparr>le_snap = \<lambda>_. demo_snapshot, le_cfg = setDefaults \<lparr>df_UpstreamTimeoutMs = 0, df_StreamIdleTimeoutMs = 0,
       df_MaxRetries = 0, df_MaxRequestBodyBytes = 0, df_StreamFirstTokenTimeoutMs = 0, df_FailoverMaxTargets = 0,
       df_FailoverFailureThreshold = 0, df_MaxConcurrentStreams = 0, df_StreamAdmissionTimeoutMs = 0\<rparr>,
     le_sha = \<lambda>_. ''h'', le_headers = \<lambda>n. if n = ''X-Api-Key'' then ''abc'' else '''', le_addr = NoAddr,
     le_requestID = ''r'', le_codec = ''chat'', le_decode = Inr (demo_request\<lparr>rq_Model := ''acme/gpt''\<rparr>),
     le_slot = SlotReady, le_admissionTimeout = 5 * second,
     le_ledger = demo_ledger\<lparr>lg_users := [''ann'' \<mapsto> \<lparr>ac_balance = None, ac_remainder = 0\<rparr>]\<rparr>,
     le_clock = \<lambda>_. 0, le_fails = \<lambda>_. False, le_ctx = \<lambda>_. CtxAlive, le_rand = \<lambda>_ _. 0\<rparr>"

definition no_error :: sdk_error where
  "no_error = \<lparr>se_ContextTooLong = False, se_InvalidRequest = False, se_StreamTruncated = False, se_StreamOverflow = False,
     se_UpstreamMalformed = False, se_ResponseTooLarge = False, se_Canceled = False, se_APIError = None,
     se_TransportError = None, se_Error = ''''\<rparr>"

definition demo_up :: "unit upstream" where
  "demo_up = \<lparr>up_Stream = \<lambda>_ _ _ _ _. \<lparr>ss_ChatErr = None, ss_TtftTimedOut = False, ss_FirstErr = None, ss_Events = [],
       ss_WriteFails = \<lambda>_. False, ss_LateWriteFails = False, ss_WriteErr = no_error, ss_EndErr = None,
       ss_IdleTimedOut = False, ss_SawTerminal = True, ss_Ctx = \<lambda>_. CtxAlive\<rparr>,
     up_Chat = \<lambda>_ _ _ _ _. \<lparr>ca_Result = Inr (no_tokens\<lparr>tu_TotalTokens := 30\<rparr>), ca_Write = WriteDone, ca_Ctx = CtxAlive\<rparr>,
     up_Protocol = \<lambda>_. ''chat'', up_IsZero = \<lambda>u. u = no_tokens\<rparr>"

definition demo_gateway :: "unit pool" where
  "demo_gateway = Install [''acme'']
     [''acme'' \<mapsto> \<lparr>pe_ID = ''p1'', pe_Slug = ''acme'', pe_Name = ''Acme'', pe_Protocol = ''chat'', pe_Endpoint = '''',
        pe_Enabled = True, pe_Timeout = 0, pe_MaxRetries = 0, pe_Credentials = [0], pe_ProxyURL = '''', pe_NetworkID = '''',
        pe_ProxyConfigError = False\<rparr>]
     \<lparr>lt_IDs = {}, lt_Known = False\<rparr>
     (NewPool (\<lambda>_. \<lparr>ce_ID = ''c'', ce_Label = '''', ce_APIKey = '''', ce_Weight = 1, ce_Enabled = True,
        ce_Status = ''healthy'', ce_CooldownUntil = zero_time, ce_Client = ()\<rparr>))"

definition demo_lane :: "unit lane" where
  "demo_lane = \<lparr>ln_limiter = Ratelimit.New, ln_quota = demo_quota, ln_pool = demo_gateway, ln_streams = 0, ln_rate = None,
     ln_replies = [], ln_usage = [], ln_cooldowns = []\<rparr>"

section \<open>An answer for every request\<close>

lemma not_committed_plain: "plain_failure out \<Longrightarrow> \<not> ld_Committed (LaneDecision out)"
  by (simp add: lane_plain decision_failed)

lemma unwritten_alive:
  assumes "unwritten up out" "contexts up \<subseteq> {CtxAlive}"
  shows "plain_failure out \<and> 400 \<le> oc_StatusCode out \<and> oc_StatusCode out < 600"
  using assms from_err_plain from_err_fields(7,8) err_ctx(1) by (auto simp: unwritten_def)

lemma alive_answered:
  assumes "plain_failure out"
  shows "\<not> ld_DownstreamClient (LaneDecision (WithRequestContext CtxAlive out))"
proof -
  have "WithRequestContext CtxAlive out = out\<lparr>oc_UsageStatus := UsageStatusError\<rparr>"
    using assms normalize_plain [OF assms] by (simp add: WithRequestContext_def IsClientGone_def plain_failure_def)
  moreover have "plain_failure (out\<lparr>oc_UsageStatus := UsageStatusError\<rparr>)"
    using assms by (simp add: plain_failure_def)
  ultimately show ?thesis by (simp add: lane_plain decision_failed)
qed

text \<open>The client stays and the time suffices.\<close>

definition undisturbed :: "lane_env \<Rightarrow> 'c upstream \<Rightarrow> bool" where
  "undisturbed env up \<longleftrightarrow> (\<forall>j. le_ctx env j = CtxAlive) \<and> contexts up \<subseteq> {CtxAlive}"

interpretation lane_answer: lane_contract env "attempt_for env up auth ing" auth ing
  "\<lambda>s. undisturbed env up \<and> ln_usage s = us \<and> ln_replies s = ps"
  "\<lambda>s. \<exists>r qs. ln_usage s = us @ [r] \<and> ln_replies s = ps @ qs \<and> told r qs \<and> qs \<noteq> []"
  "\<lambda>out. plain_failure out \<and> (oc_StatusCode out = 0 \<or> 400 \<le> oc_StatusCode out \<and> oc_StatusCode out < 600)"
  for env up auth ing us ps
proof
  fix s s' :: "'a lane" and i cand client tr out
  assume J: "undisturbed env up \<and> ln_usage s = us \<and> ln_replies s = ps"
    and at: "attempt_for env up auth ing i cand client tr s = (s', out)"
  show "\<exists>r qs. ln_usage s' = us @ [r] \<and> ln_replies s' = ps @ qs \<and> told r qs \<and> qs \<noteq> []" if "ld_Committed (LaneDecision out)"
    using at
  proof (cases rule: call_cases)
    case unwritten
    with J that show ?thesis using unwritten_alive [of up out] not_committed_plain [of out] by (simp add: undisturbed_def)
  next
    case (written qs row charge)
    then have "ln_usage s' = us @ [row] \<and> ln_replies s' = ps @ qs"
      using J by (auto simp: written_def Let_def split: option.splits)
    with written show ?thesis by auto
  qed
  show "(undisturbed env up \<and> ln_usage s' = us \<and> ln_replies s' = ps) \<and>
      plain_failure out \<and> (oc_StatusCode out = 0 \<or> 400 \<le> oc_StatusCode out \<and> oc_StatusCode out < 600)"
    if "\<not> ld_Committed (LaneDecision out)"
    using at that J unwritten_alive [of up out] by (cases rule: call_cases) (auto simp: undisturbed_def)
next
  fix s :: "'a lane" and v :: lane_vars and j
  assume J: "undisturbed env up \<and> ln_usage s = us \<and> ln_replies s = ps"
    and F: "plain_failure (lv_out v) \<and> (oc_StatusCode (lv_out v) = 0 \<or> 400 \<le> oc_StatusCode (lv_out v) \<and> oc_StatusCode (lv_out v) < 600)"
  then have "failed (lv_out v)" by (auto simp: plain_failure_def failed_def)
  from finish_told [OF this, of env auth ing CtxAlive s] alive_answered [of "lv_out v"] J F
  show "\<exists>r qs. ln_usage (lane_finish env auth ing (le_ctx env j) v s) = us @ [r] \<and>
      ln_replies (lane_finish env auth ing (le_ctx env j) v s) = ps @ qs \<and> told r qs \<and> qs \<noteq> []"
    by (auto simp: undisturbed_def)
qed (auto simp: plain_failure_def zero_outcome_def no_upstream_def undisturbed_def)


lemma demo_undisturbed: "undisturbed demo_env demo_up"
  by (auto simp: undisturbed_def contexts_def demo_env_def demo_up_def)


section \<open>The targets that are tried\<close>

text \<open>C20: how many targets a request may try: the targets chosen for the lane are candidates of the resolved route,
  in the order of the route and each at most once; there is at least one when the route has one, never more than
  \<open>failover_max_targets\<close>, and only the first usable one when the route has no failover. A request that needs
  structured output is never sent to a target that cannot express it.\<close>

theorem targets_within_limit:
  assumes "admit_targets env ing res s = (s', Inr active)" "rs_Candidates res \<noteq> []"
    and "0 < FailoverMaxTargets (Some (sn_Runtime (le_snap env 1))) (le_cfg env)"
  shows "active \<noteq> [] \<and> subseq active (rs_Candidates res) \<and>
    int (length active) \<le> FailoverMaxTargets (Some (sn_Runtime (le_snap env 1))) (le_cfg env) \<and>
    (\<not> rt_FailoverEnabled (rs_Route res) \<longrightarrow> length active = 1) \<and>
    (rq_RequiresStructuredOutput ing \<longrightarrow>
       list_all (\<lambda>c. effectiveProviderProtocol (Some (ln_pool s)) c \<noteq> ''anthropic'') active)"
proof -
  let ?cs = "rs_Candidates res" and ?L = "target_limit env res" and ?ok = "\<lambda>c. effectiveProviderProtocol (Some (ln_pool s)) c \<noteq> ''anthropic''"
  define avail where "avail = available env res (ln_pool s)"
  have avail: "avail \<noteq> []" "subseq avail ?cs"
    using assms(2) by (auto simp: avail_def available_def Let_def subseq_filter_left)
  have L: "0 < ?L" "?L \<le> FailoverMaxTargets (Some (sn_Runtime (le_snap env 1))) (le_cfg env)"
    "\<not> rt_FailoverEnabled (rs_Route res) \<Longrightarrow> ?L = 1"
    using assms(2,3) by (auto simp: target_limit_def Let_def)
  define kept where "kept = (if rq_RequiresStructuredOutput ing then filter ?ok avail else avail)"
  have kept: "kept \<noteq> []" "subseq kept ?cs" "rq_RequiresStructuredOutput ing \<Longrightarrow> list_all ?ok kept"
    and active: "active = (if int (length kept) > ?L then take (nat ?L) kept else kept)"
    using assms(1) avail subseq_order.order_trans [OF subseq_filter_left avail(2)]
    by (auto simp: admit_targets_def Let_def kept_def avail_def [symmetric] list_all_iff split: if_splits)
  have "subseq (take n kept) kept" for n by (simp add: prefix_imp_subseq take_is_prefix)
  then have "subseq active ?cs" using kept(2) active by (auto intro: subseq_order.order_trans)
  moreover have "list_all ?ok active" if "rq_RequiresStructuredOutput ing"
    using kept(3) [OF that] active by (auto simp: list_all_iff dest: in_set_takeD)
  moreover have "active \<noteq> []" "int (length active) \<le> ?L" using kept(1) L(1) active by auto
  ultimately show ?thesis using L active kept(1) by (cases active) auto
qed

lemma demo_targets:
  "\<exists>s' active. admit_targets demo_env demo_request \<lparr>rs_Route = demo_route True, rs_Candidates =
      [\<lparr>cd_TargetID = ''t'', cd_Position = 0, cd_Provider = demo_provider, cd_UpstreamModel = demo_model\<rparr>]\<rparr> demo_lane = (s', Inr active)"
  by (auto simp: admit_targets_def demo_request_def Let_def)

theorem targets_within_limit_witness:
  "\<exists>s' active. admit_targets demo_env demo_request \<lparr>rs_Route = demo_route True, rs_Candidates =
      [\<lparr>cd_TargetID = ''t'', cd_Position = 0, cd_Provider = demo_provider, cd_UpstreamModel = demo_model\<rparr>]\<rparr> demo_lane = (s', Inr active) \<and>
    length active = 1"
proof -
  let ?res = "\<lparr>rs_Route = demo_route True, rs_Candidates =
      [\<lparr>cd_TargetID = ''t'', cd_Position = 0, cd_Provider = demo_provider, cd_UpstreamModel = demo_model\<rparr>]\<rparr>"
  obtain s' active where a: "admit_targets demo_env demo_request ?res demo_lane = (s', Inr active)"
    using demo_targets by blast
  have "0 < FailoverMaxTargets (Some (sn_Runtime (le_snap demo_env 1))) (le_cfg demo_env)"
    by (simp add: FailoverMaxTargets_def cfg_FailoverMaxTargets_def demo_env_def demo_snapshot_def empty_snapshot_def setDefaults_def
        or_default_def)
  from targets_within_limit [OF a _ this] a show ?thesis by (simp add: demo_route_def)
qed

section \<open>How a committed stream is classified\<close>

text \<open>The request context is read twice while a stream that ended with an error is classified. When the budget runs
  out between the two, neither branch is taken and the broken stream is recorded as a success, which is the
  status that is charged.\<close>

lemma racing_deadline_reported_ok:
  assumes "ss_EndErr sc = Some err" "ss_Ctx sc 1 = CtxAlive" "ss_Ctx sc 2 = CtxDeadline"
  shows "stream_status sc False = (UsageStatusOK, '''', '''')"
  using assms by (simp add: stream_status_def Let_def)

lemma penalize_kind: "ld_PenalizeUpstream (LaneDecisionFor k c e code) \<longleftrightarrow> k = OutcomeCommittedPartial"
  by (cases k) (simp_all add: LaneDecisionFor_def decision_switch_def Let_def)

lemma normalized_partial:
  "terminal_kind out \<Longrightarrow> normalizedKind (normalize out) = OutcomeCommittedPartial \<longleftrightarrow> oc_Kind out = OutcomeCommittedPartial"
  by (auto simp: terminal_kind_def normalizedKind_def normalize_fields)

lemma terminal_penalty:
  assumes "terminal_kind out" "oc_Kind out = OutcomeCommittedPartial \<Longrightarrow> oc_Code out \<noteq> ''downstream_write_failed''"
  shows "ld_PenalizeUpstream (LaneDecision (normalize out)) \<longleftrightarrow> oc_Kind out = OutcomeCommittedPartial"
proof -
  let ?n = "normalize out"
  have K: "normalizedKind ?n \<noteq> OutcomeUpstreamFailed"
    using terminal_normalize(1) [OF assms(1)] by (auto simp: terminal_kind_def normalizedKind_def)
  show ?thesis
    using K normalized_partial [OF assms(1)] assms(2)
    by (auto simp: LaneDecision_def Let_def normalize_fields penalize_kind)
qed

definition write_failed :: "stream_script \<Rightarrow> bool" where
  "write_failed sc \<longleftrightarrow> snd (stream_loop (ss_WriteFails sc) 0 (ss_Events sc) stream_empty) \<or> ss_LateWriteFails sc"

lemma status_codes:
  "fst (stream_status sc w) \<in> {UsageStatusOK, UsageStatusCanceled, UsageStatusTimeout, UsageStatusTruncated, UsageStatusOverflow, UsageStatusError}"
  "fst (stream_status sc w) \<in> {UsageStatusTruncated, UsageStatusError} \<Longrightarrow> fst (snd (stream_status sc w)) \<noteq> ''downstream_write_failed''"
  by (cases "ss_EndErr sc"; auto simp: stream_status_def Let_def)+


definition broken_stream :: stream_script where
  "broken_stream = (up_Stream demo_up 0 () '''' (rq_Rosetta demo_request) None)
     \<lparr>ss_Events := [TextDelta ''hi''], ss_EndErr := Some no_error\<rparr>"


section \<open>Stream slots\<close>

interpretation lane_streams: lane_contract env "attempt_for env up auth ing" auth ing
  "\<lambda>s. ln_streams s = n" "\<lambda>s. ln_streams s = n" failed for env up auth ing n
proof
  fix s s' :: "'a lane" and i cand client tr out
  assume J: "ln_streams s = n" and at: "attempt_for env up auth ing i cand client tr s = (s', out)"
  have s': "ln_streams s' = n"
    using at J by (cases rule: call_cases) (auto simp: written_def Let_def split: option.splits)
  then show "ln_streams s' = n" .
  show "ln_streams s' = n \<and> failed out" if "\<not> ld_Committed (LaneDecision out)"
    using at that s' by (cases rule: call_cases) (auto simp: unwritten_def intro: failed_plain)
next
  fix s :: "'a lane" and v :: lane_vars and j
  assume "ln_streams s = n"
  then show "ln_streams (lane_finish env auth ing (le_ctx env j) v s) = n"
    by (simp add: lane_finish_def Let_def split: prod.split)
qed simp_all

lemma serve_streams: "ln_streams (serve env up auth ing s) = ln_streams s"
proof -
  have steps: "ln_streams (fst (admit_route env auth ing s)) = ln_streams s"
    "ln_streams (fst (admit_key_quota env auth est s)) = ln_streams s"
    "ln_streams (fst (admit_user_quota env auth est s)) = ln_streams s"
    "ln_streams (fst (admit_tpm env auth est s)) = ln_streams s"
    "ln_streams (fst (admit_model env auth r s)) = ln_streams s"
    "ln_streams (fst (admit_targets env ing res s)) = ln_streams s" for est r res and s :: "'a lane"
    by (auto simp: admit_route_def admit_key_quota_def admit_user_quota_def admit_tpm_def admit_model_def
        admit_targets_def Let_def split: sum.split prod.split option.split)
  have reserve: "ln_streams s' = ln_streams s" if "admit_reserve env auth ing res est s = (s', r)" for res est s' r and s :: "'a lane"
    using that steps by (auto simp: admit_reserve_def Let_def split: prod.splits sum.splits option.splits) (metis fst_conv)+
  obtain s1 r1 where r: "admit_route env auth ing s = (s1, r1)" by fastforce
  then have s1: "ln_streams s1 = ln_streams s" using steps(1) [of s] by simp
  have rej: "ln_streams (reject rj t) = ln_streams t" for rj and t :: "'a lane"
    by (simp add: reject_def split: option.split)
  show ?thesis
  proof (cases r1)
    case (Inl rj)
    with r s1 rej show ?thesis by (simp add: serve_def)
  next
    case (Inr x)
    obtain res est where x: "x = (res, est)" by (cases x)
    obtain s2 r2 where v: "admit_reserve env auth ing res est s1 = (s2, r2)" by fastforce
    from reserve [OF v] s1 have s2: "ln_streams s2 = ln_streams s" by simp
    from lane_streams.lane [OF s2] s2 rej r v Inr x show ?thesis by (cases r2) (auto simp: serve_def)
  qed
qed

text \<open>A stream takes one slot and gives it back, however it ends; any other request takes none.\<close>

lemma stream_slot_returned: "ln_streams (Handle env up s) = ln_streams s"
proof -
  obtain s1 r1 where e: "admit_entry env s = (s1, r1)" by fastforce
  then have "case r1 of Inl _ \<Rightarrow> ln_streams s1 = ln_streams s
    | Inr (auth, ing) \<Rightarrow> ln_streams s1 = ln_streams s + (if rq_Stream ing then 1 else 0)"
    by (auto simp: admit_entry_def acquireStreamSlot_def Let_def
        split: sum.splits prod.splits decode_error.splits if_splits select_case.splits)
  with e show ?thesis
    by (cases r1) (auto simp: Handle_def Let_def serve_streams reject_def split: option.split)
qed

end
