(* ===== verification/Reservations.thy ===== *)
theory Reservations
  imports Attempt
begin

text \<open>
  The reservations of a request over its whole life in \<open>Handle\<close>: what the admission takes from the quotas of the
  key and of the user, and that every way a request can end gives it back.
\<close>

section \<open>Leases of one request\<close>

definition leases_of :: "ident \<Rightarrow> quota_db \<Rightarrow> lease list" where
  "leases_of req d = filter (\<lambda>l. ls_request l = req) (qd_leases d)"

lemma leases_set [simp]:
  "leases_of req (set_key k r d) = leases_of req d" "leases_of req (set_user u x d) = leases_of req d"
  by (simp_all add: leases_of_def set_key_def set_user_def)

lemma leases_put:
  assumes "ls_request l = req"
  shows "leases_of req (put_lease l d) =
    (if lease_key l \<in> lease_key ` set (leases_of req d)
     then map (\<lambda>t. if lease_key t = lease_key l then l else t) (leases_of req d) else leases_of req d @ [l])"
proof -
  have mem: "lease_key l \<in> lease_key ` set (leases_of req d) \<longleftrightarrow> lease_key l \<in> lease_key ` set (qd_leases d)"
    using assms by (auto simp: leases_of_def lease_key_def image_iff) metis
  have "filter (\<lambda>t. ls_request t = req) (map (\<lambda>t. if lease_key t = lease_key l then l else t) ts) =
      map (\<lambda>t. if lease_key t = lease_key l then l else t) (filter (\<lambda>t. ls_request t = req) ts)" for ts
    using assms by (induction ts) (auto simp: lease_key_def)
  then show ?thesis
    using assms mem by (simp add: leases_of_def put_lease_def)
qed

lemma held_put_lease [simp]:
  "held_key k (put_lease l d) = held_key k d" "held_user u (put_lease l d) = held_user u d"
  by (simp_all add: put_lease_def held_key_def held_user_def)

lemma own_open: "leases_of req d = own_leases until rc \<Longrightarrow> open_leases req d = own_leases until rc"
proof -
  assume l: "leases_of req d = own_leases until rc"
  have "open_leases req d = filter (\<lambda>s. \<not> ls_released s) (leases_of req d)"
    unfolding open_leases_def leases_of_def filter_filter by (rule filter_cong) auto
  then show ?thesis unfolding l by (simp add: own_leases_def)
qed

lemma held_drops:
  "0 \<le> n \<Longrightarrow> n \<le> held_key k d \<Longrightarrow> held_key j (drop_key k n d) = held_key j d - (if j = k then n else 0)"
  "0 \<le> n \<Longrightarrow> n \<le> held_user u d \<Longrightarrow> held_user w (drop_user u n d) = held_user w d - (if w = u then n else 0)"
  by (auto simp: held_key_def held_user_def drop_key_def drop_user_def set_key_def set_user_def split: option.splits)

section \<open>What a request holds\<close>

text \<open>Between the store \<open>d0\<close> before the request and its state now: \<open>a\<close> tokens are reserved with the key, \<open>b\<close> with
  the user, the finalizer knows both and the leases record them.\<close>

definition holds :: "ident \<Rightarrow> ident \<Rightarrow> ident \<Rightarrow> quota_db \<Rightarrow> int \<Rightarrow> int \<Rightarrow> 'c lane \<Rightarrow> bool" where
  "holds req key uid d0 a b s \<longleftrightarrow>
     (\<forall>k. held_key k (ln_quota s) = held_key k d0 + (if k = key then a else 0)) \<and>
     (\<forall>u. held_user u (ln_quota s) = held_user u d0 + (if u = uid then b else 0)) \<and> 0 \<le> a \<and> 0 \<le> b \<and>
     (case ln_rate s of
        None \<Rightarrow> a = 0 \<and> b = 0 \<and> leases_of req (ln_quota s) = []
      | Some rc \<Rightarrow> rc_hasStore rc \<and> rc_requestID rc = req \<and> rc_keyID rc = key \<and> rc_quotaReserved rc = a \<and>
          rc_userQuotaReserved rc = b \<and> (0 < b \<longrightarrow> rc_userID rc = uid) \<and>
          (\<exists>until. leases_of req (ln_quota s) = own_leases until rc))"

definition returned :: "quota_db \<Rightarrow> 'c lane \<Rightarrow> bool" where
  "returned d0 s \<longleftrightarrow> (\<forall>k. held_key k (ln_quota s) = held_key k d0) \<and> (\<forall>u. held_user u (ln_quota s) = held_user u d0)"

text \<open>The statements that write and release leases succeed, and the identities are real ones.\<close>

definition lease_works :: "lane_env \<Rightarrow> ident \<Rightarrow> ident \<Rightarrow> quota_db \<Rightarrow> bool" where
  "lease_works env key uid d0 \<longleftrightarrow> le_requestID env \<noteq> '''' \<and> key \<noteq> '''' \<and> uid \<noteq> '''' \<and>
     \<not> le_fails env 2 \<and> \<not> le_fails env 4 \<and> \<not> le_fails env 6 \<and> \<not> le_fails env 7 \<and> \<not> le_fails env 8 \<and>
     (\<forall>k. 0 \<le> held_key k d0) \<and> (\<forall>u. 0 \<le> held_user u d0)"

lemma release_held:
  assumes works: "lease_works env key uid d0" and h: "holds (le_requestID env) key uid d0 a b s"
    and rel: "rc_ReleaseQuota False False False (ln_rate s) (ln_quota s) = (rco, d)"
  shows "(\<forall>k. held_key k d = held_key k d0) \<and> (\<forall>u. held_user u d = held_user u d0)"
proof (cases "ln_rate s")
  case None
  with h rel show ?thesis by (auto simp: holds_def rc_ReleaseQuota_def)
next
  case (Some rc)
  define req where "req = le_requestID env"
  have rc: "rc_hasStore rc" "rc_requestID rc = req" "rc_keyID rc = key" "rc_quotaReserved rc = a"
    "rc_userQuotaReserved rc = b" "0 < b \<Longrightarrow> rc_userID rc = uid" "0 \<le> a" "0 \<le> b" "req \<noteq> ''''"
    using h works Some by (auto simp: holds_def lease_works_def req_def)
  obtain until where own: "leases_of req (ln_quota s) = own_leases until rc"
    using h Some by (auto simp: holds_def req_def)
  have held: "held_key k (ln_quota s) = held_key k d0 + (if k = key then a else 0)"
    "held_user u (ln_quota s) = held_user u d0 + (if u = uid then b else 0)" for k u
    using h by (simp_all add: holds_def)
  have pos: "0 \<le> held_key k d0" "0 \<le> held_user u d0" for k u
    using works by (simp_all add: lease_works_def)
  show ?thesis
  proof (cases "own_leases until rc = []")
    case True
    then have zero: "a = 0" "b = 0" using rc by (auto simp: own_leases_def split: if_splits)
    have "d = ln_quota s"
      using rel rc own_open [OF own] True zero unfolding Some
      by (simp add: rc_ReleaseQuota_def ReleaseOwnedQuotaReservations_def releaseWithoutLease_def)
    with held zero show ?thesis by simp
  next
    case False
    then have d: "d = fold release_lease (own_leases until rc) (ln_quota s)"
      using rel rc own_open [OF own] unfolding Some
      by (auto simp: rc_ReleaseQuota_def ReleaseOwnedQuotaReservations_def Let_def)
    show ?thesis
      unfolding d using rc held pos by (auto simp: own_leases_def held_release held_drops held_drop)
  qed
qed

lemma commit_returns:
  assumes "lease_works env key uid d0" "holds (le_requestID env) key uid d0 a b s"
  shows "returned d0 (commit_rate env n s)"
proof -
  have f: "\<not> le_fails env 6" "\<not> le_fails env 7" "\<not> le_fails env 8" using assms(1) by (simp_all add: lease_works_def)
  obtain rco d where rel: "rc_ReleaseQuota False False False (ln_rate s) (ln_quota s) = (rco, d)" by fastforce
  with release_held [OF assms rel] f show ?thesis
    by (cases "ln_rate s") (auto simp: commit_rate_def rc_Commit_def rc_ReleaseQuota_def [of _ _ _ None] returned_def)
qed

lemma release_returns:
  assumes "lease_works env key uid d0" "holds (le_requestID env) key uid d0 a b s"
  shows "returned d0 (release_rate env s)"
proof -
  have f: "\<not> le_fails env 6" "\<not> le_fails env 7" "\<not> le_fails env 8" using assms(1) by (simp_all add: lease_works_def)
  obtain rco d where rel: "rc_ReleaseQuota False False False (ln_rate s) (ln_quota s) = (rco, d)" by fastforce
  with release_held [OF assms rel] f show ?thesis by (simp add: release_rate_def returned_def)
qed

lemma holds_frame [simp]:
  "holds req key uid d0 a b (s\<lparr>ln_pool := p\<rparr>) = holds req key uid d0 a b s"
  "holds req key uid d0 a b (s\<lparr>ln_cooldowns := c\<rparr>) = holds req key uid d0 a b s"
  "holds req key uid d0 a b (s\<lparr>ln_limiter := l\<rparr>) = holds req key uid d0 a b s"
  "holds req key uid d0 a b (s\<lparr>ln_replies := qs\<rparr>) = holds req key uid d0 a b s"
  "holds req key uid d0 a b (s\<lparr>ln_usage := us\<rparr>) = holds req key uid d0 a b s"
  "holds req key uid d0 a b (s\<lparr>ln_streams := n\<rparr>) = holds req key uid d0 a b s"
  by (cases "ln_rate s"; simp add: holds_def)+

lemma returned_frame [simp]:
  "returned d0 (s\<lparr>ln_pool := p\<rparr>) = returned d0 s" "returned d0 (s\<lparr>ln_cooldowns := c\<rparr>) = returned d0 s"
  "returned d0 (s\<lparr>ln_usage := us\<rparr>) = returned d0 s" "returned d0 (s\<lparr>ln_streams := n\<rparr>) = returned d0 s"
  "returned d0 (s\<lparr>ln_replies := qs\<rparr>) = returned d0 s" "returned d0 (add_reply r s) = returned d0 s"
  "returned d0 (reject rej s) = returned d0 s"
  by (simp_all add: returned_def add_reply_def reject_def split: option.split)

lemma holds_nothing: "holds req key uid d0 0 0 s \<Longrightarrow> returned d0 s"
  by (simp add: holds_def returned_def)

section \<open>Reserving\<close>

text \<open>\<open>fresh\<close>: nothing is reserved yet, whether or not the finalizer exists.\<close>

lemma new_rate_fields:
  "\<exists>rc. new_rate env auth n = Some rc \<and> rc_hasStore rc \<and> rc_requestID rc = le_requestID env \<and> rc_keyID rc = ac_KeyID auth \<and>
     rc_quotaReserved rc = 0 \<and> rc_userQuotaReserved rc = 0 \<and> rc_userID rc = ''''"
  by (simp add: new_rate_def SetRequestID_def NewRateCommit_def)

lemma own_empty [simp]: "rc_quotaReserved rc = 0 \<Longrightarrow> rc_userQuotaReserved rc = 0 \<Longrightarrow> own_leases until rc = []"
  by (simp add: own_leases_def)

lemma holds_new_rate:
  "holds (le_requestID env) (ac_KeyID auth) uid d0 0 0 s \<Longrightarrow>
   holds (le_requestID env) (ac_KeyID auth) uid d0 0 0 (s\<lparr>ln_rate := new_rate env auth n\<rparr>)"
  using new_rate_fields [of env auth n]
  by (auto simp: holds_def split: option.splits)

lemma route_holds:
  assumes "admit_route env auth ing s = (s', r)" "holds (le_requestID env) (ac_KeyID auth) uid d0 0 0 s"
  shows "holds (le_requestID env) (ac_KeyID auth) uid d0 0 0 s'"
  using assms by (auto simp: admit_route_def Let_def split: sum.splits if_splits intro: holds_new_rate)

lemma reserve_key_held:
  assumes "ReserveQuota f key est d = (d', Inr (n, ok))"
  shows "0 \<le> n \<and> (\<forall>k. held_key k d' = held_key k d + (if k = key then n else 0)) \<and> (\<forall>u. held_user u d' = held_user u d) \<and>
    leases_of req d' = leases_of req d \<and> (\<not> ok \<longrightarrow> n = 0)"
  using assms
  by (auto simp: ReserveQuota_def at_least_one_def held_key_def held_user_def set_key_def leases_of_def Let_def
      split: if_splits option.splits)

lemma reserve_user_held:
  assumes "ReserveUserQuota f uid est d = (d', Inr (n, ok))"
  shows "0 \<le> n \<and> (\<forall>k. held_key k d' = held_key k d) \<and> (\<forall>u. held_user u d' = held_user u d + (if u = uid then n else 0)) \<and>
    leases_of req d' = leases_of req d \<and> (\<not> ok \<longrightarrow> n = 0)"
  using assms
  by (auto simp: ReserveUserQuota_def at_least_one_def held_key_def held_user_def set_user_def leases_of_def Let_def
      split: if_splits option.splits)

text \<open>The leases after the finalizer has been told of a reservation.\<close>

lemma set_key_leases:
  assumes "rc_hasStore rc" "rc_requestID rc = req" "req \<noteq> ''''" "rc_keyID rc \<noteq> ''''" "rc_userQuotaReserved rc = 0"
    and "leases_of req d = []" "0 \<le> n" "SetKeyQuotaReserved False now n (Some rc) d = (rco, d')"
  shows "rco = Some (rc\<lparr>rc_quotaReserved := n\<rparr>) \<and> (\<exists>until. leases_of req d' = own_leases until (rc\<lparr>rc_quotaReserved := n\<rparr>)) \<and>
    (\<forall>k. held_key k d' = held_key k d) \<and> (\<forall>u. held_user u d' = held_user u d)"
  using assms
  by (auto simp: SetKeyQuotaReserved_def syncLease_def RecordQuotaReservationLease_def own_leases_def leases_put Let_def
      split: if_splits)

lemma set_user_leases:
  assumes "rc_hasStore rc" "rc_requestID rc = req" "req \<noteq> ''''" "rc_keyID rc \<noteq> ''''" "uid \<noteq> ''''"
    "rc_userQuotaReserved rc = 0" "0 \<le> rc_quotaReserved rc"
    and "leases_of req d = own_leases until0 rc" "0 \<le> n" "SetUserQuotaReserved False now uid n (Some rc) d = (rco, d')"
  shows "rco = Some (rc\<lparr>rc_userID := uid, rc_userQuotaReserved := n\<rparr>) \<and>
    (\<exists>until. leases_of req d' = own_leases until (rc\<lparr>rc_userID := uid, rc_userQuotaReserved := n\<rparr>)) \<and>
    (\<forall>k. held_key k d' = held_key k d) \<and> (\<forall>u. held_user u d' = held_user u d)"
proof (cases "rc_quotaReserved rc > 0")
  case True
  with assms show ?thesis
    by (auto simp: SetUserQuotaReserved_def syncLease_def RecordQuotaReservationLease_def own_leases_def leases_put lease_key_def Let_def
        split: if_splits)
next
  case False
  with assms(7) have "rc_quotaReserved rc = 0" by simp
  with assms show ?thesis
    by (auto simp: SetUserQuotaReserved_def syncLease_def RecordQuotaReservationLease_def own_leases_def leases_put lease_key_def Let_def
        split: if_splits)
qed

lemma key_quota_holds:
  assumes works: "lease_works env (ac_KeyID auth) uid d0"
    and h: "holds (le_requestID env) (ac_KeyID auth) uid d0 0 0 s"
    and a: "admit_key_quota env auth est s = (s', r)"
  shows "case r of Inl _ \<Rightarrow> returned d0 s' | Inr _ \<Rightarrow> \<exists>a. holds (le_requestID env) (ac_KeyID auth) uid d0 a 0 s'"
proof (cases "GetKeyQuota (le_fails env 0) (ac_KeyID auth) (ln_quota s)")
  case (Inl e)
  with a h show ?thesis by (auto simp: admit_key_quota_def)
next
  case (Inr g)
  obtain quota used found where g: "g = (quota, used, found)" by (cases g)
  show ?thesis
  proof (cases "quota > 0")
    case False
    with a h Inr g show ?thesis by (auto simp: admit_key_quota_def)
  next
    case True
    obtain d x where rq: "ReserveQuota (le_fails env 1) (ac_KeyID auth) est (ln_quota s) = (d, x)" by fastforce
    show ?thesis
    proof (cases x)
      case (Inl e)
      with rq have "d = ln_quota s"
        by (auto simp: ReserveQuota_def Let_def split: if_splits option.splits)
      with a h Inr g True rq Inl show ?thesis by (auto simp: admit_key_quota_def)
    next
      case Inr2: (Inr y)
      obtain n ok where y: "y = (n, ok)" by (cases y)
      let ?req = "le_requestID env" and ?key = "ac_KeyID auth"
      let ?s1 = "s\<lparr>ln_quota := d\<rparr>"
      note held = reserve_key_held [of "le_fails env 1" ?key est "ln_quota s" d n ok ?req, unfolded rq Inr2 y, simplified]
      show ?thesis
      proof (cases ok)
        case False
        have "holds ?req ?key uid d0 0 0 ?s1"
          using h held False by (cases "ln_rate s") (auto simp: holds_def)
        from commit_returns [OF works this] a Inr g True rq Inr2 y False show ?thesis
          by (auto simp: admit_key_quota_def Let_def)
      next
        case ok: True
        let ?s2 = "if ln_rate s = None then ?s1\<lparr>ln_rate := new_rate env auth 0\<rparr> else ?s1"
        obtain rc where rc: "ln_rate ?s2 = Some rc" "rc_hasStore rc" "rc_requestID rc = ?req" "rc_keyID rc = ?key"
          "rc_userQuotaReserved rc = 0"
          using h new_rate_fields [of env auth 0] by (cases "ln_rate s") (auto simp: holds_def)
        obtain rco d' where st: "SetKeyQuotaReserved False (le_clock env 2) n (Some rc) d = (rco, d')" by fastforce
        have l: "leases_of ?req d = []"
          using h held by (cases "ln_rate s") (auto simp: holds_def)
        have f: "\<not> le_fails env 2" "?req \<noteq> ''''" "?key \<noteq> ''''" using works by (simp_all add: lease_works_def)
        note sk = set_key_leases [OF rc(2,3) f(2) f(3) [folded rc(4)] rc(5) l _ st]
        have r: "r = Inr ()" and s': "ln_rate s' = rco" "ln_quota s' = d'"
          using a Inr g True rq Inr2 y ok rc(1) st f(1) by (cases "ln_rate s"; auto simp: admit_key_quota_def Let_def)+
        have "holds ?req ?key uid d0 n 0 s'"
          using h held sk rc unfolding holds_def s' by simp
        with r show ?thesis by auto
      qed
    qed
  qed
qed

lemma user_quota_holds:
  assumes works: "lease_works env (ac_KeyID auth) (ac_UserID auth) d0"
    and h: "holds (le_requestID env) (ac_KeyID auth) (ac_UserID auth) d0 a 0 s"
    and ad: "admit_user_quota env auth est s = (s', r)"
  shows "case r of Inl _ \<Rightarrow> returned d0 s' | Inr _ \<Rightarrow> \<exists>b. holds (le_requestID env) (ac_KeyID auth) (ac_UserID auth) d0 a b s'"
proof (cases "sn_UsersByID (le_snap env 2) (ac_UserID auth)")
  case None
  with ad h show ?thesis by (auto simp: admit_user_quota_def)
next
  case (Some u)
  let ?req = "le_requestID env" and ?key = "ac_KeyID auth" and ?uid = "ac_UserID auth"
  show ?thesis
  proof (cases "us_QuotaTokens u > 0")
    case False
    with ad h Some show ?thesis by (auto simp: admit_user_quota_def)
  next
    case True
    obtain d x where rq: "ReserveUserQuota (le_fails env 3) ?uid est (ln_quota s) = (d, x)" by fastforce
    show ?thesis
    proof (cases x)
      case (Inl e)
      with rq have "d = ln_quota s"
        by (auto simp: ReserveUserQuota_def Let_def split: if_splits option.splits)
      with ad h Some True rq Inl show ?thesis by (auto simp: admit_user_quota_def)
    next
      case (Inr y)
      obtain n ok where y: "y = (n, ok)" by (cases y)
      let ?s1 = "s\<lparr>ln_quota := d\<rparr>"
      note held = reserve_user_held [of "le_fails env 3" ?uid est "ln_quota s" d n ok ?req, unfolded rq Inr y, simplified]
      show ?thesis
      proof (cases ok)
        case False
        have "holds ?req ?key ?uid d0 a 0 ?s1"
          using h held False by (cases "ln_rate s") (auto simp: holds_def)
        from commit_returns [OF works this] ad Some True rq Inr y False show ?thesis
          by (auto simp: admit_user_quota_def Let_def)
      next
        case ok: True
        let ?s2 = "if ln_rate s = None then ?s1\<lparr>ln_rate := new_rate env auth 0\<rparr> else ?s1"
        obtain rc until where rc: "ln_rate ?s2 = Some rc" "rc_hasStore rc" "rc_requestID rc = ?req" "rc_keyID rc = ?key"
          "rc_userQuotaReserved rc = 0" "rc_quotaReserved rc = a" "leases_of ?req d = own_leases until rc"
          using h held new_rate_fields [of env auth 0] by (cases "ln_rate s") (auto simp: holds_def)
        have a: "0 \<le> a" using h by (simp add: holds_def)
        obtain rco d' where st: "SetUserQuotaReserved False (le_clock env 5) ?uid n (Some rc) d = (rco, d')" by fastforce
        have f: "\<not> le_fails env 4" "?req \<noteq> ''''" "?key \<noteq> ''''" "?uid \<noteq> ''''" using works by (simp_all add: lease_works_def)
        note su = set_user_leases [OF rc(2,3) f(2) f(3) [folded rc(4)] f(4) rc(5) a [folded rc(6)] rc(7) _ st]
        have r: "r = Inr ()" and s': "ln_rate s' = rco" "ln_quota s' = d'"
          using ad Some True rq Inr y ok rc(1) st f(1) by (cases "ln_rate s"; auto simp: admit_user_quota_def Let_def)+
        have "holds ?req ?key ?uid d0 a n s'"
          using h held su rc unfolding holds_def s' by simp
        with r show ?thesis by auto
      qed
    qed
  qed
qed

lemma tpm_holds:
  assumes works: "lease_works env (ac_KeyID auth) uid d0" and h: "holds (le_requestID env) (ac_KeyID auth) uid d0 a b s"
    and ad: "admit_tpm env auth est s = (s', r)"
  shows "case r of Inl _ \<Rightarrow> returned d0 s' | Inr _ \<Rightarrow> holds (le_requestID env) (ac_KeyID auth) uid d0 a b s'"
proof -
  obtain lm ok retry where t: "ReserveTPM (ac_KeyID auth) (ac_TPMLimit auth) est (le_clock env 3) (ln_limiter s) = (lm, ok, retry)"
    by (metis prod.collapse)
  have "holds (le_requestID env) (ac_KeyID auth) uid d0 a b (s\<lparr>ln_limiter := lm\<rparr>)" using h by simp
  note rel = release_returns [OF works this]
  have "holds (le_requestID env) (ac_KeyID auth) uid d0 a b (s\<lparr>ln_limiter := lm, ln_rate := setTPMReserved est (ln_rate s)\<rparr>)"
    using h by (cases "ln_rate s") (auto simp: holds_def setTPMReserved_def own_leases_def)
  with rel ad t h show ?thesis
    by (auto simp: admit_tpm_def Let_def split: if_splits)
qed

text \<open>The remaining steps reserve nothing.\<close>

lemma model_targets_holds:
  assumes works: "lease_works env (ac_KeyID auth) uid d0" and h: "holds (le_requestID env) (ac_KeyID auth) uid d0 a b s"
  shows "admit_model env auth rt s = (s', r) \<Longrightarrow>
      case r of Inl _ \<Rightarrow> returned d0 s' | Inr _ \<Rightarrow> holds (le_requestID env) (ac_KeyID auth) uid d0 a b s'"
    and "admit_targets env ing res s = (s', r') \<Longrightarrow>
      case r' of Inl _ \<Rightarrow> returned d0 s' | Inr _ \<Rightarrow> holds (le_requestID env) (ac_KeyID auth) uid d0 a b s'"
  using h commit_returns [OF works h] by (auto simp: admit_model_def admit_targets_def Let_def split: if_splits)

lemma reserve_holds:
  assumes works: "lease_works env (ac_KeyID auth) (ac_UserID auth) d0"
    and h: "holds (le_requestID env) (ac_KeyID auth) (ac_UserID auth) d0 0 0 s"
    and a: "admit_reserve env auth ing res est s = (s', r)"
  shows "case r of Inl _ \<Rightarrow> returned d0 s'
    | Inr _ \<Rightarrow> \<exists>a b. holds (le_requestID env) (ac_KeyID auth) (ac_UserID auth) d0 a b s'"
proof -
  obtain s1 r1 where k: "admit_key_quota env auth est s = (s1, r1)" by fastforce
  obtain s2 r2 where u: "admit_user_quota env auth est s1 = (s2, r2)" by fastforce
  obtain s3 r3 where t: "admit_tpm env auth est s2 = (s3, r3)" by fastforce
  obtain s4 r4 where m: "admit_model env auth (rs_Route res) s3 = (s4, r4)" by fastforce
  obtain s5 r5 where g: "admit_targets env ing res s4 = (s5, r5)" by fastforce
  note kh = key_quota_holds [OF works h k]
  show ?thesis
  proof (cases r1)
    case (Inl e)
    with a kh show ?thesis by (auto simp: admit_reserve_def k)
  next
    case r1: (Inr e1)
    with kh obtain x where "holds (le_requestID env) (ac_KeyID auth) (ac_UserID auth) d0 x 0 s1" by auto
    note uh = user_quota_holds [OF works this u]
    show ?thesis
    proof (cases r2)
      case (Inl e)
      with a uh r1 show ?thesis by (auto simp: admit_reserve_def k u)
    next
      case r2: (Inr e2)
      with uh obtain y where "holds (le_requestID env) (ac_KeyID auth) (ac_UserID auth) d0 x y s2" by auto
      note th = tpm_holds [OF works this t]
      show ?thesis
      proof (cases r3)
        case (Inl e)
        with a th r1 r2 show ?thesis by (auto simp: admit_reserve_def k u t)
      next
        case r3: (Inr e3)
        with th have h3: "holds (le_requestID env) (ac_KeyID auth) (ac_UserID auth) d0 x y s3" by simp
        note mh = model_targets_holds(1) [OF works h3 m]
        show ?thesis
        proof (cases r4)
          case (Inl e)
          with a mh r1 r2 r3 show ?thesis by (auto simp: admit_reserve_def k u t m)
        next
          case r4: (Inr e4)
          with mh have h4: "holds (le_requestID env) (ac_KeyID auth) (ac_UserID auth) d0 x y s4" by simp
          note gh = model_targets_holds(2) [OF works h4 g]
          with a commit_returns [OF works h4] r1 r2 r3 r4 show ?thesis
            by (auto simp: admit_reserve_def k u t m g Let_def split: option.splits sum.splits)
        qed
      qed
    qed
  qed
qed

section \<open>Every end returns the reservations\<close>

definition within_budget :: "'c upstream \<Rightarrow> bool" where
  "within_budget up \<longleftrightarrow> CtxDeadline \<notin> contexts up"

lemma unwritten_in_time:
  assumes "unwritten up out" "within_budget up"
  shows "\<not> ld_Committed (LaneDecision out)"
proof -
  from assms(1) consider (err) ctx err where "ctx \<in> contexts up" "out = OutcomeFromErrCtx ctx err" | (plain) "plain_failure out"
    by (auto simp: unwritten_def)
  then show ?thesis
  proof cases
    case err
    with assms(2) have "ctx \<noteq> CtxDeadline" by (auto simp: within_budget_def)
    with err budget_expiry_commits [of ctx err] show ?thesis by simp
  qed (simp add: not_committed_plain)
qed

lemma returned_written:
  assumes "lease_works env key uid d0" "holds (le_requestID env) key uid d0 a b s" "written env qs row charge s s'"
  shows "returned d0 s'"
proof -
  have "holds (le_requestID env) key uid d0 a b (s\<lparr>ln_replies := ln_replies s @ qs, ln_usage := ln_usage s @ [row]\<rparr>)"
    using assms(2) by simp
  from commit_returns [OF assms(1) this] release_returns [OF assms(1) this] assms(3) show ?thesis
    by (auto simp: written_def Let_def split: option.splits)
qed

lemma finish_quota:
  fixes s :: "'c lane"
  assumes "holds req key uid d0 a b s"
  shows "\<exists>s1 :: 'c lane. holds req key uid d0 a b s1 \<and>
    ln_quota (lane_finish env auth ing ctx v s) = ln_quota (commit_rate env 0 s1)"
proof -
  define out where "out = WithRequestContext ctx (lv_out v)"
  obtain st code where "final_status out = (st, code)" by fastforce
  then have "ln_quota (lane_finish env auth ing ctx v s) =
      ln_quota (commit_rate env 0 (if ld_DownstreamClient (LaneDecision out) then s
         else s\<lparr>ln_replies := ln_replies s @ [ErrorReply st code None]\<rparr>))"
    by (simp add: lane_finish_def out_def Let_def)
  then show ?thesis
    by (intro exI [of _ "if ld_DownstreamClient (LaneDecision out) then s
         else s\<lparr>ln_replies := ln_replies s @ [ErrorReply st code None]\<rparr>"]) (simp add: assms)
qed

interpretation lane_reservations: lane_contract env "attempt_for env up auth ing" auth ing
  "\<lambda>s. lease_works env key uid d0 \<and> within_budget up \<and> holds (le_requestID env) key uid d0 a b s" "returned d0" failed
  for env up auth ing key uid d0 a b
proof
  fix s s' :: "'a lane" and i cand client tr out
  assume J: "lease_works env key uid d0 \<and> within_budget up \<and> holds (le_requestID env) key uid d0 a b s"
    and at: "attempt_for env up auth ing i cand client tr s = (s', out)"
  show "returned d0 s'" if "ld_Committed (LaneDecision out)"
    using at
  proof (cases rule: call_cases)
    case unwritten
    with unwritten_in_time [of up out] J that show ?thesis by simp
  next
    case written
    with J show ?thesis by (blast intro: returned_written)
  qed
  show "(lease_works env key uid d0 \<and> within_budget up \<and> holds (le_requestID env) key uid d0 a b s') \<and> failed out"
    if "\<not> ld_Committed (LaneDecision out)"
    using at that J by (cases rule: call_cases) (auto simp: unwritten_def intro: failed_plain)
next
  fix s :: "'a lane" and v :: lane_vars and j
  assume J: "lease_works env key uid d0 \<and> within_budget up \<and> holds (le_requestID env) key uid d0 a b s"
  obtain s1 :: "'a lane" where s1: "holds (le_requestID env) key uid d0 a b s1"
    "ln_quota (lane_finish env auth ing (le_ctx env j) v s) = ln_quota (commit_rate env 0 s1)"
    using finish_quota [OF conjunct2 [OF conjunct2 [OF J]], of env auth ing "le_ctx env j" v] by blast
  with commit_returns [of env key uid d0 a b s1 0] J show "returned d0 (lane_finish env auth ing (le_ctx env j) v s)"
    by (simp add: returned_def)
qed (auto intro: commit_returns)

text \<open>The request is a new one: it has no finalizer and no lease yet.\<close>

definition new_request :: "lane_env \<Rightarrow> 'c lane \<Rightarrow> bool" where
  "new_request env s \<longleftrightarrow> ln_rate s = None \<and> leases_of (le_requestID env) (ln_quota s) = []"

lemma serve_returns:
  assumes works: "lease_works env (ac_KeyID auth) (ac_UserID auth) d0" "within_budget up"
    and h: "holds (le_requestID env) (ac_KeyID auth) (ac_UserID auth) d0 0 0 s"
  shows "returned d0 (serve env up auth ing s)"
proof -
  obtain s1 r1 where r: "admit_route env auth ing s = (s1, r1)" by fastforce
  note h1 = route_holds [OF r h]
  show ?thesis
  proof (cases r1)
    case (Inl rej)
    with r holds_nothing [OF h1] show ?thesis by (simp add: serve_def)
  next
    case (Inr x)
    obtain res est where x: "x = (res, est)" by (cases x)
    obtain s2 r2 where v: "admit_reserve env auth ing res est s1 = (s2, r2)" by fastforce
    note h2 = reserve_holds [OF works(1) h1 v]
    show ?thesis
    proof (cases r2)
      case (Inl rej)
      with r v Inr x h2 show ?thesis by (simp add: serve_def)
    next
      case Inr2: (Inr active)
      with h2 obtain a b where "holds (le_requestID env) (ac_KeyID auth) (ac_UserID auth) d0 a b s2" by auto
      with works have "lease_works env (ac_KeyID auth) (ac_UserID auth) d0 \<and> within_budget up \<and>
          holds (le_requestID env) (ac_KeyID auth) (ac_UserID auth) d0 a b s2" by simp
      then have "returned d0 (run_lane env (attempt_for env up auth ing) (up_Protocol up) auth ing res active s2)"
        by (rule lane_reservations.lane)
      with r v Inr Inr2 x show ?thesis by (simp add: serve_def)
    qed
  qed
qed


lemma demo_authenticates:
  "Authenticate (le_sha demo_env) (le_snap demo_env 0) (le_clock demo_env 0) (le_headers demo_env ''Authorization'')
     (le_headers demo_env ''X-Api-Key'') (le_addr demo_env) = Inr auth \<Longrightarrow> ac_KeyID auth = ''k'' \<and> ac_UserID auth = ''ann''"
  by (auto simp: Authenticate_def extractKey_def demo_env_def demo_snapshot_def AllowsIP_def IsActive_def Let_def split: if_splits)


end
