(* ===== verification/Usage.thy ===== *)
theory Usage
  imports Settlement Admission
begin

text \<open>
  \<^verbatim>\<open>internal/store/usage_dao.go\<close>: the table of usage records. Inserting a record freezes its cost at the prices of
  that moment and runs the triggers of \<^verbatim>\<open>internal/store/schema.go\<close> (the totals, the tokens used by the key and by the
  user). The two repairs of the maintenance task are here too: costs that could not be computed are computed later,
  and records whose charge was lost are charged. A statement of the store is one step; an oracle tells
  whether it fails, and whether a commit that was reported as failed took place after all.
\<close>

section \<open>The tables\<close>

text \<open>The Go struct extends what the handler of the requests fills in.\<close>

record UsageRecord = usage_record +
  ug_ID :: ident
  ug_Ts :: int
  ug_KeyName :: string
  ug_LatencyMs :: int
  ug_TTFBMs :: int
  ug_RequestIP :: string
  ug_Effort :: string
  ug_PreviousCost :: rat

record stored_usage =
  su_record :: UsageRecord
  su_cost :: rat
  su_chargeAttempts :: int
  su_chargeNextAt :: int
  su_chargeLastError :: string

record usage_totals =
  ut_requests :: int
  ut_success :: int
  ut_errors :: int
  ut_tokens :: token_usage
  ut_cost :: rat
  ut_latency :: int
  ut_firstRecordAt :: int

record store =
  st_usage :: "stored_usage list"
  st_totals :: usage_totals
  st_quota :: quota_db
  st_ledger :: ledger
  st_models :: "ident \<times> string \<rightharpoonup> prices"

datatype usage_error = UniqueViolation | WriteError

text \<open>What becomes of a transaction: it commits, it is rolled back, or it commits and reports an error.\<close>

datatype tx_result = Commits | Fails | CommitsUnseen

definition row_id :: "stored_usage \<Rightarrow> ident" where
  "row_id r = ug_ID (su_record r)"

definition row_key :: "stored_usage \<Rightarrow> ident \<times> ident" where
  "row_key r = (ug_RequestID (su_record r), ug_UserID (su_record r))"

definition find_row :: "ident \<Rightarrow> store \<Rightarrow> stored_usage option" where
  "find_row i st = find (\<lambda>r. row_id r = i) (st_usage st)"

definition update_row :: "ident \<Rightarrow> (stored_usage \<Rightarrow> stored_usage) \<Rightarrow> store \<Rightarrow> store" where
  "update_row i f st = st\<lparr>st_usage := map (\<lambda>r. if row_id r = i then f r else r) (st_usage st)\<rparr>"

section \<open>Inserting\<close>

definition nonneg_tokens :: "token_usage \<Rightarrow> token_usage" where
  "nonneg_tokens u =
     \<lparr>tu_InputTokens = max 0 (tu_InputTokens u), tu_OutputTokens = max 0 (tu_OutputTokens u),
      tu_TotalTokens = max 0 (tu_TotalTokens u), tu_ReasoningTokens = max 0 (tu_ReasoningTokens u),
      tu_CachedInputTokens = max 0 (tu_CachedInputTokens u), tu_CachedCreationTokens = max 0 (tu_CachedCreationTokens u)\<rparr>"

definition usageStateCostPending :: string where
  "usageStateCostPending = ''cost_pending''"

text \<open>\<open>(cost, pending)\<close>: a model without a price costs nothing, a failed lookup leaves the cost to be computed later.\<close>

definition freezeUsageCost :: "bool \<Rightarrow> store \<Rightarrow> UsageRecord \<Rightarrow> rat \<times> bool" where
  "freezeUsageCost lookupFails st r =
     (if lookupFails then (0, True)
      else (case st_models st (ug_ProviderID r, ug_UpstreamModel r) of
              None \<Rightarrow> (0, False)
            | Some p \<Rightarrow> (let u = ug_Tokens r in
                (PriceUsageWithPrices p (of_int (tu_InputTokens u)) (of_int (tu_CachedInputTokens u))
                   (of_int (tu_CachedCreationTokens u)) (of_int (tu_OutputTokens u)), False))))"

definition plus_tokens :: "token_usage \<Rightarrow> token_usage \<Rightarrow> token_usage" where
  "plus_tokens a b =
     \<lparr>tu_InputTokens = tu_InputTokens a + tu_InputTokens b, tu_OutputTokens = tu_OutputTokens a + tu_OutputTokens b,
      tu_TotalTokens = tu_TotalTokens a + tu_TotalTokens b, tu_ReasoningTokens = tu_ReasoningTokens a + tu_ReasoningTokens b,
      tu_CachedInputTokens = tu_CachedInputTokens a + tu_CachedInputTokens b,
      tu_CachedCreationTokens = tu_CachedCreationTokens a + tu_CachedCreationTokens b\<rparr>"

definition count_totals :: "UsageRecord \<Rightarrow> rat \<Rightarrow> usage_totals \<Rightarrow> usage_totals" where
  "count_totals r cost t =
     \<lparr>ut_requests = ut_requests t + 1,
      ut_success = ut_success t + (if ug_Status r = UsageStatusOK then 1 else 0),
      ut_errors = ut_errors t + (if ug_Status r \<notin> {UsageStatusOK, UsageStatusCanceled} then 1 else 0),
      ut_tokens = plus_tokens (ut_tokens t) (ug_Tokens r), ut_cost = fadd (ut_cost t) cost,
      ut_latency = ut_latency t + ug_LatencyMs r,
      ut_firstRecordAt = (if ut_firstRecordAt t = 0 then ug_Ts r else min (ut_firstRecordAt t) (ug_Ts r))\<rparr>"

text \<open>The arguments of one row of the \<open>INSERT\<close>, and the row with its triggers.\<close>

definition usageInsertArgs :: "UsageRecord \<Rightarrow> rat \<Rightarrow> bool \<Rightarrow> stored_usage" where
  "usageInsertArgs r cost costPending =
     \<lparr>su_record = r\<lparr>ug_UsageState := (if costPending then usageStateCostPending else ug_UsageState r), ug_PreviousCost := 0\<rparr>,
      su_cost = cost, su_chargeAttempts = 0, su_chargeNextAt = 0, su_chargeLastError = ''''\<rparr>"

definition insert_row :: "stored_usage \<Rightarrow> store \<Rightarrow> store" where
  "insert_row row st =
     (let r = su_record row in
      st\<lparr>st_usage := st_usage st @ [row], st_totals := count_totals r (su_cost row) (st_totals st),
         st_quota := count_usage (ug_AccessKeyID r) (ug_UserID r) (tu_TotalTokens (ug_Tokens r)) (st_quota st)\<rparr>)"

text \<open>The clamping is a change of the caller's record, which is therefore a result; the time is not.\<close>

definition CreateUsageRecordWithCost ::
  "tx_result \<Rightarrow> bool \<Rightarrow> int \<Rightarrow> UsageRecord \<Rightarrow> store \<Rightarrow> store \<times> UsageRecord \<times> (usage_error + rat)" where
  "CreateUsageRecordWithCost w lookupFails now r0 st =
     (let ts = ug_Ts r0;
          r = r0\<lparr>ug_Tokens := nonneg_tokens (ug_Tokens r0)\<rparr>;
          ts = (if ts = 0 then now else ts);
          (cost, costPending) = freezeUsageCost lookupFails st r;
          row = usageInsertArgs (r\<lparr>ug_Ts := ts\<rparr>) cost costPending
      in if w = Fails then (st, r, Inl WriteError)
         else if ug_ID r \<in> row_id ` set (st_usage st) then (st, r, Inl UniqueViolation)
         else if w = CommitsUnseen then (insert_row row st, r, Inl WriteError)
         else (insert_row row st, r, Inr cost))"

definition batchComputeCosts ::
  "(nat \<Rightarrow> bool) \<Rightarrow> int \<Rightarrow> store \<Rightarrow> UsageRecord list \<Rightarrow> UsageRecord list \<times> (rat \<times> bool) list" where
  "batchComputeCosts lookupFails now st recs =
     (let recs = map (\<lambda>r. r\<lparr>ug_Tokens := nonneg_tokens (ug_Tokens r), ug_Ts := (if ug_Ts r = 0 then now else ug_Ts r)\<rparr>) recs
      in (recs, map (\<lambda>(i, r). freezeUsageCost (lookupFails i) st r) (enumerate 0 recs)))"

definition CreateUsageRecordsBatched ::
  "tx_result \<Rightarrow> (nat \<Rightarrow> bool) \<Rightarrow> int \<Rightarrow> UsageRecord list \<Rightarrow> store \<Rightarrow> store \<times> UsageRecord list \<times> (usage_error + rat list)" where
  "CreateUsageRecordsBatched w lookupFails now recs st =
     (case recs of
        [] \<Rightarrow> (st, [], Inr [])
      | [r] \<Rightarrow> (case CreateUsageRecordWithCost w (lookupFails 0) now r st of
                  (st, r, Inl e) \<Rightarrow> (st, [r], Inl e) | (st, r, Inr cost) \<Rightarrow> (st, [r], Inr [cost]))
      | _ \<Rightarrow>
         (let (recs, costs) = batchComputeCosts lookupFails now st recs;
              rows = map (\<lambda>(r, cost, costPending). usageInsertArgs r cost costPending) (zip recs costs);
              ids = map row_id (st_usage st @ rows)
          in if w = Fails then (st, recs, Inl WriteError)
             else if \<not> distinct ids then (st, recs, Inl UniqueViolation)
             else if w = CommitsUnseen then (fold insert_row rows st, recs, Inl WriteError)
             else (fold insert_row rows st, recs, Inr (map fst costs))))"

text \<open>What the recorder reads back of a record that is there already; \<open>readFails\<close> and a missing row yield zero.\<close>

definition stored_cost :: "bool \<Rightarrow> ident \<Rightarrow> store \<Rightarrow> rat" where
  "stored_cost readFails i st =
     (if i = '''' \<or> readFails then 0 else (case find_row i st of None \<Rightarrow> 0 | Some r \<Rightarrow> su_cost r))"

section \<open>Charges that were lost\<close>

record UnchargedUsage =
  uu_RecordID :: ident
  uu_UserID :: ident
  uu_RequestID :: ident
  uu_CostYuan :: rat

definition billable :: "stored_usage \<Rightarrow> bool" where
  "billable r \<longleftrightarrow> ug_Status (su_record r) = UsageStatusOK \<and> su_cost r > 0 \<and> ug_RequestID (su_record r) \<noteq> ''''"

definition uncollected :: "ledger \<Rightarrow> stored_usage \<Rightarrow> bool" where
  "uncollected l r \<longleftrightarrow> billable r \<and> lg_charges l (row_key r) = None \<and> row_key r \<notin> pending_key ` set (lg_pending l)"

definition uncharged_of :: "stored_usage \<Rightarrow> UnchargedUsage" where
  "uncharged_of r = \<lparr>uu_RecordID = row_id r, uu_UserID = ug_UserID (su_record r), uu_RequestID = ug_RequestID (su_record r),
     uu_CostYuan = su_cost r\<rparr>"

definition FindUnchargedUsage :: "int \<Rightarrow> int \<Rightarrow> store \<Rightarrow> UnchargedUsage list" where
  "FindUnchargedUsage now limit0 st =
     (let lim = (if limit0 \<le> 0 then 100 else limit0) in
      map uncharged_of (take (nat lim) (sort_key (\<lambda>r. (su_chargeNextAt r, ug_Ts (su_record r), row_id r))
        (filter (\<lambda>r. uncollected (st_ledger st) r \<and> su_chargeNextAt r \<le> now) (st_usage st)))))"

definition noteChargeRetry :: "bool \<Rightarrow> int \<Rightarrow> ident \<Rightarrow> string \<Rightarrow> int \<Rightarrow> store \<Rightarrow> store \<times> bool" where
  "noteChargeRetry dbFails now recordID reason delayMs st =
     (if recordID = '''' then (st, True)
      else if dbFails then (st, False)
      else (update_row recordID (\<lambda>r. r\<lparr>su_chargeAttempts := su_chargeAttempts r + 1, su_chargeNextAt := now + delayMs,
              su_chargeLastError := reason\<rparr>) st, True))"

datatype reconcile_outcome = Ignored | Charged | Deferred | ReconcileFailed | ReconcileError

text \<open>\<open>chargeFails\<close> is the technical failure of the charge, \<open>noteFails\<close> that of the statement after it.\<close>

definition ReconcileOneUnchargedUsage ::
  "bool \<Rightarrow> bool \<Rightarrow> ident \<Rightarrow> int \<Rightarrow> UnchargedUsage \<Rightarrow> store \<Rightarrow> store \<times> reconcile_outcome" where
  "ReconcileOneUnchargedUsage chargeFails noteFails gen now u st =
     (if uu_UserID u = '''' \<or> uu_RequestID u = '''' \<or> uu_CostYuan u \<le> 0 then (st, Ignored)
      else (case ChargeBalance chargeFails gen now (uu_UserID u) (uu_CostYuan u) (uu_RequestID u) (st_ledger st) of
        (l, res) \<Rightarrow>
          (let st = st\<lparr>st_ledger := l\<rparr> in
           case res of
             Inl ErrInsufficientBalance \<Rightarrow>
               (case noteChargeRetry noteFails now (uu_RecordID u) ''insufficient_balance'' 21600000 st of
                  (st, ok) \<Rightarrow> (st, if ok then Deferred else ReconcileError))
           | Inl e \<Rightarrow>
               (case noteChargeRetry noteFails now (uu_RecordID u) ''charge failed'' 600000 st of
                  (st, ok) \<Rightarrow> (st, if ok then ReconcileFailed else ReconcileError))
           | Inr _ \<Rightarrow>
               if noteFails then (st, ReconcileError)
               else (update_row (uu_RecordID u) (\<lambda>r. r\<lparr>su_chargeAttempts := su_chargeAttempts r + 1,
                       su_chargeNextAt := 0, su_chargeLastError := ''''\<rparr>) st, Charged))))"

record reconcile_oracle =
  ro_chargeFails :: "nat \<Rightarrow> bool"
  ro_noteFails :: "nat \<Rightarrow> bool"
  ro_gen :: "nat \<Rightarrow> ident"
  ro_now :: int

record ReconcileResult =
  rr_Charged :: int
  rr_Deferred :: int
  rr_Failed :: int

text \<open>A result with an error is counted as failed, as the outcome \<open>failed\<close> is.\<close>

definition count_outcome :: "reconcile_outcome \<Rightarrow> ReconcileResult \<Rightarrow> ReconcileResult" where
  "count_outcome oc res =
     (case oc of Ignored \<Rightarrow> res | Charged \<Rightarrow> res\<lparr>rr_Charged := rr_Charged res + 1\<rparr>
      | Deferred \<Rightarrow> res\<lparr>rr_Deferred := rr_Deferred res + 1\<rparr>
      | ReconcileFailed \<Rightarrow> res\<lparr>rr_Failed := rr_Failed res + 1\<rparr>
      | ReconcileError \<Rightarrow> res\<lparr>rr_Failed := rr_Failed res + 1\<rparr>)"

fun reconcile_loop :: "reconcile_oracle \<Rightarrow> nat \<Rightarrow> UnchargedUsage list \<Rightarrow> store \<times> ReconcileResult \<Rightarrow> store \<times> ReconcileResult" where
  "reconcile_loop ro i [] (st, res) = (st, res)"
| "reconcile_loop ro i (u # us) (st, res) =
     (case ReconcileOneUnchargedUsage (ro_chargeFails ro i) (ro_noteFails ro i) (ro_gen ro i) (ro_now ro) u st of
        (st, oc) \<Rightarrow> reconcile_loop ro (i + 1) us (st, count_outcome oc res))"

definition ReconcileUnchargedUsage :: "reconcile_oracle \<Rightarrow> int \<Rightarrow> store \<Rightarrow> store \<times> ReconcileResult" where
  "ReconcileUnchargedUsage ro maxRows st =
     reconcile_loop ro 0 (FindUnchargedUsage (ro_now ro) maxRows st) (st, \<lparr>rr_Charged = 0, rr_Deferred = 0, rr_Failed = 0\<rparr>)"

section \<open>Costs that could not be computed\<close>

definition recomputeChargeKey :: "ident \<Rightarrow> rat \<Rightarrow> ident" where
  "recomputeChargeKey recordID costYuan =
     (if recordID = '''' then '''' else ''recompute:'' @ recordID @ '':'' @ dec (nat (YuanToMicros costYuan)))"

text \<open>The update of the row with its trigger.\<close>

definition set_cost :: "ident \<Rightarrow> rat \<Rightarrow> rat \<Rightarrow> string \<Rightarrow> store \<Rightarrow> store" where
  "set_cost recordID old cost state st =
     (let st = update_row recordID (\<lambda>r. r\<lparr>su_record := (su_record r)\<lparr>ug_UsageState := state\<rparr>, su_cost := cost\<rparr>) st in
      if old \<noteq> cost then st\<lparr>st_totals := (st_totals st)\<lparr>ut_cost := fadd (ut_cost (st_totals st)) (fsub cost old)\<rparr>\<rparr> else st)"

record recompute_oracle =
  rp_readFails :: bool
  rp_lookupFails :: bool
  rp_txFails :: bool
  rp_noteFails :: bool
  rp_now :: int

text \<open>\<open>Inr False\<close>: nothing was changed, the record is gone or its user cannot pay.\<close>

definition RecomputeCost :: "recompute_oracle \<Rightarrow> ident \<Rightarrow> store \<Rightarrow> store \<times> (usage_error + bool)" where
  "RecomputeCost ro recordID st0 =
     (if rp_readFails ro then (st0, Inl WriteError)
      else (case find_row recordID st0 of
        None \<Rightarrow> (st0, Inr False)
      | Some row \<Rightarrow>
          (let r = su_record row;
               (cost, costPending) = freezeUsageCost (rp_lookupFails ro) st0 r;
               state = (if costPending then usageStateCostPending else ''reported'') in
           if rp_txFails ro then (st0, Inl WriteError)
           else
             (let st = set_cost recordID (su_cost row) cost state st0;
                  delta = fsub cost (su_cost row) in
              if delta > 0 \<and> ug_UserID r \<noteq> '''' then
                (case chargeBalanceTx (ug_UserID r) delta (recomputeChargeKey recordID cost) (st_ledger st) of
                   (_, Inl ErrInsufficientBalance) \<Rightarrow>
                     (case noteChargeRetry (rp_noteFails ro) (rp_now ro) recordID ''insufficient_balance'' 21600000 st0 of
                        (st, ok) \<Rightarrow> (st, if ok then Inr False else Inl WriteError))
                 | (l, Inl _) \<Rightarrow> (st\<lparr>st_ledger := l\<rparr>, Inr True)
                 | (l, Inr _) \<Rightarrow> (st\<lparr>st_ledger := ensureUsageCompletionTx (ug_RequestID r) (ug_UserID r) l\<rparr>, Inr True))
              else (st, Inr True)))))"

definition pending_costs :: "int \<Rightarrow> int \<Rightarrow> store \<Rightarrow> ident list" where
  "pending_costs now limit0 st =
     map row_id (take (nat (if limit0 \<le> 0 then 500 else limit0))
       (sort_key (\<lambda>r. (su_chargeNextAt r, ug_Ts (su_record r), row_id r))
         (filter (\<lambda>r. ug_UsageState (su_record r) = usageStateCostPending \<and> ug_Status (su_record r) = UsageStatusOK \<and>
             su_chargeNextAt r \<le> now) (st_usage st))))"

text \<open>A record that cannot be recomputed does not stop the others. The result is \<open>(fixed, remaining)\<close>.\<close>

fun recompute_loop :: "(nat \<Rightarrow> recompute_oracle) \<Rightarrow> nat \<Rightarrow> ident list \<Rightarrow> store \<times> int \<Rightarrow> store \<times> int" where
  "recompute_loop ros i [] (st, fixed) = (st, fixed)"
| "recompute_loop ros i (recordID # ids) (st, fixed) =
     (case RecomputeCost (ros i) recordID st of
        (st, Inr True) \<Rightarrow> recompute_loop ros (i + 1) ids (st, fixed + 1)
      | (st, _) \<Rightarrow> recompute_loop ros (i + 1) ids (st, fixed))"

definition RecomputePendingCosts ::
  "bool \<Rightarrow> (nat \<Rightarrow> recompute_oracle) \<Rightarrow> int \<Rightarrow> int \<Rightarrow> store \<Rightarrow> store \<times> (usage_error + (int \<times> bool))" where
  "RecomputePendingCosts scanFails ros now limit0 st =
     (if scanFails then (st, Inl WriteError)
      else (let ids = pending_costs now limit0 st in
        if ids = [] then (st, Inr (0, False))
        else (case recompute_loop ros 0 ids (st, 0) of
          (st, fixed) \<Rightarrow> (st, Inr (fixed, int (length ids) \<ge> (if limit0 \<le> 0 then 500 else limit0))))))"

section \<open>A repair that repairs nothing\<close>

text \<open>When the price cannot be looked up this time either, the record is still pending but counts as fixed.\<close>

theorem still_pending_counted_as_fixed:
  assumes "\<not> rp_readFails ro" "\<not> rp_txFails ro" "rp_lookupFails ro" "find_row i st = Some row" "su_cost row = 0"
  shows "RecomputeCost ro i st = (set_cost i 0 0 usageStateCostPending st, Inr True)"
proof -
  have "fsub 0 0 = 0" using f64_of_int [of 0] by (simp add: fsub_def)
  with assms show ?thesis by (simp add: RecomputeCost_def freezeUsageCost_def Let_def)
qed

end
