(* ===== verification/Recorder.thy ===== *)
theory Recorder
  imports Usage
begin

text \<open>
  \<^verbatim>\<open>internal/usage/recorder.go\<close>: the recorder that stores usage records and charges them behind the requests'
  backs. Requests put a record with a callback into a bounded queue; one worker takes what is there, writes it in one
  transaction, charges it and runs the callbacks, and keeps a batch that failed until it gets through. The state is
  what the goroutines share, with the variables of the worker; a step is one operation of one of them, with the
  failures of the store as an oracle. Waiting is not modelled, and of the log only which records it gives up.
\<close>

section \<open>Charging one record\<close>

text \<open>The failures of one call of \<open>charge\<close>: of the \<open>i\<close>-th statement, with the key and the time it would use.\<close>

record charge_oracle =
  co_fails :: "nat \<Rightarrow> bool"
  co_gen :: "nat \<Rightarrow> ident"
  co_now :: "nat \<Rightarrow> int"

definition charge_once :: "charge_oracle \<Rightarrow> nat \<Rightarrow> UsageRecord \<Rightarrow> rat \<Rightarrow> ledger \<Rightarrow> ledger \<times> (store_error + unit)" where
  "charge_once co i rec costYuan l =
     ChargeBalance (co_fails co i) (co_gen co i) (co_now co i) (ug_UserID rec) costYuan (ug_RequestID rec) l"

text \<open>\<open>n\<close> is the number of attempts that are left.\<close>

fun retryCharge :: "charge_oracle \<Rightarrow> nat \<Rightarrow> nat \<Rightarrow> UsageRecord \<Rightarrow> rat \<Rightarrow> ledger \<Rightarrow> ledger" where
  "retryCharge co i 0 rec costYuan l = l"
| "retryCharge co i (Suc n) rec costYuan l =
     (case charge_once co i rec costYuan l of
        (l, Inr _) \<Rightarrow> l
      | (l, Inl ErrInsufficientBalance) \<Rightarrow> l
      | (l, Inl _) \<Rightarrow> retryCharge co (i + 1) n rec costYuan l)"

definition chargeRecord :: "(ident \<Rightarrow> bool) \<Rightarrow> charge_oracle \<Rightarrow> UsageRecord \<Rightarrow> rat \<Rightarrow> ledger \<Rightarrow> ledger" where
  "chargeRecord isBalanceExempt co rec costYuan l =
     (if isBalanceExempt (ug_UserID rec) then l
      else if ug_Status rec \<noteq> UsageStatusOK then l
      else if ug_RequestID rec = '''' then l
      else (case charge_once co 0 rec costYuan l of
              (l, Inr _) \<Rightarrow> l
            | (l, Inl ErrInsufficientBalance) \<Rightarrow> l
            | (l, Inl _) \<Rightarrow> retryCharge co 1 3 rec costYuan l))"

section \<open>Charging a batch\<close>

definition chargeable :: "(ident \<Rightarrow> bool) \<Rightarrow> UsageRecord \<times> rat \<Rightarrow> bool" where
  "chargeable isBalanceExempt rc \<longleftrightarrow>
     \<not> isBalanceExempt (ug_UserID (fst rc)) \<and> ug_Status (fst rc) = UsageStatusOK \<and> ug_RequestID (fst rc) \<noteq> '''' \<and> snd rc > 0"

definition balance_charge_of :: "UsageRecord \<times> rat \<Rightarrow> balance_charge" where
  "balance_charge_of rc = \<lparr>bc_UserID = ug_UserID (fst rc), bc_AmountYuan = snd rc, bc_RequestID = ug_RequestID (fst rc)\<rparr>"

fun charge_each_record ::
  "(ident \<Rightarrow> bool) \<Rightarrow> (nat \<Rightarrow> charge_oracle) \<Rightarrow> nat \<Rightarrow> (UsageRecord \<times> rat) list \<Rightarrow> ledger \<Rightarrow> ledger" where
  "charge_each_record isBalanceExempt cors i [] l = l"
| "charge_each_record isBalanceExempt cors i (rc # rcs) l =
     charge_each_record isBalanceExempt cors (i + 1) rcs (chargeRecord isBalanceExempt (cors i) (fst rc) (snd rc) l)"

record batch_oracle =
  bo_fails :: bool
  bo_gen :: "nat \<Rightarrow> ident"
  bo_now :: int

text \<open>The records come with the costs that were stored for them.\<close>

definition chargeBatch ::
  "(ident \<Rightarrow> bool) \<Rightarrow> batch_oracle \<Rightarrow> (nat \<Rightarrow> charge_oracle) \<Rightarrow> (UsageRecord \<times> rat) list \<Rightarrow> ledger \<Rightarrow> ledger" where
  "chargeBatch isBalanceExempt bo cors rcs l =
     (let charges = map balance_charge_of (filter (chargeable isBalanceExempt) rcs) in
      if charges = [] then l
      else (case ChargeBalances (bo_fails bo) (bo_gen bo) (bo_now bo) charges l of
              (l, Inl _) \<Rightarrow> charge_each_record isBalanceExempt cors 0 rcs l
            | (l, Inr errs) \<Rightarrow> l))"

section \<open>State\<close>

text \<open>\<open>jb_once\<close> is the identity of the \<open>sync.Once\<close> around the callback.\<close>

record persistJob =
  jb_rec :: UsageRecord
  jb_once :: nat

datatype worker_pc = Top | Reading | Exited

text \<open>\<open>rk_batch\<close>, \<open>rk_pending\<close> and \<open>rk_pc\<close> belong to the worker. \<open>rk_finished\<close> lists the callbacks that have run,
  \<open>rk_lost\<close> the jobs the log gives up, \<open>rk_jobs\<close> all the jobs there were.\<close>

record recorder =
  rk_store :: store
  rk_queue :: "persistJob list"
  rk_closed :: bool
  rk_stop :: bool
  rk_flushFailed :: bool
  rk_syncFallbacks :: int
  rk_batch :: "persistJob list"
  rk_pending :: "persistJob list"
  rk_pc :: worker_pc
  rk_finished :: "nat list"
  rk_lost :: "persistJob list"
  rk_jobs :: "persistJob list"

definition usageQueueSize :: nat where "usageQueueSize = 8192"
definition usageBatchSize :: nat where "usageBatchSize = 50"
definition usageFlushMaxAttempts :: nat where "usageFlushMaxAttempts = 3"

definition New :: "store \<Rightarrow> recorder" where
  "New st = \<lparr>rk_store = st, rk_queue = [], rk_closed = False, rk_stop = False, rk_flushFailed = False,
     rk_syncFallbacks = 0, rk_batch = [], rk_pending = [], rk_pc = Top, rk_finished = [], rk_lost = [], rk_jobs = []\<rparr>"

definition finish :: "persistJob \<Rightarrow> recorder \<Rightarrow> recorder" where
  "finish j s = (if jb_once j \<in> set (rk_finished s) then s else s\<lparr>rk_finished := rk_finished s @ [jb_once j]\<rparr>)"

definition with_ledger :: "(ledger \<Rightarrow> ledger) \<Rightarrow> recorder \<Rightarrow> recorder" where
  "with_ledger f s = s\<lparr>rk_store := (rk_store s)\<lparr>st_ledger := f (st_ledger (rk_store s))\<rparr>\<rparr>"

definition set_recs :: "UsageRecord list \<Rightarrow> persistJob list \<Rightarrow> persistJob list" where
  "set_recs recs jobs = map (\<lambda>(r, j). j\<lparr>jb_rec := r\<rparr>) (zip recs jobs)"

section \<open>Writing a batch\<close>

record flush_oracle =
  fo_insert :: "nat \<Rightarrow> tx_result"
  fo_lookup :: "nat \<Rightarrow> nat \<Rightarrow> bool"
  fo_now :: "nat \<Rightarrow> int"
  fo_batch :: batch_oracle
  fo_charge :: "nat \<Rightarrow> charge_oracle"
  fo_one :: "nat \<Rightarrow> tx_result"
  fo_oneLookup :: "nat \<Rightarrow> bool"
  fo_oneNow :: "nat \<Rightarrow> int"
  fo_readFails :: "nat \<Rightarrow> bool"

text \<open>\<open>n\<close> is the number of attempts that are left; the wait between them does not end early, for the context of the
  worker is never cancelled.\<close>

fun insert_attempts ::
  "flush_oracle \<Rightarrow> nat \<Rightarrow> nat \<Rightarrow> UsageRecord list \<Rightarrow> store \<Rightarrow> store \<times> UsageRecord list \<times> (usage_error + rat list)" where
  "insert_attempts fo i 0 recs st = (st, recs, Inl WriteError)"
| "insert_attempts fo i (Suc n) recs st =
     (case CreateUsageRecordsBatched (fo_insert fo i) (fo_lookup fo i) (fo_now fo i) recs st of
        (st, recs, Inr costs) \<Rightarrow> (st, recs, Inr costs)
      | (st, recs, Inl e) \<Rightarrow> if n = 0 then (st, recs, Inl e) else insert_attempts fo (i + 1) n recs st)"

text \<open>The jobs come back with their records as the store has left them, and whether every one was written.\<close>

fun flushOneByOne ::
  "(ident \<Rightarrow> bool) \<Rightarrow> flush_oracle \<Rightarrow> nat \<Rightarrow> persistJob list \<Rightarrow> recorder \<Rightarrow> recorder \<times> persistJob list \<times> bool" where
  "flushOneByOne isBalanceExempt fo i [] s = (s, [], True)"
| "flushOneByOne isBalanceExempt fo i (j # js) s =
     (case CreateUsageRecordWithCost (fo_one fo i) (fo_oneLookup fo i) (fo_oneNow fo i) (jb_rec j) (rk_store s) of
        (st, rec, res) \<Rightarrow>
          (let s = s\<lparr>rk_store := st\<rparr>; j = j\<lparr>jb_rec := rec\<rparr> in
           case res of
             Inl WriteError \<Rightarrow> (case flushOneByOne isBalanceExempt fo (i + 1) js s of (s, js, _) \<Rightarrow> (s, j # js, False))
           | _ \<Rightarrow>
             (let cost = (case res of Inr c \<Rightarrow> c | Inl _ \<Rightarrow> stored_cost (fo_readFails fo i) (ug_ID rec) st);
                  s = finish j (with_ledger (chargeRecord isBalanceExempt (fo_charge fo i) rec cost) s)
              in case flushOneByOne isBalanceExempt fo (i + 1) js s of (s, js, ok) \<Rightarrow> (s, j # js, ok))))"

definition flush ::
  "(ident \<Rightarrow> bool) \<Rightarrow> flush_oracle \<Rightarrow> persistJob list \<Rightarrow> recorder \<Rightarrow> recorder \<times> persistJob list \<times> bool" where
  "flush isBalanceExempt fo batch s =
     (if batch = [] then (s, [], True)
      else (case insert_attempts fo 0 usageFlushMaxAttempts (map jb_rec batch) (rk_store s) of
        (st, recs, res) \<Rightarrow>
          (let s = s\<lparr>rk_store := st\<rparr>; batch = set_recs recs batch in
           case res of
             Inl _ \<Rightarrow> flushOneByOne isBalanceExempt fo 0 batch s
           | Inr costs \<Rightarrow>
               (fold finish batch (with_ledger (chargeBatch isBalanceExempt (fo_batch fo) (fo_charge fo) (zip recs costs)) s),
                batch, True))))"

section \<open>The worker\<close>

definition logPendingAbandoned :: "persistJob list \<Rightarrow> recorder \<Rightarrow> recorder" where
  "logPendingAbandoned jobs s =
     (let gone = jobs @ (if rk_closed s then rk_queue s else []) in
      (fold finish gone s)\<lparr>rk_lost := rk_lost s @ gone, rk_queue := (if rk_closed s then [] else rk_queue s)\<rparr>)"

definition leave :: "recorder \<Rightarrow> recorder" where
  "leave s = s\<lparr>rk_batch := [], rk_pending := [], rk_pc := Exited\<rparr>"

text \<open>The head of the loop: a batch that failed is tried again. \<open>gaveUp\<close> tells which end of \<open>retryPause\<close> was taken.\<close>

definition worker_top :: "(ident \<Rightarrow> bool) \<Rightarrow> flush_oracle \<Rightarrow> bool \<Rightarrow> recorder \<Rightarrow> recorder" where
  "worker_top isBalanceExempt fo gaveUp s =
     (if rk_pending s = [] then s\<lparr>rk_pc := Reading\<rparr>
      else (case flush isBalanceExempt fo (rk_pending s) s of
        (s, jobs, True) \<Rightarrow> s\<lparr>rk_batch := jobs, rk_pending := [], rk_pc := Reading\<rparr>
      | (s, jobs, False) \<Rightarrow>
          (let s = s\<lparr>rk_batch := jobs, rk_pending := jobs, rk_flushFailed := True\<rparr>
           in if gaveUp then leave (logPendingAbandoned jobs s) else s)))"

text \<open>From the blocking read on, with \<open>k\<close> records taken from the queue.\<close>

definition worker_read :: "(ident \<Rightarrow> bool) \<Rightarrow> flush_oracle \<Rightarrow> bool \<Rightarrow> nat \<Rightarrow> recorder \<Rightarrow> recorder" where
  "worker_read isBalanceExempt fo gaveUp k s =
     (let batch = rk_batch s @ take k (rk_queue s);
          s = s\<lparr>rk_queue := drop k (rk_queue s)\<rparr> in
      case flush isBalanceExempt fo batch s of
        (s, jobs, True) \<Rightarrow> s\<lparr>rk_flushFailed := False, rk_batch := [], rk_pc := Top\<rparr>
      | (s, jobs, False) \<Rightarrow>
          (let s = s\<lparr>rk_pending := jobs, rk_flushFailed := True\<rparr>
           in if gaveUp then leave (logPendingAbandoned jobs s) else s\<lparr>rk_batch := [], rk_pc := Top\<rparr>))"

section \<open>The requests\<close>

definition new_job :: "UsageRecord \<Rightarrow> recorder \<Rightarrow> persistJob" where
  "new_job rec s = \<lparr>jb_rec = rec, jb_once = length (rk_jobs s)\<rparr>"

text \<open>One turn of \<open>RecordWithCallback\<close>: \<open>None\<close> when the queue is full and the request has to wait.\<close>

definition RecordWithCallback :: "UsageRecord \<Rightarrow> recorder \<Rightarrow> recorder option" where
  "RecordWithCallback rec s =
     (let j = new_job rec s; s' = s\<lparr>rk_jobs := rk_jobs s @ [j]\<rparr> in
      if rk_closed s then Some ((finish j s')\<lparr>rk_lost := rk_lost s @ [j]\<rparr>)
      else if length (rk_queue s) < usageQueueSize then Some (s'\<lparr>rk_queue := rk_queue s @ [j]\<rparr>)
      else None)"

definition syncFallback :: "(ident \<Rightarrow> bool) \<Rightarrow> flush_oracle \<Rightarrow> UsageRecord \<Rightarrow> recorder \<Rightarrow> recorder" where
  "syncFallback isBalanceExempt fo rec s =
     (let j = new_job rec s;
          s = s\<lparr>rk_jobs := rk_jobs s @ [j], rk_syncFallbacks := rk_syncFallbacks s + 1\<rparr> in
      case CreateUsageRecordWithCost (fo_one fo 0) (fo_oneLookup fo 0) (fo_oneNow fo 0) rec (rk_store s) of
        (st, rec, Inl _) \<Rightarrow> finish j (s\<lparr>rk_store := st, rk_lost := rk_lost s @ [j]\<rparr>)
      | (st, rec, Inr cost) \<Rightarrow> finish j (with_ledger (chargeRecord isBalanceExempt (fo_charge fo 0) rec cost) (s\<lparr>rk_store := st\<rparr>)))"

definition CloseQueue :: "recorder \<Rightarrow> recorder" where
  "CloseQueue s = s\<lparr>rk_closed := True\<rparr>"

definition Abort :: "recorder \<Rightarrow> recorder" where
  "Abort s = s\<lparr>rk_stop := True\<rparr>"

definition HasPendingUsage :: "recorder \<Rightarrow> bool" where
  "HasPendingUsage s = rk_flushFailed s"

definition Accepting :: "recorder \<Rightarrow> bool" where
  "Accepting s \<longleftrightarrow> \<not> rk_closed s"

text \<open>\<open>Wait\<close> after the queue was closed, with the state at its end: the worker has left or the time is up.\<close>

definition Wait :: "recorder \<Rightarrow> bool" where
  "Wait s \<longleftrightarrow> rk_pc s = Exited \<and> \<not> HasPendingUsage s"

section \<open>All together\<close>

datatype action = Send UsageRecord | Fallback flush_oracle UsageRecord | Close | Stop
  | Retry flush_oracle bool | Take flush_oracle bool nat | Drained
  | Maintain bool bool ident int stored_usage

text \<open>What can happen next. A request whose time to wait is over writes by itself, whatever has happened to the queue
  meanwhile. The worker gives up only after \<open>Abort\<close>, and the shutdown in \<^verbatim>\<open>internal/gatewayapp/run.go\<close> closes the queue
  before that. The maintenance task charges a record that it found earlier.\<close>

inductive step :: "(ident \<Rightarrow> bool) \<Rightarrow> recorder \<Rightarrow> action \<Rightarrow> recorder \<Rightarrow> bool" for isBalanceExempt where
  send: "RecordWithCallback rec s = Some s' \<Longrightarrow> step isBalanceExempt s (Send rec) s'"
| fallback: "step isBalanceExempt s (Fallback fo rec) (syncFallback isBalanceExempt fo rec s)"
| close: "step isBalanceExempt s Close (CloseQueue s)"
| stop: "rk_closed s \<Longrightarrow> step isBalanceExempt s Stop (Abort s)"
| retry: "rk_pc s = Top \<Longrightarrow> gaveUp \<longrightarrow> rk_stop s \<Longrightarrow>
    step isBalanceExempt s (Retry fo gaveUp) (worker_top isBalanceExempt fo gaveUp s)"
| take: "rk_pc s = Reading \<Longrightarrow> 0 < k \<Longrightarrow> k \<le> length (rk_queue s) \<Longrightarrow> k \<le> max 1 (usageBatchSize - length (rk_batch s)) \<Longrightarrow>
    gaveUp \<longrightarrow> rk_stop s \<Longrightarrow> step isBalanceExempt s (Take fo gaveUp k) (worker_read isBalanceExempt fo gaveUp k s)"
| drained: "rk_pc s = Reading \<Longrightarrow> rk_queue s = [] \<Longrightarrow> rk_closed s \<Longrightarrow> step isBalanceExempt s Drained (leave s)"
| maintain: "r \<in> set (st_usage (rk_store s)) \<Longrightarrow> billable r \<Longrightarrow>
    step isBalanceExempt s (Maintain cf nf gen now r)
      (s\<lparr>rk_store := fst (ReconcileOneUnchargedUsage cf nf gen now (uncharged_of r) (rk_store s))\<rparr>)"

inductive steps :: "(ident \<Rightarrow> bool) \<Rightarrow> recorder \<Rightarrow> action list \<Rightarrow> recorder \<Rightarrow> bool" for isBalanceExempt where
  none: "steps isBalanceExempt s [] s"
| more: "steps isBalanceExempt s as s' \<Longrightarrow> step isBalanceExempt s' a s'' \<Longrightarrow> steps isBalanceExempt s (as @ [a]) s''"

inductive_cases step_elim: "step isBalanceExempt s a s'"


end
