(* ===== verification/Delivery.thy ===== *)
theory Delivery
  imports Recorder
begin

text \<open>
  What the recorder does to the store and to the jobs, whatever fails: it only ever inserts records it was given,
  once each, and charges stored records, so that the invariants of the tables and of the money are shown for these
  two operations alone; and it lets go of a job only when its record is stored or given up in the log.
\<close>

section \<open>Identity of a record\<close>

text \<open>What neither the normalization of a record nor its storage changes.\<close>

type_synonym origin = "ident \<times> ident \<times> ident \<times> ident \<times> string"

definition origin :: "UsageRecord \<Rightarrow> origin" where
  "origin r = (ug_ID r, ug_UserID r, ug_RequestID r, ug_AccessKeyID r, ug_Status r)"

definition unambiguous :: "origin set \<Rightarrow> bool" where
  "unambiguous R \<longleftrightarrow> inj_on fst R"

definition known :: "origin set \<Rightarrow> store \<Rightarrow> bool" where
  "known R st \<longleftrightarrow> (\<lambda>r. origin (su_record r)) ` set (st_usage st) \<subseteq> R"

lemma origin_update [simp]:
  "origin (r\<lparr>ug_Tokens := u\<rparr>) = origin r" "origin (r\<lparr>ug_Ts := t\<rparr>) = origin r"
  "origin (su_record (usageInsertArgs r c p)) = origin r"
  "su_cost (usageInsertArgs r c p) = c"
  by (simp_all add: origin_def usageInsertArgs_def)

lemma row_id_origin: "row_id r = fst (origin (su_record r))"
  by (simp add: row_id_def origin_def)

lemma row_id_args [simp]: "row_id (usageInsertArgs r c p) = ug_ID r"
  by (simp add: row_id_def usageInsertArgs_def)

lemma insert_row_fields [simp]:
  "st_usage (insert_row row st) = st_usage st @ [row]" "st_ledger (insert_row row st) = st_ledger st"
  "st_models (insert_row row st) = st_models st"
  "st_quota (insert_row row st) = count_usage (ug_AccessKeyID (su_record row)) (ug_UserID (su_record row))
     (tu_TotalTokens (ug_Tokens (su_record row))) (st_quota st)"
  by (simp_all add: insert_row_def Let_def)

lemma insert_rows_fields [simp]:
  "st_usage (fold insert_row rows st) = st_usage st @ rows" "st_ledger (fold insert_row rows st) = st_ledger st"
  by (induction rows arbitrary: st) simp_all

section \<open>The operations on the store\<close>

text \<open>\<open>billing R st st'\<close>: \<open>st'\<close> comes from \<open>st\<close> by inserting records from \<open>R\<close> under new identities, charging stored
  records with their stored cost, and notes on the attempts to charge them.\<close>

definition charge_row :: "bool \<Rightarrow> ident \<Rightarrow> int \<Rightarrow> stored_usage \<Rightarrow> store \<Rightarrow> store" where
  "charge_row f g ts r st = st\<lparr>st_ledger :=
     fst (ChargeBalance f g ts (ug_UserID (su_record r)) (su_cost r) (ug_RequestID (su_record r)) (st_ledger st))\<rparr>"

definition annotates :: "(stored_usage \<Rightarrow> stored_usage) \<Rightarrow> bool" where
  "annotates f \<longleftrightarrow> (\<forall>r. su_record (f r) = su_record r \<and> su_cost (f r) = su_cost r)"

inductive billing :: "origin set \<Rightarrow> store \<Rightarrow> store \<Rightarrow> bool" for R where
  same: "billing R st st"
| insert: "billing R st st' \<Longrightarrow> origin (su_record row) \<in> R \<Longrightarrow> row_id row \<notin> row_id ` set (st_usage st') \<Longrightarrow>
    billing R st (insert_row row st')"
| charge: "billing R st st' \<Longrightarrow> row \<in> set (st_usage st') \<Longrightarrow> billable row \<Longrightarrow> billing R st (charge_row f g ts row st')"
| annotate: "billing R st st' \<Longrightarrow> annotates f \<Longrightarrow> billing R st (update_row i f st')"

lemma billing_trans: "billing R st' st'' \<Longrightarrow> billing R st st' \<Longrightarrow> billing R st st''"
  by (induction rule: billing.induct) (auto intro: billing.intros)

lemma billing_mono: "billing R st st' \<Longrightarrow> R \<subseteq> R' \<Longrightarrow> billing R' st st'"
  by (induction rule: billing.induct) (auto intro: billing.intros)

lemma charge_row_fields [simp]:
  "st_usage (charge_row f g ts r st) = st_usage st" "st_quota (charge_row f g ts r st) = st_quota st"
  "st_models (charge_row f g ts r st) = st_models st"
  by (simp_all add: charge_row_def)

lemma update_row_fields [simp]:
  "st_ledger (update_row i f st) = st_ledger st" "st_quota (update_row i f st) = st_quota st"
  "st_models (update_row i f st) = st_models st"
  by (simp_all add: update_row_def)

lemma annotated [simp]:
  assumes "annotates f"
  shows "su_record ` set (st_usage (update_row i f st)) = su_record ` set (st_usage st)"
    "row_id ` set (st_usage (update_row i f st)) = row_id ` set (st_usage st)"
    "map su_record (st_usage (update_row i f st)) = map su_record (st_usage st)"
    "map row_id (st_usage (update_row i f st)) = map row_id (st_usage st)"
    "map su_cost (st_usage (update_row i f st)) = map su_cost (st_usage st)"
proof -
  have f: "su_record (f r) = su_record r" "su_cost (f r) = su_cost r" "row_id (f r) = row_id r" for r
    using assms by (simp_all add: annotates_def row_id_def)
  show "map su_record (st_usage (update_row i f st)) = map su_record (st_usage st)"
    "map row_id (st_usage (update_row i f st)) = map row_id (st_usage st)"
    "map su_cost (st_usage (update_row i f st)) = map su_cost (st_usage st)"
    by (simp_all add: update_row_def f)
  then show "su_record ` set (st_usage (update_row i f st)) = su_record ` set (st_usage st)"
    "row_id ` set (st_usage (update_row i f st)) = row_id ` set (st_usage st)"
    by (metis set_map)+
qed

lemma known_image: "known R st \<longleftrightarrow> origin ` su_record ` set (st_usage st) \<subseteq> R"
  by (simp add: known_def image_image)

lemma billing_known: "billing R st st' \<Longrightarrow> known R st \<Longrightarrow> known R st'"
  by (induction rule: billing.induct) (simp_all add: known_image)

lemma billing_ids: "billing R st st' \<Longrightarrow> row_id ` set (st_usage st) \<subseteq> row_id ` set (st_usage st')"
  by (induction rule: billing.induct) auto

text \<open>A stored record is recognized by its identity.\<close>

lemma known_row:
  assumes "known R st" "unambiguous R" "origin r \<in> R" "row \<in> set (st_usage st)" "row_id row = ug_ID r"
  shows "origin (su_record row) = origin r"
proof -
  have "origin (su_record row) \<in> R" using assms(1,4) by (auto simp: known_def)
  moreover have "fst (origin (su_record row)) = fst (origin r)"
    using assms(5) by (simp add: row_id_origin origin_def)
  ultimately show ?thesis using assms(2,3) by (auto simp: unambiguous_def dest: inj_onD)
qed

lemma find_row_SomeD: "find_row i st = Some r \<Longrightarrow> r \<in> set (st_usage st) \<and> row_id r = i"
  by (auto simp: find_row_def find_Some_iff)

lemma billable_origin:
  "origin (su_record row) = origin r \<Longrightarrow>
    billable row \<longleftrightarrow> ug_Status r = UsageStatusOK \<and> 0 < su_cost row \<and> ug_RequestID r \<noteq> ''''"
  by (auto simp: billable_def origin_def)

section \<open>Insertions\<close>

text \<open>The record is in the table, at this cost.\<close>

definition stored_at :: "store \<Rightarrow> UsageRecord \<Rightarrow> rat \<Rightarrow> bool" where
  "stored_at st r c \<longleftrightarrow> (\<exists>row \<in> set (st_usage st). origin (su_record row) = origin r \<and> su_cost row = c)"

lemma stored_at_id: "stored_at st r c \<Longrightarrow> ug_ID r \<in> row_id ` set (st_usage st)"
  by (force simp: stored_at_def row_id_origin origin_def)

lemma stored_at_origin: "origin r' = origin r \<Longrightarrow> stored_at st r' c \<longleftrightarrow> stored_at st r c"
  by (simp add: stored_at_def)

lemma Create_billing:
  assumes "CreateUsageRecordWithCost w lf now r st = (st', r', res)" "origin r \<in> R"
  shows "billing R st st'" "origin r' = origin r" "res = Inr c \<Longrightarrow> stored_at st' r' c"
    "res = Inl UniqueViolation \<Longrightarrow> ug_ID r' \<in> row_id ` set (st_usage st')"
    "st_ledger st' = st_ledger st"
proof -
  obtain cost pending where fz: "freezeUsageCost lf st (r\<lparr>ug_Tokens := nonneg_tokens (ug_Tokens r)\<rparr>) = (cost, pending)"
    by fastforce
  let ?row = "usageInsertArgs (r\<lparr>ug_Tokens := nonneg_tokens (ug_Tokens r), ug_Ts := if ug_Ts r = 0 then now else ug_Ts r\<rparr>) cost pending"
  have ins: "billing R st (insert_row ?row st)" if "ug_ID r \<notin> row_id ` set (st_usage st)"
    by (rule billing.insert [OF billing.same]) (use that assms(2) in auto)
  note cr = assms(1) [unfolded CreateUsageRecordWithCost_def Let_def fz prod.case]
  show "billing R st st'" using cr ins by (auto split: if_splits intro: billing.same)
  show "origin r' = origin r" using cr by (auto split: if_splits)
  show "stored_at st' r' c" if "res = Inr c" using cr that by (auto simp: stored_at_def split: if_splits)
  show "ug_ID r' \<in> row_id ` set (st_usage st')" if "res = Inl UniqueViolation" using cr that by (auto split: if_splits)
  show "st_ledger st' = st_ledger st" using cr by (auto split: if_splits)
qed

lemma insert_rows_billing:
  assumes "distinct (map row_id (st_usage st @ rows))" "origin ` su_record ` set rows \<subseteq> R"
  shows "billing R st (fold insert_row rows st)"
  using assms
proof (induction rows rule: rev_induct)
  case (snoc row rows)
  then have "billing R st (fold insert_row rows st)" by simp
  moreover have "row_id row \<notin> row_id ` set (st_usage (fold insert_row rows st))" using snoc.prems(1) by auto
  ultimately show ?case using snoc.prems(2) by (auto intro: billing.insert)
qed (simp add: billing.same)

lemma batchComputeCosts_fields:
  assumes "batchComputeCosts lf now st recs = (recs', costs)"
  shows "map origin recs' = map origin recs" "length costs = length recs'"
  using assms by (auto simp: batchComputeCosts_def Let_def)

lemma Batched_billing:
  assumes "CreateUsageRecordsBatched w lf now recs st = (st', recs', res)" "origin ` set recs \<subseteq> R"
  shows "billing R st st' \<and> map origin recs' = map origin recs \<and> st_ledger st' = st_ledger st \<and>
    (\<forall>costs. res = Inr costs \<longrightarrow> list_all2 (stored_at st') recs' costs)"
proof -
  consider "recs = []" | r where "recs = [r]" | (many) "2 \<le> length recs"
    by (cases recs rule: remdups_adj.cases) auto
  then show ?thesis
  proof cases
    case 1
    with assms(1) show ?thesis by (auto simp: CreateUsageRecordsBatched_def intro: billing.same)
  next
    case (2 r)
    obtain st1 r1 res1 where c: "CreateUsageRecordWithCost w (lf 0) now r st = (st1, r1, res1)" by (metis prod.collapse)
    have "origin r \<in> R" using 2 assms(2) by simp
    from Create_billing [OF c this] 2 assms(1) c show ?thesis
      by (auto simp: CreateUsageRecordsBatched_def split: sum.splits)
  next
    case many
    then obtain x y xs where xs: "recs = x # y # xs" by (cases recs rule: remdups_adj.cases) auto
    obtain rs costs where b: "batchComputeCosts lf now st recs = (rs, costs)" by fastforce
    note bf = batchComputeCosts_fields [OF b]
    define rows where "rows = map (\<lambda>(r, cost, costPending). usageInsertArgs r cost costPending) (zip rs costs)"
    have cr: "(if w = Fails then (st, rs, Inl WriteError)
        else if \<not> distinct (map row_id (st_usage st @ rows)) then (st, rs, Inl UniqueViolation)
        else if w = CommitsUnseen then (fold insert_row rows st, rs, Inl WriteError)
        else (fold insert_row rows st, rs, Inr (map fst costs))) = (st', recs', res)"
      using assms(1) b unfolding rows_def xs CreateUsageRecordsBatched_def
      by (simp only: list.case Let_def prod.case)
    have each: "list_all2 (\<lambda>row r. origin (su_record row) = origin r) rows rs"
      using bf(2) by (auto simp: rows_def list_all2_conv_all_nth split: prod.splits)
    then have "map (\<lambda>row. origin (su_record row)) rows = map origin rs"
      by (induction rule: list_all2_induct) simp_all
    then have "origin ` su_record ` set rows = origin ` set recs"
      using bf(1) by (metis image_image set_map)
    then have ins: "billing R st (fold insert_row rows st)" if "distinct (map row_id (st_usage st @ rows))"
      using insert_rows_billing [OF that] assms(2) by simp
    have at: "list_all2 (stored_at (fold insert_row rows st)) rs (map fst costs)"
      unfolding list_all2_conv_all_nth
    proof (intro conjI allI impI)
      show "length rs = length (map fst costs)" using bf(2) by simp
    next
      fix i assume i: "i < length rs"
      obtain c p where cp: "costs ! i = (c, p)" by fastforce
      have "rows ! i = usageInsertArgs (rs ! i) c p" "i < length rows" using i bf(2) cp by (simp_all add: rows_def)
      moreover have "rows ! i \<in> set rows" by (rule nth_mem) fact
      ultimately show "stored_at (fold insert_row rows st) (rs ! i) (map fst costs ! i)"
        using i bf(2) cp by (force simp: stored_at_def)
    qed
    show ?thesis using cr ins at bf(1) by (auto split: if_splits intro: billing.same)
  qed
qed

lemma insert_attempts_billing:
  assumes "insert_attempts fo i n recs st = (st', recs', res)" "origin ` set recs \<subseteq> R"
  shows "billing R st st' \<and> map origin recs' = map origin recs \<and> st_ledger st' = st_ledger st \<and>
    (\<forall>costs. res = Inr costs \<longrightarrow> list_all2 (stored_at st') recs' costs)"
  using assms
proof (induction n arbitrary: i recs st)
  case (Suc n)
  obtain st1 recs1 res1 where c: "CreateUsageRecordsBatched (fo_insert fo i) (fo_lookup fo i) (fo_now fo i) recs st = (st1, recs1, res1)"
    by (metis prod.collapse)
  note b = Batched_billing [OF c Suc.prems(2)]
  show ?case
  proof (cases "\<exists>costs. res1 = Inr costs")
    case True
    with b c Suc.prems(1) show ?thesis by auto
  next
    case False
    then obtain e where e: "res1 = Inl e" by (cases res1) auto
    show ?thesis
    proof (cases "n = 0")
      case True
      with b c e Suc.prems(1) show ?thesis by auto
    next
      case more: False
      have "set (map origin recs1) = set (map origin recs)" using b by simp
      then have "origin ` set recs1 \<subseteq> R" using Suc.prems(2) by simp
      moreover have "insert_attempts fo (i + 1) n recs1 st1 = (st', recs', res)"
        using Suc.prems(1) c e more by simp
      ultimately have ih: "billing R st1 st' \<and> map origin recs' = map origin recs1 \<and> st_ledger st' = st_ledger st1 \<and>
          (\<forall>costs. res = Inr costs \<longrightarrow> list_all2 (stored_at st') recs' costs)" by (intro Suc.IH)
      with b show ?thesis using billing_trans [of R st1 st' st] by simp
    qed
  qed
qed (auto intro: billing.same)

section \<open>Charges\<close>

lemma charge_row_billing:
  assumes "stored_at st r c" "chargeable ex (r, c)"
  shows "billing R st (st\<lparr>st_ledger := fst (ChargeBalance f g ts (ug_UserID r) c (ug_RequestID r) (st_ledger st))\<rparr>)"
proof -
  obtain row where row: "row \<in> set (st_usage st)" "origin (su_record row) = origin r" "su_cost row = c"
    using assms(1) by (auto simp: stored_at_def)
  have "billable row" using assms(2) row(3) billable_origin [OF row(2)] by (simp add: chargeable_def)
  moreover have "ug_UserID (su_record row) = ug_UserID r" "ug_RequestID (su_record row) = ug_RequestID r"
    using row(2) by (simp_all add: origin_def)
  ultimately show ?thesis
    using billing.charge [OF billing.same row(1), of R f g ts] row(3) by (simp add: charge_row_def)
qed

lemma Charge_free: "y \<le> 0 \<Longrightarrow> fst (ChargeBalance f g ts uid y req l) = l"
  by (simp add: ChargeBalance_def)

text \<open>A charge of a stored record, or of nothing.\<close>

definition due_for :: "(ident \<Rightarrow> bool) \<Rightarrow> store \<Rightarrow> UsageRecord \<Rightarrow> rat \<Rightarrow> bool" where
  "due_for ex st r c \<longleftrightarrow> c \<le> 0 \<or> (stored_at st r c \<and> chargeable ex (r, c))"

lemma same_store [simp]: "st\<lparr>st_ledger := st_ledger st\<rparr> = st"
  by simp

lemma charge_once_billing:
  assumes "due_for ex st r c" "charge_once co i r c (st_ledger st) = (l, res)"
  shows "billing R st (st\<lparr>st_ledger := l\<rparr>)"
proof (cases "c \<le> 0")
  case True
  with assms(2) have "l = st_ledger st"
    using Charge_free [of c] by (auto simp: charge_once_def dest: arg_cong [of _ _ fst])
  then show ?thesis by (simp add: billing.same)
next
  case False
  with assms(1) have at: "stored_at st r c" "chargeable ex (r, c)" by (simp_all add: due_for_def)
  have l: "l = fst (ChargeBalance (co_fails co i) (co_gen co i) (co_now co i) (ug_UserID r) c (ug_RequestID r) (st_ledger st))"
    using assms(2) by (auto simp: charge_once_def dest: arg_cong [of _ _ fst])
  show ?thesis unfolding l by (rule charge_row_billing [OF at])
qed

lemma due_for_ledger [simp]: "due_for ex (st\<lparr>st_ledger := l\<rparr>) r c \<longleftrightarrow> due_for ex st r c"
  by (simp add: due_for_def stored_at_def)

lemma retryCharge_billing:
  "due_for ex st r c \<Longrightarrow> billing R st (st\<lparr>st_ledger := retryCharge co i n r c (st_ledger st)\<rparr>)"
proof (induction n arbitrary: i st)
  case (Suc n)
  obtain l res where c: "charge_once co i r c (st_ledger st) = (l, res)" by fastforce
  have b: "billing R st (st\<lparr>st_ledger := l\<rparr>)" by (rule charge_once_billing [OF Suc.prems c])
  have "billing R (st\<lparr>st_ledger := l\<rparr>) (st\<lparr>st_ledger := retryCharge co (i + 1) n r c l\<rparr>)"
    using Suc.IH [of "st\<lparr>st_ledger := l\<rparr>" "i + 1"] Suc.prems by simp
  from billing_trans [OF this b] b show ?case
    using c by (auto split: sum.splits store_error.splits)
qed (simp add: billing.same)

lemma chargeRecord_billing:
  assumes "c \<le> 0 \<or> stored_at st r c"
  shows "billing R st (st\<lparr>st_ledger := chargeRecord ex co r c (st_ledger st)\<rparr>)"
proof (cases "ex (ug_UserID r) \<or> ug_Status r \<noteq> UsageStatusOK \<or> ug_RequestID r = ''''")
  case True
  then show ?thesis by (auto simp: chargeRecord_def intro: billing.same)
next
  case False
  with assms have due: "due_for ex st r c" by (auto simp: due_for_def chargeable_def)
  obtain l res where c: "charge_once co 0 r c (st_ledger st) = (l, res)" by fastforce
  have b: "billing R st (st\<lparr>st_ledger := l\<rparr>)" by (rule charge_once_billing [OF due c])
  have "billing R (st\<lparr>st_ledger := l\<rparr>) (st\<lparr>st_ledger := retryCharge co 1 3 r c l\<rparr>)"
    using retryCharge_billing [of ex "st\<lparr>st_ledger := l\<rparr>" r c R co 1 3] due by simp
  from billing_trans [OF this b] b show ?thesis
    using c False by (auto simp: chargeRecord_def split: sum.splits store_error.splits)
qed

lemma charge_each_record_billing:
  assumes "list_all (\<lambda>(r, c). c \<le> 0 \<or> stored_at st r c) rcs"
  shows "billing R st (st\<lparr>st_ledger := charge_each_record ex cors i rcs (st_ledger st)\<rparr>)"
  using assms
proof (induction rcs arbitrary: i st)
  case (Cons rc rcs)
  obtain r c where rc: "rc = (r, c)" by fastforce
  let ?l = "chargeRecord ex (cors i) r c (st_ledger st)"
  have "billing R st (st\<lparr>st_ledger := ?l\<rparr>)"
    using Cons.prems rc by (intro chargeRecord_billing) simp
  moreover have "billing R (st\<lparr>st_ledger := ?l\<rparr>) (st\<lparr>st_ledger := charge_each_record ex cors (i + 1) rcs ?l\<rparr>)"
    using Cons.IH [of "st\<lparr>st_ledger := ?l\<rparr>" "i + 1"] Cons.prems by (simp add: stored_at_def list_all_iff)
  ultimately show ?case using rc billing_trans by fastforce
qed (simp add: billing.same)

text \<open>The transaction of a batch, when it commits, is the sequence of its charges.\<close>

lemma charge_loop_sequence:
  "charge_loop gen ts i cs l = Inr (l', es) \<Longrightarrow> charge_each gen ts i cs l = (l', es)"
proof (induction gen ts i cs l arbitrary: l' es rule: charge_each.induct)
  case (2 gen ts i c cs l)
  obtain l1 r where one: "ChargeBalance False (gen i) ts (bc_UserID c) (bc_AmountYuan c) (bc_RequestID c) l = (l1, r)"
    by fastforce
  let ?key = "if bc_RequestID c = '''' then gen i else bc_RequestID c"
  obtain l2 res where att: "charge_attempt (bc_UserID c) (bc_AmountYuan c) ?key (gen i) ts l = (l2, res)"
    by fastforce
  have "\<exists>es'. charge_loop gen ts (i + 1) cs l1 = Inr (l', es') \<and> es = (case r of Inl e \<Rightarrow> Some e | Inr _ \<Rightarrow> None) # es'"
  proof (cases "bc_UserID c = '''' \<or> bc_AmountYuan c \<le> 0")
    case True
    then have "l1 = l" "(case r of Inl e \<Rightarrow> Some e | Inr _ \<Rightarrow> None) = (if bc_UserID c = '''' then Some ErrNotFound else None)"
      using one by (auto simp: ChargeBalance_def split: if_splits)
    with True 2(2) show ?thesis
      by (cases "charge_loop gen ts (i + 1) cs l") (auto split: if_splits)
  next
    case False
    then have "res = Inl ErrInsufficientBalance \<or> res = Inr ()"
      using 2(2) att by (auto simp: Let_def split: sum.splits store_error.splits unit.splits)
    then have "l1 = l2 \<and> (case r of Inl e \<Rightarrow> Some e | Inr _ \<Rightarrow> None) = (case res of Inl e \<Rightarrow> Some e | Inr _ \<Rightarrow> None)"
      using False att one by (elim disjE) (auto simp: ChargeBalance_def Let_def case_unit_Unity)
    then show ?thesis
      using False att \<open>res = _ \<or> res = _\<close> 2(2)
      by (cases "charge_loop gen ts (i + 1) cs l2") (auto simp: Let_def case_unit_Unity)
  qed
  with 2(1) [OF one [symmetric]] one show ?case by auto
qed simp

lemma charge_each_billing:
  assumes "list_all (\<lambda>rc. stored_at st (fst rc) (snd rc) \<and> chargeable ex rc) rcs"
  shows "billing R st (st\<lparr>st_ledger := fst (charge_each gen ts i (map balance_charge_of rcs) (st_ledger st))\<rparr>)"
  using assms
proof (induction rcs arbitrary: i st)
  case (Cons rc rcs)
  let ?l = "fst (ChargeBalance False (gen i) ts (ug_UserID (fst rc)) (snd rc) (ug_RequestID (fst rc)) (st_ledger st))"
  have "billing R st (st\<lparr>st_ledger := ?l\<rparr>)"
    using Cons.prems by (intro charge_row_billing [where ex = ex]) simp_all
  moreover have "billing R (st\<lparr>st_ledger := ?l\<rparr>) (st\<lparr>st_ledger := fst (charge_each gen ts (i + 1) (map balance_charge_of rcs) ?l)\<rparr>)"
    using Cons.IH [of "st\<lparr>st_ledger := ?l\<rparr>" "i + 1"] Cons.prems by (simp add: stored_at_def list_all_iff)
  moreover have "fst (charge_each gen ts i (map balance_charge_of (rc # rcs)) (st_ledger st)) =
      fst (charge_each gen ts (i + 1) (map balance_charge_of rcs) ?l)"
    by (simp add: balance_charge_of_def split: prod.split)
  ultimately show ?case using billing_trans by fastforce
qed (simp add: billing.same)

lemma chargeBatch_billing:
  assumes "list_all2 (stored_at st) recs costs"
  shows "billing R st (st\<lparr>st_ledger := chargeBatch ex bo cors (zip recs costs) (st_ledger st)\<rparr>)"
proof -
  let ?rcs = "zip recs costs" and ?b = "\<lambda>rcs. ChargeBalances (bo_fails bo) (bo_gen bo) (bo_now bo) (map balance_charge_of (filter (chargeable ex) rcs)) (st_ledger st)"
  have at: "list_all (\<lambda>rc. stored_at st (fst rc) (snd rc)) ?rcs"
    using assms by (auto simp: list_all_iff in_set_zip list_all2_conv_all_nth)
  have each: "billing R st (st\<lparr>st_ledger := charge_each_record ex cors 0 ?rcs (st_ledger st)\<rparr>)"
    using at by (intro charge_each_record_billing) (auto simp: list_all_iff)
  obtain l res where b: "?b ?rcs = (l, res)" by fastforce
  show ?thesis
  proof (cases "filter (chargeable ex) ?rcs = []")
    case True
    then show ?thesis by (simp add: chargeBatch_def billing.same)
  next
    case some: False
    show ?thesis
    proof (cases res)
      case (Inl e)
      then have "l = st_ledger st" using b by (auto simp: ChargeBalances_def split: if_splits sum.splits prod.splits)
      with each some b Inl show ?thesis by (simp add: chargeBatch_def Let_def)
    next
      case (Inr es)
      then have "charge_loop (bo_gen bo) (bo_now bo) 0 (map balance_charge_of (filter (chargeable ex) ?rcs)) (st_ledger st) = Inr (l, es)"
        using b some by (auto simp: ChargeBalances_def split: if_splits sum.splits prod.splits)
      from charge_loop_sequence [OF this]
      have "l = fst (charge_each (bo_gen bo) (bo_now bo) 0 (map balance_charge_of (filter (chargeable ex) ?rcs)) (st_ledger st))"
        by simp
      moreover have "list_all (\<lambda>rc. stored_at st (fst rc) (snd rc) \<and> chargeable ex rc) (filter (chargeable ex) ?rcs)"
        using at by (auto simp: list_all_iff)
      note charge_each_billing [OF this, of R "bo_gen bo" "bo_now bo" 0]
      ultimately show ?thesis using some b Inr by (simp add: chargeBatch_def Let_def)
    qed
  qed
qed

section \<open>Writing a batch\<close>

definition job_id :: "persistJob \<Rightarrow> ident" where
  "job_id j = ug_ID (jb_rec j)"

definition tag :: "persistJob \<Rightarrow> nat \<times> origin" where
  "tag j = (jb_once j, origin (jb_rec j))"

definition stored_ids :: "recorder \<Rightarrow> ident set" where
  "stored_ids s = row_id ` set (st_usage (rk_store s))"

definition only_writes :: "recorder \<Rightarrow> recorder \<Rightarrow> bool" where
  "only_writes s s' \<longleftrightarrow> (\<exists>st fs. s' = s\<lparr>rk_store := st, rk_finished := fs\<rparr>)"

lemma only_writes_intro: "only_writes s (s\<lparr>rk_store := st, rk_finished := fs\<rparr>)" "only_writes s (s\<lparr>rk_store := st\<rparr>)" "only_writes s s"
proof -
  have "s\<lparr>rk_store := st\<rparr> = s\<lparr>rk_store := st, rk_finished := rk_finished s\<rparr>"
    "s = s\<lparr>rk_store := rk_store s, rk_finished := rk_finished s\<rparr>" by simp_all
  then show "only_writes s (s\<lparr>rk_store := st, rk_finished := fs\<rparr>)" "only_writes s (s\<lparr>rk_store := st\<rparr>)" "only_writes s s"
    unfolding only_writes_def by blast+
qed

lemma only_writes_trans: "only_writes s s1 \<Longrightarrow> only_writes s1 s' \<Longrightarrow> only_writes s s'"
proof -
  assume "only_writes s s1" "only_writes s1 s'"
  then obtain st fs st' fs' where "s1 = s\<lparr>rk_store := st, rk_finished := fs\<rparr>" "s' = s1\<lparr>rk_store := st', rk_finished := fs'\<rparr>"
    by (auto simp: only_writes_def)
  then have "s' = s\<lparr>rk_store := st', rk_finished := fs'\<rparr>" by simp
  then show ?thesis unfolding only_writes_def by blast
qed

text \<open>What a write does: nothing but billing and callbacks, of its own jobs and only once their records are stored;
  of all of them when it reports success.\<close>

definition delivered :: "origin set \<Rightarrow> persistJob list \<Rightarrow> recorder \<Rightarrow> recorder \<Rightarrow> persistJob list \<Rightarrow> bool \<Rightarrow> bool" where
  "delivered R js s s' js' ok \<longleftrightarrow>
     billing R (rk_store s) (rk_store s') \<and> map tag js' = map tag js \<and>
     only_writes s s' \<and> (distinct (rk_finished s) \<longrightarrow> distinct (rk_finished s')) \<and> set (rk_finished s) \<subseteq> set (rk_finished s') \<and>
     set (rk_finished s') - set (rk_finished s) \<subseteq> jb_once ` {j \<in> set js. job_id j \<in> stored_ids s'} \<and>
     (ok \<longrightarrow> jb_once ` set js \<subseteq> set (rk_finished s'))"

lemma finish_fields [simp]:
  "rk_store (finish j s) = rk_store s" "stored_ids (finish j s) = stored_ids s"
  "set (rk_finished (finish j s)) = insert (jb_once j) (set (rk_finished s))"
  "distinct (rk_finished (finish j s)) \<longleftrightarrow> distinct (rk_finished s)"
  by (auto simp: finish_def stored_ids_def)

lemma finish_only: "finish j s = s\<lparr>rk_finished := rk_finished (finish j s)\<rparr>"
  by (simp add: finish_def)

lemma finish_all:
  "rk_store (fold finish js s) = rk_store s" "stored_ids (fold finish js s) = stored_ids s"
  "set (rk_finished (fold finish js s)) = jb_once ` set js \<union> set (rk_finished s)"
  "distinct (rk_finished (fold finish js s)) \<longleftrightarrow> distinct (rk_finished s)"
proof (induction js arbitrary: s)
  case (Cons j js)
  { case 1 show ?case using Cons(1) [of "finish j s"] by simp }
  { case 2 show ?case using Cons(2) [of "finish j s"] by simp }
  { case 3 show ?case using Cons(3) [of "finish j s"] by simp }
  { case 4 show ?case using Cons(4) [of "finish j s"] by simp }
qed simp_all

lemma finish_all_only: "\<exists>fs. fold finish js s = s\<lparr>rk_finished := fs\<rparr>"
proof (induction js arbitrary: s)
  case Nil
  have "s = s\<lparr>rk_finished := rk_finished s\<rparr>" by simp
  then show ?case by (metis fold_Nil id_apply)
next
  case (Cons j js)
  obtain fs where "finish j s = s\<lparr>rk_finished := fs\<rparr>" using finish_only by blast
  with Cons [of "finish j s"] show ?case by auto
qed

lemma with_ledger_fields [simp]:
  "rk_finished (with_ledger f s) = rk_finished s" "stored_ids (with_ledger f s) = stored_ids s"
  "rk_store (with_ledger f s) = (rk_store s)\<lparr>st_ledger := f (st_ledger (rk_store s))\<rparr>"
  by (simp_all add: with_ledger_def stored_ids_def)

lemma stored_at_ids: "stored_at (rk_store s) r c \<Longrightarrow> ug_ID r \<in> stored_ids s"
  unfolding stored_ids_def by (rule stored_at_id)

lemma set_recs_tags:
  "map origin recs = map (origin \<circ> jb_rec) js \<Longrightarrow> map tag (set_recs recs js) = map tag js \<and> map jb_rec (set_recs recs js) = recs"
proof -
  assume o: "map origin recs = map (origin \<circ> jb_rec) js"
  then have len: "length recs = length js" by (metis length_map)
  have "origin (recs ! i) = origin (jb_rec (js ! i))" if "i < length js" for i
    using that o len by (metis (no_types, lifting) comp_apply nth_map)
  with len show ?thesis
    by (auto simp: set_recs_def tag_def intro!: nth_equalityI)
qed

lemma tags_once: "map tag js' = map tag js \<Longrightarrow> jb_once ` set js' = jb_once ` set js"
proof -
  assume "map tag js' = map tag js"
  then have "fst ` set (map tag js') = fst ` set (map tag js)" by simp
  then show ?thesis by (simp add: image_image tag_def)
qed

lemma stored_cost_at:
  assumes "known R st" "unambiguous R" "origin r \<in> R"
  shows "stored_cost f (ug_ID r) st \<le> 0 \<or> stored_at st r (stored_cost f (ug_ID r) st)"
proof (cases "ug_ID r = '''' \<or> f \<or> find_row (ug_ID r) st = None")
  case False
  then obtain row where row: "find_row (ug_ID r) st = Some row" by auto
  then have "row \<in> set (st_usage st)" "row_id row = ug_ID r" by (auto dest: find_row_SomeD)
  from known_row [OF assms this] this row False show ?thesis by (auto simp: stored_at_def stored_cost_def)
qed (auto simp: stored_cost_def)

lemma tags_ids:
  assumes "map tag js' = map tag js"
  shows "jb_once ` {j \<in> set js'. job_id j \<in> A} \<subseteq> jb_once ` {j \<in> set js. job_id j \<in> A}"
proof
  fix n assume "n \<in> jb_once ` {j \<in> set js'. job_id j \<in> A}"
  then obtain j where j: "j \<in> set js'" "job_id j \<in> A" "n = jb_once j" by auto
  then have "tag j \<in> set (map tag js)" using assms [symmetric] by auto
  then obtain k where "k \<in> set js" "tag k = tag j" by auto
  then have "jb_once k = n" "job_id k \<in> A" using j by (simp_all add: tag_def job_id_def origin_def)
  with \<open>k \<in> set js\<close> show "n \<in> jb_once ` {j \<in> set js. job_id j \<in> A}" by auto
qed

lemma delivered_append:
  assumes "delivered R js s s1 js1 ok1" "delivered R ks s1 s' ks' ok2"
  shows "delivered R (js @ ks) s s' (js1 @ ks') (ok1 \<and> ok2)"
proof -
  note d1 = assms(1) [unfolded delivered_def] and d2 = assms(2) [unfolded delivered_def]
  have ids: "stored_ids s1 \<subseteq> stored_ids s'"
    using assms(2) billing_ids [of R "rk_store s1" "rk_store s'"] by (simp add: delivered_def stored_ids_def)
  have b: "billing R (rk_store s) (rk_store s')" using assms billing_trans by (auto simp: delivered_def)
  have "only_writes s s'" using assms only_writes_trans by (auto simp: delivered_def)
  have fin: "x \<in> jb_once ` {j \<in> set (js @ ks). job_id j \<in> stored_ids s'}"
    if x: "x \<in> set (rk_finished s')" "x \<notin> set (rk_finished s)" for x
  proof (cases "x \<in> set (rk_finished s1)")
    case True
    with x d1 have "x \<in> jb_once ` {j \<in> set js. job_id j \<in> stored_ids s1}" by blast
    with ids show ?thesis by (elim imageE) auto
  next
    case False
    with x d2 have "x \<in> jb_once ` {j \<in> set ks. job_id j \<in> stored_ids s'}" by blast
    then show ?thesis by (elim imageE) auto
  qed
  show ?thesis
    unfolding delivered_def
  proof (intro conjI impI)
    show "set (rk_finished s') - set (rk_finished s) \<subseteq> jb_once ` {j \<in> set (js @ ks). job_id j \<in> stored_ids s'}"
      using fin by blast
  qed (use b \<open>only_writes s s'\<close> d1 d2 in auto)
qed

lemma delivered_known: "delivered R js s s' js' ok \<Longrightarrow> known R (rk_store s) \<Longrightarrow> known R (rk_store s')"
  by (auto simp: delivered_def intro: billing_known)

lemma one_delivered:
  assumes "flushOneByOne ex fo i js s = (s', js', ok)" "(origin \<circ> jb_rec) ` set js \<subseteq> R" "known R (rk_store s)" "unambiguous R"
  shows "delivered R js s s' js' ok"
  using assms(1-3)
proof (induction js arbitrary: i s s' js' ok)
  case Nil
  then show ?case by (simp add: delivered_def billing.same only_writes_intro)
next
  case (Cons j js)
  obtain st r res where c: "CreateUsageRecordWithCost (fo_one fo i) (fo_oneLookup fo i) (fo_oneNow fo i) (jb_rec j) (rk_store s) = (st, r, res)"
    by (metis prod.collapse)
  have R: "origin (jb_rec j) \<in> R" using Cons.prems(2) by simp
  note cb = Create_billing [OF c R]
  define j' where "j' = j\<lparr>jb_rec := r\<rparr>"
  define cost where "cost = (case res of Inr c \<Rightarrow> c | Inl _ \<Rightarrow> stored_cost (fo_readFails fo i) (ug_ID r) st)"
  define lost where "lost \<longleftrightarrow> res = Inl WriteError"
  define s1 where "s1 = (if lost then s\<lparr>rk_store := st\<rparr>
    else finish j' (with_ledger (chargeRecord ex (fo_charge fo i) r cost) (s\<lparr>rk_store := st\<rparr>)))"
  have tag: "tag j' = tag j" "jb_once j' = jb_once j" "job_id j = ug_ID r"
    using cb(2) by (simp_all add: tag_def j'_def job_id_def) (simp add: origin_def)
  have first: "delivered R [j] s s1 [j'] (\<not> lost)"
  proof (cases lost)
    case True
    then show ?thesis using cb(1) tag by (simp add: s1_def delivered_def only_writes_intro)
  next
    case False
    have kn: "known R st" using billing_known [OF cb(1) Cons.prems(3)] .
    have "cost \<le> 0 \<or> stored_at st r cost"
    proof (cases res)
      case (Inl e)
      then show ?thesis using stored_cost_at [OF kn assms(4), of r "fo_readFails fo i"] cb(2) R by (simp add: cost_def)
    qed (use cb(3) in \<open>simp add: cost_def\<close>)
    from billing_trans [OF chargeRecord_billing [OF this, of R ex "fo_charge fo i"] cb(1)]
    have b: "billing R (rk_store s) (st\<lparr>st_ledger := chargeRecord ex (fo_charge fo i) r cost (st_ledger st)\<rparr>)" .
    have "ug_ID r \<in> row_id ` set (st_usage st)"
    proof (cases res)
      case (Inl e)
      with False cb(4) show ?thesis by (cases e) (simp_all add: lost_def)
    qed (use cb(3) in \<open>auto intro: stored_at_id\<close>)
    then have "job_id j \<in> stored_ids s1" using False tag by (simp add: s1_def stored_ids_def)
    moreover have "only_writes s s1"
      using False by (auto simp: s1_def finish_def with_ledger_def intro: only_writes_intro)
    ultimately show ?thesis
      using b tag False by (auto simp: s1_def delivered_def)
  qed
  obtain s2 js2 ok2 where rest: "flushOneByOne ex fo (i + 1) js s1 = (s2, js2, ok2)" by (metis prod.collapse)
  have "delivered R js s1 s2 js2 ok2"
    by (rule Cons.IH [OF rest]) (use Cons.prems(2) delivered_known [OF first Cons.prems(3)] in auto)
  from delivered_append [OF first this]
  have "delivered R (j # js) s s2 (j' # js2) (\<not> lost \<and> ok2)" by simp
  moreover have "s' = s2 \<and> js' = j' # js2 \<and> ok = (\<not> lost \<and> ok2)"
    using Cons.prems(1) c rest
    by (cases res; cases "projl res") (auto simp: s1_def j'_def cost_def lost_def Let_def)
  ultimately show ?case by simp
qed

lemma flush_delivered:
  assumes "flush ex fo js s = (s', js', ok)" "(origin \<circ> jb_rec) ` set js \<subseteq> R" "known R (rk_store s)" "unambiguous R"
  shows "delivered R js s s' js' ok"
proof (cases "js = []")
  case True
  with assms(1) show ?thesis by (auto simp: flush_def delivered_def intro: billing.same only_writes_intro)
next
  case False
  obtain st recs res where i: "insert_attempts fo 0 usageFlushMaxAttempts (map jb_rec js) (rk_store s) = (st, recs, res)"
    by (metis prod.collapse)
  have "origin ` set (map jb_rec js) \<subseteq> R" using assms(2) by auto
  note b = insert_attempts_billing [OF i this]
  define js1 where "js1 = set_recs recs js"
  have tags: "map tag js1 = map tag js" "map jb_rec js1 = recs"
    using set_recs_tags [of recs js] b by (simp_all add: js1_def)
  have first: "delivered R js s (s\<lparr>rk_store := st\<rparr>) js1 False"
    using b tags by (simp add: delivered_def only_writes_intro)
  have kn: "known R (rk_store (s\<lparr>rk_store := st\<rparr>))" by (rule delivered_known [OF first assms(3)])
  show ?thesis
  proof (cases res)
    case (Inl e)
    have "(origin \<circ> jb_rec) ` set js1 = set (map origin (map jb_rec js1))" by auto
    also have "\<dots> \<subseteq> R" using b tags(2) assms(2) by auto
    finally have R: "(origin \<circ> jb_rec) ` set js1 \<subseteq> R" .
    have "flushOneByOne ex fo 0 js1 (s\<lparr>rk_store := st\<rparr>) = (s', js', ok)"
      using assms(1) False i Inl by (simp add: flush_def js1_def Let_def)
    from one_delivered [OF this R kn assms(4)]
    have d: "delivered R js1 (s\<lparr>rk_store := st\<rparr>) s' js' ok" .
    have "set (rk_finished s') - set (rk_finished s) \<subseteq> jb_once ` {j \<in> set js. job_id j \<in> stored_ids s'}"
      using d tags_ids [OF tags(1), of "stored_ids s'"] by (auto simp: delivered_def)
    moreover have "only_writes s s'"
      by (rule only_writes_trans [OF only_writes_intro(2) [where st = st]]) (use d in \<open>simp add: delivered_def\<close>)
    ultimately show ?thesis using d b tags tags_once [OF tags(1)]
      by (auto simp: delivered_def intro: billing_trans)
  next
    case (Inr costs)
    let ?l = "with_ledger (chargeBatch ex (fo_batch fo) (fo_charge fo) (zip recs costs)) (s\<lparr>rk_store := st\<rparr>)"
    have at: "list_all2 (stored_at st) recs costs" using b Inr by simp
    have s': "s' = fold finish js1 ?l" "js' = js1" "ok"
      using assms(1) False i Inr by (auto simp: flush_def js1_def Let_def)
    obtain fs where fs: "s' = ?l\<lparr>rk_finished := fs\<rparr>" using finish_all_only [of js1 ?l] s' by auto
    have store: "rk_store s' = st\<lparr>st_ledger := chargeBatch ex (fo_batch fo) (fo_charge fo) (zip recs costs) (st_ledger st)\<rparr>"
      using s' by (simp add: finish_all)
    have "billing R (rk_store s) (rk_store s')"
      unfolding store using billing_trans [OF chargeBatch_billing [OF at]] b by blast
    moreover have "\<forall>j \<in> set js. job_id j \<in> stored_ids s'"
    proof
      fix j assume "j \<in> set js"
      then obtain n where n: "n < length js" "j = js ! n" by (metis in_set_conv_nth)
      have len: "length recs = length js" using tags by (metis length_map)
      then have "stored_at st (recs ! n) (costs ! n)" using at n by (simp add: list_all2_conv_all_nth)
      moreover have "origin (recs ! n) = origin (jb_rec j)"
        using b n len by (metis nth_map length_map)
      ultimately show "job_id j \<in> stored_ids s'"
        using stored_at_id by (force simp: stored_ids_def store job_id_def origin_def)
    qed
    moreover have "only_writes s s'" using fs by (auto simp: with_ledger_def intro: only_writes_intro)
    moreover note tags_once [OF tags(1)]
    ultimately show ?thesis
      using tags s' by (auto simp: delivered_def finish_all)
  qed
qed


end
