(* ===== verification/Bookkeeping.thy ===== *)
theory Bookkeeping
  imports Delivery
begin

text \<open>
  The recorder over a whole run, with requests, worker, shutdown and maintenance in any order and with any failures:
  no job is lost sight of, every stored record is counted once, and every cost is collected once.
\<close>

section \<open>Jobs\<close>

definition origins :: "store \<Rightarrow> recorder \<Rightarrow> origin set" where
  "origins st0 s = (\<lambda>r. origin (su_record r)) ` set (st_usage st0) \<union> (origin \<circ> jb_rec) ` set (rk_jobs s)"

definition in_flight :: "recorder \<Rightarrow> persistJob list" where
  "in_flight s = rk_queue s @ rk_batch s @ rk_pending s"

text \<open>Every job is waiting or finished, the jobs of the worker's batch are finished or pending, and a job is finished
  only when its record is stored or given up.\<close>

definition jobs_ok :: "recorder \<Rightarrow> bool" where
  "jobs_ok s \<longleftrightarrow>
     tag ` set (in_flight s) \<subseteq> tag ` set (rk_jobs s) \<and>
     jb_once ` set (rk_jobs s) = jb_once ` set (rk_queue s @ rk_pending s) \<union> set (rk_finished s) \<and>
     jb_once ` set (rk_batch s) \<subseteq> jb_once ` set (rk_pending s) \<union> set (rk_finished s) \<and>
     set (rk_finished s) \<subseteq> jb_once ` {j \<in> set (rk_jobs s). job_id j \<in> stored_ids s \<or> tag j \<in> tag ` set (rk_lost s)}"

definition worker_ok :: "recorder \<Rightarrow> bool" where
  "worker_ok s \<longleftrightarrow> distinct (rk_finished s) \<and> map jb_once (rk_jobs s) = [0..<length (rk_jobs s)] \<and>
     (rk_stop s \<longrightarrow> rk_closed s) \<and> (rk_pc s = Top \<longrightarrow> rk_batch s = [] \<or> rk_pending s \<noteq> []) \<and>
     (rk_pc s = Reading \<longrightarrow> rk_pending s = []) \<and>
     (rk_pc s = Exited \<longrightarrow> rk_closed s \<and> rk_queue s = [] \<and> rk_batch s = [] \<and> rk_pending s = [])"

text \<open>What a step does to the store, seen from the records it may insert.\<close>

lemma origins_mono:
  "set (rk_jobs s) \<subseteq> set (rk_jobs s') \<Longrightarrow> origins st0 s \<subseteq> origins st0 s'"
  by (auto simp: origins_def)

lemma unambiguous_mono: "unambiguous R' \<Longrightarrow> R \<subseteq> R' \<Longrightarrow> unambiguous R"
  by (auto simp: unambiguous_def inj_on_def)

lemma tags_origins:
  assumes "tag ` set js \<subseteq> tag ` set (rk_jobs s)"
  shows "(origin \<circ> jb_rec) ` set js \<subseteq> origins st0 s"
proof -
  have "snd ` tag ` set js \<subseteq> snd ` tag ` set (rk_jobs s)" using assms by auto
  then show ?thesis by (auto simp: origins_def tag_def image_image)
qed

lemma one_only_writes: "flushOneByOne ex fo i js s = (s', js', ok) \<Longrightarrow> only_writes s s'"
proof (induction js arbitrary: i s s' js' ok)
  case (Cons j js)
  obtain st r res where c: "CreateUsageRecordWithCost (fo_one fo i) (fo_oneLookup fo i) (fo_oneNow fo i) (jb_rec j) (rk_store s) = (st, r, res)"
    by (metis prod.collapse)
  define s1 where "s1 = (if res = Inl WriteError then s\<lparr>rk_store := st\<rparr>
    else finish (j\<lparr>jb_rec := r\<rparr>) (with_ledger (chargeRecord ex (fo_charge fo i) r
      (case res of Inr c \<Rightarrow> c | Inl _ \<Rightarrow> stored_cost (fo_readFails fo i) (ug_ID r) st)) (s\<lparr>rk_store := st\<rparr>)))"
  have "only_writes s s1" by (auto simp: s1_def finish_def with_ledger_def intro: only_writes_intro)
  moreover obtain js2 ok2 where "flushOneByOne ex fo (i + 1) js s1 = (s', js2, ok2)"
    using Cons.prems c by (cases res; cases "projl res") (auto simp: s1_def Let_def split: prod.splits)
  then have "only_writes s1 s'" by (rule Cons.IH)
  ultimately show ?case by (rule only_writes_trans)
qed (auto intro: only_writes_intro)

lemma flush_only_writes:
  assumes "flush ex fo js s = (s', js', ok)"
  shows "only_writes s s'"
proof (cases "js = []")
  case False
  obtain st recs res where i: "insert_attempts fo 0 usageFlushMaxAttempts (map jb_rec js) (rk_store s) = (st, recs, res)"
    by (metis prod.collapse)
  show ?thesis
  proof (cases res)
    case (Inl e)
    with assms False i have "flushOneByOne ex fo 0 (set_recs recs js) (s\<lparr>rk_store := st\<rparr>) = (s', js', ok)"
      by (simp add: flush_def Let_def)
    from only_writes_trans [OF only_writes_intro(2) one_only_writes [OF this]] show ?thesis .
  next
    case (Inr costs)
    let ?l = "with_ledger (chargeBatch ex (fo_batch fo) (fo_charge fo) (zip recs costs)) (s\<lparr>rk_store := st\<rparr>)"
    have "s' = fold finish (set_recs recs js) ?l" using assms False i Inr by (auto simp: flush_def Let_def)
    with finish_all_only [of "set_recs recs js" ?l] show ?thesis
      by (auto simp: with_ledger_def intro: only_writes_intro)
  qed
qed (use assms in \<open>auto simp: flush_def intro: only_writes_intro\<close>)

lemma only_writes_fields:
  assumes "only_writes s s'"
  shows "rk_queue s' = rk_queue s" "rk_closed s' = rk_closed s" "rk_stop s' = rk_stop s" "rk_flushFailed s' = rk_flushFailed s"
    "rk_batch s' = rk_batch s" "rk_pending s' = rk_pending s" "rk_pc s' = rk_pc s" "rk_lost s' = rk_lost s" "rk_jobs s' = rk_jobs s"
  using assms by (auto simp: only_writes_def)

text \<open>What the worker does after it wrote \<open>js\<close>.\<close>

lemma retry_cases:
  assumes "worker_top ex fo gaveUp s = s'" "worker_ok s" "gaveUp \<longrightarrow> rk_stop s"
  obtains (idle) "rk_pending s = []" "s' = s\<lparr>rk_pc := Reading\<rparr>"
  | (written) s1 js where "flush ex fo (rk_pending s) s = (s1, js, True)"
      "s' = s1\<lparr>rk_batch := js, rk_pending := [], rk_pc := Reading\<rparr>"
  | (kept) s1 js where "flush ex fo (rk_pending s) s = (s1, js, False)" "rk_pending s \<noteq> []"
      "s' = s1\<lparr>rk_batch := js, rk_pending := js, rk_flushFailed := True\<rparr>"
  | (gone) s1 js where "flush ex fo (rk_pending s) s = (s1, js, False)" "rk_closed s"
      "s' = leave (logPendingAbandoned js (s1\<lparr>rk_batch := js, rk_pending := js, rk_flushFailed := True\<rparr>))"
proof (cases "rk_pending s = []")
  case True
  with assms(1) show thesis by (intro idle) (auto simp: worker_top_def)
next
  case False
  obtain s1 js ok where f: "flush ex fo (rk_pending s) s = (s1, js, ok)" by (metis prod.collapse)
  show thesis
  proof (cases ok)
    case True
    with assms(1) False f show thesis by (intro written [of s1 js]) (auto simp: worker_top_def)
  next
    case notok: False
    show thesis
    proof (cases gaveUp)
      case True
      with assms False notok f show thesis
        by (intro gone [of s1 js]) (auto simp: worker_top_def worker_ok_def Let_def)
    next
      case False
      with assms \<open>rk_pending s \<noteq> []\<close> notok f show thesis
        by (intro kept [of s1 js]) (auto simp: worker_top_def Let_def)
    qed
  qed
qed

lemma take_cases:
  assumes "worker_read ex fo gaveUp k s = s'" "worker_ok s" "gaveUp \<longrightarrow> rk_stop s"
  obtains (written) s1 js where "flush ex fo (rk_batch s @ take k (rk_queue s)) (s\<lparr>rk_queue := drop k (rk_queue s)\<rparr>) = (s1, js, True)"
      "s' = s1\<lparr>rk_flushFailed := False, rk_batch := [], rk_pc := Top\<rparr>"
  | (kept) s1 js where "flush ex fo (rk_batch s @ take k (rk_queue s)) (s\<lparr>rk_queue := drop k (rk_queue s)\<rparr>) = (s1, js, False)"
      "s' = s1\<lparr>rk_pending := js, rk_flushFailed := True, rk_batch := [], rk_pc := Top\<rparr>"
  | (gone) s1 js where "flush ex fo (rk_batch s @ take k (rk_queue s)) (s\<lparr>rk_queue := drop k (rk_queue s)\<rparr>) = (s1, js, False)"
      "rk_closed s" "s' = leave (logPendingAbandoned js (s1\<lparr>rk_pending := js, rk_flushFailed := True\<rparr>))"
proof -
  obtain s1 js ok where f: "flush ex fo (rk_batch s @ take k (rk_queue s)) (s\<lparr>rk_queue := drop k (rk_queue s)\<rparr>) = (s1, js, ok)"
    by (metis prod.collapse)
  show thesis
  proof (cases ok)
    case True
    with assms(1) f show thesis by (intro written [of s1 js]) (auto simp: worker_read_def)
  next
    case notok: False
    show thesis
    proof (cases gaveUp)
      case True
      with assms notok f show thesis
        by (intro gone [of s1 js]) (auto simp: worker_read_def worker_ok_def Let_def)
    next
      case False
      with assms notok f show thesis
        by (intro kept [of s1 js]) (auto simp: worker_read_def Let_def)
    qed
  qed
qed

lemma finished_tags:
  assumes "tag ` set js \<subseteq> tag ` set ks"
  shows "jb_once ` {j \<in> set js. job_id j \<in> A} \<subseteq> jb_once ` {j \<in> set ks. job_id j \<in> A}"
proof
  fix n assume "n \<in> jb_once ` {j \<in> set js. job_id j \<in> A}"
  then obtain j where j: "j \<in> set js" "job_id j \<in> A" "n = jb_once j" by auto
  then obtain k where "k \<in> set ks" "tag k = tag j" using assms by (metis (no_types, lifting) image_iff subsetD)
  then have "jb_once k = n" "job_id k \<in> A" using j by (simp_all add: tag_def job_id_def origin_def)
  with \<open>k \<in> set ks\<close> show "n \<in> jb_once ` {j \<in> set ks. job_id j \<in> A}" by auto
qed

definition dealt_with :: "recorder \<Rightarrow> store \<Rightarrow> nat set" where
  "dealt_with s st = jb_once ` {j \<in> set (rk_jobs s). job_id j \<in> row_id ` set (st_usage st) \<or> tag j \<in> tag ` set (rk_lost s)}"

lemma dealt_with_mono:
  "row_id ` set (st_usage st) \<subseteq> row_id ` set (st_usage st') \<Longrightarrow> set (rk_jobs s) \<subseteq> set (rk_jobs s') \<Longrightarrow>
   set (rk_lost s) \<subseteq> set (rk_lost s') \<Longrightarrow> dealt_with s st \<subseteq> dealt_with s' st'"
  unfolding dealt_with_def by (intro image_mono) auto

lemma write_accounted:
  assumes "set (rk_finished s) \<subseteq> dealt_with s (rk_store s)" "tag ` set js0 \<subseteq> tag ` set (rk_jobs s)"
    and "delivered R js0 s s1 js ok"
  shows "set (rk_finished s1) \<subseteq> dealt_with s (rk_store s1)"
proof -
  have "row_id ` set (st_usage (rk_store s)) \<subseteq> row_id ` set (st_usage (rk_store s1))"
    using assms(3) billing_ids [of R "rk_store s" "rk_store s1"] by (simp add: delivered_def)
  then have "dealt_with s (rk_store s) \<subseteq> dealt_with s (rk_store s1)" by (rule dealt_with_mono) simp_all
  then have old: "set (rk_finished s) \<subseteq> dealt_with s (rk_store s1)" using assms(1) by (rule subset_trans [rotated])
  have "jb_once ` {j \<in> set js0. job_id j \<in> stored_ids s1} \<subseteq> jb_once ` {j \<in> set (rk_jobs s). job_id j \<in> stored_ids s1}"
    by (rule finished_tags [OF assms(2)])
  also have "\<dots> \<subseteq> dealt_with s (rk_store s1)" by (auto simp: dealt_with_def stored_ids_def)
  finally have new: "jb_once ` {j \<in> set js0. job_id j \<in> stored_ids s1} \<subseteq> dealt_with s (rk_store s1)" .
  have "set (rk_finished s1) - set (rk_finished s) \<subseteq> jb_once ` {j \<in> set js0. job_id j \<in> stored_ids s1}"
    using assms(3) by (simp only: delivered_def)
  then have "set (rk_finished s1) - set (rk_finished s) \<subseteq> dealt_with s (rk_store s1)" using new by (rule subset_trans)
  with old show ?thesis by blast
qed

lemma jobs_ok_iff:
  "jobs_ok s \<longleftrightarrow>
     tag ` set (rk_queue s) \<subseteq> tag ` set (rk_jobs s) \<and> tag ` set (rk_batch s) \<subseteq> tag ` set (rk_jobs s) \<and>
     tag ` set (rk_pending s) \<subseteq> tag ` set (rk_jobs s) \<and>
     jb_once ` set (rk_jobs s) = jb_once ` set (rk_queue s) \<union> jb_once ` set (rk_pending s) \<union> set (rk_finished s) \<and>
     jb_once ` set (rk_batch s) \<subseteq> jb_once ` set (rk_pending s) \<union> set (rk_finished s) \<and>
     set (rk_finished s) \<subseteq> dealt_with s (rk_store s)"
  by (simp add: jobs_ok_def in_flight_def dealt_with_def stored_ids_def image_Un Un_subset_iff ac_simps)

lemma tags_image: "map tag js' = map tag js \<Longrightarrow> tag ` set js' = tag ` set js"
  by (metis set_map)

lemma abandon:
  assumes "rk_closed s"
  shows "rk_store (leave (logPendingAbandoned js s)) = rk_store s"
    "set (rk_finished (leave (logPendingAbandoned js s))) = jb_once ` set (js @ rk_queue s) \<union> set (rk_finished s)"
    "distinct (rk_finished (leave (logPendingAbandoned js s))) \<longleftrightarrow> distinct (rk_finished s)"
    "rk_lost (leave (logPendingAbandoned js s)) = rk_lost s @ js @ rk_queue s"
    "rk_queue (leave (logPendingAbandoned js s)) = []" "rk_batch (leave (logPendingAbandoned js s)) = []"
    "rk_pending (leave (logPendingAbandoned js s)) = []" "rk_pc (leave (logPendingAbandoned js s)) = Exited"
    "rk_jobs (leave (logPendingAbandoned js s)) = rk_jobs s" "rk_closed (leave (logPendingAbandoned js s))"
    "rk_stop (leave (logPendingAbandoned js s)) = rk_stop s"
proof -
  let ?g = "js @ rk_queue s"
  obtain fs where fs: "fold finish ?g s = s\<lparr>rk_finished := fs\<rparr>" using finish_all_only by blast
  have eq: "leave (logPendingAbandoned js s) = s\<lparr>rk_finished := fs, rk_lost := rk_lost s @ ?g, rk_queue := [],
      rk_batch := [], rk_pending := [], rk_pc := Exited\<rparr>"
    using assms fs by (simp add: leave_def logPendingAbandoned_def Let_def)
  have fin: "rk_finished (fold finish ?g s) = fs" using fs by simp
  show "set (rk_finished (leave (logPendingAbandoned js s))) = jb_once ` set ?g \<union> set (rk_finished s)"
    using finish_all(3) [of ?g s] fin by (simp add: eq)
  show "distinct (rk_finished (leave (logPendingAbandoned js s))) \<longleftrightarrow> distinct (rk_finished s)"
    using finish_all(4) [of ?g s] fin by (simp add: eq)
  show "rk_store (leave (logPendingAbandoned js s)) = rk_store s" "rk_lost (leave (logPendingAbandoned js s)) = rk_lost s @ js @ rk_queue s"
    "rk_queue (leave (logPendingAbandoned js s)) = []" "rk_batch (leave (logPendingAbandoned js s)) = []" "rk_pending (leave (logPendingAbandoned js s)) = []" "rk_pc (leave (logPendingAbandoned js s)) = Exited"
    "rk_jobs (leave (logPendingAbandoned js s)) = rk_jobs s" "rk_closed (leave (logPendingAbandoned js s))" "rk_stop (leave (logPendingAbandoned js s)) = rk_stop s"
    using assms by (simp_all add: eq)
qed

section \<open>Every step keeps the books\<close>

definition good :: "store \<Rightarrow> recorder \<Rightarrow> bool" where
  "good st0 s \<longleftrightarrow> jobs_ok s \<and> worker_ok s \<and> known (origins st0 s) (rk_store s)"

lemma write_facts:
  assumes g: "good st0 s" and u: "unambiguous (origins st0 s)"
    and f: "flush ex fo b (s\<lparr>rk_queue := q\<rparr>) = (s1, js, ok)" and b: "tag ` set b \<subseteq> tag ` set (rk_jobs s)"
  shows "billing (origins st0 s) (rk_store s) (rk_store s1)" "known (origins st0 s) (rk_store s1)"
    "tag ` set js = tag ` set b" "jb_once ` set js = jb_once ` set b"
    "set (rk_finished s) \<subseteq> set (rk_finished s1)" "set (rk_finished s1) \<subseteq> set (rk_finished s) \<union> jb_once ` set b"
    "ok \<Longrightarrow> jb_once ` set b \<subseteq> set (rk_finished s1)" "set (rk_finished s1) \<subseteq> dealt_with s (rk_store s1)"
    "distinct (rk_finished s1)"
    "rk_queue s1 = q" "rk_closed s1 = rk_closed s" "rk_stop s1 = rk_stop s"
    "rk_batch s1 = rk_batch s" "rk_pending s1 = rk_pending s" "rk_pc s1 = rk_pc s" "rk_lost s1 = rk_lost s" "rk_jobs s1 = rk_jobs s"
proof -
  let ?R = "origins st0 s" and ?s = "s\<lparr>rk_queue := q\<rparr>"
  have d: "delivered ?R b ?s s1 js ok"
    by (rule flush_delivered [OF f tags_origins [OF b] _ u]) (use g in \<open>simp add: good_def\<close>)
  have d': "billing ?R (rk_store s) (rk_store s1)" "map tag js = map tag b" "distinct (rk_finished s) \<Longrightarrow> distinct (rk_finished s1)"
    "set (rk_finished s) \<subseteq> set (rk_finished s1)" "ok \<Longrightarrow> jb_once ` set b \<subseteq> set (rk_finished s1)"
    "set (rk_finished s1) - set (rk_finished s) \<subseteq> jb_once ` {j \<in> set b. job_id j \<in> stored_ids s1}"
    using d by (simp_all add: delivered_def)
  show "billing ?R (rk_store s) (rk_store s1)" "set (rk_finished s) \<subseteq> set (rk_finished s1)"
    "ok \<Longrightarrow> jb_once ` set b \<subseteq> set (rk_finished s1)" by (rule d'(1) d'(4) d'(5), assumption?)+
  show "known ?R (rk_store s1)" using billing_known [OF d'(1)] g by (simp add: good_def)
  show "tag ` set js = tag ` set b" by (rule tags_image [OF d'(2)])
  show "jb_once ` set js = jb_once ` set b" by (rule tags_once [OF d'(2)])
  show "set (rk_finished s1) \<subseteq> set (rk_finished s) \<union> jb_once ` set b" using d'(6) by blast
  show "distinct (rk_finished s1)" using d'(3) g by (simp add: good_def worker_ok_def)
  have "set (rk_finished ?s) \<subseteq> dealt_with ?s (rk_store ?s)"
    using g by (simp add: good_def jobs_ok_iff dealt_with_def)
  from write_accounted [OF this _ d] b show "set (rk_finished s1) \<subseteq> dealt_with s (rk_store s1)"
    by (simp add: dealt_with_def)
  note w = only_writes_fields [OF flush_only_writes [OF f]]
  show "rk_queue s1 = q" "rk_closed s1 = rk_closed s" "rk_stop s1 = rk_stop s"
    "rk_batch s1 = rk_batch s" "rk_pending s1 = rk_pending s" "rk_pc s1 = rk_pc s" "rk_lost s1 = rk_lost s" "rk_jobs s1 = rk_jobs s"
    by (simp_all add: w)
qed

lemma goodD:
  assumes "good st0 s"
  shows "tag ` set (rk_queue s) \<subseteq> tag ` set (rk_jobs s)" "tag ` set (rk_batch s) \<subseteq> tag ` set (rk_jobs s)"
    "tag ` set (rk_pending s) \<subseteq> tag ` set (rk_jobs s)"
    "jb_once ` set (rk_jobs s) = jb_once ` set (rk_queue s) \<union> jb_once ` set (rk_pending s) \<union> set (rk_finished s)"
    "jb_once ` set (rk_batch s) \<subseteq> jb_once ` set (rk_pending s) \<union> set (rk_finished s)"
    "set (rk_finished s) \<subseteq> dealt_with s (rk_store s)"
  using assms by (simp_all add: good_def jobs_ok_iff)

lemma dealt_with_fields [simp]:
  "dealt_with (s\<lparr>rk_store := x1\<rparr>) st = dealt_with s st" "dealt_with (s\<lparr>rk_batch := b\<rparr>) st = dealt_with s st"
  "dealt_with (s\<lparr>rk_pending := b\<rparr>) st = dealt_with s st" "dealt_with (s\<lparr>rk_pc := c\<rparr>) st = dealt_with s st"
  "dealt_with (s\<lparr>rk_flushFailed := f\<rparr>) st = dealt_with s st" "dealt_with (s\<lparr>rk_queue := b\<rparr>) st = dealt_with s st"
  "dealt_with (s\<lparr>rk_finished := n\<rparr>) st = dealt_with s st" "dealt_with (s\<lparr>rk_closed := f\<rparr>) st = dealt_with s st"
  "dealt_with (s\<lparr>rk_stop := f\<rparr>) st = dealt_with s st"
  by (simp_all add: dealt_with_def)

lemma dealt_with_eq: "rk_jobs s1 = rk_jobs s \<Longrightarrow> rk_lost s1 = rk_lost s \<Longrightarrow> dealt_with s1 st = dealt_with s st"
  by (simp add: dealt_with_def)

lemma abandoned_accounted:
  assumes "tag ` set js \<subseteq> tag ` set (rk_jobs s)" "rk_jobs s' = rk_jobs s" "set js \<subseteq> set (rk_lost s')"
  shows "jb_once ` set js \<subseteq> dealt_with s' st"
proof
  fix n assume "n \<in> jb_once ` set js"
  then obtain j where j: "j \<in> set js" "n = jb_once j" by auto
  then obtain k where k: "k \<in> set (rk_jobs s)" "tag k = tag j" using assms(1) by (metis (no_types, lifting) image_iff subsetD)
  then have "tag k \<in> tag ` set (rk_lost s')" "jb_once k = n" using j assms(3) by (auto simp: tag_def)
  with k(1) assms(2) show "n \<in> dealt_with s' st" by (auto simp: dealt_with_def)
qed

lemma goodI:
  assumes "tag ` set (rk_queue s) \<subseteq> tag ` set (rk_jobs s)" "tag ` set (rk_batch s) \<subseteq> tag ` set (rk_jobs s)"
    "tag ` set (rk_pending s) \<subseteq> tag ` set (rk_jobs s)"
    "jb_once ` set (rk_jobs s) = jb_once ` set (rk_queue s) \<union> jb_once ` set (rk_pending s) \<union> set (rk_finished s)"
    "jb_once ` set (rk_batch s) \<subseteq> jb_once ` set (rk_pending s) \<union> set (rk_finished s)"
    "set (rk_finished s) \<subseteq> dealt_with s (rk_store s)" "worker_ok s" "known (origins st0 s) (rk_store s)"
  shows "good st0 s"
  using assms by (simp add: good_def jobs_ok_iff)

lemma origins_eq: "rk_jobs s' = rk_jobs s \<Longrightarrow> origins st0 s' = origins st0 s"
  by (simp add: origins_def)

lemma worker_okD:
  assumes "worker_ok s"
  shows "distinct (rk_finished s)" "map jb_once (rk_jobs s) = [0..<length (rk_jobs s)]" "rk_stop s \<longrightarrow> rk_closed s"
  using assms by (simp_all add: worker_ok_def)

text \<open>Jobs that are queued, to be written, finished, before and after a write.\<close>

lemma cover:
  fixes J Q P F F1 :: "nat set"
  assumes "J = Q \<union> P \<union> F" "F \<subseteq> F1" "F1 \<subseteq> F \<union> P"
  shows "P \<subseteq> F1 \<Longrightarrow> J = Q \<union> F1" "J = Q \<union> P \<union> F1" "J = P \<union> Q \<union> F1"
  using assms by blast+

lemma retry_good:
  assumes g: "good st0 s" and u: "unambiguous (origins st0 s)" and pc: "rk_pc s = Top" "gaveUp \<longrightarrow> rk_stop s"
  shows "good st0 (worker_top ex fo gaveUp s) \<and> rk_jobs (worker_top ex fo gaveUp s) = rk_jobs s \<and>
    billing (origins st0 s) (rk_store s) (rk_store (worker_top ex fo gaveUp s))"
proof -
  have w: "worker_ok s" using g by (simp add: good_def)
  note gd = goodD [OF g]
  show ?thesis
  proof (rule retry_cases [OF HOL.refl w pc(2), of ex fo])
    assume "rk_pending s = []" "worker_top ex fo gaveUp s = s\<lparr>rk_pc := Reading\<rparr>"
    then show ?thesis using g by (simp add: good_def jobs_ok_iff worker_ok_def billing.same origins_eq [of "_\<lparr>rk_pc := _\<rparr>" s])
  next
    fix s1 js assume "flush ex fo (rk_pending s) s = (s1, js, True)"
      and s': "worker_top ex fo gaveUp s = s1\<lparr>rk_batch := js, rk_pending := [], rk_pc := Reading\<rparr>"
    then have "flush ex fo (rk_pending s) (s\<lparr>rk_queue := rk_queue s\<rparr>) = (s1, js, True)" by simp
    note f = write_facts [OF g u this gd(3)]
    have "dealt_with s1 (rk_store s1) = dealt_with s (rk_store s1)" by (rule dealt_with_eq) (simp_all add: f)
    moreover have "jb_once ` set (rk_jobs s) = jb_once ` set (rk_queue s) \<union> set (rk_finished s1)"
      by (rule cover(1) [OF gd(4) f(5,6)]) (simp add: f(7))
    moreover have "jb_once ` set js \<subseteq> set (rk_finished s1)" using f(4,7) by simp
    moreover have "origins st0 (worker_top ex fo gaveUp s) = origins st0 s" by (rule origins_eq) (simp add: s' f)
    moreover have "worker_ok (worker_top ex fo gaveUp s)"
      using worker_okD [OF w] by (simp add: s' worker_ok_def f)
    ultimately have "good st0 (worker_top ex fo gaveUp s)"
      by (intro goodI) (simp_all add: s' f gd)
    then show ?thesis using f(1) by (simp add: s' f(17))
  next
    fix s1 js assume "flush ex fo (rk_pending s) s = (s1, js, False)" and ne: "rk_pending s \<noteq> []"
      and s': "worker_top ex fo gaveUp s = s1\<lparr>rk_batch := js, rk_pending := js, rk_flushFailed := True\<rparr>"
    then have "flush ex fo (rk_pending s) (s\<lparr>rk_queue := rk_queue s\<rparr>) = (s1, js, False)" by simp
    note f = write_facts [OF g u this gd(3)]
    have "dealt_with s1 (rk_store s1) = dealt_with s (rk_store s1)" by (rule dealt_with_eq) (simp_all add: f)
    moreover have "jb_once ` set (rk_jobs s) = jb_once ` set (rk_queue s) \<union> jb_once ` set js \<union> set (rk_finished s1)"
      unfolding f(4) by (rule cover(2) [OF gd(4) f(5,6)])
    moreover have "js \<noteq> []" using f(4) ne by auto
    moreover have "origins st0 (worker_top ex fo gaveUp s) = origins st0 s" by (rule origins_eq) (simp add: s' f)
    moreover have "worker_ok (worker_top ex fo gaveUp s)"
      using worker_okD [OF w] pc \<open>js \<noteq> []\<close> by (simp add: s' worker_ok_def f)
    ultimately have "good st0 (worker_top ex fo gaveUp s)"
      by (intro goodI) (simp_all add: s' f gd)
    then show ?thesis using f(1) by (simp add: s' f(17))
  next
    fix s1 js assume "flush ex fo (rk_pending s) s = (s1, js, False)" and closed: "rk_closed s"
      and s': "worker_top ex fo gaveUp s =
        leave (logPendingAbandoned js (s1\<lparr>rk_batch := js, rk_pending := js, rk_flushFailed := True\<rparr>))"
    then have "flush ex fo (rk_pending s) (s\<lparr>rk_queue := rk_queue s\<rparr>) = (s1, js, False)" by simp
    note f = write_facts [OF g u this gd(3)]
    define t where "t = s1\<lparr>rk_batch := js, rk_pending := js, rk_flushFailed := True\<rparr>"
    have t: "rk_closed t" "rk_store t = rk_store s1" "rk_finished t = rk_finished s1" "rk_queue t = rk_queue s"
      "rk_jobs t = rk_jobs s" "rk_lost t = rk_lost s" "rk_stop t = rk_stop s"
      using closed f by (simp_all add: t_def)
    note ab = abandon [OF t(1), of js]
    define s2 where "s2 = leave (logPendingAbandoned js t)"
    note ab = ab [folded s2_def]
    have tags: "tag ` set (js @ rk_queue s) \<subseteq> tag ` set (rk_jobs s)" using f(3) gd(1,3) by (simp only: set_append image_Un Un_subset_iff)
    have "jb_once ` set (js @ rk_queue s) \<subseteq> dealt_with s2 (rk_store s1)"
      by (rule abandoned_accounted [OF tags]) (simp_all add: ab t)
    moreover have "dealt_with s (rk_store s1) \<subseteq> dealt_with s2 (rk_store s1)"
      by (rule dealt_with_mono) (auto simp: ab t)
    ultimately have "set (rk_finished s2) \<subseteq> dealt_with s2 (rk_store s1)"
      using f(8) by (auto simp: ab t)
    moreover have "jb_once ` set (rk_jobs s) = set (rk_finished s2)"
      using cover(3) [OF gd(4) f(5,6)] by (simp add: ab t image_Un f(4))
    moreover have "origins st0 s2 = origins st0 s" by (rule origins_eq) (simp add: ab t)
    moreover have "worker_ok s2" using worker_okD [OF w] closed f(9) by (simp add: worker_ok_def ab t)
    ultimately have "good st0 s2" using f(2) by (intro goodI) (simp_all add: ab t)
    then show ?thesis
      unfolding s' t_def [symmetric] s2_def [symmetric] using f(1) by (simp add: ab t)
  qed
qed

lemma take_tags:
  assumes "good st0 s"
  shows "tag ` set (rk_batch s @ take k (rk_queue s)) \<subseteq> tag ` set (rk_jobs s)"
    "tag ` set (drop k (rk_queue s)) \<subseteq> tag ` set (rk_jobs s)"
proof -
  have "set (take k (rk_queue s)) \<subseteq> set (rk_queue s)" "set (drop k (rk_queue s)) \<subseteq> set (rk_queue s)"
    by (rule set_take_subset set_drop_subset)+
  then have "tag ` set (take k (rk_queue s)) \<subseteq> tag ` set (rk_jobs s)" "tag ` set (drop k (rk_queue s)) \<subseteq> tag ` set (rk_jobs s)"
    using goodD(1) [OF assms] by (meson image_mono subset_trans)+
  then show "tag ` set (rk_batch s @ take k (rk_queue s)) \<subseteq> tag ` set (rk_jobs s)"
    "tag ` set (drop k (rk_queue s)) \<subseteq> tag ` set (rk_jobs s)"
    using goodD(2) [OF assms] by (simp_all only: set_append image_Un Un_subset_iff simp_thms)
qed

text \<open>The jobs of the queue are the ones that are taken and the others.\<close>

lemma take_cover:
  assumes "good st0 s" "rk_pending s = []"
  shows "jb_once ` set (rk_jobs s) = jb_once ` set (drop k (rk_queue s)) \<union>
    jb_once ` set (rk_batch s @ take k (rk_queue s)) \<union> set (rk_finished s)"
proof -
  have "set (rk_queue s) = set (take k (rk_queue s)) \<union> set (drop k (rk_queue s))"
    by (metis append_take_drop_id set_append)
  then have "jb_once ` set (rk_queue s) = jb_once ` set (take k (rk_queue s)) \<union> jb_once ` set (drop k (rk_queue s))"
    by (simp only: image_Un)
  moreover have "jb_once ` set (rk_batch s) \<subseteq> set (rk_finished s)" using goodD(5) [OF assms(1)] assms(2) by simp
  ultimately show ?thesis
    using goodD(4) [OF assms(1)] assms(2) by (simp only: set_append image_Un list.set image_empty Un_empty_right) auto
qed

lemma take_good:
  assumes g: "good st0 s" and u: "unambiguous (origins st0 s)"
    and pc: "rk_pc s = Reading" "0 < k" "k \<le> length (rk_queue s)" "gaveUp \<longrightarrow> rk_stop s"
  shows "good st0 (worker_read ex fo gaveUp k s) \<and> rk_jobs (worker_read ex fo gaveUp k s) = rk_jobs s \<and>
    billing (origins st0 s) (rk_store s) (rk_store (worker_read ex fo gaveUp k s))"
proof -
  have w: "worker_ok s" using g by (simp add: good_def)
  note gd = goodD [OF g]
  have idle: "rk_pending s = []" using w pc(1) by (simp add: worker_ok_def)
  let ?b = "rk_batch s @ take k (rk_queue s)" and ?q = "drop k (rk_queue s)"
  note tags = take_tags [OF g, of k] and cov = take_cover [OF g idle, of k]
  have ne: "jb_once ` set ?b \<noteq> {}" using pc(2,3) by auto
  show ?thesis
  proof (rule take_cases [OF HOL.refl w pc(4), of ex fo k])
    fix s1 js assume fl: "flush ex fo ?b (s\<lparr>rk_queue := ?q\<rparr>) = (s1, js, True)"
      and s': "worker_read ex fo gaveUp k s = s1\<lparr>rk_flushFailed := False, rk_batch := [], rk_pc := Top\<rparr>"
    note f = write_facts [OF g u fl tags(1)]
    have "dealt_with s1 (rk_store s1) = dealt_with s (rk_store s1)" by (rule dealt_with_eq) (simp_all only: f)
    moreover have "jb_once ` set (rk_jobs s) = jb_once ` set ?q \<union> set (rk_finished s1)"
      by (rule cover(1) [OF cov f(5,6)]) (rule f(7), simp)
    moreover have "origins st0 (worker_read ex fo gaveUp k s) = origins st0 s" by (rule origins_eq) (simp add: s' f)
    moreover have "worker_ok (worker_read ex fo gaveUp k s)"
      using worker_okD [OF w] by (simp add: s' worker_ok_def f)
    ultimately have "good st0 (worker_read ex fo gaveUp k s)"
      by (intro goodI) (simp_all add: s' f(8-17) f(2) tags(2) idle)
    then show ?thesis using f(1) by (simp add: s' f(17))
  next
    fix s1 js assume fl: "flush ex fo ?b (s\<lparr>rk_queue := ?q\<rparr>) = (s1, js, False)"
      and s': "worker_read ex fo gaveUp k s = s1\<lparr>rk_pending := js, rk_flushFailed := True, rk_batch := [], rk_pc := Top\<rparr>"
    note f = write_facts [OF g u fl tags(1)]
    have "dealt_with s1 (rk_store s1) = dealt_with s (rk_store s1)" by (rule dealt_with_eq) (simp_all only: f)
    moreover have "jb_once ` set (rk_jobs s) = jb_once ` set ?q \<union> jb_once ` set js \<union> set (rk_finished s1)"
      unfolding f(4) by (rule cover(2) [OF cov f(5,6)])
    moreover have "origins st0 (worker_read ex fo gaveUp k s) = origins st0 s" by (rule origins_eq) (simp add: s' f)
    moreover have "worker_ok (worker_read ex fo gaveUp k s)"
      using worker_okD [OF w] by (simp add: s' worker_ok_def f)
    moreover have "tag ` set js \<subseteq> tag ` set (rk_jobs s)" unfolding f(3) by (rule tags(1))
    ultimately have "good st0 (worker_read ex fo gaveUp k s)"
      by (intro goodI) (simp_all add: s' f(8-17) f(2) tags(2))
    then show ?thesis using f(1) by (simp add: s' f(17))
  next
    fix s1 js assume fl: "flush ex fo ?b (s\<lparr>rk_queue := ?q\<rparr>) = (s1, js, False)" and closed: "rk_closed s"
      and s': "worker_read ex fo gaveUp k s = leave (logPendingAbandoned js (s1\<lparr>rk_pending := js, rk_flushFailed := True\<rparr>))"
    note f = write_facts [OF g u fl tags(1)]
    define t where "t = s1\<lparr>rk_pending := js, rk_flushFailed := True\<rparr>"
    have t: "rk_closed t" "rk_store t = rk_store s1" "rk_finished t = rk_finished s1" "rk_queue t = ?q"
      "rk_jobs t = rk_jobs s" "rk_lost t = rk_lost s" "rk_stop t = rk_stop s"
      using closed f by (simp_all add: t_def)
    define s2 where "s2 = leave (logPendingAbandoned js t)"
    note ab = abandon [OF t(1), of js, folded s2_def]
    have gone: "tag ` set (js @ ?q) \<subseteq> tag ` set (rk_jobs s)"
      using f(3) tags by (simp only: set_append image_Un Un_subset_iff)
    have "jb_once ` set (js @ ?q) \<subseteq> dealt_with s2 (rk_store s1)"
      by (rule abandoned_accounted [OF gone]) (simp_all add: ab t)
    moreover have "dealt_with s (rk_store s1) \<subseteq> dealt_with s2 (rk_store s1)"
      by (rule dealt_with_mono) (auto simp: ab t)
    ultimately have "set (rk_finished s2) \<subseteq> dealt_with s2 (rk_store s1)"
      using f(8) by (auto simp: ab t)
    moreover have "jb_once ` set (rk_jobs s) = set (rk_finished s2)"
      using cover(3) [OF cov f(5,6)] by (simp only: ab t image_Un f(4) set_append)
    moreover have "origins st0 s2 = origins st0 s" by (rule origins_eq) (simp add: ab t)
    moreover have "worker_ok s2" using worker_okD [OF w] closed f(9) by (simp add: worker_ok_def ab t)
    ultimately have "good st0 s2" using f(2) by (intro goodI) (simp_all add: ab t)
    then show ?thesis
      unfolding s' t_def [symmetric] s2_def [symmetric] using f(1) by (simp add: ab t)
  qed
qed

text \<open>A new job is either queued or dealt with on the spot.\<close>

lemma new_job_good:
  assumes g: "good st0 s" and j: "j = new_job rec s" and jobs: "rk_jobs s' = rk_jobs s @ [j]"
    and b: "billing (origins st0 s') (rk_store s) (rk_store s')"
    and same: "rk_batch s' = rk_batch s" "rk_pending s' = rk_pending s" "rk_pc s' = rk_pc s" "rk_closed s' = rk_closed s"
      "rk_stop s' = rk_stop s" "set (rk_lost s) \<subseteq> set (rk_lost s')" "distinct (rk_finished s')"
    and dealt: "rk_queue s' = rk_queue s @ [j] \<and> rk_finished s' = rk_finished s \<and> \<not> rk_closed s \<or>
      rk_queue s' = rk_queue s \<and> set (rk_finished s') = insert (jb_once j) (set (rk_finished s)) \<and>
      (job_id j \<in> stored_ids s' \<or> j \<in> set (rk_lost s'))"
  shows "good st0 s'"
proof (rule goodI)
  note gd = goodD [OF g]
  have w: "worker_ok s" using g by (simp add: good_def)
  have jobs_set: "set (rk_jobs s') = insert j (set (rk_jobs s))" using jobs by simp
  have grow: "tag ` set (rk_jobs s) \<subseteq> tag ` set (rk_jobs s')" unfolding jobs_set by blast
  show "tag ` set (rk_queue s') \<subseteq> tag ` set (rk_jobs s')"
    using dealt gd(1) by (elim disjE conjE) (auto simp: jobs_set)
  show "tag ` set (rk_batch s') \<subseteq> tag ` set (rk_jobs s')" "tag ` set (rk_pending s') \<subseteq> tag ` set (rk_jobs s')"
    unfolding same by (rule subset_trans [OF gd(2) grow], rule subset_trans [OF gd(3) grow])
  show "jb_once ` set (rk_jobs s') = jb_once ` set (rk_queue s') \<union> jb_once ` set (rk_pending s') \<union> set (rk_finished s')"
    unfolding jobs_set image_insert gd(4) same using dealt by (elim disjE conjE) auto
  show "jb_once ` set (rk_batch s') \<subseteq> jb_once ` set (rk_pending s') \<union> set (rk_finished s')"
    unfolding same using gd(5) dealt by (elim disjE conjE) auto
  have acc: "dealt_with s (rk_store s) \<subseteq> dealt_with s' (rk_store s')"
    by (rule dealt_with_mono [OF billing_ids [OF b]]) (use jobs_set same(6) in auto)
  have "jb_once j \<in> dealt_with s' (rk_store s')" if "job_id j \<in> stored_ids s' \<or> j \<in> set (rk_lost s')"
    using that by (auto simp: dealt_with_def stored_ids_def jobs_set)
  then show "set (rk_finished s') \<subseteq> dealt_with s' (rk_store s')"
    using dealt gd(6) acc by (elim disjE conjE) auto
  have "rk_closed s" if "rk_pc s = Exited" using w that by (simp add: worker_ok_def)
  then show "worker_ok s'"
    using w j same dealt by (auto simp: worker_ok_def jobs new_job_def)
  have "origins st0 s \<subseteq> origins st0 s'" by (rule origins_mono) (use jobs_set in blast)
  then have "known (origins st0 s') (rk_store s)" using g by (auto simp: good_def known_def)
  then show "known (origins st0 s') (rk_store s')" by (rule billing_known [OF b])
qed

lemma send_good:
  assumes "good st0 s" "RecordWithCallback rec s = Some s'"
  shows "good st0 s' \<and> billing (origins st0 s') (rk_store s) (rk_store s')"
proof -
  have w: "distinct (rk_finished s)" using assms(1) by (simp add: good_def worker_ok_def)
  have store: "rk_store s' = rk_store s"
    using assms(2) by (auto simp: RecordWithCallback_def finish_def Let_def split: if_splits)
  have "good st0 s'"
    by (rule new_job_good [OF assms(1) HOL.refl [of "new_job rec s"]])
       (use assms(2) w in \<open>auto simp: RecordWithCallback_def finish_def Let_def billing.same split: if_splits\<close>)
  with store show ?thesis by (simp add: billing.same)
qed

lemma fallback_good:
  assumes g: "good st0 s" and u: "unambiguous (origins st0 (syncFallback ex fo rec s))"
  shows "good st0 (syncFallback ex fo rec s) \<and>
    billing (origins st0 (syncFallback ex fo rec s)) (rk_store s) (rk_store (syncFallback ex fo rec s))"
proof -
  define j where "j = new_job rec s"
  define s' where "s' = syncFallback ex fo rec s"
  obtain st r res where c: "CreateUsageRecordWithCost (fo_one fo 0) (fo_oneLookup fo 0) (fo_oneNow fo 0) rec (rk_store s) = (st, r, res)"
    by (metis prod.collapse)
  have w: "distinct (rk_finished s)" using g by (simp add: good_def worker_ok_def)
  have jobs: "rk_jobs s' = rk_jobs s @ [j]"
    using c by (auto simp: s'_def j_def syncFallback_def finish_def with_ledger_def Let_def split: sum.split)
  have R: "origin rec \<in> origins st0 s'" by (simp add: origins_def jobs) (simp add: j_def new_job_def)
  note cb = Create_billing [OF c R]
  have b: "billing (origins st0 s') (rk_store s) (rk_store s')"
  proof (cases res)
    case (Inr cost)
    then have "rk_store s' = st\<lparr>st_ledger := chargeRecord ex (fo_charge fo 0) r cost (st_ledger st)\<rparr>"
      using c by (simp add: s'_def syncFallback_def Let_def)
    moreover note billing_trans [OF chargeRecord_billing cb(1), of cost r ex "fo_charge fo 0"]
    ultimately show ?thesis using cb(3) Inr by simp
  qed (use c cb(1) in \<open>simp add: s'_def syncFallback_def Let_def\<close>)
  have "job_id j \<in> stored_ids s' \<or> j \<in> set (rk_lost s')"
  proof (cases res)
    case (Inr cost)
    then have "ug_ID r \<in> row_id ` set (st_usage st)" using cb(3) stored_at_id by blast
    moreover have "job_id j = ug_ID r" using cb(2) by (simp add: j_def new_job_def job_id_def origin_def)
    ultimately show ?thesis using Inr c by (simp add: s'_def stored_ids_def syncFallback_def Let_def)
  qed (use c in \<open>simp add: s'_def j_def syncFallback_def finish_def Let_def\<close>)
  then have "good st0 s'"
    by (intro new_job_good [OF g j_def jobs b])
       (use c w in \<open>auto simp: s'_def j_def syncFallback_def finish_def with_ledger_def Let_def split: sum.split\<close>)
  with b show ?thesis by (simp add: s'_def)
qed

text \<open>A charge of the maintenance task is one of the operations of the billing.\<close>

lemma Reconcile_billing:
  assumes "r \<in> set (st_usage st)" "billable r"
  shows "billing R st (fst (ReconcileOneUnchargedUsage cf nf gen now (uncharged_of r) st))"
proof -
  let ?st = "charge_row cf gen now r st"
  have b: "billing R st ?st" by (rule billing.charge [OF billing.same assms])
  have one: "billing R st (update_row i f ?st)" if "annotates f" for i f
    by (rule billing.annotate [OF b that])
  have note_b: "billing R st x" if "noteChargeRetry d now i reason w ?st = (x, ok)" for d i reason w x ok
    using b that by (auto simp: noteChargeRetry_def annotates_def split: if_splits intro!: one)
  obtain l res where c: "ChargeBalance cf gen now (ug_UserID (su_record r)) (su_cost r) (ug_RequestID (su_record r)) (st_ledger st) = (l, res)"
    by fastforce
  then have st: "?st = st\<lparr>st_ledger := l\<rparr>" by (simp add: charge_row_def)
  show ?thesis
    using b c one
    by (auto simp: ReconcileOneUnchargedUsage_def uncharged_of_def Let_def annotates_def billing.same st [symmetric]
        split: sum.split store_error.split prod.split intro: note_b)
qed

lemma flush_jobs: "flush ex fo js s = (s', js', ok) \<Longrightarrow> rk_jobs s' = rk_jobs s"
  by (drule flush_only_writes) (rule only_writes_fields(9))

lemma fold_finish_jobs [simp]: "rk_jobs (fold finish js s) = rk_jobs s"
  using finish_all_only [of js s] by auto

lemma worker_jobs [simp]:
  "rk_jobs (worker_top ex fo gaveUp s) = rk_jobs s" "rk_jobs (worker_read ex fo gaveUp k s) = rk_jobs s"
  using flush_jobs
  by (fastforce simp: worker_top_def worker_read_def leave_def logPendingAbandoned_def Let_def split: prod.split bool.split)+

lemma step_jobs: "step ex s a s' \<Longrightarrow> set (rk_jobs s) \<subseteq> set (rk_jobs s')"
  by (induction rule: step.induct)
     (auto simp: RecordWithCallback_def syncFallback_def finish_def with_ledger_def CloseQueue_def Abort_def leave_def Let_def
        split: if_splits sum.split prod.split)


lemma good_jobs_grow:
  assumes "good st0 s" "jobs_ok s'" "worker_ok s'" "rk_jobs s' = rk_jobs s" "rk_store s' = rk_store s"
  shows "good st0 s' \<and> billing (origins st0 s') (rk_store s) (rk_store s')"
  using assms origins_eq [of s' s st0] by (simp add: good_def billing.same)

lemma step_good:
  assumes "step ex s a s'" "good st0 s" "unambiguous (origins st0 s')"
  shows "good st0 s' \<and> billing (origins st0 s') (rk_store s) (rk_store s')"
proof -
  have u: "unambiguous (origins st0 s)"
    by (rule unambiguous_mono [OF assms(3) origins_mono [OF step_jobs [OF assms(1)]]])
  have g: "jobs_ok s" "worker_ok s" using assms(2) by (simp_all add: good_def)
  have R: "origins st0 s' = origins st0 s" if "rk_jobs s' = rk_jobs s" using that by (rule origins_eq)
  show ?thesis
    using assms(1)
  proof (cases rule: step.cases)
    case (send rec)
    with assms(2) show ?thesis by (intro send_good) simp_all
  next
    case (fallback fo rec)
    with assms(2,3) fallback_good show ?thesis by blast
  next
    case close
    with g show ?thesis
      by (intro good_jobs_grow [OF assms(2)]) (auto simp: CloseQueue_def jobs_ok_iff worker_ok_def)
  next
    case stop
    with g show ?thesis
      by (intro good_jobs_grow [OF assms(2)]) (auto simp: Abort_def jobs_ok_iff worker_ok_def)
  next
    case (retry gaveUp fo)
    with retry_good [OF assms(2) u, of gaveUp ex fo] R show ?thesis by simp
  next
    case (take k gaveUp fo)
    with take_good [OF assms(2) u, of k gaveUp ex fo] R show ?thesis by simp
  next
    case drained
    with g show ?thesis
      by (intro good_jobs_grow [OF assms(2)]) (auto simp: leave_def jobs_ok_iff worker_ok_def)
  next
    case (maintain r cf nf gen now)
    let ?st = "fst (ReconcileOneUnchargedUsage cf nf gen now (uncharged_of r) (rk_store s))"
    have b: "billing (origins st0 s) (rk_store s) ?st" by (rule Reconcile_billing) (use maintain in simp_all)
    have "dealt_with s (rk_store s) \<subseteq> dealt_with s ?st" by (rule dealt_with_mono [OF billing_ids [OF b]]) simp_all
    then have "jobs_ok (s\<lparr>rk_store := ?st\<rparr>)" "worker_ok (s\<lparr>rk_store := ?st\<rparr>)"
      using g by (auto simp: jobs_ok_iff worker_ok_def)
    moreover have "known (origins st0 s) ?st" using billing_known [OF b] assms(2) by (simp add: good_def)
    moreover have "s' = s\<lparr>rk_store := ?st\<rparr>" using maintain by simp
    ultimately show ?thesis using R b by (simp add: good_def)
  qed
qed

lemma start_good: "good st0 (Recorder.New st0)"
  by (auto simp: good_def jobs_ok_iff worker_ok_def known_def origins_def Recorder.New_def)

lemma steps_good:
  assumes "steps ex (Recorder.New st0) as s" "unambiguous (origins st0 s)"
  shows "good st0 s" "billing (origins st0 s) st0 (rk_store s)"
proof -
  have "good st0 s \<and> billing (origins st0 s) st0 (rk_store s)"
    using assms
  proof (induction "Recorder.New st0" as s rule: steps.induct)
    case none
    then show ?case using start_good by (simp add: Recorder.New_def billing.same)
  next
    case (more as s a s')
    have R: "origins st0 s \<subseteq> origins st0 s'" by (rule origins_mono [OF step_jobs [OF more.hyps(3)]])
    have ih: "good st0 s \<and> billing (origins st0 s) st0 (rk_store s)"
      by (rule more.hyps(2)) (rule unambiguous_mono [OF more.prems R])
    from step_good [OF more.hyps(3) _ more.prems] ih billing_trans billing_mono [OF _ R] show ?case by blast
  qed
  then show "good st0 s" "billing (origins st0 s) st0 (rk_store s)" by simp_all
qed

section \<open>No record vanishes\<close>

text \<open>The steps as a function, to run examples.\<close>

definition enabled :: "action \<Rightarrow> recorder \<Rightarrow> bool" where
  "enabled a s = (case a of
       Send rec \<Rightarrow> RecordWithCallback rec s \<noteq> None
     | Fallback fo rec \<Rightarrow> True
     | Close \<Rightarrow> True
     | Stop \<Rightarrow> rk_closed s
     | Retry fo gaveUp \<Rightarrow> rk_pc s = Top \<and> (gaveUp \<longrightarrow> rk_stop s)
     | Take fo gaveUp k \<Rightarrow> rk_pc s = Reading \<and> 0 < k \<and> k \<le> length (rk_queue s) \<and>
         k \<le> max 1 (usageBatchSize - length (rk_batch s)) \<and> (gaveUp \<longrightarrow> rk_stop s)
     | Drained \<Rightarrow> rk_pc s = Reading \<and> rk_queue s = [] \<and> rk_closed s
     | Maintain cf nf gen now r \<Rightarrow> r \<in> set (st_usage (rk_store s)) \<and> billable r)"

definition act :: "(ident \<Rightarrow> bool) \<Rightarrow> action \<Rightarrow> recorder \<Rightarrow> recorder" where
  "act ex a s = (case a of
       Send rec \<Rightarrow> the (RecordWithCallback rec s)
     | Fallback fo rec \<Rightarrow> syncFallback ex fo rec s
     | Close \<Rightarrow> CloseQueue s
     | Stop \<Rightarrow> Abort s
     | Retry fo gaveUp \<Rightarrow> worker_top ex fo gaveUp s
     | Take fo gaveUp k \<Rightarrow> worker_read ex fo gaveUp k s
     | Drained \<Rightarrow> leave s
     | Maintain cf nf gen now r \<Rightarrow> s\<lparr>rk_store := fst (ReconcileOneUnchargedUsage cf nf gen now (uncharged_of r) (rk_store s))\<rparr>)"

fun runnable :: "(ident \<Rightarrow> bool) \<Rightarrow> action list \<Rightarrow> recorder \<Rightarrow> bool" where
  "runnable ex [] s = True"
| "runnable ex (a # as) s = (enabled a s \<and> runnable ex as (act ex a s))"

lemma step_act: "enabled a s \<Longrightarrow> step ex s a (act ex a s)"
  by (cases a) (auto simp: enabled_def act_def intro: step.intros)

lemma step_iff: "step ex s a s' \<longleftrightarrow> enabled a s \<and> s' = act ex a s"
proof
  assume "step ex s a s'"
  then show "enabled a s \<and> s' = act ex a s" by cases (simp_all add: enabled_def act_def)
qed (auto intro: step_act)

lemma steps_first: "steps ex s' as s'' \<Longrightarrow> step ex s a s' \<Longrightarrow> steps ex s (a # as) s''"
proof (induction rule: steps.induct)
  case (none s')
  then show ?case using steps.more [OF steps.none] by fastforce
next
  case (more s' as s1 a' s2)
  then show ?case using steps.more [of ex s "a # as" s1 a' s2] by simp
qed

lemma run_steps: "runnable ex as s \<Longrightarrow> steps ex s as (fold (act ex) as s)"
  by (induction as arbitrary: s) (auto intro: steps.none steps_first step_act)

text \<open>C4: whatever the requests, the worker, the shutdown, the maintenance and the failures of the store do in which
  order: a record that was handed to the recorder is waiting in the queue or in the batch the worker keeps, or its
  callback has run, exactly once; and the callback has run only when the record is in the table or given up in the log.
  When the worker has left, every callback has run. The identities of records are those of one request of one key.\<close>

theorem no_record_vanishes:
  assumes "steps ex (Recorder.New st0) as s" "unambiguous (origins st0 s)"
  shows "distinct (rk_finished s) \<and> map jb_once (rk_jobs s) = [0..<length (rk_jobs s)] \<and>
    {..<length (rk_jobs s)} = jb_once ` set (rk_queue s @ rk_pending s) \<union> set (rk_finished s) \<and>
    (\<forall>n. n \<in> set (rk_finished s) \<longrightarrow>
       ug_ID (jb_rec (rk_jobs s ! n)) \<in> row_id ` set (st_usage (rk_store s)) \<or> n \<in> jb_once ` set (rk_lost s)) \<and>
    (rk_pc s = Exited \<longrightarrow> set (rk_finished s) = {..<length (rk_jobs s)})"
proof -
  have g: "good st0 s" by (rule steps_good [OF assms])
  note gd = goodD [OF g]
  have w: "worker_ok s" using g by (simp add: good_def)
  note wd = worker_okD [OF w]
  have "jb_once ` set (rk_jobs s) = set [0..<length (rk_jobs s)]" using wd(2) by (metis set_map)
  then have all: "{..<length (rk_jobs s)} = jb_once ` set (rk_queue s @ rk_pending s) \<union> set (rk_finished s)"
    using gd(4) by (simp add: image_Un lessThan_atLeast0)
  have at: "rk_jobs s ! n = j" if "j \<in> set (rk_jobs s)" "jb_once j = n" for j n
  proof -
    obtain i where i: "i < length (rk_jobs s)" "j = rk_jobs s ! i" using \<open>j \<in> set (rk_jobs s)\<close> by (metis in_set_conv_nth)
    then have "jb_once j = i" using arg_cong [OF wd(2), of "\<lambda>xs. xs ! i"] by simp
    with i that show ?thesis by simp
  qed
  have "ug_ID (jb_rec (rk_jobs s ! n)) \<in> row_id ` set (st_usage (rk_store s)) \<or> n \<in> jb_once ` set (rk_lost s)"
    if n: "n \<in> set (rk_finished s)" for n
  proof -
    obtain j where j: "j \<in> set (rk_jobs s)" "jb_once j = n"
      "job_id j \<in> row_id ` set (st_usage (rk_store s)) \<or> tag j \<in> tag ` set (rk_lost s)"
      using subsetD [OF gd(6) n] by (auto simp: dealt_with_def)
    then have "jb_once j \<in> jb_once ` set (rk_lost s)" if "tag j \<in> tag ` set (rk_lost s)" using that by (auto simp: tag_def)
    with j at [OF j(1,2)] show ?thesis by (auto simp: job_id_def)
  qed
  moreover have "rk_pc s = Exited \<longrightarrow> set (rk_finished s) = {..<length (rk_jobs s)}"
    using all w by (simp add: worker_ok_def)
  ultimately show ?thesis using wd all by blast
qed

definition demo_usage :: "ident \<Rightarrow> UsageRecord" where
  "demo_usage i = \<lparr>ug_AccessKeyID = ''key'', ug_UserID = ''ann'', ug_RequestID = i, ug_PublicModel = ''m'', ug_ProviderID = ''p'',
     ug_ProviderName = ''P'', ug_UpstreamModel = ''m'', ug_IngressProtocol = ''chat'', ug_UpstreamProtocol = ''chat'',
     ug_Stream = False, ug_Tokens = \<lparr>tu_InputTokens = 0, tu_OutputTokens = 10000, tu_TotalTokens = 10000,
       tu_ReasoningTokens = 0, tu_CachedInputTokens = 0, tu_CachedCreationTokens = 0\<rparr>, ug_UsageState = ''reported'',
     ug_Status = UsageStatusOK, ug_HTTPStatus = 200, ug_ErrorCode = '''', ug_ErrorDetail = '''', ug_RouteTrace = '''',
     ug_ID = i, ug_Ts = 1, ug_KeyName = ''k'', ug_LatencyMs = 5, ug_TTFBMs = 2, ug_RequestIP = '''', ug_Effort = '''',
     ug_PreviousCost = 0\<rparr>"

definition demo_tables :: store where
  "demo_tables = \<lparr>st_usage = [],
     st_totals = \<lparr>ut_requests = 0, ut_success = 0, ut_errors = 0, ut_tokens = \<lparr>tu_InputTokens = 0, tu_OutputTokens = 0,
       tu_TotalTokens = 0, tu_ReasoningTokens = 0, tu_CachedInputTokens = 0, tu_CachedCreationTokens = 0\<rparr>, ut_cost = 0,
       ut_latency = 0, ut_firstRecordAt = 0\<rparr>,
     st_quota = \<lparr>qd_keys = [''key'' \<mapsto> \<lparr>qr_quota = 0, qr_used = 0, qr_reserved = 0\<rparr>], qd_users = Map.empty, qd_totals = Map.empty, qd_leases = []\<rparr>,
     st_ledger = demo_ledger, st_models = Map.empty\<rparr>"

text \<open>A flush whose transactions all have this result, and whose charges fail together or not at all.\<close>

definition demo_flush :: "tx_result \<Rightarrow> bool \<Rightarrow> flush_oracle" where
  "demo_flush w chargeFails = \<lparr>fo_insert = (\<lambda>_. w), fo_lookup = (\<lambda>_ _. False), fo_now = (\<lambda>_. 1),
     fo_batch = \<lparr>bo_fails = chargeFails, bo_gen = (\<lambda>_. ''g''), bo_now = 1\<rparr>,
     fo_charge = (\<lambda>_. \<lparr>co_fails = (\<lambda>_. chargeFails), co_gen = (\<lambda>_. ''g''), co_now = (\<lambda>_. 1)\<rparr>),
     fo_one = (\<lambda>_. w), fo_oneLookup = (\<lambda>_. False), fo_oneNow = (\<lambda>_. 1), fo_readFails = (\<lambda>_. False)\<rparr>"

text \<open>Two records meet a broken store, a third follows, and a fourth comes after the queue is closed.\<close>

definition demo_run :: "action list" where
  "demo_run = [Send (demo_usage ''a''), Send (demo_usage ''b''), Retry (demo_flush Fails False) False,
     Take (demo_flush Fails False) False 2, Send (demo_usage ''c''), Retry (demo_flush Commits False) False, Close,
     Send (demo_usage ''d''), Take (demo_flush Commits False) False 1, Retry (demo_flush Commits False) False, Drained]"

lemma unambiguous_run:
  "distinct (map row_id (st_usage st0) @ map job_id (rk_jobs s)) \<Longrightarrow> unambiguous (origins st0 s)"
proof -
  let ?os = "map (\<lambda>r. origin (su_record r)) (st_usage st0) @ map (origin \<circ> jb_rec) (rk_jobs s)"
  assume "distinct (map row_id (st_usage st0) @ map job_id (rk_jobs s))"
  moreover have "map fst ?os = map row_id (st_usage st0) @ map job_id (rk_jobs s)"
    by (simp add: row_id_def job_id_def origin_def)
  ultimately have "distinct (map fst ?os)" by (simp only:)
  then have "inj_on fst (set ?os)" by (simp only: distinct_map)
  moreover have "origins st0 s = set ?os" by (auto simp: origins_def)
  ultimately show ?thesis by (simp add: unambiguous_def)
qed

lemma demo_end:
  "let s = fold (act (\<lambda>_. False)) demo_run (Recorder.New demo_tables) in
     runnable (\<lambda>_. False) demo_run (Recorder.New demo_tables) \<and>
     map row_id (st_usage demo_tables) @ map job_id (rk_jobs s) = [''a'', ''b'', ''c'', ''d''] \<and>
     map row_id (st_usage (rk_store s)) = [''a'', ''b'', ''c''] \<and> rk_finished s = [0, 1, 3, 2] \<and> rk_pc s = Exited"
  by code_simp

theorem no_record_vanishes_witness:
  "\<exists>s. steps (\<lambda>_. False) (Recorder.New demo_tables) demo_run s \<and> length (rk_jobs s) = 4 \<and> rk_finished s = [0, 1, 3, 2] \<and>
     map row_id (st_usage (rk_store s)) = [''a'', ''b'', ''c''] \<and> 3 \<in> jb_once ` set (rk_lost s)"
proof -
  define s where "s = fold (act (\<lambda>_. False)) demo_run (Recorder.New demo_tables)"
  note e = demo_end [unfolded Let_def, folded s_def]
  have run: "steps (\<lambda>_. False) (Recorder.New demo_tables) demo_run s"
    unfolding s_def using e by (intro run_steps) simp
  have ids: "map row_id (st_usage demo_tables) @ map job_id (rk_jobs s) = [''a'', ''b'', ''c'', ''d'']" using e by blast
  have "map job_id (rk_jobs s) = [''a'', ''b'', ''c'', ''d'']" using ids by (simp add: demo_tables_def)
  then have len: "length (rk_jobs s) = 4" and third: "ug_ID (jb_rec (rk_jobs s ! 3)) = ''d''"
    by (auto simp: job_id_def map_eq_Cons_conv)
  have "unambiguous (origins demo_tables s)" by (rule unambiguous_run) (simp add: ids)
  note claim = no_record_vanishes [OF run this]
  have stored: "row_id ` set (st_usage (rk_store s)) = {''a'', ''b'', ''c''}" using e by (metis list.set set_map)
  have "3 \<in> set (rk_finished s)" using e by simp
  with claim have "ug_ID (jb_rec (rk_jobs s ! 3)) \<in> row_id ` set (st_usage (rk_store s)) \<or> 3 \<in> jb_once ` set (rk_lost s)" by blast
  then have "3 \<in> jb_once ` set (rk_lost s)" by (simp add: third stored)
  with run len e show ?thesis by (intro exI [of _ s]) (simp only: simp_thms)
qed

end
