(* ===== verification/Accounts.thy ===== *)
theory Accounts
  imports Bookkeeping
begin

text \<open>
  What the tables hold after a run of the recorder: every stored record is counted once in the totals, in the tokens of
  its key and in those of its user, and the money of a user and the costs collected from it always add up.
\<close>

section \<open>Every record is counted once\<close>

definition key_tokens :: "ident \<Rightarrow> store \<Rightarrow> int" where
  "key_tokens k st = (\<Sum>r \<leftarrow> st_usage st. if ug_AccessKeyID (su_record r) = k then tu_TotalTokens (ug_Tokens (su_record r)) else 0)"

definition user_tokens :: "ident \<Rightarrow> store \<Rightarrow> int" where
  "user_tokens u st = (\<Sum>r \<leftarrow> st_usage st. if ug_UserID (su_record r) = u then tu_TotalTokens (ug_Tokens (su_record r)) else 0)"

text \<open>What the key and the user have used, beyond the records of the table: from records deleted since.\<close>

definition key_beyond :: "ident \<Rightarrow> store \<Rightarrow> (int \<times> int \<times> int) option" where
  "key_beyond k st = map_option (\<lambda>r. (qr_quota r, qr_reserved r, qr_used r - key_tokens k st)) (qd_keys (st_quota st) k)"

definition user_beyond :: "ident \<Rightarrow> store \<Rightarrow> int" where
  "user_beyond u st = user_total u (st_quota st) - user_tokens u st"

definition requests_beyond :: "store \<Rightarrow> int" where
  "requests_beyond st = ut_requests (st_totals st) - int (length (st_usage st))"

lemma rows_sum_cong:
  "map su_record (st_usage st) = map su_record (st_usage st') \<Longrightarrow>
   (\<Sum>r \<leftarrow> st_usage st. f (su_record r)) = (\<Sum>r \<leftarrow> st_usage st'. f (su_record r :: UsageRecord) :: int)"
  by (metis (mono_tags, lifting) comp_def map_map map_eq_conv)

lemma tokens_update [simp]:
  assumes "annotates f"
  shows "key_tokens k (update_row i f st) = key_tokens k st" "user_tokens k (update_row i f st) = user_tokens k st"
  unfolding key_tokens_def user_tokens_def by (rule rows_sum_cong, use assms in simp)+

lemma tokens_charge [simp]:
  "key_tokens k (charge_row f g ts r st) = key_tokens k st" "user_tokens k (charge_row f g ts r st) = user_tokens k st"
  by (simp_all add: key_tokens_def user_tokens_def)

lemma totals_kept [simp]:
  "st_totals (update_row i f st) = st_totals st" "st_totals (charge_row g h ts r st) = st_totals st"
  "length (st_usage (update_row i f st)) = length (st_usage st)"
  by (simp_all add: update_row_def charge_row_def)

lemma totals_insert [simp]:
  "st_totals (insert_row row st) = count_totals (su_record row) (su_cost row) (st_totals st)"
  by (simp add: insert_row_def Let_def)

lemma beyond_insert:
  "key_beyond k (insert_row row st) = key_beyond k st"
  "u \<noteq> '''' \<Longrightarrow> user_beyond u (insert_row row st) = user_beyond u st"
  "requests_beyond (insert_row row st) = requests_beyond st"
proof -
  show "key_beyond k (insert_row row st) = key_beyond k st"
    by (auto simp: key_beyond_def key_tokens_def count_usage_def set_key_def Let_def split: option.split)
  show "user_beyond u (insert_row row st) = user_beyond u st" if "u \<noteq> ''''"
    using that by (auto simp: user_beyond_def user_tokens_def count_usage_def set_key_def user_total_def Let_def split: option.split)
  show "requests_beyond (insert_row row st) = requests_beyond st"
    by (simp add: requests_beyond_def count_totals_def)
qed

lemma billing_counts:
  assumes "billing R st st'"
  shows "key_beyond k st' = key_beyond k st" "u \<noteq> '''' \<Longrightarrow> user_beyond u st' = user_beyond u st"
    "requests_beyond st' = requests_beyond st"
    "distinct (map row_id (st_usage st)) \<Longrightarrow> distinct (map row_id (st_usage st'))"
  using assms by (induction rule: billing.induct)
    (simp_all add: beyond_insert, simp_all add: key_beyond_def user_beyond_def requests_beyond_def)

text \<open>C6: through any run of the recorder, with retries of batches that were partly written, commits that report an
  error and requests that write by themselves, no record is stored twice, and the counters the database keeps of
  requests, of the tokens of a key and of those of a user grow by exactly what is stored.\<close>

theorem stored_and_counted_once:
  assumes "steps ex (Recorder.New st0) as s" "unambiguous (origins st0 s)" "distinct (map row_id (st_usage st0))"
  shows "distinct (map row_id (st_usage (rk_store s))) \<and> key_beyond k (rk_store s) = key_beyond k st0 \<and>
    (u \<noteq> '''' \<longrightarrow> user_beyond u (rk_store s) = user_beyond u st0) \<and> requests_beyond (rk_store s) = requests_beyond st0"
  using billing_counts [OF steps_good(2) [OF assms(1,2)]] assms(3) by blast

lemma demo_final:
  obtains s where "steps (\<lambda>_. False) (Recorder.New demo_tables) demo_run s" "unambiguous (origins demo_tables s)"
    "map row_id (st_usage (rk_store s)) = [''a'', ''b'', ''c'']"
proof
  let ?s = "fold (act (\<lambda>_. False)) demo_run (Recorder.New demo_tables)"
  note e = demo_end [unfolded Let_def]
  show "steps (\<lambda>_. False) (Recorder.New demo_tables) demo_run ?s" using e by (intro run_steps) simp
  show "unambiguous (origins demo_tables ?s)" by (rule unambiguous_run) (simp only: e distinct.simps list.set, simp)
  show "map row_id (st_usage (rk_store ?s)) = [''a'', ''b'', ''c'']" using e by blast
qed

theorem stored_and_counted_once_witness:
  "\<exists>s. steps (\<lambda>_. False) (Recorder.New demo_tables) demo_run s \<and> length (st_usage (rk_store s)) = 3 \<and>
     ut_requests (st_totals (rk_store s)) = 3"
proof -
  obtain s where s: "steps (\<lambda>_. False) (Recorder.New demo_tables) demo_run s" "unambiguous (origins demo_tables s)"
    "map row_id (st_usage (rk_store s)) = [''a'', ''b'', ''c'']" by (rule demo_final)
  from arg_cong [OF s(3), of length] have "length (st_usage (rk_store s)) = 3" by simp
  with stored_and_counted_once [OF s(1,2)] s(1) show ?thesis
    by (intro exI [of _ s]) (simp add: requests_beyond_def demo_tables_def)
qed

section \<open>The money adds up\<close>

text \<open>A cost is collected when its request is charged or owed: the records that \<open>FindUnchargedUsage\<close> looks for are the
  billable ones that are not.\<close>

definition collected :: "ledger \<Rightarrow> stored_usage \<Rightarrow> bool" where
  "collected l r \<longleftrightarrow> billable r \<and> \<not> uncollected l r"

definition paid :: "ident \<Rightarrow> store \<Rightarrow> int" where
  "paid u st = (\<Sum>r \<leftarrow> st_usage st. if ug_UserID (su_record r) = u \<and> collected (st_ledger st) r then YuanToMicros (su_cost r) else 0)"

definition request_key :: "origin \<Rightarrow> ident \<times> ident" where
  "request_key = (\<lambda>(i, u, r, k, s). (r, u))"

text \<open>Every request has one record, and what is collected from the user is a charge or the debt of the full cost.\<close>

definition books :: "ident \<Rightarrow> origin set \<Rightarrow> store \<Rightarrow> bool" where
  "books u R st \<longleftrightarrow>
     (\<forall>r. r \<in> set (st_usage st) \<and> ug_UserID (su_record r) = u \<and> collected (st_ledger st) r \<longrightarrow>
        recorded (row_key r) (su_cost r) (st_ledger st)) \<and>
     (\<forall>p. p \<in> R \<and> fst p \<notin> row_id ` set (st_usage st) \<and> snd (request_key p) = u \<longrightarrow> untouched (request_key p) (st_ledger st))"

lemma booksD:
  assumes "books u R st"
  shows "r \<in> set (st_usage st) \<Longrightarrow> ug_UserID (su_record r) = u \<Longrightarrow> collected (st_ledger st) r \<Longrightarrow>
      recorded (row_key r) (su_cost r) (st_ledger st)"
    "p \<in> R \<Longrightarrow> fst p \<notin> row_id ` set (st_usage st) \<Longrightarrow> snd (request_key p) = u \<Longrightarrow> untouched (request_key p) (st_ledger st)"
  using assms unfolding books_def by blast+

lemma row_key_origin: "row_key r = request_key (origin (su_record r))"
  by (simp add: row_key_def request_key_def origin_def)

lemma untouched_iff: "ledger_ok l \<Longrightarrow> untouched k l \<longleftrightarrow> lg_charges l k = None \<and> k \<notin> pending_key ` set (lg_pending l)"
  by (simp add: untouched_def due_pos_iff)

lemma collected_iff: "ledger_ok l \<Longrightarrow> collected l r \<longleftrightarrow> billable r \<and> \<not> untouched (row_key r) l"
  by (auto simp: collected_def uncollected_def untouched_iff)

lemma recorded_touched: "recorded k y l \<Longrightarrow> 0 < y \<Longrightarrow> \<not> untouched k l"
  using YuanToMicros_pos [of y] by (auto simp: recorded_def untouched_def)

text \<open>The rows of one user are told apart by their requests.\<close>

definition one_each :: "origin set \<Rightarrow> bool" where
  "one_each R \<longleftrightarrow> inj_on fst R \<and> inj_on request_key R"

lemma one_row:
  assumes "one_each R" "known R st" "distinct (map row_id (st_usage st))" "r \<in> set (st_usage st)" "r' \<in> set (st_usage st)"
    "row_key r' = row_key r"
  shows "r' = r"
proof -
  have "origin (su_record r) \<in> R" "origin (su_record r') \<in> R" using assms(2,4,5) by (auto simp: known_def)
  then have "origin (su_record r') = origin (su_record r)" using assms(1,6) by (auto simp: one_each_def row_key_origin dest: inj_onD)
  then have "row_id r' = row_id r" by (simp add: row_id_origin)
  with assms(3-5) show ?thesis by (auto simp: distinct_map dest: inj_onD)
qed

lemma sum_update_one:
  assumes "distinct xs" "x \<in> set xs" "\<And>y. y \<in> set xs \<Longrightarrow> y \<noteq> x \<Longrightarrow> f y = g y"
  shows "(\<Sum>y \<leftarrow> xs. f y) = (\<Sum>y \<leftarrow> xs. g y) + (f x - g x :: int)"
  using assms
proof (induction xs)
  case (Cons y ys)
  show ?case
  proof (cases "y = x")
    case True
    then have "map f ys = map g ys" using Cons.prems by auto
    then have "sum_list (map f ys) = sum_list (map g ys)" by (rule arg_cong)
    with True show ?thesis by simp
  next
    case False
    with Cons show ?thesis by auto
  qed
qed simp

definition solvent :: "ident \<Rightarrow> origin set \<Rightarrow> store \<Rightarrow> bool" where
  "solvent u R st \<longleftrightarrow> ledger_ok (st_ledger st) \<and> limited u (st_ledger st) \<and> u \<noteq> '''' \<and> one_each R \<and> known R st \<and>
     distinct (map row_id (st_usage st)) \<and> books u R st"

text \<open>A record that is added has not been paid for.\<close>

lemma insert_solvent:
  assumes "solvent u R st" "origin (su_record row) \<in> R" "row_id row \<notin> row_id ` set (st_usage st)"
  shows "solvent u R (insert_row row st) \<and> paid u (insert_row row st) = paid u st"
proof -
  have new: "untouched (row_key row) (st_ledger st)" if "ug_UserID (su_record row) = u"
  proof -
    have "fst (origin (su_record row)) \<notin> row_id ` set (st_usage st)" "snd (request_key (origin (su_record row))) = u"
      using assms(3) that by (simp_all add: row_id_origin request_key_def origin_def)
    with assms(1,2) show ?thesis unfolding solvent_def books_def row_key_origin by blast
  qed
  have ok: "ledger_ok (st_ledger st)" using assms(1) by (simp add: solvent_def)
  have "\<not> collected (st_ledger st) row" if "ug_UserID (su_record row) = u"
    using new [OF that] by (simp add: collected_iff [OF ok])
  then have "paid u (insert_row row st) = paid u st" "books u R (insert_row row st)"
    using assms(1) by (auto simp: paid_def solvent_def books_def)
  with assms show ?thesis by (auto simp: solvent_def known_def)
qed

lemma annotate_solvent:
  assumes "solvent u R st" "annotates f"
  shows "solvent u R (update_row i f st) \<and> paid u (update_row i f st) = paid u st"
proof -
  have f: "su_record (f r) = su_record r" "su_cost (f r) = su_cost r" "row_id (f r) = row_id r" "row_key (f r) = row_key r"
    "collected l (f r) = collected l r" for r l
    using assms(2) by (simp_all add: annotates_def row_id_def row_key_def collected_def billable_def uncollected_def)
  have rows: "st_usage (update_row i f st) = map (\<lambda>r. if row_id r = i then f r else r) (st_usage st)"
    by (simp add: update_row_def)
  have "paid u (update_row i f st) = paid u st"
    unfolding paid_def rows map_map by (intro arg_cong [of _ _ sum_list] map_cong) (auto simp: f)
  moreover have "books u R (update_row i f st)"
  proof -
    have b: "books u R st" using assms(1) by (simp add: solvent_def)
    show ?thesis
      unfolding books_def update_row_fields annotated(2) [OF assms(2)] using booksD [OF b] by (auto simp: rows f split: if_splits)
  qed
  ultimately show ?thesis using assms by (simp add: solvent_def known_image)
qed

text \<open>A charge takes the cost of its record once.\<close>

lemma charge_solvent:
  assumes s: "solvent u R st" and row: "row \<in> set (st_usage st)" "billable row"
  shows "solvent u R (charge_row f g ts row st) \<and>
    worth u (st_ledger (charge_row f g ts row st)) + paid u (charge_row f g ts row st) = worth u (st_ledger st) + paid u st"
proof -
  let ?l = "st_ledger st" and ?uid = "ug_UserID (su_record row)" and ?req = "ug_RequestID (su_record row)" and ?st = "charge_row f g ts row st"
  let ?l' = "st_ledger ?st"
  let ?pay = "\<lambda>l r. if ug_UserID (su_record r) = u \<and> collected l r then YuanToMicros (su_cost r) else 0"
  have l': "?l' = fst (ChargeBalance f g ts ?uid (su_cost row) ?req ?l)" by (simp add: charge_row_def)
  have ok: "ledger_ok ?l" and lim: "limited u ?l" and u: "u \<noteq> ''''" and one: "one_each R" and kn: "known R st"
    and ids: "distinct (map row_id (st_usage st))" and bk: "books u R st" using s by (simp_all add: solvent_def)
  have req: "?req \<noteq> ''''" and cost: "0 < su_cost row" using row(2) by (simp_all add: billable_def)
  have ok': "ledger_ok ?l'" and same: "same_others ?uid ?req ?l ?l'"
    using Charge_keeps [OF ok req] by (simp_all add: l')
  have lim': "limited u ?l'" using limited_same [OF same] lim by simp
  have key: "row_key row = (?req, ?uid)" by (simp add: row_key_def)
  have other: "collected ?l' r \<longleftrightarrow> collected ?l r" if "row_key r \<noteq> row_key row" for r
    using recorded_same [OF same, of "row_key r"] that by (simp add: collected_iff ok ok' key)
  have unt: "untouched (request_key p) ?l'" if p: "p \<in> R" "fst p \<notin> row_id ` set (st_usage st)" "snd (request_key p) = u" for p
  proof -
    have "origin (su_record row) \<in> R" using kn row(1) by (auto simp: known_def)
    moreover have "fst (origin (su_record row)) \<in> row_id ` set (st_usage st)" using row(1) by (simp add: row_id_origin)
    ultimately have "request_key p \<noteq> row_key row" using p(1,2) one by (auto simp: one_each_def row_key_origin dest: inj_onD)
    moreover have "untouched (request_key p) ?l" by (rule booksD(2) [OF bk p])
    ultimately show ?thesis using recorded_same [OF same, of "request_key p"] by (simp add: key)
  qed
  have "\<exists>d. worth u ?l' = worth u ?l - d \<and> ?pay ?l' row = ?pay ?l row + d \<and>
      (?uid = u \<and> collected ?l' row \<longrightarrow> recorded (row_key row) (su_cost row) ?l')"
  proof (cases "?uid = u \<and> \<not> f \<or> ?uid = u \<and> collected ?l row")
    case False
    then have "worth u ?l' = worth u ?l \<and> (?uid = u \<longrightarrow> ?l' = ?l)"
      using worth_other [OF same, of u] by (cases "?uid = u") (auto simp: charge_row_def ChargeBalance_def)
    with False show ?thesis by (intro exI [of _ 0]) auto
  next
    case mine: True
    then have uid: "?uid = u" by blast
    show ?thesis
    proof (cases "collected ?l row")
      case True
      then have old: "recorded (?req, u) (su_cost row) ?l" using booksD(1) [OF bk row(1)] uid by (simp add: row_key_def)
      note again = Charge_again [OF ok lim old req, of f g ts]
      then have "recorded (row_key row) (su_cost row) ?l'" "worth u ?l' = worth u ?l" by (simp_all add: l' uid key)
      moreover from this(1) have "collected ?l' row" using row(2) cost recorded_touched by (auto simp: collected_iff [OF ok'])
      ultimately show ?thesis using True by (intro exI [of _ 0]) simp
    next
      case False
      with mine have nof: "\<not> f" by blast
      have "untouched (?req, u) ?l" using False row(2) by (simp add: collected_iff [OF ok] key uid)
      from Charge_first [OF ok lim this cost req u, of g ts] nof
      have "recorded (row_key row) (su_cost row) ?l'" "worth u ?l' = worth u ?l - YuanToMicros (su_cost row)"
        by (simp_all add: charge_row_def uid key)
      moreover from this(1) have "collected ?l' row" using row(2) cost recorded_touched by (auto simp: collected_iff [OF ok'])
      ultimately show ?thesis using False uid by (intro exI [of _ "YuanToMicros (su_cost row)"]) simp
    qed
  qed
  then obtain d where d: "worth u ?l' = worth u ?l - d" "?pay ?l' row = ?pay ?l row + d"
    "?uid = u \<and> collected ?l' row \<longrightarrow> recorded (row_key row) (su_cost row) ?l'" by blast
  have elsewhere: "row_key r \<noteq> row_key row" if "r \<in> set (st_usage st)" "r \<noteq> row" for r
    using one_row [OF one kn ids row(1) that(1)] that(2) by blast
  have "distinct (st_usage st)" using ids by (simp add: distinct_map)
  then have "paid u ?st = paid u st + (?pay ?l' row - ?pay ?l row)"
    unfolding paid_def charge_row_fields by (rule sum_update_one [OF _ row(1)]) (simp add: other elsewhere)
  moreover have "books u R ?st"
  proof -
    have "recorded (row_key r) (su_cost r) ?l'"
      if r: "r \<in> set (st_usage st)" "ug_UserID (su_record r) = u" "collected ?l' r" for r
    proof (cases "r = row")
      case False
      note ne = elsewhere [OF r(1) False]
      then have "recorded (row_key r) (su_cost r) ?l" using booksD(1) [OF bk r(1,2)] r(3) other by simp
      then show ?thesis using recorded_same [OF same, of "row_key r"] ne by (simp add: key)
    qed (use d(3) r in simp)
    with unt show ?thesis unfolding books_def charge_row_fields by blast
  qed
  ultimately show ?thesis using d s ok' lim' by (simp add: solvent_def known_def)
qed

lemma billing_solvent:
  assumes "billing R st st'" "solvent u R st"
  shows "solvent u R st' \<and> worth u (st_ledger st') + paid u st' = worth u (st_ledger st) + paid u st"
  using assms
proof (induction rule: billing.induct)
  case (insert st st' row)
  with insert_solvent [of u R st' row] show ?case by simp
next
  case (charge st st' row f g ts)
  with charge_solvent [of u R st' row f g ts] show ?case by simp
next
  case (annotate st st' f i)
  with annotate_solvent [of u R st' f i] show ?case by simp
qed simp

text \<open>A list that is long enough has every record that is due.\<close>

lemma find_complete:
  assumes "r \<in> set (st_usage st)" "uncollected (st_ledger st) r" "su_chargeNextAt r \<le> now"
  shows "uncharged_of r \<in> set (FindUnchargedUsage now (int (length (st_usage st))) st)"
proof -
  let ?k = "\<lambda>r. (su_chargeNextAt r, ug_Ts (su_record r), row_id r)"
  let ?xs = "sort_key ?k (filter (\<lambda>r. uncollected (st_ledger st) r \<and> su_chargeNextAt r \<le> now) (st_usage st))"
  have "length ?xs \<le> length (st_usage st)" by simp
  then have "take (length (st_usage st)) ?xs = ?xs" by (rule take_all)
  moreover have "0 < length (st_usage st)" using assms(1) by (cases "st_usage st") auto
  ultimately show ?thesis using assms by (simp add: FindUnchargedUsage_def Let_def)
qed

text \<open>C5: for a user with a limited balance the balance, less what it owes, changes through a run of the recorder by exactly
  the frozen costs of the stored records that were collected: none is collected twice, by charges of the batch, by their
  repetition, by the charges of single records and by those of the maintenance task, and what is not collected is
  listed for the maintenance task.\<close>

theorem costs_collected_once:
  assumes "steps ex (Recorder.New st0) as s" "one_each (origins st0 s)" "distinct (map row_id (st_usage st0))"
    and "ledger_ok (st_ledger st0)" "limited u (st_ledger st0)" "u \<noteq> ''''" "books u (origins st0 s) st0"
  shows "worth u (st_ledger (rk_store s)) = worth u (st_ledger st0) - (paid u (rk_store s) - paid u st0) \<and>
    (\<forall>r. r \<in> set (st_usage (rk_store s)) \<and> billable r \<and> \<not> collected (st_ledger (rk_store s)) r \<and> su_chargeNextAt r \<le> now \<longrightarrow>
       uncharged_of r \<in> set (FindUnchargedUsage now (int (length (st_usage (rk_store s)))) (rk_store s)))"
proof -
  have "unambiguous (origins st0 s)" using assms(2) by (simp add: one_each_def unambiguous_def)
  note b = steps_good(2) [OF assms(1) this]
  have "known (origins st0 s) st0" by (auto simp: known_def origins_def)
  with assms have "solvent u (origins st0 s) st0" by (simp add: solvent_def)
  from billing_solvent [OF b this] find_complete [of _ "rk_store s"] show ?thesis by (auto simp: collected_def)
qed

text \<open>Two records of which no charge got through: the balance covers the first.\<close>

definition demo_row :: "ident \<Rightarrow> stored_usage" where
  "demo_row i = usageInsertArgs (demo_usage i) 2 False"

definition demo_funds :: ledger where
  "demo_funds = \<lparr>lg_users = [''ann'' \<mapsto> \<lparr>ac_balance = Some 300, ac_remainder = 0\<rparr>], lg_charges = Map.empty, lg_pending = [], lg_topups = []\<rparr>"

definition demo_due :: store where
  "demo_due = demo_tables\<lparr>st_usage := [demo_row ''a'', demo_row ''b''], st_ledger := demo_funds\<rparr>"

definition demo_repairs :: "action list" where
  "demo_repairs = [Maintain False False ''g'' 5 (demo_row ''a''), Maintain False False ''g'' 6 (demo_row ''b'')]"

lemma demo_row_fields [simp]:
  "row_id (demo_row i) = i" "ug_UserID (su_record (demo_row i)) = ''ann''" "ug_RequestID (su_record (demo_row i)) = i"
  "ug_Status (su_record (demo_row i)) = UsageStatusOK" "su_cost (demo_row i) = 2" "row_key (demo_row i) = (i, ''ann'')"
  "su_chargeNextAt (demo_row i) = 0"
  by (simp_all add: demo_row_def row_id_def row_key_def demo_usage_def usageInsertArgs_def)

definition demo_paid :: ledger where
  "demo_paid = \<lparr>lg_users = [''ann'' \<mapsto> \<lparr>ac_balance = Some 100, ac_remainder = 0\<rparr>], lg_charges = [(''a'', ''ann'') \<mapsto> 200],
     lg_pending = [], lg_topups = []\<rparr>"

lemma demo_charges:
  "ChargeBalance False ''g'' 5 ''ann'' 2 ''a'' demo_funds = (demo_paid, Inr ())"
  "ChargeBalance False ''g'' 6 ''ann'' 2 ''b'' demo_paid =
     (demo_paid\<lparr>lg_pending := [\<lparr>pn_request = ''b'', pn_user = ''ann'', pn_micros = 2000000, pn_ts = 6\<rparr>]\<rparr>, Inl ErrInsufficientBalance)"
  by (simp_all add: demo_funds_def demo_paid_def ChargeBalance_def charge_attempt_def chargeBalanceTx_def
      recordPendingRemainderTx_def YuanToMicros_two set_account_def set_charge_def delete_pending_def Let_def go_div_def go_mod_def case_unit_Unity)

lemma demo_repaired:
  "let s = fold (act (\<lambda>_. False)) demo_repairs (Recorder.New demo_due) in
     runnable (\<lambda>_. False) demo_repairs (Recorder.New demo_due) \<and>
     rk_jobs s = [] \<and> worth ''ann'' (st_ledger (rk_store s)) = -1000000"
  by (simp add: demo_repairs_def act_def enabled_def Recorder.New_def demo_due_def billable_def uncharged_of_def
      ReconcileOneUnchargedUsage_def noteChargeRetry_def update_row_def demo_charges Let_def)
     (simp add: worth_def owed_def demo_paid_def)

theorem costs_collected_once_witness:
  "\<exists>s. steps (\<lambda>_. False) (Recorder.New demo_due) demo_repairs s \<and> paid ''ann'' (rk_store s) = 4000000"
proof -
  define s where "s = fold (act (\<lambda>_. False)) demo_repairs (Recorder.New demo_due)"
  note e = demo_repaired [unfolded Let_def, folded s_def]
  have run: "steps (\<lambda>_. False) (Recorder.New demo_due) demo_repairs s"
    unfolding s_def using e by (intro run_steps) simp
  have o: "origins demo_due s = (\<lambda>i. origin (su_record (demo_row i))) ` {''a'', ''b''}"
    using e by (simp add: origins_def demo_due_def)
  have "one_each (origins demo_due s)"
    unfolding o one_each_def inj_on_def by (simp add: request_key_def origin_def)
      (simp add: demo_row_def usageInsertArgs_def demo_usage_def)
  moreover have "distinct (map row_id (st_usage demo_due))" by (simp add: demo_due_def)
  moreover have "ledger_ok (st_ledger demo_due)" "limited ''ann'' (st_ledger demo_due)" "worth ''ann'' (st_ledger demo_due) = 3000000"
    by (simp_all add: demo_due_def demo_funds_def ledger_ok_def account_ok_def limited_def worth_def owed_def)
  moreover have none: "\<not> collected (st_ledger demo_due) r" for r
    by (simp add: collected_def uncollected_def demo_due_def demo_funds_def)
  have "books ''ann'' (origins demo_due s) demo_due"
    unfolding books_def o using none by (auto simp: demo_due_def row_id_origin origin_def)
  moreover have "paid ''ann'' demo_due = 0" by (simp add: paid_def none)
  ultimately show ?thesis
    using costs_collected_once [OF run, of "''ann''"] e run by (intro exI [of _ s]) simp
qed


end
