(* ===== verification/Drain.thy ===== *)
theory Drain
  imports Bookkeeping
begin

text \<open>
  The shutdown of the recorder: once the queue is closed and the store works again, the worker comes to its end, and
  what \<^verbatim>\<open>Wait\<close> then reports.
\<close>

section \<open>A store that works\<close>

definition working :: "flush_oracle \<Rightarrow> bool" where
  "working fo \<longleftrightarrow> (\<forall>i. fo_one fo i = Commits)"

lemma Create_commits: "CreateUsageRecordWithCost Commits lf now r st = (st', r', res) \<Longrightarrow> res \<noteq> Inl WriteError"
  by (auto simp: CreateUsageRecordWithCost_def Let_def split: prod.splits if_splits)

lemma one_by_one_works:
  assumes "working fo"
  shows "flushOneByOne ex fo i js s = (s', js', ok) \<Longrightarrow> ok"
proof (induction js arbitrary: i s s' js' ok)
  case (Cons j js)
  obtain st r res where c: "CreateUsageRecordWithCost (fo_one fo i) (fo_oneLookup fo i) (fo_oneNow fo i) (jb_rec j) (rk_store s) = (st, r, res)"
    by (metis prod.collapse)
  have res: "res \<noteq> Inl WriteError" using Create_commits c assms by (metis working_def)
  with Cons.prems c show ?case
    by (cases res) (auto simp: Let_def split: prod.splits usage_error.splits dest: Cons.IH)
qed simp

text \<open>Single records get through, so the batch does, whatever became of its own transactions.\<close>

lemma flush_works:
  assumes w: "working fo"
  shows "\<exists>s' js'. flush ex fo js s = (s', js', True) \<and> only_writes s s'"
proof -
  obtain s' js' ok where f: "flush ex fo js s = (s', js', ok)" by (metis prod.collapse)
  have ok
    using f unfolding flush_def Let_def
    by (auto split: if_splits prod.splits sum.splits dest: one_by_one_works [OF w])
  with f flush_only_writes [OF f] show ?thesis by auto
qed

section \<open>The worker comes to its end\<close>

fun worker_action :: "action \<Rightarrow> bool" where
  "worker_action (Retry fo gaveUp) = working fo"
| "worker_action (Take fo gaveUp k) = working fo"
| "worker_action Drained = True"
| "worker_action _ = False"

definition distance :: "recorder \<Rightarrow> nat" where
  "distance s = 2 * length (rk_queue s) + (case rk_pc s of Top \<Rightarrow> 2 | Reading \<Rightarrow> 1 | Exited \<Rightarrow> 0)"

lemma top_works:
  assumes "working fo" "rk_pc s = Top"
  shows "rk_pc (worker_top ex fo gaveUp s) = Reading \<and> rk_queue (worker_top ex fo gaveUp s) = rk_queue s \<and>
    rk_closed (worker_top ex fo gaveUp s) = rk_closed s"
proof -
  obtain s' js where f: "flush ex fo (rk_pending s) s = (s', js, True)" "only_writes s s'" using flush_works [OF assms(1)] by blast
  show ?thesis using f(1) only_writes_fields [OF f(2)] by (simp add: worker_top_def)
qed

lemma read_works:
  assumes "working fo"
  shows "rk_pc (worker_read ex fo gaveUp k s) = Top \<and> rk_queue (worker_read ex fo gaveUp k s) = drop k (rk_queue s) \<and>
    rk_closed (worker_read ex fo gaveUp k s) = rk_closed s"
proof -
  let ?s = "s\<lparr>rk_queue := drop k (rk_queue s)\<rparr>"
  obtain s' js where f: "flush ex fo (rk_batch s @ take k (rk_queue s)) ?s = (s', js, True)" "only_writes ?s s'"
    using flush_works [OF assms] by blast
  show ?thesis using f(1) only_writes_fields [OF f(2)] by (simp add: worker_read_def)
qed

lemma worker_step_closer:
  assumes "step ex s a s'" "worker_action a"
  shows "distance s' < distance s \<and> rk_closed s' = rk_closed s"
  using assms
proof (cases rule: step.cases)
  case (retry gaveUp fo)
  with assms(2) top_works [of fo s ex gaveUp] show ?thesis by (simp add: distance_def)
next
  case (take k gaveUp fo)
  with assms(2) read_works [of fo ex gaveUp k s] show ?thesis by (simp add: distance_def)
qed (auto simp: distance_def leave_def)

lemma worker_next:
  assumes "rk_closed s" "rk_pc s \<noteq> Exited" "working fo"
  shows "\<exists>a. worker_action a \<and> enabled a s"
proof (cases "rk_pc s = Top")
  case True
  with assms(3) show ?thesis by (intro exI [of _ "Retry fo False"]) (simp add: enabled_def)
next
  case False
  with assms(2) have pc: "rk_pc s = Reading" by (cases "rk_pc s") auto
  show ?thesis
  proof (cases "rk_queue s = []")
    case True
    with pc assms(1) show ?thesis by (intro exI [of _ Drained]) (simp add: enabled_def)
  next
    case False
    then have "1 \<le> length (rk_queue s)" by (cases "rk_queue s") auto
    with pc assms(3) show ?thesis by (intro exI [of _ "Take fo False 1"]) (simp add: enabled_def)
  qed
qed

text \<open>C10: once the queue is closed and single records can be written again, the worker cannot go on for ever: it takes
  at most two steps for every record in the queue and two more, whichever number of records it takes at a time, and until it
  has left there is always a next step. So it does leave.\<close>

theorem worker_leaves:
  assumes "rk_closed s"
  shows "(\<forall>as s'. steps ex s as s' \<and> list_all worker_action as \<longrightarrow>
      length as \<le> 2 * length (rk_queue s) + 2 \<and>
      (rk_pc s' = Exited \<or> (\<exists>a s''. worker_action a \<and> step ex s' a s''))) \<and>
    (\<exists>as s'. steps ex s as s' \<and> list_all worker_action as \<and> rk_pc s' = Exited)"
proof -
  have bound: "length as + distance s' \<le> distance s \<and> rk_closed s' = rk_closed s"
    if "steps ex s as s'" "list_all worker_action as" for as s'
    using that
  proof (induction rule: steps.induct)
    case (more s as s' a s'')
    with worker_step_closer [OF more.hyps(2)] show ?case by fastforce
  qed simp
  have fo: "working (demo_flush Commits False)" by (simp add: working_def demo_flush_def)
  have "next": "\<exists>a s''. worker_action a \<and> step ex s' a s''" if "rk_closed s'" "rk_pc s' \<noteq> Exited" for s'
    using worker_next [OF that fo] step_act by blast
  have some: "\<exists>as s''. steps ex s' as s'' \<and> list_all worker_action as \<and> rk_pc s'' = Exited" if "rk_closed s'" for s'
    using that
  proof (induction "distance s'" arbitrary: s' rule: less_induct)
    case less
    show ?case
    proof (cases "rk_pc s' = Exited")
      case True
      then show ?thesis by (intro exI [of _ "[]"] exI [of _ s']) (simp add: steps.none)
    next
      case False
      obtain a s1 where a: "worker_action a" "step ex s' a s1" using "next" [OF less.prems False] by blast
      note c = worker_step_closer [OF a(2,1)]
      obtain as s2 where "steps ex s1 as s2" "list_all worker_action as" "rk_pc s2 = Exited"
        using less.hyps [of s1] c less.prems by auto
      with a show ?thesis by (intro exI [of _ "a # as"] exI [of _ s2]) (auto intro: steps_first)
    qed
  qed
  have "distance s \<le> 2 * length (rk_queue s) + 2" by (simp add: distance_def split: worker_pc.split)
  then show ?thesis using bound "next" some [OF assms] assms by (meson le_trans add_leE)
qed

definition demo_closed :: recorder where
  "demo_closed = (Recorder.New demo_tables)\<lparr>rk_queue := [\<lparr>jb_rec = demo_usage ''a'', jb_once = 0\<rparr>],
     rk_jobs := [\<lparr>jb_rec = demo_usage ''a'', jb_once = 0\<rparr>], rk_closed := True\<rparr>"

theorem worker_leaves_witness:
  "rk_closed demo_closed \<and> length (rk_queue demo_closed) = 1 \<and>
   (\<exists>as s'. steps (\<lambda>_. False) demo_closed as s' \<and> rk_pc s' = Exited)"
proof -
  have closed: "rk_closed demo_closed" "length (rk_queue demo_closed) = 1" by (simp_all add: demo_closed_def)
  from worker_leaves [OF closed(1), of "\<lambda>_. False"] closed show ?thesis by blast
qed

section \<open>What is left of a failure\<close>

text \<open>A batch that gets through at its repetition stays in the worker's batch and is written again with the next
  records, where it meets its own rows.\<close>

theorem retried_batch_written_again:
  assumes "working fo" "rk_pc s = Top" "rk_pending s \<noteq> []"
  shows "rk_pending (worker_top ex fo gaveUp s) = [] \<and> length (rk_batch (worker_top ex fo gaveUp s)) = length (rk_pending s)"
proof -
  obtain s' js where f: "flush ex fo (rk_pending s) s = (s', js, True)" "only_writes s s'" using flush_works [OF assms(1)] by blast
  have "length js = length ps" if "flushOneByOne ex fo i ps t = (t', js, ok)" for i ps t t' js ok
    using that by (induction ps arbitrary: i t t' js ok) (auto simp: Let_def split: prod.splits sum.splits usage_error.splits)
  moreover have "length (set_recs recs (rk_pending s)) = length (rk_pending s)"
    if "insert_attempts fo i n (map jb_rec (rk_pending s)) st = (st', recs, res)" for i n st st' recs res
    using conjunct1 [OF conjunct2 [OF insert_attempts_billing [OF that, of UNIV]]]
    by (auto simp: set_recs_def dest: arg_cong [of _ _ length])
  ultimately have "length js = length (rk_pending s)"
    using f(1) assms(3) by (fastforce simp: flush_def Let_def split: prod.splits sum.splits if_splits)
  with f(1) assms(3) show ?thesis by (simp add: worker_top_def)
qed

text \<open>Nor does the repetition take back the mark of the failure: when the queue is closed before another batch is
  written, \<open>Wait\<close> reports records that are not stored although all of them are.\<close>

definition demo_hiccup :: "action list" where
  "demo_hiccup = [Send (demo_usage ''a''), Retry (demo_flush Commits False) False, Take (demo_flush Fails False) False 1,
     Retry (demo_flush Commits False) False, Close, Drained]"

theorem drained_reported_pending:
  "let s = fold (act (\<lambda>_. False)) demo_hiccup (Recorder.New demo_tables) in
     runnable (\<lambda>_. False) demo_hiccup (Recorder.New demo_tables) \<and> rk_pc s = Exited \<and>
     map job_id (rk_jobs s) = [''a''] \<and> map row_id (st_usage (rk_store s)) = [''a''] \<and> rk_lost s = [] \<and> \<not> Wait s"
  by code_simp

end
