(* ===== verification/Sequential.thy ===== *)
theory Sequential
  imports Bookkeeping
begin

text \<open>
  While nothing fails, the recorder with its queue, its batches and its two transactions per batch is indistinguishable
  from one that writes and charges every record by itself: the refinement of that specification.
\<close>

section \<open>The specification\<close>

text \<open>One record, with the times of its insertion and of its charge.\<close>

definition charge_record :: "(ident \<Rightarrow> bool) \<Rightarrow> int \<Rightarrow> UsageRecord \<Rightarrow> rat \<Rightarrow> ledger \<Rightarrow> ledger" where
  "charge_record ex ts r c l =
     (if ex (ug_UserID r) \<or> ug_Status r \<noteq> UsageStatusOK \<or> ug_RequestID r = '''' then l
      else fst (ChargeBalance False '''' ts (ug_UserID r) c (ug_RequestID r) l))"

definition bill :: "(ident \<Rightarrow> bool) \<Rightarrow> UsageRecord \<times> int \<times> int \<Rightarrow> store \<Rightarrow> store" where
  "bill ex = (\<lambda>(r, ti, tc) st.
     (case CreateUsageRecordWithCost Commits False ti r st of
        (st, r, Inr c) \<Rightarrow> st\<lparr>st_ledger := charge_record ex tc r c (st_ledger st)\<rparr>
      | (st, r, Inl _) \<Rightarrow> st))"

section \<open>Charges\<close>

lemma Charge_gen: "req \<noteq> '''' \<Longrightarrow> ChargeBalance f g ts uid y req l = ChargeBalance f g' ts uid y req l"
  by (simp add: ChargeBalance_def charge_attempt_def recordPendingRemainderTx_def cong: if_cong)

lemma charge_record_eq:
  "\<not> ex (ug_UserID r) \<Longrightarrow> ug_Status r = UsageStatusOK \<Longrightarrow> ug_RequestID r \<noteq> '''' \<Longrightarrow>
    charge_record ex ts r c l = fst (ChargeBalance False g ts (ug_UserID r) c (ug_RequestID r) l)"
  by (simp add: charge_record_def, subst Charge_gen [where g = "''''" and g' = g]) simp_all

lemma charge_record_free: "c \<le> 0 \<Longrightarrow> charge_record ex ts r c l = l"
  by (simp add: charge_record_def ChargeBalance_def)

text \<open>A charge that is refused for another reason than the balance changes nothing, however often it is tried.\<close>

lemma Charge_refused:
  assumes "ChargeBalance False g ts uid y req l = (l', Inl e)" "e \<noteq> ErrInsufficientBalance" "req \<noteq> ''''"
  shows "l' = l \<and> ChargeBalance False g' ts' uid y req l = (l, Inl e)"
proof (cases "uid = '''' \<or> y \<le> 0")
  case True
  with assms(1) show ?thesis by (cases "uid = []") (simp_all add: ChargeBalance_def)
next
  case False
  obtain l1 r where tx: "chargeBalanceTx uid y req l = (l1, r)" by fastforce
  show ?thesis
  proof (cases r)
    case (Inl d)
    with assms False tx show ?thesis
      by (cases d) (simp_all add: ChargeBalance_def charge_attempt_def)
  next
    case (Inr b)
    with assms(1,3) False tx show ?thesis
      by (simp add: ChargeBalance_def charge_attempt_def case_unit_Unity)
  qed
qed

definition calm :: "charge_oracle \<Rightarrow> bool" where
  "calm co \<longleftrightarrow> (\<forall>i. \<not> co_fails co i)"

lemma retry_refused:
  assumes "calm co" "ug_RequestID r \<noteq> ''''"
    and "ChargeBalance False g ts (ug_UserID r) c (ug_RequestID r) l = (l', Inl e)" "e \<noteq> ErrInsufficientBalance"
  shows "retryCharge co i n r c l = l"
proof (induction n arbitrary: i)
  case (Suc n)
  have "charge_once co i r c l = (l, Inl e)"
    using Charge_refused [OF assms(3,4,2)] assms(1) by (simp add: charge_once_def calm_def)
  with Suc assms(4) show ?case by (cases e) simp_all
qed simp

lemma chargeRecord_calm:
  assumes "calm co"
  shows "chargeRecord ex co r c l = charge_record ex (co_now co 0) r c l"
proof (cases "ex (ug_UserID r) \<or> ug_Status r \<noteq> UsageStatusOK \<or> ug_RequestID r = ''''")
  case False
  obtain l' res where c: "charge_once co 0 r c l = (l', res)" by fastforce
  then have cb: "ChargeBalance False (co_gen co 0) (co_now co 0) (ug_UserID r) c (ug_RequestID r) l = (l', res)"
    using assms by (simp add: charge_once_def calm_def)
  have spec: "charge_record ex (co_now co 0) r c l = l'"
    using False cb by (subst charge_record_eq [where g = "co_gen co 0"]) simp_all
  show ?thesis
  proof (cases "res = Inl ErrInsufficientBalance \<or> (\<exists>x. res = Inr x)")
    case True
    with False c show ?thesis by (auto simp: chargeRecord_def spec)
  next
    case err: False
    then obtain e where e: "res = Inl e" "e \<noteq> ErrInsufficientBalance" by (cases res) auto
    have req: "ug_RequestID r \<noteq> ''''" using False by simp
    from cb have cb': "ChargeBalance False (co_gen co 0) (co_now co 0) (ug_UserID r) c (ug_RequestID r) l = (l', Inl e)" by (simp add: e)
    from Charge_refused [OF cb' e(2) req] have "l' = l" by blast
    moreover from retry_refused [OF assms req cb' e(2)] have "retryCharge co 1 3 r c l = l" .
    ultimately show ?thesis using False c e by (cases e) (simp_all add: chargeRecord_def spec)
  qed
qed (auto simp: chargeRecord_def charge_record_def)

text \<open>The charges of a batch, one after the other, each at some time.\<close>

definition charge_all :: "(ident \<Rightarrow> bool) \<Rightarrow> int list \<Rightarrow> (UsageRecord \<times> rat) list \<Rightarrow> ledger \<Rightarrow> ledger" where
  "charge_all ex ts rcs l = fold (\<lambda>(t, r, c). charge_record ex t r c) (zip ts rcs) l"

lemma charge_each_record_calm:
  assumes "\<forall>i. calm (cors i)"
  shows "\<exists>ts. length ts = length rcs \<and> charge_each_record ex cors i rcs l = charge_all ex ts rcs l"
proof (induction rcs arbitrary: i l)
  case Nil
  then show ?case by (simp add: charge_all_def)
next
  case (Cons rc rcs)
  obtain r c where rc: "rc = (r, c)" by fastforce
  obtain ts where "length ts = length rcs"
    "charge_each_record ex cors (i + 1) rcs (charge_record ex (co_now (cors i) 0) r c l) =
       charge_all ex ts rcs (charge_record ex (co_now (cors i) 0) r c l)"
    using Cons.IH by blast
  with rc assms show ?case
    by (intro exI [of _ "co_now (cors i) 0 # ts"]) (simp add: charge_all_def chargeRecord_calm)
qed

lemma charge_each_all:
  "fst (charge_each gen ts i (map balance_charge_of (filter (chargeable ex) rcs)) l) =
    charge_all ex (replicate (length rcs) ts) rcs l"
proof (induction rcs arbitrary: i l)
  case Nil
  then show ?case by (simp add: charge_all_def)
next
  case (Cons rc rcs)
  obtain r c where rc: "rc = (r, c)" by fastforce
  show ?case
  proof (cases "chargeable ex rc")
    case True
    then have "fst (ChargeBalance False (gen i) ts (ug_UserID r) c (ug_RequestID r) l) = charge_record ex ts r c l"
      using rc by (subst charge_record_eq) (simp_all add: chargeable_def)
    then obtain res where cb: "ChargeBalance False (gen i) ts (ug_UserID r) c (ug_RequestID r) l = (charge_record ex ts r c l, res)"
      by (metis prod.collapse)
    obtain l2 es where rest: "charge_each gen ts (i + 1) (map balance_charge_of (filter (chargeable ex) rcs)) (charge_record ex ts r c l) = (l2, es)"
      by fastforce
    have "l2 = charge_all ex (replicate (length rcs) ts) rcs (charge_record ex ts r c l)"
      using Cons.IH [of "i + 1" "charge_record ex ts r c l"] rest by simp
    with True rc cb rest show ?thesis
      by (simp add: charge_all_def) (simp add: balance_charge_of_def)
  next
    case False
    then have "charge_record ex ts r c l = l"
      using rc charge_record_free [of c ex ts r l] by (auto simp: chargeable_def charge_record_def)
    with False rc Cons.IH show ?thesis by (simp add: charge_all_def)
  qed
qed

lemma chargeBatch_calm:
  assumes "\<not> bo_fails bo" "\<forall>i. calm (cors i)"
  shows "\<exists>ts. length ts = length rcs \<and> chargeBatch ex bo cors rcs l = charge_all ex ts rcs l"
proof -
  let ?cs = "map balance_charge_of (filter (chargeable ex) rcs)"
  show ?thesis
  proof (cases "charge_loop (bo_gen bo) (bo_now bo) 0 ?cs l")
    case (Inl e)
    show ?thesis
    proof (cases "?cs = []")
      case False
      then have "chargeBatch ex bo cors rcs l = charge_each_record ex cors 0 rcs l"
        using assms(1) Inl by (simp add: chargeBatch_def ChargeBalances_def Let_def)
      with charge_each_record_calm [OF assms(2)] show ?thesis by simp
    qed (use Inl in simp)
  next
    case (Inr p)
    obtain l' es where p: "p = (l', es)" by fastforce
    have "charge_each (bo_gen bo) (bo_now bo) 0 ?cs l = (l', es)" using Inr p by (intro charge_loop_sequence) simp
    then have "l' = charge_all ex (replicate (length rcs) (bo_now bo)) rcs l"
      using charge_each_all [of "bo_gen bo" "bo_now bo" 0 ex rcs l] by simp
    moreover have "chargeBatch ex bo cors rcs l = l'"
      using assms(1) Inr p by (cases "?cs = []") (auto simp: chargeBatch_def ChargeBalances_def Let_def)
    ultimately show ?thesis by (intro exI [of _ "replicate (length rcs) (bo_now bo)"]) simp
  qed
qed

section \<open>Insertions\<close>

definition cost_of :: "store \<Rightarrow> UsageRecord \<Rightarrow> rat \<times> bool" where
  "cost_of st r = freezeUsageCost False st (r\<lparr>ug_Tokens := nonneg_tokens (ug_Tokens r)\<rparr>)"

definition row_at :: "int \<Rightarrow> store \<Rightarrow> UsageRecord \<Rightarrow> stored_usage" where
  "row_at t st r = usageInsertArgs (r\<lparr>ug_Tokens := nonneg_tokens (ug_Tokens r), ug_Ts := (if ug_Ts r = 0 then t else ug_Ts r)\<rparr>)
     (fst (cost_of st r)) (snd (cost_of st r))"

lemma cost_of_models: "st_models st' = st_models st \<Longrightarrow> cost_of st' r = cost_of st r"
  by (simp add: cost_of_def freezeUsageCost_def)

lemma row_at_models: "st_models st' = st_models st \<Longrightarrow> row_at t st' r = row_at t st r"
  using cost_of_models [of st' st] by (simp add: row_at_def)

lemma row_at_id [simp]: "row_id (row_at t st r) = ug_ID r"
  by (simp add: row_at_def)

lemma charge_record_origin: "origin r' = origin r \<Longrightarrow> charge_record ex t r' c l = charge_record ex t r c l"
  by (simp add: charge_record_def origin_def)

lemma charge_all_origin:
  "map origin rs' = map origin rs \<Longrightarrow> charge_all ex ts (zip rs' cs) l = charge_all ex ts (zip rs cs) l"
proof (induction rs' arbitrary: rs ts cs l)
  case (Cons r' rs')
  then obtain r rs0 where rs: "rs = r # rs0" "origin r' = origin r" "map origin rs' = map origin rs0" by (cases rs) auto
  show ?case
    using Cons.IH [OF rs(3)] charge_record_origin [OF rs(2)] rs
    by (cases ts; cases cs) (simp_all add: charge_all_def)
qed simp

lemma insert_row_ledger: "insert_row row (st\<lparr>st_ledger := l\<rparr>) = (insert_row row st)\<lparr>st_ledger := l\<rparr>"
  by (simp add: insert_row_def Let_def)

lemma insert_rows_ledger: "fold insert_row rows (st\<lparr>st_ledger := l\<rparr>) = (fold insert_row rows st)\<lparr>st_ledger := l\<rparr>"
  by (induction rows arbitrary: st) (simp_all add: insert_row_ledger)

lemma Create_commit:
  assumes "ug_ID r \<notin> row_id ` set (st_usage st)"
  shows "CreateUsageRecordWithCost Commits False t r st =
    (insert_row (row_at t st r) st, r\<lparr>ug_Tokens := nonneg_tokens (ug_Tokens r)\<rparr>, Inr (fst (cost_of st r)))"
  using assms by (simp add: CreateUsageRecordWithCost_def row_at_def cost_of_def Let_def split: prod.split)

lemma bill_new:
  assumes "ug_ID r \<notin> row_id ` set (st_usage st)"
  shows "bill ex (r, ti, tc) st =
    (insert_row (row_at ti st r) st)\<lparr>st_ledger := charge_record ex tc r (fst (cost_of st r)) (st_ledger st)\<rparr>"
  using assms by (simp add: bill_def Create_commit charge_record_origin [of "r\<lparr>ug_Tokens := nonneg_tokens (ug_Tokens r)\<rparr>" r])

definition bill_all :: "(ident \<Rightarrow> bool) \<Rightarrow> int list \<Rightarrow> int list \<Rightarrow> UsageRecord list \<Rightarrow> store \<Rightarrow> store" where
  "bill_all ex tis tcs recs st = fold (bill ex) (zip recs (zip tis tcs)) st"

text \<open>Inserting all and then charging all is billing one by one.\<close>

lemma bill_all_batch:
  assumes "distinct (map ug_ID recs)" "ug_ID ` set recs \<inter> row_id ` set (st_usage st) = {}"
    and "length tis = length recs" "length tcs = length recs"
  shows "bill_all ex tis tcs recs st = (fold insert_row (map (\<lambda>(r, t). row_at t st r) (zip recs tis)) st)
    \<lparr>st_ledger := charge_all ex tcs (zip recs (map (fst \<circ> cost_of st) recs)) (st_ledger st)\<rparr>"
  using assms
proof (induction recs arbitrary: st tis tcs)
  case Nil
  then show ?case by (simp add: bill_all_def charge_all_def)
next
  case (Cons r recs)
  obtain ti tis' tc tcs' where ts: "tis = ti # tis'" "tcs = tc # tcs'" "length tis' = length recs" "length tcs' = length recs"
    using Cons.prems(3,4) by (cases tis; cases tcs) auto
  let ?l = "charge_record ex tc r (fst (cost_of st r)) (st_ledger st)"
  let ?st = "(insert_row (row_at ti st r) st)\<lparr>st_ledger := ?l\<rparr>"
  have first: "bill ex (r, ti, tc) st = ?st" using Cons.prems(2) by (intro bill_new) auto
  have models: "st_models ?st = st_models st" by simp
  note same = cost_of_models [OF models] row_at_models [OF models]
  have "bill_all ex tis' tcs' recs ?st = (fold insert_row (map (\<lambda>(r, t). row_at t ?st r) (zip recs tis')) ?st)
      \<lparr>st_ledger := charge_all ex tcs' (zip recs (map (fst \<circ> cost_of ?st) recs)) (st_ledger ?st)\<rparr>"
    using Cons.prems(1,2) ts(3,4) by (intro Cons.IH) auto
  then show ?case
    unfolding same using first ts by (simp add: bill_all_def charge_all_def insert_rows_ledger comp_def)
qed

lemma Batched_commit:
  assumes "distinct (map ug_ID recs)" "ug_ID ` set recs \<inter> row_id ` set (st_usage st) = {}" "\<forall>i. \<not> lf i"
    and ids: "distinct (map row_id (st_usage st))"
  shows "\<exists>recs'. CreateUsageRecordsBatched Commits lf t recs st =
      (fold insert_row (map (row_at t st) recs) st, recs', Inr (map (fst \<circ> cost_of st) recs)) \<and> map origin recs' = map origin recs"
proof -
  consider "recs = []" | r where "recs = [r]" | x y xs where "recs = x # y # xs"
    by (cases recs rule: remdups_adj.cases) auto
  then show ?thesis
  proof cases
    case 2
    with assms show ?thesis by (simp add: CreateUsageRecordsBatched_def Create_commit)
  next
    case (3 x y xs)
    let ?n = "\<lambda>r. r\<lparr>ug_Tokens := nonneg_tokens (ug_Tokens r), ug_Ts := (if ug_Ts r = 0 then t else ug_Ts r)\<rparr>"
    have cost: "freezeUsageCost (lf i) st (?n r) = cost_of st r" for i r
      using assms(3) by (simp add: cost_of_def freezeUsageCost_def Let_def split: option.split)
    have comp: "batchComputeCosts lf t st recs = (map ?n recs, map (cost_of st) recs)"
      unfolding batchComputeCosts_def Let_def by (simp add: list_eq_iff_nth_eq nth_enumerate_eq cost)
    have rows: "map (\<lambda>(r, cost, pending). usageInsertArgs r cost pending) (zip (map ?n recs) (map (cost_of st) recs)) = map (row_at t st) recs"
      by (simp add: list_eq_iff_nth_eq row_at_def split: prod.split)
    have ids': "distinct (map row_id (st_usage st @ map (row_at t st) recs))"
      using assms(1,2) ids by (auto simp: comp_def)
    have "CreateUsageRecordsBatched Commits lf t recs st =
        (fold insert_row (map (row_at t st) recs) st, map ?n recs, Inr (map fst (map (cost_of st) recs)))"
      unfolding 3 CreateUsageRecordsBatched_def list.case
      unfolding 3 [symmetric] comp Let_def prod.case rows
      using ids' by (simp only: tx_result.distinct if_False not_True_eq_False)
    then show ?thesis by (intro exI [of _ "map ?n recs"]) simp
  qed (simp add: CreateUsageRecordsBatched_def)
qed

section \<open>Batches\<close>

definition calm_store :: "flush_oracle \<Rightarrow> bool" where
  "calm_store fo \<longleftrightarrow> (\<forall>i. fo_insert fo i = Commits) \<and> (\<forall>i j. \<not> fo_lookup fo i j) \<and> \<not> bo_fails (fo_batch fo) \<and>
     (\<forall>i. calm (fo_charge fo i)) \<and> (\<forall>i. fo_one fo i = Commits \<and> \<not> fo_oneLookup fo i)"

lemma flush_calm:
  assumes fo: "calm_store fo" and ids: "distinct (map row_id (st_usage (rk_store s)) @ map job_id js)"
  shows "\<exists>tis tcs js'. length tis = length js \<and> length tcs = length js \<and> map tag js' = map tag js \<and>
    flush ex fo js s = (fold finish js' (s\<lparr>rk_store := bill_all ex tis tcs (map jb_rec js) (rk_store s)\<rparr>), js', True)"
proof (cases "js = []")
  case True
  then show ?thesis by (simp add: flush_def bill_all_def)
next
  case False
  let ?recs = "map jb_rec js" and ?st = "rk_store s" and ?t = "fo_now fo 0"
  have dist: "distinct (map ug_ID ?recs)" "ug_ID ` set ?recs \<inter> row_id ` set (st_usage ?st) = {}" "distinct (map row_id (st_usage ?st))"
    using ids by (auto simp: job_id_def [abs_def] comp_def)
  let ?rows = "fold insert_row (map (row_at ?t ?st) ?recs) ?st" and ?costs = "map (fst \<circ> cost_of ?st) ?recs"
  have "\<forall>i. \<not> fo_lookup fo 0 i" using fo by (simp add: calm_store_def)
  note commit = Batched_commit [OF dist(1,2) this dist(3), of ?t]
  have first: "fo_insert fo 0 = Commits" using fo by (simp add: calm_store_def)
  obtain recs' where b: "CreateUsageRecordsBatched (fo_insert fo 0) (fo_lookup fo 0) ?t ?recs ?st = (?rows, recs', Inr ?costs)"
    "map origin recs' = map origin ?recs" using commit unfolding first by blast
  have ins: "insert_attempts fo 0 usageFlushMaxAttempts ?recs ?st = (?rows, recs', Inr ?costs)"
    using b(1) by (simp add: usageFlushMaxAttempts_def numeral_3_eq_3)
  have len: "length recs' = length js" using arg_cong [OF b(2), of length] by simp
  obtain tcs where tcs: "length tcs = length (zip recs' ?costs)"
    "chargeBatch ex (fo_batch fo) (fo_charge fo) (zip recs' ?costs) (st_ledger ?rows) = charge_all ex tcs (zip recs' ?costs) (st_ledger ?rows)"
    using chargeBatch_calm [of "fo_batch fo" "fo_charge fo"] fo unfolding calm_store_def by blast
  let ?tis = "replicate (length js) ?t" and ?js = "set_recs recs' js"
  have tis: "map (\<lambda>(r, t). row_at t ?st r) (zip ?recs ?tis) = map (row_at ?t ?st) ?recs"
    by (simp add: list_eq_iff_nth_eq)
  have "bill_all ex ?tis tcs ?recs ?st = ?rows\<lparr>st_ledger := charge_all ex tcs (zip recs' ?costs) (st_ledger ?rows)\<rparr>"
    using bill_all_batch [OF dist(1,2), of ?tis tcs ex] tcs(1) len charge_all_origin [OF b(2), of ex tcs ?costs]
    unfolding tis by simp
  then have "flush ex fo js s = (fold finish ?js (s\<lparr>rk_store := bill_all ex ?tis tcs ?recs ?st\<rparr>), ?js, True)"
    using False ins tcs(2) by (simp add: flush_def Let_def with_ledger_def)
  moreover have "map tag ?js = map tag js" using set_recs_tags [of recs' js] b(2) by simp
  moreover have "length tcs = length js" using tcs(1) len by simp
  ultimately show ?thesis by (metis length_replicate)
qed

section \<open>Runs\<close>

fun calm_action :: "action \<Rightarrow> bool" where
  "calm_action (Fallback fo rec) = calm_store fo"
| "calm_action (Retry fo gaveUp) = calm_store fo"
| "calm_action (Take fo gaveUp k) = calm_store fo"
| "calm_action (Maintain cf nf gen now r) = False"
| "calm_action _ = True"

text \<open>The records whose callbacks have run, in that order, without those that came too late.\<close>

definition settled :: "recorder \<Rightarrow> nat list" where
  "settled s = filter (\<lambda>n. n \<notin> jb_once ` set (rk_lost s)) (rk_finished s)"

definition billed :: "recorder \<Rightarrow> UsageRecord list" where
  "billed s = map (\<lambda>n. jb_rec (rk_jobs s ! n)) (settled s)"

definition numbered :: "recorder \<Rightarrow> bool" where
  "numbered s \<longleftrightarrow> map jb_once (rk_jobs s) = [0..<length (rk_jobs s)] \<and> set (rk_queue s) \<subseteq> set (rk_jobs s) \<and>
     distinct (rk_finished s @ map jb_once (rk_queue s)) \<and> set (rk_finished s) \<subseteq> {..<length (rk_jobs s)} \<and>
     jb_once ` set (rk_lost s) \<subseteq> set (rk_finished s) \<and> rk_pending s = [] \<and> rk_batch s = []"

definition sequential :: "(ident \<Rightarrow> bool) \<Rightarrow> store \<Rightarrow> recorder \<Rightarrow> bool" where
  "sequential ex st0 s \<longleftrightarrow> numbered s \<and> (\<exists>tis tcs. length tis = length (billed s) \<and> length tcs = length (billed s) \<and>
     rk_store s = bill_all ex tis tcs (billed s) st0)"

lemma bill_all_append:
  assumes "length tis = length recs" "length tcs = length recs"
  shows "bill_all ex (tis @ tis') (tcs @ tcs') (recs @ recs') st = bill_all ex tis' tcs' recs' (bill_all ex tis tcs recs st)"
  using assms by (simp add: bill_all_def)

lemma bill_all_ids:
  assumes "distinct (map ug_ID recs)" "ug_ID ` set recs \<inter> row_id ` set (st_usage st) = {}"
    and "length tis = length recs" "length tcs = length recs"
  shows "map row_id (st_usage (bill_all ex tis tcs recs st)) = map row_id (st_usage st) @ map ug_ID recs"
proof -
  have "map (row_id \<circ> (\<lambda>(r, t). row_at t st r)) (zip recs tis) = map ug_ID recs"
    using assms(3) by (simp add: list_eq_iff_nth_eq)
  then show ?thesis unfolding bill_all_batch [OF assms] by simp
qed

lemma finish_fresh:
  assumes "distinct (rk_finished s @ map jb_once js)"
  shows "fold finish js s = s\<lparr>rk_finished := rk_finished s @ map jb_once js\<rparr>"
  using assms
proof (induction js arbitrary: s)
  case (Cons j js)
  have "finish j s = s\<lparr>rk_finished := rk_finished s @ [jb_once j]\<rparr>" using Cons.prems by (simp add: finish_def)
  with Cons.IH [of "finish j s"] Cons.prems show ?case by auto
qed simp

lemma numbered_job:
  assumes "numbered s" "j \<in> set (rk_jobs s)"
  shows "jb_once j < length (rk_jobs s) \<and> rk_jobs s ! jb_once j = j"
proof -
  obtain i where i: "i < length (rk_jobs s)" "j = rk_jobs s ! i" using assms(2) by (metis in_set_conv_nth)
  have "map jb_once (rk_jobs s) ! i = i" using assms(1) i(1) by (simp add: numbered_def)
  with i show ?thesis by simp
qed

text \<open>Settled and queued records have fresh identities.\<close>

lemma fresh_ids:
  assumes "numbered s" "distinct (map row_id (st_usage st0) @ map job_id (rk_jobs s))"
  shows "distinct (map row_id (st_usage st0) @ map ug_ID (billed s) @ map job_id (rk_queue s))"
proof -
  let ?id = "\<lambda>n. job_id (rk_jobs s ! n)" and ?ns = "settled s @ map jb_once (rk_queue s)"
  have queue: "map job_id (rk_queue s) = map ?id (map jb_once (rk_queue s))"
    using assms(1) numbered_job [OF assms(1)] by (auto simp: numbered_def)
  have bound: "set ?ns \<subseteq> {..<length (rk_jobs s)}"
    using assms(1) numbered_job [OF assms(1)] by (auto simp: numbered_def settled_def)
  have ids: "map ug_ID (billed s) @ map job_id (rk_queue s) = map ?id ?ns"
    by (simp add: queue billed_def job_id_def)
  have "distinct ?ns" using assms(1) by (auto simp: numbered_def settled_def)
  moreover have "inj_on ?id (set ?ns)"
  proof (rule inj_onI)
    fix x y assume "x \<in> set ?ns" "y \<in> set ?ns" and eq: "?id x = ?id y"
    then have "x < length (rk_jobs s)" "y < length (rk_jobs s)" using bound by blast+
    moreover have "distinct (map job_id (rk_jobs s))" using assms(2) by simp
    ultimately show "x = y" using eq nth_eq_iff_index_eq [of "map job_id (rk_jobs s)" x y] by simp
  qed
  ultimately have "distinct (map ?id ?ns)" by (simp only: distinct_map simp_thms)
  moreover have "set (map ?id ?ns) \<subseteq> set (map job_id (rk_jobs s))" using bound by auto
  moreover have "distinct (map row_id (st_usage st0))" "set (map row_id (st_usage st0)) \<inter> set (map job_id (rk_jobs s)) = {}"
    using assms(2) by (simp_all only: distinct_append)
  ultimately show ?thesis unfolding ids distinct_append [of "map row_id (st_usage st0)"] by blast
qed

lemma sequential_more:
  assumes "sequential ex st0 s" "numbered s'" "billed s' = billed s @ recs" "length tis = length recs" "length tcs = length recs"
    and "rk_store s' = bill_all ex tis tcs recs (rk_store s)"
  shows "sequential ex st0 s'"
proof -
  obtain tis0 tcs0 where "length tis0 = length (billed s)" "length tcs0 = length (billed s)"
    "rk_store s = bill_all ex tis0 tcs0 (billed s) st0" using assms(1) by (auto simp: sequential_def)
  with assms show ?thesis
    unfolding sequential_def by (intro conjI exI [of _ "tis0 @ tis"] exI [of _ "tcs0 @ tcs"]) (simp_all add: bill_all_append)
qed

lemma sequential_kept:
  assumes "sequential ex st0 s" "numbered s'" "billed s' = billed s" "rk_store s' = rk_store s"
  shows "sequential ex st0 s'"
  by (rule sequential_more [OF assms(1,2), of "[]" "[]" "[]"]) (simp_all add: assms bill_all_def)

lemma settled_bound: "numbered s \<Longrightarrow> n \<in> set (settled s) \<Longrightarrow> n < length (rk_jobs s)"
  by (auto simp: numbered_def settled_def)

lemma billed_jobs:
  assumes "numbered s" "settled s' = settled s @ ns" "rk_jobs s' = rk_jobs s @ js"
  shows "billed s' = billed s @ map (\<lambda>n. jb_rec (rk_jobs s' ! n)) ns"
  using assms settled_bound [OF assms(1)] by (simp add: billed_def nth_append)

lemma store_ids:
  assumes "sequential ex st0 s" "distinct (map row_id (st_usage st0) @ map job_id (rk_jobs s))"
  shows "map row_id (st_usage (rk_store s)) = map row_id (st_usage st0) @ map ug_ID (billed s)"
proof -
  have "numbered s" using assms(1) by (simp add: sequential_def)
  note f = fresh_ids [OF this assms(2)]
  obtain tis tcs where "length tis = length (billed s)" "length tcs = length (billed s)"
    "rk_store s = bill_all ex tis tcs (billed s) st0" using assms(1) by (auto simp: sequential_def)
  with bill_all_ids [of "billed s" st0 tis tcs ex] f show ?thesis by (auto simp: comp_def)
qed

text \<open>The number of a new job is fresh.\<close>

lemma distinct_new:
  "distinct (F @ q) \<Longrightarrow> n \<notin> set F \<Longrightarrow> n \<notin> set q \<Longrightarrow> distinct ((F @ [n]) @ q) \<and> distinct (F @ q @ [n])"
  by auto

lemma numbered_new:
  assumes n: "numbered s" and jobs: "rk_jobs s' = rk_jobs s @ [j]" "jb_once j = length (rk_jobs s)"
    and idle: "rk_pending s' = rk_pending s" "rk_batch s' = rk_batch s"
    and new: "rk_queue s' = rk_queue s \<and> rk_finished s' = rk_finished s @ [jb_once j] \<and> (rk_lost s' = rk_lost s @ [j] \<or> rk_lost s' = rk_lost s) \<or>
      rk_queue s' = rk_queue s @ [j] \<and> rk_finished s' = rk_finished s \<and> rk_lost s' = rk_lost s"
  shows "numbered s'"
proof -
  note nd = n [unfolded numbered_def]
  have "jb_once j \<notin> set (rk_finished s)" using nd jobs(2) by auto
  moreover have "jb_once j \<notin> set (map jb_once (rk_queue s))"
  proof
    assume "jb_once j \<in> set (map jb_once (rk_queue s))"
    then obtain k where "k \<in> set (rk_jobs s)" "jb_once k = jb_once j" using nd by auto
    with numbered_job [OF n] jobs(2) show False by fastforce
  qed
  ultimately have d: "distinct ((rk_finished s @ [jb_once j]) @ map jb_once (rk_queue s)) \<and>
      distinct (rk_finished s @ map jb_once (rk_queue s) @ [jb_once j])" using nd by (intro distinct_new) simp_all
  have "distinct (rk_finished s' @ map jb_once (rk_queue s'))" using new d by (elim disjE conjE) (simp_all only: map_append list.map)
  moreover have "set (rk_queue s') \<subseteq> set (rk_jobs s')" using new nd jobs(1) by auto
  moreover have "set (rk_finished s') \<subseteq> {..<length (rk_jobs s')}" using new nd jobs by auto
  moreover have "jb_once ` set (rk_lost s) \<subseteq> set (rk_finished s)" using nd by blast
  then have "jb_once ` set (rk_lost s') \<subseteq> set (rk_finished s')"
    using new by (elim disjE conjE) (simp_all add: image_subset_iff)
  ultimately show ?thesis using nd jobs idle by (simp add: numbered_def)
qed

lemma send_sequential:
  assumes "sequential ex st0 s" "RecordWithCallback rec s = Some s'"
  shows "sequential ex st0 s'"
proof (rule sequential_kept [OF assms(1)])
  have n: "numbered s" using assms(1) by (simp add: sequential_def)
  let ?n = "length (rk_jobs s)"
  have fresh: "?n \<notin> set (rk_finished s)" using n by (auto simp: numbered_def)
  have s': "rk_jobs s' = rk_jobs s @ [new_job rec s]" "rk_store s' = rk_store s" "rk_pending s' = rk_pending s" "rk_batch s' = rk_batch s"
    "rk_queue s' = rk_queue s \<and> rk_finished s' = rk_finished s @ [?n] \<and> rk_lost s' = rk_lost s @ [new_job rec s] \<or>
     rk_queue s' = rk_queue s @ [new_job rec s] \<and> rk_finished s' = rk_finished s \<and> rk_lost s' = rk_lost s"
    using assms(2) fresh by (auto simp: RecordWithCallback_def finish_def new_job_def Let_def split: if_splits)
  show "numbered s'" using s' by (intro numbered_new [OF n s'(1)]) (auto simp: new_job_def)
  show "rk_store s' = rk_store s" by (rule s')
  have "filter (\<lambda>m. m \<noteq> ?n \<and> m \<notin> jb_once ` set (rk_lost s)) (rk_finished s) = settled s"
    unfolding settled_def by (rule filter_cong) (use fresh in auto)
  then have "settled s' = settled s"
    using s'(5) by (auto simp: settled_def new_job_def)
  then show "billed s' = billed s" using billed_jobs [OF n _ s'(1), of "[]"] by simp
qed

lemma fallback_sequential:
  assumes "sequential ex st0 s" "calm_store fo"
    and ids: "distinct (map row_id (st_usage st0) @ map job_id (rk_jobs s @ [new_job rec s]))"
  shows "sequential ex st0 (syncFallback ex fo rec s)"
proof -
  let ?s' = "syncFallback ex fo rec s" and ?j = "new_job rec s" and ?n = "length (rk_jobs s)"
  let ?ti = "fo_oneNow fo 0" and ?tc = "co_now (fo_charge fo 0) 0"
  have n: "numbered s" using assms(1) by (simp add: sequential_def)
  have fresh: "?n \<notin> set (rk_finished s)" "?n \<notin> jb_once ` set (rk_lost s)" using n by (auto simp: numbered_def)
  have ids0: "distinct (map row_id (st_usage st0) @ map job_id (rk_jobs s))" using ids by simp
  have "ug_ID ` set (billed s) \<subseteq> job_id ` set (rk_jobs s)"
    using settled_bound [OF n] by (auto simp: billed_def job_id_def)
  moreover have "ug_ID rec \<notin> row_id ` set (st_usage st0) \<union> job_id ` set (rk_jobs s)"
    using ids by (auto simp: new_job_def job_id_def)
  moreover have "row_id ` set (st_usage (rk_store s)) = row_id ` set (st_usage st0) \<union> ug_ID ` set (billed s)"
    using arg_cong [OF store_ids [OF assms(1) ids0], of set] by simp
  ultimately have new: "ug_ID rec \<notin> row_id ` set (st_usage (rk_store s))" by blast
  have one: "fo_one fo 0 = Commits" "\<not> fo_oneLookup fo 0" "calm (fo_charge fo 0)" using assms(2) by (simp_all add: calm_store_def)
  have s': "rk_store ?s' = bill ex (rec, ?ti, ?tc) (rk_store s)" "rk_jobs ?s' = rk_jobs s @ [?j]" "rk_lost ?s' = rk_lost s"
    "rk_finished ?s' = rk_finished s @ [?n]" "rk_queue ?s' = rk_queue s" "rk_pending ?s' = rk_pending s" "rk_batch ?s' = rk_batch s"
    using one new fresh
    by (simp_all add: syncFallback_def Create_commit bill_def chargeRecord_calm with_ledger_def finish_def new_job_def Let_def)
  have num: "numbered ?s'" using s' by (intro numbered_new [OF n s'(2)]) (auto simp: new_job_def)
  have "settled ?s' = settled s @ [?n]" using fresh by (simp add: settled_def s')
  from billed_jobs [OF n this s'(2)] have "billed ?s' = billed s @ [rec]" by (simp add: s' new_job_def)
  from sequential_more [OF assms(1) num this, of "[?ti]" "[?tc]"] s'(1) show ?thesis by (simp add: bill_all_def)
qed

lemma filter_outside: "L \<subseteq> F \<Longrightarrow> F \<inter> set xs = {} \<Longrightarrow> filter (\<lambda>m. m \<notin> L) xs = xs"
  by (intro filter_True) auto

text \<open>A batch that is taken from the queue.\<close>

lemma take_sequential:
  assumes "sequential ex st0 s" "calm_store fo" "distinct (map row_id (st_usage st0) @ map job_id (rk_jobs s))"
  shows "sequential ex st0 (worker_read ex fo gaveUp k s)"
proof -
  let ?js = "take k (rk_queue s)" and ?q = "drop k (rk_queue s)" and ?s' = "worker_read ex fo gaveUp k s"
  let ?s0 = "s\<lparr>rk_queue := ?q\<rparr>"
  have n: "numbered s" using assms(1) by (simp add: sequential_def)
  note nd = n [unfolded numbered_def]
  have split: "rk_queue s = ?js @ ?q" by simp
  have "distinct ((map row_id (st_usage st0) @ map ug_ID (billed s) @ map job_id ?js) @ map job_id ?q)"
    using fresh_ids [OF n assms(3)] by (metis append_assoc map_append split)
  then have "distinct (map row_id (st_usage st0) @ map ug_ID (billed s) @ map job_id ?js)"
    by (rule conjunct1 [OF iffD1 [OF distinct_append]])
  moreover have store: "rk_store ?s0 = rk_store s" by simp
  ultimately have "distinct (map row_id (st_usage (rk_store ?s0)) @ map job_id ?js)"
    using store_ids [OF assms(1,3)] by (simp only: append_assoc store)
  from flush_calm [OF assms(2) this, of ex] obtain tis tcs js' where
    f: "length tis = length ?js" "length tcs = length ?js" "map tag js' = map tag ?js"
      "flush ex fo ?js ?s0 = (fold finish js' (?s0\<lparr>rk_store := bill_all ex tis tcs (map jb_rec ?js) (rk_store s)\<rparr>), js', True)"
    by auto
  have once: "map jb_once js' = map jb_once ?js"
    using arg_cong [OF f(3), of "map fst"] by (simp add: tag_def comp_def)
  have dist: "distinct ((rk_finished s @ map jb_once ?js) @ map jb_once ?q)"
    using nd by (metis append_assoc map_append split)
  from iffD1 [OF distinct_append this] have "distinct (rk_finished s @ map jb_once js')" unfolding once by (rule conjunct1)
  then have fin: "fold finish js' (?s0\<lparr>rk_store := bill_all ex tis tcs (map jb_rec ?js) (rk_store s)\<rparr>) =
      ?s0\<lparr>rk_store := bill_all ex tis tcs (map jb_rec ?js) (rk_store s), rk_finished := rk_finished s @ map jb_once ?js\<rparr>"
    using finish_fresh [of "?s0\<lparr>rk_store := bill_all ex tis tcs (map jb_rec ?js) (rk_store s)\<rparr>" js'] once by simp
  have s': "?s' = ?s0\<lparr>rk_store := bill_all ex tis tcs (map jb_rec ?js) (rk_store s), rk_finished := rk_finished s @ map jb_once ?js,
      rk_flushFailed := False, rk_batch := [], rk_pc := Top\<rparr>"
    using f(4) nd by (simp add: worker_read_def fin)
  have sub: "set ?js \<subseteq> set (rk_jobs s)" "set ?q \<subseteq> set (rk_jobs s)"
    using nd set_take_subset [of k "rk_queue s"] set_drop_subset [of k "rk_queue s"] by blast+
  then have bound: "jb_once ` set ?js \<subseteq> {..<length (rk_jobs s)}" using numbered_job [OF n] by blast
  have num: "numbered ?s'"
    using nd sub bound dist unfolding s' numbered_def by (simp add: le_supI1)
  have "filter (\<lambda>m. m \<notin> jb_once ` set (rk_lost s)) (map jb_once ?js) = map jb_once ?js"
  proof (rule filter_outside)
    show "jb_once ` set (rk_lost s) \<subseteq> set (rk_finished s)" using nd by blast
    show "set (rk_finished s) \<inter> set (map jb_once ?js) = {}" using dist by (simp only: distinct_append)
  qed
  then have "settled ?s' = settled s @ map jb_once ?js" unfolding s' settled_def by simp
  from billed_jobs [OF n this, of "[]"] have "billed ?s' = billed s @ map (\<lambda>n. jb_rec (rk_jobs s ! n)) (map jb_once ?js)"
    unfolding s' by simp
  moreover have "map (\<lambda>n. jb_rec (rk_jobs s ! n)) (map jb_once ?js) = map jb_rec ?js"
    using numbered_job [OF n] sub(1) by auto
  ultimately have "billed ?s' = billed s @ map jb_rec ?js" by simp
  from sequential_more [OF assms(1) num this, of tis tcs] f(1,2) show ?thesis unfolding s' by simp
qed

lemma step_jobs_append: "step ex s a s' \<Longrightarrow> \<exists>js. rk_jobs s' = rk_jobs s @ js"
  by (induction rule: step.induct)
     (auto simp: RecordWithCallback_def syncFallback_def finish_def with_ledger_def CloseQueue_def Abort_def leave_def Let_def
        split: if_splits sum.split prod.split)

lemma step_sequential:
  assumes "step ex s a s'" "calm_action a" "sequential ex st0 s"
    and ids: "distinct (map row_id (st_usage st0) @ map job_id (rk_jobs s'))"
  shows "sequential ex st0 s'"
  using assms(1)
proof (cases rule: step.cases)
  case (send rec)
  then show ?thesis by (intro send_sequential [OF assms(3)]) simp
next
  case (fallback fo rec)
  have "rk_jobs s' = rk_jobs s @ [new_job rec s]"
    using fallback by (auto simp: syncFallback_def finish_def with_ledger_def Let_def split: sum.split prod.split)
  with fallback assms show ?thesis by (simp add: fallback_sequential)
next
  case (retry gaveUp fo)
  have "rk_pending s = []" using assms(3) by (simp add: sequential_def numbered_def)
  then have "s' = s\<lparr>rk_pc := Reading\<rparr>" using retry by (simp add: worker_top_def)
  then show ?thesis
    using assms(3) by (intro sequential_kept [OF assms(3)]) (simp_all add: sequential_def numbered_def billed_def settled_def)
next
  case (take k gaveUp fo)
  with assms show ?thesis by (simp add: take_sequential)
qed (use assms(2,3) in \<open>auto simp: CloseQueue_def Abort_def leave_def sequential_def numbered_def billed_def settled_def\<close>)

text \<open>C9: as long as nothing fails, the queue, the batches and the shutdown cannot be told from billing one record at a
  time: the store is the one that the specification reaches with the records in the order of their callbacks, each at some
  times of its own; a record is in the queue, billed, or came after the queue was closed.\<close>

theorem calm_run_bills_in_order:
  assumes "steps ex (Recorder.New st0) as s" "list_all calm_action as"
    and "distinct (map row_id (st_usage st0) @ map job_id (rk_jobs s))"
  shows "\<exists>tis tcs. length tis = length (billed s) \<and> length tcs = length (billed s) \<and>
      rk_store s = bill_all ex tis tcs (billed s) st0 \<and> rk_batch s = [] \<and> rk_pending s = []"
proof -
  have "sequential ex st0 s"
    using assms
  proof (induction "Recorder.New st0" as s rule: steps.induct)
    case none
    have "billed (Recorder.New st0) = []" "numbered (Recorder.New st0)" "rk_store (Recorder.New st0) = st0"
      by (simp_all add: billed_def settled_def numbered_def Recorder.New_def)
    then show ?case by (simp add: sequential_def bill_all_def)
  next
    case (more as s a s')
    obtain js where "rk_jobs s' = rk_jobs s @ js" using step_jobs_append [OF more.hyps(3)] by blast
    then have "distinct (map row_id (st_usage st0) @ map job_id (rk_jobs s))" using more.prems(2) by auto
    then have "sequential ex st0 s" using more.hyps(2) more.prems(1) by simp
    with step_sequential [OF more.hyps(3)] more.prems show ?case by simp
  qed
  then show ?thesis unfolding sequential_def numbered_def by blast
qed

definition demo_calm :: "action list" where
  "demo_calm = [Send (demo_usage ''a''), Send (demo_usage ''b''), Retry (demo_flush Commits False) False,
     Take (demo_flush Commits False) False 2, Close, Send (demo_usage ''c'')]"

lemma demo_calm_end:
  "let s = fold (act (\<lambda>_. False)) demo_calm (Recorder.New demo_tables) in
     runnable (\<lambda>_. False) demo_calm (Recorder.New demo_tables) \<and>
     map row_id (st_usage demo_tables) @ map job_id (rk_jobs s) = [''a'', ''b'', ''c''] \<and> map ug_ID (billed s) = [''a'', ''b'']"
  by code_simp

theorem calm_run_bills_in_order_witness:
  "\<exists>s tis tcs. steps (\<lambda>_. False) (Recorder.New demo_tables) demo_calm s \<and> map ug_ID (billed s) = [''a'', ''b''] \<and>
     rk_store s = bill_all (\<lambda>_. False) tis tcs (billed s) demo_tables"
proof -
  define s where "s = fold (act (\<lambda>_. False)) demo_calm (Recorder.New demo_tables)"
  note e = demo_calm_end [unfolded Let_def, folded s_def]
  have run: "steps (\<lambda>_. False) (Recorder.New demo_tables) demo_calm s"
    unfolding s_def using e by (intro run_steps) simp
  have calm: "list_all calm_action demo_calm"
    by (simp add: demo_calm_def calm_store_def demo_flush_def calm_def)
  have "map row_id (st_usage demo_tables) @ map job_id (rk_jobs s) = [''a'', ''b'', ''c'']" using e by blast
  then have "distinct (map row_id (st_usage demo_tables) @ map job_id (rk_jobs s))" by (simp only: distinct.simps) simp
  from calm_run_bills_in_order [OF run calm this] obtain tis tcs where
    "rk_store s = bill_all (\<lambda>_. False) tis tcs (billed s) demo_tables" by blast
  moreover have "map ug_ID (billed s) = [''a'', ''b'']" using e by blast
  ultimately show ?thesis using run by (intro exI [of _ s] exI [of _ tis] exI [of _ tcs]) simp
qed

end
