(* ===== verification/Archive.thy ===== *)
theory Archive
  imports Accounts
begin

text \<open>
  \<^verbatim>\<open>internal/store/usage_archive.go\<close> and \<^verbatim>\<open>usage_source.go\<close>: usage records older than the retention period are summed up
  per day and deleted, and the reports read the records and the sums together. Here are the pruning, the sums, the two
  branches of the view behind the reports, and the recomputation of the tokens a key has used. Local days are integers;
  the local calendar is the function \<open>day\<close> from milliseconds to days and the function \<open>midnight\<close> back.
\<close>

section \<open>Tables\<close>

text \<open>The primary key of the daily sums.\<close>

record rollup_key =
  rl_day :: int
  rl_user :: ident
  rl_key :: ident
  rl_publicModel :: string
  rl_upstreamModel :: string
  rl_provider :: ident
  rl_ingress :: string
  rl_stream :: bool

text \<open>The counting columns of the view, in its order.\<close>

datatype column = N | NOk | NErr | InputTokens | OutputTokens | CachedTokens | CachedCreationTokens | ReasoningTokens
  | TotalTokens | LatencySum | TtfbSum | NTtfb | TtfbOkSum | NTtfbOk | OutOk | LatOk | NOkSpeed | NCostPending

record rollup =
  ru_count :: "column \<Rightarrow> int"
  ru_cost :: rat

record archive =
  ar_rollups :: "(rollup_key \<times> rollup) list"
  ar_prunedThrough :: "int option"

record usage_filter =
  fl_From :: int
  fl_To :: int
  fl_UserID :: ident
  fl_KeyID :: ident
  fl_PublicModel :: string
  fl_ProviderID :: ident

section \<open>Pruning\<close>

definition rollup_key_of :: "(int \<Rightarrow> int) \<Rightarrow> stored_usage \<Rightarrow> rollup_key" where
  "rollup_key_of day row =
     (let r = su_record row in
      \<lparr>rl_day = day (ug_Ts r), rl_user = ug_UserID r, rl_key = ug_AccessKeyID r, rl_publicModel = ug_PublicModel r,
       rl_upstreamModel = ug_UpstreamModel r, rl_provider = ug_ProviderID r, rl_ingress = ug_IngressProtocol r, rl_stream = ug_Stream r\<rparr>)"

abbreviation (input) count_if :: "bool \<Rightarrow> int" where "count_if b \<equiv> (if b then 1 else 0)"

text \<open>What a record adds to its daily sum.\<close>

fun archived_column :: "column \<Rightarrow> stored_usage \<Rightarrow> int" where
  "archived_column N row = 1"
| "archived_column NOk row = count_if (ug_Status (su_record row) = UsageStatusOK)"
| "archived_column NErr row = count_if (ug_Status (su_record row) \<notin> {UsageStatusOK, UsageStatusCanceled})"
| "archived_column InputTokens row = tu_InputTokens (ug_Tokens (su_record row))"
| "archived_column OutputTokens row = tu_OutputTokens (ug_Tokens (su_record row))"
| "archived_column CachedTokens row = tu_CachedInputTokens (ug_Tokens (su_record row))"
| "archived_column CachedCreationTokens row = tu_CachedCreationTokens (ug_Tokens (su_record row))"
| "archived_column ReasoningTokens row = tu_ReasoningTokens (ug_Tokens (su_record row))"
| "archived_column TotalTokens row = tu_TotalTokens (ug_Tokens (su_record row))"
| "archived_column LatencySum row = ug_LatencyMs (su_record row)"
| "archived_column TtfbSum row = (if ug_TTFBMs (su_record row) > 0 then ug_TTFBMs (su_record row) else 0)"
| "archived_column NTtfb row = count_if (ug_TTFBMs (su_record row) > 0)"
| "archived_column TtfbOkSum row =
     (if ug_Status (su_record row) = UsageStatusOK \<and> ug_TTFBMs (su_record row) > 0 then ug_TTFBMs (su_record row) else 0)"
| "archived_column NTtfbOk row = count_if (ug_Status (su_record row) = UsageStatusOK \<and> ug_TTFBMs (su_record row) > 0)"
| "archived_column OutOk row = (if ug_Status (su_record row) = UsageStatusOK then tu_OutputTokens (ug_Tokens (su_record row)) else 0)"
| "archived_column LatOk row = (if ug_Status (su_record row) = UsageStatusOK then ug_LatencyMs (su_record row) else 0)"
| "archived_column NOkSpeed row = count_if (ug_Status (su_record row) = UsageStatusOK \<and>
     tu_OutputTokens (ug_Tokens (su_record row)) > 0 \<and> ug_LatencyMs (su_record row) > 0)"
| "archived_column NCostPending row = count_if (ug_UsageState (su_record row) = usageStateCostPending)"

text \<open>One group of the \<open>INSERT ... ON CONFLICT DO UPDATE\<close>. How SQLite adds up a column of floating point numbers is the
  parameter \<open>sumCost\<close>.\<close>

definition group_rollup :: "(rat list \<Rightarrow> rat) \<Rightarrow> stored_usage list \<Rightarrow> rollup" where
  "group_rollup sumCost rows = \<lparr>ru_count = (\<lambda>c. \<Sum>r \<leftarrow> rows. archived_column c r), ru_cost = sumCost (map su_cost rows)\<rparr>"

definition upsert_rollup :: "rollup_key \<times> rollup \<Rightarrow> (rollup_key \<times> rollup) list \<Rightarrow> (rollup_key \<times> rollup) list" where
  "upsert_rollup = (\<lambda>(k, v) rs.
     if k \<in> fst ` set rs
     then map (\<lambda>(k', v'). if k' = k then (k', \<lparr>ru_count = (\<lambda>c. ru_count v' c + ru_count v c), ru_cost = fadd (ru_cost v') (ru_cost v)\<rparr>)
            else (k', v')) rs
     else rs @ [(k, v)])"

definition groups_of :: "(int \<Rightarrow> int) \<Rightarrow> (rat list \<Rightarrow> rat) \<Rightarrow> stored_usage list \<Rightarrow> (rollup_key \<times> rollup) list" where
  "groups_of day sumCost rows =
     map (\<lambda>k. (k, group_rollup sumCost (filter (\<lambda>r. rollup_key_of day r = k) rows))) (remdups (map (rollup_key_of day) rows))"

text \<open>Only what is settled may be archived.\<close>

definition prunable :: "int \<Rightarrow> ledger \<Rightarrow> stored_usage \<Rightarrow> bool" where
  "prunable cutoffTs l row \<longleftrightarrow>
     ug_Ts (su_record row) < cutoffTs \<and> ug_UsageState (su_record row) \<noteq> usageStateCostPending \<and> \<not> uncollected l row"

definition maxPruneDelete :: nat where "maxPruneDelete = 20000"

record prune_result =
  pr_RollupRows :: int
  pr_DeletedRows :: int
  pr_CutoffDay :: "int option"
  pr_PrunedThrough :: "int option"
  pr_Skipped :: bool

text \<open>\<open>today\<close> is the local day; \<open>readFails\<close> concerns the watermark, \<open>txFails\<close> any statement of the transaction.\<close>

definition PruneOldUsage ::
  "(int \<Rightarrow> int) \<Rightarrow> (int \<Rightarrow> int) \<Rightarrow> (rat list \<Rightarrow> rat) \<Rightarrow> bool \<Rightarrow> bool \<Rightarrow> int \<Rightarrow> int \<Rightarrow> store \<times> archive
    \<Rightarrow> (store \<times> archive) \<times> (usage_error + prune_result)" where
  "PruneOldUsage day midnight sumCost readFails txFails today keepDays = (\<lambda>(st, ar).
     (let res = \<lparr>pr_RollupRows = 0, pr_DeletedRows = 0, pr_CutoffDay = None, pr_PrunedThrough = None, pr_Skipped = False\<rparr> in
      if keepDays \<le> 0 \<or> keepDays > 3650 then ((st, ar), Inr (res\<lparr>pr_Skipped := True\<rparr>))
      else
       (let cut = today - keepDays;
            cutoffTs = midnight cut;
            res = res\<lparr>pr_CutoffDay := Some cut, pr_PrunedThrough := Some (cut - 1)\<rparr> in
        if readFails then ((st, ar), Inl WriteError)
        else if (case ar_prunedThrough ar of None \<Rightarrow> False | Some d \<Rightarrow> d \<ge> cut - 1)
        then ((st, ar), Inr (res\<lparr>pr_PrunedThrough := ar_prunedThrough ar, pr_Skipped := True\<rparr>))
        else if txFails then ((st, ar), Inl WriteError)
        else
         (let batch = take maxPruneDelete (sort_key (\<lambda>r. ug_Ts (su_record r)) (filter (prunable cutoffTs (st_ledger st)) (st_usage st)));
              groups = groups_of day sumCost batch;
              st = st\<lparr>st_usage := filter (\<lambda>r. row_id r \<notin> row_id ` set batch) (st_usage st)\<rparr>;
              ar = ar\<lparr>ar_rollups := fold upsert_rollup groups (ar_rollups ar)\<rparr>;
              ar = (if filter (prunable cutoffTs (st_ledger st)) (st_usage st) = [] then ar\<lparr>ar_prunedThrough := Some (cut - 1)\<rparr> else ar)
          in ((st, ar), Inr (res\<lparr>pr_RollupRows := int (length groups), pr_DeletedRows := int (length batch)\<rparr>))))))"

section \<open>The view of the reports\<close>

fun detail_column :: "column \<Rightarrow> stored_usage \<Rightarrow> int" where
  "detail_column N row = 1"
| "detail_column NOk row = (if ug_Status (su_record row) = UsageStatusOK then 1 else 0)"
| "detail_column NErr row = (if ug_Status (su_record row) \<in> {UsageStatusOK, UsageStatusCanceled} then 0 else 1)"
| "detail_column InputTokens row = tu_InputTokens (ug_Tokens (su_record row))"
| "detail_column OutputTokens row = tu_OutputTokens (ug_Tokens (su_record row))"
| "detail_column CachedTokens row = tu_CachedInputTokens (ug_Tokens (su_record row))"
| "detail_column CachedCreationTokens row = tu_CachedCreationTokens (ug_Tokens (su_record row))"
| "detail_column ReasoningTokens row = tu_ReasoningTokens (ug_Tokens (su_record row))"
| "detail_column TotalTokens row = tu_TotalTokens (ug_Tokens (su_record row))"
| "detail_column LatencySum row = ug_LatencyMs (su_record row)"
| "detail_column TtfbSum row = (if ug_TTFBMs (su_record row) > 0 then ug_TTFBMs (su_record row) else 0)"
| "detail_column NTtfb row = (if ug_TTFBMs (su_record row) > 0 then 1 else 0)"
| "detail_column TtfbOkSum row =
     (if ug_Status (su_record row) = UsageStatusOK \<and> ug_TTFBMs (su_record row) > 0 then ug_TTFBMs (su_record row) else 0)"
| "detail_column NTtfbOk row = (if ug_Status (su_record row) = UsageStatusOK \<and> ug_TTFBMs (su_record row) > 0 then 1 else 0)"
| "detail_column OutOk row = (if ug_Status (su_record row) = UsageStatusOK then tu_OutputTokens (ug_Tokens (su_record row)) else 0)"
| "detail_column LatOk row = (if ug_Status (su_record row) = UsageStatusOK then ug_LatencyMs (su_record row) else 0)"
| "detail_column NOkSpeed row = (if ug_Status (su_record row) = UsageStatusOK \<and> tu_OutputTokens (ug_Tokens (su_record row)) > 0 \<and>
     ug_LatencyMs (su_record row) > 0 then 1 else 0)"
| "detail_column NCostPending row = (if ug_UsageState (su_record row) = usageStateCostPending then 1 else 0)"

text \<open>The time after the first token, as the two branches compute it.\<close>

definition detail_gen :: "stored_usage \<Rightarrow> int" where
  "detail_gen row = (let r = su_record row in
     if ug_Status r = UsageStatusOK \<and> ug_TTFBMs r > 0 \<and> ug_LatencyMs r > ug_TTFBMs r then ug_LatencyMs r - ug_TTFBMs r else 0)"

definition rollup_gen :: "rollup \<Rightarrow> int" where
  "rollup_gen v = (if ru_count v LatOk > ru_count v TtfbOkSum then ru_count v LatOk - ru_count v TtfbOkSum else 0)"

definition detail_matches :: "usage_filter \<Rightarrow> stored_usage \<Rightarrow> bool" where
  "detail_matches f row = (let r = su_record row in
     (fl_From f > 0 \<longrightarrow> ug_Ts r \<ge> fl_From f) \<and> (fl_To f > 0 \<longrightarrow> ug_Ts r \<le> fl_To f) \<and>
     (fl_UserID f \<noteq> '''' \<longrightarrow> ug_UserID r = fl_UserID f) \<and> (fl_KeyID f \<noteq> '''' \<longrightarrow> ug_AccessKeyID r = fl_KeyID f) \<and>
     (fl_PublicModel f \<noteq> '''' \<longrightarrow> ug_PublicModel r = fl_PublicModel f) \<and> (fl_ProviderID f \<noteq> '''' \<longrightarrow> ug_ProviderID r = fl_ProviderID f))"

definition rollup_matches :: "(int \<Rightarrow> int) \<Rightarrow> usage_filter \<Rightarrow> rollup_key \<Rightarrow> bool" where
  "rollup_matches day f k =
     ((fl_From f > 0 \<longrightarrow> rl_day k \<ge> day (fl_From f)) \<and> (fl_To f > 0 \<longrightarrow> rl_day k \<le> day (fl_To f)) \<and>
      (fl_UserID f \<noteq> '''' \<longrightarrow> rl_user k = fl_UserID f) \<and> (fl_KeyID f \<noteq> '''' \<longrightarrow> rl_key k = fl_KeyID f) \<and>
      (fl_PublicModel f \<noteq> '''' \<longrightarrow> rl_publicModel k = fl_PublicModel f) \<and> (fl_ProviderID f \<noteq> '''' \<longrightarrow> rl_provider k = fl_ProviderID f))"

text \<open>\<open>SUM\<close> of a column over the view.\<close>

definition usageSource :: "(int \<Rightarrow> int) \<Rightarrow> usage_filter \<Rightarrow> column \<Rightarrow> store \<times> archive \<Rightarrow> int" where
  "usageSource day f c = (\<lambda>(st, ar).
     (\<Sum>r \<leftarrow> filter (detail_matches f) (st_usage st). detail_column c r) +
     (\<Sum>(k, v) \<leftarrow> filter (\<lambda>(k, v). rollup_matches day f k) (ar_rollups ar). ru_count v c))"

definition usageSource_gen :: "(int \<Rightarrow> int) \<Rightarrow> usage_filter \<Rightarrow> store \<times> archive \<Rightarrow> int" where
  "usageSource_gen day f = (\<lambda>(st, ar).
     (\<Sum>r \<leftarrow> filter (detail_matches f) (st_usage st). detail_gen r) +
     (\<Sum>(k, v) \<leftarrow> filter (\<lambda>(k, v). rollup_matches day f k) (ar_rollups ar). rollup_gen v))"

text \<open>The tokens a key has used, added up again.\<close>

definition no_filter :: usage_filter where
  "no_filter = \<lparr>fl_From = 0, fl_To = 0, fl_UserID = '''', fl_KeyID = '''', fl_PublicModel = '''', fl_ProviderID = ''''\<rparr>"

definition RecomputeUsedTokens :: "(int \<Rightarrow> int) \<Rightarrow> bool \<Rightarrow> ident \<Rightarrow> store \<times> archive \<Rightarrow> (store \<times> archive) \<times> (store_error + int)" where
  "RecomputeUsedTokens day dbFails keyID = (\<lambda>(st, ar).
     (if dbFails then ((st, ar), Inl DatabaseError)
      else (let used = usageSource day (no_filter\<lparr>fl_KeyID := keyID\<rparr>) TotalTokens (st, ar) in
        case qd_keys (st_quota st) keyID of
          None \<Rightarrow> ((st, ar), Inl ErrNotFound)
        | Some r \<Rightarrow> ((st\<lparr>st_quota := set_key keyID (r\<lparr>qr_used := used\<rparr>) (st_quota st)\<rparr>, ar), Inr used))))"

section \<open>Pruning does not change what is reported\<close>

text \<open>The two places that spell out the columns agree.\<close>

lemma columns_agree: "archived_column c row = detail_column c row"
  by (cases c) simp_all

definition rollup_total :: "(rollup_key \<Rightarrow> bool) \<Rightarrow> column \<Rightarrow> (rollup_key \<times> rollup) list \<Rightarrow> int" where
  "rollup_total P c rs = (\<Sum>(k, v) \<leftarrow> filter (\<lambda>(k, v). P k) rs. ru_count v c)"

lemma rollup_total_simps [simp]:
  "rollup_total P c [] = 0"
  "rollup_total P c ((k, v) # rs) = (if P k then ru_count v c else 0) + rollup_total P c rs"
  "rollup_total P c (rs @ rs') = rollup_total P c rs + rollup_total P c rs'"
  by (simp_all add: rollup_total_def)

lemma upsert_keys: "distinct (map fst rs) \<Longrightarrow> distinct (map fst (upsert_rollup kv rs))"
proof -
  obtain k v where kv: "kv = (k, v)" by fastforce
  have "map fst (map (\<lambda>(k', v'). if k' = k then (k', F v') else (k', v')) rs) = map fst rs" for F :: "rollup \<Rightarrow> rollup"
    by (induction rs) auto
  then show "distinct (map fst rs) \<Longrightarrow> ?thesis" by (auto simp: upsert_rollup_def kv simp del: map_map)
qed

lemma upsert_total:
  assumes "distinct (map fst rs)"
  shows "rollup_total P c (upsert_rollup (k, v) rs) = rollup_total P c rs + (if P k then ru_count v c else 0)"
proof (cases "k \<in> fst ` set rs")
  case True
  have "rollup_total P c (map (\<lambda>(k', v'). if k' = k then (k', \<lparr>ru_count = (\<lambda>c. ru_count v' c + ru_count v c), ru_cost = X v'\<rparr>) else (k', v')) rs) =
      rollup_total P c rs + (if k \<in> fst ` set rs \<and> P k then ru_count v c else 0)" for X
    using assms
  proof (induction rs)
    case (Cons r rs)
    obtain k' v' where "r = (k', v')" by fastforce
    with Cons show ?case by (cases "k' = k") simp_all
  qed simp
  with True show ?thesis by (simp add: upsert_rollup_def)
qed (simp add: upsert_rollup_def)

lemma upserts_total:
  assumes "distinct (map fst rs)"
  shows "rollup_total P c (fold upsert_rollup kvs rs) = rollup_total P c rs + rollup_total P c kvs"
    "distinct (map fst (fold upsert_rollup kvs rs))"
  using assms by (induction kvs arbitrary: rs) (auto simp: upsert_total upsert_keys)

text \<open>The groups of a list make up the list.\<close>

lemma sum_disjoint_filters:
  assumes "\<And>x. x \<in> set xs \<Longrightarrow> \<not> (A x \<and> B x)"
  shows "(\<Sum>x \<leftarrow> filter (\<lambda>x. A x \<or> B x) xs. g x) = (\<Sum>x \<leftarrow> filter A xs. g x) + (\<Sum>x \<leftarrow> filter B xs. g x :: int)"
  using assms by (induction xs) auto

lemma sum_over_keys:
  assumes "distinct ks"
  shows "(\<Sum>k \<leftarrow> ks. \<Sum>x \<leftarrow> filter (\<lambda>x. key x = k) xs. g x) = (\<Sum>x \<leftarrow> filter (\<lambda>x. key x \<in> set ks) xs. g x :: int)"
  using assms
proof (induction ks)
  case (Cons k ks)
  have "(\<Sum>x \<leftarrow> filter (\<lambda>x. key x = k \<or> key x \<in> set ks) xs. g x) =
      (\<Sum>x \<leftarrow> filter (\<lambda>x. key x = k) xs. g x) + (\<Sum>x \<leftarrow> filter (\<lambda>x. key x \<in> set ks) xs. g x)"
    using Cons.prems by (intro sum_disjoint_filters) auto
  with Cons show ?case by simp
qed simp

lemma groups_total:
  "rollup_total P c (groups_of day sumCost rows) = (\<Sum>r \<leftarrow> filter (\<lambda>r. P (rollup_key_of day r)) rows. archived_column c r)"
proof -
  let ?key = "rollup_key_of day" and ?ks = "remdups (map (rollup_key_of day) rows)"
  have "rollup_total P c (map (\<lambda>k. (k, group_rollup sumCost (filter (\<lambda>r. ?key r = k) rows))) ks) =
      (\<Sum>k \<leftarrow> filter P ks. \<Sum>r \<leftarrow> filter (\<lambda>r. ?key r = k) rows. archived_column c r)" for ks
    by (induction ks) (simp_all add: group_rollup_def)
  then have "rollup_total P c (groups_of day sumCost rows) = (\<Sum>k \<leftarrow> filter P ?ks. \<Sum>r \<leftarrow> filter (\<lambda>r. ?key r = k) rows. archived_column c r)"
    by (simp add: groups_of_def)
  also have "\<dots> = (\<Sum>r \<leftarrow> filter (\<lambda>r. ?key r \<in> set (filter P ?ks)) rows. archived_column c r)"
    by (rule sum_over_keys) simp
  also have "filter (\<lambda>r. ?key r \<in> set (filter P ?ks)) rows = filter (\<lambda>r. P (?key r)) rows"
    by (rule filter_cong) auto
  finally show ?thesis .
qed

text \<open>Bounds that fall between two days; without a bound the filter is aligned.\<close>

definition aligned :: "(int \<Rightarrow> int) \<Rightarrow> usage_filter \<Rightarrow> bool" where
  "aligned day f \<longleftrightarrow>
     (fl_From f > 0 \<longrightarrow> (\<forall>ts. fl_From f \<le> ts \<longleftrightarrow> day (fl_From f) \<le> day ts)) \<and>
     (fl_To f > 0 \<longrightarrow> (\<forall>ts. ts \<le> fl_To f \<longleftrightarrow> day ts \<le> day (fl_To f)))"

lemma aligned_match: "aligned day f \<Longrightarrow> rollup_matches day f (rollup_key_of day r) \<longleftrightarrow> detail_matches f r"
  by (auto simp: aligned_def rollup_matches_def detail_matches_def rollup_key_of_def Let_def)

text \<open>A table without some of its rows.\<close>

lemma sum_without:
  assumes "distinct (map row_id rows)" "set batch \<subseteq> set rows" "distinct batch"
  shows "(\<Sum>r \<leftarrow> filter P (filter (\<lambda>r. row_id r \<notin> row_id ` set batch) rows). g r) + (\<Sum>r \<leftarrow> filter P batch. g r) =
    (\<Sum>r \<leftarrow> filter P rows. g r :: int)"
proof -
  have inj: "inj_on row_id (set rows)" and dist: "distinct rows" using assms(1) by (simp_all add: distinct_map)
  have "row_id r \<in> row_id ` set batch \<longleftrightarrow> r \<in> set batch" if "r \<in> set rows" for r
    using inj that assms(2) by (auto dest: inj_onD)
  then have "filter (\<lambda>r. row_id r \<notin> row_id ` set batch) rows = filter (\<lambda>r. r \<notin> set batch) rows"
    by (intro filter_cong) auto
  moreover have "mset (filter P batch) = mset (filter P (filter (\<lambda>r. r \<in> set batch) rows))"
    using assms(2,3) dist by (intro iffD1 [OF set_eq_iff_mset_eq_distinct]) auto
  then have "(\<Sum>r \<leftarrow> filter P batch. g r) = (\<Sum>r \<leftarrow> filter P (filter (\<lambda>r. r \<in> set batch) rows). g r)"
    by (metis mset_map sum_mset_sum_list)
  moreover have "(\<Sum>r \<leftarrow> filter P (filter (\<lambda>r. r \<notin> set batch) rows). g r) + (\<Sum>r \<leftarrow> filter P (filter (\<lambda>r. r \<in> set batch) rows). g r) =
      (\<Sum>r \<leftarrow> filter P rows. g r)"
    by (induction rows) auto
  ultimately show ?thesis by simp
qed

text \<open>What a call of \<open>PruneOldUsage\<close> does, if anything.\<close>

lemma prune_cases:
  assumes "PruneOldUsage day midnight sumCost rf tf today keep (st, ar) = ((st', ar'), res)"
  obtains (unchanged) "st' = st" "ar' = ar"
  | (pruned) cutoff batch where "set batch \<subseteq> set (st_usage st)" "\<forall>r \<in> set batch. prunable cutoff (st_ledger st) r"
      "distinct (st_usage st) \<longrightarrow> distinct batch"
      "st' = st\<lparr>st_usage := filter (\<lambda>r. row_id r \<notin> row_id ` set batch) (st_usage st)\<rparr>"
      "ar_rollups ar' = fold upsert_rollup (groups_of day sumCost batch) (ar_rollups ar)"
proof -
  let ?cut = "midnight (today - keep)"
  let ?batch = "take maxPruneDelete (sort_key (\<lambda>r. ug_Ts (su_record r)) (filter (prunable ?cut (st_ledger st)) (st_usage st)))"
  have sub: "set ?batch \<subseteq> set (filter (prunable ?cut (st_ledger st)) (st_usage st))"
    using set_take_subset by (metis set_sort)
  show thesis
  proof (cases "st' = st \<and> ar' = ar")
    case True
    then show thesis by (intro unchanged) simp_all
  next
    case False
    show thesis
    proof (rule pruned [of ?batch ?cut])
      show "set ?batch \<subseteq> set (st_usage st)" "\<forall>r \<in> set ?batch. prunable ?cut (st_ledger st) r" using sub by auto
      show "distinct (st_usage st) \<longrightarrow> distinct ?batch" by (simp add: distinct_take)
      show "st' = st\<lparr>st_usage := filter (\<lambda>r. row_id r \<notin> row_id ` set ?batch) (st_usage st)\<rparr>"
        "ar_rollups ar' = fold upsert_rollup (groups_of day sumCost ?batch) (ar_rollups ar)"
        using assms False unfolding PruneOldUsage_def Let_def by (auto split: if_splits)
    qed
  qed
qed

lemma filter_without:
  assumes "distinct (map row_id rows)" "set batch \<subseteq> set rows" "\<forall>r \<in> set batch. \<not> P r"
  shows "filter P (filter (\<lambda>r. row_id r \<notin> row_id ` set batch) rows) = filter P rows"
proof -
  have inj: "inj_on row_id (set rows)" using assms(1) by (simp add: distinct_map)
  have "r \<notin> set batch \<Longrightarrow> row_id r \<notin> row_id ` set batch" if "r \<in> set rows" for r
    using inj that assms(2) by (auto dest: inj_onD)
  with assms(3) show ?thesis unfolding filter_filter by (intro filter_cong) auto
qed

lemma prune_spec:
  assumes "PruneOldUsage day midnight sumCost rf tf today keep (st, ar) = ((st', ar'), res)"
    and "distinct (map row_id (st_usage st))" "distinct (map fst (ar_rollups ar))" "aligned day f"
  shows "usageSource day f c (st', ar') = usageSource day f c (st, ar) \<and> distinct (map fst (ar_rollups ar')) \<and>
    st_totals st' = st_totals st \<and> st_quota st' = st_quota st \<and> st_ledger st' = st_ledger st \<and>
    FindUnchargedUsage now n st' = FindUnchargedUsage now n st \<and> pending_costs now n st' = pending_costs now n st \<and>
    distinct (map row_id (st_usage st'))"
  using assms(1)
proof (cases rule: prune_cases)
  case unchanged
  with assms(2,3) show ?thesis by simp
next
  case (pruned cutoff batch)
  have dist: "distinct batch" using pruned(3) assms(2) by (simp add: distinct_map)
  have rows: "st_usage st' = filter (\<lambda>r. row_id r \<notin> row_id ` set batch) (st_usage st)" by (simp add: pruned(4))
  have kept: "filter P (st_usage st') = filter P (st_usage st)" if "\<forall>r \<in> set batch. \<not> P r" for P
    unfolding rows by (rule filter_without [OF assms(2) pruned(1) that])
  have total: "rollup_total (rollup_matches day f) c (ar_rollups ar') =
      rollup_total (rollup_matches day f) c (ar_rollups ar) + (\<Sum>r \<leftarrow> filter (detail_matches f) batch. detail_column c r)"
    unfolding pruned(5) upserts_total(1) [OF assms(3)] groups_total aligned_match [OF assms(4)] columns_agree ..
  have "usageSource day f c (st', ar') = usageSource day f c (st, ar)"
    using total sum_without [OF assms(2) pruned(1) dist, of "detail_column c" "detail_matches f"]
    by (simp add: usageSource_def rollup_total_def pruned(4))
  moreover have "distinct (map fst (ar_rollups ar'))" unfolding pruned(5) by (rule upserts_total(2) [OF assms(3)])
  moreover have "filter (\<lambda>r. uncollected (st_ledger st) r \<and> su_chargeNextAt r \<le> now) (st_usage st') =
      filter (\<lambda>r. uncollected (st_ledger st) r \<and> su_chargeNextAt r \<le> now) (st_usage st)"
    by (rule kept) (use pruned(2) in \<open>auto simp: prunable_def\<close>)
  then have "FindUnchargedUsage now n st' = FindUnchargedUsage now n st"
    by (simp add: FindUnchargedUsage_def Let_def pruned(4))
  moreover have "filter (\<lambda>r. ug_UsageState (su_record r) = usageStateCostPending \<and> ug_Status (su_record r) = UsageStatusOK \<and>
      su_chargeNextAt r \<le> now) (st_usage st') =
    filter (\<lambda>r. ug_UsageState (su_record r) = usageStateCostPending \<and> ug_Status (su_record r) = UsageStatusOK \<and>
      su_chargeNextAt r \<le> now) (st_usage st)"
    by (rule kept) (use pruned(2) in \<open>auto simp: prunable_def\<close>)
  then have "pending_costs now n st' = pending_costs now n st"
    by (simp only: pending_costs_def)
  moreover have "distinct (map row_id (st_usage st'))" unfolding rows using assms(2) by (rule distinct_map_filter)
  ultimately show ?thesis by (simp add: pruned(4))
qed


text \<open>One day and more later, a record that cost nothing.\<close>

definition demo_old :: store where
  "demo_old = demo_tables\<lparr>st_usage := [usageInsertArgs (demo_usage ''a'') 0 False]\<rparr>"

definition utc_day :: "int \<Rightarrow> int" where "utc_day ts = ts div 86400000"
definition utc_midnight :: "int \<Rightarrow> int" where "utc_midnight d = d * 86400000"

lemma demo_pruned:
  "PruneOldUsage utc_day utc_midnight sum_list False False 31 30 (demo_old, \<lparr>ar_rollups = [], ar_prunedThrough = None\<rparr>) =
    ((demo_old\<lparr>st_usage := []\<rparr>, \<lparr>ar_rollups = fold upsert_rollup (groups_of utc_day sum_list (st_usage demo_old)) [], ar_prunedThrough = Some 0\<rparr>),
     Inr \<lparr>pr_RollupRows = 1, pr_DeletedRows = 1, pr_CutoffDay = Some 1, pr_PrunedThrough = Some 0, pr_Skipped = False\<rparr>)"
  by (simp add: PruneOldUsage_def demo_old_def demo_usage_def usageInsertArgs_def prunable_def uncollected_def billable_def
      utc_midnight_def maxPruneDelete_def groups_of_def usageStateCostPending_def)


section \<open>The counter of a key is the sum of its records\<close>

text \<open>What happens to the tables over the life of a key: records are stored and charged, and old ones archived.\<close>

inductive history :: "(int \<Rightarrow> int) \<Rightarrow> (int \<Rightarrow> int) \<Rightarrow> (rat list \<Rightarrow> rat) \<Rightarrow> store \<times> archive \<Rightarrow> store \<times> archive \<Rightarrow> bool"
  for day midnight sumCost where
  start: "history day midnight sumCost p p"
| billed: "history day midnight sumCost p (st, ar) \<Longrightarrow> billing R st st' \<Longrightarrow> history day midnight sumCost p (st', ar)"
| pruned: "history day midnight sumCost p (st, ar) \<Longrightarrow>
    PruneOldUsage day midnight sumCost rf tf today keep (st, ar) = (q, res) \<Longrightarrow> history day midnight sumCost p q"

definition tables_ok :: "store \<times> archive \<Rightarrow> bool" where
  "tables_ok = (\<lambda>(st, ar). distinct (map row_id (st_usage st)) \<and> distinct (map fst (ar_rollups ar)))"

lemma key_source:
  assumes "k \<noteq> ''''"
  shows "usageSource day (no_filter\<lparr>fl_KeyID := k\<rparr>) TotalTokens (st, ar) =
    key_tokens k st + rollup_total (\<lambda>i. rl_key i = k) TotalTokens (ar_rollups ar)"
proof -
  have "(\<Sum>r \<leftarrow> filter (detail_matches (no_filter\<lparr>fl_KeyID := k\<rparr>)) rows. detail_column TotalTokens r) =
      (\<Sum>r \<leftarrow> rows. if ug_AccessKeyID (su_record r) = k then tu_TotalTokens (ug_Tokens (su_record r)) else 0)" for rows
    using assms by (induction rows) (auto simp: detail_matches_def no_filter_def)
  moreover have "rollup_matches day (no_filter\<lparr>fl_KeyID := k\<rparr>) = (\<lambda>i. rl_key i = k)"
    using assms by (auto simp: rollup_matches_def no_filter_def)
  ultimately show ?thesis by (simp add: usageSource_def key_tokens_def rollup_total_def)
qed

lemma history_keeps:
  assumes "history day midnight sumCost p q" "tables_ok p" "k \<noteq> ''''"
  shows "tables_ok q \<and> map_option (\<lambda>r. qr_used r - usageSource day (no_filter\<lparr>fl_KeyID := k\<rparr>) TotalTokens q) (qd_keys (st_quota (fst q)) k) =
    map_option (\<lambda>r. qr_used r - usageSource day (no_filter\<lparr>fl_KeyID := k\<rparr>) TotalTokens p) (qd_keys (st_quota (fst p)) k)"
  using assms(1,2)
proof (induction rule: history.induct)
  case (billed p st ar R st')
  have "key_beyond k st' = key_beyond k st" by (rule billing_counts(1) [OF billed.hyps(2)])
  then have "map_option (\<lambda>r. qr_used r - key_tokens k st') (qd_keys (st_quota st') k) =
      map_option (\<lambda>r. qr_used r - key_tokens k st) (qd_keys (st_quota st) k)"
    by (auto simp: key_beyond_def map_option_case split: option.splits)
  then have "map_option (\<lambda>r. qr_used r - usageSource day (no_filter\<lparr>fl_KeyID := k\<rparr>) TotalTokens (st', ar)) (qd_keys (st_quota st') k) =
      map_option (\<lambda>r. qr_used r - usageSource day (no_filter\<lparr>fl_KeyID := k\<rparr>) TotalTokens (st, ar)) (qd_keys (st_quota st) k)"
    by (auto simp: key_source [OF assms(3)] map_option_case split: option.splits)
  moreover have "distinct (map row_id (st_usage st'))" if "distinct (map row_id (st_usage st))"
    by (rule billing_counts(4) [OF billed.hyps(2) that])
  ultimately show ?case using billed by (simp add: tables_ok_def)
next
  case (pruned p st ar rf tf today keep q res)
  obtain st' ar' where q: "q = (st', ar')" by fastforce
  have ok: "distinct (map row_id (st_usage st))" "distinct (map fst (ar_rollups ar))" using pruned by (simp_all add: tables_ok_def)
  have "aligned day (no_filter\<lparr>fl_KeyID := k\<rparr>)" by (simp add: aligned_def no_filter_def)
  note r = prune_spec [OF pruned.hyps(2) [unfolded q] ok this, of TotalTokens]
  then have "st_quota st' = st_quota st"
    "usageSource day (no_filter\<lparr>fl_KeyID := k\<rparr>) TotalTokens (st', ar') = usageSource day (no_filter\<lparr>fl_KeyID := k\<rparr>) TotalTokens (st, ar)"
    by blast+
  with pruned r show ?case by (simp add: q tables_ok_def)
qed simp

text \<open>C8: when the counter of a key is the sum of its records and of their archive, it stays so whatever the recorder
  stores and the retention archives: recomputing it returns the counter and changes nothing, so that neither pruning
  nor the recomputation gives a key tokens back.\<close>

theorem recompute_is_counter:
  assumes "history day midnight sumCost (st0, ar0) (st, ar)" "tables_ok (st0, ar0)" "k \<noteq> ''''"
    and "qd_keys (st_quota st0) k = Some r0" "qr_used r0 = usageSource day (no_filter\<lparr>fl_KeyID := k\<rparr>) TotalTokens (st0, ar0)"
  shows "\<exists>r. qd_keys (st_quota st) k = Some r \<and> RecomputeUsedTokens day False k (st, ar) = ((st, ar), Inr (qr_used r))"
proof -
  have "map_option (\<lambda>r. qr_used r - usageSource day (no_filter\<lparr>fl_KeyID := k\<rparr>) TotalTokens (st, ar)) (qd_keys (st_quota st) k) = Some 0"
    using history_keeps [OF assms(1-3)] assms(4,5) by simp
  then obtain r where r: "qd_keys (st_quota st) k = Some r" "usageSource day (no_filter\<lparr>fl_KeyID := k\<rparr>) TotalTokens (st, ar) = qr_used r"
    by auto
  have "set_key k r (st_quota st) = st_quota st" using r(1) by (simp add: set_key_def fun_upd_idem)
  with r show ?thesis by (simp add: RecomputeUsedTokens_def)
qed

theorem recompute_is_counter_witness:
  "\<exists>st ar. history utc_day utc_midnight sum_list (demo_tables, \<lparr>ar_rollups = [], ar_prunedThrough = None\<rparr>) (st, ar) \<and>
     ar_rollups ar \<noteq> [] \<and> RecomputeUsedTokens utc_day False ''key'' (st, ar) = ((st, ar), Inr 10000)"
proof -
  let ?row = "usageInsertArgs (demo_usage ''a'') 0 False" and ?ar = "\<lparr>ar_rollups = [], ar_prunedThrough = None\<rparr>"
  define st1 where "st1 = insert_row ?row demo_tables"
  have row: "row_id ?row = ''a''" "ug_AccessKeyID (su_record ?row) = ''key''" "tu_TotalTokens (ug_Tokens (su_record ?row)) = 10000"
    by (simp_all add: usageInsertArgs_def demo_usage_def row_id_def)
  have "billing UNIV demo_tables st1"
    unfolding st1_def by (rule billing.insert [OF billing.same]) (simp_all add: demo_tables_def)
  from history.billed [OF history.start this]
  have h1: "history utc_day utc_midnight sum_list (demo_tables, ?ar) (st1, ?ar)" .
  define q where "q = fst (PruneOldUsage utc_day utc_midnight sum_list False False 31 30 (st1, ?ar))"
  have "PruneOldUsage utc_day utc_midnight sum_list False False 31 30 (st1, ?ar) = (q, snd (PruneOldUsage utc_day utc_midnight sum_list False False 31 30 (st1, ?ar)))"
    by (simp add: q_def)
  from history.pruned [OF h1 this] have h2: "history utc_day utc_midnight sum_list (demo_tables, ?ar) q" .
  have usage: "st_usage st1 = [?row]" by (simp add: st1_def) (simp add: demo_tables_def)
  have "prunable 86400000 (st_ledger st1) ?row"
    by (simp add: prunable_def uncollected_def billable_def usageInsertArgs_def demo_usage_def usageStateCostPending_def)
  then have q: "q = (st1\<lparr>st_usage := []\<rparr>, \<lparr>ar_rollups = [(rollup_key_of utc_day ?row, group_rollup sum_list [?row])], ar_prunedThrough = Some 0\<rparr>)"
    by (simp add: q_def PruneOldUsage_def usage utc_midnight_def maxPruneDelete_def groups_of_def upsert_rollup_def)
  have key0: "qd_keys (st_quota demo_tables) ''key'' = Some \<lparr>qr_quota = 0, qr_used = 0, qr_reserved = 0\<rparr>"
    and ok: "tables_ok (demo_tables, ?ar)" by (simp_all add: demo_tables_def tables_ok_def)
  have zero: "usageSource utc_day (no_filter\<lparr>fl_KeyID := ''key''\<rparr>) TotalTokens (demo_tables, ?ar) = 0"
    by (simp add: usageSource_def demo_tables_def)
  from recompute_is_counter [OF h2 [unfolded q] ok _ key0] zero
  obtain r where r: "qd_keys (st_quota (fst q)) ''key'' = Some r" "RecomputeUsedTokens utc_day False ''key'' q = (q, Inr (qr_used r))"
    by (auto simp: q)
  have "qr_used r = 10000"
    using r(1) key0 row by (auto simp: q st1_def insert_row_def count_usage_def set_key_def user_total_def Let_def usageInsertArgs_def demo_usage_def)
  with r(2) h2 show ?thesis by (intro exI [of _ "fst q"] exI [of _ "snd q"]) (simp add: q)
qed

section \<open>A column that is not kept\<close>

text \<open>The time after the first token is the difference of two sums in the archive, one of which also counts requests
  without a first token: it grows when such a request is archived, although the view promises the same sum for the same
  window.\<close>

theorem pruning_changes_generation_time:
  "let row = usageInsertArgs ((demo_usage ''a'')\<lparr>ug_TTFBMs := 0, ug_LatencyMs := 1000\<rparr>) 0 False; st = demo_tables\<lparr>st_usage := [row]\<rparr> in
   (case PruneOldUsage utc_day utc_midnight sum_list False False 31 30 (st, \<lparr>ar_rollups = [], ar_prunedThrough = None\<rparr>) of (p, res) \<Rightarrow>
      usageSource_gen utc_day no_filter (st, \<lparr>ar_rollups = [], ar_prunedThrough = None\<rparr>) = 0 \<and> usageSource_gen utc_day no_filter p = 1000)"
  by (simp add: PruneOldUsage_def demo_usage_def usageInsertArgs_def prunable_def uncollected_def billable_def
      utc_midnight_def maxPruneDelete_def groups_of_def usageStateCostPending_def usageSource_gen_def detail_gen_def rollup_gen_def
      group_rollup_def upsert_rollup_def detail_matches_def rollup_matches_def no_filter_def Let_def)

end
