(* ===== verification/Sinks.thy ===== *)
theory Sinks
  imports Admission
begin

text \<open>
  What the three stream encoders of \<^verbatim>\<open>internal/outwire\<close> share: the events of the SDK they consume, the frames they
  write, the first write error they keep (\<^verbatim>\<open>write_error.go\<close>), and the renumbering of tool calls (\<^verbatim>\<open>toolindex.go\<close>).
  A frame is a value; its JSON text is not modelled here. The interface \<open>StreamSink\<close> of \<^verbatim>\<open>sink.go\<close> is the locale
  \<open>stream_sink\<close>, stated together with a client that reads the frames.
\<close>

section \<open>Events\<close>

datatype event_type = EventMessageStart | EventTextDelta | EventThinkingDelta | EventToolCall | EventMessageEnd | EventUnknown

record sdk_event =
  ev_Type :: event_type
  ev_ID :: ident
  ev_Text :: string
  ev_Signature :: string
  ev_ToolIndex :: int
  ev_ToolID :: ident
  ev_ToolName :: string
  ev_ArgumentsDelta :: string
  ev_ReasoningID :: ident
  ev_Sealed :: string
  ev_SealedBy :: string
  ev_OutputIndex :: "int option"

definition no_event :: sdk_event where
  "no_event = \<lparr>ev_Type = EventUnknown, ev_ID = '''', ev_Text = '''', ev_Signature = '''', ev_ToolIndex = 0, ev_ToolID = '''',
     ev_ToolName = '''', ev_ArgumentsDelta = '''', ev_ReasoningID = '''', ev_Sealed = '''', ev_SealedBy = '''', ev_OutputIndex = None\<rparr>"

datatype stop_reason = StopEnd | StopLength | StopToolUse | StopContentFilter | StopRefusal | StopOther

section \<open>Writing\<close>

text \<open>What is handed to the connection, in order, and the number of the first write that failed. Which writes fail is
  the function \<open>fails\<close> of their number.\<close>

datatype 'f sse = Frame 'f | Comment string

record 'f out =
  ot_Written :: "'f sse list"
  ot_WriteErr :: "nat option"

definition empty_out :: "'f out" where
  "empty_out = \<lparr>ot_Written = [], ot_WriteErr = None\<rparr>"

definition noteWriteErr :: "nat \<Rightarrow> 'f out \<Rightarrow> 'f out" where
  "noteWriteErr n out = (if ot_WriteErr out = None then out\<lparr>ot_WriteErr := Some n\<rparr> else out)"

definition write_sse :: "(nat \<Rightarrow> bool) \<Rightarrow> 'f sse \<Rightarrow> 'f out \<Rightarrow> 'f out" where
  "write_sse fails f out =
     (let n = length (ot_Written out); out = out\<lparr>ot_Written := ot_Written out @ [f]\<rparr> in
      if fails n then noteWriteErr n out else out)"

text \<open>Frames without the comments of the heartbeat.\<close>

definition frame_of :: "'f sse \<Rightarrow> 'f list" where
  "frame_of x = (case x of Frame f \<Rightarrow> [f] | Comment c \<Rightarrow> [])"

definition frames :: "'f out \<Rightarrow> 'f list" where
  "frames out = concat (map frame_of (ot_Written out))"

lemma frames_empty [simp]: "frames empty_out = []"
  by (simp add: frames_def empty_out_def)

lemma written_write [simp]: "ot_Written (write_sse fails f out) = ot_Written out @ [f]"
  by (simp add: write_sse_def noteWriteErr_def Let_def)

lemma frames_write [simp]:
  "frames (write_sse fails (Frame f) out) = frames out @ [f]"
  "frames (write_sse fails (Comment c) out) = frames out"
  by (simp_all add: frames_def frame_of_def)

lemma write_ok: "ot_WriteErr (write_sse fails f out) = None \<longleftrightarrow> ot_WriteErr out = None \<and> \<not> fails (length (ot_Written out))"
  by (auto simp: write_sse_def noteWriteErr_def Let_def)

text \<open>The error that is reported is that of the first failed write.\<close>

definition first_failure :: "(nat \<Rightarrow> bool) \<Rightarrow> 'f out \<Rightarrow> bool" where
  "first_failure fails out \<longleftrightarrow> (case ot_WriteErr out of
     None \<Rightarrow> \<forall>i < length (ot_Written out). \<not> fails i
   | Some n \<Rightarrow> n < length (ot_Written out) \<and> fails n \<and> (\<forall>i < n. \<not> fails i))"

lemma first_failure_empty [simp]: "first_failure fails empty_out"
  by (simp add: first_failure_def empty_out_def)

lemma first_failure_write [simp]: "first_failure fails out \<Longrightarrow> first_failure fails (write_sse fails f out)"
  by (auto simp: first_failure_def write_sse_def noteWriteErr_def Let_def less_Suc_eq split: option.splits)

section \<open>Renumbering tool calls\<close>

record toolIndexMapper =
  ti_byUpstream :: "int \<Rightarrow> int option"
  ti_next :: int

definition newToolIndexMapper :: toolIndexMapper where
  "newToolIndexMapper = \<lparr>ti_byUpstream = (\<lambda>_. None), ti_next = 0\<rparr>"

definition tool_to :: "int \<Rightarrow> toolIndexMapper \<Rightarrow> toolIndexMapper \<times> int" where
  "tool_to upstream m =
     (case ti_byUpstream m upstream of
        Some idx \<Rightarrow> (m, idx)
      | None \<Rightarrow> (m\<lparr>ti_next := ti_next m + 1, ti_byUpstream := (ti_byUpstream m)(upstream \<mapsto> ti_next m)\<rparr>, ti_next m))"

text \<open>The indices handed out are \<open>0, 1, 2, ...\<close> in the order in which the upstream indices first appear.\<close>

definition mapper_ok :: "int list \<Rightarrow> toolIndexMapper \<Rightarrow> bool" where
  "mapper_ok seen m \<longleftrightarrow> distinct seen \<and> ti_next m = int (length seen) \<and>
     ti_byUpstream m = map_of (zip seen (map int [0 ..< length seen]))"

lemma mapper_new [simp]: "mapper_ok [] newToolIndexMapper"
  by (simp add: mapper_ok_def newToolIndexMapper_def)

lemma index_of_zip:
  assumes "distinct seen" "i < length seen"
  shows "map_of (zip seen (map int [0 ..< length seen])) (seen ! i) = Some (int i)"
  using assms by (simp add: map_of_zip_nth)

lemma index_of_zip_new: "u \<notin> set seen \<Longrightarrow> map_of (zip seen (map int [0 ..< length seen])) u = None"
  by (auto simp: map_of_eq_None_iff set_zip)

lemma tool_to_seen:
  assumes "mapper_ok seen m" "i < length seen"
  shows "tool_to (seen ! i) m = (m, int i)"
  using assms index_of_zip [of seen i] by (simp add: tool_to_def mapper_ok_def)

lemma tool_to_new:
  assumes "mapper_ok seen m" "u \<notin> set seen"
  shows "snd (tool_to u m) = int (length seen)" "mapper_ok (seen @ [u]) (fst (tool_to u m))"
proof -
  have none: "ti_byUpstream m u = None" using assms index_of_zip_new [of u seen] by (simp add: mapper_ok_def)
  from none have "snd (tool_to u m) = ti_next m" by (simp add: tool_to_def)
  with assms(1) show "snd (tool_to u m) = int (length seen)" by (simp add: mapper_ok_def)
  have "zip (seen @ [u]) (map int [0 ..< length (seen @ [u])]) = zip seen (map int [0 ..< length seen]) @ [(u, int (length seen))]"
    by simp
  moreover have "u \<notin> dom (map_of (zip seen (map int [0 ..< length seen])))" using index_of_zip_new [OF assms(2)] by auto
  ultimately show "mapper_ok (seen @ [u]) (fst (tool_to u m))"
    using assms none by (auto simp: mapper_ok_def tool_to_def map_add_def fun_eq_iff index_of_zip_new split: option.splits)
qed

lemma mapper_inj:
  assumes "mapper_ok seen m" "ti_byUpstream m u = Some i" "ti_byUpstream m v = Some i"
  shows "u = v"
proof -
  have "\<exists>k < length seen. seen ! k = w \<and> i = int k" if "ti_byUpstream m w = Some i" for w
    using that assms(1) by (auto simp: mapper_ok_def set_zip dest!: map_of_SomeD)
  from this [OF assms(2)] this [OF assms(3)] show ?thesis by auto
qed

lemma tool_to_mapped:
  assumes "mapper_ok seen m"
  shows "ti_byUpstream (fst (tool_to u m)) u = Some (snd (tool_to u m))"
    and "ti_byUpstream m v = Some i \<Longrightarrow> ti_byUpstream (fst (tool_to u m)) v = Some i"
    and "\<exists>seen. mapper_ok seen (fst (tool_to u m))"
proof -
  show "ti_byUpstream (fst (tool_to u m)) u = Some (snd (tool_to u m))"
    and "ti_byUpstream m v = Some i \<Longrightarrow> ti_byUpstream (fst (tool_to u m)) v = Some i"
    by (auto simp: tool_to_def split: option.splits)
  show "\<exists>seen. mapper_ok seen (fst (tool_to u m))"
  proof (cases "u \<in> set seen")
    case True
    then obtain k where "k < length seen" "seen ! k = u" by (auto simp: in_set_conv_nth)
    with tool_to_seen [OF assms, of k] assms show ?thesis by auto
  next
    case False
    with tool_to_new(2) [OF assms] show ?thesis by blast
  qed
qed

section \<open>The interface of the sinks\<close>

text \<open>The main loop delivers events and the heartbeat writes comments, one at a time under the mutex.\<close>

datatype sink_op = Deliver sdk_event | Beat

definition delivered :: "sink_op list \<Rightarrow> sdk_event list" where
  "delivered ops = concat (map (\<lambda>x. case x of Deliver e \<Rightarrow> [e] | Beat \<Rightarrow> []) ops)"

lemma delivered_simps [simp]:
  "delivered [] = []" "delivered (Deliver e # ops) = e # delivered ops" "delivered (Beat # ops) = delivered ops"
  by (simp_all add: delivered_def)

text \<open>A client reads one frame after the other and gives up with \<open>None\<close> on a frame the protocol does not allow.\<close>

fun read_all :: "('f \<Rightarrow> 'c \<Rightarrow> 'c option) \<Rightarrow> 'f list \<Rightarrow> 'c \<Rightarrow> 'c option" where
  "read_all read [] c = Some c"
| "read_all read (f # fs) c = Option.bind (read f c) (read_all read fs)"

lemma read_all_append [simp]: "read_all read (fs @ gs) c = Option.bind (read_all read fs c) (read_all read gs)"
  by (induction fs arbitrary: c) (auto simp: Option.bind_eq_None_conv split: Option.bind_splits)

text \<open>A sink refines a specification that consumes the same events and says directly what the client has read so far, as
  long as no write has failed.\<close>

locale stream_sink =
  fixes event :: "(nat \<Rightarrow> bool) \<Rightarrow> sdk_event \<Rightarrow> 's \<Rightarrow> 's"
    and keepalive :: "(nat \<Rightarrow> bool) \<Rightarrow> 's \<Rightarrow> 's"
    and out :: "'s \<Rightarrow> 'f out"
    and read :: "'f \<Rightarrow> 'c \<Rightarrow> 'c option"
    and fresh :: 'c
    and agree :: "'s \<Rightarrow> 'm \<Rightarrow> bool"
    and consumed :: "sdk_event \<Rightarrow> 'm \<Rightarrow> 'm"
    and understood :: "'m \<Rightarrow> 'c \<Rightarrow> bool"
  assumes event_agree: "agree s m \<Longrightarrow> agree (event fails e s) (consumed e m)"
    and keepalive_agree: "agree s m \<Longrightarrow> agree (keepalive fails s) m"
    and agree_read: "agree s m \<Longrightarrow> ot_WriteErr (out s) = None \<Longrightarrow>
        \<exists>c. read_all read (frames (out s)) fresh = Some c \<and> understood m c"
    and event_errors: "first_failure fails (out s) \<Longrightarrow> first_failure fails (out (event fails e s))"
    and keepalive_errors: "first_failure fails (out s) \<Longrightarrow> first_failure fails (out (keepalive fails s))"
begin

definition apply_op :: "(nat \<Rightarrow> bool) \<Rightarrow> sink_op \<Rightarrow> 's \<Rightarrow> 's" where
  "apply_op fails x s = (case x of Deliver e \<Rightarrow> event fails e s | Beat \<Rightarrow> keepalive fails s)"

lemma run_errors: "first_failure fails (out s) \<Longrightarrow> first_failure fails (out (fold (apply_op fails) ops s))"
proof (induction ops arbitrary: s)
  case Nil
  then show ?case by simp
next
  case (Cons x ops)
  then show ?case by (cases x) (simp_all add: apply_op_def event_errors keepalive_errors)
qed

lemma run_agree: "agree s m \<Longrightarrow> agree (fold (apply_op fails) ops s) (fold consumed (delivered ops) m)"
proof (induction ops arbitrary: s m)
  case Nil
  then show ?case by simp
next
  case (Cons x ops)
  then show ?case by (cases x) (simp_all add: apply_op_def event_agree keepalive_agree)
qed

lemmas run_read = agree_read [OF run_agree]

end

end
