(* ===== verification/Json.thy ===== *)
theory Json
  imports Prelude
begin

text \<open>
  What the sources use of \<open>encoding/json\<close>: \<open>Unmarshal\<close> of a text into a value. A text is first cut into tokens, which a
  stack of open arrays and objects turns into a value; an object keeps its members in their order, duplicates included,
  and a number keeps its digits. Invalid UTF-8 and lone surrogates become \<open>U+FFFD\<close>, as in Go; the limit of 10000 nested
  values is left out.
\<close>

datatype json = JNull | JBool bool | JNum string | JStr string | JArr "json list" | JObj "(string \<times> json) list"

section \<open>Text\<close>

definition byte_of :: "nat \<Rightarrow> char" where "byte_of n = char_of n"

definition byte_code :: "char \<Rightarrow> nat" where "byte_code c = of_char c"

definition utf8_encode :: "nat \<Rightarrow> string" where
  "utf8_encode r =
     (if r < 128 then [byte_of r]
      else if r < 2048 then [byte_of (192 + r div 64), byte_of (128 + r mod 64)]
      else if r < 65536 then [byte_of (224 + r div 4096), byte_of (128 + r div 64 mod 64), byte_of (128 + r mod 64)]
      else [byte_of (240 + r div 262144), byte_of (128 + r div 4096 mod 64), byte_of (128 + r div 64 mod 64), byte_of (128 + r mod 64)])"

definition replacement :: string where "replacement = utf8_encode 65533"

definition is_cont :: "nat \<Rightarrow> nat \<Rightarrow> char \<Rightarrow> bool" where
  "is_cont lo hi c \<longleftrightarrow> lo \<le> byte_code c \<and> byte_code c \<le> hi"

text \<open>The length of the valid character at the head of a text, \<open>0\<close> for none.\<close>

definition utf8_length :: "string \<Rightarrow> nat" where
  "utf8_length s =
     (case s of
        [] \<Rightarrow> 0
      | c # s \<Rightarrow>
         (let n = byte_code c;
              c1 = (case s of a # _ \<Rightarrow> is_cont (if n = 224 then 160 else if n = 240 then 144 else 128) (if n = 237 then 159 else if n = 244 then 143 else 191) a | _ \<Rightarrow> False);
              c2 = (case s of _ # b # _ \<Rightarrow> is_cont 128 191 b | _ \<Rightarrow> False);
              c3 = (case s of _ # _ # d # _ \<Rightarrow> is_cont 128 191 d | _ \<Rightarrow> False)
          in if n < 128 then 1
             else if 194 \<le> n \<and> n \<le> 223 \<and> c1 then 2
             else if 224 \<le> n \<and> n \<le> 239 \<and> c1 \<and> c2 then 3
             else if 240 \<le> n \<and> n \<le> 244 \<and> c1 \<and> c2 \<and> c3 then 4 else 0))"

function valid_utf8 :: "string \<Rightarrow> string" where
  "valid_utf8 [] = []"
| "valid_utf8 (c # s) =
     (let n = utf8_length (c # s) in
      if n = 0 then replacement @ valid_utf8 s else take n (c # s) @ valid_utf8 (drop (n - 1) s))"
  by pat_completeness auto
termination by (relation "measure length") auto

definition hex_digit :: "char \<Rightarrow> nat option" where
  "hex_digit c =
     (let n = byte_code c in
      if 48 \<le> n \<and> n \<le> 57 then Some (n - 48) else if 65 \<le> n \<and> n \<le> 70 then Some (n - 55)
      else if 97 \<le> n \<and> n \<le> 102 then Some (n - 87) else None)"

fun hex4 :: "string \<Rightarrow> (nat \<times> string) option" where
  "hex4 (a # b # c # d # s) =
     (case (hex_digit a, hex_digit b, hex_digit c, hex_digit d) of
        (Some x, Some y, Some z, Some w) \<Rightarrow> Some (((x * 16 + y) * 16 + z) * 16 + w, s)
      | _ \<Rightarrow> None)"
| "hex4 _ = None"

text \<open>A character escaped with \<open>\u\<close>, the second half of a surrogate pair included.\<close>

definition unicode_escape :: "string \<Rightarrow> (string \<times> string) option" where
  "unicode_escape s =
     (case hex4 s of
        None \<Rightarrow> None
      | Some (r, t) \<Rightarrow>
         if 55296 \<le> r \<and> r < 57344
         then (case t of
                 b # u # t' \<Rightarrow>
                   if byte_code b = 92 \<and> u = CHR ''u''
                   then (case hex4 t' of
                           Some (r2, t2) \<Rightarrow> if r < 56320 \<and> 56320 \<le> r2 \<and> r2 < 57344
                             then Some (utf8_encode (65536 + (r - 55296) * 1024 + (r2 - 56320)), t2) else Some (replacement, t)
                         | None \<Rightarrow> Some (replacement, t))
                   else Some (replacement, t)
               | _ \<Rightarrow> Some (replacement, t))
         else Some (utf8_encode r, t))"

lemma hex4_shorter: "hex4 s = Some (r, t) \<Longrightarrow> length t < length s"
  by (cases s rule: hex4.cases) (auto split: option.splits)

lemma unicode_shorter: "unicode_escape s = Some (r, t) \<Longrightarrow> length t < length s"
  by (auto simp: unicode_escape_def split: option.splits if_splits list.splits dest!: hex4_shorter)

definition plain_escape :: "char \<Rightarrow> string option" where
  "plain_escape e =
     (let n = byte_code e in
      if n \<in> {34, 47, 92} then Some [e] else if e = CHR ''b'' then Some [byte_of 8] else if e = CHR ''f'' then Some [byte_of 12]
      else if e = CHR ''n'' then Some [byte_of 10] else if e = CHR ''r'' then Some [byte_of 13] else if e = CHR ''t'' then Some [byte_of 9] else None)"

text \<open>After the opening quote: the text and what follows the closing quote.\<close>

function scan_string :: "string \<Rightarrow> (string \<times> string) option" where
  "scan_string [] = None"
| "scan_string (c # s) =
     (if byte_code c = 34 then Some ([], s)
      else if byte_code c = 92 then
        (case s of
           [] \<Rightarrow> None
         | e # s' \<Rightarrow>
            if e = CHR ''u'' then
              (case unicode_escape s' of None \<Rightarrow> None | Some (x, t) \<Rightarrow> map_option (\<lambda>(y, u). (x @ y, u)) (scan_string t))
            else (case plain_escape e of None \<Rightarrow> None | Some x \<Rightarrow> map_option (\<lambda>(y, u). (x @ y, u)) (scan_string s')))
      else if byte_code c < 32 then None
      else map_option (\<lambda>(y, u). (c # y, u)) (scan_string s))"
  by pat_completeness auto
termination by (relation "measure length") (auto dest!: unicode_shorter)

lemma scan_shorter: "scan_string s = Some (x, t) \<Longrightarrow> length t < length s"
proof (induction "length s" arbitrary: s x t rule: less_induct)
  case less
  show ?case
  proof (cases s)
    case (Cons c s')
    have IH: "length w < length u" if "scan_string u = Some (y, w)" "length u \<le> length s'" for u y w
      using less.hyps [of u y w] that Cons by simp
    from less.prems Cons show ?thesis
      by (auto split: if_splits list.splits option.splits dest!: unicode_shorter) (fastforce dest: IH)+
  qed (use less.prems in simp)
qed

section \<open>Tokens\<close>

datatype token = TOpen | TClose | TOpenArr | TCloseArr | TComma | TColon | TStr string | TNum string | TTrue | TFalse | TNull

definition number_char :: "char \<Rightarrow> bool" where
  "number_char c \<longleftrightarrow> (48 \<le> byte_code c \<and> byte_code c \<le> 57) \<or> c \<in> set ''+-.eE''"

definition digit_char :: "char \<Rightarrow> bool" where
  "digit_char c \<longleftrightarrow> 48 \<le> byte_code c \<and> byte_code c \<le> 57"

definition valid_number :: "string \<Rightarrow> bool" where
  "valid_number s =
     (let s = (case s of c # t \<Rightarrow> if c = CHR ''-'' then t else s | [] \<Rightarrow> []);
          ds = takeWhile digit_char s; s = dropWhile digit_char s;
          frac = (case s of c # t \<Rightarrow> if c = CHR ''.'' then takeWhile digit_char t \<noteq> [] else True | [] \<Rightarrow> True);
          s = (case s of c # t \<Rightarrow> if c = CHR ''.'' then dropWhile digit_char t else s | [] \<Rightarrow> []);
          expo = (case s of
             [] \<Rightarrow> True
           | c # t \<Rightarrow> (c = CHR ''e'' \<or> c = CHR ''E'') \<and>
               (let t = (case t of d # u \<Rightarrow> if d = CHR ''+'' \<or> d = CHR ''-'' then u else t | [] \<Rightarrow> []) in t \<noteq> [] \<and> list_all digit_char t))
      in ds \<noteq> [] \<and> (hd ds = CHR ''0'' \<longrightarrow> length ds = 1) \<and> frac \<and> expo)"

definition json_space :: "char \<Rightarrow> bool" where
  "json_space c \<longleftrightarrow> byte_code c \<in> {9, 10, 13, 32}"

function json_tokens :: "string \<Rightarrow> token list option" where
  "json_tokens [] = Some []"
| "json_tokens (c # s) =
     (if json_space c then json_tokens s
      else if c = CHR ''{'' then map_option ((#) TOpen) (json_tokens s)
      else if c = CHR ''}'' then map_option ((#) TClose) (json_tokens s)
      else if c = CHR ''['' then map_option ((#) TOpenArr) (json_tokens s)
      else if c = CHR '']'' then map_option ((#) TCloseArr) (json_tokens s)
      else if c = CHR '','' then map_option ((#) TComma) (json_tokens s)
      else if c = CHR '':'' then map_option ((#) TColon) (json_tokens s)
      else if byte_code c = 34 then (case scan_string s of None \<Rightarrow> None | Some (x, t) \<Rightarrow> map_option ((#) (TStr (valid_utf8 x))) (json_tokens t))
      else if take 3 s = ''rue'' \<and> c = CHR ''t'' then map_option ((#) TTrue) (json_tokens (drop 3 s))
      else if take 4 s = ''alse'' \<and> c = CHR ''f'' then map_option ((#) TFalse) (json_tokens (drop 4 s))
      else if take 3 s = ''ull'' \<and> c = CHR ''n'' then map_option ((#) TNull) (json_tokens (drop 3 s))
      else if number_char c then
        (let x = c # takeWhile number_char s in
         if valid_number x then map_option ((#) (TNum x)) (json_tokens (dropWhile number_char s)) else None)
      else None)"
  by pat_completeness auto
termination by (relation "measure length") (auto dest!: scan_shorter simp: le_imp_less_Suc length_dropWhile_le)

section \<open>Values\<close>

datatype parse_frame = FArr "json list" | FObj "(string \<times> json) list" string

datatype parse_mode = MValue | MFirst | MKey | MFirstKey | MColon string | MAfter json

text \<open>A value begins: it is complete, or an array or object is opened.\<close>

definition start_value :: "parse_frame list \<Rightarrow> token \<Rightarrow> (parse_mode \<times> parse_frame list) option" where
  "start_value st t =
     (case t of TNull \<Rightarrow> Some (MAfter JNull, st) | TTrue \<Rightarrow> Some (MAfter (JBool True), st) | TFalse \<Rightarrow> Some (MAfter (JBool False), st)
      | TStr x \<Rightarrow> Some (MAfter (JStr x), st) | TNum x \<Rightarrow> Some (MAfter (JNum x), st)
      | TOpenArr \<Rightarrow> Some (MFirst, st) | TOpen \<Rightarrow> Some (MFirstKey, st) | _ \<Rightarrow> None)"

definition after_value :: "json \<Rightarrow> parse_frame list \<Rightarrow> token \<Rightarrow> (parse_mode \<times> parse_frame list) option" where
  "after_value v st t =
     (case st of
        FArr vs # st \<Rightarrow>
          if t = TComma then Some (MValue, FArr (v # vs) # st)
          else if t = TCloseArr then Some (MAfter (JArr (rev (v # vs))), st) else None
      | FObj kvs k # st \<Rightarrow>
          if t = TComma then Some (MKey, FObj ((k, v) # kvs) '''' # st)
          else if t = TClose then Some (MAfter (JObj (rev ((k, v) # kvs))), st) else None
      | [] \<Rightarrow> None)"

definition advance :: "parse_mode \<Rightarrow> parse_frame list \<Rightarrow> token \<Rightarrow> (parse_mode \<times> parse_frame list) option" where
  "advance m st t =
     (case m of
        MValue \<Rightarrow> start_value st t
      | MFirst \<Rightarrow> if t = TCloseArr then Some (MAfter (JArr []), st) else start_value (FArr [] # st) t
      | MFirstKey \<Rightarrow>
          if t = TClose then Some (MAfter (JObj []), st) else (case t of TStr k \<Rightarrow> Some (MColon k, FObj [] k # st) | _ \<Rightarrow> None)
      | MKey \<Rightarrow> (case (t, st) of (TStr k, FObj kvs _ # st) \<Rightarrow> Some (MColon k, FObj kvs k # st) | _ \<Rightarrow> None)
      | MColon k \<Rightarrow> if t = TColon then Some (MValue, st) else None
      | MAfter v \<Rightarrow> after_value v st t)"

fun parse_value :: "parse_mode \<Rightarrow> parse_frame list \<Rightarrow> token list \<Rightarrow> json option" where
  "parse_value m st [] = (case m of MAfter v \<Rightarrow> if st = [] then Some v else None | _ \<Rightarrow> None)"
| "parse_value m st (t # ts) = (case advance m st t of None \<Rightarrow> None | Some (m', st') \<Rightarrow> parse_value m' st' ts)"

definition Unmarshal :: "string \<Rightarrow> json option" where
  "Unmarshal s = (case json_tokens s of None \<Rightarrow> None | Some ts \<Rightarrow> parse_value MValue [] ts)"

text \<open>A member of an object by its name: the last one counts.\<close>

definition json_member :: "string \<Rightarrow> (string \<times> json) list \<Rightarrow> json option" where
  "json_member k kvs = map_of (rev kvs) k"

text \<open>The members that \<open>Unmarshal\<close> stores in a struct field: names are compared without regard to case.\<close>

definition field_values :: "string \<Rightarrow> (string \<times> json) list \<Rightarrow> json list" where
  "field_values k kvs = map snd (filter (\<lambda>(k', v). to_lower k' = k) kvs)"

end
