(* ===== verification/Anthropic.thy ===== *)
theory Anthropic
  imports Sinks Json
begin

text \<open>
  \<^verbatim>\<open>internal/outwire/anthropic.go\<close>: replies in the format of Anthropic Messages. The record \<open>anthropicSSE\<close> is the
  stream encoder, which opens and closes content blocks as the kind of the upstream events changes. The client
  (\<open>reader\<close>) follows the protocol frame by frame and puts the message together again.
\<close>

section \<open>Errors, usage and stop reasons\<close>

definition statusOverloaded :: int where "statusOverloaded = 529"

definition anthropicErrorType :: "string \<Rightarrow> int \<Rightarrow> string" where
  "anthropicErrorType code status =
     (if code = ''invalid_api_key'' then if status = 403 then ''permission_error'' else ''authentication_error''
      else if code \<in> {''invalid_request_error'', ''context_length_exceeded'', ''request_too_large''} then ''invalid_request_error''
      else if code = ''model_not_found'' then ''not_found_error''
      else if code \<in> {''insufficient_quota'', ''rate_limit_exceeded'', ''upstream_quota_exhausted''} then ''rate_limit_error''
      else if code = ''insufficient_balance'' then ''billing_error''
      else if code = ''upstream_auth_error'' then if status = 403 then ''permission_error'' else ''authentication_error''
      else if code = ''upstream_timeout'' then ''timeout_error''
      else if code = ''internal_error'' then ''api_error''
      else if status = 404 then ''not_found_error''
      else if status = 429 then ''rate_limit_error''
      else if status = statusOverloaded then ''overloaded_error''
      else if status = 504 then ''timeout_error''
      else if status = 402 then ''billing_error''
      else if status = 409 then ''conflict_error''
      else ''api_error'')"

text \<open>A field that is left out is \<open>None\<close>.\<close>

record anthropic_usage =
  au_input_tokens :: "int option"
  au_output_tokens :: int
  au_cache_read_input_tokens :: "int option"
  au_cache_creation_input_tokens :: "int option"

definition anthropicUsageFields :: "token_usage \<Rightarrow> bool \<Rightarrow> anthropic_usage" where
  "anthropicUsageFields u emitInput =
     (let uncached = tu_InputTokens u - tu_CachedInputTokens u - tu_CachedCreationTokens u;
          uncached = (if uncached < 0 then 0 else uncached) in
      \<lparr>au_input_tokens = (if emitInput then Some uncached else None), au_output_tokens = tu_OutputTokens u,
       au_cache_read_input_tokens = (if tu_CachedInputTokens u > 0 then Some (tu_CachedInputTokens u) else None),
       au_cache_creation_input_tokens = (if tu_CachedCreationTokens u > 0 then Some (tu_CachedCreationTokens u) else None)\<rparr>)"

definition AnthropicStopReason :: "stop_reason \<Rightarrow> string" where
  "AnthropicStopReason s =
     (case s of StopLength \<Rightarrow> ''max_tokens'' | StopToolUse \<Rightarrow> ''tool_use''
      | StopContentFilter \<Rightarrow> ''refusal'' | StopRefusal \<Rightarrow> ''refusal'' | _ \<Rightarrow> ''end_turn'')"

text \<open>The input a client is billed for is the sum of three disjoint fields.\<close>

definition billed_input :: "anthropic_usage \<Rightarrow> int" where
  "billed_input a = (case au_input_tokens a of None \<Rightarrow> 0 | Some n \<Rightarrow> n) +
     (case au_cache_read_input_tokens a of None \<Rightarrow> 0 | Some n \<Rightarrow> n) +
     (case au_cache_creation_input_tokens a of None \<Rightarrow> 0 | Some n \<Rightarrow> n)"

lemma billed_input_fields:
  assumes "0 \<le> tu_CachedInputTokens u" "0 \<le> tu_CachedCreationTokens u"
    and "tu_CachedInputTokens u + tu_CachedCreationTokens u \<le> tu_InputTokens u"
  shows "billed_input (anthropicUsageFields u (tu_InputTokens u > 0)) = tu_InputTokens u"
  using assms by (auto simp: billed_input_def anthropicUsageFields_def Let_def)

section \<open>The encoder\<close>

datatype content_block = TextBlock | ThinkingBlock | ToolUseBlock ident string

datatype block_delta = TextPart string | ThinkingPart string | SignaturePart string | InputJsonPart string

datatype message_frame =
    MessageStartF ident string | BlockStartF int content_block | BlockDeltaF int block_delta | BlockStopF int
  | MessageDeltaF string anthropic_usage | MessageStopF | ErrorF

record anthropicSSE =
  an_out :: "message_frame out"
  an_model :: string
  an_id :: ident
  an_started :: bool
  an_blockIndex :: int
  an_openType :: string
  an_openToolIdx :: int
  an_toolIdx :: toolIndexMapper
  an_pendingToolID :: ident
  an_pendingToolName :: string
  an_wroteContent :: bool
  an_sawTerminal :: bool

definition NewAnthropicSSE :: "ident \<Rightarrow> string \<Rightarrow> anthropicSSE" where
  "NewAnthropicSSE i model = \<lparr>an_out = empty_out, an_model = model, an_id = i, an_started = False, an_blockIndex = 0,
     an_openType = '''', an_openToolIdx = -1, an_toolIdx = newToolIndexMapper, an_pendingToolID = '''', an_pendingToolName = '''',
     an_wroteContent = False, an_sawTerminal = False\<rparr>"

definition an_writeEvent :: "(nat \<Rightarrow> bool) \<Rightarrow> message_frame \<Rightarrow> anthropicSSE \<Rightarrow> anthropicSSE" where
  "an_writeEvent fails f s = s\<lparr>an_out := write_sse fails (Frame f) (an_out s)\<rparr>"

definition an_Keepalive :: "(nat \<Rightarrow> bool) \<Rightarrow> anthropicSSE \<Rightarrow> anthropicSSE" where
  "an_Keepalive fails s = s\<lparr>an_out := write_sse fails (Comment ''keepalive'') (an_out s)\<rparr>"

definition an_ensureStarted :: "(nat \<Rightarrow> bool) \<Rightarrow> ident \<Rightarrow> anthropicSSE \<Rightarrow> anthropicSSE" where
  "an_ensureStarted fails i s =
     (if an_started s then s
      else (let s = s\<lparr>an_started := True\<rparr>; s = (if i \<noteq> '''' then s\<lparr>an_id := i\<rparr> else s) in
            an_writeEvent fails (MessageStartF (an_id s) (an_model s)) s))"

definition closeOpenBlock :: "(nat \<Rightarrow> bool) \<Rightarrow> anthropicSSE \<Rightarrow> anthropicSSE" where
  "closeOpenBlock fails s =
     (if an_openType s = '''' then s
      else (an_writeEvent fails (BlockStopF (an_blockIndex s - 1)) s)\<lparr>an_openType := '''', an_openToolIdx := -1\<rparr>)"

definition ensureBlock :: "(nat \<Rightarrow> bool) \<Rightarrow> string \<Rightarrow> int \<Rightarrow> anthropicSSE \<Rightarrow> anthropicSSE" where
  "ensureBlock fails blockType toolIdx s =
     (if an_openType s = blockType \<and> (blockType \<noteq> ''tool_use'' \<or> an_openToolIdx s = toolIdx) then s
      else
       (let s = closeOpenBlock fails s;
            s = an_ensureStarted fails '''' s;
            idx = an_blockIndex s;
            s = s\<lparr>an_blockIndex := an_blockIndex s + 1\<rparr>;
            cb = (if blockType = ''text'' then TextBlock else if blockType = ''thinking'' then ThinkingBlock
                  else ToolUseBlock (an_pendingToolID s) (an_pendingToolName s));
            s = an_writeEvent fails (BlockStartF idx cb) s
        in s\<lparr>an_openType := blockType, an_openToolIdx := toolIdx\<rparr>))"

definition write_delta :: "(nat \<Rightarrow> bool) \<Rightarrow> block_delta \<Rightarrow> anthropicSSE \<Rightarrow> anthropicSSE" where
  "write_delta fails d s = an_writeEvent fails (BlockDeltaF (an_blockIndex s - 1) d) s"

definition an_Event :: "(nat \<Rightarrow> bool) \<Rightarrow> sdk_event \<Rightarrow> anthropicSSE \<Rightarrow> anthropicSSE" where
  "an_Event fails ev s =
     (case ev_Type ev of
        EventMessageStart \<Rightarrow> an_ensureStarted fails (ev_ID ev) s
      | EventTextDelta \<Rightarrow>
          (let s = ensureBlock fails ''text'' 0 s;
               s = (if ev_Text ev \<noteq> '''' then s\<lparr>an_wroteContent := True\<rparr> else s)
           in write_delta fails (TextPart (ev_Text ev)) s)
      | EventThinkingDelta \<Rightarrow>
          (let s = ensureBlock fails ''thinking'' 0 s;
               s = (if ev_Text ev \<noteq> '''' then write_delta fails (ThinkingPart (ev_Text ev)) (s\<lparr>an_wroteContent := True\<rparr>) else s)
           in if ev_Signature ev \<noteq> '''' then write_delta fails (SignaturePart (ev_Signature ev)) s else s)
      | EventToolCall \<Rightarrow>
          (let s = (if ev_ToolID ev \<noteq> '''' then s\<lparr>an_pendingToolID := ev_ToolID ev, an_pendingToolName := ev_ToolName ev\<rparr> else s);
               (m, idx) = tool_to (ev_ToolIndex ev) (an_toolIdx s);
               s = ensureBlock fails ''tool_use'' idx (s\<lparr>an_toolIdx := m\<rparr>);
               s = s\<lparr>an_wroteContent := True\<rparr>
           in write_delta fails (InputJsonPart (ev_ArgumentsDelta ev)) s)
      | EventMessageEnd \<Rightarrow> s\<lparr>an_sawTerminal := True\<rparr>
      | EventUnknown \<Rightarrow> s)"

definition an_Finish :: "(nat \<Rightarrow> bool) \<Rightarrow> string \<Rightarrow> stop_reason \<Rightarrow> token_usage \<Rightarrow> anthropicSSE \<Rightarrow> anthropicSSE" where
  "an_Finish fails status stop usage s =
     (if status = ''canceled'' then s
      else
       (let s = closeOpenBlock fails s in
        if status \<noteq> ''ok'' then an_writeEvent fails ErrorF s
        else
         (let s = an_ensureStarted fails '''' s;
              u = anthropicUsageFields usage (tu_InputTokens usage > 0);
              s = an_writeEvent fails (MessageDeltaF (AnthropicStopReason stop) u) s
          in an_writeEvent fails MessageStopF s)))"

definition an_WriteError :: "anthropicSSE \<Rightarrow> nat option" where
  "an_WriteError s = ot_WriteErr (an_out s)"

section \<open>The client\<close>

text \<open>What a client that follows the protocol has understood: the blocks that are complete, and where it is.\<close>

datatype content = TextContent string | ThinkingContent string string | ToolUseContent ident string string

datatype reader_phase = Fresh | Between | Inside content | Ending | Complete | Failed

record reader =
  rd_Phase :: reader_phase
  rd_Head :: "(ident \<times> string) option"
  rd_Blocks :: "content list"
  rd_Tail :: "(string \<times> anthropic_usage) option"

definition fresh_reader :: reader where
  "fresh_reader = \<lparr>rd_Phase = Fresh, rd_Head = None, rd_Blocks = [], rd_Tail = None\<rparr>"

fun begun :: "content_block \<Rightarrow> content" where
  "begun TextBlock = TextContent ''''"
| "begun ThinkingBlock = ThinkingContent '''' ''''"
| "begun (ToolUseBlock i n) = ToolUseContent i n ''''"

fun extended :: "block_delta \<Rightarrow> content \<Rightarrow> content option" where
  "extended (TextPart t) (TextContent a) = Some (TextContent (a @ t))"
| "extended (ThinkingPart t) (ThinkingContent a sg) = Some (ThinkingContent (a @ t) sg)"
| "extended (SignaturePart t) (ThinkingContent a sg) = Some (ThinkingContent a t)"
| "extended (InputJsonPart t) (ToolUseContent i n a) = Some (ToolUseContent i n (a @ t))"
| "extended _ _ = None"

fun read_frame :: "message_frame \<Rightarrow> reader \<Rightarrow> reader option" where
  "read_frame (MessageStartF i m) r = (if rd_Phase r = Fresh then Some (r\<lparr>rd_Phase := Between, rd_Head := Some (i, m)\<rparr>) else None)"
| "read_frame (BlockStartF n cb) r =
     (if rd_Phase r = Between \<and> n = int (length (rd_Blocks r)) then Some (r\<lparr>rd_Phase := Inside (begun cb)\<rparr>) else None)"
| "read_frame (BlockDeltaF n d) r =
     (case rd_Phase r of
        Inside x \<Rightarrow> if n = int (length (rd_Blocks r)) then map_option (\<lambda>y. r\<lparr>rd_Phase := Inside y\<rparr>) (extended d x) else None
      | _ \<Rightarrow> None)"
| "read_frame (BlockStopF n) r =
     (case rd_Phase r of
        Inside x \<Rightarrow> if n = int (length (rd_Blocks r)) then Some (r\<lparr>rd_Phase := Between, rd_Blocks := rd_Blocks r @ [x]\<rparr>) else None
      | _ \<Rightarrow> None)"
| "read_frame (MessageDeltaF sr u) r = (if rd_Phase r = Between then Some (r\<lparr>rd_Phase := Ending, rd_Tail := Some (sr, u)\<rparr>) else None)"
| "read_frame MessageStopF r = (if rd_Phase r = Ending then Some (r\<lparr>rd_Phase := Complete\<rparr>) else None)"
| "read_frame ErrorF r = (if rd_Phase r = Fresh \<or> rd_Phase r = Between then Some (r\<lparr>rd_Phase := Failed\<rparr>) else None)"

text \<open>The specification of the encoder: what the client has read, and what the next event continues.\<close>

record spoken =
  sp_reader :: reader
  sp_fallbackID :: ident
  sp_model :: string
  sp_tool :: int
  sp_pending :: "ident \<times> string"

definition begin_message :: "ident \<Rightarrow> spoken \<Rightarrow> spoken" where
  "begin_message i m =
     (if rd_Phase (sp_reader m) = Fresh
      then m\<lparr>sp_reader := (sp_reader m)\<lparr>rd_Phase := Between, rd_Head := Some (if i = '''' then sp_fallbackID m else i, sp_model m)\<rparr>\<rparr>
      else m)"

definition close_reader :: "reader \<Rightarrow> reader" where
  "close_reader r = (case rd_Phase r of Inside x \<Rightarrow> r\<lparr>rd_Phase := Between, rd_Blocks := rd_Blocks r @ [x]\<rparr> | _ \<Rightarrow> r)"

definition close_block :: "spoken \<Rightarrow> spoken" where
  "close_block m = m\<lparr>sp_reader := close_reader (sp_reader m)\<rparr>"

definition open_block :: "content_block \<Rightarrow> spoken \<Rightarrow> spoken" where
  "open_block cb m =
     (let m = begin_message '''' (close_block m) in m\<lparr>sp_reader := (sp_reader m)\<lparr>rd_Phase := Inside (begun cb)\<rparr>\<rparr>)"

definition extend_block :: "block_delta \<Rightarrow> spoken \<Rightarrow> spoken" where
  "extend_block d m =
     (case rd_Phase (sp_reader m) of
        Inside x \<Rightarrow> (case extended d x of Some y \<Rightarrow> m\<lparr>sp_reader := (sp_reader m)\<lparr>rd_Phase := Inside y\<rparr>\<rparr> | None \<Rightarrow> m)
      | _ \<Rightarrow> m)"

definition in_text :: "spoken \<Rightarrow> bool" where
  "in_text m = (case rd_Phase (sp_reader m) of Inside (TextContent a) \<Rightarrow> True | _ \<Rightarrow> False)"

definition in_thinking :: "spoken \<Rightarrow> bool" where
  "in_thinking m = (case rd_Phase (sp_reader m) of Inside (ThinkingContent a sg) \<Rightarrow> True | _ \<Rightarrow> False)"

definition in_tool :: "spoken \<Rightarrow> bool" where
  "in_tool m = (case rd_Phase (sp_reader m) of Inside (ToolUseContent i n a) \<Rightarrow> True | _ \<Rightarrow> False)"

definition consumed :: "sdk_event \<Rightarrow> spoken \<Rightarrow> spoken" where
  "consumed ev m =
     (case ev_Type ev of
        EventMessageStart \<Rightarrow> begin_message (ev_ID ev) m
      | EventTextDelta \<Rightarrow> extend_block (TextPart (ev_Text ev)) (if in_text m then m else open_block TextBlock m)
      | EventThinkingDelta \<Rightarrow>
          (let m = (if in_thinking m then m else open_block ThinkingBlock m);
               m = (if ev_Text ev \<noteq> '''' then extend_block (ThinkingPart (ev_Text ev)) m else m)
           in if ev_Signature ev \<noteq> '''' then extend_block (SignaturePart (ev_Signature ev)) m else m)
      | EventToolCall \<Rightarrow>
          (let m = (if ev_ToolID ev \<noteq> '''' then m\<lparr>sp_pending := (ev_ToolID ev, ev_ToolName ev)\<rparr> else m);
               m = (if in_tool m \<and> sp_tool m = ev_ToolIndex ev then m
                    else (open_block (ToolUseBlock (fst (sp_pending m)) (snd (sp_pending m))) m)\<lparr>sp_tool := ev_ToolIndex ev\<rparr>)
           in extend_block (InputJsonPart (ev_ArgumentsDelta ev)) m)
      | _ \<Rightarrow> m)"

section \<open>The encoder refines its specification\<close>

fun block_type :: "content \<Rightarrow> string" where
  "block_type (TextContent a) = ''text''"
| "block_type (ThinkingContent a sg) = ''thinking''"
| "block_type (ToolUseContent i n a) = ''tool_use''"

definition an_agree :: "anthropicSSE \<Rightarrow> spoken \<Rightarrow> bool" where
  "an_agree s m \<longleftrightarrow>
     read_all read_frame (frames (an_out s)) fresh_reader = Some (sp_reader m) \<and>
     (\<exists>seen. mapper_ok seen (an_toolIdx s)) \<and> sp_pending m = (an_pendingToolID s, an_pendingToolName s) \<and>
     (case rd_Phase (sp_reader m) of
        Fresh \<Rightarrow> \<not> an_started s \<and> an_openType s = '''' \<and> an_blockIndex s = 0 \<and> rd_Blocks (sp_reader m) = [] \<and>
          an_id s = sp_fallbackID m \<and> an_model s = sp_model m
      | Between \<Rightarrow> an_started s \<and> an_openType s = '''' \<and> an_blockIndex s = int (length (rd_Blocks (sp_reader m)))
      | Inside x \<Rightarrow> an_started s \<and> an_openType s = block_type x \<and> an_blockIndex s = int (length (rd_Blocks (sp_reader m))) + 1 \<and>
          (block_type x = ''tool_use'' \<longrightarrow> ti_byUpstream (an_toolIdx s) (sp_tool m) = Some (an_openToolIdx s))
      | _ \<Rightarrow> False)"

lemma block_type_not_Nil [simp]: "block_type x \<noteq> ''''" "'''' \<noteq> block_type x"
  by (cases x, simp_all)+

lemma agree_started: "an_agree s m \<Longrightarrow> an_agree (an_ensureStarted fails i s) (begin_message i m)"
  by (auto simp: an_agree_def an_ensureStarted_def begin_message_def an_writeEvent_def Let_def split: reader_phase.splits)

lemma agree_close: "an_agree s m \<Longrightarrow> an_agree (closeOpenBlock fails s) (close_block m)"
  by (auto simp: an_agree_def closeOpenBlock_def close_block_def close_reader_def an_writeEvent_def split: reader_phase.splits)

lemma agree_open:
  assumes agree: "an_agree s m" and new: "\<not> (an_openType s = ty \<and> (ty \<noteq> ''tool_use'' \<or> an_openToolIdx s = idx))"
    and ty: "ty = block_type (begun cb)" "\<And>i n. cb = ToolUseBlock i n \<Longrightarrow> (i, n) = sp_pending m"
    and tool: "ty = ''tool_use'' \<Longrightarrow> ti_byUpstream (an_toolIdx s) u = Some idx"
  shows "an_agree (ensureBlock fails ty idx s) ((open_block cb m)\<lparr>sp_tool := u\<rparr>)"
proof -
  define s1 where "s1 = an_ensureStarted fails '''' (closeOpenBlock fails s)"
  define m1 where "m1 = begin_message '''' (close_block m)"
  have a1: "an_agree s1 m1" unfolding s1_def m1_def by (intro agree_started agree_close agree)
  have ph: "rd_Phase (sp_reader m1) = Between"
    using agree by (auto simp: m1_def begin_message_def close_block_def close_reader_def an_agree_def split: reader_phase.splits)
  have keep: "an_toolIdx s1 = an_toolIdx s" "sp_pending m1 = sp_pending m"
    by (simp_all add: s1_def m1_def an_ensureStarted_def closeOpenBlock_def an_writeEvent_def begin_message_def close_block_def Let_def)
  have cb: "(if ty = ''text'' then TextBlock else if ty = ''thinking'' then ThinkingBlock
       else ToolUseBlock (an_pendingToolID s1) (an_pendingToolName s1)) = cb"
    using ty a1 by (cases cb) (auto simp: an_agree_def keep)
  have keep_block: "an_pendingToolID (s1\<lparr>an_blockIndex := n\<rparr>) = an_pendingToolID s1"
    "an_pendingToolName (s1\<lparr>an_blockIndex := n\<rparr>) = an_pendingToolName s1" for n by simp_all
  have "ensureBlock fails ty idx s =
      (an_writeEvent fails (BlockStartF (an_blockIndex s1) cb) (s1\<lparr>an_blockIndex := an_blockIndex s1 + 1\<rparr>))\<lparr>an_openType := ty, an_openToolIdx := idx\<rparr>"
    using new by (simp only: ensureBlock_def Let_def s1_def [symmetric] keep_block cb if_False)
  moreover have "open_block cb m = m1\<lparr>sp_reader := (sp_reader m1)\<lparr>rd_Phase := Inside (begun cb)\<rparr>\<rparr>"
    by (simp add: open_block_def m1_def Let_def)
  moreover have "read_all read_frame (frames (an_out s1)) fresh_reader = Some (sp_reader m1)"
    "\<exists>seen. mapper_ok seen (an_toolIdx s1)" "sp_pending m1 = (an_pendingToolID s1, an_pendingToolName s1)"
    "an_started s1" "an_blockIndex s1 = int (length (rd_Blocks (sp_reader m1)))"
    using a1 by (simp_all add: an_agree_def ph)
  ultimately show ?thesis
    using ph ty(1) tool by (simp add: an_agree_def an_writeEvent_def keep)
qed

lemma agree_delta:
  assumes "an_agree s m" "rd_Phase (sp_reader m) = Inside x" "extended d x = Some y"
  shows "an_agree (write_delta fails d s) (extend_block d m)"
proof -
  have "block_type y = block_type x" using assms(3) by (cases "(d, x)" rule: extended.cases) auto
  with assms show ?thesis by (auto simp: an_agree_def write_delta_def extend_block_def an_writeEvent_def)
qed

lemma agree_flags [simp]:
  "an_agree (s\<lparr>an_wroteContent := b\<rparr>) m = an_agree s m"
  "an_agree (s\<lparr>an_sawTerminal := b\<rparr>) m = an_agree s m"
  by (simp_all add: an_agree_def split: reader_phase.splits)

text \<open>A delta of the right kind goes to the open block, or to a new one.\<close>

lemma agree_kind:
  assumes "an_agree s m"
  shows "an_openType s = ''text'' \<longleftrightarrow> in_text m" "an_openType s = ''thinking'' \<longleftrightarrow> in_thinking m"
    "an_openType s = ''tool_use'' \<longleftrightarrow> in_tool m"
  using assms by (auto simp: an_agree_def in_text_def in_thinking_def in_tool_def split: reader_phase.splits content.splits)

lemma open_kind [simp]:
  "rd_Phase (sp_reader (open_block cb m)) = Inside (begun cb)" "sp_pending (open_block cb m) = sp_pending m"
  by (simp_all add: open_block_def begin_message_def close_block_def Let_def)

lemma open_tool: "(open_block cb m)\<lparr>sp_tool := sp_tool m\<rparr> = open_block cb m"
  by (simp add: open_block_def begin_message_def close_block_def Let_def)

lemma agree_open_other:
  assumes "an_agree s m" "an_openType s \<noteq> block_type (begun cb)" "cb = TextBlock \<or> cb = ThinkingBlock"
  shows "an_agree (ensureBlock fails (block_type (begun cb)) 0 s) (open_block cb m)"
  by (subst open_tool [symmetric], rule agree_open [OF assms(1)]) (use assms(2,3) in auto)

lemma agree_text:
  assumes "an_agree s m" defines "m' \<equiv> (if in_text m then m else open_block TextBlock m)"
  shows "an_agree (ensureBlock fails ''text'' 0 s) m' \<and> (\<exists>a. rd_Phase (sp_reader m') = Inside (TextContent a))"
proof (cases "in_text m")
  case True
  with agree_kind(1) [OF assms(1)] assms(1) show ?thesis
    by (auto simp: m'_def ensureBlock_def in_text_def split: reader_phase.splits content.splits)
next
  case False
  with agree_kind(1) [OF assms(1)] agree_open_other [OF assms(1), of TextBlock fails] show ?thesis by (simp add: m'_def)
qed

lemma agree_thinking:
  assumes "an_agree s m" defines "m' \<equiv> (if in_thinking m then m else open_block ThinkingBlock m)"
  shows "an_agree (ensureBlock fails ''thinking'' 0 s) m' \<and> (\<exists>a sg. rd_Phase (sp_reader m') = Inside (ThinkingContent a sg))"
proof (cases "in_thinking m")
  case True
  with agree_kind(2) [OF assms(1)] assms(1) show ?thesis
    by (auto simp: m'_def ensureBlock_def in_thinking_def split: reader_phase.splits content.splits)
next
  case False
  with agree_kind(2) [OF assms(1)] agree_open_other [OF assms(1), of ThinkingBlock fails] show ?thesis by (simp add: m'_def)
qed

lemma agree_tool:
  assumes "an_agree s m" "ti_byUpstream (an_toolIdx s) u = Some idx"
  defines "m' \<equiv> (if in_tool m \<and> sp_tool m = u then m
      else (open_block (ToolUseBlock (fst (sp_pending m)) (snd (sp_pending m))) m)\<lparr>sp_tool := u\<rparr>)"
  shows "an_agree (ensureBlock fails ''tool_use'' idx s) m' \<and> (\<exists>i n a. rd_Phase (sp_reader m') = Inside (ToolUseContent i n a))"
proof -
  obtain seen where seen: "mapper_ok seen (an_toolIdx s)" using assms(1) by (auto simp: an_agree_def)
  have same: "an_openToolIdx s = idx \<longleftrightarrow> sp_tool m = u" if "in_tool m"
  proof -
    have "ti_byUpstream (an_toolIdx s) (sp_tool m) = Some (an_openToolIdx s)"
      using that assms(1) by (auto simp: an_agree_def in_tool_def split: reader_phase.splits content.splits)
    with assms(2) mapper_inj [OF seen] show ?thesis by auto
  qed
  show ?thesis
  proof (cases "in_tool m \<and> sp_tool m = u")
    case True
    with agree_kind(3) [OF assms(1)] same assms(1) show ?thesis
      by (auto simp: m'_def ensureBlock_def in_tool_def split: reader_phase.splits content.splits)
  next
    case False
    then have "\<not> (an_openType s = ''tool_use'' \<and> (''tool_use'' \<noteq> ''tool_use'' \<or> an_openToolIdx s = idx))"
      using agree_kind(3) [OF assms(1)] same by auto
    from agree_open [OF assms(1) this, of "ToolUseBlock (fst (sp_pending m)) (snd (sp_pending m))" u fails] assms(2)
    have "an_agree (ensureBlock fails ''tool_use'' idx s)
        ((open_block (ToolUseBlock (fst (sp_pending m)) (snd (sp_pending m))) m)\<lparr>sp_tool := u\<rparr>)" by simp
    moreover have "m' = (open_block (ToolUseBlock (fst (sp_pending m)) (snd (sp_pending m))) m)\<lparr>sp_tool := u\<rparr>"
      unfolding m'_def using False by (rule if_not_P)
    ultimately show ?thesis by simp
  qed
qed

lemma agree_mapper:
  assumes "an_agree s m"
  shows "an_agree (s\<lparr>an_toolIdx := fst (tool_to u (an_toolIdx s))\<rparr>) m"
proof -
  obtain seen where "mapper_ok seen (an_toolIdx s)" using assms by (auto simp: an_agree_def)
  from tool_to_mapped(2,3) [OF this] assms show ?thesis by (auto simp: an_agree_def split: reader_phase.splits)
qed

lemma agree_pending:
  "an_agree s m \<Longrightarrow> an_agree (s\<lparr>an_pendingToolID := i, an_pendingToolName := n\<rparr>) (m\<lparr>sp_pending := (i, n)\<rparr>)"
  by (simp add: an_agree_def split: reader_phase.splits)

lemma agree_event:
  assumes "an_agree s m"
  shows "an_agree (an_Event fails ev s) (consumed ev m)"
proof (cases "ev_Type ev")
  case EventMessageStart
  then show ?thesis using agree_started [OF assms] by (simp add: an_Event_def consumed_def)
next
  case EventTextDelta
  define m1 where "m1 = (if in_text m then m else open_block TextBlock m)"
  from agree_text [OF assms, of fails] obtain a where
    m1: "an_agree (ensureBlock fails ''text'' 0 s) m1" "rd_Phase (sp_reader m1) = Inside (TextContent a)" unfolding m1_def by blast
  then have "an_agree (if ev_Text ev \<noteq> '''' then (ensureBlock fails ''text'' 0 s)\<lparr>an_wroteContent := True\<rparr> else ensureBlock fails ''text'' 0 s) m1"
    by simp
  from agree_delta [OF this m1(2), of "TextPart (ev_Text ev)"] EventTextDelta show ?thesis
    by (simp add: an_Event_def consumed_def Let_def m1_def [symmetric] del: if_split)
next
  case EventThinkingDelta
  define m1 where "m1 = (if in_thinking m then m else open_block ThinkingBlock m)"
  from agree_thinking [OF assms, of fails] obtain a sg where
    m1: "an_agree (ensureBlock fails ''thinking'' 0 s) m1" "rd_Phase (sp_reader m1) = Inside (ThinkingContent a sg)"
    unfolding m1_def by blast
  define s2 where "s2 = (if ev_Text ev \<noteq> '''' then write_delta fails (ThinkingPart (ev_Text ev)) ((ensureBlock fails ''thinking'' 0 s)\<lparr>an_wroteContent := True\<rparr>)
      else ensureBlock fails ''thinking'' 0 s)"
  define m2 where "m2 = (if ev_Text ev \<noteq> '''' then extend_block (ThinkingPart (ev_Text ev)) m1 else m1)"
  have "an_agree ((ensureBlock fails ''thinking'' 0 s)\<lparr>an_wroteContent := True\<rparr>) m1" using m1(1) by simp
  from agree_delta [OF this m1(2), of "ThinkingPart (ev_Text ev)" _ fails] m1(1) have s2: "an_agree s2 m2" by (simp add: s2_def m2_def)
  have "\<exists>b. rd_Phase (sp_reader m2) = Inside (ThinkingContent b sg)" using m1(2) by (simp add: m2_def extend_block_def)
  then obtain b where "rd_Phase (sp_reader m2) = Inside (ThinkingContent b sg)" ..
  from agree_delta [OF s2 this, of "SignaturePart (ev_Signature ev)" _ fails] s2
  have "an_agree (if ev_Signature ev \<noteq> '''' then write_delta fails (SignaturePart (ev_Signature ev)) s2 else s2)
      (if ev_Signature ev \<noteq> '''' then extend_block (SignaturePart (ev_Signature ev)) m2 else m2)" by simp
  moreover have "an_Event fails ev s = (if ev_Signature ev \<noteq> '''' then write_delta fails (SignaturePart (ev_Signature ev)) s2 else s2)"
    using EventThinkingDelta by (simp add: an_Event_def Let_def s2_def [symmetric] del: if_split)
  moreover have "consumed ev m = (if ev_Signature ev \<noteq> '''' then extend_block (SignaturePart (ev_Signature ev)) m2 else m2)"
    using EventThinkingDelta by (simp add: consumed_def Let_def m1_def [symmetric] m2_def [symmetric] del: if_split)
  ultimately show ?thesis by simp
next
  case EventToolCall
  define s1 where "s1 = (if ev_ToolID ev \<noteq> '''' then s\<lparr>an_pendingToolID := ev_ToolID ev, an_pendingToolName := ev_ToolName ev\<rparr> else s)"
  define m1 where "m1 = (if ev_ToolID ev \<noteq> '''' then m\<lparr>sp_pending := (ev_ToolID ev, ev_ToolName ev)\<rparr> else m)"
  have a1: "an_agree s1 m1" using assms agree_pending by (simp add: s1_def m1_def)
  obtain mp idx where t: "tool_to (ev_ToolIndex ev) (an_toolIdx s1) = (mp, idx)" by fastforce
  have toolIdx: "an_toolIdx s1 = an_toolIdx s" by (simp add: s1_def)
  obtain seen where "mapper_ok seen (an_toolIdx s1)" using a1 by (auto simp: an_agree_def)
  from tool_to_mapped(1) [OF this, of "ev_ToolIndex ev"] t have "ti_byUpstream mp (ev_ToolIndex ev) = Some idx" by simp
  moreover have a2: "an_agree (s1\<lparr>an_toolIdx := mp\<rparr>) m1" using agree_mapper [OF a1, of "ev_ToolIndex ev"] t by simp
  ultimately have "an_agree (ensureBlock fails ''tool_use'' idx (s1\<lparr>an_toolIdx := mp\<rparr>))
       (if in_tool m1 \<and> sp_tool m1 = ev_ToolIndex ev then m1
        else (open_block (ToolUseBlock (fst (sp_pending m1)) (snd (sp_pending m1))) m1)\<lparr>sp_tool := ev_ToolIndex ev\<rparr>) \<and>
      (\<exists>i n a. rd_Phase (sp_reader (if in_tool m1 \<and> sp_tool m1 = ev_ToolIndex ev then m1
        else (open_block (ToolUseBlock (fst (sp_pending m1)) (snd (sp_pending m1))) m1)\<lparr>sp_tool := ev_ToolIndex ev\<rparr>)) =
        Inside (ToolUseContent i n a))"
    by (intro agree_tool) simp_all
  moreover define m2 where "m2 = (if in_tool m1 \<and> sp_tool m1 = ev_ToolIndex ev then m1
        else (open_block (ToolUseBlock (fst (sp_pending m1)) (snd (sp_pending m1))) m1)\<lparr>sp_tool := ev_ToolIndex ev\<rparr>)"
  ultimately obtain i n a where m2: "an_agree (ensureBlock fails ''tool_use'' idx (s1\<lparr>an_toolIdx := mp\<rparr>)) m2"
    "rd_Phase (sp_reader m2) = Inside (ToolUseContent i n a)" by blast
  from m2(1) have "an_agree ((ensureBlock fails ''tool_use'' idx (s1\<lparr>an_toolIdx := mp\<rparr>))\<lparr>an_wroteContent := True\<rparr>) m2" by simp
  from agree_delta [OF this m2(2), of "InputJsonPart (ev_ArgumentsDelta ev)" _ fails]
  have "an_agree (write_delta fails (InputJsonPart (ev_ArgumentsDelta ev)) ((ensureBlock fails ''tool_use'' idx (s1\<lparr>an_toolIdx := mp\<rparr>))\<lparr>an_wroteContent := True\<rparr>))
      (extend_block (InputJsonPart (ev_ArgumentsDelta ev)) m2)" by simp
  moreover have "an_Event fails ev s = write_delta fails (InputJsonPart (ev_ArgumentsDelta ev)) ((ensureBlock fails ''tool_use'' idx (s1\<lparr>an_toolIdx := mp\<rparr>))\<lparr>an_wroteContent := True\<rparr>)"
    using EventToolCall t toolIdx by (simp add: an_Event_def Let_def s1_def [symmetric] del: if_split)
  moreover have "consumed ev m = extend_block (InputJsonPart (ev_ArgumentsDelta ev)) m2"
    using EventToolCall by (simp add: consumed_def Let_def m1_def [symmetric] m2_def [symmetric] del: if_split)
  ultimately show ?thesis by simp
next
  case EventMessageEnd
  then show ?thesis using assms by (simp add: an_Event_def consumed_def)
next
  case EventUnknown
  then show ?thesis using assms by (simp add: an_Event_def consumed_def)
qed

definition silence :: "ident \<Rightarrow> string \<Rightarrow> spoken" where
  "silence i model = \<lparr>sp_reader = fresh_reader, sp_fallbackID = i, sp_model = model, sp_tool = 0, sp_pending = ('''', '''')\<rparr>"

lemma agree_new: "an_agree (NewAnthropicSSE i model) (silence i model)"
proof -
  have "\<exists>seen. mapper_ok seen newToolIndexMapper" using mapper_new by blast
  then show ?thesis by (simp add: an_agree_def NewAnthropicSSE_def silence_def fresh_reader_def)
qed

lemma errors_started: "first_failure fails (an_out s) \<Longrightarrow> first_failure fails (an_out (an_ensureStarted fails i s))"
  by (simp add: an_ensureStarted_def an_writeEvent_def Let_def)

lemma errors_close: "first_failure fails (an_out s) \<Longrightarrow> first_failure fails (an_out (closeOpenBlock fails s))"
  by (simp add: closeOpenBlock_def an_writeEvent_def)

lemma errors_block: "first_failure fails (an_out s) \<Longrightarrow> first_failure fails (an_out (ensureBlock fails ty idx s))"
  using errors_started [OF errors_close, of fails s "''''"] by (simp add: ensureBlock_def an_writeEvent_def Let_def)

lemma errors_event: "first_failure fails (an_out s) \<Longrightarrow> first_failure fails (an_out (an_Event fails ev s))"
  by (auto simp: an_Event_def Let_def write_delta_def an_writeEvent_def intro!: first_failure_write intro: errors_started errors_block
      split: event_type.splits prod.splits)

lemma errors_finish: "first_failure fails (an_out s) \<Longrightarrow> first_failure fails (an_out (an_Finish fails status stop u s))"
  using errors_close [of fails s] errors_started [OF errors_close, of fails s "''''"]
  by (simp add: an_Finish_def an_writeEvent_def Let_def)

interpretation anthropic: stream_sink an_Event an_Keepalive an_out read_frame fresh_reader an_agree consumed "\<lambda>m r. r = sp_reader m"
proof unfold_locales
  show "an_agree s m \<Longrightarrow> an_agree (an_Keepalive fails s) m" for s m fails
    by (simp add: an_agree_def an_Keepalive_def split: reader_phase.splits)
  show "an_agree s m \<Longrightarrow> \<exists>r. read_all read_frame (frames (an_out s)) fresh_reader = Some r \<and> r = sp_reader m" for s m
    by (simp add: an_agree_def)
  show "first_failure fails (an_out s) \<Longrightarrow> first_failure fails (an_out (an_Keepalive fails s))" for fails s
    by (simp add: an_Keepalive_def)
qed (rule agree_event errors_event, assumption)+

text \<open>A whole stream.\<close>

definition an_stream :: "(nat \<Rightarrow> bool) \<Rightarrow> sink_op list \<Rightarrow> anthropicSSE \<Rightarrow> anthropicSSE" where
  "an_stream fails ops s = fold (\<lambda>x s. case x of Deliver e \<Rightarrow> an_Event fails e s | Beat \<Rightarrow> an_Keepalive fails s) ops s"

lemma stream_fold: "an_stream fails ops s = fold (anthropic.apply_op fails) ops s"
  unfolding an_stream_def by (rule fold_cong) (auto simp: anthropic.apply_op_def)

section \<open>What the client ends with\<close>

lemma agree_finish:
  assumes "an_agree s m"
  shows "read_all read_frame (frames (an_out (an_Finish fails ''ok'' stop u s))) fresh_reader =
      Some ((sp_reader (begin_message '''' (close_block m)))\<lparr>rd_Phase := Complete,
        rd_Tail := Some (AnthropicStopReason stop, anthropicUsageFields u (tu_InputTokens u > 0))\<rparr>)"
proof -
  define s1 where "s1 = an_ensureStarted fails '''' (closeOpenBlock fails s)"
  define m1 where "m1 = begin_message '''' (close_block m)"
  have a: "an_agree s1 m1" unfolding s1_def m1_def by (intro agree_started agree_close assms)
  have ph: "rd_Phase (sp_reader m1) = Between"
    using assms by (auto simp: m1_def begin_message_def close_block_def close_reader_def an_agree_def split: reader_phase.splits)
  have "read_all read_frame (frames (an_out s1)) fresh_reader = Some (sp_reader m1)" using a by (simp add: an_agree_def)
  with ph show ?thesis
    by (simp add: an_Finish_def Let_def s1_def [symmetric] m1_def [symmetric] an_writeEvent_def)
qed

lemma agree_broken:
  assumes "an_agree s m" "status \<noteq> ''ok''" "status \<noteq> ''canceled''"
  shows "read_all read_frame (frames (an_out (an_Finish fails status stop u s))) fresh_reader =
      Some ((sp_reader (close_block m))\<lparr>rd_Phase := Failed\<rparr>)"
proof -
  have a: "an_agree (closeOpenBlock fails s) (close_block m)" by (rule agree_close [OF assms(1)])
  have ph: "rd_Phase (sp_reader (close_block m)) = Between \<or> rd_Phase (sp_reader (close_block m)) = Fresh"
    using assms(1) by (auto simp: close_block_def close_reader_def an_agree_def split: reader_phase.splits)
  have "read_all read_frame (frames (an_out (closeOpenBlock fails s))) fresh_reader = Some (sp_reader (close_block m))"
    using a by (simp add: an_agree_def)
  with ph assms(2,3) show ?thesis by (auto simp: an_Finish_def Let_def an_writeEvent_def)
qed

lemma agree_phase: "an_agree s m \<Longrightarrow> rd_Phase (sp_reader m) \<notin> {Ending, Complete, Failed}"
  by (auto simp: an_agree_def)

text \<open>A stream from its first event to its end, and what the client makes of it.\<close>

definition an_reply :: "(nat \<Rightarrow> bool) \<Rightarrow> ident \<Rightarrow> string \<Rightarrow> sink_op list \<Rightarrow> string \<Rightarrow> stop_reason \<Rightarrow> token_usage \<Rightarrow> message_frame out" where
  "an_reply fails i model ops status stop u = an_out (an_Finish fails status stop u (an_stream fails ops (NewAnthropicSSE i model)))"

definition client_reads :: "message_frame out \<Rightarrow> reader option" where
  "client_reads out = read_all read_frame (frames out) fresh_reader"

lemma reply_agree: "an_agree (an_stream fails ops (NewAnthropicSSE i model)) (fold consumed (delivered ops) (silence i model))"
  unfolding stream_fold by (rule anthropic.run_agree [OF agree_new])

text \<open>C23: Whatever the upstream sends and whenever the heartbeat writes, the frames follow the protocol. A stream that ended
  well is a complete message with its stop reason and usage, a broken one ends with the error event, one without a client
  is left as it is; the write error that is reported is the first one.\<close>

theorem anthropic_protocol:
  "\<exists>r. client_reads (an_reply fails i model ops status stop u) = Some r \<and>
     rd_Phase r \<in> (if status = ''ok'' then {Complete} else if status = ''canceled'' then - {Ending, Complete, Failed} else {Failed}) \<and>
     (rd_Tail r = None \<or> rd_Tail r = Some (AnthropicStopReason stop, anthropicUsageFields u (tu_InputTokens u > 0))) \<and>
     first_failure fails (an_reply fails i model ops status stop u)"
proof -
  let ?s = "an_stream fails ops (NewAnthropicSSE i model)" and ?m = "fold consumed (delivered ops) (silence i model)"
  have "first_failure fails (an_out ?s)" unfolding stream_fold by (rule anthropic.run_errors) (simp add: NewAnthropicSSE_def)
  then have err: "first_failure fails (an_reply fails i model ops status stop u)" unfolding an_reply_def by (rule errors_finish)
  have tail: "rd_Tail (sp_reader (consumed e m)) = rd_Tail (sp_reader m)" for e m
    by (auto simp: consumed_def extend_block_def open_block_def begin_message_def close_block_def close_reader_def Let_def
        split: event_type.splits reader_phase.splits option.splits)
  have "rd_Tail (sp_reader (fold consumed es m)) = rd_Tail (sp_reader m)" for es m by (induction es arbitrary: m) (simp_all add: tail)
  then have none: "rd_Tail (sp_reader ?m) = None" by (simp add: silence_def fresh_reader_def)
  have read: "read_all read_frame (frames (an_out ?s)) fresh_reader = Some (sp_reader ?m)"
    using reply_agree by (simp add: an_agree_def)
  consider "status = ''ok''" | "status = ''canceled''" | "status \<noteq> ''ok''" "status \<noteq> ''canceled''" by blast
  then show ?thesis
  proof cases
    case 1
    with agree_finish [OF reply_agree, of fails stop u] err show ?thesis by (simp add: client_reads_def an_reply_def)
  next
    case 2
    with read none agree_phase [OF reply_agree] err show ?thesis by (auto simp: client_reads_def an_reply_def an_Finish_def)
  next
    case 3
    from agree_broken [OF reply_agree this, of fails stop u] none err 3 show ?thesis
      by (auto simp: client_reads_def an_reply_def close_block_def close_reader_def split: reader_phase.splits)
  qed
qed

text \<open>A reply of the upstream as a list of blocks, each sent in any number of pieces.\<close>

datatype reply_block =
    TextReply "string list"
  | ThinkingReply "string list" string
  | ToolReply ident string int "string list"

fun block_events :: "reply_block \<Rightarrow> sdk_event list" where
  "block_events (TextReply ts) = map (\<lambda>t. no_event\<lparr>ev_Type := EventTextDelta, ev_Text := t\<rparr>) ts"
| "block_events (ThinkingReply ts sg) =
     map (\<lambda>t. no_event\<lparr>ev_Type := EventThinkingDelta, ev_Text := t\<rparr>) ts @ [no_event\<lparr>ev_Type := EventThinkingDelta, ev_Signature := sg\<rparr>]"
| "block_events (ToolReply i n u as) =
     no_event\<lparr>ev_Type := EventToolCall, ev_ToolID := i, ev_ToolName := n, ev_ToolIndex := u\<rparr> #
     map (\<lambda>a. no_event\<lparr>ev_Type := EventToolCall, ev_ToolIndex := u, ev_ArgumentsDelta := a\<rparr>) as"

fun block_content :: "reply_block \<Rightarrow> content" where
  "block_content (TextReply ts) = TextContent (concat ts)"
| "block_content (ThinkingReply ts sg) = ThinkingContent (concat ts) sg"
| "block_content (ToolReply i n u as) = ToolUseContent i n (concat as)"

text \<open>Neighbouring blocks must differ in kind or, for tool calls, in their index; otherwise they are one block.\<close>

fun separate :: "reply_block \<Rightarrow> reply_block \<Rightarrow> bool" where
  "separate (TextReply ts) (TextReply us) = False"
| "separate (ThinkingReply ts sg) (ThinkingReply us sh) = False"
| "separate (ToolReply i n u as) (ToolReply j m v bs) = (u \<noteq> v)"
| "separate _ _ = True"

fun well_separated :: "reply_block list \<Rightarrow> bool" where
  "well_separated [] = True"
| "well_separated [b] = True"
| "well_separated (b # c # bs) = (separate b c \<and> well_separated (c # bs))"

definition sendable :: "reply_block \<Rightarrow> bool" where
  "sendable b = (case b of TextReply ts \<Rightarrow> ts \<noteq> [] | ThinkingReply ts sg \<Rightarrow> True | ToolReply i n u as \<Rightarrow> i \<noteq> '''')"

text \<open>The first event of a block starts a new one unless the open block continues.\<close>

definition fits :: "spoken \<Rightarrow> reply_block \<Rightarrow> bool" where
  "fits m b = (case b of TextReply ts \<Rightarrow> \<not> in_text m | ThinkingReply ts sg \<Rightarrow> \<not> in_thinking m
     | ToolReply i n u as \<Rightarrow> \<not> (in_tool m \<and> sp_tool m = u))"

lemma fold_text:
  "rd_Phase (sp_reader m) = Inside (TextContent a) \<Longrightarrow>
   fold consumed (map (\<lambda>t. no_event\<lparr>ev_Type := EventTextDelta, ev_Text := t\<rparr>) ts) m =
     m\<lparr>sp_reader := (sp_reader m)\<lparr>rd_Phase := Inside (TextContent (a @ concat ts))\<rparr>\<rparr>"
proof (induction ts arbitrary: m a)
  case Nil
  then show ?case by (cases m) (cases "sp_reader m", simp)
next
  case (Cons t ts)
  then have "consumed (no_event\<lparr>ev_Type := EventTextDelta, ev_Text := t\<rparr>) m =
      m\<lparr>sp_reader := (sp_reader m)\<lparr>rd_Phase := Inside (TextContent (a @ t))\<rparr>\<rparr>"
    by (simp add: consumed_def in_text_def extend_block_def)
  with Cons.IH [of "m\<lparr>sp_reader := (sp_reader m)\<lparr>rd_Phase := Inside (TextContent (a @ t))\<rparr>\<rparr>" "a @ t"] show ?case by simp
qed

lemma fold_thinking:
  "rd_Phase (sp_reader m) = Inside (ThinkingContent a sg) \<Longrightarrow>
   fold consumed (map (\<lambda>t. no_event\<lparr>ev_Type := EventThinkingDelta, ev_Text := t\<rparr>) ts) m =
     m\<lparr>sp_reader := (sp_reader m)\<lparr>rd_Phase := Inside (ThinkingContent (a @ concat ts) sg)\<rparr>\<rparr>"
proof (induction ts arbitrary: m a)
  case Nil
  then show ?case by (cases m) (cases "sp_reader m", simp)
next
  case (Cons t ts)
  from Cons.prems have "consumed (no_event\<lparr>ev_Type := EventThinkingDelta, ev_Text := t\<rparr>) m =
      m\<lparr>sp_reader := (sp_reader m)\<lparr>rd_Phase := Inside (ThinkingContent (a @ t) sg)\<rparr>\<rparr>"
    by (cases m, cases "sp_reader m") (simp add: consumed_def in_thinking_def extend_block_def no_event_def Let_def)
  with Cons.IH [of "m\<lparr>sp_reader := (sp_reader m)\<lparr>rd_Phase := Inside (ThinkingContent (a @ t) sg)\<rparr>\<rparr>" "a @ t"] show ?case by simp
qed

lemma fold_arguments:
  "rd_Phase (sp_reader m) = Inside (ToolUseContent i n a) \<Longrightarrow> sp_tool m = u \<Longrightarrow>
   fold consumed (map (\<lambda>x. no_event\<lparr>ev_Type := EventToolCall, ev_ToolIndex := u, ev_ArgumentsDelta := x\<rparr>) as) m =
     m\<lparr>sp_reader := (sp_reader m)\<lparr>rd_Phase := Inside (ToolUseContent i n (a @ concat as))\<rparr>\<rparr>"
proof (induction as arbitrary: m a)
  case Nil
  then show ?case by (cases m) (cases "sp_reader m", simp)
next
  case (Cons x as)
  then have "consumed (no_event\<lparr>ev_Type := EventToolCall, ev_ToolIndex := u, ev_ArgumentsDelta := x\<rparr>) m =
      m\<lparr>sp_reader := (sp_reader m)\<lparr>rd_Phase := Inside (ToolUseContent i n (a @ x))\<rparr>\<rparr>"
    by (simp add: consumed_def in_tool_def extend_block_def no_event_def)
  with Cons.IH [of "m\<lparr>sp_reader := (sp_reader m)\<lparr>rd_Phase := Inside (ToolUseContent i n (a @ x))\<rparr>\<rparr>" "a @ x"] Cons.prems show ?case by simp
qed

lemma open_reader: "sp_reader (open_block cb m) = (sp_reader (begin_message '''' (close_block m)))\<lparr>rd_Phase := Inside (begun cb)\<rparr>"
  by (simp add: open_block_def Let_def)

lemma fold_block:
  assumes "sendable b" "fits m b"
  defines "m' \<equiv> fold consumed (block_events b) m"
  shows "sp_reader m' = (sp_reader (begin_message '''' (close_block m)))\<lparr>rd_Phase := Inside (block_content b)\<rparr> \<and>
    (\<forall>i n u as. b = ToolReply i n u as \<longrightarrow> sp_tool m' = u)"
proof (cases b)
  case (TextReply ts)
  with assms(1) obtain t us where ts: "ts = t # us" by (cases ts) (auto simp: sendable_def)
  have "consumed (no_event\<lparr>ev_Type := EventTextDelta, ev_Text := t\<rparr>) m = extend_block (TextPart t) (open_block TextBlock m)"
    using assms(2) TextReply by (simp add: consumed_def fits_def)
  then have m': "m' = fold consumed (map (\<lambda>t. no_event\<lparr>ev_Type := EventTextDelta, ev_Text := t\<rparr>) us) (extend_block (TextPart t) (open_block TextBlock m))"
    by (simp add: m'_def TextReply ts)
  have "rd_Phase (sp_reader (extend_block (TextPart t) (open_block TextBlock m))) = Inside (TextContent t)" by (simp add: extend_block_def)
  from fold_text [OF this, of us] show ?thesis by (simp add: m' TextReply ts extend_block_def open_reader)
next
  case (ThinkingReply ts sg)
  define m1 where "m1 = (if in_thinking m then m else open_block ThinkingBlock m)"
  have m1: "m1 = open_block ThinkingBlock m" using assms(2) ThinkingReply by (simp add: m1_def fits_def)
  have first: "consumed e m = consumed e m1" if "ev_Type e = EventThinkingDelta" for e
    using that assms(2) ThinkingReply by (simp add: m1 consumed_def fits_def in_thinking_def)
  have "fold consumed (block_events b) m = fold consumed (block_events b) m1"
    using first by (cases ts) (simp_all add: ThinkingReply)
  moreover have "rd_Phase (sp_reader m1) = Inside (ThinkingContent '''' '''')" by (simp add: m1)
  note fold_thinking [OF this, of ts]
  ultimately have "m' = consumed (no_event\<lparr>ev_Type := EventThinkingDelta, ev_Signature := sg\<rparr>)
      (m1\<lparr>sp_reader := (sp_reader m1)\<lparr>rd_Phase := Inside (ThinkingContent (concat ts) '''')\<rparr>\<rparr>)"
    by (simp add: m'_def ThinkingReply)
  then show ?thesis
    by (simp add: ThinkingReply m1 consumed_def in_thinking_def extend_block_def open_reader no_event_def Let_def)
next
  case (ToolReply i n u as)
  define m1 where "m1 = (open_block (ToolUseBlock i n) (m\<lparr>sp_pending := (i, n)\<rparr>))\<lparr>sp_tool := u\<rparr>"
  have "consumed (no_event\<lparr>ev_Type := EventToolCall, ev_ToolID := i, ev_ToolName := n, ev_ToolIndex := u\<rparr>) m = extend_block (InputJsonPart '''') m1"
    using assms(1,2) ToolReply by (auto simp: consumed_def fits_def sendable_def m1_def in_tool_def no_event_def Let_def)
  then have m': "m' = fold consumed (map (\<lambda>x. no_event\<lparr>ev_Type := EventToolCall, ev_ToolIndex := u, ev_ArgumentsDelta := x\<rparr>) as)
      (extend_block (InputJsonPart '''') m1)"
    by (simp add: m'_def ToolReply)
  have "rd_Phase (sp_reader (extend_block (InputJsonPart '''') m1)) = Inside (ToolUseContent i n '''')" "sp_tool (extend_block (InputJsonPart '''') m1) = u"
    by (simp_all add: extend_block_def m1_def)
  from fold_arguments [OF this, of as] show ?thesis
    by (simp add: m' ToolReply extend_block_def m1_def open_reader begin_message_def close_block_def)
qed

lemma fold_blocks:
  assumes "well_separated bs" "\<forall>b \<in> set bs. sendable b" "bs \<noteq> [] \<longrightarrow> fits m (hd bs)"
    and "rd_Phase (sp_reader m) \<notin> {Ending, Complete, Failed}"
  shows "sp_reader (begin_message '''' (close_block (fold consumed (concat (map block_events bs)) m))) =
    (sp_reader (begin_message '''' (close_block m)))\<lparr>rd_Blocks := rd_Blocks (sp_reader (begin_message '''' (close_block m))) @ map block_content bs\<rparr>"
  using assms
proof (induction bs arbitrary: m)
  case Nil
  then show ?case by (cases "sp_reader (begin_message '''' (close_block m))") simp
next
  case (Cons b bs)
  define m1 where "m1 = fold consumed (block_events b) m"
  have m1: "sp_reader m1 = (sp_reader (begin_message '''' (close_block m)))\<lparr>rd_Phase := Inside (block_content b)\<rparr>"
    "\<forall>i n u as. b = ToolReply i n u as \<longrightarrow> sp_tool m1 = u"
    using fold_block [of b m] Cons.prems by (simp_all add: m1_def)
  have "fits m1 c" if "bs = c # cs" for c cs
  proof -
    from that Cons.prems have "separate b c" by simp
    then show ?thesis using m1 by (cases b; cases c) (auto simp: fits_def in_text_def in_thinking_def in_tool_def)
  qed
  then have "bs \<noteq> [] \<longrightarrow> fits m1 (hd bs)" by (cases bs) auto
  moreover have "well_separated bs" using Cons.prems(1) by (cases bs) auto
  moreover have "rd_Phase (sp_reader m1) \<notin> {Ending, Complete, Failed}" using m1(1) by simp
  ultimately have IH: "sp_reader (begin_message '''' (close_block (fold consumed (concat (map block_events bs)) m1))) =
      (sp_reader (begin_message '''' (close_block m1)))\<lparr>rd_Blocks := rd_Blocks (sp_reader (begin_message '''' (close_block m1))) @ map block_content bs\<rparr>"
    using Cons.IH Cons.prems(2) by simp
  have between: "rd_Phase (sp_reader (begin_message '''' (close_block m))) = Between"
    using Cons.prems(4) by (simp add: begin_message_def close_block_def close_reader_def split: reader_phase.splits)
  have "sp_reader (begin_message '''' (close_block m1)) = (sp_reader (begin_message '''' (close_block m)))
      \<lparr>rd_Phase := Between, rd_Blocks := rd_Blocks (sp_reader (begin_message '''' (close_block m))) @ [block_content b]\<rparr>"
    using m1(1) by (simp add: begin_message_def close_block_def close_reader_def)
  moreover have "r\<lparr>rd_Phase := Between\<rparr> = r" if "rd_Phase r = Between" for r using that by (cases r) simp
  ultimately show ?case using IH between by (simp add: m1_def)
qed


definition demo_tokens :: token_usage where
  "demo_tokens = \<lparr>tu_InputTokens = 100, tu_OutputTokens = 7, tu_TotalTokens = 107, tu_ReasoningTokens = 0,
     tu_CachedInputTokens = 60, tu_CachedCreationTokens = 10\<rparr>"


text \<open>When the pieces of two tool calls alternate, the third piece opens another block with the identifier and name of the
  second call, and the arguments of the first are split.\<close>

lemma interleaved_tools_split:
  "\<exists>r. client_reads (an_reply (\<lambda>_. False) ''msg_1'' ''m'' (map Deliver
       [no_event\<lparr>ev_Type := EventToolCall, ev_ToolID := ''t1'', ev_ToolName := ''ls'', ev_ToolIndex := 0, ev_ArgumentsDelta := ''{''\<rparr>,
        no_event\<lparr>ev_Type := EventToolCall, ev_ToolID := ''t2'', ev_ToolName := ''ps'', ev_ToolIndex := 1, ev_ArgumentsDelta := ''{''\<rparr>,
        no_event\<lparr>ev_Type := EventToolCall, ev_ToolIndex := 0, ev_ArgumentsDelta := ''}''\<rparr>])
     ''ok'' StopToolUse demo_tokens) = Some r \<and>
     rd_Blocks r = [ToolUseContent ''t1'' ''ls'' ''{'', ToolUseContent ''t2'' ''ps'' ''{'', ToolUseContent ''t2'' ''ps'' ''}'']"
  by (simp add: client_reads_def an_reply_def agree_finish [OF reply_agree])
    (simp add: silence_def fresh_reader_def consumed_def in_tool_def open_block_def begin_message_def close_block_def close_reader_def
      extend_block_def no_event_def Let_def)

section \<open>The complete object\<close>

text \<open>A content block of the SDK's reply; \<open>None\<close> of the signature is a field left out.\<close>

record reply_part =
  rp_Type :: block_type
  rp_Text :: string
  rp_Thinking :: string
  rp_Signature :: string
  rp_ToolCallID :: ident
  rp_ToolName :: string
  rp_Arguments :: string
  rp_ReasoningID :: ident
  rp_Sealed :: string
  rp_SealedBy :: string

record sdk_response =
  sr_ID :: ident
  sr_Content :: "reply_part list"
  sr_StopReason :: stop_reason
  sr_Usage :: token_usage

datatype anthropic_content =
    TextPartC string | ThinkingPartC string "string option" | RedactedPartC string | ToolUsePartC ident string string

record anthropic_message =
  am_id :: ident
  am_model :: string
  am_content :: "anthropic_content list"
  am_stop_reason :: string
  am_usage :: anthropic_usage

definition anthropicToolInput :: "string \<Rightarrow> string" where
  "anthropicToolInput args =
     (let trimmed = trim_space args in
      if trimmed = '''' then ''{}''
      else (case Unmarshal trimmed of Some (JObj kvs) \<Rightarrow> trimmed | _ \<Rightarrow> ''{}''))"

definition anthropic_part :: "reply_part \<Rightarrow> anthropic_content list" where
  "anthropic_part b =
     (case rp_Type b of
        BlockText \<Rightarrow> [TextPartC (rp_Text b)]
      | BlockThinking \<Rightarrow> [ThinkingPartC (rp_Thinking b) (if rp_Signature b \<noteq> '''' then Some (rp_Signature b) else None)]
      | BlockRedactedThinking \<Rightarrow> [RedactedPartC (rp_Thinking b)]
      | BlockToolCall \<Rightarrow> [ToolUsePartC (rp_ToolCallID b) (rp_ToolName b) (anthropicToolInput (rp_Arguments b))]
      | _ \<Rightarrow> [])"

text \<open>\<open>generated\<close> is the id made from the clock.\<close>

definition WriteAnthropicResponse :: "ident \<Rightarrow> sdk_response \<Rightarrow> string \<Rightarrow> anthropic_message" where
  "WriteAnthropicResponse generated resp model =
     \<lparr>am_id = (if sr_ID resp = '''' then generated else sr_ID resp), am_model = model,
      am_content = concat (map anthropic_part (sr_Content resp)), am_stop_reason = AnthropicStopReason (sr_StopReason resp),
      am_usage = anthropicUsageFields (sr_Usage resp) True\<rparr>"

definition is_object :: "string \<Rightarrow> bool" where
  "is_object t = (case Unmarshal t of Some (JObj kvs) \<Rightarrow> True | _ \<Rightarrow> False)"

lemma tool_input_object: "is_object (anthropicToolInput args)"
proof -
  have "Unmarshal ''{}'' = Some (JObj [])" by code_simp
  then show ?thesis by (simp add: is_object_def anthropicToolInput_def Let_def split: option.splits json.splits)
qed

text \<open>Whatever the upstream returned as arguments, the input of every tool call in the object is the text of a JSON object, so
  that the body can be encoded; texts and tool calls keep their order.\<close>

theorem anthropic_tool_inputs:
  "list_all (\<lambda>c. case c of ToolUsePartC i n a \<Rightarrow> is_object a | _ \<Rightarrow> True) (am_content (WriteAnthropicResponse generated resp model)) \<and>
   concat (map (\<lambda>c. case c of TextPartC t \<Rightarrow> [t] | _ \<Rightarrow> []) (am_content (WriteAnthropicResponse generated resp model))) =
     map rp_Text (filter (\<lambda>b. rp_Type b = BlockText) (sr_Content resp)) \<and>
   concat (map (\<lambda>c. case c of ToolUsePartC i n a \<Rightarrow> [(i, n)] | _ \<Rightarrow> []) (am_content (WriteAnthropicResponse generated resp model))) =
     map (\<lambda>b. (rp_ToolCallID b, rp_ToolName b)) (filter (\<lambda>b. rp_Type b = BlockToolCall) (sr_Content resp))"
proof -
  have "list_all (\<lambda>c. case c of ToolUsePartC i n a \<Rightarrow> is_object a | _ \<Rightarrow> True) (concat (map anthropic_part bs)) \<and>
      concat (map (\<lambda>c. case c of TextPartC t \<Rightarrow> [t] | _ \<Rightarrow> []) (concat (map anthropic_part bs))) =
        map rp_Text (filter (\<lambda>b. rp_Type b = BlockText) bs) \<and>
      concat (map (\<lambda>c. case c of ToolUsePartC i n a \<Rightarrow> [(i, n)] | _ \<Rightarrow> []) (concat (map anthropic_part bs))) =
        map (\<lambda>b. (rp_ToolCallID b, rp_ToolName b)) (filter (\<lambda>b. rp_Type b = BlockToolCall) bs)" for bs
    by (induction bs) (auto simp: anthropic_part_def tool_input_object split: block_type.splits)
  then show ?thesis by (simp add: WriteAnthropicResponse_def)
qed

end
