(* ===== verification/Chat.thy ===== *)
theory Chat
  imports Sinks
begin

text \<open>
  \<^verbatim>\<open>internal/outwire/openai_chat.go\<close> and the sink of \<^verbatim>\<open>sink.go\<close>: replies in the format of OpenAI chat completions, as a
  stream of chunks and as one object. What the SDK's methods \<open>Text\<close>, \<open>ThinkingText\<close> and \<open>ToolCalls\<close> return is the
  record \<open>chat_response\<close>.
\<close>

section \<open>Chunks\<close>

record chat_usage =
  cu_prompt_tokens :: int
  cu_completion_tokens :: int
  cu_total_tokens :: int
  cu_cached_tokens :: "int option"
  cu_reasoning_tokens :: "int option"

text \<open>\<open>ToolDelta index id name arguments\<close>; an empty id or name is left out of the chunk.\<close>

datatype chat_delta =
    RoleDelta | ContentDelta string | ReasoningDelta string | ToolDelta int "ident option" "string option" string | EmptyDelta

datatype chat_frame = ChunkF ident string chat_delta "string option" | UsageF ident string chat_usage | DoneF

definition chat_usage_of :: "token_usage \<Rightarrow> chat_usage" where
  "chat_usage_of u = \<lparr>cu_prompt_tokens = tu_InputTokens u, cu_completion_tokens = tu_OutputTokens u, cu_total_tokens = tu_TotalTokens u,
     cu_cached_tokens = (if tu_CachedInputTokens u > 0 then Some (tu_CachedInputTokens u) else None),
     cu_reasoning_tokens = (if tu_ReasoningTokens u > 0 then Some (tu_ReasoningTokens u) else None)\<rparr>"

definition OpenAIFinishReason :: "stop_reason \<Rightarrow> string" where
  "OpenAIFinishReason s =
     (case s of StopLength \<Rightarrow> ''length'' | StopToolUse \<Rightarrow> ''tool_calls'' | StopContentFilter \<Rightarrow> ''content_filter'' | _ \<Rightarrow> ''stop'')"

section \<open>The writer\<close>

text \<open>The operations return whether the write succeeded, where the code returns an error.\<close>

record SSEWriter =
  sw_out :: "chat_frame out"
  sw_id :: ident
  sw_model :: string
  sw_roleSent :: bool

definition NewSSEWriter :: "ident \<Rightarrow> string \<Rightarrow> SSEWriter" where
  "NewSSEWriter i model = \<lparr>sw_out = empty_out, sw_id = i, sw_model = model, sw_roleSent = False\<rparr>"

definition SetResponseID :: "ident \<Rightarrow> SSEWriter \<Rightarrow> SSEWriter" where
  "SetResponseID i w = (if sw_roleSent w \<or> i = '''' then w else w\<lparr>sw_id := i\<rparr>)"

definition sw_writeEvent :: "(nat \<Rightarrow> bool) \<Rightarrow> chat_frame sse \<Rightarrow> SSEWriter \<Rightarrow> SSEWriter \<times> bool" where
  "sw_writeEvent fails f w = (w\<lparr>sw_out := write_sse fails f (sw_out w)\<rparr>, \<not> fails (length (ot_Written (sw_out w))))"

definition WriteComment :: "(nat \<Rightarrow> bool) \<Rightarrow> string \<Rightarrow> SSEWriter \<Rightarrow> SSEWriter \<times> bool" where
  "WriteComment fails t w = sw_writeEvent fails (Comment t) w"

definition writeChunk :: "(nat \<Rightarrow> bool) \<Rightarrow> chat_delta \<Rightarrow> string option \<Rightarrow> SSEWriter \<Rightarrow> SSEWriter \<times> bool" where
  "writeChunk fails d fin w = sw_writeEvent fails (Frame (ChunkF (sw_id w) (sw_model w) d fin)) w"

definition ensureRole :: "(nat \<Rightarrow> bool) \<Rightarrow> SSEWriter \<Rightarrow> SSEWriter \<times> bool" where
  "ensureRole fails w = (if sw_roleSent w then (w, True) else writeChunk fails RoleDelta None (w\<lparr>sw_roleSent := True\<rparr>))"

definition after_role :: "(nat \<Rightarrow> bool) \<Rightarrow> chat_delta \<Rightarrow> string option \<Rightarrow> SSEWriter \<Rightarrow> SSEWriter \<times> bool" where
  "after_role fails d fin w = (case ensureRole fails w of (w, ok) \<Rightarrow> if \<not> ok then (w, False) else writeChunk fails d fin w)"

definition WriteTextDelta :: "(nat \<Rightarrow> bool) \<Rightarrow> string \<Rightarrow> SSEWriter \<Rightarrow> SSEWriter \<times> bool" where
  "WriteTextDelta fails t = after_role fails (ContentDelta t) None"

definition WriteThinkingDelta :: "(nat \<Rightarrow> bool) \<Rightarrow> string \<Rightarrow> SSEWriter \<Rightarrow> SSEWriter \<times> bool" where
  "WriteThinkingDelta fails t = after_role fails (ReasoningDelta t) None"

definition nonempty :: "string \<Rightarrow> string option" where
  "nonempty s = (if s \<noteq> '''' then Some s else None)"

definition WriteToolCallDelta :: "(nat \<Rightarrow> bool) \<Rightarrow> int \<Rightarrow> ident \<Rightarrow> string \<Rightarrow> string \<Rightarrow> SSEWriter \<Rightarrow> SSEWriter \<times> bool" where
  "WriteToolCallDelta fails index i name argsDelta = after_role fails (ToolDelta index (nonempty i) (nonempty name) argsDelta) None"

definition WriteFinish :: "(nat \<Rightarrow> bool) \<Rightarrow> string \<Rightarrow> SSEWriter \<Rightarrow> SSEWriter \<times> bool" where
  "WriteFinish fails reason = after_role fails EmptyDelta (Some reason)"

definition WriteUsage :: "(nat \<Rightarrow> bool) \<Rightarrow> token_usage \<Rightarrow> SSEWriter \<Rightarrow> SSEWriter \<times> bool" where
  "WriteUsage fails u w = sw_writeEvent fails (Frame (UsageF (sw_id w) (sw_model w) (chat_usage_of u))) w"

definition WriteDone :: "(nat \<Rightarrow> bool) \<Rightarrow> SSEWriter \<Rightarrow> SSEWriter \<times> bool" where
  "WriteDone fails w = sw_writeEvent fails (Frame DoneF) w"

section \<open>The sink\<close>

record openaiSink =
  oa_sse :: SSEWriter
  oa_wroteContent :: bool
  oa_sawTerminal :: bool
  oa_toolIdx :: toolIndexMapper

definition NewOpenAISink :: "SSEWriter \<Rightarrow> openaiSink" where
  "NewOpenAISink w = \<lparr>oa_sse = w, oa_wroteContent = False, oa_sawTerminal = False, oa_toolIdx = newToolIndexMapper\<rparr>"

definition oa_do :: "(SSEWriter \<Rightarrow> SSEWriter \<times> bool) \<Rightarrow> openaiSink \<Rightarrow> openaiSink" where
  "oa_do f s = s\<lparr>oa_sse := fst (f (oa_sse s))\<rparr>"

definition oa_Event :: "(nat \<Rightarrow> bool) \<Rightarrow> sdk_event \<Rightarrow> openaiSink \<Rightarrow> openaiSink" where
  "oa_Event fails ev s =
     (case ev_Type ev of
        EventMessageStart \<Rightarrow> s\<lparr>oa_sse := SetResponseID (ev_ID ev) (oa_sse s)\<rparr>
      | EventTextDelta \<Rightarrow>
          (let s = (if ev_Text ev \<noteq> '''' then s\<lparr>oa_wroteContent := True\<rparr> else s) in oa_do (WriteTextDelta fails (ev_Text ev)) s)
      | EventThinkingDelta \<Rightarrow>
          (if ev_Text ev \<noteq> '''' then oa_do (WriteThinkingDelta fails (ev_Text ev)) (s\<lparr>oa_wroteContent := True\<rparr>) else s)
      | EventToolCall \<Rightarrow>
          (let (m, idx) = tool_to (ev_ToolIndex ev) (oa_toolIdx s);
               s = s\<lparr>oa_wroteContent := True, oa_toolIdx := m\<rparr>
           in oa_do (WriteToolCallDelta fails idx (ev_ToolID ev) (ev_ToolName ev) (ev_ArgumentsDelta ev)) s)
      | EventMessageEnd \<Rightarrow> s\<lparr>oa_sawTerminal := True\<rparr>
      | EventUnknown \<Rightarrow> s)"

definition oa_Keepalive :: "(nat \<Rightarrow> bool) \<Rightarrow> openaiSink \<Rightarrow> openaiSink" where
  "oa_Keepalive fails s = oa_do (WriteComment fails ''keepalive'') s"

definition oa_Finish :: "(nat \<Rightarrow> bool) \<Rightarrow> string \<Rightarrow> stop_reason \<Rightarrow> token_usage \<Rightarrow> bool \<Rightarrow> openaiSink \<Rightarrow> openaiSink" where
  "oa_Finish fails status stop usage sendUsage s =
     (let s = (if status = ''ok'' then oa_do (WriteFinish fails (OpenAIFinishReason stop)) s else s);
          s = (if sendUsage \<and> (tu_InputTokens usage > 0 \<or> tu_OutputTokens usage > 0) then oa_do (WriteUsage fails usage) s else s)
      in if status = ''ok'' then oa_do (WriteDone fails) s else s)"

section \<open>The complete object\<close>

record chat_tool =
  ct_ID :: ident
  ct_Name :: string
  ct_Arguments :: string

record chat_response =
  cr_ID :: ident
  cr_Text :: string
  cr_ThinkingText :: string
  cr_ToolCalls :: "chat_tool list"
  cr_StopReason :: stop_reason
  cr_Usage :: token_usage

record OpenAIChatResponse =
  oc_ID :: ident
  oc_Model :: string
  oc_Content :: "string option"
  oc_ReasoningContent :: string
  oc_ToolCalls :: "chat_tool list"
  oc_FinishReason :: string
  oc_Usage :: chat_usage

text \<open>\<open>None\<close> is the explicit \<open>null\<close>.\<close>

definition WriteNonStreamResponse :: "chat_response \<Rightarrow> string \<Rightarrow> OpenAIChatResponse" where
  "WriteNonStreamResponse resp model =
     (let msg = \<lparr>oc_ID = cr_ID resp, oc_Model = model, oc_Content = Some (cr_Text resp), oc_ReasoningContent = cr_ThinkingText resp,
        oc_ToolCalls = [], oc_FinishReason = OpenAIFinishReason (cr_StopReason resp), oc_Usage = chat_usage_of (cr_Usage resp)\<rparr> in
      if length (cr_ToolCalls resp) > 0
      then (let msg = msg\<lparr>oc_ToolCalls := cr_ToolCalls resp\<rparr> in if length (cr_Text resp) = 0 then msg\<lparr>oc_Content := None\<rparr> else msg)
      else msg)"

section \<open>The client\<close>

text \<open>A client of the stream merges the chunks: all have one id and model, the role comes first, a tool call is merged into
  the place its index names, and places are never skipped.\<close>

record chat_reader =
  rc_Head :: "(ident \<times> string) option"
  rc_Role :: bool
  rc_Text :: string
  rc_Reasoning :: string
  rc_Tools :: "chat_tool list"
  rc_Finish :: "string option"
  rc_Usage :: "chat_usage option"
  rc_Done :: bool

definition fresh_chat :: chat_reader where
  "fresh_chat = \<lparr>rc_Head = None, rc_Role = False, rc_Text = '''', rc_Reasoning = '''', rc_Tools = [], rc_Finish = None,
     rc_Usage = None, rc_Done = False\<rparr>"

definition merge_tool :: "ident option \<Rightarrow> string option \<Rightarrow> string \<Rightarrow> chat_tool \<Rightarrow> chat_tool" where
  "merge_tool i n a t = \<lparr>ct_ID = (case i of Some x \<Rightarrow> x | None \<Rightarrow> ct_ID t), ct_Name = (case n of Some x \<Rightarrow> x | None \<Rightarrow> ct_Name t),
     ct_Arguments = ct_Arguments t @ a\<rparr>"

definition no_tool :: chat_tool where
  "no_tool = \<lparr>ct_ID = '''', ct_Name = '''', ct_Arguments = ''''\<rparr>"

definition merge_at :: "int \<Rightarrow> (chat_tool \<Rightarrow> chat_tool) \<Rightarrow> chat_tool list \<Rightarrow> chat_tool list option" where
  "merge_at idx f ts =
     (if idx < 0 then None else if nat idx < length ts then Some (ts[nat idx := f (ts ! nat idx)])
      else if nat idx = length ts then Some (ts @ [f no_tool]) else None)"

fun read_delta :: "chat_delta \<Rightarrow> chat_reader \<Rightarrow> chat_reader option" where
  "read_delta RoleDelta r = (if rc_Role r then None else Some (r\<lparr>rc_Role := True\<rparr>))"
| "read_delta (ContentDelta t) r = (if rc_Role r then Some (r\<lparr>rc_Text := rc_Text r @ t\<rparr>) else None)"
| "read_delta (ReasoningDelta t) r = (if rc_Role r then Some (r\<lparr>rc_Reasoning := rc_Reasoning r @ t\<rparr>) else None)"
| "read_delta (ToolDelta idx i n a) r =
     (if rc_Role r then map_option (\<lambda>ts. r\<lparr>rc_Tools := ts\<rparr>) (merge_at idx (merge_tool i n a) (rc_Tools r)) else None)"
| "read_delta EmptyDelta r = (if rc_Role r then Some r else None)"

fun read_chunk :: "chat_frame \<Rightarrow> chat_reader \<Rightarrow> chat_reader option" where
  "read_chunk (ChunkF i m d fin) r =
     (if (rc_Head r = None \<or> rc_Head r = Some (i, m)) \<and> rc_Finish r = None \<and> rc_Usage r = None \<and> \<not> rc_Done r \<and>
        (fin \<noteq> None \<longleftrightarrow> d = EmptyDelta)
      then map_option (\<lambda>r. r\<lparr>rc_Head := Some (i, m), rc_Finish := fin\<rparr>) (read_delta d r) else None)"
| "read_chunk (UsageF i m u) r =
     (if (rc_Head r = None \<or> rc_Head r = Some (i, m)) \<and> rc_Usage r = None \<and> \<not> rc_Done r
      then Some (r\<lparr>rc_Head := Some (i, m), rc_Usage := Some u\<rparr>) else None)"
| "read_chunk DoneF r = (if rc_Finish r \<noteq> None \<and> \<not> rc_Done r then Some (r\<lparr>rc_Done := True\<rparr>) else None)"

section \<open>The sink refines its specification\<close>

record chat_spoken =
  cp_reader :: chat_reader
  cp_id :: ident
  cp_model :: string
  cp_seen :: "int list"

text \<open>Something is written: the role has been announced, under the id known by then.\<close>

definition say :: "(chat_reader \<Rightarrow> chat_reader) \<Rightarrow> chat_spoken \<Rightarrow> chat_spoken" where
  "say f m = m\<lparr>cp_reader := f ((cp_reader m)\<lparr>rc_Head := Some (cp_id m, cp_model m), rc_Role := True\<rparr>)\<rparr>"

fun place :: "'a \<Rightarrow> 'a list \<Rightarrow> nat" where
  "place x [] = 0"
| "place x (y # ys) = (if x = y then 0 else Suc (place x ys))"

definition tool_said :: "int \<Rightarrow> (chat_tool \<Rightarrow> chat_tool) \<Rightarrow> chat_spoken \<Rightarrow> chat_spoken" where
  "tool_said u f m =
     (if u \<in> set (cp_seen m)
      then say (\<lambda>r. r\<lparr>rc_Tools := (rc_Tools r)[place u (cp_seen m) := f (rc_Tools r ! place u (cp_seen m))]\<rparr>) m
      else (say (\<lambda>r. r\<lparr>rc_Tools := rc_Tools r @ [f no_tool]\<rparr>) m)\<lparr>cp_seen := cp_seen m @ [u]\<rparr>)"

definition chat_consumed :: "sdk_event \<Rightarrow> chat_spoken \<Rightarrow> chat_spoken" where
  "chat_consumed ev m =
     (case ev_Type ev of
        EventMessageStart \<Rightarrow> if rc_Role (cp_reader m) \<or> ev_ID ev = '''' then m else m\<lparr>cp_id := ev_ID ev\<rparr>
      | EventTextDelta \<Rightarrow> say (\<lambda>r. r\<lparr>rc_Text := rc_Text r @ ev_Text ev\<rparr>) m
      | EventThinkingDelta \<Rightarrow> if ev_Text ev \<noteq> '''' then say (\<lambda>r. r\<lparr>rc_Reasoning := rc_Reasoning r @ ev_Text ev\<rparr>) m else m
      | EventToolCall \<Rightarrow>
          tool_said (ev_ToolIndex ev) (merge_tool (nonempty (ev_ToolID ev)) (nonempty (ev_ToolName ev)) (ev_ArgumentsDelta ev)) m
      | _ \<Rightarrow> m)"

definition oa_agree :: "openaiSink \<Rightarrow> chat_spoken \<Rightarrow> bool" where
  "oa_agree s m \<longleftrightarrow>
     (ot_WriteErr (sw_out (oa_sse s)) = None \<longrightarrow> read_all read_chunk (frames (sw_out (oa_sse s))) fresh_chat = Some (cp_reader m)) \<and>
     sw_roleSent (oa_sse s) = rc_Role (cp_reader m) \<and> sw_id (oa_sse s) = cp_id m \<and> sw_model (oa_sse s) = cp_model m \<and>
     mapper_ok (cp_seen m) (oa_toolIdx s) \<and> length (rc_Tools (cp_reader m)) = length (cp_seen m) \<and>
     rc_Head (cp_reader m) = (if rc_Role (cp_reader m) then Some (cp_id m, cp_model m) else None) \<and>
     rc_Finish (cp_reader m) = None \<and> rc_Usage (cp_reader m) = None \<and> \<not> rc_Done (cp_reader m)"

lemma place_index: "u \<in> set us \<Longrightarrow> place u us < length us \<and> us ! place u us = u"
  by (induction us) auto

lemma after_role_fields [simp]:
  "sw_roleSent (fst (after_role fails d fin w)) = True" "sw_id (fst (after_role fails d fin w)) = sw_id w"
  "sw_model (fst (after_role fails d fin w)) = sw_model w"
  by (simp_all add: after_role_def ensureRole_def writeChunk_def sw_writeEvent_def split: prod.splits)

lemma after_role_written:
  assumes "ot_WriteErr (sw_out (fst (after_role fails d fin w))) = None"
  shows "ot_WriteErr (sw_out w) = None"
    and "frames (sw_out (fst (after_role fails d fin w))) = frames (sw_out w) @
      (if sw_roleSent w then [] else [ChunkF (sw_id w) (sw_model w) RoleDelta None]) @ [ChunkF (sw_id w) (sw_model w) d fin]"
  using assms by (auto simp: after_role_def ensureRole_def writeChunk_def sw_writeEvent_def write_ok split: if_splits)

text \<open>A chunk that the client merges with \<open>f\<close>.\<close>

lemma agree_say:
  assumes "oa_agree s m" and d: "d \<noteq> EmptyDelta"
    and f: "\<And>r. rc_Role r \<Longrightarrow> rc_Tools r = rc_Tools (cp_reader m) \<Longrightarrow> read_delta d r = Some (f r)"
    and keep: "\<And>r. rc_Role (f r) = rc_Role r \<and> rc_Head (f r) = rc_Head r \<and> rc_Finish (f r) = rc_Finish r \<and>
        rc_Usage (f r) = rc_Usage r \<and> rc_Done (f r) = rc_Done r"
    and tools: "length (rc_Tools (cp_reader (say f m))) = length seen" "mapper_ok seen mp"
  shows "oa_agree (oa_do (after_role fails d None) (s\<lparr>oa_wroteContent := b, oa_toolIdx := mp\<rparr>)) ((say f m)\<lparr>cp_seen := seen\<rparr>)"
proof -
  define w where "w = oa_sse s"
  define r where "r = (cp_reader m)\<lparr>rc_Head := Some (cp_id m, cp_model m), rc_Role := True\<rparr>"
  have fr: "(f r)\<lparr>rc_Head := Some (cp_id m, cp_model m), rc_Finish := None\<rparr> = f r"
    using keep [of r] assms(1) by (cases "f r") (simp add: r_def oa_agree_def)
  have "read_all read_chunk (frames (sw_out (fst (after_role fails d None w)))) fresh_chat = Some (f r)"
    if "ot_WriteErr (sw_out (fst (after_role fails d None w))) = None"
  proof -
    have "read_all read_chunk (frames (sw_out w)) fresh_chat = Some (cp_reader m)"
      using after_role_written(1) [OF that] assms(1) by (simp add: oa_agree_def w_def)
    moreover have "read_chunk (ChunkF (cp_id m) (cp_model m) RoleDelta None) (cp_reader m) = Some r" if "\<not> rc_Role (cp_reader m)"
      using that assms(1) by (cases "cp_reader m") (simp add: oa_agree_def r_def)
    moreover have "r = cp_reader m" if "rc_Role (cp_reader m)"
      using that assms(1) by (cases "cp_reader m") (simp add: oa_agree_def r_def)
    moreover have "read_chunk (ChunkF (cp_id m) (cp_model m) d None) r = Some (f r)"
      using f [of r] fr d assms(1) by (simp add: r_def oa_agree_def)
    ultimately show ?thesis
      using after_role_written(2) [OF that] assms(1) by (cases "rc_Role (cp_reader m)") (simp_all add: oa_agree_def w_def)
  qed
  with assms(1) tools keep [of r] show ?thesis
    by (simp add: oa_agree_def oa_do_def w_def say_def r_def)
qed

lemma sink_same: "s\<lparr>oa_toolIdx := oa_toolIdx s\<rparr> = s" "s\<lparr>oa_wroteContent := oa_wroteContent s\<rparr> = s" for s :: openaiSink
  by simp_all

lemma agree_say_plain:
  assumes "oa_agree s m" "d \<noteq> EmptyDelta"
    and "\<And>r. rc_Role r \<Longrightarrow> read_delta d r = Some (f r)"
    and "\<And>r. rc_Role (f r) = rc_Role r \<and> rc_Head (f r) = rc_Head r \<and> rc_Finish (f r) = rc_Finish r \<and>
        rc_Usage (f r) = rc_Usage r \<and> rc_Done (f r) = rc_Done r \<and> rc_Tools (f r) = rc_Tools r"
  shows "oa_agree (oa_do (after_role fails d None) (s\<lparr>oa_wroteContent := b\<rparr>)) (say f m)"
proof -
  have "length (rc_Tools (cp_reader (say f m))) = length (cp_seen m)" "mapper_ok (cp_seen m) (oa_toolIdx s)"
    using assms(1,4) by (simp_all add: say_def oa_agree_def)
  then have "oa_agree (oa_do (after_role fails d None) (s\<lparr>oa_wroteContent := b, oa_toolIdx := oa_toolIdx s\<rparr>)) ((say f m)\<lparr>cp_seen := cp_seen m\<rparr>)"
    by (intro agree_say [OF assms(1,2)]) (use assms(3,4) in simp_all)
  moreover have "s\<lparr>oa_wroteContent := b, oa_toolIdx := oa_toolIdx s\<rparr> = s\<lparr>oa_wroteContent := b\<rparr>" by simp
  moreover have "(say f m)\<lparr>cp_seen := cp_seen m\<rparr> = say f m" by (simp add: say_def)
  ultimately show ?thesis by simp
qed

lemma agree_tool_said:
  assumes "oa_agree s m"
  shows "oa_agree (oa_do (after_role fails (ToolDelta (snd (tool_to u (oa_toolIdx s))) i n a) None)
      (s\<lparr>oa_wroteContent := b, oa_toolIdx := fst (tool_to u (oa_toolIdx s))\<rparr>)) (tool_said u (merge_tool i n a) m)"
proof (cases "u \<in> set (cp_seen m)")
  case True
  define k where "k = place u (cp_seen m)"
  have k: "k < length (cp_seen m)" "cp_seen m ! k = u" using place_index [OF True] by (simp_all add: k_def)
  have ok: "mapper_ok (cp_seen m) (oa_toolIdx s)" "length (rc_Tools (cp_reader m)) = length (cp_seen m)"
    using assms by (simp_all add: oa_agree_def)
  let ?f = "\<lambda>r :: chat_reader. r\<lparr>rc_Tools := (rc_Tools r)[k := merge_tool i n a (rc_Tools r ! k)]\<rparr>"
  have "oa_agree (oa_do (after_role fails (ToolDelta (int k) i n a) None) (s\<lparr>oa_wroteContent := b, oa_toolIdx := oa_toolIdx s\<rparr>))
      ((say ?f m)\<lparr>cp_seen := cp_seen m\<rparr>)"
    by (rule agree_say [OF assms]) (use ok k in \<open>simp_all add: merge_at_def say_def\<close>)
  moreover have "(say ?f m)\<lparr>cp_seen := cp_seen m\<rparr> = tool_said u (merge_tool i n a) m" using True by (simp add: tool_said_def k_def say_def)
  ultimately show ?thesis using tool_to_seen [OF ok(1) k(1)] k(2) by simp
next
  case False
  have ok: "mapper_ok (cp_seen m) (oa_toolIdx s)" "length (rc_Tools (cp_reader m)) = length (cp_seen m)"
    using assms by (simp_all add: oa_agree_def)
  note new = tool_to_new [OF ok(1) False]
  let ?f = "\<lambda>r :: chat_reader. r\<lparr>rc_Tools := rc_Tools r @ [merge_tool i n a no_tool]\<rparr>"
  have "oa_agree (oa_do (after_role fails (ToolDelta (int (length (cp_seen m))) i n a) None)
      (s\<lparr>oa_wroteContent := b, oa_toolIdx := fst (tool_to u (oa_toolIdx s))\<rparr>)) ((say ?f m)\<lparr>cp_seen := cp_seen m @ [u]\<rparr>)"
    by (rule agree_say [OF assms]) (use ok new in \<open>simp_all add: merge_at_def say_def\<close>)
  then show ?thesis using False new(1) by (simp add: tool_said_def)
qed

lemma oa_agree_flags [simp]: "oa_agree (s\<lparr>oa_sawTerminal := b\<rparr>) m = oa_agree s m"
  by (simp add: oa_agree_def)

lemma oa_agree_event:
  assumes "oa_agree s m"
  shows "oa_agree (oa_Event fails ev s) (chat_consumed ev m)"
proof (cases "ev_Type ev")
  case EventMessageStart
  then show ?thesis using assms by (simp add: oa_Event_def chat_consumed_def SetResponseID_def oa_agree_def)
next
  case EventTextDelta
  let ?f = "\<lambda>r :: chat_reader. r\<lparr>rc_Text := rc_Text r @ ev_Text ev\<rparr>"
  have "oa_agree (oa_do (after_role fails (ContentDelta (ev_Text ev)) None) (s\<lparr>oa_wroteContent := b\<rparr>)) (say ?f m)" for b
    by (rule agree_say_plain [OF assms]) simp_all
  moreover have "oa_Event fails ev s = oa_do (after_role fails (ContentDelta (ev_Text ev)) None)
      (s\<lparr>oa_wroteContent := ev_Text ev \<noteq> '''' \<or> oa_wroteContent s\<rparr>)"
    using EventTextDelta by (simp add: oa_Event_def WriteTextDelta_def Let_def)
  moreover have "chat_consumed ev m = say ?f m" using EventTextDelta by (simp add: chat_consumed_def)
  ultimately show ?thesis by (simp only:)
next
  case EventThinkingDelta
  let ?f = "\<lambda>r :: chat_reader. r\<lparr>rc_Reasoning := rc_Reasoning r @ ev_Text ev\<rparr>"
  have "oa_agree (oa_do (after_role fails (ReasoningDelta (ev_Text ev)) None) (s\<lparr>oa_wroteContent := True\<rparr>)) (say ?f m)"
    by (rule agree_say_plain [OF assms]) simp_all
  with EventThinkingDelta assms show ?thesis
    by (simp add: oa_Event_def chat_consumed_def WriteThinkingDelta_def)
next
  case EventToolCall
  with agree_tool_said [OF assms, of fails "ev_ToolIndex ev" "nonempty (ev_ToolID ev)" "nonempty (ev_ToolName ev)" "ev_ArgumentsDelta ev" True]
  show ?thesis by (simp add: oa_Event_def chat_consumed_def WriteToolCallDelta_def Let_def case_prod_unfold)
qed (use assms in \<open>simp_all add: oa_Event_def chat_consumed_def\<close>)

definition chat_silence :: "ident \<Rightarrow> string \<Rightarrow> chat_spoken" where
  "chat_silence i model = \<lparr>cp_reader = fresh_chat, cp_id = i, cp_model = model, cp_seen = []\<rparr>"

lemma oa_agree_new: "oa_agree (NewOpenAISink (NewSSEWriter i model)) (chat_silence i model)"
  by (simp add: oa_agree_def NewOpenAISink_def NewSSEWriter_def chat_silence_def fresh_chat_def)

lemma errors_after_role: "first_failure fails (sw_out w) \<Longrightarrow> first_failure fails (sw_out (fst (after_role fails d fin w)))"
  by (simp add: after_role_def ensureRole_def writeChunk_def sw_writeEvent_def split: prod.splits)

lemma oa_errors_event: "first_failure fails (sw_out (oa_sse s)) \<Longrightarrow> first_failure fails (sw_out (oa_sse (oa_Event fails ev s)))"
  by (auto simp: oa_Event_def oa_do_def SetResponseID_def WriteTextDelta_def WriteThinkingDelta_def WriteToolCallDelta_def Let_def
      intro: errors_after_role split: event_type.splits prod.splits)

interpretation chat: stream_sink oa_Event oa_Keepalive "\<lambda>s. sw_out (oa_sse s)" read_chunk fresh_chat oa_agree chat_consumed
  "\<lambda>m r. r = cp_reader m"
proof unfold_locales
  show "oa_agree s m \<Longrightarrow> oa_agree (oa_Keepalive fails s) m" for s m fails
    by (simp add: oa_agree_def oa_Keepalive_def oa_do_def WriteComment_def sw_writeEvent_def write_ok)
  show "oa_agree s m \<Longrightarrow> ot_WriteErr (sw_out (oa_sse s)) = None \<Longrightarrow>
      \<exists>r. read_all read_chunk (frames (sw_out (oa_sse s))) fresh_chat = Some r \<and> r = cp_reader m" for s m
    by (simp add: oa_agree_def)
  show "first_failure fails (sw_out (oa_sse s)) \<Longrightarrow> first_failure fails (sw_out (oa_sse (oa_Keepalive fails s)))" for fails s
    by (simp add: oa_Keepalive_def oa_do_def WriteComment_def sw_writeEvent_def)
qed (rule oa_agree_event oa_errors_event, assumption)+

section \<open>What the client ends with\<close>

text \<open>What the upstream sent, read off its events: the texts, and for each index of a tool call, in the order of their first
  appearance, the last name and identifier given and all the pieces of arguments.\<close>

definition sent_text :: "sdk_event list \<Rightarrow> string" where
  "sent_text evs = concat (map ev_Text (filter (\<lambda>e. ev_Type e = EventTextDelta) evs))"

definition sent_reasoning :: "sdk_event list \<Rightarrow> string" where
  "sent_reasoning evs = concat (map ev_Text (filter (\<lambda>e. ev_Type e = EventThinkingDelta) evs))"

definition tool_indices :: "sdk_event list \<Rightarrow> int list" where
  "tool_indices evs = rev (remdups (rev (map ev_ToolIndex (filter (\<lambda>e. ev_Type e = EventToolCall) evs))))"

definition last_given :: "string list \<Rightarrow> string" where
  "last_given xs = (case rev (filter (\<lambda>x. x \<noteq> '''') xs) of [] \<Rightarrow> '''' | x # _ \<Rightarrow> x)"

definition sent_tool :: "sdk_event list \<Rightarrow> int \<Rightarrow> chat_tool" where
  "sent_tool evs u =
     (let es = filter (\<lambda>e. ev_Type e = EventToolCall \<and> ev_ToolIndex e = u) evs in
      \<lparr>ct_ID = last_given (map ev_ToolID es), ct_Name = last_given (map ev_ToolName es), ct_Arguments = concat (map ev_ArgumentsDelta es)\<rparr>)"

lemma last_given_append [simp]: "last_given (xs @ [x]) = (case nonempty x of Some y \<Rightarrow> y | None \<Rightarrow> last_given xs)"
  by (simp add: last_given_def nonempty_def)

lemma last_given_Nil [simp]: "last_given [] = ''''" by (simp add: last_given_def)

lemma tool_indices_append:
  "tool_indices (evs @ [e]) = (if ev_Type e = EventToolCall \<and> ev_ToolIndex e \<notin> set (tool_indices evs)
     then tool_indices evs @ [ev_ToolIndex e] else tool_indices evs)"
  by (simp add: tool_indices_def)

lemma sent_append [simp]:
  "sent_text (evs @ [e]) = sent_text evs @ (if ev_Type e = EventTextDelta then ev_Text e else '''')"
  "sent_reasoning (evs @ [e]) = sent_reasoning evs @ (if ev_Type e = EventThinkingDelta then ev_Text e else '''')"
  by (simp_all add: sent_text_def sent_reasoning_def)

lemma sent_tool_append:
  "sent_tool (evs @ [e]) u = (if ev_Type e = EventToolCall \<and> ev_ToolIndex e = u
     then merge_tool (nonempty (ev_ToolID e)) (nonempty (ev_ToolName e)) (ev_ArgumentsDelta e) (sent_tool evs u) else sent_tool evs u)"
  by (simp add: sent_tool_def merge_tool_def Let_def split: option.splits)

lemma sent_tool_new: "u \<notin> set (tool_indices evs) \<Longrightarrow> sent_tool evs u = no_tool"
proof -
  assume "u \<notin> set (tool_indices evs)"
  then have "filter (\<lambda>e. ev_Type e = EventToolCall \<and> ev_ToolIndex e = u) evs = []"
    by (auto simp: tool_indices_def filter_empty_conv)
  then show ?thesis by (simp add: sent_tool_def no_tool_def)
qed

lemma distinct_indices [simp]: "distinct (tool_indices evs)"
  by (simp add: tool_indices_def)

lemma map_place:
  assumes "distinct us" "u \<in> set us" "\<And>v. v \<noteq> u \<Longrightarrow> g v = f v"
  shows "(map f us)[place u us := g u] = map g us"
proof (rule nth_equalityI)
  fix k assume "k < length ((map f us)[place u us := g u])"
  then have "k < length us" by simp
  moreover have "us ! k = u \<longleftrightarrow> k = place u us"
    using place_index [OF assms(2)] assms(1) calculation by (metis nth_eq_iff_index_eq)
  ultimately show "(map f us)[place u us := g u] ! k = map g us ! k" using assms(3) by (auto simp: nth_list_update)
qed simp

lemma chat_consumed_all:
  fixes i model :: string
  defines "m \<equiv> \<lambda>evs. fold chat_consumed evs (chat_silence i model)"
  shows "cp_seen (m evs) = tool_indices evs \<and> cp_model (m evs) = model \<and>
    rc_Text (cp_reader (m evs)) = sent_text evs \<and> rc_Reasoning (cp_reader (m evs)) = sent_reasoning evs \<and>
    rc_Tools (cp_reader (m evs)) = map (sent_tool evs) (tool_indices evs)"
proof (induction evs rule: rev_induct)
  case Nil
  then show ?case
    by (simp add: m_def chat_silence_def fresh_chat_def tool_indices_def sent_text_def sent_reasoning_def)
next
  case (snoc e evs)
  have m: "m (evs @ [e]) = chat_consumed e (m evs)" by (simp add: m_def)
  show ?case
  proof (cases "ev_Type e = EventToolCall")
    case False
    then have "map (sent_tool (evs @ [e])) us = map (sent_tool evs) us" for us by (simp add: sent_tool_append)
    with snoc False show ?thesis
      unfolding m by (simp add: chat_consumed_def say_def tool_indices_append split: event_type.splits)
  next
    case True
    let ?u = "ev_ToolIndex e" and ?f = "merge_tool (nonempty (ev_ToolID e)) (nonempty (ev_ToolName e)) (ev_ArgumentsDelta e)"
    have said: "m (evs @ [e]) = tool_said ?u ?f (m evs)" using True by (simp add: m chat_consumed_def)
    show ?thesis
    proof (cases "?u \<in> set (tool_indices evs)")
      case seen: True
      have "(map (sent_tool evs) (tool_indices evs))[place ?u (tool_indices evs) := sent_tool (evs @ [e]) ?u] =
          map (sent_tool (evs @ [e])) (tool_indices evs)"
        by (rule map_place [OF distinct_indices seen]) (simp add: sent_tool_append)
      moreover have "sent_tool (evs @ [e]) ?u = ?f (map (sent_tool evs) (tool_indices evs) ! place ?u (tool_indices evs))"
        using place_index [OF seen] True by (simp add: sent_tool_append)
      ultimately show ?thesis using snoc seen True by (simp add: said tool_said_def say_def tool_indices_append)
    next
      case new: False
      have "map (sent_tool (evs @ [e])) (tool_indices evs) = map (sent_tool evs) (tool_indices evs)"
        using new by (auto simp: sent_tool_append)
      moreover have "sent_tool (evs @ [e]) ?u = ?f no_tool" using sent_tool_new [OF new] True by (simp add: sent_tool_append)
      ultimately show ?thesis using snoc new True by (simp add: said tool_said_def say_def tool_indices_append)
    qed
  qed
qed

definition oa_stream :: "(nat \<Rightarrow> bool) \<Rightarrow> sink_op list \<Rightarrow> openaiSink \<Rightarrow> openaiSink" where
  "oa_stream fails ops s = fold (\<lambda>x s. case x of Deliver e \<Rightarrow> oa_Event fails e s | Beat \<Rightarrow> oa_Keepalive fails s) ops s"

definition oa_reply :: "(nat \<Rightarrow> bool) \<Rightarrow> ident \<Rightarrow> string \<Rightarrow> sink_op list \<Rightarrow> string \<Rightarrow> stop_reason \<Rightarrow> token_usage \<Rightarrow> bool \<Rightarrow> chat_frame out" where
  "oa_reply fails i model ops status stop u sendUsage =
     sw_out (oa_sse (oa_Finish fails status stop u sendUsage (oa_stream fails ops (NewOpenAISink (NewSSEWriter i model)))))"

definition chat_client :: "chat_frame out \<Rightarrow> chat_reader option" where
  "chat_client out = read_all read_chunk (frames out) fresh_chat"

lemma oa_stream_fold: "oa_stream fails ops s = fold (chat.apply_op fails) ops s"
  unfolding oa_stream_def by (rule fold_cong) (auto simp: chat.apply_op_def)

lemma oa_reply_agree: "oa_agree (oa_stream fails ops (NewOpenAISink (NewSSEWriter i model))) (fold chat_consumed (delivered ops) (chat_silence i model))"
  unfolding oa_stream_fold by (rule chat.run_agree [OF oa_agree_new])

lemma oa_reply_errors:
  "first_failure fails (oa_reply fails i model ops status stop u sendUsage)"
proof -
  have "first_failure fails (sw_out (oa_sse (oa_stream fails ops (NewOpenAISink (NewSSEWriter i model)))))"
    unfolding oa_stream_fold by (rule chat.run_errors) (simp add: NewOpenAISink_def NewSSEWriter_def)
  then show ?thesis
    by (auto simp: oa_reply_def oa_Finish_def oa_do_def WriteFinish_def WriteUsage_def WriteDone_def sw_writeEvent_def Let_def
        intro!: first_failure_write errors_after_role)
qed

lemma no_write_error:
  assumes "first_failure (\<lambda>_. False) out" shows "ot_WriteErr out = None"
  using assms by (auto simp: first_failure_def split: option.splits)

lemma chat_spec:
  "\<exists>r. chat_client (oa_reply (\<lambda>_. False) i model ops status stop u sendUsage) = Some r \<and>
     rc_Text r = sent_text (delivered ops) \<and> rc_Reasoning r = sent_reasoning (delivered ops) \<and>
     rc_Tools r = map (sent_tool (delivered ops)) (tool_indices (delivered ops)) \<and>
     rc_Finish r = (if status = ''ok'' then Some (OpenAIFinishReason stop) else None) \<and> rc_Done r = (status = ''ok'') \<and>
     rc_Usage r = (if sendUsage \<and> (tu_InputTokens u > 0 \<or> tu_OutputTokens u > 0) then Some (chat_usage_of u) else None)"
proof -
  let ?s = "oa_stream (\<lambda>_. False) ops (NewOpenAISink (NewSSEWriter i model))" and ?m = "fold chat_consumed (delivered ops) (chat_silence i model)"
  define r where "r = cp_reader ?m"
  have ok: "ot_WriteErr (sw_out (oa_sse ?s)) = None"
    by (rule no_write_error) (unfold oa_stream_fold, rule chat.run_errors, simp add: NewOpenAISink_def NewSSEWriter_def)
  have a: "read_all read_chunk (frames (sw_out (oa_sse ?s))) fresh_chat = Some r"
    "sw_roleSent (oa_sse ?s) = rc_Role r" "rc_Head r = (if rc_Role r then Some (sw_id (oa_sse ?s), sw_model (oa_sse ?s)) else None)"
    "rc_Finish r = None" "rc_Usage r = None" "\<not> rc_Done r"
    using oa_reply_agree [of "\<lambda>_. False" ops i model] ok by (simp_all add: oa_agree_def r_def)
  have sent: "rc_Text r = sent_text (delivered ops)" "rc_Reasoning r = sent_reasoning (delivered ops)"
    "rc_Tools r = map (sent_tool (delivered ops)) (tool_indices (delivered ops))"
    using chat_consumed_all [of "delivered ops" i model] by (simp_all add: r_def)
  define w where "w = oa_sse ?s"
  define r1 where "r1 = (if status = ''ok'' then r\<lparr>rc_Head := Some (sw_id w, sw_model w), rc_Role := True,
      rc_Finish := Some (OpenAIFinishReason stop)\<rparr> else r)"
  define w1 where "w1 = (if status = ''ok'' then fst (after_role (\<lambda>_. False) EmptyDelta (Some (OpenAIFinishReason stop)) w) else w)"
  have w1: "read_all read_chunk (frames (sw_out w1)) fresh_chat = Some r1 \<and> sw_id w1 = sw_id w \<and> sw_model w1 = sw_model w"
    using a by (auto simp: w1_def r1_def w_def after_role_def ensureRole_def writeChunk_def sw_writeEvent_def)
  have "chat_client (oa_reply (\<lambda>_. False) i model ops status stop u sendUsage) =
      (let r2 = (if sendUsage \<and> (tu_InputTokens u > 0 \<or> tu_OutputTokens u > 0)
          then r1\<lparr>rc_Head := Some (sw_id w, sw_model w), rc_Usage := Some (chat_usage_of u)\<rparr> else r1)
       in Some (r2\<lparr>rc_Done := status = ''ok''\<rparr>))"
    using w1 a by (auto simp: chat_client_def oa_reply_def oa_Finish_def oa_do_def WriteFinish_def WriteUsage_def WriteDone_def
        sw_writeEvent_def Let_def w1_def r1_def w_def)
  then show ?thesis using sent a by (auto simp: r1_def Let_def)
qed

text \<open>C25: The client of a stream without failed writes ends with exactly what the upstream sent: the whole text, the whole
  reasoning, and for every tool call its identifier, name and arguments, also when the pieces of several calls alternate.
  Only a stream that ended well is finished.\<close>

theorem chat_reads_back:
  "\<exists>r. chat_client (oa_reply (\<lambda>_. False) i model ops status stop u sendUsage) = Some r \<and>
     rc_Text r = sent_text (delivered ops) \<and> rc_Reasoning r = sent_reasoning (delivered ops) \<and>
     rc_Tools r = map (sent_tool (delivered ops)) (tool_indices (delivered ops)) \<and>
     rc_Finish r = (if status = ''ok'' then Some (OpenAIFinishReason stop) else None) \<and> rc_Done r = (status = ''ok'') \<and>
     rc_Usage r = (if sendUsage \<and> (tu_InputTokens u > 0 \<or> tu_OutputTokens u > 0) then Some (chat_usage_of u) else None)"
  by (rule chat_spec)


definition demo_calls :: "sdk_event list" where
  "demo_calls =
     [no_event\<lparr>ev_Type := EventToolCall, ev_ToolID := ''a'', ev_ToolName := ''ls'', ev_ToolIndex := 1, ev_ArgumentsDelta := ''{''\<rparr>,
      no_event\<lparr>ev_Type := EventToolCall, ev_ToolID := ''b'', ev_ToolName := ''ps'', ev_ToolIndex := 3, ev_ArgumentsDelta := ''{}''\<rparr>,
      no_event\<lparr>ev_Type := EventToolCall, ev_ToolIndex := 1, ev_ArgumentsDelta := ''}''\<rparr>]"


end
