(* ===== verification/Responses.thy ===== *)
theory Responses
  imports Anthropic Chat
begin

text \<open>
  \<^verbatim>\<open>internal/outwire/openai_responses.go\<close>: replies in the format of OpenAI Responses, as a stream of numbered events over
  output items and as one object. A tool that was downgraded on the way in (\<open>custom\<close>, \<open>local_shell\<close>) is turned back here.
  A write to a nil map panics in Go; the state then only remembers that it has panicked.
\<close>

section \<open>Items\<close>

fun digits :: "nat \<Rightarrow> string" where
  "digits n = (if n < 10 then [char_of (48 + n)] else digits (n div 10) @ [char_of (48 + n mod 10)])"

declare digits.simps [simp del]

definition itoa :: "int \<Rightarrow> string" where
  "itoa n = (if n < 0 then CHR ''-'' # digits (nat (- n)) else digits (nat n))"

text \<open>A message in progress has no text yet; a reasoning item when done has its summary (empty for none) and the sealed state,
  if there is one.\<close>

datatype output_item =
    MessageItem ident "string option" | ReasoningItem ident "(string \<times> string option) option"
  | FunctionCallItem ident ident string string | CustomCallItem ident ident string string | ShellCallItem ident ident string json

definition unwrapCustomInput :: "string \<Rightarrow> string" where
  "unwrapCustomInput args =
     (case Unmarshal args of
        Some (JObj kvs) \<Rightarrow>
          (let vs = field_values ''input'' kvs;
               texts = concat (map (\<lambda>v. case v of JStr t \<Rightarrow> [t] | _ \<Rightarrow> []) vs) in
           if list_ex (\<lambda>v. case v of JStr t \<Rightarrow> False | JNull \<Rightarrow> False | _ \<Rightarrow> True) vs \<or> texts = [] \<or> last texts = '''' then args
           else last texts)
      | _ \<Rightarrow> args)"

text \<open>\<open>None\<close>: the text \<open>null\<close> leaves the map nil, and the assignment of its \<open>type\<close> panics.\<close>

definition exec_action :: "(string \<times> json) list" where
  "exec_action = [(''type'', JStr ''exec'')]"

definition localShellAction :: "string \<Rightarrow> json option" where
  "localShellAction args =
     (case Unmarshal args of
        Some (JObj kvs) \<Rightarrow> Some (JObj (if json_member ''type'' kvs = None then kvs @ exec_action else kvs))
      | Some JNull \<Rightarrow> None
      | _ \<Rightarrow> Some (JObj exec_action))"

section \<open>The encoder\<close>

record responses_usage =
  ru_input_tokens :: int
  ru_output_tokens :: int
  ru_total_tokens :: int
  ru_cached_tokens :: "int option"
  ru_reasoning_tokens :: "int option"

record responses_object =
  ro_id :: ident
  ro_model :: string
  ro_status :: string
  ro_output :: "output_item list"
  ro_usage :: "responses_usage option"
  ro_error :: bool
  ro_incomplete :: bool

text \<open>The payloads name an item by its id and output index.\<close>

datatype response_event =
    CreatedE responses_object | ItemAddedE int output_item | PartAddedE ident int | TextDeltaE ident int string
  | TextDoneE ident int string | PartDoneE ident int string | ItemDoneE int output_item | ReasoningDeltaE ident int string
  | ArgumentsDeltaE ident int string | CustomDeltaE ident int string | ArgumentsDoneE ident int string | CustomDoneE ident int string
  | FailedE responses_object | FinishedE string responses_object

record responsesSSE =
  rs_out :: "(int \<times> response_event) out"
  rs_model :: string
  rs_id :: ident
  rs_started :: bool
  rs_msgOpen :: bool
  rs_text :: string
  rs_msgSourceIdx :: int
  rs_msgSourceKnown :: bool
  rs_toolOpen :: bool
  rs_toolID :: ident
  rs_toolName :: string
  rs_thinkText :: string
  rs_reasonOpen :: bool
  rs_reasonIdx :: int
  rs_reasonItemID :: ident
  rs_reasonSourceID :: ident
  rs_toolIdx :: int
  rs_toolMapper :: toolIndexMapper
  rs_toolArgs :: string
  rs_seq :: int
  rs_downgraded :: "string \<Rightarrow> string"
  rs_wroteContent :: bool
  rs_sawTerminal :: bool
  rs_output :: "output_item list"
  rs_pendingIndex :: int
  rs_msgOutIdx :: int
  rs_toolOutIdx :: int
  rs_panicked :: bool

definition NewResponsesSSE :: "ident \<Rightarrow> string \<Rightarrow> (string \<Rightarrow> string) \<Rightarrow> responsesSSE" where
  "NewResponsesSSE i model downgraded =
     \<lparr>rs_out = empty_out, rs_model = model, rs_id = i, rs_started = False, rs_msgOpen = False, rs_text = '''', rs_msgSourceIdx = 0,
      rs_msgSourceKnown = False, rs_toolOpen = False, rs_toolID = '''', rs_toolName = '''', rs_thinkText = '''', rs_reasonOpen = False,
      rs_reasonIdx = 0, rs_reasonItemID = '''', rs_reasonSourceID = '''', rs_toolIdx = 0, rs_toolMapper = newToolIndexMapper,
      rs_toolArgs = '''', rs_seq = 0, rs_downgraded = downgraded, rs_wroteContent = False, rs_sawTerminal = False, rs_output = [],
      rs_pendingIndex = 0, rs_msgOutIdx = 0, rs_toolOutIdx = 0, rs_panicked = False\<rparr>"

definition rs_writeEvent :: "(nat \<Rightarrow> bool) \<Rightarrow> response_event \<Rightarrow> responsesSSE \<Rightarrow> responsesSSE" where
  "rs_writeEvent fails e s =
     (if rs_panicked s then s else s\<lparr>rs_out := write_sse fails (Frame (rs_seq s, e)) (rs_out s), rs_seq := rs_seq s + 1\<rparr>)"

definition rs_Keepalive :: "(nat \<Rightarrow> bool) \<Rightarrow> responsesSSE \<Rightarrow> responsesSSE" where
  "rs_Keepalive fails s = s\<lparr>rs_out := write_sse fails (Comment ''keepalive'') (rs_out s)\<rparr>"

definition responseSkeleton :: "responsesSSE \<Rightarrow> string \<Rightarrow> responses_object" where
  "responseSkeleton s status =
     \<lparr>ro_id = rs_id s, ro_model = rs_model s, ro_status = status, ro_output = [], ro_usage = None, ro_error = False, ro_incomplete = False\<rparr>"

definition rs_ensureStarted :: "(nat \<Rightarrow> bool) \<Rightarrow> ident \<Rightarrow> responsesSSE \<Rightarrow> responsesSSE" where
  "rs_ensureStarted fails i s =
     (if rs_started s then s
      else (let s = s\<lparr>rs_started := True\<rparr>; s = (if i \<noteq> '''' then s\<lparr>rs_id := i\<rparr> else s)
            in rs_writeEvent fails (CreatedE (responseSkeleton s ''in_progress'')) s))"

definition allocIndex :: "int option \<Rightarrow> responsesSSE \<Rightarrow> responsesSSE \<times> int" where
  "allocIndex up s =
     (let idx = (case up of Some i \<Rightarrow> if i \<ge> 0 then i else rs_pendingIndex s | None \<Rightarrow> rs_pendingIndex s)
      in (s\<lparr>rs_pendingIndex := (if idx \<ge> rs_pendingIndex s then idx + 1 else rs_pendingIndex s)\<rparr>, idx))"

definition msg_id :: "responsesSSE \<Rightarrow> int \<Rightarrow> ident" where "msg_id s idx = rs_id s @ ''-msg-'' @ itoa idx"

definition fc_id :: "responsesSSE \<Rightarrow> int \<Rightarrow> ident" where "fc_id s idx = rs_id s @ ''-fc-'' @ itoa idx"

definition closeMessage :: "(nat \<Rightarrow> bool) \<Rightarrow> responsesSSE \<Rightarrow> responsesSSE" where
  "closeMessage fails s =
     (if \<not> rs_msgOpen s then s
      else
       (let idx = rs_msgOutIdx s;
            t = rs_text s;
            s = rs_writeEvent fails (TextDoneE (msg_id s idx) idx t) s;
            s = rs_writeEvent fails (PartDoneE (msg_id s idx) idx t) s;
            item = MessageItem (msg_id s idx) (Some t);
            s = rs_writeEvent fails (ItemDoneE idx item) s
        in s\<lparr>rs_output := rs_output s @ [item], rs_msgOpen := False\<rparr>))"

definition toolCallItem :: "int \<Rightarrow> string \<Rightarrow> responsesSSE \<Rightarrow> output_item option" where
  "toolCallItem idx args s =
     (let kind = rs_downgraded s (rs_toolName s) in
      if kind = ''custom'' then Some (CustomCallItem (fc_id s idx) (rs_toolID s) (rs_toolName s) (unwrapCustomInput args))
      else if kind = ''local_shell''
      then map_option (ShellCallItem (fc_id s idx) (rs_toolID s) (rs_toolName s)) (localShellAction args)
      else Some (FunctionCallItem (fc_id s idx) (rs_toolID s) (rs_toolName s) args))"

definition full_arguments :: "string \<Rightarrow> string" where
  "full_arguments args = (if trim_space args = '''' then ''{}'' else args)"

definition closeTool :: "(nat \<Rightarrow> bool) \<Rightarrow> responsesSSE \<Rightarrow> responsesSSE" where
  "closeTool fails s =
     (if \<not> rs_toolOpen s then s
      else
       (let idx = rs_toolOutIdx s;
            args = full_arguments (rs_toolArgs s);
            s = (if rs_downgraded s (rs_toolName s) = ''custom''
                 then rs_writeEvent fails (CustomDoneE (fc_id s idx) idx (unwrapCustomInput args)) s
                 else rs_writeEvent fails (ArgumentsDoneE (fc_id s idx) idx args) s)
        in case toolCallItem idx args s of
             None \<Rightarrow> s\<lparr>rs_panicked := True\<rparr>
           | Some item \<Rightarrow>
               (let s = rs_writeEvent fails (ItemDoneE idx item) s
                in s\<lparr>rs_output := rs_output s @ [item], rs_toolOpen := False\<rparr>)))"

text \<open>\<open>sealed\<close> is the sealed state of the event that ends the item, empty for none.\<close>

definition closeReason :: "(nat \<Rightarrow> bool) \<Rightarrow> string \<Rightarrow> responsesSSE \<Rightarrow> responsesSSE" where
  "closeReason fails sealed s =
     (if \<not> rs_reasonOpen s then s
      else
       (let s = s\<lparr>rs_reasonOpen := False, rs_reasonSourceID := ''''\<rparr>;
            item = ReasoningItem (rs_reasonItemID s) (Some (rs_thinkText s, nonempty sealed));
            s = rs_writeEvent fails (ItemDoneE (rs_reasonIdx s) item) s
        in s\<lparr>rs_output := rs_output s @ [item]\<rparr>))"

definition openReason :: "(nat \<Rightarrow> bool) \<Rightarrow> sdk_event \<Rightarrow> responsesSSE \<Rightarrow> responsesSSE" where
  "openReason fails ev s =
     (let s = closeTool fails (closeMessage fails (rs_ensureStarted fails '''' s));
          s = s\<lparr>rs_reasonOpen := True\<rparr>;
          (s, idx) = allocIndex (ev_OutputIndex ev) s;
          s = s\<lparr>rs_reasonIdx := idx, rs_thinkText := '''', rs_reasonSourceID := ev_ReasoningID ev,
              rs_reasonItemID := (if ev_ReasoningID ev \<noteq> '''' then ev_ReasoningID ev else rs_id s @ ''-reason-'' @ itoa idx)\<rparr>
      in rs_writeEvent fails (ItemAddedE idx (ReasoningItem (rs_reasonItemID s) None)) s)"

definition thinkingDelta :: "(nat \<Rightarrow> bool) \<Rightarrow> string \<Rightarrow> sdk_event \<Rightarrow> responsesSSE \<Rightarrow> responsesSSE" where
  "thinkingDelta fails protoResponses ev s =
     (if ev_SealedBy ev \<noteq> '''' \<and> ev_SealedBy ev \<noteq> protoResponses then s
      else if ev_Sealed ev = '''' \<and> ev_Text ev = '''' then s
      else
       (let s = (if ev_ReasoningID ev \<noteq> '''' \<and> rs_reasonOpen s \<and> rs_reasonSourceID s \<noteq> '''' \<and> ev_ReasoningID ev \<noteq> rs_reasonSourceID s
                 then closeReason fails '''' s else s);
            s = (if \<not> rs_reasonOpen s then openReason fails ev s else s);
            s = (if ev_Text ev \<noteq> ''''
                 then rs_writeEvent fails (ReasoningDeltaE (rs_reasonItemID s) (rs_reasonIdx s) (ev_Text ev))
                        (s\<lparr>rs_thinkText := rs_thinkText s @ ev_Text ev, rs_wroteContent := True\<rparr>)
                 else s)
        in if ev_Sealed ev = '''' then s else closeReason fails (ev_Sealed ev) s))"

definition openMessage :: "(nat \<Rightarrow> bool) \<Rightarrow> sdk_event \<Rightarrow> responsesSSE \<Rightarrow> responsesSSE" where
  "openMessage fails ev s =
     (let s = closeTool fails s;
          (s, idx) = allocIndex (ev_OutputIndex ev) s;
          s = s\<lparr>rs_text := ''''\<rparr>;
          s = (case ev_OutputIndex ev of
                 Some i \<Rightarrow> s\<lparr>rs_msgSourceIdx := i, rs_msgSourceKnown := True\<rparr>
               | None \<Rightarrow> s\<lparr>rs_msgSourceKnown := False\<rparr>);
          s = rs_writeEvent fails (ItemAddedE idx (MessageItem (msg_id s idx) None)) s;
          s = rs_writeEvent fails (PartAddedE (msg_id s idx) idx) s
      in s\<lparr>rs_msgOpen := True, rs_msgOutIdx := idx\<rparr>)"

definition textDelta :: "(nat \<Rightarrow> bool) \<Rightarrow> sdk_event \<Rightarrow> responsesSSE \<Rightarrow> responsesSSE" where
  "textDelta fails ev s =
     (if ev_Text ev = '''' then s
      else
       (let s = rs_ensureStarted fails '''' s;
            s = (case ev_OutputIndex ev of
                   Some i \<Rightarrow> if rs_msgOpen s \<and> rs_msgSourceKnown s \<and> i \<noteq> rs_msgSourceIdx s then closeMessage fails s else s
                 | None \<Rightarrow> s);
            s = closeReason fails '''' s;
            s = (if \<not> rs_msgOpen s then openMessage fails ev s else s);
            s = s\<lparr>rs_wroteContent := True, rs_text := rs_text s @ ev_Text ev\<rparr>
        in rs_writeEvent fails (TextDeltaE (msg_id s (rs_msgOutIdx s)) (rs_msgOutIdx s) (ev_Text ev)) s))"

definition openTool :: "(nat \<Rightarrow> bool) \<Rightarrow> sdk_event \<Rightarrow> int \<Rightarrow> responsesSSE \<Rightarrow> responsesSSE" where
  "openTool fails ev toolIdx s =
     (let s = closeTool fails (closeMessage fails s);
          (s, idx) = allocIndex (ev_OutputIndex ev) s;
          s = s\<lparr>rs_toolOpen := True, rs_toolIdx := toolIdx, rs_toolOutIdx := idx\<rparr>;
          s = (if ev_ToolID ev \<noteq> '''' then s\<lparr>rs_toolID := ev_ToolID ev, rs_toolName := ev_ToolName ev\<rparr> else s);
          s = s\<lparr>rs_toolArgs := ''''\<rparr>
      in case toolCallItem idx '''' s of
           None \<Rightarrow> s\<lparr>rs_panicked := True\<rparr>
         | Some item \<Rightarrow> rs_writeEvent fails (ItemAddedE idx item) s)"

definition toolDelta :: "(nat \<Rightarrow> bool) \<Rightarrow> sdk_event \<Rightarrow> responsesSSE \<Rightarrow> responsesSSE" where
  "toolDelta fails ev s =
     (let s = closeReason fails '''' (rs_ensureStarted fails '''' s);
          (m, toolIdx) = tool_to (ev_ToolIndex ev) (rs_toolMapper s);
          s = s\<lparr>rs_toolMapper := m\<rparr>;
          s = (if \<not> rs_toolOpen s \<or> rs_toolIdx s \<noteq> toolIdx then openTool fails ev toolIdx s else s);
          s = s\<lparr>rs_wroteContent := True\<rparr>
      in if ev_ArgumentsDelta ev \<noteq> ''''
         then (let s = s\<lparr>rs_toolArgs := rs_toolArgs s @ ev_ArgumentsDelta ev\<rparr>;
                   i = fc_id s (rs_toolOutIdx s)
               in rs_writeEvent fails (if rs_downgraded s (rs_toolName s) = ''custom'' then CustomDeltaE i (rs_toolOutIdx s) (ev_ArgumentsDelta ev)
                    else ArgumentsDeltaE i (rs_toolOutIdx s) (ev_ArgumentsDelta ev)) s)
         else s)"

definition rs_Event :: "string \<Rightarrow> (nat \<Rightarrow> bool) \<Rightarrow> sdk_event \<Rightarrow> responsesSSE \<Rightarrow> responsesSSE" where
  "rs_Event protoResponses fails ev s =
     (case ev_Type ev of
        EventMessageStart \<Rightarrow> rs_ensureStarted fails (ev_ID ev) s
      | EventThinkingDelta \<Rightarrow> thinkingDelta fails protoResponses ev s
      | EventTextDelta \<Rightarrow> textDelta fails ev s
      | EventToolCall \<Rightarrow> toolDelta fails ev s
      | EventMessageEnd \<Rightarrow> s\<lparr>rs_sawTerminal := True\<rparr>
      | EventUnknown \<Rightarrow> s)"

definition responses_usage_of :: "token_usage \<Rightarrow> responses_usage" where
  "responses_usage_of u = \<lparr>ru_input_tokens = tu_InputTokens u, ru_output_tokens = tu_OutputTokens u, ru_total_tokens = tu_TotalTokens u,
     ru_cached_tokens = (if tu_CachedInputTokens u > 0 then Some (tu_CachedInputTokens u) else None),
     ru_reasoning_tokens = (if tu_ReasoningTokens u > 0 then Some (tu_ReasoningTokens u) else None)\<rparr>"

definition rs_Finish :: "(nat \<Rightarrow> bool) \<Rightarrow> string \<Rightarrow> stop_reason \<Rightarrow> token_usage \<Rightarrow> responsesSSE \<Rightarrow> responsesSSE" where
  "rs_Finish fails status stop usage s =
     (if status = ''canceled'' then s
      else
       (let s = closeTool fails (closeMessage fails (closeReason fails '''' s)) in
        if status \<noteq> ''ok'' then rs_writeEvent fails (FailedE ((responseSkeleton s ''failed'')\<lparr>ro_error := True\<rparr>)) s
        else
         (let s = rs_ensureStarted fails '''' s;
              resp = (responseSkeleton s ''completed'')\<lparr>ro_output := rs_output s\<rparr>;
              (name, resp) = (if stop = StopLength then (''response.incomplete'', resp\<lparr>ro_status := ''incomplete'', ro_incomplete := True\<rparr>)
                              else (''response.completed'', resp));
              resp = resp\<lparr>ro_usage := Some (responses_usage_of usage)\<rparr>
          in rs_writeEvent fails (FinishedE name resp) s)))"

section \<open>The complete object\<close>

text \<open>\<open>None\<close>: the panic of \<open>localShellAction\<close>. A reasoning item without an id has the empty one.\<close>

fun responses_parts :: "string \<Rightarrow> ident \<Rightarrow> (string \<Rightarrow> string) \<Rightarrow> int \<Rightarrow> reply_part list \<Rightarrow> output_item list option" where
  "responses_parts protoResponses i downgraded n [] = Some []"
| "responses_parts protoResponses i downgraded n (b # bs) =
     (case rp_Type b of
        BlockThinking \<Rightarrow>
          if rp_SealedBy b \<noteq> '''' \<and> rp_SealedBy b \<noteq> protoResponses then responses_parts protoResponses i downgraded n bs
          else map_option ((#) (ReasoningItem (rp_ReasoningID b) (Some (rp_Thinking b, nonempty (rp_Sealed b)))))
                 (responses_parts protoResponses i downgraded n bs)
      | BlockText \<Rightarrow>
          map_option ((#) (MessageItem (i @ ''-msg-'' @ itoa n) (Some (rp_Text b)))) (responses_parts protoResponses i downgraded (n + 1) bs)
      | BlockToolCall \<Rightarrow>
          (let args = full_arguments (rp_Arguments b);
               item = i @ ''-fc-'' @ rp_ToolCallID b;
               kind = downgraded (rp_ToolName b);
               out = (if kind = ''custom'' then Some (CustomCallItem item (rp_ToolCallID b) (rp_ToolName b) (unwrapCustomInput args))
                      else if kind = ''local_shell''
                      then map_option (ShellCallItem item (rp_ToolCallID b) (rp_ToolName b)) (localShellAction args)
                      else Some (FunctionCallItem item (rp_ToolCallID b) (rp_ToolName b) args))
           in case out of None \<Rightarrow> None | Some x \<Rightarrow> map_option ((#) x) (responses_parts protoResponses i downgraded n bs))
      | _ \<Rightarrow> responses_parts protoResponses i downgraded n bs)"

definition WriteResponsesResponseWithTools ::
  "string \<Rightarrow> ident \<Rightarrow> sdk_response \<Rightarrow> string \<Rightarrow> (string \<Rightarrow> string) \<Rightarrow> responses_object option" where
  "WriteResponsesResponseWithTools protoResponses generated resp model downgraded =
     (let i = (if sr_ID resp = '''' then generated else sr_ID resp);
          incomplete = sr_StopReason resp = StopLength
      in map_option (\<lambda>out. \<lparr>ro_id = i, ro_model = model, ro_status = (if incomplete then ''incomplete'' else ''completed''), ro_output = out,
           ro_usage = Some (responses_usage_of (sr_Usage resp)), ro_error = False, ro_incomplete = incomplete\<rparr>)
         (responses_parts protoResponses i downgraded 0 (sr_Content resp)))"

section \<open>The client\<close>

text \<open>The client counts the events, keeps one item open at a time, adds its deltas up and compares the sum with what the closing
  events say, and finally compares the items it has seen with the object.\<close>

datatype response_phase =
    RFresh | RIdle | RMessageNew int ident | RMessage int ident string | RTextDone int ident string | RPartDone int ident string
  | RReason int ident string | RTool int output_item string | RToolDone int output_item string | RFailed | REnd string

record response_reader =
  rr_Seq :: int
  rr_Phase :: response_phase
  rr_ID :: ident
  rr_Items :: "output_item list"
  rr_Texts :: string

definition fresh_response :: response_reader where
  "fresh_response = \<lparr>rr_Seq = 0, rr_Phase = RFresh, rr_ID = '''', rr_Items = [], rr_Texts = ''''\<rparr>"

fun call_id :: "output_item \<Rightarrow> ident" where
  "call_id (FunctionCallItem i c n a) = i" | "call_id (CustomCallItem i c n a) = i" | "call_id (ShellCallItem i c n a) = i"
| "call_id (MessageItem i t) = i" | "call_id (ReasoningItem i t) = i"

fun is_call :: "output_item \<Rightarrow> bool" where
  "is_call (MessageItem i t) = False" | "is_call (ReasoningItem i t) = False" | "is_call _ = True"

fun is_custom :: "output_item \<Rightarrow> bool" where
  "is_custom (CustomCallItem i c n a) = True" | "is_custom _ = False"

text \<open>The item of a call with the arguments that were put together.\<close>

fun with_arguments :: "output_item \<Rightarrow> string \<Rightarrow> output_item option" where
  "with_arguments (FunctionCallItem i c n a) args = Some (FunctionCallItem i c n args)"
| "with_arguments (CustomCallItem i c n a) args = Some (CustomCallItem i c n (unwrapCustomInput args))"
| "with_arguments (ShellCallItem i c n a) args = map_option (ShellCallItem i c n) (localShellAction args)"
| "with_arguments _ args = None"

fun read_event :: "response_event \<Rightarrow> response_reader \<Rightarrow> response_reader option" where
  "read_event (CreatedE ob) r = (if rr_Phase r = RFresh then Some (r\<lparr>rr_Phase := RIdle, rr_ID := ro_id ob\<rparr>) else None)"
| "read_event (ItemAddedE idx item) r =
     (if rr_Phase r \<noteq> RIdle then None
      else (case item of
              MessageItem i None \<Rightarrow> Some (r\<lparr>rr_Phase := RMessageNew idx i\<rparr>)
            | ReasoningItem i None \<Rightarrow> Some (r\<lparr>rr_Phase := RReason idx i ''''\<rparr>)
            | _ \<Rightarrow> if is_call item then Some (r\<lparr>rr_Phase := RTool idx item ''''\<rparr>) else None))"
| "read_event (PartAddedE i idx) r = (if rr_Phase r = RMessageNew idx i then Some (r\<lparr>rr_Phase := RMessage idx i ''''\<rparr>) else None)"
| "read_event (TextDeltaE i idx t) r =
     (case rr_Phase r of
        RMessage idx' i' a \<Rightarrow> if idx' = idx \<and> i' = i then Some (r\<lparr>rr_Phase := RMessage idx i (a @ t), rr_Texts := rr_Texts r @ t\<rparr>) else None
      | _ \<Rightarrow> None)"
| "read_event (TextDoneE i idx t) r = (if rr_Phase r = RMessage idx i t then Some (r\<lparr>rr_Phase := RTextDone idx i t\<rparr>) else None)"
| "read_event (PartDoneE i idx t) r = (if rr_Phase r = RTextDone idx i t then Some (r\<lparr>rr_Phase := RPartDone idx i t\<rparr>) else None)"
| "read_event (ReasoningDeltaE i idx t) r =
     (case rr_Phase r of
        RReason idx' i' a \<Rightarrow> if idx' = idx \<and> i' = i then Some (r\<lparr>rr_Phase := RReason idx i (a @ t)\<rparr>) else None
      | _ \<Rightarrow> None)"
| "read_event (ArgumentsDeltaE i idx t) r =
     (case rr_Phase r of
        RTool idx' item a \<Rightarrow> if idx' = idx \<and> call_id item = i \<and> \<not> is_custom item then Some (r\<lparr>rr_Phase := RTool idx item (a @ t)\<rparr>) else None
      | _ \<Rightarrow> None)"
| "read_event (CustomDeltaE i idx t) r =
     (case rr_Phase r of
        RTool idx' item a \<Rightarrow> if idx' = idx \<and> call_id item = i \<and> is_custom item then Some (r\<lparr>rr_Phase := RTool idx item (a @ t)\<rparr>) else None
      | _ \<Rightarrow> None)"
| "read_event (ArgumentsDoneE i idx args) r =
     (case rr_Phase r of
        RTool idx' item a \<Rightarrow>
          if idx' = idx \<and> call_id item = i \<and> \<not> is_custom item \<and> args = full_arguments a then Some (r\<lparr>rr_Phase := RToolDone idx item args\<rparr>) else None
      | _ \<Rightarrow> None)"
| "read_event (CustomDoneE i idx x) r =
     (case rr_Phase r of
        RTool idx' item a \<Rightarrow>
          if idx' = idx \<and> call_id item = i \<and> is_custom item \<and> x = unwrapCustomInput (full_arguments a)
          then Some (r\<lparr>rr_Phase := RToolDone idx item (full_arguments a)\<rparr>) else None
      | _ \<Rightarrow> None)"
| "read_event (ItemDoneE idx item) r =
     (if (case rr_Phase r of
            RPartDone idx' i t \<Rightarrow> idx' = idx \<and> item = MessageItem i (Some t)
          | RReason idx' i a \<Rightarrow> idx' = idx \<and> (case item of ReasoningItem i' (Some (a', x)) \<Rightarrow> i' = i \<and> a' = a | _ \<Rightarrow> False)
          | RToolDone idx' it args \<Rightarrow> idx' = idx \<and> with_arguments it args = Some item
          | _ \<Rightarrow> False)
      then Some (r\<lparr>rr_Phase := RIdle, rr_Items := rr_Items r @ [item]\<rparr>) else None)"
| "read_event (FailedE ob) r = (if rr_Phase r = RIdle \<or> rr_Phase r = RFresh then Some (r\<lparr>rr_Phase := RFailed\<rparr>) else None)"
| "read_event (FinishedE name ob) r =
     (if rr_Phase r = RIdle \<and> ro_output ob = rr_Items r \<and> ro_id ob = rr_ID r then Some (r\<lparr>rr_Phase := REnd name\<rparr>) else None)"

definition read_numbered :: "int \<times> response_event \<Rightarrow> response_reader \<Rightarrow> response_reader option" where
  "read_numbered = (\<lambda>(n, e) r. if n = rr_Seq r then map_option (\<lambda>r. r\<lparr>rr_Seq := n + 1\<rparr>) (read_event e r) else None)"

section \<open>The encoder keeps to the protocol\<close>

text \<open>What the client has read while the encoder is in a state; after a panic only that it could read it.\<close>

definition phase_of :: "responsesSSE \<Rightarrow> response_phase \<Rightarrow> bool" where
  "phase_of s ph \<longleftrightarrow>
     (if \<not> rs_started s then ph = RFresh \<and> \<not> rs_msgOpen s \<and> \<not> rs_toolOpen s \<and> \<not> rs_reasonOpen s
      else if rs_msgOpen s then \<not> rs_toolOpen s \<and> \<not> rs_reasonOpen s \<and> ph = RMessage (rs_msgOutIdx s) (msg_id s (rs_msgOutIdx s)) (rs_text s)
      else if rs_toolOpen s then \<not> rs_reasonOpen s \<and>
        (\<exists>item. toolCallItem (rs_toolOutIdx s) '''' s = Some item \<and> ph = RTool (rs_toolOutIdx s) item (rs_toolArgs s))
      else if rs_reasonOpen s then ph = RReason (rs_reasonIdx s) (rs_reasonItemID s) (rs_thinkText s)
      else ph = RIdle)"

definition reads :: "responsesSSE \<Rightarrow> response_reader \<Rightarrow> bool" where
  "reads s r \<longleftrightarrow> read_all read_numbered (frames (rs_out s)) fresh_response = Some r"

definition rs_inv :: "responsesSSE \<Rightarrow> response_reader \<Rightarrow> bool" where
  "rs_inv s r \<longleftrightarrow> reads s r \<and> (\<not> rs_panicked s \<longrightarrow> rr_Seq r = rs_seq s \<and> rr_Items r = rs_output s \<and> phase_of s (rr_Phase r) \<and>
     (rs_started s \<longrightarrow> rr_ID r = rs_id s) \<and> (\<not> rs_started s \<longrightarrow> rs_output s = []))"

lemma reads_write:
  assumes "reads s r" "rr_Seq r = rs_seq s" "\<not> rs_panicked s" "read_event e r = Some r'"
  shows "reads (rs_writeEvent fails e s) (r'\<lparr>rr_Seq := rs_seq s + 1\<rparr>)"
  using assms by (simp add: reads_def rs_writeEvent_def read_numbered_def)

lemma write_panicked: "rs_panicked s \<Longrightarrow> rs_writeEvent fails e s = s"
  by (simp add: rs_writeEvent_def)

lemma rs_write_fields [simp]:
  "rs_panicked (rs_writeEvent fails e s) = rs_panicked s" "rs_id (rs_writeEvent fails e s) = rs_id s"
  "rs_model (rs_writeEvent fails e s) = rs_model s" "rs_started (rs_writeEvent fails e s) = rs_started s"
  "rs_msgOpen (rs_writeEvent fails e s) = rs_msgOpen s" "rs_text (rs_writeEvent fails e s) = rs_text s"
  "rs_toolOpen (rs_writeEvent fails e s) = rs_toolOpen s" "rs_toolID (rs_writeEvent fails e s) = rs_toolID s"
  "rs_toolName (rs_writeEvent fails e s) = rs_toolName s" "rs_thinkText (rs_writeEvent fails e s) = rs_thinkText s"
  "rs_reasonOpen (rs_writeEvent fails e s) = rs_reasonOpen s" "rs_reasonIdx (rs_writeEvent fails e s) = rs_reasonIdx s"
  "rs_reasonItemID (rs_writeEvent fails e s) = rs_reasonItemID s" "rs_toolArgs (rs_writeEvent fails e s) = rs_toolArgs s"
  "rs_downgraded (rs_writeEvent fails e s) = rs_downgraded s" "rs_output (rs_writeEvent fails e s) = rs_output s"
  "rs_msgOutIdx (rs_writeEvent fails e s) = rs_msgOutIdx s" "rs_toolOutIdx (rs_writeEvent fails e s) = rs_toolOutIdx s"
  "rs_toolMapper (rs_writeEvent fails e s) = rs_toolMapper s" "rs_toolIdx (rs_writeEvent fails e s) = rs_toolIdx s"
  "rs_pendingIndex (rs_writeEvent fails e s) = rs_pendingIndex s"
  "\<not> rs_panicked s \<Longrightarrow> rs_seq (rs_writeEvent fails e s) = rs_seq s + 1"
  by (simp_all add: rs_writeEvent_def)

lemma inv_panicked: "reads s r \<Longrightarrow> rs_panicked s \<Longrightarrow> rs_inv s r"
  by (simp add: rs_inv_def)

lemma inv_reads: "rs_inv s r \<Longrightarrow> reads s r"
  by (simp add: rs_inv_def)

lemma started_panicked: "rs_panicked s \<Longrightarrow> rs_panicked (rs_ensureStarted fails i s) \<and> rs_out (rs_ensureStarted fails i s) = rs_out s"
  by (simp add: rs_ensureStarted_def write_panicked Let_def)

lemma message_panicked: "rs_panicked s \<Longrightarrow> rs_panicked (closeMessage fails s) \<and> rs_out (closeMessage fails s) = rs_out s"
  by (simp add: closeMessage_def write_panicked Let_def)

lemma tool_panicked: "rs_panicked s \<Longrightarrow> rs_panicked (closeTool fails s) \<and> rs_out (closeTool fails s) = rs_out s"
  by (simp add: closeTool_def write_panicked Let_def split: option.splits)

lemma reason_panicked: "rs_panicked s \<Longrightarrow> rs_panicked (closeReason fails x s) \<and> rs_out (closeReason fails x s) = rs_out s"
  by (simp add: closeReason_def write_panicked Let_def)

lemma inv_started:
  assumes "rs_inv s r"
  shows "\<exists>r'. rs_inv (rs_ensureStarted fails i s) r' \<and> rr_Texts r' = rr_Texts r"
proof -
  consider "rs_started s" | "rs_panicked s" | "\<not> rs_started s" "\<not> rs_panicked s" by blast
  then show ?thesis
  proof cases
    case 1
    with assms show ?thesis by (auto simp: rs_ensureStarted_def)
  next
    case 2
    from started_panicked [OF this, of fails i] inv_reads [OF assms] have "rs_inv (rs_ensureStarted fails i s) r"
      by (intro inv_panicked) (simp_all add: reads_def)
    then show ?thesis by blast
  next
    case 3
    define s1 where "s1 = (if i \<noteq> '''' then s\<lparr>rs_started := True, rs_id := i\<rparr> else s\<lparr>rs_started := True\<rparr>)"
    have r: "rr_Seq r = rs_seq s1" "rr_Phase r = RFresh" "reads s1 r" "\<not> rs_panicked s1" "rr_Items r = rs_output s1" "rs_output s1 = []"
      "\<not> rs_msgOpen s1" "\<not> rs_toolOpen s1" "\<not> rs_reasonOpen s1" "rs_started s1"
      using assms 3 by (auto simp: rs_inv_def phase_of_def s1_def reads_def)
    let ?e = "CreatedE (responseSkeleton s1 ''in_progress'')"
    have "read_event ?e r = Some (r\<lparr>rr_Phase := RIdle, rr_ID := rs_id s1\<rparr>)" using r by (simp add: responseSkeleton_def)
    from reads_write [OF r(3,1,4) this, of fails] r
    have "rs_inv (rs_writeEvent fails ?e s1) (r\<lparr>rr_Phase := RIdle, rr_ID := rs_id s1, rr_Seq := rs_seq s1 + 1\<rparr>)"
      by (simp add: rs_inv_def phase_of_def)
    moreover have "rs_ensureStarted fails i s = rs_writeEvent fails ?e s1"
      using 3 by (simp add: rs_ensureStarted_def s1_def Let_def)
    ultimately show ?thesis by (intro exI [of _ "r\<lparr>rr_Phase := RIdle, rr_ID := rs_id s1, rr_Seq := rs_seq s1 + 1\<rparr>"]) simp
  qed
qed

lemma inv_closeMessage:
  assumes "rs_inv s r"
  shows "\<exists>r'. rs_inv (closeMessage fails s) r' \<and> rr_Texts r' = rr_Texts r"
proof -
  consider "\<not> rs_msgOpen s" | "rs_panicked s" | "rs_msgOpen s" "\<not> rs_panicked s" by blast
  then show ?thesis
  proof cases
    case 1
    with assms show ?thesis by (auto simp: closeMessage_def)
  next
    case 2
    from message_panicked [OF this, of fails] inv_reads [OF assms] have "rs_inv (closeMessage fails s) r"
      by (intro inv_panicked) (simp_all add: reads_def)
    then show ?thesis by blast
  next
    case 3
    define idx t i where "idx = rs_msgOutIdx s" and "t = rs_text s" and "i = msg_id s (rs_msgOutIdx s)"
    have r: "reads s r" "rr_Seq r = rs_seq s" "\<not> rs_panicked s" "rr_Phase r = RMessage idx i t" "rr_Items r = rs_output s"
      "rs_started s" "\<not> rs_toolOpen s" "\<not> rs_reasonOpen s" "rr_ID r = rs_id s"
      using assms 3 by (auto simp: rs_inv_def phase_of_def idx_def t_def i_def split: if_splits)
    define s1 r1 where "s1 = rs_writeEvent fails (TextDoneE i idx t) s" and "r1 = r\<lparr>rr_Phase := RTextDone idx i t, rr_Seq := rs_seq s + 1\<rparr>"
    have 1: "reads s1 r1" unfolding s1_def r1_def by (rule reads_write [OF r(1-3)]) (simp add: r)
    define s2 r2 where "s2 = rs_writeEvent fails (PartDoneE i idx t) s1" and "r2 = r1\<lparr>rr_Phase := RPartDone idx i t, rr_Seq := rs_seq s1 + 1\<rparr>"
    have q1: "rr_Seq r1 = rs_seq s1" "\<not> rs_panicked s1" using r by (simp_all add: r1_def s1_def)
    have 2: "reads s2 r2" unfolding s2_def r2_def by (rule reads_write [OF 1 q1]) (simp add: r1_def)
    define item where "item = MessageItem i (Some t)"
    define s3 r3 where "s3 = rs_writeEvent fails (ItemDoneE idx item) s2"
      and "r3 = r2\<lparr>rr_Phase := RIdle, rr_Items := rr_Items r2 @ [item], rr_Seq := rs_seq s2 + 1\<rparr>"
    have q2: "rr_Seq r2 = rs_seq s2" "\<not> rs_panicked s2" using q1 by (simp_all add: r2_def s2_def)
    have 3: "reads s3 r3" unfolding s3_def r3_def by (rule reads_write [OF 2 q2]) (simp add: r2_def item_def)
    have close: "closeMessage fails s = s3\<lparr>rs_output := rs_output s3 @ [item], rs_msgOpen := False\<rparr>"
      using \<open>rs_msgOpen s\<close> by (simp add: closeMessage_def Let_def s3_def s2_def s1_def item_def idx_def t_def i_def msg_id_def)
    have fields: "rs_started s3" "\<not> rs_toolOpen s3" "\<not> rs_reasonOpen s3" "rs_output s3 = rs_output s" "rs_id s3 = rs_id s" "\<not> rs_panicked s3"
      using r by (simp_all add: s3_def s2_def s1_def)
    have "rr_Seq r3 = rs_seq s3" using q2 by (simp add: r3_def s3_def)
    with 3 fields r have "rs_inv (closeMessage fails s) r3"
      by (simp add: rs_inv_def phase_of_def close reads_def) (simp add: r3_def r2_def r1_def)
    then show ?thesis by (intro exI [of _ r3]) (simp add: r3_def r2_def r1_def)
  qed
qed

lemma item_fields:
  assumes "toolCallItem idx '''' s = Some item"
  shows "call_id item = fc_id s idx" "is_call item" "is_custom item \<longleftrightarrow> rs_downgraded s (rs_toolName s) = ''custom''"
    "with_arguments item args = toolCallItem idx args s"
  using assms by (auto simp: toolCallItem_def Let_def split: if_splits option.splits)

lemma item_write [simp]: "toolCallItem idx args (rs_writeEvent fails e s) = toolCallItem idx args s"
  by (simp add: toolCallItem_def fc_id_def Let_def)

lemma inv_closeTool:
  assumes "rs_inv s r"
  shows "\<exists>r'. rs_inv (closeTool fails s) r' \<and> rr_Texts r' = rr_Texts r"
proof -
  consider "\<not> rs_toolOpen s" | "rs_panicked s" | "rs_toolOpen s" "\<not> rs_panicked s" by blast
  then show ?thesis
  proof cases
    case 1
    with assms show ?thesis by (auto simp: closeTool_def)
  next
    case 2
    from tool_panicked [OF this, of fails] inv_reads [OF assms] have "rs_inv (closeTool fails s) r"
      by (intro inv_panicked) (simp_all add: reads_def)
    then show ?thesis by blast
  next
    case 3
    define idx args where "idx = rs_toolOutIdx s" and "args = full_arguments (rs_toolArgs s)"
    from assms 3 obtain item where item: "toolCallItem idx '''' s = Some item" and ph: "rr_Phase r = RTool idx item (rs_toolArgs s)"
      by (auto simp: rs_inv_def phase_of_def idx_def split: if_splits)
    have r: "reads s r" "rr_Seq r = rs_seq s" "\<not> rs_panicked s" "rr_Items r = rs_output s"
      "rs_started s" "\<not> rs_msgOpen s" "\<not> rs_reasonOpen s" "rr_ID r = rs_id s"
      using assms 3 by (auto simp: rs_inv_def phase_of_def split: if_splits)
    define e where "e = (if rs_downgraded s (rs_toolName s) = ''custom'' then CustomDoneE (fc_id s idx) idx (unwrapCustomInput args)
        else ArgumentsDoneE (fc_id s idx) idx args)"
    define s1 r1 where "s1 = rs_writeEvent fails e s" and "r1 = r\<lparr>rr_Phase := RToolDone idx item args, rr_Seq := rs_seq s + 1\<rparr>"
    have 1: "reads s1 r1"
      unfolding s1_def r1_def by (rule reads_write [OF r(1-3)]) (simp add: e_def ph item_fields [OF item] args_def)
    have q1: "rr_Seq r1 = rs_seq s1" "\<not> rs_panicked s1" using r by (simp_all add: r1_def s1_def)
    show ?thesis
    proof (cases "toolCallItem idx args s")
      case None
      have "closeTool fails s = s1\<lparr>rs_panicked := True\<rparr>"
        using \<open>rs_toolOpen s\<close> None by (simp add: closeTool_def Let_def s1_def e_def idx_def [symmetric] args_def [symmetric])
      with 1 have "rs_inv (closeTool fails s) r1" by (intro inv_panicked) (simp_all add: reads_def)
      then show ?thesis by (intro exI [of _ r1]) (simp add: r1_def)
    next
      case (Some full)
      define s2 r2 where "s2 = rs_writeEvent fails (ItemDoneE idx full) s1"
        and "r2 = r1\<lparr>rr_Phase := RIdle, rr_Items := rr_Items r1 @ [full], rr_Seq := rs_seq s1 + 1\<rparr>"
      have 2: "reads s2 r2"
        unfolding s2_def r2_def by (rule reads_write [OF 1 q1]) (simp add: r1_def item_fields [OF item] Some)
      have close: "closeTool fails s = s2\<lparr>rs_output := rs_output s2 @ [full], rs_toolOpen := False\<rparr>"
        using \<open>rs_toolOpen s\<close> Some by (simp add: closeTool_def Let_def s2_def s1_def e_def idx_def [symmetric] args_def [symmetric])
      have fields: "rs_started s2" "\<not> rs_msgOpen s2" "\<not> rs_reasonOpen s2" "rs_output s2 = rs_output s" "rs_id s2 = rs_id s" "\<not> rs_panicked s2"
        using r by (simp_all add: s2_def s1_def)
      have "rr_Seq r2 = rs_seq s2" using q1 by (simp add: r2_def s2_def)
      with 2 fields r have "rs_inv (closeTool fails s) r2"
        by (simp add: rs_inv_def phase_of_def close reads_def) (simp add: r2_def r1_def)
      then show ?thesis by (intro exI [of _ r2]) (simp add: r2_def r1_def)
    qed
  qed
qed

lemma inv_closeReason:
  assumes "rs_inv s r"
  shows "\<exists>r'. rs_inv (closeReason fails x s) r' \<and> rr_Texts r' = rr_Texts r"
proof -
  consider "\<not> rs_reasonOpen s" | "rs_panicked s" | "rs_reasonOpen s" "\<not> rs_panicked s" by blast
  then show ?thesis
  proof cases
    case 1
    with assms show ?thesis by (auto simp: closeReason_def)
  next
    case 2
    from reason_panicked [OF this, of fails x] inv_reads [OF assms] have "rs_inv (closeReason fails x s) r"
      by (intro inv_panicked) (simp_all add: reads_def)
    then show ?thesis by blast
  next
    case 3
    have r: "reads s r" "rr_Seq r = rs_seq s" "\<not> rs_panicked s" "rr_Items r = rs_output s"
      "rs_started s" "\<not> rs_msgOpen s" "\<not> rs_toolOpen s" "rr_ID r = rs_id s"
      "rr_Phase r = RReason (rs_reasonIdx s) (rs_reasonItemID s) (rs_thinkText s)"
      using assms 3 by (auto simp: rs_inv_def phase_of_def split: if_splits)
    define s1 where "s1 = s\<lparr>rs_reasonOpen := False, rs_reasonSourceID := ''''\<rparr>"
    define item where "item = ReasoningItem (rs_reasonItemID s) (Some (rs_thinkText s, nonempty x))"
    have q: "reads s1 r" "rr_Seq r = rs_seq s1" "\<not> rs_panicked s1" using r by (simp_all add: s1_def reads_def)
    define s2 r2 where "s2 = rs_writeEvent fails (ItemDoneE (rs_reasonIdx s) item) s1"
      and "r2 = r\<lparr>rr_Phase := RIdle, rr_Items := rr_Items r @ [item], rr_Seq := rs_seq s1 + 1\<rparr>"
    have 2: "reads s2 r2" unfolding s2_def r2_def by (rule reads_write [OF q]) (simp add: r item_def)
    have close: "closeReason fails x s = s2\<lparr>rs_output := rs_output s2 @ [item]\<rparr>"
      using \<open>rs_reasonOpen s\<close> by (simp add: closeReason_def Let_def s2_def s1_def item_def)
    have fields: "rs_started s2" "\<not> rs_msgOpen s2" "\<not> rs_toolOpen s2" "\<not> rs_reasonOpen s2" "rs_output s2 = rs_output s" "rs_id s2 = rs_id s" "\<not> rs_panicked s2"
      using r by (simp_all add: s2_def s1_def)
    have "rr_Seq r2 = rs_seq s2" using q by (simp add: r2_def s2_def)
    with 2 fields r have "rs_inv (closeReason fails x s) r2"
      by (simp add: rs_inv_def phase_of_def close reads_def) (simp add: r2_def)
    then show ?thesis by (intro exI [of _ r2]) (simp add: r2_def)
  qed
qed

text \<open>What the closing operations leave open.\<close>

lemma started_state [simp]:
  "rs_started (rs_ensureStarted fails i s)" "rs_msgOpen (rs_ensureStarted fails i s) = rs_msgOpen s"
  "rs_toolOpen (rs_ensureStarted fails i s) = rs_toolOpen s" "rs_reasonOpen (rs_ensureStarted fails i s) = rs_reasonOpen s"
  "rs_panicked (rs_ensureStarted fails i s) = rs_panicked s"
  by (simp_all add: rs_ensureStarted_def Let_def)

lemma message_state [simp]:
  "\<not> rs_msgOpen (closeMessage fails s)" "rs_started (closeMessage fails s) = rs_started s"
  "rs_toolOpen (closeMessage fails s) = rs_toolOpen s" "rs_reasonOpen (closeMessage fails s) = rs_reasonOpen s"
  "rs_panicked (closeMessage fails s) = rs_panicked s"
  by (simp_all add: closeMessage_def Let_def)

lemma tool_state [simp]:
  "rs_msgOpen (closeTool fails s) = rs_msgOpen s" "rs_started (closeTool fails s) = rs_started s"
  "rs_reasonOpen (closeTool fails s) = rs_reasonOpen s"
  "\<not> rs_panicked (closeTool fails s) \<Longrightarrow> \<not> rs_toolOpen (closeTool fails s)"
  "\<not> rs_panicked (closeTool fails s) \<Longrightarrow> \<not> rs_panicked s"
  by (simp_all add: closeTool_def Let_def split: option.splits if_splits)

lemma reason_state [simp]:
  "\<not> rs_reasonOpen (closeReason fails x s)" "rs_started (closeReason fails x s) = rs_started s"
  "rs_msgOpen (closeReason fails x s) = rs_msgOpen s" "rs_toolOpen (closeReason fails x s) = rs_toolOpen s"
  "rs_panicked (closeReason fails x s) = rs_panicked s"
  by (simp_all add: closeReason_def Let_def)

lemma alloc_state [simp]:
  "rs_out (fst (allocIndex up s)) = rs_out s" "rs_seq (fst (allocIndex up s)) = rs_seq s" "rs_id (fst (allocIndex up s)) = rs_id s"
  "rs_started (fst (allocIndex up s)) = rs_started s" "rs_msgOpen (fst (allocIndex up s)) = rs_msgOpen s"
  "rs_toolOpen (fst (allocIndex up s)) = rs_toolOpen s" "rs_reasonOpen (fst (allocIndex up s)) = rs_reasonOpen s"
  "rs_output (fst (allocIndex up s)) = rs_output s" "rs_panicked (fst (allocIndex up s)) = rs_panicked s"
  "rs_downgraded (fst (allocIndex up s)) = rs_downgraded s" "rs_toolID (fst (allocIndex up s)) = rs_toolID s"
  "rs_toolName (fst (allocIndex up s)) = rs_toolName s"
  by (simp_all add: allocIndex_def Let_def)

lemma inv_idle:
  assumes "rs_inv s r" "\<not> rs_panicked s" "rs_started s" "\<not> rs_msgOpen s" "\<not> rs_toolOpen s" "\<not> rs_reasonOpen s"
  shows "reads s r" "rr_Phase r = RIdle" "rr_Seq r = rs_seq s" "rr_Items r = rs_output s" "rr_ID r = rs_id s"
  using assms by (simp_all add: rs_inv_def phase_of_def)

lemma reads_same: "rs_out s' = rs_out s \<Longrightarrow> reads s' r = reads s r"
  by (simp add: reads_def)

lemma inv_openReason:
  assumes "rs_inv s r" "\<not> rs_reasonOpen s"
  shows "\<exists>r'. rs_inv (openReason fails ev s) r' \<and> rr_Texts r' = rr_Texts r \<and> (rs_panicked (openReason fails ev s) \<or> rs_reasonOpen (openReason fails ev s))"
proof -
  define s0 where "s0 = closeTool fails (closeMessage fails (rs_ensureStarted fails '''' s))"
  obtain ra where "rs_inv (rs_ensureStarted fails '''' s) ra" "rr_Texts ra = rr_Texts r" using inv_started [OF assms(1)] by blast
  moreover from inv_closeMessage [OF this(1)] obtain rb where "rs_inv (closeMessage fails (rs_ensureStarted fails '''' s)) rb" "rr_Texts rb = rr_Texts ra" by blast
  moreover from inv_closeTool [OF this(1)] obtain r0 where "rs_inv s0 r0" "rr_Texts r0 = rr_Texts rb" unfolding s0_def by blast
  ultimately have r0: "rs_inv s0 r0" "rr_Texts r0 = rr_Texts r" by simp_all
  define idx where "idx = snd (allocIndex (ev_OutputIndex ev) (s0\<lparr>rs_reasonOpen := True\<rparr>))"
  define i where "i = (if ev_ReasoningID ev \<noteq> '''' then ev_ReasoningID ev else rs_id s0 @ ''-reason-'' @ itoa idx)"
  define s1 where "s1 = (fst (allocIndex (ev_OutputIndex ev) (s0\<lparr>rs_reasonOpen := True\<rparr>)))
      \<lparr>rs_reasonIdx := idx, rs_thinkText := '''', rs_reasonSourceID := ev_ReasoningID ev, rs_reasonItemID := i\<rparr>"
  have open_eq: "openReason fails ev s = rs_writeEvent fails (ItemAddedE idx (ReasoningItem i None)) s1"
    unfolding openReason_def Let_def case_prod_unfold s0_def [symmetric] idx_def [symmetric] by (simp add: s1_def i_def)
  have s1: "rs_out s1 = rs_out s0" "rs_panicked s1 = rs_panicked s0" "rs_seq s1 = rs_seq s0" "rs_reasonOpen s1" "rs_started s1 = rs_started s0"
    "rs_msgOpen s1 = rs_msgOpen s0" "rs_toolOpen s1 = rs_toolOpen s0" "rs_output s1 = rs_output s0" "rs_id s1 = rs_id s0"
    "rs_reasonIdx s1 = idx" "rs_reasonItemID s1 = i" "rs_thinkText s1 = ''''"
    by (simp_all add: s1_def)
  show ?thesis
  proof (cases "rs_panicked s0")
    case True
    with r0 s1 have "rs_inv (openReason fails ev s) r0"
      by (intro inv_panicked) (simp_all add: open_eq write_panicked reads_same [OF s1(1)] inv_reads)
    with r0 s1 True show ?thesis by (auto simp: open_eq)
  next
    case False
    have st: "rs_started s0" "\<not> rs_msgOpen s0" "\<not> rs_toolOpen s0" "\<not> rs_reasonOpen s0"
      using False assms(2) by (simp_all add: s0_def)
    note idle = inv_idle [OF r0(1) False st]
    define r1 where "r1 = r0\<lparr>rr_Phase := RReason idx i '''', rr_Seq := rs_seq s1 + 1\<rparr>"
    have q: "reads s1 r0" "rr_Seq r0 = rs_seq s1" "\<not> rs_panicked s1" using idle s1 False by (simp_all add: reads_same [OF s1(1)])
    have "reads (openReason fails ev s) r1"
      unfolding open_eq r1_def by (rule reads_write [OF q]) (simp add: idle(2))
    then have "rs_inv (openReason fails ev s) r1"
      using idle s1 st False by (simp add: rs_inv_def phase_of_def open_eq) (simp add: r1_def)
    moreover have "rr_Texts r1 = rr_Texts r" "rs_reasonOpen (openReason fails ev s)" using r0 s1 by (simp_all add: r1_def open_eq)
    ultimately show ?thesis by blast
  qed
qed

lemma inv_reasonDelta:
  assumes "rs_inv s r" "rs_panicked s \<or> rs_reasonOpen s"
  shows "\<exists>r'. rs_inv (rs_writeEvent fails (ReasoningDeltaE (rs_reasonItemID s) (rs_reasonIdx s) t)
      (s\<lparr>rs_thinkText := rs_thinkText s @ t, rs_wroteContent := True\<rparr>)) r' \<and> rr_Texts r' = rr_Texts r"
proof -
  define s1 where "s1 = s\<lparr>rs_thinkText := rs_thinkText s @ t, rs_wroteContent := True\<rparr>"
  have s1: "rs_out s1 = rs_out s" "rs_panicked s1 = rs_panicked s" "rs_seq s1 = rs_seq s" by (simp_all add: s1_def)
  show ?thesis
  proof (cases "rs_panicked s")
    case True
    with assms(1) s1 have "rs_inv (rs_writeEvent fails (ReasoningDeltaE (rs_reasonItemID s) (rs_reasonIdx s) t) s1) r"
      by (intro inv_panicked) (simp_all add: write_panicked reads_same [OF s1(1)] inv_reads)
    then show ?thesis unfolding s1_def by blast
  next
    case False
    then have r: "reads s r" "rr_Seq r = rs_seq s" "rr_Items r = rs_output s" "rs_started s" "rs_reasonOpen s" "\<not> rs_msgOpen s" "\<not> rs_toolOpen s"
      "rr_ID r = rs_id s" "rr_Phase r = RReason (rs_reasonIdx s) (rs_reasonItemID s) (rs_thinkText s)"
      using assms by (auto simp: rs_inv_def phase_of_def split: if_splits)
    define r1 where "r1 = r\<lparr>rr_Phase := RReason (rs_reasonIdx s) (rs_reasonItemID s) (rs_thinkText s @ t), rr_Seq := rs_seq s1 + 1\<rparr>"
    have q: "reads s1 r" "rr_Seq r = rs_seq s1" "\<not> rs_panicked s1" using r s1 False by (simp_all add: reads_same [OF s1(1)])
    have "reads (rs_writeEvent fails (ReasoningDeltaE (rs_reasonItemID s) (rs_reasonIdx s) t) s1) r1"
      unfolding r1_def by (rule reads_write [OF q]) (simp add: r(9))
    then have "rs_inv (rs_writeEvent fails (ReasoningDeltaE (rs_reasonItemID s) (rs_reasonIdx s) t) s1) r1"
      using r False by (simp add: rs_inv_def phase_of_def s1_def) (simp add: r1_def s1_def)
    moreover have "rr_Texts r1 = rr_Texts r" by (simp add: r1_def)
    ultimately show ?thesis unfolding s1_def by blast
  qed
qed

lemma inv_thinking:
  assumes "rs_inv s r"
  shows "\<exists>r'. rs_inv (thinkingDelta fails proto ev s) r' \<and> rr_Texts r' = rr_Texts r"
proof -
  define s1 where "s1 = (if ev_ReasoningID ev \<noteq> '''' \<and> rs_reasonOpen s \<and> rs_reasonSourceID s \<noteq> '''' \<and> ev_ReasoningID ev \<noteq> rs_reasonSourceID s
      then closeReason fails '''' s else s)"
  define s2 where "s2 = (if \<not> rs_reasonOpen s1 then openReason fails ev s1 else s1)"
  define s3 where "s3 = (if ev_Text ev \<noteq> ''''
      then rs_writeEvent fails (ReasoningDeltaE (rs_reasonItemID s2) (rs_reasonIdx s2) (ev_Text ev))
             (s2\<lparr>rs_thinkText := rs_thinkText s2 @ ev_Text ev, rs_wroteContent := True\<rparr>) else s2)"
  have "\<exists>r1. rs_inv s1 r1 \<and> rr_Texts r1 = rr_Texts r" using assms inv_closeReason [OF assms, of fails "''''"] by (auto simp: s1_def)
  then obtain r1 where r1: "rs_inv s1 r1" "rr_Texts r1 = rr_Texts r" by blast
  have "\<exists>r2. rs_inv s2 r2 \<and> rr_Texts r2 = rr_Texts r1 \<and> (rs_panicked s2 \<or> rs_reasonOpen s2)"
  proof (cases "rs_reasonOpen s1")
    case True
    with r1 show ?thesis by (auto simp: s2_def)
  next
    case False
    with inv_openReason [OF r1(1) False, of fails ev] show ?thesis by (simp add: s2_def)
  qed
  then obtain r2 where r2: "rs_inv s2 r2" "rr_Texts r2 = rr_Texts r1" "rs_panicked s2 \<or> rs_reasonOpen s2" by blast
  obtain r3 where r3: "rs_inv s3 r3" "rr_Texts r3 = rr_Texts r2"
    using r2 inv_reasonDelta [OF r2(1,3), of fails "ev_Text ev"] by (cases "ev_Text ev = ''''") (auto simp: s3_def)
  have "\<exists>r4. rs_inv (if ev_Sealed ev = '''' then s3 else closeReason fails (ev_Sealed ev) s3) r4 \<and> rr_Texts r4 = rr_Texts r3"
    using r3 inv_closeReason [OF r3(1)] by auto
  with r1 r2 r3 assms show ?thesis
    unfolding thinkingDelta_def Let_def s1_def [symmetric] s2_def [symmetric] s3_def [symmetric] by auto
qed


lemma inv_openMessage:
  assumes "rs_inv s r" "rs_started s" "\<not> rs_msgOpen s" "\<not> rs_reasonOpen s"
  shows "\<exists>r'. rs_inv (openMessage fails ev s) r' \<and> rr_Texts r' = rr_Texts r \<and>
    rs_started (openMessage fails ev s) \<and> (rs_panicked (openMessage fails ev s) \<or> rs_msgOpen (openMessage fails ev s))"
proof -
  define s0 where "s0 = closeTool fails s"
  obtain r0 where r0: "rs_inv s0 r0" "rr_Texts r0 = rr_Texts r" using inv_closeTool [OF assms(1), of fails] unfolding s0_def by blast
  define idx where "idx = snd (allocIndex (ev_OutputIndex ev) s0)"
  define s1 where "s1 = (let a = (fst (allocIndex (ev_OutputIndex ev) s0))\<lparr>rs_text := ''''\<rparr> in
      case ev_OutputIndex ev of Some i \<Rightarrow> a\<lparr>rs_msgSourceIdx := i, rs_msgSourceKnown := True\<rparr> | None \<Rightarrow> a\<lparr>rs_msgSourceKnown := False\<rparr>)"
  define i where "i = msg_id s1 idx"
  define s2 where "s2 = rs_writeEvent fails (ItemAddedE idx (MessageItem i None)) s1"
  define s3 where "s3 = rs_writeEvent fails (PartAddedE i idx) s2"
  have i: "msg_id s1 idx = i" "msg_id s2 idx = i" by (simp_all add: i_def s2_def msg_id_def)
  have open_eq: "openMessage fails ev s = s3\<lparr>rs_msgOpen := True, rs_msgOutIdx := idx\<rparr>"
    unfolding openMessage_def Let_def case_prod_unfold s0_def [symmetric] idx_def [symmetric]
      s1_def [unfolded Let_def, symmetric] i s2_def [symmetric] s3_def [symmetric] ..
  have s1: "rs_out s1 = rs_out s0" "rs_panicked s1 = rs_panicked s0" "rs_seq s1 = rs_seq s0" "rs_reasonOpen s1 = rs_reasonOpen s0"
    "rs_started s1 = rs_started s0" "rs_toolOpen s1 = rs_toolOpen s0" "rs_output s1 = rs_output s0" "rs_id s1 = rs_id s0" "rs_text s1 = ''''"
    by (simp_all add: s1_def Let_def split: option.splits)
  have st: "rs_started s0" "\<not> rs_msgOpen s0" "\<not> rs_reasonOpen s0" using assms by (simp_all add: s0_def)
  show ?thesis
  proof (cases "rs_panicked s0")
    case True
    with s1 have "rs_out s3 = rs_out s0" "rs_panicked s3" by (simp_all add: s3_def s2_def write_panicked)
    with r0 have "rs_inv (openMessage fails ev s) r0"
      by (intro inv_panicked) (simp_all add: open_eq reads_def rs_inv_def)
    with r0 st s1 True show ?thesis by (auto simp: open_eq s3_def s2_def)
  next
    case False
    then have "\<not> rs_toolOpen s0" by (simp add: s0_def)
    note idle = inv_idle [OF r0(1) False st(1,2) this st(3)]
    have q: "reads s1 r0" "rr_Seq r0 = rs_seq s1" "\<not> rs_panicked s1" using idle s1 False by (simp_all add: reads_same [OF s1(1)])
    define r1 where "r1 = r0\<lparr>rr_Phase := RMessageNew idx i, rr_Seq := rs_seq s1 + 1\<rparr>"
    have 1: "reads s2 r1" unfolding s2_def r1_def by (rule reads_write [OF q]) (simp add: idle(2))
    define r2 where "r2 = r1\<lparr>rr_Phase := RMessage idx i '''', rr_Seq := rs_seq s2 + 1\<rparr>"
    have q1: "rr_Seq r1 = rs_seq s2" "\<not> rs_panicked s2" using q by (simp_all add: r1_def s2_def)
    have 2: "reads s3 r2" unfolding s3_def r2_def by (rule reads_write [OF 1 q1]) (simp add: r1_def)
    have f: "rs_started s3" "\<not> rs_toolOpen s3" "\<not> rs_reasonOpen s3" "rs_output s3 = rs_output s0" "rs_id s3 = rs_id s0" "\<not> rs_panicked s3" "rs_text s3 = ''''"
      using s1 st False \<open>\<not> rs_toolOpen s0\<close> by (simp_all add: s3_def s2_def)
    have "i = rs_id s0 @ ''-msg-'' @ itoa idx" using s1 by (simp add: i_def msg_id_def)
    moreover have "rr_Seq r2 = rs_seq s3" using q1 by (simp add: r2_def s3_def)
    ultimately have "rs_inv (openMessage fails ev s) r2"
      using 2 f idle by (simp add: rs_inv_def phase_of_def open_eq reads_def msg_id_def) (simp add: r2_def r1_def)
    moreover have "rr_Texts r2 = rr_Texts r" using r0 by (simp add: r2_def r1_def)
    moreover have "rs_started (openMessage fails ev s)" "rs_msgOpen (openMessage fails ev s)" using f by (simp_all add: open_eq)
    ultimately show ?thesis by blast
  qed
qed

lemma inv_textWrite:
  fixes t :: string
  assumes "rs_inv s r" "rs_panicked s \<or> rs_msgOpen s" "rs_started s"
  defines "s' \<equiv> s\<lparr>rs_wroteContent := True, rs_text := rs_text s @ t\<rparr>"
  shows "\<exists>r'. rs_inv (rs_writeEvent fails (TextDeltaE (msg_id s' (rs_msgOutIdx s')) (rs_msgOutIdx s') t) s') r' \<and>
    (if rs_panicked s then rr_Texts r' = rr_Texts r else rr_Texts r' = rr_Texts r @ t)"
proof -
  define i idx where "i = msg_id s (rs_msgOutIdx s)" and "idx = rs_msgOutIdx s"
  have s1: "rs_out s' = rs_out s" "rs_panicked s' = rs_panicked s" "rs_seq s' = rs_seq s" "msg_id s' (rs_msgOutIdx s') = i" "rs_msgOutIdx s' = idx"
    by (simp_all add: s'_def msg_id_def i_def idx_def)
  define s2 where "s2 = rs_writeEvent fails (TextDeltaE i idx t) s'"
  have "\<exists>r'. rs_inv s2 r' \<and> (if rs_panicked s then rr_Texts r' = rr_Texts r else rr_Texts r' = rr_Texts r @ t)"
  proof (cases "rs_panicked s")
    case True
    with assms(1) s1 have "rs_inv s2 r"
      unfolding s2_def by (intro inv_panicked) (simp_all add: write_panicked reads_same [OF s1(1)] inv_reads)
    with True show ?thesis by auto
  next
    case False
    then have r: "reads s r" "rr_Seq r = rs_seq s" "rr_Items r = rs_output s" "rs_started s" "rs_msgOpen s" "\<not> rs_reasonOpen s" "\<not> rs_toolOpen s"
      "rr_ID r = rs_id s" "rr_Phase r = RMessage idx i (rs_text s)"
      using assms(1-3) by (auto simp: rs_inv_def phase_of_def i_def idx_def split: if_splits)
    define r1 where "r1 = r\<lparr>rr_Phase := RMessage idx i (rs_text s @ t), rr_Texts := rr_Texts r @ t, rr_Seq := rs_seq s' + 1\<rparr>"
    have q: "reads s' r" "rr_Seq r = rs_seq s'" "\<not> rs_panicked s'" using r s1 False by (simp_all add: reads_same [OF s1(1)])
    have "reads s2 r1" unfolding s2_def r1_def by (rule reads_write [OF q]) (simp add: r(9))
    moreover have "rr_Seq r1 = rs_seq s2" using q by (simp add: r1_def s2_def)
    moreover have "rs_started s2" "rs_msgOpen s2" "\<not> rs_toolOpen s2" "\<not> rs_reasonOpen s2" "rs_output s2 = rs_output s" "rs_id s2 = rs_id s"
      "rs_msgOutIdx s2 = idx" "rs_text s2 = rs_text s @ t" "msg_id s2 idx = i"
      using r by (simp_all add: s2_def s'_def idx_def i_def msg_id_def)
    moreover have "rr_Phase r1 = RMessage idx i (rs_text s @ t)" "rr_Items r1 = rs_output s" "rr_ID r1 = rs_id s"
      using r by (simp_all add: r1_def)
    ultimately have "rs_inv s2 r1" by (simp add: rs_inv_def phase_of_def)
    moreover have "rr_Texts r1 = rr_Texts r @ t" by (simp add: r1_def)
    ultimately show ?thesis using False by auto
  qed
  then show ?thesis unfolding s1(4) unfolding s1(5) s2_def .
qed

lemma inv_text:
  assumes "rs_inv s r"
  shows "\<exists>r'. rs_inv (textDelta fails ev s) r' \<and>
    (if rs_panicked (textDelta fails ev s) then rr_Texts r' = rr_Texts r else rr_Texts r' = rr_Texts r @ ev_Text ev)"
proof (cases "ev_Text ev = ''''")
  case True
  with assms show ?thesis by (auto simp: textDelta_def)
next
  case False
  define s1 where "s1 = rs_ensureStarted fails '''' s"
  define s2 where "s2 = (case ev_OutputIndex ev of
      Some i \<Rightarrow> if rs_msgOpen s1 \<and> rs_msgSourceKnown s1 \<and> i \<noteq> rs_msgSourceIdx s1 then closeMessage fails s1 else s1 | None \<Rightarrow> s1)"
  define s3 where "s3 = closeReason fails '''' s2"
  define s4 where "s4 = (if \<not> rs_msgOpen s3 then openMessage fails ev s3 else s3)"
  obtain r1 where r1: "rs_inv s1 r1" "rr_Texts r1 = rr_Texts r" using inv_started [OF assms] unfolding s1_def by blast
  have "\<exists>r2. rs_inv s2 r2 \<and> rr_Texts r2 = rr_Texts r1"
    using r1 inv_closeMessage [OF r1(1), of fails] by (auto simp: s2_def split: option.splits)
  then obtain r2 where r2: "rs_inv s2 r2" "rr_Texts r2 = rr_Texts r1" by blast
  obtain r3 where r3: "rs_inv s3 r3" "rr_Texts r3 = rr_Texts r2" using inv_closeReason [OF r2(1)] unfolding s3_def by blast
  have st: "rs_started s3" "\<not> rs_reasonOpen s3" by (simp_all add: s3_def s2_def s1_def split: option.split)
  have "\<exists>r4. rs_inv s4 r4 \<and> rr_Texts r4 = rr_Texts r3 \<and> rs_started s4 \<and> (rs_panicked s4 \<or> rs_msgOpen s4)"
    using r3 st inv_openMessage [OF r3(1) st(1) _ st(2), of fails ev] by (cases "rs_msgOpen s3") (auto simp: s4_def)
  then obtain r4 where r4: "rs_inv s4 r4" "rr_Texts r4 = rr_Texts r3" "rs_started s4" "rs_panicked s4 \<or> rs_msgOpen s4" by blast
  have t: "textDelta fails ev s = (let s' = s4\<lparr>rs_wroteContent := True, rs_text := rs_text s4 @ ev_Text ev\<rparr>
      in rs_writeEvent fails (TextDeltaE (msg_id s' (rs_msgOutIdx s')) (rs_msgOutIdx s') (ev_Text ev)) s')"
    using False unfolding textDelta_def Let_def s1_def [symmetric] s2_def [symmetric] s3_def [symmetric] s4_def [symmetric] by simp
  then have p: "rs_panicked (textDelta fails ev s) = rs_panicked s4" by (simp add: Let_def)
  have same: "rr_Texts r4 = rr_Texts r" using r1 r2 r3 r4 by simp
  show ?thesis
    using inv_textWrite [OF r4(1,4,3), of fails "ev_Text ev"] unfolding p unfolding t Let_def same .
qed


lemma call_starts: "\<exists>item. toolCallItem idx '''' s = Some item"
proof -
  have "Unmarshal '''' = None" by code_simp
  then show ?thesis by (simp add: toolCallItem_def localShellAction_def Let_def)
qed

lemma inv_openTool:
  assumes "rs_inv s r" "rs_started s" "\<not> rs_reasonOpen s"
  shows "\<exists>r'. rs_inv (openTool fails ev toolIdx s) r' \<and> rr_Texts r' = rr_Texts r \<and> rs_started (openTool fails ev toolIdx s) \<and>
    \<not> rs_reasonOpen (openTool fails ev toolIdx s) \<and> (rs_panicked (openTool fails ev toolIdx s) \<or> rs_toolOpen (openTool fails ev toolIdx s))"
proof -
  define s0 where "s0 = closeTool fails (closeMessage fails s)"
  obtain ra where "rs_inv (closeMessage fails s) ra" "rr_Texts ra = rr_Texts r" using inv_closeMessage [OF assms(1)] by blast
  moreover from inv_closeTool [OF this(1)] obtain r0 where "rs_inv s0 r0" "rr_Texts r0 = rr_Texts ra" unfolding s0_def by blast
  ultimately have r0: "rs_inv s0 r0" "rr_Texts r0 = rr_Texts r" by simp_all
  define idx where "idx = snd (allocIndex (ev_OutputIndex ev) s0)"
  define s1 where "s1 = (let a = (fst (allocIndex (ev_OutputIndex ev) s0))\<lparr>rs_toolOpen := True, rs_toolIdx := toolIdx, rs_toolOutIdx := idx\<rparr>
      in if ev_ToolID ev \<noteq> '''' then a\<lparr>rs_toolID := ev_ToolID ev, rs_toolName := ev_ToolName ev\<rparr> else a)"
  define s2 where "s2 = s1\<lparr>rs_toolArgs := ''''\<rparr>"
  obtain item where item: "toolCallItem idx '''' s2 = Some item" using call_starts by blast
  have open_eq: "openTool fails ev toolIdx s = rs_writeEvent fails (ItemAddedE idx item) s2"
    unfolding openTool_def Let_def case_prod_unfold s0_def [symmetric] idx_def [symmetric] s1_def [unfolded Let_def, symmetric] s2_def [symmetric]
    using item by simp
  have s2: "rs_out s2 = rs_out s0" "rs_panicked s2 = rs_panicked s0" "rs_seq s2 = rs_seq s0" "rs_reasonOpen s2 = rs_reasonOpen s0"
    "rs_started s2 = rs_started s0" "rs_toolOpen s2" "rs_output s2 = rs_output s0" "rs_id s2 = rs_id s0" "rs_toolArgs s2 = ''''"
    "rs_msgOpen s2 = rs_msgOpen s0" "rs_toolOutIdx s2 = idx"
    by (simp_all add: s2_def s1_def Let_def)
  have st: "rs_started s0" "\<not> rs_msgOpen s0" "\<not> rs_reasonOpen s0" using assms by (simp_all add: s0_def)
  show ?thesis
  proof (cases "rs_panicked s0")
    case True
    with r0 s2 have "rs_inv (openTool fails ev toolIdx s) r0"
      by (intro inv_panicked) (simp_all add: open_eq write_panicked reads_same [OF s2(1)] inv_reads)
    with r0 st s2 True show ?thesis by (auto simp: open_eq)
  next
    case False
    then have "\<not> rs_toolOpen s0" by (simp add: s0_def)
    note idle = inv_idle [OF r0(1) False st(1,2) this st(3)]
    have q: "reads s2 r0" "rr_Seq r0 = rs_seq s2" "\<not> rs_panicked s2" using idle s2 False by (simp_all add: reads_same [OF s2(1)])
    define r1 where "r1 = r0\<lparr>rr_Phase := RTool idx item '''', rr_Seq := rs_seq s2 + 1\<rparr>"
    have "read_event (ItemAddedE idx item) r0 = Some (r0\<lparr>rr_Phase := RTool idx item ''''\<rparr>)"
      using item_fields(2) [OF item] idle(2) by (cases item) simp_all
    from reads_write [OF q this, of fails] have "reads (openTool fails ev toolIdx s) r1" by (simp add: open_eq r1_def)
    then have "rs_inv (openTool fails ev toolIdx s) r1"
      using idle s2 st False item by (simp add: rs_inv_def phase_of_def open_eq) (simp add: r1_def)
    moreover have "rr_Texts r1 = rr_Texts r" using r0 by (simp add: r1_def)
    moreover have "rs_started (openTool fails ev toolIdx s)" "\<not> rs_reasonOpen (openTool fails ev toolIdx s)" "rs_toolOpen (openTool fails ev toolIdx s)"
      using s2 st by (simp_all add: open_eq)
    ultimately show ?thesis by blast
  qed
qed

lemma call_same:
  "rs_id s = rs_id s' \<Longrightarrow> rs_toolID s = rs_toolID s' \<Longrightarrow> rs_toolName s = rs_toolName s' \<Longrightarrow> rs_downgraded s = rs_downgraded s' \<Longrightarrow>
   toolCallItem idx args s = toolCallItem idx args s'"
  by (simp add: toolCallItem_def fc_id_def Let_def)

lemma inv_argumentsDelta:
  fixes t :: string
  assumes "rs_inv s r" "rs_panicked s \<or> rs_toolOpen s" "rs_started s"
  defines "s' \<equiv> s\<lparr>rs_toolArgs := rs_toolArgs s @ t\<rparr>"
  shows "\<exists>r'. rs_inv (rs_writeEvent fails (if rs_downgraded s' (rs_toolName s') = ''custom'' then CustomDeltaE (fc_id s' (rs_toolOutIdx s')) (rs_toolOutIdx s') t
      else ArgumentsDeltaE (fc_id s' (rs_toolOutIdx s')) (rs_toolOutIdx s') t) s') r' \<and> rr_Texts r' = rr_Texts r"
proof -
  define idx where "idx = rs_toolOutIdx s"
  define e where "e = (if rs_downgraded s' (rs_toolName s') = ''custom'' then CustomDeltaE (fc_id s' (rs_toolOutIdx s')) (rs_toolOutIdx s') t
      else ArgumentsDeltaE (fc_id s' (rs_toolOutIdx s')) (rs_toolOutIdx s') t)"
  have s1: "rs_out s' = rs_out s" "rs_panicked s' = rs_panicked s" "rs_seq s' = rs_seq s" by (simp_all add: s'_def)
  have "\<exists>r'. rs_inv (rs_writeEvent fails e s') r' \<and> rr_Texts r' = rr_Texts r"
  proof (cases "rs_panicked s")
    case True
    with assms(1) s1 have "rs_inv (rs_writeEvent fails e s') r"
      by (intro inv_panicked) (simp_all add: write_panicked reads_same [OF s1(1)] inv_reads)
    then show ?thesis by blast
  next
    case False
    with assms(1-3) obtain item where item: "toolCallItem idx '''' s = Some item" and ph: "rr_Phase r = RTool idx item (rs_toolArgs s)"
      by (auto simp: rs_inv_def phase_of_def idx_def split: if_splits)
    have r: "reads s r" "rr_Seq r = rs_seq s" "rr_Items r = rs_output s" "rs_started s" "rs_toolOpen s" "\<not> rs_reasonOpen s" "\<not> rs_msgOpen s"
      "rr_ID r = rs_id s"
      using assms(1-3) False by (auto simp: rs_inv_def phase_of_def split: if_splits)
    define r1 where "r1 = r\<lparr>rr_Phase := RTool idx item (rs_toolArgs s @ t), rr_Seq := rs_seq s' + 1\<rparr>"
    have q: "reads s' r" "rr_Seq r = rs_seq s'" "\<not> rs_panicked s'" using r s1 False by (simp_all add: reads_same [OF s1(1)])
    have "read_event e r = Some (r\<lparr>rr_Phase := RTool idx item (rs_toolArgs s @ t)\<rparr>)"
      using ph item_fields(1,3) [OF item] by (simp add: e_def s'_def fc_id_def idx_def)
    from reads_write [OF q this, of fails] have "reads (rs_writeEvent fails e s') r1" by (simp add: r1_def)
    moreover have "rr_Seq r1 = rs_seq (rs_writeEvent fails e s')" using q by (simp add: r1_def)
    moreover have "toolCallItem idx '''' s' = Some item" using item call_same [of s' s] by (simp add: s'_def)
    ultimately have "rs_inv (rs_writeEvent fails e s') r1"
      using r False s1 by (simp add: rs_inv_def phase_of_def s'_def idx_def) (simp add: r1_def idx_def)
    moreover have "rr_Texts r1 = rr_Texts r" by (simp add: r1_def)
    ultimately show ?thesis by blast
  qed
  then show ?thesis unfolding e_def .
qed

lemma inv_flags: "rs_inv (s\<lparr>rs_wroteContent := b\<rparr>) r = rs_inv s r" "rs_inv (s\<lparr>rs_sawTerminal := b\<rparr>) r = rs_inv s r"
  "rs_inv (s\<lparr>rs_toolMapper := m\<rparr>) r = rs_inv s r"
  by (simp_all add: rs_inv_def reads_def phase_of_def msg_id_def toolCallItem_def fc_id_def Let_def)

lemma inv_tool:
  assumes "rs_inv s r"
  shows "\<exists>r'. rs_inv (toolDelta fails ev s) r' \<and> rr_Texts r' = rr_Texts r"
proof -
  define s0 where "s0 = rs_ensureStarted fails '''' s"
  define sa where "sa = closeReason fails '''' s0"
  define toolIdx where "toolIdx = snd (tool_to (ev_ToolIndex ev) (rs_toolMapper sa))"
  define s1 where "s1 = sa\<lparr>rs_toolMapper := fst (tool_to (ev_ToolIndex ev) (rs_toolMapper sa))\<rparr>"
  define s2 where "s2 = (if \<not> rs_toolOpen s1 \<or> rs_toolIdx s1 \<noteq> toolIdx then openTool fails ev toolIdx s1 else s1)"
  define s3 where "s3 = s2\<lparr>rs_wroteContent := True\<rparr>"
  obtain r0 where r0: "rs_inv s0 r0" "rr_Texts r0 = rr_Texts r" using inv_started [OF assms] unfolding s0_def by blast
  obtain ra where "rs_inv sa ra" "rr_Texts ra = rr_Texts r0" using inv_closeReason [OF r0(1)] unfolding sa_def by blast
  then have r1: "rs_inv s1 ra" "rr_Texts ra = rr_Texts r" using r0 by (simp_all add: s1_def inv_flags)
  have st: "rs_started s1" "\<not> rs_reasonOpen s1" by (simp_all add: s1_def sa_def s0_def)
  have "\<exists>r2. rs_inv s2 r2 \<and> rr_Texts r2 = rr_Texts ra \<and> rs_started s2 \<and> (rs_panicked s2 \<or> rs_toolOpen s2)"
    using r1 st inv_openTool [OF r1(1) st, of fails ev toolIdx] by (cases "rs_toolOpen s1 \<and> rs_toolIdx s1 = toolIdx") (auto simp: s2_def)
  then obtain r2 where r2: "rs_inv s3 r2" "rr_Texts r2 = rr_Texts r" "rs_started s3" "rs_panicked s3 \<or> rs_toolOpen s3"
    using r1 by (auto simp: s3_def inv_flags)
  show ?thesis
  proof (cases "ev_ArgumentsDelta ev = ''''")
    case True
    then have "toolDelta fails ev s = s3"
      unfolding toolDelta_def Let_def case_prod_unfold s0_def [symmetric] sa_def [symmetric] toolIdx_def [symmetric] s1_def [symmetric] s2_def [symmetric] s3_def [symmetric]
      by simp
    with r2 show ?thesis by auto
  next
    case False
    then have "toolDelta fails ev s = (let s' = s3\<lparr>rs_toolArgs := rs_toolArgs s3 @ ev_ArgumentsDelta ev\<rparr> in
       rs_writeEvent fails (if rs_downgraded s' (rs_toolName s') = ''custom'' then CustomDeltaE (fc_id s' (rs_toolOutIdx s')) (rs_toolOutIdx s') (ev_ArgumentsDelta ev)
         else ArgumentsDeltaE (fc_id s' (rs_toolOutIdx s')) (rs_toolOutIdx s') (ev_ArgumentsDelta ev)) s')"
      unfolding toolDelta_def Let_def case_prod_unfold s0_def [symmetric] sa_def [symmetric] toolIdx_def [symmetric] s1_def [symmetric] s2_def [symmetric] s3_def [symmetric]
      by simp
    with inv_argumentsDelta [OF r2(1,4,3), of fails "ev_ArgumentsDelta ev"] r2(2) show ?thesis by (simp add: Let_def)
  qed
qed


text \<open>What every write and every assignment keeps, every operation keeps: the rules go down its body.\<close>

lemma keep_state: "P a \<Longrightarrow> (\<And>x. P x \<Longrightarrow> P (f x)) \<Longrightarrow> P (Let a f)" by simp

lemma keep_let: "(\<And>x. P (f x)) \<Longrightarrow> P (Let a f)" by simp

lemma keep_if: "P x \<Longrightarrow> P y \<Longrightarrow> P (if b then x else y)" by simp

lemma keep_option: "P x \<Longrightarrow> (\<And>y. P (f y)) \<Longrightarrow> P (case z of None \<Rightarrow> x | Some y \<Rightarrow> f y)" by (simp split: option.split)

lemma keep_pair: "P (fst p) \<Longrightarrow> (\<And>s i. P s \<Longrightarrow> P (f s i)) \<Longrightarrow> P (let (s, i) = p in f s i)" by (simp add: case_prod_unfold)

lemma keep_mapper: "(\<And>m i. P (f m i)) \<Longrightarrow> P (let (m :: toolIndexMapper, i) = p in f m i)" by (simp add: case_prod_unfold)

lemmas keep_rules = keep_state keep_pair keep_mapper keep_if keep_option keep_let

lemmas panic_rules = keep_rules [where P = rs_panicked]

text \<open>A panicked encoder stays so.\<close>

declare tool_state(5) [simp del]

lemma panicked_closeTool [simp]: "rs_panicked s \<Longrightarrow> rs_panicked (closeTool fails s)"
  using tool_panicked by blast

lemma panicked_opens [simp]:
  "rs_panicked s \<Longrightarrow> rs_panicked (openMessage fails ev s)" "rs_panicked s \<Longrightarrow> rs_panicked (openTool fails ev i s)"
  "rs_panicked s \<Longrightarrow> rs_panicked (openReason fails ev s)"
  unfolding openMessage_def openTool_def openReason_def by ((rule panic_rules | simp)+)

lemma panicked_deltas [simp]:
  "rs_panicked s \<Longrightarrow> rs_panicked (textDelta fails ev s)" "rs_panicked s \<Longrightarrow> rs_panicked (toolDelta fails ev s)"
  "rs_panicked s \<Longrightarrow> rs_panicked (thinkingDelta fails proto ev s)"
  unfolding textDelta_def toolDelta_def thinkingDelta_def by ((rule panic_rules | simp)+)

lemma panicked_event: "rs_panicked s \<Longrightarrow> rs_panicked (rs_Event proto fails ev s)"
  by (simp add: rs_Event_def split: event_type.split)

lemma inv_event:
  assumes "rs_inv s r"
  shows "\<exists>r'. rs_inv (rs_Event proto fails ev s) r' \<and>
    (if rs_panicked (rs_Event proto fails ev s) then rr_Texts r' = rr_Texts r
     else rr_Texts r' = rr_Texts r @ (if ev_Type ev = EventTextDelta then ev_Text ev else ''''))"
proof (cases "ev_Type ev = EventTextDelta")
  case True
  with inv_text [OF assms, of fails ev] show ?thesis by (simp add: rs_Event_def)
next
  case False
  have "\<exists>r'. rs_inv (rs_Event proto fails ev s) r' \<and> rr_Texts r' = rr_Texts r"
    using False assms inv_started [OF assms] inv_thinking [OF assms] inv_tool [OF assms]
    by (cases "ev_Type ev") (auto simp: rs_Event_def inv_flags)
  with False show ?thesis by auto
qed

definition rs_agree :: "responsesSSE \<Rightarrow> sdk_event list \<Rightarrow> bool" where
  "rs_agree s evs \<longleftrightarrow> (\<exists>r. rs_inv s r \<and> (\<exists>rest. sent_text evs = rr_Texts r @ rest \<and> (\<not> rs_panicked s \<longrightarrow> rest = '''')))"

lemma rs_agree_event:
  assumes "rs_agree s evs"
  shows "rs_agree (rs_Event proto fails ev s) (evs @ [ev])"
proof -
  obtain r rest where r: "rs_inv s r" "sent_text evs = rr_Texts r @ rest" "\<not> rs_panicked s \<longrightarrow> rest = ''''"
    using assms by (auto simp: rs_agree_def)
  obtain r' where r': "rs_inv (rs_Event proto fails ev s) r'"
    "if rs_panicked (rs_Event proto fails ev s) then rr_Texts r' = rr_Texts r
     else rr_Texts r' = rr_Texts r @ (if ev_Type ev = EventTextDelta then ev_Text ev else '''')"
    using inv_event [OF r(1)] by blast
  show ?thesis
  proof (cases "rs_panicked (rs_Event proto fails ev s)")
    case True
    with r r' show ?thesis unfolding rs_agree_def by (intro exI [of _ r']) simp
  next
    case False
    then have "\<not> rs_panicked s" using panicked_event by blast
    with False r r' show ?thesis unfolding rs_agree_def by (intro exI [of _ r']) simp
  qed
qed

lemma inv_keepalive: "rs_inv (rs_Keepalive fails s) r = rs_inv s r"
  by (simp add: rs_inv_def reads_def rs_Keepalive_def phase_of_def msg_id_def toolCallItem_def fc_id_def Let_def)

lemma keepalive_panicked [simp]: "rs_panicked (rs_Keepalive fails s) = rs_panicked s"
  by (simp add: rs_Keepalive_def)

definition errors_kept :: "(nat \<Rightarrow> bool) \<Rightarrow> responsesSSE \<Rightarrow> bool" where
  "errors_kept fails s \<longleftrightarrow> first_failure fails (rs_out s)"

lemma kept_write [simp]: "errors_kept fails s \<Longrightarrow> errors_kept fails (rs_writeEvent fails e s)"
  by (simp add: errors_kept_def rs_writeEvent_def)

lemma kept_same: "rs_out s' = rs_out s \<Longrightarrow> errors_kept fails s' = errors_kept fails s"
  by (simp add: errors_kept_def)

lemma kept_fields [simp]:
  "errors_kept fails (fst (allocIndex up s)) = errors_kept fails s"
  "errors_kept fails (s\<lparr>rs_started := b\<rparr>) = errors_kept fails s"
  "errors_kept fails (s\<lparr>rs_id := i\<rparr>) = errors_kept fails s"
  "errors_kept fails (s\<lparr>rs_output := os\<rparr>) = errors_kept fails s"
  "errors_kept fails (s\<lparr>rs_wroteContent := b\<rparr>) = errors_kept fails s"
  "errors_kept fails (s\<lparr>rs_sawTerminal := b\<rparr>) = errors_kept fails s"
  "errors_kept fails (s\<lparr>rs_toolMapper := m\<rparr>) = errors_kept fails s"
  "errors_kept fails (s\<lparr>rs_panicked := b\<rparr>) = errors_kept fails s"
  "errors_kept fails (s\<lparr>rs_text := t\<rparr>) = errors_kept fails s"
  "errors_kept fails (s\<lparr>rs_thinkText := t\<rparr>) = errors_kept fails s"
  "errors_kept fails (s\<lparr>rs_toolArgs := t\<rparr>) = errors_kept fails s"
  "errors_kept fails (s\<lparr>rs_reasonOpen := b\<rparr>) = errors_kept fails s"
  "errors_kept fails (s\<lparr>rs_msgOutIdx := n\<rparr>) = errors_kept fails s"
  "errors_kept fails (s\<lparr>rs_msgOpen := b\<rparr>) = errors_kept fails s"
  "errors_kept fails (s\<lparr>rs_msgSourceKnown := b\<rparr>) = errors_kept fails s"
  "errors_kept fails (s\<lparr>rs_msgSourceIdx := n\<rparr>) = errors_kept fails s"
  "errors_kept fails (s\<lparr>rs_toolOpen := b\<rparr>) = errors_kept fails s"
  "errors_kept fails (s\<lparr>rs_toolIdx := n\<rparr>) = errors_kept fails s"
  "errors_kept fails (s\<lparr>rs_toolOutIdx := n\<rparr>) = errors_kept fails s"
  "errors_kept fails (s\<lparr>rs_toolID := i\<rparr>) = errors_kept fails s"
  "errors_kept fails (s\<lparr>rs_toolName := i\<rparr>) = errors_kept fails s"
  "errors_kept fails (s\<lparr>rs_reasonIdx := n\<rparr>) = errors_kept fails s"
  "errors_kept fails (s\<lparr>rs_reasonItemID := i\<rparr>) = errors_kept fails s"
  "errors_kept fails (s\<lparr>rs_reasonSourceID := i\<rparr>) = errors_kept fails s"
  by (simp_all add: errors_kept_def)

lemmas kept_rules = keep_rules [where P = "errors_kept fails" for fails] kept_write

lemma kept_closes [simp]:
  "errors_kept fails s \<Longrightarrow> errors_kept fails (rs_ensureStarted fails i s)" "errors_kept fails s \<Longrightarrow> errors_kept fails (closeMessage fails s)"
  "errors_kept fails s \<Longrightarrow> errors_kept fails (closeTool fails s)" "errors_kept fails s \<Longrightarrow> errors_kept fails (closeReason fails x s)"
  unfolding rs_ensureStarted_def closeMessage_def closeTool_def closeReason_def by ((rule kept_rules | simp)+)

lemma kept_opens [simp]:
  "errors_kept fails s \<Longrightarrow> errors_kept fails (openMessage fails ev s)"
  "errors_kept fails s \<Longrightarrow> errors_kept fails (openTool fails ev i s)"
  "errors_kept fails s \<Longrightarrow> errors_kept fails (openReason fails ev s)"
  unfolding openMessage_def openTool_def openReason_def by ((rule kept_rules | simp)+)

lemma kept_deltas [simp]:
  "errors_kept fails s \<Longrightarrow> errors_kept fails (textDelta fails ev s)" "errors_kept fails s \<Longrightarrow> errors_kept fails (toolDelta fails ev s)"
  "errors_kept fails s \<Longrightarrow> errors_kept fails (thinkingDelta fails proto ev s)"
  unfolding textDelta_def toolDelta_def thinkingDelta_def by ((rule kept_rules | simp)+)

lemma kept_event: "errors_kept fails s \<Longrightarrow> errors_kept fails (rs_Event proto fails ev s)"
  by (simp add: rs_Event_def split: event_type.split)

lemma kept_keepalive: "errors_kept fails s \<Longrightarrow> errors_kept fails (rs_Keepalive fails s)"
  by (simp add: errors_kept_def rs_Keepalive_def)

interpretation responses: stream_sink "rs_Event proto" rs_Keepalive rs_out read_numbered fresh_response rs_agree "\<lambda>e evs. evs @ [e]"
  "\<lambda>evs r. \<exists>rest. sent_text evs = rr_Texts r @ rest"
proof unfold_locales
  show "rs_agree s evs \<Longrightarrow> rs_agree (rs_Event proto fails e s) (evs @ [e])" for s evs e fails by (rule rs_agree_event)
  show "rs_agree s evs \<Longrightarrow> rs_agree (rs_Keepalive fails s) evs" for s evs fails by (simp add: rs_agree_def inv_keepalive)
  show "rs_agree s evs \<Longrightarrow> ot_WriteErr (rs_out s) = None \<Longrightarrow>
      \<exists>r. read_all read_numbered (frames (rs_out s)) fresh_response = Some r \<and> (\<exists>rest. sent_text evs = rr_Texts r @ rest)" for s evs
    by (auto simp: rs_agree_def dest!: inv_reads) (auto simp: reads_def)
  show "first_failure fails (rs_out s) \<Longrightarrow> first_failure fails (rs_out (rs_Event proto fails e s))" for fails s e
    using kept_event [of fails s proto e] by (simp add: errors_kept_def)
  show "first_failure fails (rs_out s) \<Longrightarrow> first_failure fails (rs_out (rs_Keepalive fails s))" for fails s
    using kept_keepalive [of fails s] by (simp add: errors_kept_def)
qed


section \<open>The whole reply\<close>

lemma inv_Finish:
  fixes fails status stop u
  assumes "rs_inv s r"
  defines "s' \<equiv> rs_Finish fails status stop u s"
  shows "\<exists>r'. reads s' r' \<and> rr_Texts r' = rr_Texts r \<and> (rs_panicked s \<longrightarrow> rs_panicked s') \<and>
    (rs_panicked s' \<or> status = ''canceled'' \<or>
     rr_Phase r' = (if status = ''ok'' then REnd (if stop = StopLength then ''response.incomplete'' else ''response.completed'') else RFailed))"
proof (cases "status = ''canceled''")
  case True
  then have "s' = s" by (simp add: s'_def rs_Finish_def)
  with True inv_reads [OF assms(1)] show ?thesis by auto
next
  case False
  define s1 where "s1 = closeTool fails (closeMessage fails (closeReason fails '''' s))"
  obtain r1 where r1: "rs_inv s1 r1" "rr_Texts r1 = rr_Texts r"
    using inv_closeReason [OF assms(1), of fails "''''"] inv_closeMessage inv_closeTool unfolding s1_def by metis
  have st: "\<not> rs_msgOpen s1" "\<not> rs_reasonOpen s1" "rs_panicked s \<Longrightarrow> rs_panicked s1" by (simp_all add: s1_def)
  show ?thesis
  proof (cases "status = ''ok''")
    case ok: True
    define s2 where "s2 = rs_ensureStarted fails '''' s1"
    obtain r2 where r2: "rs_inv s2 r2" "rr_Texts r2 = rr_Texts r" using inv_started [OF r1(1)] r1(2) unfolding s2_def by metis
    define ob where "ob = (responseSkeleton s2 ''completed'')\<lparr>ro_output := rs_output s2\<rparr>"
    define name where "name = (if stop = StopLength then ''response.incomplete'' else ''response.completed'')"
    define ob' where "ob' = (if stop = StopLength then ob\<lparr>ro_status := ''incomplete'', ro_incomplete := True\<rparr> else ob)
        \<lparr>ro_usage := Some (responses_usage_of u)\<rparr>"
    have s': "s' = rs_writeEvent fails (FinishedE name ob') s2"
      using ok unfolding s'_def rs_Finish_def Let_def s1_def [symmetric] s2_def [symmetric] ob_def [symmetric] name_def ob'_def by simp
    have ob': "ro_output ob' = rs_output s2" "ro_id ob' = rs_id s2" by (simp_all add: ob'_def ob_def responseSkeleton_def)
    show ?thesis
    proof (cases "rs_panicked s2")
      case True
      with r2 show ?thesis by (auto simp: s' write_panicked dest: inv_reads)
    next
      case False
      then have p: "\<not> rs_panicked s1" by (simp add: s2_def)
      then have "\<not> rs_toolOpen s1" by (simp add: s1_def)
      then have "rs_started s2" "\<not> rs_msgOpen s2" "\<not> rs_toolOpen s2" "\<not> rs_reasonOpen s2" using st by (simp_all add: s2_def)
      note idle = inv_idle [OF r2(1) False this]
      have "read_event (FinishedE name ob') r2 = Some (r2\<lparr>rr_Phase := REnd name\<rparr>)" using idle ob' by simp
      from reads_write [OF idle(1,3) False this, of fails] show ?thesis
        using r2 p st ok by (intro exI [of _ "r2\<lparr>rr_Phase := REnd name, rr_Seq := rs_seq s2 + 1\<rparr>"]) (auto simp: s' name_def)
    qed
  next
    case failed: False
    define ob where "ob = (responseSkeleton s1 ''failed'')\<lparr>ro_error := True\<rparr>"
    have s': "s' = rs_writeEvent fails (FailedE ob) s1"
      using failed False unfolding s'_def rs_Finish_def Let_def s1_def [symmetric] ob_def [symmetric] by simp
    show ?thesis
    proof (cases "rs_panicked s1")
      case True
      with r1 show ?thesis by (auto simp: s' write_panicked dest: inv_reads)
    next
      case ok: False
      then have "\<not> rs_toolOpen s1" by (simp add: s1_def)
      then have q: "reads s1 r1" "rr_Seq r1 = rs_seq s1" "rr_Phase r1 = RIdle \<or> rr_Phase r1 = RFresh"
        using r1 ok st by (auto simp: rs_inv_def phase_of_def split: if_splits)
      then have "read_event (FailedE ob) r1 = Some (r1\<lparr>rr_Phase := RFailed\<rparr>)" by simp
      from reads_write [OF q(1,2) ok this, of fails] show ?thesis
        using r1 ok st failed by (intro exI [of _ "r1\<lparr>rr_Phase := RFailed, rr_Seq := rs_seq s1 + 1\<rparr>"]) (auto simp: s')
    qed
  qed
qed

text \<open>Only a call of \<open>local_shell\<close> panics.\<close>

definition shell_only :: "(string \<Rightarrow> string) \<Rightarrow> responsesSSE \<Rightarrow> bool" where
  "shell_only d s \<longleftrightarrow> rs_downgraded s = d \<and> (rs_panicked s \<longrightarrow> (\<exists>n. d n = ''local_shell''))"

lemma shell_fields [simp]:
  "shell_only d (fst (allocIndex up s)) = shell_only d s"
  "shell_only d (rs_writeEvent fails e s) = shell_only d s"
  "shell_only d (s\<lparr>rs_started := b\<rparr>) = shell_only d s"
  "shell_only d (s\<lparr>rs_id := i\<rparr>) = shell_only d s"
  "shell_only d (s\<lparr>rs_output := os\<rparr>) = shell_only d s"
  "shell_only d (s\<lparr>rs_wroteContent := b\<rparr>) = shell_only d s"
  "shell_only d (s\<lparr>rs_sawTerminal := b\<rparr>) = shell_only d s"
  "shell_only d (s\<lparr>rs_toolMapper := m\<rparr>) = shell_only d s"
  "shell_only d (s\<lparr>rs_text := t\<rparr>) = shell_only d s"
  "shell_only d (s\<lparr>rs_thinkText := t\<rparr>) = shell_only d s"
  "shell_only d (s\<lparr>rs_toolArgs := t\<rparr>) = shell_only d s"
  "shell_only d (s\<lparr>rs_reasonOpen := b\<rparr>) = shell_only d s"
  "shell_only d (s\<lparr>rs_msgOutIdx := n\<rparr>) = shell_only d s"
  "shell_only d (s\<lparr>rs_msgOpen := b\<rparr>) = shell_only d s"
  "shell_only d (s\<lparr>rs_msgSourceKnown := b\<rparr>) = shell_only d s"
  "shell_only d (s\<lparr>rs_msgSourceIdx := n\<rparr>) = shell_only d s"
  "shell_only d (s\<lparr>rs_toolOpen := b\<rparr>) = shell_only d s"
  "shell_only d (s\<lparr>rs_toolIdx := n\<rparr>) = shell_only d s"
  "shell_only d (s\<lparr>rs_toolOutIdx := n\<rparr>) = shell_only d s"
  "shell_only d (s\<lparr>rs_toolID := i\<rparr>) = shell_only d s"
  "shell_only d (s\<lparr>rs_toolName := i\<rparr>) = shell_only d s"
  "shell_only d (s\<lparr>rs_reasonIdx := n\<rparr>) = shell_only d s"
  "shell_only d (s\<lparr>rs_reasonItemID := i\<rparr>) = shell_only d s"
  "shell_only d (s\<lparr>rs_reasonSourceID := i\<rparr>) = shell_only d s"
  by (simp_all add: shell_only_def)

lemma call_none: "toolCallItem idx args s = None \<Longrightarrow> rs_downgraded s (rs_toolName s) = ''local_shell''"
  by (simp add: toolCallItem_def Let_def split: if_splits)

lemma shell_option:
  "shell_only d s \<Longrightarrow> (\<And>item. shell_only d (f item)) \<Longrightarrow>
   shell_only d (case toolCallItem idx args s of None \<Rightarrow> s\<lparr>rs_panicked := True\<rparr> | Some item \<Rightarrow> f item)"
  using call_none [of idx args s] by (auto simp: shell_only_def split: option.split)

lemmas shell_rules = shell_option keep_rules [where P = "shell_only d" for d]

lemma shell_closes [simp]:
  "shell_only d s \<Longrightarrow> shell_only d (rs_ensureStarted fails i s)" "shell_only d s \<Longrightarrow> shell_only d (closeMessage fails s)"
  "shell_only d s \<Longrightarrow> shell_only d (closeTool fails s)" "shell_only d s \<Longrightarrow> shell_only d (closeReason fails x s)"
  unfolding rs_ensureStarted_def closeMessage_def closeTool_def closeReason_def by ((rule shell_rules | simp)+)

lemma shell_opens [simp]:
  "shell_only d s \<Longrightarrow> shell_only d (openMessage fails ev s)" "shell_only d s \<Longrightarrow> shell_only d (openTool fails ev i s)"
  "shell_only d s \<Longrightarrow> shell_only d (openReason fails ev s)"
  unfolding openMessage_def openTool_def openReason_def by ((rule shell_rules | simp)+)

lemma shell_deltas [simp]:
  "shell_only d s \<Longrightarrow> shell_only d (textDelta fails ev s)" "shell_only d s \<Longrightarrow> shell_only d (toolDelta fails ev s)"
  "shell_only d s \<Longrightarrow> shell_only d (thinkingDelta fails proto ev s)"
  unfolding textDelta_def toolDelta_def thinkingDelta_def by ((rule shell_rules | simp)+)

lemma shell_event [simp]: "shell_only d s \<Longrightarrow> shell_only d (rs_Event proto fails ev s)"
  by (simp add: rs_Event_def split: event_type.split)

lemma shell_keepalive [simp]: "shell_only d (rs_Keepalive fails s) = shell_only d s"
  by (simp add: shell_only_def rs_Keepalive_def)

lemma keep_finish: "(\<And>n ob. P (f n ob)) \<Longrightarrow> P (let (n :: string, ob) = p in f n ob)" by (simp add: case_prod_unfold)

lemma shell_Finish: "shell_only d s \<Longrightarrow> shell_only d (rs_Finish fails status stop u s)"
  unfolding rs_Finish_def by ((rule keep_finish [where P = "shell_only d"] shell_rules | simp)+)

lemma kept_Finish: "errors_kept fails s \<Longrightarrow> errors_kept fails (rs_Finish fails status stop u s)"
  unfolding rs_Finish_def by ((rule keep_finish [where P = "errors_kept fails"] kept_rules | simp)+)


definition rs_stream :: "string \<Rightarrow> (nat \<Rightarrow> bool) \<Rightarrow> sink_op list \<Rightarrow> responsesSSE \<Rightarrow> responsesSSE" where
  "rs_stream proto fails ops s = fold (\<lambda>x s. case x of Deliver e \<Rightarrow> rs_Event proto fails e s | Beat \<Rightarrow> rs_Keepalive fails s) ops s"

definition rs_reply ::
  "string \<Rightarrow> (nat \<Rightarrow> bool) \<Rightarrow> ident \<Rightarrow> string \<Rightarrow> (string \<Rightarrow> string) \<Rightarrow> sink_op list \<Rightarrow> string \<Rightarrow> stop_reason \<Rightarrow> token_usage \<Rightarrow> responsesSSE" where
  "rs_reply proto fails i model downgraded ops status stop u =
     rs_Finish fails status stop u (rs_stream proto fails ops (NewResponsesSSE i model downgraded))"

definition response_client :: "(int \<times> response_event) out \<Rightarrow> response_reader option" where
  "response_client out = read_all read_numbered (frames out) fresh_response"

lemma rs_stream_fold: "rs_stream proto fails ops s = fold (responses.apply_op proto fails) ops s"
  unfolding rs_stream_def by (rule fold_cong) (auto simp: responses.apply_op_def)

lemma new_agree: "rs_agree (NewResponsesSSE i model d) []"
  by (simp add: rs_agree_def rs_inv_def reads_def phase_of_def NewResponsesSSE_def fresh_response_def sent_text_def)

lemma all_consumed: "fold (\<lambda>e evs. evs @ [e]) es evs = evs @ es"
  by (induction es arbitrary: evs) simp_all

lemma rs_stream_agree: "rs_agree (rs_stream proto fails ops (NewResponsesSSE i model d)) (delivered ops)"
  using responses.run_agree [OF new_agree, of proto fails ops i model d] by (simp add: rs_stream_fold all_consumed)

lemma shell_stream: "shell_only d s \<Longrightarrow> shell_only d (rs_stream proto fails ops s)"
  by (induction ops arbitrary: s) (auto simp: rs_stream_def split: sink_op.split)


text \<open>A call of \<open>local_shell\<close> whose arguments are the text \<open>null\<close> panics, also in the complete object.\<close>

lemma null_call_panics:
  "rs_panicked (rs_reply ''responses'' (\<lambda>_. False) ''r'' ''m'' (\<lambda>_. ''local_shell'')
     [Deliver (no_event\<lparr>ev_Type := EventToolCall, ev_ToolID := ''c'', ev_ToolName := ''sh'', ev_ArgumentsDelta := ''null''\<rparr>)] ''ok'' StopToolUse u)"
  by code_simp

text \<open>The deltas of a custom tool carry the pieces of the JSON object, and its closing event the text inside it.\<close>

lemma custom_pieces_differ:
  "let s = rs_reply ''responses'' (\<lambda>_. False) ''r'' ''m'' (\<lambda>_. ''custom'')
       [Deliver (no_event\<lparr>ev_Type := EventToolCall, ev_ToolID := ''c'', ev_ToolName := ''p'', ev_ArgumentsDelta := ''{\"input\":\"x\"}''\<rparr>)]
       ''ok'' StopToolUse u in
   (2, CustomDeltaE ''r-fc-0'' 0 ''{\"input\":\"x\"}'') \<in> set (frames (rs_out s)) \<and> (3, CustomDoneE ''r-fc-0'' 0 ''x'') \<in> set (frames (rs_out s))"
  by code_simp

text \<open>A reply that fails before its first event is told so by \<open>response.failed\<close> alone, without \<open>response.created\<close>.\<close>

lemma failed_not_created:
  "frames (rs_out (rs_reply proto (\<lambda>_. False) i model d [] ''error'' stop u)) =
   [(0, FailedE \<lparr>ro_id = i, ro_model = model, ro_status = ''failed'', ro_output = [], ro_usage = None, ro_error = True, ro_incomplete = False\<rparr>)]"
  by (simp add: rs_reply_def rs_stream_def rs_Finish_def NewResponsesSSE_def closeReason_def closeMessage_def closeTool_def
      rs_writeEvent_def responseSkeleton_def)


text \<open>What the object has to say of each part, read off the parts: a thought of another protocol is left out, and so is a part that is
  neither text, thought nor call.\<close>

datatype said_part = SaidText string | SaidThought string | SaidCall ident string

definition said_parts :: "string \<Rightarrow> reply_part list \<Rightarrow> said_part list" where
  "said_parts proto bs = concat (map (\<lambda>b. case rp_Type b of
       BlockText \<Rightarrow> [SaidText (rp_Text b)]
     | BlockThinking \<Rightarrow> if rp_SealedBy b \<noteq> '''' \<and> rp_SealedBy b \<noteq> proto then [] else [SaidThought (rp_Thinking b)]
     | BlockToolCall \<Rightarrow> [SaidCall (rp_ToolCallID b) (rp_ToolName b)]
     | _ \<Rightarrow> []) bs)"

fun said_item :: "output_item \<Rightarrow> said_part" where
  "said_item (MessageItem i t) = SaidText (case t of Some x \<Rightarrow> x | None \<Rightarrow> '''')"
| "said_item (ReasoningItem i t) = SaidThought (case t of Some (x, _) \<Rightarrow> x | None \<Rightarrow> '''')"
| "said_item (FunctionCallItem i c n a) = SaidCall c n"
| "said_item (CustomCallItem i c n a) = SaidCall c n"
| "said_item (ShellCallItem i c n a) = SaidCall c n"

lemma said_parts_simps [simp]:
  "said_parts proto [] = []"
  "said_parts proto (b # bs) = (case rp_Type b of
       BlockText \<Rightarrow> [SaidText (rp_Text b)]
     | BlockThinking \<Rightarrow> if rp_SealedBy b \<noteq> '''' \<and> rp_SealedBy b \<noteq> proto then [] else [SaidThought (rp_Thinking b)]
     | BlockToolCall \<Rightarrow> [SaidCall (rp_ToolCallID b) (rp_ToolName b)]
     | _ \<Rightarrow> []) @ said_parts proto bs"
  by (simp_all add: said_parts_def)

lemma parts_said:
  "case responses_parts proto i d n bs of None \<Rightarrow> (\<exists>m. d m = ''local_shell'') | Some out \<Rightarrow> map said_item out = said_parts proto bs"
proof (induction bs arbitrary: n)
  case Nil
  then show ?case by simp
next
  case (Cons b bs)
  from Cons [of n] Cons [of "n + 1"] show ?case
    by (cases "rp_Type b") (auto simp: Let_def split: option.splits if_splits)
qed

text \<open>The complete object says what the parts of the response say, in their order, texts, thoughts and calls alike; only a call of
  local_shell can fail. A response without an id gets the generated one, and one that was cut off is marked incomplete.\<close>

theorem responses_object_says:
  "case WriteResponsesResponseWithTools proto generated resp model d of
     None \<Rightarrow> (\<exists>n. d n = ''local_shell'')
   | Some ob \<Rightarrow> map said_item (ro_output ob) = said_parts proto (sr_Content resp) \<and>
       ro_id ob = (if sr_ID resp = '''' then generated else sr_ID resp) \<and>
       (ro_status ob = ''incomplete'') = (sr_StopReason resp = StopLength) \<and> ro_usage ob = Some (responses_usage_of (sr_Usage resp))"
  using parts_said [where proto = proto and d = d and n = 0 and bs = "sr_Content resp" and i = "if sr_ID resp = '''' then generated else sr_ID resp"]
  by (auto simp: WriteResponsesResponseWithTools_def Let_def split: option.splits if_splits)

end
