(* ===== verification/Inbound.thy ===== *)
theory Inbound
  imports Json Effort Errors "HOL-Library.Monad_Syntax"
begin

text \<open>
  What the three decoders of \<^verbatim>\<open>internal/inwire\<close> share: reading a body within its limit, the check for duplicate keys
  (\<^verbatim>\<open>decode.go\<close>), decoding a JSON object into a struct field by field, and the values of the SDK that are built. A message of the
  SDK is the call that builds it, with its arguments. Bodies are valid UTF-8; of a list given twice for one field the last one counts;
  a number that is too large for its floating-point field is not detected.
\<close>

section \<open>Fields\<close>

text \<open>Every member whose name fits is stored in the field, one after the other; \<open>None\<close> is a value of the wrong type.\<close>

definition field :: "(json \<Rightarrow> 'a \<Rightarrow> 'a option) \<Rightarrow> 'a \<Rightarrow> string \<Rightarrow> (string \<times> json) list \<Rightarrow> 'a option" where
  "field store init k kvs = fold (\<lambda>v acc. Option.bind acc (store v)) (field_values k kvs) (Some init)"

definition to_string :: "json \<Rightarrow> string \<Rightarrow> string option" where
  "to_string v a = (case v of JStr s \<Rightarrow> Some s | JNull \<Rightarrow> Some a | _ \<Rightarrow> None)"

definition to_bool :: "json \<Rightarrow> bool \<Rightarrow> bool option" where
  "to_bool v a = (case v of JBool b \<Rightarrow> Some b | JNull \<Rightarrow> Some a | _ \<Rightarrow> None)"

definition digits_value :: "string \<Rightarrow> int" where
  "digits_value ds = foldl (\<lambda>a c. a * 10 + int (byte_code c - 48)) 0 ds"

text \<open>An integer field takes a number without fraction and exponent that fits into 64 bits.\<close>

definition parse_int :: "string \<Rightarrow> int option" where
  "parse_int s =
     (let neg = (s \<noteq> '''' \<and> hd s = CHR ''-''); ds = (if neg then tl s else s); n = (if neg then - digits_value ds else digits_value ds)
      in if list_all digit_char ds \<and> - (2 ^ 63) \<le> n \<and> n < 2 ^ 63 then Some n else None)"

definition to_int :: "json \<Rightarrow> int \<Rightarrow> int option" where
  "to_int v a = (case v of JNum s \<Rightarrow> parse_int s | JNull \<Rightarrow> Some a | _ \<Rightarrow> None)"

text \<open>A floating-point field keeps the digits.\<close>

definition to_number :: "json \<Rightarrow> string \<Rightarrow> string option" where
  "to_number v a = (case v of JNum s \<Rightarrow> Some s | JNull \<Rightarrow> Some a | _ \<Rightarrow> None)"

definition to_raw :: "json \<Rightarrow> json option \<Rightarrow> json option option" where
  "to_raw v a = Some (Some v)"

text \<open>An \<open>any\<close> field: \<open>null\<close> is no value.\<close>

definition to_any :: "json \<Rightarrow> json option \<Rightarrow> json option option" where
  "to_any v a = Some (if v = JNull then None else Some v)"

definition to_pointer :: "(json \<Rightarrow> 'a \<Rightarrow> 'a option) \<Rightarrow> 'a \<Rightarrow> json \<Rightarrow> 'a option \<Rightarrow> 'a option option" where
  "to_pointer store zero v a =
     (if v = JNull then Some None else map_option Some (store v (case a of Some x \<Rightarrow> x | None \<Rightarrow> zero)))"

text \<open>The members of a struct that is given twice come together.\<close>

definition to_members :: "json \<Rightarrow> (string \<times> json) list \<Rightarrow> (string \<times> json) list option" where
  "to_members v a = (case v of JObj kvs \<Rightarrow> Some (a @ kvs) | JNull \<Rightarrow> Some a | _ \<Rightarrow> None)"

fun all_decoded :: "('a \<Rightarrow> 'b option) \<Rightarrow> 'a list \<Rightarrow> 'b list option" where
  "all_decoded dec [] = Some []"
| "all_decoded dec (x # xs) = (case (dec x, all_decoded dec xs) of (Some y, Some ys) \<Rightarrow> Some (y # ys) | _ \<Rightarrow> None)"

definition to_list :: "(json \<Rightarrow> 'a option) \<Rightarrow> json \<Rightarrow> 'a list \<Rightarrow> 'a list option" where
  "to_list dec v a = (case v of JArr vs \<Rightarrow> all_decoded dec vs | JNull \<Rightarrow> Some [] | _ \<Rightarrow> None)"

text \<open>A struct field that holds a struct takes its members, \<open>null\<close> leaves it empty.\<close>

definition decode_struct :: "((string \<times> json) list \<Rightarrow> 'a option) \<Rightarrow> json \<Rightarrow> 'a option" where
  "decode_struct get v = Option.bind (to_members v []) get"

definition string_element :: "json \<Rightarrow> string option" where
  "string_element v = to_string v ''''"

text \<open>\<open>Unmarshal\<close> of a raw value, \<open>None\<close> for the empty one, into a string, a list or a struct.\<close>

definition raw_string :: "json option \<Rightarrow> string option" where
  "raw_string raw = Option.bind raw (\<lambda>v. to_string v '''')"

definition raw_list :: "(json \<Rightarrow> 'a option) \<Rightarrow> json option \<Rightarrow> 'a list option" where
  "raw_list dec raw = Option.bind raw (\<lambda>v. to_list dec v [])"

definition raw_members :: "json option \<Rightarrow> (string \<times> json) list option" where
  "raw_members raw = Option.bind raw (\<lambda>v. to_members v [])"

section \<open>Bodies\<close>

datatype body_error =
    ReadBody | MaxBytesError int | ErrDuplicateJSONKey string | DecodeBody | Rejected string | RejectedCount int | RejectedItem nat string

definition defaultMaxBodyBytes :: int where "defaultMaxBodyBytes = 32 * 1024 * 1024"

text \<open>\<open>None\<close> is a body whose reading fails. One byte more than the limit is read.\<close>

definition read_body :: "string option \<Rightarrow> int \<Rightarrow> body_error + string" where
  "read_body body maxBytes =
     (let maxBytes = (if maxBytes \<le> 0 then defaultMaxBodyBytes else maxBytes) in
      case body of
        None \<Rightarrow> Inl ReadBody
      | Some text \<Rightarrow> (let text = take (nat (maxBytes + 1)) text in
          if int (length text) > maxBytes then Inl (MaxBytesError maxBytes) else Inr text))"

fun first_duplicate :: "string list \<Rightarrow> string list \<Rightarrow> string option" where
  "first_duplicate seen [] = None"
| "first_duplicate seen (k # ks) = (if k \<in> set seen then Some k else first_duplicate (k # seen) ks)"

definition rejectDuplicateTopLevelKeys :: "json option \<Rightarrow> string option" where
  "rejectDuplicateTopLevelKeys v = (case v of Some (JObj kvs) \<Rightarrow> first_duplicate [] (map fst kvs) | _ \<Rightarrow> None)"

text \<open>The members of the object. A text that is no JSON is an error of either kind; \<open>null\<close> is the empty struct.\<close>

definition decodeTopLevelObject :: "string \<Rightarrow> body_error + (string \<times> json) list" where
  "decodeTopLevelObject text =
     (let v = Unmarshal text in
      case rejectDuplicateTopLevelKeys v of
        Some k \<Rightarrow> Inl (ErrDuplicateJSONKey k)
      | None \<Rightarrow> (case raw_members v of Some kvs \<Rightarrow> Inr kvs | None \<Rightarrow> Inl DecodeBody))"

lemma first_duplicate_distinct: "first_duplicate seen ks = None \<longleftrightarrow> distinct ks \<and> set seen \<inter> set ks = {}"
  by (induction ks arbitrary: seen) auto

lemma read_body_whole:
  assumes "read_body (Some text) maxBytes = Inr t"
  shows "t = text \<and> int (length text) \<le> (if maxBytes \<le> 0 then defaultMaxBodyBytes else maxBytes)"
  using assms by (auto simp: read_body_def Let_def defaultMaxBodyBytes_def min_def split: if_splits)

lemma top_level_object:
  assumes "decodeTopLevelObject text = Inr kvs" "kvs \<noteq> []"
  shows "Unmarshal text = Some (JObj kvs) \<and> distinct (map fst kvs)"
  using assms
  by (auto simp: decodeTopLevelObject_def rejectDuplicateTopLevelKeys_def raw_members_def to_members_def Let_def first_duplicate_distinct
      split: option.splits json.splits)

section \<open>What is built for the SDK\<close>

datatype sdk_role = UserRole | AssistantRole | SystemRole | ToolRole

type_synonym cache_control = "(string \<times> string) option"

text \<open>\<open>ToolCallB\<close>, \<open>ThinkingB\<close> and \<open>SealedB\<close> are the calls of \<open>ToolCall\<close>, \<open>Thinking\<close> and \<open>SealedThinking\<close> with the identifier that is
  set afterwards, the others literals of \<open>Block\<close>.\<close>

datatype in_block =
    TextB string cache_control | ImageB string cache_control | AudioB string string
  | FileB string string string ident cache_control
  | ToolCallB ident string string cache_control | ThinkingB string string | SealedB string string string ident
  | RedactedB string | ToolResultB ident string bool cache_control | UnknownB string

datatype in_message =
    UserM string | SystemM string | AssistantM string | AssistantBlocksM "in_block list" | ToolResultM ident string string
  | BlocksM sdk_role "in_block list"

fun message_role :: "in_message \<Rightarrow> sdk_role" where
  "message_role (UserM t) = UserRole" | "message_role (SystemM t) = SystemRole" | "message_role (AssistantM t) = AssistantRole"
| "message_role (AssistantBlocksM bs) = AssistantRole" | "message_role (ToolResultM i n t) = ToolRole" | "message_role (BlocksM r bs) = r"

record tool_definition =
  td_Name :: string
  td_Description :: string
  td_Parameters :: "json option"
  td_CacheControl :: cache_control

datatype tool_choice = ChooseAuto | ChooseNone | ChooseRequired | ChooseTool string

record response_format =
  rf_Type :: string
  rf_Name :: string
  rf_Schema :: "json option"
  rf_Strict :: "bool option"

datatype thinking = EffortT string | BudgetT int

record sdk_request =
  sq_Model :: string
  sq_System :: string
  sq_Messages :: "in_message list"
  sq_MaxOutputTokens :: int
  sq_Temperature :: "string option"
  sq_TopP :: "string option"
  sq_TopK :: "int option"
  sq_StopSequences :: "string list"
  sq_Seed :: "int option"
  sq_User :: string
  sq_PresencePenalty :: "string option"
  sq_FrequencyPenalty :: "string option"
  sq_ParallelToolCalls :: "bool option"
  sq_PromptCacheKey :: string
  sq_Thinking :: "thinking option"
  sq_Include :: "string list"
  sq_Tools :: "tool_definition list"
  sq_ToolChoice :: "tool_choice option"
  sq_ResponseFormat :: "response_format option"
  sq_Store :: "bool option"
  sq_PreviousResponseID :: string
  sq_Verbosity :: string

definition empty_request :: sdk_request where
  "empty_request = \<lparr>sq_Model = '''', sq_System = '''', sq_Messages = [], sq_MaxOutputTokens = 0, sq_Temperature = None, sq_TopP = None,
     sq_TopK = None, sq_StopSequences = [], sq_Seed = None, sq_User = '''', sq_PresencePenalty = None, sq_FrequencyPenalty = None,
     sq_ParallelToolCalls = None, sq_PromptCacheKey = '''', sq_Thinking = None, sq_Include = [], sq_Tools = [], sq_ToolChoice = None,
     sq_ResponseFormat = None, sq_Store = None, sq_PreviousResponseID = '''', sq_Verbosity = ''''\<rparr>"

definition thinking_of :: "string \<Rightarrow> thinking option" where
  "thinking_of e = (case ToThinkingLevel (Parse e) of (lvl, ok) \<Rightarrow> if ok then Some (EffortT lvl) else None)"

text \<open>What follows the first comma of a \<open>data:\<close> URL.\<close>

definition stripDataURLPrefix :: "string \<Rightarrow> string" where
  "stripDataURLPrefix data =
     (if has_prefix data ''data:'' \<and> CHR '','' \<in> set data then tl (dropWhile (\<lambda>c. c \<noteq> CHR '','') data) else data)"

section \<open>Decoding what was built\<close>

lemma all_decoded_map: "(\<And>x. x \<in> set xs \<Longrightarrow> dec (f x) = Some (g x)) \<Longrightarrow> all_decoded dec (map f xs) = Some (map g xs)"
  by (induction xs) auto

lemma field_none [simp]: "field_values k kvs = [] \<Longrightarrow> field store init k kvs = Some init"
  by (simp add: field_def)

lemma field_one [simp]: "field_values k kvs = [v] \<Longrightarrow> field store init k kvs = store v init"
  by (simp add: field_def)

end
