(* ===== verification/InChat.thy ===== *)
theory InChat
  imports Inbound Chat
begin

text \<open>
  \<^verbatim>\<open>internal/inwire/openai_chat.go\<close>: requests in the format of OpenAI Chat.
\<close>

section \<open>The request\<close>

record OpenAIToolCall =
  tk_ID :: ident
  tk_Type :: string
  tk_Name :: string
  tk_Arguments :: string

record OpenAIMessage =
  om_Role :: string
  om_Content :: "json option"
  om_Name :: string
  om_ToolCalls :: "OpenAIToolCall list"
  om_ToolCallID :: ident
  om_ReasoningContent :: string
  om_Refusal :: "string option"

record OpenAITool =
  ot_Type :: string
  ot_Name :: string
  ot_Description :: string
  ot_Parameters :: "json option"

record OpenAIChatRequest =
  rc_Model :: string
  rc_Messages :: "OpenAIMessage list"
  rc_MaxTokens :: "int option"
  rc_MaxCompletionTokens :: "int option"
  rc_Temperature :: "string option"
  rc_TopP :: "string option"
  rc_Stop :: "string list"
  rc_Stream :: bool
  rc_IncludeUsage :: "bool option"
  rc_Tools :: "OpenAITool list"
  rc_ToolChoice :: "json option"
  rc_ReasoningEffort :: "string option"
  rc_PromptCacheKey :: string
  rc_RawEffort :: string
  rc_PresencePenalty :: "string option"
  rc_FrequencyPenalty :: "string option"
  rc_N :: "int option"
  rc_ResponseFormat :: "json option"
  rc_Seed :: "int option"
  rc_User :: string
  rc_ParallelToolCalls :: "bool option"

definition FlexibleStringList :: "json \<Rightarrow> string list \<Rightarrow> string list option" where
  "FlexibleStringList v a =
     (case v of
        JNull \<Rightarrow> Some []
      | JStr single \<Rightarrow> Some (if single = '''' then [] else [single])
      | _ \<Rightarrow> to_list string_element v [])"

definition decode_tool_call :: "(string \<times> json) list \<Rightarrow> OpenAIToolCall option" where
  "decode_tool_call kvs =
     do { i \<leftarrow> field to_string '''' ''id'' kvs;
          t \<leftarrow> field to_string '''' ''type'' kvs;
          f \<leftarrow> field to_members [] ''function'' kvs;
          n \<leftarrow> field to_string '''' ''name'' f;
          a \<leftarrow> field to_string '''' ''arguments'' f;
          Some \<lparr>tk_ID = i, tk_Type = t, tk_Name = n, tk_Arguments = a\<rparr> }"

definition decode_message :: "(string \<times> json) list \<Rightarrow> OpenAIMessage option" where
  "decode_message kvs =
     do { r \<leftarrow> field to_string '''' ''role'' kvs;
          c \<leftarrow> field to_raw None ''content'' kvs;
          n \<leftarrow> field to_string '''' ''name'' kvs;
          t \<leftarrow> field (to_list (decode_struct decode_tool_call)) [] ''tool_calls'' kvs;
          i \<leftarrow> field to_string '''' ''tool_call_id'' kvs;
          x \<leftarrow> field to_string '''' ''reasoning_content'' kvs;
          f \<leftarrow> field (to_pointer to_string '''') None ''refusal'' kvs;
          Some \<lparr>om_Role = r, om_Content = c, om_Name = n, om_ToolCalls = t, om_ToolCallID = i, om_ReasoningContent = x, om_Refusal = f\<rparr> }"

definition decode_tool :: "(string \<times> json) list \<Rightarrow> OpenAITool option" where
  "decode_tool kvs =
     do { t \<leftarrow> field to_string '''' ''type'' kvs;
          f \<leftarrow> field to_members [] ''function'' kvs;
          n \<leftarrow> field to_string '''' ''name'' f;
          d \<leftarrow> field to_string '''' ''description'' f;
          p \<leftarrow> field to_raw None ''parameters'' f;
          Some \<lparr>ot_Type = t, ot_Name = n, ot_Description = d, ot_Parameters = p\<rparr> }"

definition decode_chat :: "(string \<times> json) list \<Rightarrow> OpenAIChatRequest option" where
  "decode_chat kvs =
     do { model \<leftarrow> field to_string '''' ''model'' kvs;
          messages \<leftarrow> field (to_list (decode_struct decode_message)) [] ''messages'' kvs;
          mt \<leftarrow> field (to_pointer to_int 0) None ''max_tokens'' kvs;
          mct \<leftarrow> field (to_pointer to_int 0) None ''max_completion_tokens'' kvs;
          temp \<leftarrow> field (to_pointer to_number '''') None ''temperature'' kvs;
          topp \<leftarrow> field (to_pointer to_number '''') None ''top_p'' kvs;
          stop \<leftarrow> field FlexibleStringList [] ''stop'' kvs;
          stream \<leftarrow> field to_bool False ''stream'' kvs;
          so \<leftarrow> field (to_pointer to_members []) None ''stream_options'' kvs;
          usage \<leftarrow> (case so of None \<Rightarrow> Some None | Some m \<Rightarrow> field (to_pointer to_bool False) None ''include_usage'' m);
          tools \<leftarrow> field (to_list (decode_struct decode_tool)) [] ''tools'' kvs;
          choice \<leftarrow> field to_any None ''tool_choice'' kvs;
          eff \<leftarrow> field (to_pointer to_string '''') None ''reasoning_effort'' kvs;
          pck \<leftarrow> field to_string '''' ''prompt_cache_key'' kvs;
          pp \<leftarrow> field (to_pointer to_number '''') None ''presence_penalty'' kvs;
          fp \<leftarrow> field (to_pointer to_number '''') None ''frequency_penalty'' kvs;
          n \<leftarrow> field (to_pointer to_int 0) None ''n'' kvs;
          rf \<leftarrow> field to_raw None ''response_format'' kvs;
          seed \<leftarrow> field (to_pointer to_int 0) None ''seed'' kvs;
          user \<leftarrow> field to_string '''' ''user'' kvs;
          ptc \<leftarrow> field (to_pointer to_bool False) None ''parallel_tool_calls'' kvs;
          Some \<lparr>rc_Model = model, rc_Messages = messages, rc_MaxTokens = mt, rc_MaxCompletionTokens = mct, rc_Temperature = temp,
            rc_TopP = topp, rc_Stop = stop, rc_Stream = stream, rc_IncludeUsage = usage, rc_Tools = tools, rc_ToolChoice = choice,
            rc_ReasoningEffort = eff, rc_PromptCacheKey = pck, rc_RawEffort = '''', rc_PresencePenalty = pp, rc_FrequencyPenalty = fp,
            rc_N = n, rc_ResponseFormat = rf, rc_Seed = seed, rc_User = user, rc_ParallelToolCalls = ptc\<rparr> }"

definition DecodeOpenAIChatRequest :: "string option \<Rightarrow> int \<Rightarrow> body_error + OpenAIChatRequest" where
  "DecodeOpenAIChatRequest body maxBytes =
     (case read_body body maxBytes of
        Inl e \<Rightarrow> Inl e
      | Inr text \<Rightarrow>
          (case decodeTopLevelObject text of
             Inl e \<Rightarrow> Inl e
           | Inr kvs \<Rightarrow>
               (case decode_chat kvs of
                  None \<Rightarrow> Inl DecodeBody
                | Some req \<Rightarrow>
                    if rc_Model req = '''' then Inl (Rejected ''model is required'')
                    else if rc_Messages req = [] then Inl (Rejected ''messages is required'')
                    else
                      (let req' = (case rc_ReasoningEffort req of
                                     Some e \<Rightarrow> req\<lparr>rc_RawEffort := trim_space e\<rparr> | None \<Rightarrow> req) in
                       case rc_N req of
                         Some n \<Rightarrow> if n > 1 \<or> n < 0 then Inl (RejectedCount n) else Inr req'
                       | None \<Rightarrow> Inr req'))))"

section \<open>Contents\<close>

text \<open>A part of a content; the fields of a nested object are kept only if the object is there.\<close>

record openAIContentPart =
  cp_Type :: string
  cp_Text :: string
  cp_ImageURL :: "string option"
  cp_InputAudio :: "(string \<times> string) option"
  cp_File :: "(string \<times> ident \<times> string) option"

definition decode_part :: "(string \<times> json) list \<Rightarrow> openAIContentPart option" where
  "decode_part kvs =
     do { ty \<leftarrow> field to_string '''' ''type'' kvs;
          tx \<leftarrow> field to_string '''' ''text'' kvs;
          im \<leftarrow> field (to_pointer to_members []) None ''image_url'' kvs;
          iu \<leftarrow> (case im of None \<Rightarrow> Some None | Some m \<Rightarrow> map_option Some (field to_string '''' ''url'' m));
          ia \<leftarrow> field (to_pointer to_members []) None ''input_audio'' kvs;
          au \<leftarrow> (case ia of None \<Rightarrow> Some None
                | Some m \<Rightarrow> do { d \<leftarrow> field to_string '''' ''data'' m; f \<leftarrow> field to_string '''' ''format'' m; Some (Some (d, f)) });
          fi \<leftarrow> field (to_pointer to_members []) None ''file'' kvs;
          fo \<leftarrow> (case fi of None \<Rightarrow> Some None
                | Some m \<Rightarrow> do { d \<leftarrow> field to_string '''' ''file_data'' m; i \<leftarrow> field to_string '''' ''file_id'' m;
                                 n \<leftarrow> field to_string '''' ''filename'' m; Some (Some (d, i, n)) });
          Some \<lparr>cp_Type = ty, cp_Text = tx, cp_ImageURL = iu, cp_InputAudio = au, cp_File = fo\<rparr> }"

text \<open>Text, media blocks and the types of media parts without a payload.\<close>

record userContent =
  uc_Text :: string
  uc_Blocks :: "in_block list"
  uc_Dropped :: "string list"

definition no_content :: userContent where
  "no_content = \<lparr>uc_Text = '''', uc_Blocks = [], uc_Dropped = []\<rparr>"

definition chatFileBlock :: "openAIContentPart \<Rightarrow> in_block option" where
  "chatFileBlock p =
     (case cp_File p of
        None \<Rightarrow> None
      | Some (file_data, file_id, filename) \<Rightarrow>
          if file_id \<noteq> '''' then Some (FileB filename '''' '''' file_id None)
          else if file_data \<noteq> '''' then Some (FileB filename '''' (stripDataURLPrefix file_data) '''' None)
          else None)"

text \<open>The media block of a part: \<open>None\<close> for a part that is no media, \<open>Some None\<close> for one without a payload.\<close>

definition media_part :: "openAIContentPart \<Rightarrow> in_block option option" where
  "media_part p =
     (if cp_Type p = ''image_url'' then
        Some (case cp_ImageURL p of Some url \<Rightarrow> if url \<noteq> '''' then Some (ImageB url None) else None | None \<Rightarrow> None)
      else if cp_Type p = ''input_audio'' then
        Some (case cp_InputAudio p of Some (d, f) \<Rightarrow> if d \<noteq> '''' then Some (AudioB (stripDataURLPrefix d) f) else None | None \<Rightarrow> None)
      else if cp_Type p = ''file'' then Some (chatFileBlock p)
      else None)"

definition chatContentBlock :: "openAIContentPart \<Rightarrow> userContent" where
  "chatContentBlock p =
     (case media_part p of
        None \<Rightarrow> no_content
      | Some (Some b) \<Rightarrow> no_content\<lparr>uc_Blocks := [b]\<rparr>
      | Some None \<Rightarrow> no_content\<lparr>uc_Dropped := [cp_Type p]\<rparr>)"

definition add_part :: "openAIContentPart \<Rightarrow> userContent \<Rightarrow> userContent" where
  "add_part p out =
     (if cp_Type p = ''text'' then out\<lparr>uc_Text := uc_Text out @ cp_Text p\<rparr>
      else
       (case media_part p of
          None \<Rightarrow> out
        | Some (Some b) \<Rightarrow> out\<lparr>uc_Blocks := uc_Blocks out @ [b]\<rparr>
        | Some None \<Rightarrow> out\<lparr>uc_Dropped := uc_Dropped out @ [cp_Type p]\<rparr>))"

definition extractUserContent :: "json option \<Rightarrow> userContent" where
  "extractUserContent raw =
     (case raw_string raw of
        Some s \<Rightarrow> no_content\<lparr>uc_Text := s\<rparr>
      | None \<Rightarrow>
         (case raw_list (decode_struct decode_part) raw of
            Some parts \<Rightarrow> fold add_part parts no_content
          | None \<Rightarrow>
             (case Option.bind (raw_members raw) decode_part of
                None \<Rightarrow> no_content
              | Some single \<Rightarrow>
                  if cp_Type single = ''image_url'' \<and> (case cp_ImageURL single of Some url \<Rightarrow> url \<noteq> '''' | None \<Rightarrow> False)
                  then no_content\<lparr>uc_Blocks := [ImageB (the (cp_ImageURL single)) None]\<rparr>
                  else if cp_Text single \<noteq> '''' then no_content\<lparr>uc_Text := cp_Text single\<rparr>
                  else chatContentBlock single)))"

definition extractText :: "json option \<Rightarrow> string" where
  "extractText raw = uc_Text (extractUserContent raw)"

section \<open>Messages\<close>

definition userMessage :: "json option \<Rightarrow> in_message" where
  "userMessage raw =
     (let content = extractUserContent raw in
      if uc_Blocks content = [] then UserM (uc_Text content)
      else BlocksM UserRole ((if uc_Text content \<noteq> '''' then [TextB (uc_Text content) None] else []) @ uc_Blocks content))"

definition assistantText :: "OpenAIMessage \<Rightarrow> string" where
  "assistantText m =
     (let t = extractText (om_Content m) in
      if t \<noteq> '''' then t else (case om_Refusal m of Some r \<Rightarrow> if r \<noteq> '''' then r else '''' | None \<Rightarrow> ''''))"

definition convertMessage :: "OpenAIMessage \<Rightarrow> in_message" where
  "convertMessage m =
     (if om_Role m = ''system'' then SystemM (extractText (om_Content m))
      else if om_Role m = ''user'' then userMessage (om_Content m)
      else if om_Role m = ''assistant'' then
        (if om_ToolCalls m \<noteq> [] \<or> om_ReasoningContent m \<noteq> '''' then
           AssistantBlocksM
             ((if om_ReasoningContent m \<noteq> '''' then [ThinkingB (om_ReasoningContent m) ''''] else []) @
              (let t = extractText (om_Content m) in if t \<noteq> '''' then [TextB t None] else []) @
              map (\<lambda>c. ToolCallB (tk_ID c) (tk_Name c) (tk_Arguments c) None) (om_ToolCalls m))
         else AssistantM (assistantText m))
      else if om_Role m = ''tool'' then ToolResultM (om_ToolCallID m) '''' (extractText (om_Content m))
      else if om_Role m = ''developer'' then SystemM (extractText (om_Content m))
      else if om_Role m = ''function'' then ToolResultM (om_Name m) '''' (extractText (om_Content m))
      else userMessage (om_Content m))"

section \<open>The request of the SDK\<close>

definition maxTokens :: "OpenAIChatRequest \<Rightarrow> int" where
  "maxTokens r =
     (case rc_MaxCompletionTokens r of Some n \<Rightarrow> n | None \<Rightarrow> (case rc_MaxTokens r of Some n \<Rightarrow> n | None \<Rightarrow> 0))"

text \<open>The name of \<open>{"type":"function","function":{"name":...}}\<close>; the keys of a map are exact.\<close>

definition named_function :: "(string \<times> json) list \<Rightarrow> string option" where
  "named_function t =
     (if json_member ''type'' t \<noteq> Some (JStr ''function'') then None
      else (case json_member ''function'' t of
              Some (JObj fn) \<Rightarrow> (case json_member ''name'' fn of Some (JStr n) \<Rightarrow> if n = '''' then None else Some n | _ \<Rightarrow> None)
            | _ \<Rightarrow> None))"

definition chatToolChoiceToRosetta :: "json option \<Rightarrow> tool_choice option" where
  "chatToolChoiceToRosetta v =
     (case v of
        Some (JStr t) \<Rightarrow>
          if t = ''auto'' then Some ChooseAuto else if t = ''none'' then Some ChooseNone
          else if t = ''required'' then Some ChooseRequired else None
      | Some (JObj t) \<Rightarrow> map_option ChooseTool (named_function t)
      | _ \<Rightarrow> None)"

definition chatToolChoiceAnthropic :: "json option \<Rightarrow> json option" where
  "chatToolChoiceAnthropic v =
     (case v of
        Some (JStr t) \<Rightarrow>
          if t = ''auto'' then Some (JObj [(''type'', JStr ''auto'')])
          else if t = ''required'' then Some (JObj [(''type'', JStr ''any'')]) else None
      | Some (JObj t) \<Rightarrow> map_option (\<lambda>n. JObj [(''type'', JStr ''tool''), (''name'', JStr n)]) (named_function t)
      | _ \<Rightarrow> None)"

definition chatToolChoiceResponses :: "json option \<Rightarrow> json option" where
  "chatToolChoiceResponses v =
     (case v of
        Some (JStr t) \<Rightarrow> if t \<in> {''auto'', ''none'', ''required''} then Some (JStr t) else None
      | Some (JObj t) \<Rightarrow> map_option (\<lambda>n. JObj [(''type'', JStr ''function''), (''name'', JStr n)]) (named_function t)
      | _ \<Rightarrow> None)"

definition format_struct :: "(string \<times> json) list \<Rightarrow> (string \<times> json option) option" where
  "format_struct kvs = do { t \<leftarrow> field to_string '''' ''type'' kvs; s \<leftarrow> field to_raw None ''json_schema'' kvs; Some (t, s) }"

definition schema_struct :: "(string \<times> json) list \<Rightarrow> (string \<times> json option \<times> bool option) option" where
  "schema_struct kvs =
     do { n \<leftarrow> field to_string '''' ''name'' kvs; s \<leftarrow> field to_raw None ''schema'' kvs;
          b \<leftarrow> field (to_pointer to_bool False) None ''strict'' kvs; Some (n, s, b) }"

definition plain_format :: "string \<Rightarrow> response_format" where
  "plain_format t = \<lparr>rf_Type = t, rf_Name = '''', rf_Schema = None, rf_Strict = None\<rparr>"

definition chatResponseFormatToRosetta :: "json option \<Rightarrow> response_format option" where
  "chatResponseFormatToRosetta raw =
     (case Option.bind (raw_members raw) format_struct of
        None \<Rightarrow> None
      | Some (t, schema) \<Rightarrow>
          if t = ''text'' \<or> t = ''json_object'' then Some (plain_format t)
          else if t = ''json_schema'' then
            Some (case Option.bind (raw_members schema) schema_struct of
                    Some (n, s, b) \<Rightarrow> (plain_format t)\<lparr>rf_Name := n, rf_Schema := s, rf_Strict := b\<rparr>
                  | None \<Rightarrow> plain_format t)
          else None)"

definition chat_RequiresStructuredOutput :: "OpenAIChatRequest \<Rightarrow> bool" where
  "chat_RequiresStructuredOutput r =
     (case Option.bind (raw_members (rc_ResponseFormat r)) (field to_string '''' ''type'') of
        None \<Rightarrow> False
      | Some t \<Rightarrow> t = ''json_object'' \<or> t = ''json_schema'')"

definition chat_ToRosetta :: "OpenAIChatRequest \<Rightarrow> sdk_request" where
  "chat_ToRosetta r =
     empty_request
       \<lparr>sq_Model := rc_Model r, sq_Messages := map convertMessage (rc_Messages r), sq_MaxOutputTokens := maxTokens r,
        sq_Temperature := rc_Temperature r, sq_TopP := rc_TopP r, sq_StopSequences := rc_Stop r, sq_Seed := rc_Seed r, sq_User := rc_User r,
        sq_PresencePenalty := rc_PresencePenalty r, sq_FrequencyPenalty := rc_FrequencyPenalty r,
        sq_ParallelToolCalls := rc_ParallelToolCalls r, sq_PromptCacheKey := rc_PromptCacheKey r,
        sq_Thinking := (case rc_ReasoningEffort r of Some e \<Rightarrow> thinking_of e | None \<Rightarrow> None),
        sq_Tools := map (\<lambda>t. \<lparr>td_Name = ot_Name t, td_Description = ot_Description t, td_Parameters = ot_Parameters t, td_CacheControl = None\<rparr>)
          (rc_Tools r),
        sq_ToolChoice := chatToolChoiceToRosetta (rc_ToolChoice r),
        sq_ResponseFormat := chatResponseFormatToRosetta (rc_ResponseFormat r)\<rparr>"

definition wantsStreamUsage :: "OpenAIChatRequest \<Rightarrow> bool" where
  "wantsStreamUsage req = (rc_IncludeUsage req = Some True)"


section \<open>What is accepted\<close>

text \<open>The blocks of a user message and of an assistant message.\<close>

fun user_block :: "in_block \<Rightarrow> bool" where
  "user_block (TextB t c) = (t \<noteq> '''')" | "user_block (ImageB u c) = (u \<noteq> '''')" | "user_block (AudioB d f) = True"
| "user_block (FileB n m d i c) = ((d = '''') \<or> (i = ''''))" | "user_block _ = False"

fun assistant_block :: "in_block \<Rightarrow> bool" where
  "assistant_block (TextB t c) = (t \<noteq> '''')" | "assistant_block (ThinkingB t g) = (t \<noteq> '''')" | "assistant_block (ToolCallB i n a c) = True"
| "assistant_block _ = False"

fun chat_message_ok :: "in_message \<Rightarrow> bool" where
  "chat_message_ok (AssistantBlocksM bs) = (bs \<noteq> [] \<and> list_all assistant_block bs)"
| "chat_message_ok (BlocksM r bs) = (r = UserRole \<and> bs \<noteq> [] \<and> list_all user_block bs)"
| "chat_message_ok _ = True"

lemma media_ok: "media_part p = Some (Some b) \<Longrightarrow> user_block b"
  by (auto simp: media_part_def chatFileBlock_def split: if_splits option.splits prod.splits)

lemma parts_ok: "list_all user_block (uc_Blocks out) \<Longrightarrow> list_all user_block (uc_Blocks (fold add_part parts out))"
proof (induction parts arbitrary: out)
  case Nil
  then show ?case by simp
next
  case (Cons p parts)
  then have "list_all user_block (uc_Blocks (add_part p out))"
    by (auto simp: add_part_def media_ok split: option.splits)
  with Cons.IH show ?case by simp
qed

lemma content_ok: "list_all user_block (uc_Blocks (extractUserContent raw))"
  using parts_ok [of no_content]
  by (auto simp: extractUserContent_def chatContentBlock_def no_content_def media_ok split: option.splits)

lemma user_ok: "chat_message_ok (userMessage raw)"
  using content_ok [of raw] by (auto simp: userMessage_def Let_def)

lemma converted_ok: "chat_message_ok (convertMessage m)"
  using user_ok by (auto simp: convertMessage_def Let_def list_all_iff)

text \<open>A request of OpenAI Chat is accepted only if its body keeps within the limit and is an object without duplicate keys that names
  a model, has messages and asks for at most one choice; every message becomes one message of the SDK, whose blocks are such as its role
  allows and none of which is empty.\<close>

theorem chat_request_sound:
  assumes "DecodeOpenAIChatRequest (Some text) maxBytes = Inr r"
  shows "int (length text) \<le> (if maxBytes \<le> 0 then defaultMaxBodyBytes else maxBytes) \<and>
    (\<exists>kvs. Unmarshal text = Some (JObj kvs) \<and> distinct (map fst kvs)) \<and>
    rc_Model r \<noteq> '''' \<and> rc_Messages r \<noteq> [] \<and> rc_N r \<in> {None, Some 0, Some 1} \<and>
    length (sq_Messages (chat_ToRosetta r)) = length (rc_Messages r) \<and> list_all chat_message_ok (sq_Messages (chat_ToRosetta r))"
proof -
  obtain t kvs q where t: "read_body (Some text) maxBytes = Inr t" and kvs: "decodeTopLevelObject t = Inr kvs" and q: "decode_chat kvs = Some q"
    using assms by (auto simp: DecodeOpenAIChatRequest_def split: sum.splits option.splits)
  from assms t kvs q have r: "rc_Model r = rc_Model q" "rc_Messages r = rc_Messages q" "rc_N r = rc_N q" "rc_Model q \<noteq> ''''" "rc_Messages q \<noteq> []"
    "rc_N q \<in> {None, Some 0, Some 1}"
    by (auto simp: DecodeOpenAIChatRequest_def Let_def split: option.splits if_splits)
  note body = read_body_whole [OF t]
  have "kvs \<noteq> []"
  proof
    assume "kvs = []"
    with q have "rc_Model q = ''''" by (auto simp: decode_chat_def field_values_def bind_eq_Some_conv)
    with r show False by simp
  qed
  then have "Unmarshal text = Some (JObj kvs) \<and> distinct (map fst kvs)"
    using body kvs by (auto simp: top_level_object)
  with body r show ?thesis
    by (auto simp: chat_ToRosetta_def list_all_iff converted_ok)
qed


definition demo_body :: string where
  "demo_body = ''{\"model\":\"m\",\"n\":1,\"messages\":[{\"role\":\"user\",\"content\":[{\"type\":\"text\",\"text\":\"hi\"}]},''
     @ ''{\"role\":\"assistant\",\"content\":null,\"reasoning_content\":\"so\"}]}''"

definition demo_chat :: OpenAIChatRequest where
  "demo_chat = projr (DecodeOpenAIChatRequest (Some demo_body) 200)"

theorem chat_request_sound_witness:
  "DecodeOpenAIChatRequest (Some demo_body) 200 = Inr demo_chat \<and>
   sq_Messages (chat_ToRosetta demo_chat) = [UserM ''hi'', AssistantBlocksM [ThinkingB ''so'' '''']] \<and>
   length (sq_Messages (chat_ToRosetta demo_chat)) = length (rc_Messages demo_chat)"
proof -
  have 1: "DecodeOpenAIChatRequest (Some demo_body) 200 = Inr demo_chat" by code_simp
  have 2: "sq_Messages (chat_ToRosetta demo_chat) = [UserM ''hi'', AssistantBlocksM [ThinkingB ''so'' '''']]" by code_simp
  from chat_request_sound [OF 1] 1 2 show ?thesis by simp
qed

text \<open>A request counts as one with a structured output exactly if the request that is built for the SDK has the constraint, so none is
  lost on an upstream that was not filtered out.\<close>

theorem chat_structured_output:
  "chat_RequiresStructuredOutput r \<longleftrightarrow>
    (case sq_ResponseFormat (chat_ToRosetta r) of Some f \<Rightarrow> rf_Type f \<in> {''json_object'', ''json_schema''} | None \<Rightarrow> False)"
proof -
  have raw: "(field to_raw a k kvs = None) = False" for a k and kvs :: "(string \<times> json) list"
  proof -
    have "\<exists>y. fold (\<lambda>v acc. Option.bind acc (to_raw v)) vs (Some x) = Some y" for vs :: "json list" and x
      by (induction vs arbitrary: x) (auto simp: to_raw_def)
    then show ?thesis by (auto simp: field_def)
  qed
  then have "format_struct kvs = None \<longleftrightarrow> field to_string '''' ''type'' kvs = None"
    "format_struct kvs = Some (t, s) \<Longrightarrow> field to_string '''' ''type'' kvs = Some t" for kvs t s
    by (auto simp: format_struct_def bind_eq_Some_conv bind_eq_None_conv raw)
  then show ?thesis
    by (auto simp: chat_RequiresStructuredOutput_def chat_ToRosetta_def chatResponseFormatToRosetta_def plain_format_def
        bind_eq_Some_conv bind_eq_None_conv split: option.splits prod.splits)
qed

section \<open>Replies that come back\<close>

text \<open>A client replays the message of a reply with its role.\<close>

definition tool_call_json :: "chat_tool \<Rightarrow> json" where
  "tool_call_json c = JObj [(''id'', JStr (ct_ID c)), (''type'', JStr ''function''),
     (''function'', JObj [(''name'', JStr (ct_Name c)), (''arguments'', JStr (ct_Arguments c))])]"

definition message_json :: "OpenAIChatResponse \<Rightarrow> (string \<times> json) list" where
  "message_json m =
     [(''role'', JStr ''assistant''), (''content'', case oc_Content m of None \<Rightarrow> JNull | Some t \<Rightarrow> JStr t)] @
     (if oc_ToolCalls m = [] then [] else [(''tool_calls'', JArr (map tool_call_json (oc_ToolCalls m)))]) @
     (if oc_ReasoningContent m = '''' then [] else [(''reasoning_content'', JStr (oc_ReasoningContent m))])"

lemma field_names [simp]:
  "to_lower ''role'' = ''role''" "to_lower ''content'' = ''content''" "to_lower ''tool_calls'' = ''tool_calls''"
  "to_lower ''reasoning_content'' = ''reasoning_content''" "to_lower ''id'' = ''id''" "to_lower ''type'' = ''type''"
  "to_lower ''function'' = ''function''" "to_lower ''name'' = ''name''" "to_lower ''arguments'' = ''arguments''"
  by code_simp+

lemma decode_tool_call_json:
  "decode_struct decode_tool_call (tool_call_json c) =
     Some \<lparr>tk_ID = ct_ID c, tk_Type = ''function'', tk_Name = ct_Name c, tk_Arguments = ct_Arguments c\<rparr>"
  by (simp add: decode_struct_def tool_call_json_def to_members_def decode_tool_call_def field_def field_values_def to_string_def)

lemma decode_message_json:
  "decode_message (message_json m) = Some
     \<lparr>om_Role = ''assistant'', om_Content = Some (case oc_Content m of None \<Rightarrow> JNull | Some t \<Rightarrow> JStr t), om_Name = '''',
      om_ToolCalls = map (\<lambda>c. \<lparr>tk_ID = ct_ID c, tk_Type = ''function'', tk_Name = ct_Name c, tk_Arguments = ct_Arguments c\<rparr>) (oc_ToolCalls m),
      om_ToolCallID = '''', om_ReasoningContent = oc_ReasoningContent m, om_Refusal = None\<rparr>"
proof -
  have "all_decoded (decode_struct decode_tool_call) (map tool_call_json (oc_ToolCalls m)) =
      Some (map (\<lambda>c. \<lparr>tk_ID = ct_ID c, tk_Type = ''function'', tk_Name = ct_Name c, tk_Arguments = ct_Arguments c\<rparr>) (oc_ToolCalls m))"
    by (rule all_decoded_map) (rule decode_tool_call_json)
  then show ?thesis
    by (simp add: decode_message_def message_json_def field_def field_values_def to_string_def to_raw_def to_list_def)
qed

text \<open>C30: What the gateway has replied in the format of OpenAI Chat it understands when the client sends it back: the message becomes one
  message of the assistant with the same thoughts, text and tool calls, in this order.\<close>

theorem chat_reply_replayed:
  "map_option convertMessage (decode_message (message_json (WriteNonStreamResponse resp model))) = Some
     (if cr_ToolCalls resp = [] \<and> cr_ThinkingText resp = '''' then AssistantM (cr_Text resp)
      else AssistantBlocksM
        ((if cr_ThinkingText resp \<noteq> '''' then [ThinkingB (cr_ThinkingText resp) ''''] else []) @
         (if cr_Text resp \<noteq> '''' then [TextB (cr_Text resp) None] else []) @
         map (\<lambda>c. ToolCallB (ct_ID c) (ct_Name c) (ct_Arguments c) None) (cr_ToolCalls resp)))"
  by (auto simp: decode_message_json convertMessage_def WriteNonStreamResponse_def Let_def assistantText_def extractText_def
      extractUserContent_def raw_string_def to_string_def no_content_def o_def)

end
