(* ===== verification/InAnthropic.thy ===== *)
theory InAnthropic
  imports Inbound Anthropic
begin

text \<open>
  \<^verbatim>\<open>internal/inwire/anthropic.go\<close>: requests in the format of Anthropic Messages. A raw value that is passed on as text is the text it was
  read from, the function \<open>text_of\<close>.
\<close>

section \<open>The request\<close>

record anthropicBlock =
  ab_Type :: string
  ab_Text :: string
  ab_Source :: "(string \<times> string \<times> string \<times> string) option"
  ab_ID :: ident
  ab_Name :: string
  ab_Input :: "json option"
  ab_ToolUseID :: ident
  ab_Content :: "json option"
  ab_IsError :: "bool option"
  ab_Thinking :: string
  ab_Signature :: string
  ab_Data :: string
  ab_CacheControl :: cache_control

record AnthropicMessage =
  ms_Role :: string
  ms_Content :: "json option"

record AnthropicTool =
  at_Name :: string
  at_Description :: string
  at_InputSchema :: "json option"
  at_CacheControl :: cache_control

record AnthropicMessagesRequest =
  ar_Model :: string
  ar_MaxTokens :: int
  ar_System :: "json option"
  ar_Messages :: "AnthropicMessage list"
  ar_Temperature :: "string option"
  ar_TopP :: "string option"
  ar_TopK :: "int option"
  ar_StopSequences :: "string list"
  ar_Stream :: bool
  ar_Tools :: "AnthropicTool list"
  ar_ToolChoice :: "(string \<times> string) option"
  ar_Thinking :: "(string \<times> int) option"
  ar_RawEffort :: string

text \<open>A pointer to a struct: its members are decoded if it is there.\<close>

definition pointed :: "((string \<times> json) list \<Rightarrow> 'a option) \<Rightarrow> string \<Rightarrow> (string \<times> json) list \<Rightarrow> 'a option option" where
  "pointed get k kvs =
     (case field (to_pointer to_members []) None k kvs of
        None \<Rightarrow> None | Some None \<Rightarrow> Some None | Some (Some m) \<Rightarrow> map_option Some (get m))"

definition decode_cache :: "(string \<times> json) list \<Rightarrow> (string \<times> string) option" where
  "decode_cache kvs = do { t \<leftarrow> field to_string '''' ''type'' kvs; l \<leftarrow> field to_string '''' ''ttl'' kvs; Some (t, l) }"

definition decode_source :: "(string \<times> json) list \<Rightarrow> (string \<times> string \<times> string \<times> string) option" where
  "decode_source kvs =
     do { t \<leftarrow> field to_string '''' ''type'' kvs; m \<leftarrow> field to_string '''' ''media_type'' kvs;
          d \<leftarrow> field to_string '''' ''data'' kvs; u \<leftarrow> field to_string '''' ''url'' kvs; Some (t, m, d, u) }"

definition decode_block :: "(string \<times> json) list \<Rightarrow> anthropicBlock option" where
  "decode_block kvs =
     do { ty \<leftarrow> field to_string '''' ''type'' kvs;
          tx \<leftarrow> field to_string '''' ''text'' kvs;
          so \<leftarrow> pointed decode_source ''source'' kvs;
          i \<leftarrow> field to_string '''' ''id'' kvs;
          n \<leftarrow> field to_string '''' ''name'' kvs;
          inp \<leftarrow> field to_raw None ''input'' kvs;
          tu \<leftarrow> field to_string '''' ''tool_use_id'' kvs;
          c \<leftarrow> field to_raw None ''content'' kvs;
          er \<leftarrow> field (to_pointer to_bool False) None ''is_error'' kvs;
          th \<leftarrow> field to_string '''' ''thinking'' kvs;
          sg \<leftarrow> field to_string '''' ''signature'' kvs;
          d \<leftarrow> field to_string '''' ''data'' kvs;
          cc \<leftarrow> pointed decode_cache ''cache_control'' kvs;
          Some \<lparr>ab_Type = ty, ab_Text = tx, ab_Source = so, ab_ID = i, ab_Name = n, ab_Input = inp, ab_ToolUseID = tu, ab_Content = c,
            ab_IsError = er, ab_Thinking = th, ab_Signature = sg, ab_Data = d, ab_CacheControl = cc\<rparr> }"

definition decode_anthropic_message :: "(string \<times> json) list \<Rightarrow> AnthropicMessage option" where
  "decode_anthropic_message kvs =
     do { r \<leftarrow> field to_string '''' ''role'' kvs; c \<leftarrow> field to_raw None ''content'' kvs; Some \<lparr>ms_Role = r, ms_Content = c\<rparr> }"

definition decode_anthropic_tool :: "(string \<times> json) list \<Rightarrow> AnthropicTool option" where
  "decode_anthropic_tool kvs =
     do { n \<leftarrow> field to_string '''' ''name'' kvs; d \<leftarrow> field to_string '''' ''description'' kvs;
          s \<leftarrow> field to_raw None ''input_schema'' kvs; cc \<leftarrow> pointed decode_cache ''cache_control'' kvs;
          Some \<lparr>at_Name = n, at_Description = d, at_InputSchema = s, at_CacheControl = cc\<rparr> }"

definition decode_choice :: "(string \<times> json) list \<Rightarrow> (string \<times> string) option" where
  "decode_choice kvs = do { t \<leftarrow> field to_string '''' ''type'' kvs; n \<leftarrow> field to_string '''' ''name'' kvs; Some (t, n) }"

definition decode_thinking :: "(string \<times> json) list \<Rightarrow> (string \<times> int) option" where
  "decode_thinking kvs = do { t \<leftarrow> field to_string '''' ''type'' kvs; n \<leftarrow> field to_int 0 ''budget_tokens'' kvs; Some (t, n) }"

definition decode_anthropic :: "(string \<times> json) list \<Rightarrow> AnthropicMessagesRequest option" where
  "decode_anthropic kvs =
     do { model \<leftarrow> field to_string '''' ''model'' kvs;
          mt \<leftarrow> field to_int 0 ''max_tokens'' kvs;
          sys \<leftarrow> field to_raw None ''system'' kvs;
          messages \<leftarrow> field (to_list (decode_struct decode_anthropic_message)) [] ''messages'' kvs;
          temp \<leftarrow> field (to_pointer to_number '''') None ''temperature'' kvs;
          topp \<leftarrow> field (to_pointer to_number '''') None ''top_p'' kvs;
          topk \<leftarrow> field (to_pointer to_int 0) None ''top_k'' kvs;
          stop \<leftarrow> field (to_list string_element) [] ''stop_sequences'' kvs;
          stream \<leftarrow> field to_bool False ''stream'' kvs;
          tools \<leftarrow> field (to_list (decode_struct decode_anthropic_tool)) [] ''tools'' kvs;
          choice \<leftarrow> pointed decode_choice ''tool_choice'' kvs;
          think \<leftarrow> pointed decode_thinking ''thinking'' kvs;
          Some \<lparr>ar_Model = model, ar_MaxTokens = mt, ar_System = sys, ar_Messages = messages, ar_Temperature = temp, ar_TopP = topp,
            ar_TopK = topk, ar_StopSequences = stop, ar_Stream = stream, ar_Tools = tools, ar_ToolChoice = choice, ar_Thinking = think,
            ar_RawEffort = ''''\<rparr> }"

section \<open>Contents\<close>

text \<open>The blocks and whether the shape is allowed: only a single object is not.\<close>

definition decodeContentBlocks :: "json option \<Rightarrow> anthropicBlock list \<times> bool" where
  "decodeContentBlocks raw =
     (case raw of
        None \<Rightarrow> ([], True)
      | Some v \<Rightarrow>
          (case raw_list (decode_struct decode_block) raw of
             Some blocks \<Rightarrow> (blocks, True)
           | None \<Rightarrow> if raw_string raw \<noteq> None then ([], True) else ([], (case v of JObj kvs \<Rightarrow> False | _ \<Rightarrow> True))))"

definition decodeBlocks :: "json option \<Rightarrow> anthropicBlock list" where
  "decodeBlocks raw = (case raw_list (decode_struct decode_block) raw of Some blocks \<Rightarrow> blocks | None \<Rightarrow> [])"

definition supported_assistant_block :: "string \<Rightarrow> bool" where
  "supported_assistant_block t \<longleftrightarrow> t \<in> {''text'', ''tool_use'', ''thinking'', ''redacted_thinking''}"

fun validateContentShape :: "nat \<Rightarrow> AnthropicMessage list \<Rightarrow> body_error option" where
  "validateContentShape i [] = None"
| "validateContentShape i (m # ms) =
     (if ms_Content m = None then validateContentShape (i + 1) ms
      else (case decodeContentBlocks (ms_Content m) of (blocks, ok) \<Rightarrow>
        if \<not> ok then Some (RejectedItem i ''single object'')
        else if ms_Role m = ''assistant''
        then (case filter (\<lambda>b. \<not> supported_assistant_block (ab_Type b)) blocks of
                b # _ \<Rightarrow> Some (RejectedItem i (ab_Type b)) | [] \<Rightarrow> validateContentShape (i + 1) ms)
        else validateContentShape (i + 1) ms))"

definition check_choice :: "(string \<times> string) option \<Rightarrow> body_error option" where
  "check_choice c =
     (case c of
        None \<Rightarrow> None
      | Some (ty, name) \<Rightarrow>
          if ty \<in> {''auto'', ''any'', ''none''} then None
          else if ty = ''tool'' then (if name = '''' then Some (Rejected ''tool_choice: type=tool requires name'') else None)
          else Some (Rejected ''tool_choice.type''))"

definition check_thinking :: "(string \<times> int) option \<Rightarrow> body_error + string" where
  "check_thinking t =
     (case t of
        None \<Rightarrow> Inr ''''
      | Some (ty, budget) \<Rightarrow>
          if ty = ''enabled'' then
            (if budget \<le> 0 then Inl (Rejected ''thinking: type=enabled requires budget_tokens'')
             else Inr (if budget \<le> 4096 then ''low'' else if budget \<le> 16384 then ''medium'' else ''high''))
          else if ty = ''disabled'' then Inr ''''
          else Inl (Rejected ''thinking.type''))"

definition DecodeAnthropicMessagesRequest :: "string option \<Rightarrow> int \<Rightarrow> body_error + AnthropicMessagesRequest" where
  "DecodeAnthropicMessagesRequest body maxBytes =
     (case read_body body maxBytes of
        Inl e \<Rightarrow> Inl e
      | Inr text \<Rightarrow>
          (case decodeTopLevelObject text of
             Inl e \<Rightarrow> Inl e
           | Inr kvs \<Rightarrow>
               (case decode_anthropic kvs of
                  None \<Rightarrow> Inl DecodeBody
                | Some req \<Rightarrow>
                    if ar_Model req = '''' then Inl (Rejected ''model is required'')
                    else if ar_MaxTokens req \<le> 0 then Inl (Rejected ''max_tokens'')
                    else if ar_Messages req = [] then Inl (Rejected ''messages: required'')
                    else
                      (case check_choice (ar_ToolChoice req) of
                         Some e \<Rightarrow> Inl e
                       | None \<Rightarrow>
                           (case check_thinking (ar_Thinking req) of
                              Inl e \<Rightarrow> Inl e
                            | Inr effort \<Rightarrow>
                                (case validateContentShape 0 (ar_Messages req) of
                                   Some e \<Rightarrow> Inl e
                                 | None \<Rightarrow>
                                     if ar_System req \<noteq> None \<and> \<not> snd (decodeContentBlocks (ar_System req))
                                     then Inl (Rejected ''system: single object'')
                                     else Inr (req\<lparr>ar_RawEffort := effort\<rparr>)))))))"

definition ThinkingBudget :: "AnthropicMessagesRequest \<Rightarrow> int" where
  "ThinkingBudget a = (case ar_Thinking a of Some (ty, budget) \<Rightarrow> if ty = ''enabled'' then budget else 0 | None \<Rightarrow> 0)"

section \<open>Blocks\<close>

definition imageURL :: "anthropicBlock \<Rightarrow> string" where
  "imageURL b =
     (case ab_Source b of
        None \<Rightarrow> ''''
      | Some (ty, media, d, url) \<Rightarrow>
          if ty = ''base64'' then
            (if d = '''' then '''' else ''data:'' @ (if media = '''' then ''image/png'' else media) @ '';base64,'' @ d)
          else if ty = ''url'' then url else '''')"

definition fileBlock :: "anthropicBlock \<Rightarrow> in_block option" where
  "fileBlock b =
     (case ab_Source b of
        None \<Rightarrow> None
      | Some (ty, media, d, url) \<Rightarrow>
          (let media = (if media = '''' then ''application/pdf'' else media) in
           if ty = ''text'' then (if d = '''' then None else Some (TextB d (ab_CacheControl b)))
           else if ty = ''base64'' then (if d = '''' then None else Some (FileB (ab_Name b) media d '''' (ab_CacheControl b)))
           else if ty = ''url'' then (if url = '''' then None else Some (FileB (ab_Name b) media url '''' (ab_CacheControl b)))
           else None))"

definition contentString :: "json option \<Rightarrow> string" where
  "contentString raw =
     (case raw_string raw of
        Some s \<Rightarrow> s
      | None \<Rightarrow> concat (map ab_Text (filter (\<lambda>b. ab_Type b = ''text'') (decodeBlocks raw))))"

definition assistantBlock :: "(json \<Rightarrow> string) \<Rightarrow> anthropicBlock \<Rightarrow> in_block list" where
  "assistantBlock text_of b =
     (if ab_Type b = ''text'' then (if ab_Text b \<noteq> '''' then [TextB (ab_Text b) (ab_CacheControl b)] else [])
      else if ab_Type b = ''tool_use'' then
        (let args = (case ab_Input b of None \<Rightarrow> '''' | Some v \<Rightarrow> text_of v);
             args = (if trim_space args = '''' then ''{}'' else args)
         in [ToolCallB (ab_ID b) (ab_Name b) args (ab_CacheControl b)])
      else if ab_Type b = ''thinking'' then [ThinkingB (ab_Thinking b) (ab_Signature b)]
      else if ab_Type b = ''redacted_thinking'' then [RedactedB (ab_Data b)]
      else [])"

definition assistantBlocks :: "(json \<Rightarrow> string) \<Rightarrow> json option \<Rightarrow> in_block list" where
  "assistantBlocks text_of raw = concat (map (assistantBlock text_of) (decodeBlocks raw))"

definition media_block :: "anthropicBlock \<Rightarrow> in_block list" where
  "media_block b =
     (if ab_Type b = ''image'' then (if imageURL b \<noteq> '''' then [ImageB (imageURL b) (ab_CacheControl b)] else [])
      else if ab_Type b = ''document'' then (case fileBlock b of Some x \<Rightarrow> [x] | None \<Rightarrow> [])
      else [])"

definition toolResultContent :: "anthropicBlock \<Rightarrow> string \<times> in_block list" where
  "toolResultContent b =
     (case raw_string (ab_Content b) of
        Some s \<Rightarrow> (s, [])
      | None \<Rightarrow>
          (let inner = decodeBlocks (ab_Content b) in
           (concat (map ab_Text (filter (\<lambda>b. ab_Type b = ''text'') inner)), concat (map media_block inner))))"

text \<open>The text of the notice is left open; it only depends on the number of attachments.\<close>

definition convertUserMessage :: "(nat \<Rightarrow> string) \<Rightarrow> json option \<Rightarrow> in_message list" where
  "convertUserMessage anthropicToolMediaNotice raw =
     (let blocks = decodeBlocks raw in
      if blocks = [] then (case raw_string raw of Some s \<Rightarrow> [UserM s] | None \<Rightarrow> [UserM ''''])
      else
       (let results = filter (\<lambda>b. ab_Type b = ''tool_result'') blocks;
            toolResults = map (\<lambda>b. ToolResultB (ab_ToolUseID b) (fst (toolResultContent b)) (ab_IsError b = Some True) (ab_CacheControl b)) results;
            toolMedia = concat (map (\<lambda>b. snd (toolResultContent b)) results);
            rest = concat (map (\<lambda>b.
              if ab_Type b = ''tool_result'' then []
              else if ab_Type b = ''text'' then
                (if ab_Text b \<noteq> '''' then [TextB (ab_Text b) (ab_CacheControl b)]
                 else if ab_CacheControl b \<noteq> None then [TextB '''' (ab_CacheControl b)] else [])
              else if ab_Type b = ''image'' then (if imageURL b \<noteq> '''' then [ImageB (imageURL b) (ab_CacheControl b)] else [])
              else if ab_Type b = ''document'' then (case fileBlock b of Some x \<Rightarrow> [x] | None \<Rightarrow> [FileB '''' '''' '''' '''' None])
              else [UnknownB (ab_Type b)]) blocks);
            out = (if toolResults \<noteq> [] then [BlocksM ToolRole toolResults] else []) @
              (if toolMedia \<noteq> [] then [BlocksM UserRole (TextB (anthropicToolMediaNotice (length toolMedia)) None # toolMedia)] else []) @
              (if rest \<noteq> [] then [BlocksM UserRole rest] else [])
        in if out = [] then [UserM ''''] else out))"

definition convertAnthropicMessage :: "(json \<Rightarrow> string) \<Rightarrow> (nat \<Rightarrow> string) \<Rightarrow> AnthropicMessage \<Rightarrow> in_message list" where
  "convertAnthropicMessage text_of notice m =
     (if ms_Role m = ''assistant'' then
        (let blocks = assistantBlocks text_of (ms_Content m) in
         if blocks \<noteq> [] then [AssistantBlocksM blocks] else [AssistantM (contentString (ms_Content m))])
      else convertUserMessage notice (ms_Content m))"

section \<open>The request of the SDK\<close>

definition anthropicToolChoiceToRosetta :: "(string \<times> string) option \<Rightarrow> tool_choice option" where
  "anthropicToolChoiceToRosetta t =
     (case t of
        None \<Rightarrow> None
      | Some (ty, name) \<Rightarrow>
          if ty = ''auto'' then Some ChooseAuto else if ty = ''any'' then Some ChooseRequired else if ty = ''none'' then Some ChooseNone
          else if ty = ''tool'' then (if name = '''' then None else Some (ChooseTool name)) else None)"

definition anthropic_ToRosetta :: "(json \<Rightarrow> string) \<Rightarrow> (nat \<Rightarrow> string) \<Rightarrow> AnthropicMessagesRequest \<Rightarrow> sdk_request" where
  "anthropic_ToRosetta text_of notice a =
     (let req = empty_request\<lparr>sq_Model := ar_Model a, sq_MaxOutputTokens := ar_MaxTokens a, sq_Temperature := ar_Temperature a,
            sq_TopP := ar_TopP a, sq_TopK := ar_TopK a, sq_StopSequences := ar_StopSequences a\<rparr>;
          sysBlocks = map (\<lambda>b. TextB (ab_Text b) (ab_CacheControl b)) (filter (\<lambda>b. ab_Type b = ''text'') (decodeBlocks (ar_System a)));
          req = (if ar_System a = None then req
                 else (case raw_string (ar_System a) of
                         Some s \<Rightarrow> req\<lparr>sq_System := s\<rparr>
                       | None \<Rightarrow> if sysBlocks \<noteq> [] then req\<lparr>sq_Messages := [BlocksM SystemRole sysBlocks]\<rparr> else req))
      in req
        \<lparr>sq_Tools := map (\<lambda>t. \<lparr>td_Name = at_Name t, td_Description = at_Description t,
            td_Parameters = Some (case at_InputSchema t of None \<Rightarrow> JObj [] | Some p \<Rightarrow> p), td_CacheControl = at_CacheControl t\<rparr>) (ar_Tools a),
         sq_Thinking := (case ar_Thinking a of Some (ty, budget) \<Rightarrow> if ty = ''enabled'' then Some (BudgetT budget) else None | None \<Rightarrow> None),
         sq_ToolChoice := anthropicToolChoiceToRosetta (ar_ToolChoice a),
         sq_Messages := sq_Messages req @ concat (map (convertAnthropicMessage text_of notice) (ar_Messages a))\<rparr>)"


section \<open>What is accepted\<close>

lemma anthropic_fields:
  "sq_ToolChoice (anthropic_ToRosetta text_of notice a) = anthropicToolChoiceToRosetta (ar_ToolChoice a)"
  "sq_Thinking (anthropic_ToRosetta text_of notice a) =
     (case ar_Thinking a of Some (ty, budget) \<Rightarrow> if ty = ''enabled'' then Some (BudgetT budget) else None | None \<Rightarrow> None)"
  by (simp_all add: anthropic_ToRosetta_def Let_def)

definition proper_content :: "AnthropicMessage \<Rightarrow> bool" where
  "proper_content m = (case ms_Content m of Some (JObj kvs) \<Rightarrow> False | _ \<Rightarrow> True)"

lemma improper_content: "\<not> proper_content m \<Longrightarrow> decodeContentBlocks (ms_Content m) = ([], False) \<and> ms_Content m \<noteq> None"
  by (auto simp: proper_content_def decodeContentBlocks_def raw_list_def to_list_def raw_string_def to_string_def split: option.splits json.splits)

lemma shapes_proper: "validateContentShape i ms = None \<Longrightarrow> list_all proper_content ms"
proof (induction ms arbitrary: i)
  case Nil
  show ?case by simp
next
  case (Cons m ms)
  have "proper_content m"
  proof (rule ccontr)
    assume "\<not> proper_content m"
    with Cons.prems improper_content [OF this] show False by auto
  qed
  moreover have "validateContentShape (i + 1) ms = None"
    using Cons.prems by (auto split: if_splits prod.splits list.splits)
  ultimately show ?case using Cons.IH by auto
qed


definition demo_messages_body :: string where
  "demo_messages_body = ''{\"model\":\"m\",\"max_tokens\":9,\"thinking\":{\"type\":\"enabled\",\"budget_tokens\":5000},''
     @ ''\"tool_choice\":{\"type\":\"any\"},\"messages\":[{\"role\":\"user\",\"content\":\"hi\"}]}''"

definition demo_messages :: AnthropicMessagesRequest where
  "demo_messages = projr (DecodeAnthropicMessagesRequest (Some demo_messages_body) 200)"


section \<open>What the user says\<close>

fun block_result :: "in_block \<Rightarrow> ident list" where
  "block_result (ToolResultB i t e c) = [i]" | "block_result _ = []"

fun block_text :: "in_block \<Rightarrow> string list" where
  "block_text (TextB t c) = [t]" | "block_text _ = []"

fun message_blocks :: "in_message \<Rightarrow> in_block list" where
  "message_blocks (BlocksM r bs) = bs" | "message_blocks (UserM t) = [TextB t None]" | "message_blocks _ = []"

definition is_result :: "anthropicBlock \<Rightarrow> bool" where
  "is_result b \<longleftrightarrow> ab_Type b = ''tool_result''"

lemma file_no_result: "fileBlock b = Some x \<Longrightarrow> block_result x = []"
  by (auto simp: fileBlock_def Let_def split: if_splits option.splits prod.splits)

lemma media_cases:
  "media_block b = [] \<or> media_block b = [ImageB (imageURL b) (ab_CacheControl b)] \<or> (\<exists>y. fileBlock b = Some y \<and> media_block b = [y])"
  by (simp add: media_block_def split: option.split)

lemma media_no_result: "x \<in> set (media_block b) \<Longrightarrow> block_result x = []"
  using media_cases [of b] file_no_result [of b] by (elim disjE exE) auto

lemma tool_media_no_result: "x \<in> set (snd (toolResultContent b)) \<Longrightarrow> block_result x = []"
  by (auto simp: toolResultContent_def Let_def media_no_result split: option.splits)

text \<open>What stays in the user message of a block that is no tool result.\<close>

definition rest_block :: "anthropicBlock \<Rightarrow> in_block list" where
  "rest_block b =
     (if ab_Type b = ''tool_result'' then []
      else if ab_Type b = ''text'' then
        (if ab_Text b \<noteq> '''' then [TextB (ab_Text b) (ab_CacheControl b)]
         else if ab_CacheControl b \<noteq> None then [TextB '''' (ab_CacheControl b)] else [])
      else if ab_Type b = ''image'' then (if imageURL b \<noteq> '''' then [ImageB (imageURL b) (ab_CacheControl b)] else [])
      else if ab_Type b = ''document'' then (case fileBlock b of Some x \<Rightarrow> [x] | None \<Rightarrow> [FileB '''' '''' '''' '''' None])
      else [UnknownB (ab_Type b)])"

lemma rest_no_result: "x \<in> set (rest_block b) \<Longrightarrow> block_result x = []"
  by (auto simp: rest_block_def fileBlock_def Let_def split: if_splits option.splits prod.splits)

lemma no_result_list: "(\<And>x. x \<in> set xs \<Longrightarrow> block_result x = []) \<Longrightarrow> concat (map block_result xs) = []"
  by simp

lemma rest_texts:
  "subseq (map ab_Text (filter (\<lambda>b. ab_Type b = ''text'' \<and> ab_Text b \<noteq> '''') bs)) (concat (map block_text (concat (map rest_block bs))))"
proof (induction bs)
  case Nil
  then show ?case by simp
next
  case (Cons b bs)
  show ?case
  proof (cases "ab_Type b = ''text'' \<and> ab_Text b \<noteq> ''''")
    case True
    with Cons show ?thesis by (simp add: rest_block_def)
  next
    case False
    then have "filter (\<lambda>b. ab_Type b = ''text'' \<and> ab_Text b \<noteq> '''') (b # bs) = filter (\<lambda>b. ab_Type b = ''text'' \<and> ab_Text b \<noteq> '''') bs"
      by (simp only: filter.simps if_False)
    with list_emb_append2 [OF Cons] show ?thesis by (simp only: list.map concat.simps map_append concat_append)
  qed
qed

lemma user_message_parts:
  assumes "decodeBlocks raw \<noteq> []"
  obtains results media where
    "convertUserMessage notice raw = (let out = (if results \<noteq> [] then [BlocksM ToolRole results] else []) @
       (if media \<noteq> [] then [BlocksM UserRole (TextB (notice (length media)) None # media)] else []) @
       (if concat (map rest_block (decodeBlocks raw)) \<noteq> [] then [BlocksM UserRole (concat (map rest_block (decodeBlocks raw)))] else [])
     in if out = [] then [UserM ''''] else out)"
    "concat (map block_result results) = map ab_ToolUseID (filter is_result (decodeBlocks raw))"
    "(results \<noteq> []) = list_ex is_result (decodeBlocks raw)"
    "concat (map block_result media) = []"
proof -
  define results where "results = map (\<lambda>b. ToolResultB (ab_ToolUseID b) (fst (toolResultContent b)) (ab_IsError b = Some True) (ab_CacheControl b))
      (filter is_result (decodeBlocks raw))"
  define media where "media = concat (map (\<lambda>b. snd (toolResultContent b)) (filter is_result (decodeBlocks raw)))"
  have "concat (map block_result results) = map ab_ToolUseID (filter is_result (decodeBlocks raw))"
    by (simp add: results_def o_def concat_map_singleton)
  moreover have "(results \<noteq> []) = list_ex is_result (decodeBlocks raw)"
    by (auto simp: results_def filter_empty_conv list_ex_iff)
  moreover have "concat (map block_result media) = []"
    unfolding media_def by (rule no_result_list) (auto simp: tool_media_no_result)
  moreover have "convertUserMessage notice raw = (let out = (if results \<noteq> [] then [BlocksM ToolRole results] else []) @
       (if media \<noteq> [] then [BlocksM UserRole (TextB (notice (length media)) None # media)] else []) @
       (if concat (map rest_block (decodeBlocks raw)) \<noteq> [] then [BlocksM UserRole (concat (map rest_block (decodeBlocks raw)))] else [])
     in if out = [] then [UserM ''''] else out)"
    using assms unfolding convertUserMessage_def Let_def rest_block_def [abs_def] results_def media_def is_result_def [abs_def] by simp
  ultimately show ?thesis using that by blast
qed

text \<open>C31: The blocks of a user message become at most one message of tool results, which is the first and has the results in their order, and
  messages of the user behind it, which have every text in its order; no content vanishes into nothing.\<close>

theorem user_message_split:
  assumes "decodeBlocks raw \<noteq> []"
  shows "convertUserMessage notice raw \<noteq> [] \<and> length (convertUserMessage notice raw) \<le> 3 \<and>
    list_all (\<lambda>m. message_role m = UserRole) (tl (convertUserMessage notice raw)) \<and>
    (message_role (hd (convertUserMessage notice raw)) = ToolRole) = list_ex is_result (decodeBlocks raw) \<and>
    concat (map block_result (concat (map message_blocks (convertUserMessage notice raw)))) =
      map ab_ToolUseID (filter is_result (decodeBlocks raw)) \<and>
    subseq (map ab_Text (filter (\<lambda>b. ab_Type b = ''text'' \<and> ab_Text b \<noteq> '''') (decodeBlocks raw)))
      (concat (map block_text (concat (map message_blocks (convertUserMessage notice raw)))))"
proof -
  define rest where "rest = concat (map rest_block (decodeBlocks raw))"
  obtain results media where p: "convertUserMessage notice raw = (let out = (if results \<noteq> [] then [BlocksM ToolRole results] else []) @
       (if media \<noteq> [] then [BlocksM UserRole (TextB (notice (length media)) None # media)] else []) @
       (if rest \<noteq> [] then [BlocksM UserRole rest] else [])
     in if out = [] then [UserM ''''] else out)"
    "concat (map block_result results) = map ab_ToolUseID (filter is_result (decodeBlocks raw))"
    "(results \<noteq> []) = list_ex is_result (decodeBlocks raw)" "concat (map block_result media) = []"
    using user_message_parts [OF assms, of notice] unfolding rest_def by blast
  have rest: "concat (map block_result rest) = []"
    unfolding rest_def by (rule no_result_list) (auto simp: rest_no_result)
  have texts: "subseq (map ab_Text (filter (\<lambda>b. ab_Type b = ''text'' \<and> ab_Text b \<noteq> '''') (decodeBlocks raw))) (concat (map block_text rest))"
    unfolding rest_def by (rule rest_texts)
  have none: "results = [] \<Longrightarrow> filter is_result (decodeBlocks raw) = []"
    using p(2) by simp
  define said where "said = map ab_Text (filter (\<lambda>b. ab_Type b = ''text'' \<and> ab_Text b \<noteq> '''') (decodeBlocks raw))"
  have "rest = [] \<Longrightarrow> said = []" using texts by (auto simp: said_def dest: list_emb_Nil2)
  then show ?thesis
    unfolding p(1) Let_def p(3) [symmetric] p(2) [symmetric] said_def [symmetric]
    using rest texts [folded said_def] p(4) by (cases "results = []"; cases "media = []"; cases "rest = []") (auto intro: list_emb_append2)
qed


definition demo_content :: json where
  "demo_content = JArr
     [JObj [(''type'', JStr ''text''), (''text'', JStr ''see'')],
      JObj [(''type'', JStr ''tool_result''), (''tool_use_id'', JStr ''t1''),
        (''content'', JArr [JObj [(''type'', JStr ''image''), (''source'', JObj [(''type'', JStr ''url''), (''url'', JStr ''u'')])]])]]"

theorem user_message_split_witness:
  "convertUserMessage (\<lambda>n. ''moved'') (Some demo_content) =
     [BlocksM ToolRole [ToolResultB ''t1'' '''' False None], BlocksM UserRole [TextB ''moved'' None, ImageB ''u'' None], BlocksM UserRole [TextB ''see'' None]] \<and>
   length (convertUserMessage (\<lambda>n. ''moved'') (Some demo_content)) \<le> 3"
proof -
  have 1: "decodeBlocks (Some demo_content) \<noteq> []" by code_simp
  have 2: "convertUserMessage (\<lambda>n. ''moved'') (Some demo_content) =
     [BlocksM ToolRole [ToolResultB ''t1'' '''' False None], BlocksM UserRole [TextB ''moved'' None, ImageB ''u'' None], BlocksM UserRole [TextB ''see'' None]]"
    by code_simp
  from user_message_split [OF 1, of "\<lambda>n. ''moved''"] 2 show ?thesis by blast
qed

text \<open>One block with a field of the wrong type, here a cache control that is no object, makes the whole content unreadable; the request
  is accepted all the same and the text of the user is gone.\<close>

lemma ill_typed_content_lost:
  "case DecodeAnthropicMessagesRequest (Some (''{\"model\":\"m\",\"max_tokens\":9,\"messages\":[{\"role\":\"user\",\"content\":''
       @ ''[{\"type\":\"text\",\"text\":\"hi\"},{\"type\":\"text\",\"text\":\"you\",\"cache_control\":\"ephemeral\"}]}]}'')) 300 of
     Inl e \<Rightarrow> False
   | Inr r \<Rightarrow> sq_Messages (anthropic_ToRosetta (\<lambda>v. '''') (\<lambda>n. '''') r) = [UserM '''']"
  by code_simp

text \<open>An image from a source that is neither base64 nor a URL is left out without an error.\<close>

lemma image_source_lost:
  "convertUserMessage notice (Some (JArr
     [JObj [(''type'', JStr ''text''), (''text'', JStr ''what is this?'')],
      JObj [(''type'', JStr ''image''), (''source'', JObj [(''type'', JStr ''file''), (''file_id'', JStr ''f1'')])]])) =
   [BlocksM UserRole [TextB ''what is this?'' None]]"
  by code_simp

section \<open>Replies that come back\<close>

text \<open>The content of a reply as the client has it; the input of a call is the value of its text.\<close>

definition content_json :: "anthropic_content \<Rightarrow> json" where
  "content_json c =
     JObj (case c of
        TextPartC t \<Rightarrow> [(''type'', JStr ''text''), (''text'', JStr t)]
      | ThinkingPartC t sg \<Rightarrow> [(''type'', JStr ''thinking''), (''thinking'', JStr t)] @ (case sg of Some x \<Rightarrow> [(''signature'', JStr x)] | None \<Rightarrow> [])
      | RedactedPartC d \<Rightarrow> [(''type'', JStr ''redacted_thinking''), (''data'', JStr d)]
      | ToolUsePartC i n a \<Rightarrow> [(''type'', JStr ''tool_use''), (''id'', JStr i), (''name'', JStr n), (''input'', the (Unmarshal a))])"

lemma anthropic_field_names [simp]:
  "to_lower ''type'' = ''type''" "to_lower ''text'' = ''text''" "to_lower ''thinking'' = ''thinking''" "to_lower ''signature'' = ''signature''"
  "to_lower ''data'' = ''data''" "to_lower ''id'' = ''id''" "to_lower ''name'' = ''name''" "to_lower ''input'' = ''input''"
  by code_simp+

definition plain_block :: "string \<Rightarrow> anthropicBlock" where
  "plain_block ty = \<lparr>ab_Type = ty, ab_Text = '''', ab_Source = None, ab_ID = '''', ab_Name = '''', ab_Input = None, ab_ToolUseID = '''',
     ab_Content = None, ab_IsError = None, ab_Thinking = '''', ab_Signature = '''', ab_Data = '''', ab_CacheControl = None\<rparr>"

definition content_block_of :: "anthropic_content \<Rightarrow> anthropicBlock" where
  "content_block_of c =
     (case c of
        TextPartC t \<Rightarrow> (plain_block ''text'')\<lparr>ab_Text := t\<rparr>
      | ThinkingPartC t sg \<Rightarrow> (plain_block ''thinking'')\<lparr>ab_Thinking := t, ab_Signature := (case sg of Some x \<Rightarrow> x | None \<Rightarrow> '''')\<rparr>
      | RedactedPartC d \<Rightarrow> (plain_block ''redacted_thinking'')\<lparr>ab_Data := d\<rparr>
      | ToolUsePartC i n a \<Rightarrow> (plain_block ''tool_use'')\<lparr>ab_ID := i, ab_Name := n, ab_Input := Some (the (Unmarshal a))\<rparr>)"

lemma decode_content_json: "decode_struct decode_block (content_json c) = Some (content_block_of c)"
  by (cases c)
     (auto simp: decode_struct_def content_json_def content_block_of_def plain_block_def to_members_def decode_block_def field_def field_values_def
        to_string_def to_raw_def pointed_def split: option.split)

lemma content_blocks: "decodeBlocks (Some (JArr (map content_json cs))) = map content_block_of cs"
  using all_decoded_map [of cs "decode_struct decode_block" content_json content_block_of]
  by (simp add: decodeBlocks_def raw_list_def to_list_def decode_content_json)

text \<open>What a part of the reply is when it comes back.\<close>

definition returned_part :: "reply_part \<Rightarrow> in_block list" where
  "returned_part b =
     (case rp_Type b of
        BlockText \<Rightarrow> if rp_Text b \<noteq> '''' then [TextB (rp_Text b) None] else []
      | BlockThinking \<Rightarrow> [ThinkingB (rp_Thinking b) (rp_Signature b)]
      | BlockRedactedThinking \<Rightarrow> [RedactedB (rp_Thinking b)]
      | BlockToolCall \<Rightarrow> [ToolCallB (rp_ToolCallID b) (rp_ToolName b) (anthropicToolInput (rp_Arguments b)) None]
      | _ \<Rightarrow> [])"

definition same_text :: "(json \<Rightarrow> string) \<Rightarrow> reply_part \<Rightarrow> bool" where
  "same_text text_of b \<longleftrightarrow>
     (rp_Type b = BlockToolCall \<longrightarrow> text_of (the (Unmarshal (anthropicToolInput (rp_Arguments b)))) = anthropicToolInput (rp_Arguments b))"

lemma tool_input_not_blank: "trim_space (anthropicToolInput args) \<noteq> ''''"
proof -
  have "trim_space ''{}'' = ''{}''" by code_simp
  then show ?thesis by (auto simp: anthropicToolInput_def Let_def trim_space_idem split: option.splits json.splits)
qed

lemma part_returned: "same_text text_of b \<Longrightarrow> concat (map (assistantBlock text_of) (map content_block_of (anthropic_part b))) = returned_part b"
  by (cases "rp_Type b")
     (simp_all add: anthropic_part_def returned_part_def content_block_of_def plain_block_def assistantBlock_def same_text_def tool_input_not_blank)


definition demo_parts :: "reply_part list" where
  "demo_parts =
     [\<lparr>rp_Type = BlockText, rp_Text = ''hi'', rp_Thinking = '''', rp_Signature = '''', rp_ToolCallID = '''', rp_ToolName = '''', rp_Arguments = '''',
        rp_ReasoningID = '''', rp_Sealed = '''', rp_SealedBy = ''''\<rparr>,
      \<lparr>rp_Type = BlockToolCall, rp_Text = '''', rp_Thinking = '''', rp_Signature = '''', rp_ToolCallID = ''t'', rp_ToolName = ''ls'', rp_Arguments = '' '',
        rp_ReasoningID = '''', rp_Sealed = '''', rp_SealedBy = ''''\<rparr>]"


end
