(* ===== verification/InResponses.thy ===== *)
theory InResponses
  imports Inbound Responses
begin

text \<open>
  \<^verbatim>\<open>internal/inwire/openai_responses.go\<close>: requests in the format of OpenAI Responses. The parameters are \<open>text_of\<close>, the text a raw value was
  read from, \<open>encode\<close>, the encoding of a map by \<open>json.Marshal\<close>, \<open>said\<close>, the blocks of \<open>rosetta.Assistant\<close>, and the text of a notice.
\<close>

section \<open>The request\<close>

datatype responses_tool =
  ResponsesTool (rt_Type: string) (rt_Name: string) (rt_Description: string) (rt_Parameters: "json option") (rt_Tools: "responses_tool list")

record responsesItem =
  it_Type :: string
  it_Role :: string
  it_Content :: "json option"
  it_CallID :: ident
  it_Name :: string
  it_Arguments :: string
  it_Output :: "json option"
  it_ID :: ident
  it_Input :: string
  it_Action :: "json option"
  it_EncryptedContent :: string
  it_Summary :: "json option"

record responsesContentPart =
  pt_Type :: string
  pt_Text :: string
  pt_ImageURL :: string
  pt_FileURL :: string
  pt_FileData :: string
  pt_FileID :: ident
  pt_Filename :: string
  pt_AudioURL :: string
  pt_AudioData :: string
  pt_Format :: string

record ResponsesRequest =
  rr_Model :: string
  rr_Input :: "json option"
  rr_Instructions :: string
  rr_MaxOutputTokens :: "int option"
  rr_Temperature :: "string option"
  rr_TopP :: "string option"
  rr_Stream :: bool
  rr_Tools :: "responses_tool list"
  rr_ToolChoice :: "json option"
  rr_ParallelToolCalls :: "bool option"
  rr_Effort :: "string option"
  rr_Store :: "bool option"
  rr_PreviousResponseID :: string
  rr_PromptCacheKey :: string
  rr_Include :: "string list"
  rr_TextOptions :: "json option"
  rr_DowngradedTools :: "string \<Rightarrow> string"
  rr_RawEffort :: string

lemma field_cong [fundef_cong]:
  assumes "\<And>v. v \<in> set (field_values k kvs) \<Longrightarrow> store v = store' v" "init = init'" "k = k'" "kvs = kvs'"
  shows "field store init k kvs = field store' init' k' kvs'"
  using assms unfolding field_def by (auto intro: fold_cong)

lemma all_decoded_cong [fundef_cong]:
  assumes "xs = ys" "\<And>x. x \<in> set ys \<Longrightarrow> f x = g x"
  shows "all_decoded f xs = all_decoded g ys"
proof -
  have "(\<And>x. x \<in> set ys \<Longrightarrow> f x = g x) \<Longrightarrow> all_decoded f ys = all_decoded g ys" by (induction ys) auto
  with assms show ?thesis by simp
qed

definition elements :: "json \<Rightarrow> json list" where
  "elements v = (case v of JArr vs \<Rightarrow> vs | _ \<Rightarrow> [])"

lemma to_list_cong [fundef_cong]:
  assumes "v = w" "\<And>x. x \<in> set (elements w) \<Longrightarrow> f x = g x"
  shows "to_list f v = to_list g w"
  using assms by (auto simp: to_list_def [abs_def] elements_def intro: all_decoded_cong split: json.split)

lemma field_value_smaller: "v \<in> set (field_values k kvs) \<Longrightarrow> size v < size (JObj kvs)"
proof (induction kvs)
  case Nil
  then show ?case by (simp add: field_values_def)
next
  case (Cons p kvs)
  obtain k' w where p: "p = (k', w)" by (cases p)
  show ?case
  proof (cases "v = w \<and> to_lower k' = k")
    case True
    then show ?thesis by (simp add: p)
  next
    case False
    with Cons.prems have "v \<in> set (field_values k kvs)" by (auto simp: field_values_def p split: if_splits)
    with Cons.IH show ?thesis by simp
  qed
qed

lemma element_smaller: "x \<in> set (elements v) \<Longrightarrow> size x < size v"
  by (cases v) (simp_all add: elements_def size_list_estimation' less_Suc_eq_le)

text \<open>A tool may hold tools.\<close>

function decode_responses_tool :: "json \<Rightarrow> responses_tool option" where
  "decode_responses_tool (JObj kvs) =
     do { ty \<leftarrow> field to_string '''' ''type'' kvs;
          n \<leftarrow> field to_string '''' ''name'' kvs;
          d \<leftarrow> field to_string '''' ''description'' kvs;
          p \<leftarrow> field to_raw None ''parameters'' kvs;
          ts \<leftarrow> field (\<lambda>v. to_list decode_responses_tool v) [] ''tools'' kvs;
          Some (ResponsesTool ty n d p ts) }"
| "decode_responses_tool JNull = Some (ResponsesTool '''' '''' '''' None [])"
| "decode_responses_tool (JBool b) = None"
| "decode_responses_tool (JNum n) = None"
| "decode_responses_tool (JStr s) = None"
| "decode_responses_tool (JArr vs) = None"
  by pat_completeness auto
termination
proof (relation "measure size")
  fix kvs x and v :: json
  assume "v \<in> set (field_values ''tools'' kvs)" "x \<in> set (elements v)"
  then have "size x < size v" "size v < size (JObj kvs)" using element_smaller field_value_smaller by blast+
  then show "(x, JObj kvs) \<in> measure size" by simp
qed simp


definition decode_item :: "(string \<times> json) list \<Rightarrow> responsesItem option" where
  "decode_item kvs =
     do { ty \<leftarrow> field to_string '''' ''type'' kvs;
          r \<leftarrow> field to_string '''' ''role'' kvs;
          c \<leftarrow> field to_raw None ''content'' kvs;
          ci \<leftarrow> field to_string '''' ''call_id'' kvs;
          n \<leftarrow> field to_string '''' ''name'' kvs;
          a \<leftarrow> field to_string '''' ''arguments'' kvs;
          ou \<leftarrow> field to_raw None ''output'' kvs;
          i \<leftarrow> field to_string '''' ''id'' kvs;
          inp \<leftarrow> field to_string '''' ''input'' kvs;
          ac \<leftarrow> field to_raw None ''action'' kvs;
          ec \<leftarrow> field to_string '''' ''encrypted_content'' kvs;
          su \<leftarrow> field to_raw None ''summary'' kvs;
          Some \<lparr>it_Type = ty, it_Role = r, it_Content = c, it_CallID = ci, it_Name = n, it_Arguments = a, it_Output = ou, it_ID = i,
            it_Input = inp, it_Action = ac, it_EncryptedContent = ec, it_Summary = su\<rparr> }"

definition decode_responses_part :: "(string \<times> json) list \<Rightarrow> responsesContentPart option" where
  "decode_responses_part kvs =
     do { ty \<leftarrow> field to_string '''' ''type'' kvs;
          tx \<leftarrow> field to_string '''' ''text'' kvs;
          im \<leftarrow> field to_string '''' ''image_url'' kvs;
          fu \<leftarrow> field to_string '''' ''file_url'' kvs;
          fd \<leftarrow> field to_string '''' ''file_data'' kvs;
          fi \<leftarrow> field to_string '''' ''file_id'' kvs;
          fn \<leftarrow> field to_string '''' ''filename'' kvs;
          au \<leftarrow> field to_string '''' ''audio_url'' kvs;
          ad \<leftarrow> field to_string '''' ''audio_data'' kvs;
          fo \<leftarrow> field to_string '''' ''format'' kvs;
          Some \<lparr>pt_Type = ty, pt_Text = tx, pt_ImageURL = im, pt_FileURL = fu, pt_FileData = fd, pt_FileID = fi, pt_Filename = fn,
            pt_AudioURL = au, pt_AudioData = ad, pt_Format = fo\<rparr> }"

definition decode_responses :: "(string \<times> json) list \<Rightarrow> ResponsesRequest option" where
  "decode_responses kvs =
     do { model \<leftarrow> field to_string '''' ''model'' kvs;
          inp \<leftarrow> field to_raw None ''input'' kvs;
          ins \<leftarrow> field to_string '''' ''instructions'' kvs;
          mt \<leftarrow> field (to_pointer to_int 0) None ''max_output_tokens'' kvs;
          temp \<leftarrow> field (to_pointer to_number '''') None ''temperature'' kvs;
          topp \<leftarrow> field (to_pointer to_number '''') None ''top_p'' kvs;
          stream \<leftarrow> field to_bool False ''stream'' kvs;
          tools \<leftarrow> field (to_list decode_responses_tool) [] ''tools'' kvs;
          choice \<leftarrow> field to_raw None ''tool_choice'' kvs;
          ptc \<leftarrow> field (to_pointer to_bool False) None ''parallel_tool_calls'' kvs;
          re \<leftarrow> field (to_pointer to_members []) None ''reasoning'' kvs;
          eff \<leftarrow> (case re of None \<Rightarrow> Some None | Some m \<Rightarrow> map_option Some (field to_string '''' ''effort'' m));
          store \<leftarrow> field (to_pointer to_bool False) None ''store'' kvs;
          prev \<leftarrow> field to_string '''' ''previous_response_id'' kvs;
          pck \<leftarrow> field to_string '''' ''prompt_cache_key'' kvs;
          incl \<leftarrow> field (to_list string_element) [] ''include'' kvs;
          tx \<leftarrow> field to_raw None ''text'' kvs;
          Some \<lparr>rr_Model = model, rr_Input = inp, rr_Instructions = ins, rr_MaxOutputTokens = mt, rr_Temperature = temp, rr_TopP = topp,
            rr_Stream = stream, rr_Tools = tools, rr_ToolChoice = choice, rr_ParallelToolCalls = ptc, rr_Effort = eff, rr_Store = store,
            rr_PreviousResponseID = prev, rr_PromptCacheKey = pck, rr_Include = incl, rr_TextOptions = tx, rr_DowngradedTools = (\<lambda>_. ''''),
            rr_RawEffort = ''''\<rparr> }"

section \<open>What is checked\<close>

definition responsesSupportedItemTypes :: "string list" where
  "responsesSupportedItemTypes = ['''', ''message'', ''function_call'', ''function_call_output'', ''reasoning'', ''local_shell_call'',
     ''local_shell_call_output'', ''custom_tool_call'', ''custom_tool_call_output'']"

fun first_unsupported :: "nat \<Rightarrow> responsesItem list \<Rightarrow> body_error option" where
  "first_unsupported i [] = None"
| "first_unsupported i (x # xs) =
     (if it_Type x \<notin> set responsesSupportedItemTypes then Some (RejectedItem i (it_Type x)) else first_unsupported (i + 1) xs)"

definition decode_items :: "json option \<Rightarrow> responsesItem list option" where
  "decode_items inp = raw_list (decode_struct decode_item) inp"

definition validateResponsesInputItems :: "json option \<Rightarrow> body_error option" where
  "validateResponsesInputItems inp = (case decode_items inp of None \<Rightarrow> None | Some items \<Rightarrow> first_unsupported 0 items)"

text \<open>A namespace may hold the other kinds of tools but no namespace.\<close>

definition plain_tool_ok :: "responses_tool \<Rightarrow> bool" where
  "plain_tool_ok t \<longleftrightarrow> (if rt_Type t = ''function'' \<or> rt_Type t = ''custom'' then rt_Name t \<noteq> '''' else rt_Type t = ''local_shell'')"

definition validateResponsesTool :: "responses_tool \<Rightarrow> bool" where
  "validateResponsesTool t \<longleftrightarrow>
     (if rt_Type t = ''namespace'' then rt_Name t \<noteq> '''' \<and> rt_Tools t \<noteq> [] \<and> list_all plain_tool_ok (rt_Tools t) else plain_tool_ok t)"

definition localShellToolName :: string where "localShellToolName = ''local_shell''"

definition named_choice :: "(string \<times> json) list \<Rightarrow> (string \<times> string) option" where
  "named_choice kvs = do { t \<leftarrow> field to_string '''' ''type'' kvs; n \<leftarrow> field to_string '''' ''name'' kvs; Some (t, n) }"

definition choice_object :: "json option \<Rightarrow> (string \<times> string) option" where
  "choice_object raw = Option.bind (raw_members raw) named_choice"

definition choice_ok :: "json option \<Rightarrow> bool" where
  "choice_ok raw \<longleftrightarrow> raw = None \<or> raw_string raw \<noteq> None \<or>
     (case choice_object raw of None \<Rightarrow> False | Some (t, n) \<Rightarrow> \<not> ((t = ''function'' \<or> t = ''namespace'') \<and> n = ''''))"

section \<open>Tools\<close>

definition responsesToolDefinition :: "string \<Rightarrow> string \<Rightarrow> json option \<Rightarrow> tool_definition" where
  "responsesToolDefinition name description params =
     \<lparr>td_Name = name, td_Description = description, td_Parameters = Some (case params of None \<Rightarrow> JObj [] | Some p \<Rightarrow> p), td_CacheControl = None\<rparr>"

definition customToolParameters :: json where
  "customToolParameters = JObj [(''type'', JStr ''object''), (''properties'', JObj [(''input'', JObj [(''type'', JStr ''string''),
     (''description'', JStr ''The raw freeform input for this tool.'')])]), (''required'', JArr [JStr ''input''])]"

definition localShellToolParameters :: json where
  "localShellToolParameters = JObj [(''type'', JStr ''object''), (''properties'', JObj
     [(''command'', JObj [(''type'', JStr ''array''), (''items'', JObj [(''type'', JStr ''string'')]), (''description'', JStr ''The command and its arguments.'')]),
      (''timeout_ms'', JObj [(''type'', JStr ''number''), (''description'', JStr ''Optional timeout in milliseconds.'')])]),
     (''required'', JArr [JStr ''command''])]"

definition responsesPlainTool :: "responses_tool \<Rightarrow> tool_definition \<times> string" where
  "responsesPlainTool t =
     (if rt_Type t = ''custom'' then
        (let desc = (if rt_Description t = '''' then ''Send a freeform text input.'' else rt_Description t)
               @ '' Provide the raw text as the value of the \"input\" argument.''
         in (responsesToolDefinition (rt_Name t) desc (Some customToolParameters), rt_Name t))
      else if rt_Type t = ''local_shell'' then
        (responsesToolDefinition localShellToolName
           (''Run a shell command on the client and return its output. '' @
            ''Provide the full command line as a single-element \"command\" array.'') (Some localShellToolParameters), localShellToolName)
      else (responsesToolDefinition (rt_Name t) (rt_Description t) (rt_Parameters t), rt_Name t))"

definition inner_name :: "responses_tool \<Rightarrow> responses_tool \<Rightarrow> string" where
  "inner_name t inner = rt_Name t @ ''__'' @ rt_Name inner"

text \<open>The code keeps the set of the names seen, and both its branches append the tool.\<close>

definition flattenNamespaceTools :: "responses_tool list \<Rightarrow> tool_definition list" where
  "flattenNamespaceTools ts = concat (map (\<lambda>t.
     if rt_Type t \<noteq> ''namespace'' then [fst (responsesPlainTool t)]
     else map (\<lambda>inner. responsesToolDefinition (inner_name t inner) (rt_Description inner) (rt_Parameters inner)) (rt_Tools t)) ts)"

definition responsesDowngradedTools :: "responses_tool list \<Rightarrow> string \<Rightarrow> string" where
  "responsesDowngradedTools ts =
     fold (\<lambda>t out. if rt_Type t = ''custom'' \<or> rt_Type t = ''local_shell'' then out(snd (responsesPlainTool t) := rt_Type t) else out) ts (\<lambda>_. '''')"

definition DecodeResponsesRequest :: "string option \<Rightarrow> int \<Rightarrow> body_error + ResponsesRequest" where
  "DecodeResponsesRequest body maxBytes =
     (case read_body body maxBytes of
        Inl e \<Rightarrow> Inl e
      | Inr text \<Rightarrow>
          (case decodeTopLevelObject text of
             Inl e \<Rightarrow> Inl e
           | Inr kvs \<Rightarrow>
               (case decode_responses kvs of
                  None \<Rightarrow> Inl DecodeBody
                | Some req \<Rightarrow>
                    if rr_Model req = '''' then Inl (Rejected ''model is required'')
                    else if rr_Input req = None then Inl (Rejected ''input is required'')
                    else if (case rr_MaxOutputTokens req of Some n \<Rightarrow> n \<le> 0 | None \<Rightarrow> False) then Inl (Rejected ''max_output_tokens'')
                    else
                      (case validateResponsesInputItems (rr_Input req) of
                         Some e \<Rightarrow> Inl e
                       | None \<Rightarrow>
                           if \<not> list_all validateResponsesTool (rr_Tools req) then Inl (Rejected ''tools'')
                           else if \<not> choice_ok (rr_ToolChoice req) then Inl (Rejected ''tool_choice'')
                           else Inr (req\<lparr>rr_RawEffort := (case rr_Effort req of Some e \<Rightarrow> trim_space e | None \<Rightarrow> ''''),
                                         rr_DowngradedTools := responsesDowngradedTools (rr_Tools req)\<rparr>)))))"

section \<open>The choice of a tool\<close>

definition chosen :: "string \<Rightarrow> json" where
  "chosen name = JObj [(''name'', JStr name), (''type'', JStr ''function'')]"

text \<open>The one name among the candidates: two different ones are no choice.\<close>

definition only_name :: "string list \<Rightarrow> string option" where
  "only_name ns = (case remdups ns of [n] \<Rightarrow> Some n | _ \<Rightarrow> None)"

definition rewriteNamespaceToolChoice :: "string \<Rightarrow> tool_definition list \<Rightarrow> json option" where
  "rewriteNamespaceToolChoice nsName flat =
     map_option chosen (only_name (filter (\<lambda>n. has_prefix n (nsName @ ''__'')) (map td_Name flat)))"

definition rewriteToolChoice :: "ResponsesRequest \<Rightarrow> tool_definition list \<Rightarrow> json option" where
  "rewriteToolChoice a flat =
     (case choice_object (rr_ToolChoice a) of
        None \<Rightarrow> None
      | Some (ty, name) \<Rightarrow>
          if name = '''' then None
          else if ty = ''namespace'' then rewriteNamespaceToolChoice name flat
          else if ty \<noteq> ''function'' then None
          else if name \<in> set (map td_Name flat) then None
          else map_option chosen (only_name
            (filter (\<lambda>cand. cand \<in> set (map td_Name flat))
               (map (\<lambda>ns. rt_Name ns @ ''__'' @ name) (filter (\<lambda>ns. rt_Type ns = ''namespace'') (rr_Tools a))))))"

definition effectiveToolChoice :: "ResponsesRequest \<Rightarrow> json option" where
  "effectiveToolChoice a =
     (case (if rr_Tools a = [] then None else rewriteToolChoice a (flattenNamespaceTools (rr_Tools a))) of
        Some c \<Rightarrow> Some c
      | None \<Rightarrow> rr_ToolChoice a)"

definition choice_mode :: "string \<Rightarrow> tool_choice option" where
  "choice_mode t =
     (if t = ''auto'' then Some ChooseAuto else if t = ''none'' then Some ChooseNone else if t = ''required'' then Some ChooseRequired else None)"

definition responsesToolChoiceToRosetta :: "json option \<Rightarrow> tool_choice option" where
  "responsesToolChoiceToRosetta raw =
     (case raw_string raw of
        Some s \<Rightarrow> choice_mode s
      | None \<Rightarrow>
          (case choice_object raw of
             None \<Rightarrow> None
           | Some (ty, name) \<Rightarrow>
               if ty = ''function'' then (if name = '''' then None else Some (ChooseTool name)) else choice_mode ty))"

definition responsesToolChoiceOpenAI :: "json option \<Rightarrow> json option" where
  "responsesToolChoiceOpenAI raw =
     (case raw_string raw of
        Some s \<Rightarrow> if s \<in> {''auto'', ''none'', ''required''} then Some (JStr s) else None
      | None \<Rightarrow>
          (case choice_object raw of
             None \<Rightarrow> None
           | Some (ty, name) \<Rightarrow>
               if ty \<in> {''auto'', ''none'', ''required''} then Some (JStr ty)
               else if ty = ''function'' then Some (JObj [(''type'', JStr ''function''), (''function'', JObj [(''name'', JStr name)])]) else None))"

definition responsesToolChoiceAnthropic :: "json option \<Rightarrow> json option" where
  "responsesToolChoiceAnthropic raw =
     (let mode = (\<lambda>t. if t = ''auto'' then Some (JObj [(''type'', JStr ''auto'')])
                      else if t = ''required'' then Some (JObj [(''type'', JStr ''any'')]) else None) in
      case raw_string raw of
        Some s \<Rightarrow> mode s
      | None \<Rightarrow>
          (case choice_object raw of
             None \<Rightarrow> None
           | Some (ty, name) \<Rightarrow>
               if ty = ''function'' then (if name = '''' then None else Some (JObj [(''type'', JStr ''tool''), (''name'', JStr name)]))
               else mode ty))"

section \<open>The format of the text\<close>

definition format_fields :: "(string \<times> json) list \<Rightarrow> response_format option" where
  "format_fields kvs =
     do { t \<leftarrow> field to_string '''' ''type'' kvs; n \<leftarrow> field to_string '''' ''name'' kvs; s \<leftarrow> field to_raw None ''schema'' kvs;
          b \<leftarrow> field (to_pointer to_bool False) None ''strict'' kvs;
          Some \<lparr>rf_Type = t, rf_Name = n, rf_Schema = s, rf_Strict = b\<rparr> }"

definition responsesTextFormatToRosetta :: "json option \<Rightarrow> response_format option" where
  "responsesTextFormatToRosetta raw =
     (case Option.bind (raw_members raw) (field to_raw None ''format'') of
        Some (Some f) \<Rightarrow>
          (case Option.bind (raw_members (Some f)) format_fields of
             Some rf \<Rightarrow> if rf_Type rf = '''' then None else Some rf
           | None \<Rightarrow> None)
      | _ \<Rightarrow> None)"

definition textFormatMap :: "ResponsesRequest \<Rightarrow> (string \<times> json) list option" where
  "textFormatMap a =
     (case Option.bind (raw_members (rr_TextOptions a)) (field (to_pointer to_members []) None ''format'') of
        Some (Some m) \<Rightarrow> Some m
      | _ \<Rightarrow> None)"

definition textPassthroughKeys :: "ResponsesRequest \<Rightarrow> (string \<times> json) list" where
  "textPassthroughKeys a =
     (case raw_members (rr_TextOptions a) of None \<Rightarrow> [] | Some m \<Rightarrow> filter (\<lambda>(k, v). k \<noteq> ''format'') m)"

definition responses_RequiresStructuredOutput :: "ResponsesRequest \<Rightarrow> bool" where
  "responses_RequiresStructuredOutput a =
     (case textFormatMap a of
        None \<Rightarrow> False
      | Some f \<Rightarrow> json_member ''type'' f \<in> {Some (JStr ''json_object''), Some (JStr ''json_schema'')})"

text \<open>The members with the given keys, as the code copies them.\<close>

definition copy_keys :: "string list \<Rightarrow> (string \<times> json) list \<Rightarrow> (string \<times> json) list" where
  "copy_keys ks f = concat (map (\<lambda>k. case json_member k f of Some v \<Rightarrow> [(k, v)] | None \<Rightarrow> []) ks)"

definition schema_keys :: "string list" where
  "schema_keys = [''name'', ''schema'', ''strict'', ''description'']"

definition format_type :: "(string \<times> json) list \<Rightarrow> string" where
  "format_type f = (case json_member ''type'' f of Some (JStr t) \<Rightarrow> t | _ \<Rightarrow> '''')"

definition textFormatToResponseFormat :: "(string \<times> json) list \<Rightarrow> (string \<times> json) list option" where
  "textFormatToResponseFormat f =
     (let t = format_type f in
      if t = '''' \<or> t = ''text'' then None
      else if t = ''json_schema'' then
        Some [(''type'', JStr ''json_schema''), (''json_schema'', JObj ((''type'', JStr ''json_schema'') # copy_keys schema_keys f))]
      else Some [(''type'', JStr t)])"

definition responseFormatToTextFormat :: "json option \<Rightarrow> (string \<times> json) list option" where
  "responseFormatToTextFormat raw =
     (case raw_members raw of
        None \<Rightarrow> None
      | Some f \<Rightarrow>
          (let t = format_type f in
           if t = '''' \<or> t = ''text'' then None
           else if t = ''json_schema'' then
             Some ((''type'', JStr ''json_schema'') #
               (case json_member ''json_schema'' f of Some (JObj inner) \<Rightarrow> copy_keys schema_keys inner | _ \<Rightarrow> []))
           else Some [(''type'', JStr t)]))"


section \<open>Contents\<close>

definition firstNonEmpty :: "string list \<Rightarrow> string" where
  "firstNonEmpty vals = (case filter (\<lambda>v. v \<noteq> '''') vals of v # _ \<Rightarrow> v | [] \<Rightarrow> '''')"

definition responsesFileBlock :: "responsesContentPart \<Rightarrow> in_block option" where
  "responsesFileBlock p =
     (if pt_FileID p \<noteq> '''' then Some (FileB (pt_Filename p) '''' '''' (pt_FileID p) None)
      else
       (let d = firstNonEmpty [pt_FileData p, pt_FileURL p] in
        if d = '''' then None else Some (FileB (pt_Filename p) '''' (stripDataURLPrefix d) '''' None)))"

definition responsesAudioBlock :: "responsesContentPart \<Rightarrow> in_block option" where
  "responsesAudioBlock p =
     (let d = firstNonEmpty [pt_AudioData p, pt_AudioURL p] in
      if d = '''' then None else Some (AudioB (stripDataURLPrefix d) (pt_Format p)))"

definition decodeResponsesParts :: "json option \<Rightarrow> responsesContentPart list" where
  "decodeResponsesParts raw = (case raw_list (decode_struct decode_responses_part) raw of Some ps \<Rightarrow> ps | None \<Rightarrow> [])"

definition responses_media :: "responsesContentPart \<Rightarrow> in_block list" where
  "responses_media p =
     (if pt_Type p = ''input_image'' then (if pt_ImageURL p \<noteq> '''' then [ImageB (pt_ImageURL p) None] else [])
      else if pt_Type p = ''input_file'' then (case responsesFileBlock p of Some b \<Rightarrow> [b] | None \<Rightarrow> [])
      else if pt_Type p = ''input_audio'' then (case responsesAudioBlock p of Some b \<Rightarrow> [b] | None \<Rightarrow> [])
      else [])"

text \<open>The texts of the parts of one type, put together.\<close>

definition part_texts :: "string \<Rightarrow> json option \<Rightarrow> string" where
  "part_texts ty raw = concat (map pt_Text (filter (\<lambda>p. pt_Type p = ty) (decodeResponsesParts raw)))"

definition responsesContentText :: "json option \<Rightarrow> bool \<Rightarrow> string" where
  "responsesContentText raw includeOutputText =
     (case raw_string raw of Some s \<Rightarrow> s | None \<Rightarrow> part_texts (if includeOutputText then ''output_text'' else ''input_text'') raw)"

definition userMessageFromContent :: "json option \<Rightarrow> in_message list" where
  "userMessageFromContent content =
     (case raw_string content of
        Some s \<Rightarrow> if s = '''' then [] else [UserM s]
      | None \<Rightarrow>
          (let blocks = concat (map (\<lambda>p. if pt_Type p = ''input_text'' then [TextB (pt_Text p) None] else responses_media p)
                 (decodeResponsesParts content))
           in if blocks = [] then [] else [BlocksM UserRole blocks]))"

definition convertResponsesMessage :: "responsesItem \<Rightarrow> in_message list" where
  "convertResponsesMessage x =
     (if it_Role x = ''system'' \<or> it_Role x = ''developer'' then [SystemM (responsesContentText (it_Content x) False)]
      else if it_Role x = ''assistant'' then [AssistantM (responsesContentText (it_Content x) True)]
      else userMessageFromContent (it_Content x))"

definition responsesItemToolOutput :: "(json \<Rightarrow> string) \<Rightarrow> responsesItem \<Rightarrow> string \<times> in_block list" where
  "responsesItemToolOutput text_of x =
     (case raw_string (it_Output x) of
        Some s \<Rightarrow> (s, [])
      | None \<Rightarrow>
          (case it_Output x of
             Some (JObj kvs) \<Rightarrow> (text_of (JObj kvs), [])
           | _ \<Rightarrow> (part_texts ''output_text'' (it_Output x), concat (map responses_media (decodeResponsesParts (it_Output x))))))"

definition responsesItemReasoningText :: "responsesItem \<Rightarrow> string" where
  "responsesItemReasoningText x = (case raw_string (it_Summary x) of Some s \<Rightarrow> s | None \<Rightarrow> part_texts ''summary_text'' (it_Summary x))"

text \<open>The members of a map without \<open>type\<close>; a later member replaces an earlier one of its name.\<close>

definition responsesLocalShellArgs :: "((string \<times> json) list \<Rightarrow> string) \<Rightarrow> json option \<Rightarrow> string" where
  "responsesLocalShellArgs encode action =
     (case raw_members action of
        None \<Rightarrow> ''{}''
      | Some m \<Rightarrow> (let m = filter (\<lambda>(k, v). k \<noteq> ''type'') m in if m = [] then ''{}'' else encode m))"

definition responsesCustomToolArgs :: "((string \<times> json) list \<Rightarrow> string) \<Rightarrow> string \<Rightarrow> string" where
  "responsesCustomToolArgs encode inp = (if inp = '''' then ''{}'' else encode [(''input'', JStr inp)])"

section \<open>The request of the SDK\<close>

text \<open>The messages so far and the blocks of the turn of the assistant that is being put together.\<close>

type_synonym turn = "in_message list \<times> in_block list"

definition flush_turn :: "turn \<Rightarrow> in_message list" where
  "flush_turn s = (case s of (msgs, pending) \<Rightarrow> if pending = [] then msgs else msgs @ [BlocksM AssistantRole pending])"

definition tool_output :: "(json \<Rightarrow> string) \<Rightarrow> (nat \<Rightarrow> string) \<Rightarrow> responsesItem \<Rightarrow> in_message list" where
  "tool_output text_of responsesToolMediaNotice x =
     (case responsesItemToolOutput text_of x of (t, media) \<Rightarrow>
        (if t \<noteq> '''' \<or> media = [] then [ToolResultM (it_CallID x) '''' t] else []) @
        (if media \<noteq> [] then [BlocksM UserRole (TextB (responsesToolMediaNotice (length media)) None # media)] else []))"

definition add_item ::
  "(json \<Rightarrow> string) \<Rightarrow> ((string \<times> json) list \<Rightarrow> string) \<Rightarrow> (string \<Rightarrow> in_block list) \<Rightarrow> (nat \<Rightarrow> string) \<Rightarrow> string \<Rightarrow> responsesItem \<Rightarrow> turn \<Rightarrow> turn" where
  "add_item text_of encode said notice protoResponses x s =
     (case s of (msgs, pending) \<Rightarrow>
       (let ty = it_Type x in
        if ty = '''' \<or> ty = ''message'' then
          (case convertResponsesMessage x of
             [AssistantM t] \<Rightarrow> (msgs, pending @ said t)
           | ms \<Rightarrow> (flush_turn s @ ms, []))
        else if ty = ''function_call'' then
          (let args = (if trim_space (it_Arguments x) = '''' then ''{}'' else it_Arguments x)
           in (msgs, pending @ [ToolCallB (it_CallID x) (it_Name x) args None]))
        else if ty = ''local_shell_call'' then
          (msgs, pending @ [ToolCallB (it_CallID x) localShellToolName (responsesLocalShellArgs encode (it_Action x)) None])
        else if ty = ''custom_tool_call'' then
          (msgs, pending @ [ToolCallB (it_CallID x) (it_Name x) (responsesCustomToolArgs encode (it_Input x)) None])
        else if ty \<in> {''local_shell_call_output'', ''custom_tool_call_output'', ''function_call_output''} then
          (flush_turn s @ tool_output text_of notice x, [])
        else if ty = ''reasoning'' then
          (let summary = responsesItemReasoningText x in
           if it_EncryptedContent x = '''' \<and> summary = '''' then s
           else (msgs, pending @ [SealedB summary (it_EncryptedContent x) protoResponses (it_ID x)]))
        else (flush_turn s @ [BlocksM UserRole [UnknownB (''responses_item:'' @ ty)]], [])))"

definition responses_messages ::
  "(json \<Rightarrow> string) \<Rightarrow> ((string \<times> json) list \<Rightarrow> string) \<Rightarrow> (string \<Rightarrow> in_block list) \<Rightarrow> (nat \<Rightarrow> string) \<Rightarrow> string \<Rightarrow> json option \<Rightarrow> in_message list" where
  "responses_messages text_of encode said notice protoResponses inp =
     (case raw_string inp of
        Some s \<Rightarrow> [UserM s]
      | None \<Rightarrow>
          (case decode_items inp of
             None \<Rightarrow> []
           | Some items \<Rightarrow> flush_turn (fold (add_item text_of encode said notice protoResponses) items ([], []))))"

definition responses_ToRosetta ::
  "(json \<Rightarrow> string) \<Rightarrow> ((string \<times> json) list \<Rightarrow> string) \<Rightarrow> (string \<Rightarrow> in_block list) \<Rightarrow> (nat \<Rightarrow> string) \<Rightarrow> string \<Rightarrow> ResponsesRequest \<Rightarrow> sdk_request" where
  "responses_ToRosetta text_of encode said notice protoResponses a =
     (let thinking = (case rr_Effort a of Some e \<Rightarrow> if e \<noteq> '''' then thinking_of e else None | None \<Rightarrow> None) in
      empty_request
        \<lparr>sq_Model := rr_Model a, sq_Temperature := rr_Temperature a, sq_TopP := rr_TopP a, sq_System := rr_Instructions a,
         sq_ParallelToolCalls := rr_ParallelToolCalls a, sq_PromptCacheKey := rr_PromptCacheKey a, sq_Store := rr_Store a,
         sq_PreviousResponseID := rr_PreviousResponseID a,
         sq_MaxOutputTokens := (case rr_MaxOutputTokens a of Some n \<Rightarrow> n | None \<Rightarrow> 0),
         sq_Tools := flattenNamespaceTools (rr_Tools a),
         sq_ToolChoice := responsesToolChoiceToRosetta (effectiveToolChoice a),
         sq_ResponseFormat := responsesTextFormatToRosetta (rr_TextOptions a),
         sq_Thinking := thinking,
         sq_Include := (if thinking \<noteq> None then rr_Include a else []),
         sq_Verbosity := (case json_member ''verbosity'' (textPassthroughKeys a) of Some (JStr v) \<Rightarrow> v | _ \<Rightarrow> ''''),
         sq_Messages := responses_messages text_of encode said notice protoResponses (rr_Input a)\<rparr>)"


section \<open>Replies that come back\<close>

text \<open>The items of a reply as the client has them.\<close>

definition item_json :: "output_item \<Rightarrow> json" where
  "item_json x =
     JObj (case x of
        MessageItem i t \<Rightarrow> [(''type'', JStr ''message''), (''id'', JStr i), (''role'', JStr ''assistant''),
          (''content'', JArr [JObj [(''type'', JStr ''output_text''), (''text'', JStr (case t of Some u \<Rightarrow> u | None \<Rightarrow> ''''))]])]
      | ReasoningItem i t \<Rightarrow> [(''type'', JStr ''reasoning''), (''id'', JStr i),
          (''summary'', JArr (case t of Some (u, _) \<Rightarrow> if u = '''' then [] else [JObj [(''type'', JStr ''summary_text''), (''text'', JStr u)]] | None \<Rightarrow> []))] @
          (case t of Some (_, Some e) \<Rightarrow> [(''encrypted_content'', JStr e)] | _ \<Rightarrow> [])
      | FunctionCallItem i c n a \<Rightarrow> [(''type'', JStr ''function_call''), (''id'', JStr i), (''call_id'', JStr c), (''name'', JStr n), (''arguments'', JStr a)]
      | CustomCallItem i c n a \<Rightarrow> [(''type'', JStr ''custom_tool_call''), (''id'', JStr i), (''call_id'', JStr c), (''name'', JStr n), (''input'', JStr a)]
      | ShellCallItem i c n a \<Rightarrow> [(''type'', JStr ''local_shell_call''), (''id'', JStr i), (''call_id'', JStr c), (''name'', JStr n), (''action'', a)])"

definition plain_item :: "string \<Rightarrow> ident \<Rightarrow> responsesItem" where
  "plain_item ty i = \<lparr>it_Type = ty, it_Role = '''', it_Content = None, it_CallID = '''', it_Name = '''', it_Arguments = '''', it_Output = None,
     it_ID = i, it_Input = '''', it_Action = None, it_EncryptedContent = '''', it_Summary = None\<rparr>"

definition text_part :: "string \<Rightarrow> string \<Rightarrow> json" where
  "text_part ty t = JObj [(''type'', JStr ty), (''text'', JStr t)]"

definition item_of :: "output_item \<Rightarrow> responsesItem" where
  "item_of x =
     (case x of
        MessageItem i t \<Rightarrow> (plain_item ''message'' i)\<lparr>it_Role := ''assistant'', it_Content := Some (JArr [text_part ''output_text'' (case t of Some u \<Rightarrow> u | None \<Rightarrow> '''')])\<rparr>
      | ReasoningItem i t \<Rightarrow> (plain_item ''reasoning'' i)
          \<lparr>it_Summary := Some (JArr (case t of Some (u, _) \<Rightarrow> if u = '''' then [] else [text_part ''summary_text'' u] | None \<Rightarrow> [])),
           it_EncryptedContent := (case t of Some (_, Some e) \<Rightarrow> e | _ \<Rightarrow> '''')\<rparr>
      | FunctionCallItem i c n a \<Rightarrow> (plain_item ''function_call'' i)\<lparr>it_CallID := c, it_Name := n, it_Arguments := a\<rparr>
      | CustomCallItem i c n a \<Rightarrow> (plain_item ''custom_tool_call'' i)\<lparr>it_CallID := c, it_Name := n, it_Input := a\<rparr>
      | ShellCallItem i c n a \<Rightarrow> (plain_item ''local_shell_call'' i)\<lparr>it_CallID := c, it_Name := n, it_Action := Some a\<rparr>)"

lemma responses_field_names [simp]:
  "to_lower ''type'' = ''type''" "to_lower ''role'' = ''role''" "to_lower ''content'' = ''content''" "to_lower ''call_id'' = ''call_id''"
  "to_lower ''name'' = ''name''" "to_lower ''arguments'' = ''arguments''" "to_lower ''id'' = ''id''" "to_lower ''input'' = ''input''"
  "to_lower ''action'' = ''action''" "to_lower ''encrypted_content'' = ''encrypted_content''" "to_lower ''summary'' = ''summary''"
  "to_lower ''text'' = ''text''"
  by code_simp+

lemma decode_item_json: "decode_struct decode_item (item_json x) = Some (item_of x)"
  by (cases x)
     (simp_all add: decode_struct_def item_json_def item_of_def plain_item_def text_part_def to_members_def decode_item_def field_def field_values_def
        to_string_def to_raw_def split: option.split prod.split)

lemma decode_text_part:
  "decode_struct decode_responses_part (text_part ty t) =
     Some \<lparr>pt_Type = ty, pt_Text = t, pt_ImageURL = '''', pt_FileURL = '''', pt_FileData = '''', pt_FileID = '''', pt_Filename = '''',
       pt_AudioURL = '''', pt_AudioData = '''', pt_Format = ''''\<rparr>"
  by (simp add: decode_struct_def text_part_def to_members_def decode_responses_part_def field_def field_values_def to_string_def)

lemma one_part_text: "part_texts ty (Some (JArr [text_part ty t])) = t" "part_texts ty (Some (JArr [])) = ''''"
  by (simp_all add: part_texts_def decodeResponsesParts_def raw_list_def to_list_def decode_text_part)

lemma array_no_string [simp]: "raw_string (Some (JArr vs)) = None"
  by (simp add: raw_string_def to_string_def)

text \<open>The blocks an item becomes.\<close>

definition returned_item ::
  "((string \<times> json) list \<Rightarrow> string) \<Rightarrow> (string \<Rightarrow> in_block list) \<Rightarrow> string \<Rightarrow> output_item \<Rightarrow> in_block list" where
  "returned_item encode said proto x =
     (case x of
        MessageItem i t \<Rightarrow> said (case t of Some u \<Rightarrow> u | None \<Rightarrow> '''')
      | ReasoningItem i t \<Rightarrow>
          (let u = (case t of Some (u, _) \<Rightarrow> u | None \<Rightarrow> ''''); e = (case t of Some (_, Some e) \<Rightarrow> e | _ \<Rightarrow> '''')
           in if e = '''' \<and> u = '''' then [] else [SealedB u e proto i])
      | FunctionCallItem i c n a \<Rightarrow> [ToolCallB c n (if trim_space a = '''' then ''{}'' else a) None]
      | CustomCallItem i c n a \<Rightarrow> [ToolCallB c n (responsesCustomToolArgs encode a) None]
      | ShellCallItem i c n a \<Rightarrow> [ToolCallB c localShellToolName (responsesLocalShellArgs encode (Some a)) None])"

lemma add_returned:
  "add_item text_of encode said notice proto (item_of x) (msgs, pending) = (msgs, pending @ returned_item encode said proto x)"
  by (cases x)
     (simp_all add: add_item_def item_of_def plain_item_def returned_item_def convertResponsesMessage_def responsesContentText_def
        responsesItemReasoningText_def one_part_text Let_def split: option.split prod.split)

lemma add_all_returned:
  "fold (add_item text_of encode said notice proto) (map item_of xs) (msgs, pending) = (msgs, pending @ concat (map (returned_item encode said proto) xs))"
  by (induction xs arbitrary: pending) (simp_all add: add_returned)

lemma items_returned:
  "responses_messages text_of encode said notice proto (Some (JArr (map item_json xs))) =
     (let bs = concat (map (returned_item encode said proto) xs) in if bs = [] then [] else [BlocksM AssistantRole bs])"
  using all_decoded_map [of xs "decode_struct decode_item" item_json item_of]
  by (simp add: responses_messages_def decode_items_def raw_list_def to_list_def decode_item_json add_all_returned flush_turn_def Let_def)

text \<open>What a part of the reply is when it comes back; \<open>d\<close> tells which tools were downgraded.\<close>

definition returned_response_part ::
  "((string \<times> json) list \<Rightarrow> string) \<Rightarrow> (string \<Rightarrow> in_block list) \<Rightarrow> string \<Rightarrow> (string \<Rightarrow> string) \<Rightarrow> reply_part \<Rightarrow> in_block list" where
  "returned_response_part encode said proto d b =
     (case rp_Type b of
        BlockText \<Rightarrow> said (rp_Text b)
      | BlockThinking \<Rightarrow>
          if (rp_SealedBy b \<noteq> '''' \<and> rp_SealedBy b \<noteq> proto) \<or> (rp_Sealed b = '''' \<and> rp_Thinking b = '''') then []
          else [SealedB (rp_Thinking b) (rp_Sealed b) proto (rp_ReasoningID b)]
      | BlockToolCall \<Rightarrow>
          (let args = full_arguments (rp_Arguments b) in
           if d (rp_ToolName b) = ''custom''
           then [ToolCallB (rp_ToolCallID b) (rp_ToolName b) (responsesCustomToolArgs encode (unwrapCustomInput args)) None]
           else if d (rp_ToolName b) = ''local_shell''
           then [ToolCallB (rp_ToolCallID b) localShellToolName (responsesLocalShellArgs encode (localShellAction args)) None]
           else [ToolCallB (rp_ToolCallID b) (rp_ToolName b) args None])
      | _ \<Rightarrow> [])"

lemma full_not_blank: "trim_space (full_arguments a) \<noteq> ''''"
proof -
  have "trim_space ''{}'' = ''{}''" by code_simp
  then show ?thesis by (simp add: full_arguments_def)
qed

lemma call_returned:
  assumes "d (rp_ToolName b) = ''custom'' \<Longrightarrow> x = CustomCallItem i (rp_ToolCallID b) (rp_ToolName b) (unwrapCustomInput (full_arguments (rp_Arguments b)))"
    and "d (rp_ToolName b) = ''local_shell'' \<Longrightarrow>
        \<exists>a. localShellAction (full_arguments (rp_Arguments b)) = Some a \<and> x = ShellCallItem i (rp_ToolCallID b) (rp_ToolName b) a"
    and "d (rp_ToolName b) \<noteq> ''custom'' \<Longrightarrow> d (rp_ToolName b) \<noteq> ''local_shell'' \<Longrightarrow>
        x = FunctionCallItem i (rp_ToolCallID b) (rp_ToolName b) (full_arguments (rp_Arguments b))"
    and "rp_Type b = BlockToolCall"
  shows "returned_item encode said proto x = returned_response_part encode said proto d b"
proof -
  consider "d (rp_ToolName b) = ''custom''" | "d (rp_ToolName b) = ''local_shell''"
    | "d (rp_ToolName b) \<noteq> ''custom''" "d (rp_ToolName b) \<noteq> ''local_shell''" by blast
  then show ?thesis
  proof cases
    case 1
    with assms(1,4) show ?thesis by (simp add: returned_item_def returned_response_part_def Let_def)
  next
    case 2
    with assms(2,4) show ?thesis by (auto simp: returned_item_def returned_response_part_def Let_def)
  next
    case 3
    with assms(3,4) show ?thesis by (simp add: returned_item_def returned_response_part_def Let_def full_not_blank)
  qed
qed

lemma part_step:
  assumes "responses_parts proto i d n (b # bs) = Some out"
  shows "\<exists>xs n' out'. responses_parts proto i d n' bs = Some out' \<and> out = xs @ out' \<and>
    concat (map (returned_item encode said proto) xs) = returned_response_part encode said proto d b"
proof -
  let ?goal = "\<lambda>xs n' out'. responses_parts proto i d n' bs = Some out' \<and> out = xs @ out' \<and>
    concat (map (returned_item encode said proto) xs) = returned_response_part encode said proto d b"
  consider "rp_Type b = BlockText" | "rp_Type b = BlockThinking" "rp_SealedBy b \<noteq> '''' \<and> rp_SealedBy b \<noteq> proto"
    | "rp_Type b = BlockThinking" "\<not> (rp_SealedBy b \<noteq> '''' \<and> rp_SealedBy b \<noteq> proto)" | "rp_Type b = BlockToolCall"
    | "rp_Type b \<notin> {BlockText, BlockThinking, BlockToolCall}" by blast
  then show ?thesis
  proof cases
    case 1
    with assms obtain out' where "responses_parts proto i d (n + 1) bs = Some out'" "out = MessageItem (i @ ''-msg-'' @ itoa n) (Some (rp_Text b)) # out'"
      by auto
    with 1 have "?goal [MessageItem (i @ ''-msg-'' @ itoa n) (Some (rp_Text b))] (n + 1) out'"
      by (simp add: returned_item_def returned_response_part_def)
    then show ?thesis by blast
  next
    case 2
    with assms have "?goal [] n out" by (simp add: returned_response_part_def)
    then show ?thesis by blast
  next
    case 3
    define x where "x = ReasoningItem (rp_ReasoningID b) (Some (rp_Thinking b, nonempty (rp_Sealed b)))"
    from assms 3 obtain out' where "responses_parts proto i d n bs = Some out'" "out = x # out'" by (auto simp: x_def)
    moreover have "returned_item encode said proto x = returned_response_part encode said proto d b"
      using 3 by (simp add: x_def returned_item_def returned_response_part_def nonempty_def Let_def)
    ultimately have "?goal [x] n out'" by simp
    then show ?thesis by blast
  next
    case 4
    define args where "args = full_arguments (rp_Arguments b)"
    define item where "item = i @ ''-fc-'' @ rp_ToolCallID b"
    define call where "call = (if d (rp_ToolName b) = ''custom'' then Some (CustomCallItem item (rp_ToolCallID b) (rp_ToolName b) (unwrapCustomInput args))
        else if d (rp_ToolName b) = ''local_shell'' then map_option (ShellCallItem item (rp_ToolCallID b) (rp_ToolName b)) (localShellAction args)
        else Some (FunctionCallItem item (rp_ToolCallID b) (rp_ToolName b) args))"
    have step: "responses_parts proto i d n (b # bs) = (case call of None \<Rightarrow> None | Some x \<Rightarrow> map_option ((#) x) (responses_parts proto i d n bs))"
      using 4 by (simp add: Let_def call_def args_def item_def)
    obtain x out' where x: "call = Some x" "responses_parts proto i d n bs = Some out'" "out = x # out'"
      using assms unfolding step by (auto split: option.splits)
    have "returned_item encode said proto x = returned_response_part encode said proto d b"
      using x(1) 4 by (intro call_returned [where i = item]) (auto simp: call_def args_def)
    with x have "?goal [x] n out'" by simp
    then show ?thesis by blast
  next
    case 5
    with assms have "?goal [] n out" by (cases "rp_Type b") (simp_all add: returned_response_part_def)
    then show ?thesis by blast
  qed
qed

lemma parts_returned:
  "responses_parts proto i d n bs = Some out \<Longrightarrow>
   concat (map (returned_item encode said proto) out) = concat (map (returned_response_part encode said proto d) bs)"
proof (induction bs arbitrary: n out)
  case Nil
  then show ?case by simp
next
  case (Cons b bs)
  obtain xs n' out' where "responses_parts proto i d n' bs = Some out'" "out = xs @ out'"
    "concat (map (returned_item encode said proto) xs) = returned_response_part encode said proto d b"
    using part_step [OF Cons.prems] by blast
  with Cons.IH [OF this(1)] show ?case by simp
qed


definition demo_reply :: sdk_response where
  "demo_reply = \<lparr>sr_ID = ''r'', sr_Content =
     [\<lparr>rp_Type = BlockThinking, rp_Text = '''', rp_Thinking = ''so'', rp_Signature = '''', rp_ToolCallID = '''', rp_ToolName = '''', rp_Arguments = '''',
        rp_ReasoningID = ''rs'', rp_Sealed = ''x'', rp_SealedBy = ''responses''\<rparr>,
      \<lparr>rp_Type = BlockText, rp_Text = ''hi'', rp_Thinking = '''', rp_Signature = '''', rp_ToolCallID = '''', rp_ToolName = '''', rp_Arguments = '''',
        rp_ReasoningID = '''', rp_Sealed = '''', rp_SealedBy = ''''\<rparr>,
      \<lparr>rp_Type = BlockToolCall, rp_Text = '''', rp_Thinking = '''', rp_Signature = '''', rp_ToolCallID = ''t'', rp_ToolName = ''ls'', rp_Arguments = '' '',
        rp_ReasoningID = '''', rp_Sealed = '''', rp_SealedBy = ''''\<rparr>], sr_StopReason = StopToolUse, sr_Usage = demo_tokens\<rparr>"


section \<open>What is accepted\<close>

lemma plain_name: "rt_Type t = ''local_shell'' \<or> rt_Type t = ''custom'' \<Longrightarrow> td_Name (fst (responsesPlainTool t)) = snd (responsesPlainTool t)"
  by (auto simp: responsesPlainTool_def responsesToolDefinition_def Let_def)

lemma downgraded_from:
  "responsesDowngradedTools ts n \<noteq> '''' \<Longrightarrow>
   \<exists>t \<in> set ts. rt_Type t = responsesDowngradedTools ts n \<and> (rt_Type t = ''custom'' \<or> rt_Type t = ''local_shell'') \<and> snd (responsesPlainTool t) = n"
proof (induction ts rule: rev_induct)
  case Nil
  then show ?case by (simp add: responsesDowngradedTools_def)
next
  case (snoc t ts)
  have fold: "responsesDowngradedTools (ts @ [t]) = (if rt_Type t = ''custom'' \<or> rt_Type t = ''local_shell''
      then (responsesDowngradedTools ts)(snd (responsesPlainTool t) := rt_Type t) else responsesDowngradedTools ts)"
    by (simp add: responsesDowngradedTools_def)
  show ?case
  proof (cases "(rt_Type t = ''custom'' \<or> rt_Type t = ''local_shell'') \<and> snd (responsesPlainTool t) = n")
    case True
    then show ?thesis by (auto simp: fold)
  next
    case False
    then have "responsesDowngradedTools (ts @ [t]) n = responsesDowngradedTools ts n" by (auto simp: fold)
    with snoc show ?thesis by auto
  qed
qed

lemma downgraded_in_table:
  assumes "responsesDowngradedTools ts n \<noteq> ''''"
  shows "n \<in> set (map td_Name (flattenNamespaceTools ts)) \<and> responsesDowngradedTools ts n \<in> {''custom'', ''local_shell''}"
proof -
  obtain t where t: "t \<in> set ts" "rt_Type t = responsesDowngradedTools ts n" "rt_Type t = ''custom'' \<or> rt_Type t = ''local_shell''"
    "snd (responsesPlainTool t) = n"
    using downgraded_from [OF assms] by blast
  then have "rt_Type t \<noteq> ''namespace''" by auto
  with t have "fst (responsesPlainTool t) \<in> set (flattenNamespaceTools ts)"
    by (auto simp: flattenNamespaceTools_def intro!: bexI [of _ t])
  then have "td_Name (fst (responsesPlainTool t)) \<in> set (map td_Name (flattenNamespaceTools ts))" by simp
  with plain_name [OF t(3) [unfolded disj_commute [of "_ = ''custom''"]]] t show ?thesis by auto
qed

text \<open>A rewritten choice names a tool of the table.\<close>

lemma only_name_in: "only_name ns = Some n \<Longrightarrow> n \<in> set ns"
proof -
  assume "only_name ns = Some n"
  then have "remdups ns = [n]" by (auto simp: only_name_def split: list.splits)
  then have "set (remdups ns) = {n}" by simp
  then show ?thesis by simp
qed

lemma chosen_from: "map_option chosen (only_name (filter P ns)) = Some c \<Longrightarrow> \<exists>n. n \<in> set ns \<and> P n \<and> c = chosen n"
  by (auto dest!: only_name_in)

lemma rewritten_in_table: "rewriteToolChoice a flat = Some c \<Longrightarrow> \<exists>n \<in> set (map td_Name flat). c = chosen n"
  unfolding rewriteToolChoice_def rewriteNamespaceToolChoice_def
  by (auto simp del: map_option_eq_Some set_map filter_map dest!: chosen_from split: option.splits if_splits)

definition choice_known :: "ResponsesRequest \<Rightarrow> bool" where
  "choice_known a \<longleftrightarrow> effectiveToolChoice a = rr_ToolChoice a \<or>
     list_ex (\<lambda>n. effectiveToolChoice a = Some (chosen n)) (map td_Name (flattenNamespaceTools (rr_Tools a)))"

lemma choice_always_known: "choice_known a"
proof (cases "if rr_Tools a = [] then None else rewriteToolChoice a (flattenNamespaceTools (rr_Tools a))")
  case None
  then show ?thesis by (simp add: choice_known_def effectiveToolChoice_def)
next
  case (Some c)
  then have "rewriteToolChoice a (flattenNamespaceTools (rr_Tools a)) = Some c" by (auto split: if_splits)
  with Some rewritten_in_table [OF this] show ?thesis by (auto simp: choice_known_def effectiveToolChoice_def list_ex_iff)
qed

lemma supported_all: "first_unsupported i xs = None \<longleftrightarrow> list_all (\<lambda>x. it_Type x \<in> set responsesSupportedItemTypes) xs"
  by (induction i xs rule: first_unsupported.induct) auto



definition demo_responses_body :: string where
  "demo_responses_body = ''{\"model\":\"m\",\"input\":\"hi\",\"tools\":[{\"type\":\"custom\",\"name\":\"p\"},''
     @ ''{\"type\":\"namespace\",\"name\":\"s\",\"tools\":[{\"type\":\"function\",\"name\":\"ls\"}]}],''
     @ ''\"tool_choice\":{\"type\":\"function\",\"name\":\"ls\"}}''"

definition demo_responses :: ResponsesRequest where
  "demo_responses = projr (DecodeResponsesRequest (Some demo_responses_body) 300)"


section \<open>The format of the text, there and back\<close>

lemma member_Cons: "json_member k ((a, v) # g) = (case json_member k g of Some w \<Rightarrow> Some w | None \<Rightarrow> if k = a then Some v else None)"
  by (auto simp: json_member_def map_add_def split: option.split)

lemma member_copied: "json_member k (copy_keys ks f) = (if k \<in> set ks then json_member k f else None)"
proof (induction ks)
  case Nil
  then show ?case by (simp add: copy_keys_def json_member_def)
next
  case (Cons a ks)
  have "copy_keys (a # ks) f = (case json_member a f of Some v \<Rightarrow> (a, v) # copy_keys ks f | None \<Rightarrow> copy_keys ks f)"
    by (simp add: copy_keys_def split: option.split)
  with Cons show ?case by (auto simp: member_Cons split: option.splits if_splits)
qed

lemma copied_again:
  assumes "t \<notin> set ks"
  shows "copy_keys ks ((t, v) # copy_keys ks f) = copy_keys ks f"
proof -
  have "json_member k ((t, v) # copy_keys ks f) = json_member k f" if "k \<in> set ks" for k
    using that assms by (auto simp: member_Cons member_copied split: option.split)
  then show ?thesis unfolding copy_keys_def [of ks "_ # _"] copy_keys_def [of ks f] by (intro arg_cong [of _ _ concat] map_cong) auto
qed

text \<open>The format of the text survives the way to the shape of chat completions and back: the defaults need no expression in either, a schema
  keeps its name, its schema, its description and whether it is strict, and every other format keeps its type.\<close>

theorem text_format_roundtrip:
  "map_option (\<lambda>g. responseFormatToTextFormat (Some (JObj g))) (textFormatToResponseFormat f) =
    (if format_type f \<in> {'''', ''text''} then None
     else Some (Some ((''type'', JStr (format_type f)) # (if format_type f = ''json_schema'' then copy_keys schema_keys f else []))))"
proof -
  have ty: "format_type [(''type'', JStr t)] = t" "format_type [(''type'', JStr t), (''json_schema'', v)] = t"
    "json_member ''json_schema'' [(''type'', JStr t), (''json_schema'', v)] = Some v" for t v
    by (simp_all add: format_type_def json_member_def)
  have "copy_keys schema_keys ((''type'', JStr ''json_schema'') # copy_keys schema_keys f) = copy_keys schema_keys f"
    by (intro copied_again) (simp add: schema_keys_def)
  then show ?thesis
    by (simp add: textFormatToResponseFormat_def responseFormatToTextFormat_def raw_members_def to_members_def ty Let_def)
qed

section \<open>Where the code does less than it says\<close>

text \<open>Two namespaces may flatten to one name, and a choice of a namespace may pick a tool that is not in it.\<close>

definition namespace_tool :: "string \<Rightarrow> string list \<Rightarrow> responses_tool" where
  "namespace_tool n inner = ResponsesTool ''namespace'' n '''' None (map (\<lambda>i. ResponsesTool ''function'' i '''' None []) inner)"

lemma namespaces_collide:
  "map td_Name (flattenNamespaceTools [namespace_tool ''a'' [''b__c''], namespace_tool ''a__b'' [''c'']]) = [''a__b__c'', ''a__b__c'']"
  by code_simp

lemma choice_leaves_namespace:
  "rewriteNamespaceToolChoice ''a'' (flattenNamespaceTools [ResponsesTool ''function'' ''a__x'' '''' None []]) = Some (chosen ''a__x'')"
  by code_simp

text \<open>A freeform tool in a namespace is accepted, but is declared as it is and its calls are not turned back.\<close>

lemma freeform_in_namespace_lost:
  "(let t = ResponsesTool ''namespace'' ''a'' '''' None [ResponsesTool ''custom'' ''p'' '''' None []] in
    validateResponsesTool t \<and> responsesDowngradedTools [t] ''a__p'' = '''' \<and>
    map td_Parameters (flattenNamespaceTools [t]) = [Some (JObj [])])"
  by code_simp

text \<open>An input that is no list of items is accepted and leaves a request without messages.\<close>

lemma odd_input_lost:
  "(case DecodeResponsesRequest (Some ''{\"model\":\"m\",\"input\":{\"role\":\"user\",\"content\":\"hi\"}}'') 200 of
      Inr r \<Rightarrow> sq_Messages (responses_ToRosetta (\<lambda>_. '''') (\<lambda>_. '''') (\<lambda>t. [TextB t None]) (\<lambda>_. '''') ''responses'' r) = []
    | Inl _ \<Rightarrow> False)"
  by code_simp

text \<open>A format whose name has the wrong type counts as a structured output, but the request for the SDK has none.\<close>

lemma odd_format_lost:
  "(case DecodeResponsesRequest (Some ''{\"model\":\"m\",\"input\":\"hi\",\"text\":{\"format\":{\"type\":\"json_schema\",\"name\":1}}}'') 200 of
      Inr r \<Rightarrow> responses_RequiresStructuredOutput r \<and>
        sq_ResponseFormat (responses_ToRosetta (\<lambda>_. '''') (\<lambda>_. '''') (\<lambda>t. [TextB t None]) (\<lambda>_. '''') ''responses'' r) = None
    | Inl _ \<Rightarrow> False)"
  by code_simp

text \<open>Keys that differ only in case are no duplicates for the check, and both are stored in the one field.\<close>

lemma case_evades_check:
  "(case DecodeResponsesRequest (Some ''{\"model\":\"a\",\"MODEL\":\"b\",\"input\":\"hi\"}'') 200 of Inr r \<Rightarrow> rr_Model r = ''b'' | Inl _ \<Rightarrow> False)"
  by code_simp

end
