(* ===== verification/Spec2Isabelle.thy ===== *)
theory Spec2Isabelle
  imports Effort Ratelimit Guard Routing Breaker Credentials Pricing Settlement Quota
    Trace Errors Outcome Policy Access Request Reservations Accounts Drain Sequential Archive Responses InChat InAnthropic InResponses
begin

text \<open>
  Verification development for the Rosetta gateway, a proxy in Go that accepts requests in the wire formats of
  several vendors of language models, chooses an upstream for them, translates, forwards and bills them. Paths are
  relative to \<^verbatim>\<open>src/\<close>.

  \<^bold>\<open>The program.\<close> A request arrives at \<^verbatim>\<open>internal/dataplane/handler.go\<close>. \<open>Handle\<close> authenticates its key against an
  immutable snapshot of the configuration (\<^verbatim>\<open>internal/snapshot\<close>, \<^verbatim>\<open>internal/auth\<close>), counts it in the minute window of
  the key (\<^verbatim>\<open>internal/ratelimit\<close>), decodes it (\<^verbatim>\<open>internal/ingress\<close>), resolves its model to a chain of targets
  (\<^verbatim>\<open>internal/routing\<close>), reserves tokens with the lifetime quotas of key and user (\<^verbatim>\<open>internal/store\<close>,
  \<^verbatim>\<open>internal/dataplane/rate.go\<close>) and with the window, and checks that the prepaid balance covers the price of the chain
  (\<^verbatim>\<open>internal/billing\<close>). The failover lane then tries the targets in order, with the credentials and the circuit
  breaker of \<^verbatim>\<open>internal/upstream\<close>, until an attempt has written to the client. Failures are mapped, masked and
  classified (\<^verbatim>\<open>internal/outwire/errors.go\<close>, \<^verbatim>\<open>internal/dataplane/outcome.go\<close>). The attempt leaves one usage record; its
  cost is charged to the balance (\<^verbatim>\<open>internal/store/balance_dao.go\<close>), its reservations are returned.

  \<^bold>\<open>The theories\<close>, in the order of their imports:

  \<^item> \<open>Prelude\<close>: clock values, 64-bit wrap-around, Go's integer division, functions of \<^verbatim>\<open>strings\<close> and \<^verbatim>\<open>sort\<close>, finite
    maps with an explicit order of iteration.
  \<^item> \<open>Effort\<close> (\<^verbatim>\<open>internal/effort\<close>), \<open>Ratelimit\<close> (\<^verbatim>\<open>internal/ratelimit\<close>), \<open>Guard\<close> (\<^verbatim>\<open>internal/guard\<close>, the throttle of
    logins), \<open>Routing\<close> (\<^verbatim>\<open>internal/routing\<close>): one theory for each package, every operation of it.
  \<^item> \<open>Pool\<close>, \<open>Breaker\<close>, \<open>Credentials\<close>: \<^verbatim>\<open>internal/upstream/upstream.go\<close>; the state \<open>pool\<close>, the circuit breaker with its
    probes, and the table of providers with the choice of a credential.
  \<^item> \<open>Float64\<close>, \<open>Pricing\<close>: binary floating point as rounding on the rationals, and the prices, costs, estimates and
    the check of the balance in \<^verbatim>\<open>internal/store/pricing.go\<close> and \<^verbatim>\<open>internal/billing\<close>.
  \<^item> \<open>Ledger\<close>, \<open>Settlement\<close>: \<^verbatim>\<open>internal/store/balance_dao.go\<close> and \<^verbatim>\<open>topup_dao.go\<close>; the record \<open>ledger\<close> holds the balances,
    sub-cent remainders, charges and pending debts.
  \<^item> \<open>Quota\<close>: the quota columns of keys and users, the leases of running requests and the finalizer \<open>RateCommit\<close>.
  \<^item> \<open>Errors\<close>, \<open>Outcome\<close>, \<open>Trace\<close>: the mapping of upstream errors and the masking of their texts; the classification
    of attempts; the route trace and its parser in \<^verbatim>\<open>web/src/routeTrace.ts\<close>.
  \<^item> \<open>Policy\<close>: the timeouts and budgets of \<^verbatim>\<open>internal/dataplane/policy.go\<close> and the defaults they are computed from.
  \<^item> \<open>Access\<close>: the snapshot, how it is rebuilt from the rows of the store, and authentication.
  \<^item> \<open>Request\<close>: estimates, thinking settings, the replay gate and the cache key of a decoded request.
  \<^item> \<open>Admission\<close>, \<open>Lane\<close>, \<open>Attempt\<close>, \<open>Reservations\<close>: \<open>Handle\<close> itself. The record \<open>lane\<close> is what it works on (limiter,
    quotas, pool, occupied stream slots, its finalizer, replies, usage records), \<open>lane_env\<close> what the surroundings
    answer. \<open>Admission\<close> composes the components up to the choice of the targets, \<open>Lane\<close> is the loop over the targets
    for any attempt, \<open>Attempt\<close> the two kinds of attempt and the handler, \<open>Reservations\<close> the life of what it reserves.
  \<^item> \<open>Usage\<close>: the table of usage records of \<^verbatim>\<open>internal/store/usage_dao.go\<close> with its triggers, and the repairs of the
    maintenance task; the record \<open>store\<close> joins it with \<open>ledger\<close>, \<open>quota_db\<close> and the prices.
  \<^item> \<open>Recorder\<close>: \<^verbatim>\<open>internal/usage/recorder.go\<close>, the bounded queue, its worker with batches, repetitions and single
    writes, the requests that write by themselves and the shutdown. The record \<open>recorder\<close> is the state the goroutines
    share and the variables of the worker; \<open>step\<close> is one operation of one of them. \<open>Delivery\<close> reduces all of it to
    insertions, charges and notes (\<open>billing\<close>), \<open>Bookkeeping\<close> follows the jobs through every step, \<open>Accounts\<close> the
    counters and the money, \<open>Drain\<close> the shutdown, and \<open>Sequential\<close> relates runs without failures to their specification.
  \<^item> \<open>Archive\<close>: \<^verbatim>\<open>internal/store/usage_archive.go\<close> and \<^verbatim>\<open>usage_source.go\<close>; the record \<open>archive\<close> holds the daily sums and
    how far the records are archived, \<open>usageSource\<close> is the view the reports and the recomputed counters read.
  \<^item> \<open>Sinks\<close>, \<open>Json\<close>, \<open>Anthropic\<close>, \<open>Chat\<close>, \<open>Responses\<close>: the encoders of \<^verbatim>\<open>internal/outwire\<close> towards the client. \<open>Sinks\<close> has
    the events, the frames that are written with their first failure, the renumbering of tool calls and the interface \<open>StreamSink\<close>;
    \<open>Json\<close> is what the encoders use of \<^verbatim>\<open>encoding/json\<close>; the others have one encoder each (the records \<open>anthropicSSE\<close>,
    \<open>openaiSink\<close> with \<open>SSEWriter\<close>, \<open>responsesSSE\<close>), the complete object of the same reply, and a client that reads the frames.
  \<^item> \<open>Inbound\<close>, \<open>InChat\<close>, \<open>InAnthropic\<close>, \<open>InResponses\<close>: the decoders of \<^verbatim>\<open>internal/inwire\<close>. \<open>Inbound\<close> has the limit of a
    body, the check for duplicate keys, the decoding of a JSON object into the fields of a struct and the request of the SDK (\<open>sdk_request\<close>;
    a message is the call of the SDK that builds it); the others have one format each: its structs, what is validated, and the request that
    is built (\<open>chat_ToRosetta\<close>, \<open>anthropic_ToRosetta\<close>, \<open>responses_ToRosetta\<close>), with the flattening of namespaces of tools.

  \<^bold>\<open>State and effects.\<close> A Go struct is a record with the initials of its type as a prefix, an operation takes the
  state and returns it updated. A method that holds the mutex is one step; a transaction of the store is one step
  that either happens or fails, with the failure as an argument, so that a theorem covers every pattern of failures.
  Interleavings are lists of such steps. Errors are values of a sum. The clock, the order in which Go walks a map,
  random draws and the outcome of \<open>select\<close> are arguments too.

  \<^bold>\<open>Interfaces.\<close> \<open>rounding\<close> (Float64) is what the money computations need of floating point, provided by \<open>f64\<close>;
  \<open>window_quota\<close> (Ratelimit) is the contract of a counter per window, provided by the counters of requests and of
  tokens; \<open>token_quota\<close> (Quota) the contract of a reservation, provided by keys and by users; \<open>lane_contract\<close> and
  \<open>pool_frame\<close> (Lane) are what the failover lane needs of an attempt, provided by the attempts of the handler for
  five invariants: records, answers, probes, stream slots and reservations; \<open>stream_sink\<close> (Sinks) is a stream encoder together with its
  client, provided by the three encoders.

  \<^bold>\<open>What the theorems show.\<close> For the whole handler: a request returns what it reserved, is recorded at most once
  and consistently with its replies, is answered as long as its client stays, and leaves no probe behind. For the
  money: every request is charged once through failures and retries, a batch equals its sequence, settling and
  topping up conserve the money, the check covers the chain. For the recorder: no record
  vanishes, every record is stored and counted once and every cost collected once, through any interleaving and any
  failures; without failures it bills one record after the other; a shutdown comes to its end. Archiving old
  records changes neither the counting reports nor the recomputed counters. For the quotas and
  limits: no interleaving exceeds them. For routing and the pool:
  a resolved chain is what the store says, one probe at a time, blame only for failures of the upstream, clients only from
  usable credentials with the share of their weight. The route trace reads back. For the streams: whatever the upstream sends, every frame is one the protocol of the
  client allows, the client reads back the texts and calls that were sent, and the first failed write is the one that is reported.
  For the requests: what is accepted is well formed, tools that were turned into functions are found again under the names they are
  called by, and a reply that the client sends back is understood as the same texts, thoughts and calls. Findings are kept as theorems next to the code they are about.

  In the recorder every operation is one step: the writes of a batch, with its repetitions and charges, are not interleaved
  with those of a request that writes by itself, and the time of the database is that of the step.

  \<^bold>\<open>Bounds.\<close> Loops of the code are structural recursions over the lists they walk; there is no fuel. Nanosecond
  durations and the settings in milliseconds wrap at 64 bits where the code multiplies them (\<open>wrap64\<close>), tokens of
  the breaker are 64-bit words. Token counts, cents and other counters of the store are unbounded integers: the
  code has no overflow checks, and reaching \<open>2 ^ 63\<close> tokens is not considered. Floating point has no overflow, no subnormal
  numbers and no fused multiplication, which prices and token counts do not reach.

  \<^bold>\<open>Not modelled.\<close> The SDK (calls, retries, protocol detection), SQLite, the hash and cipher functions and the parsing
  of network addresses are parameters. The source of the SDK is not part of the repository, so
  what it makes of a request is open; of the decoders the texts of the errors and invalid UTF-8 are left out, of the encoders the JSON text of a frame, flushing and the
  deadlines of single writes are left out. The admin and
  portal pages decode HTTP around the operations of the store. Statistics and charts over the usage records, the timers of the
  stream watchdogs and of the recorder, diagnostics, logging, the probe, the server and the process around it are I/O. In the handler the
  watchdogs and the encoder are scripts: lists of events and the errors that are seen at each step; the encoders themselves are the
  theories of the sinks.
\<close>

end
